(* ===== verification/Prelude.thy ===== *)
theory Prelude
  imports Main "HOL-Library.Char_ord" "HOL-Library.List_Lexorder" "HOL-Library.Sublist"
    "HOL-Library.AList"
begin

text \<open>
  What every other theory of the development shares: the result type that stands for a Go
  function returning a value or an error, the collections of rewrite rules the component
  proofs are carried by, and generic facts about lists, strictly sorted lists and
  association lists (the development's model of a Go map that is iterated).

  A Go \<^verbatim>\<open>string\<close> or \<^verbatim>\<open>[]byte\<close> is an Isabelle \<open>string\<close>: a list of \<open>char\<close>, each of
  which is one byte. The order on strings is the lexicographic order on bytes, which is
  Go's order on strings.
\<close>

section \<open>Results\<close>

named_theorems result_simps "rewrite rules for results of fallible operations"

type_synonym ('e, 'a) result = "'e + 'a"

fun rbind :: "('e, 'a) result \<Rightarrow> ('a \<Rightarrow> ('e, 'b) result) \<Rightarrow> ('e, 'b) result" where
  "rbind (Inl e) f = Inl e"
| "rbind (Inr x) f = f x"

lemma rbind_eq_Inr [result_simps]:
  "rbind r f = Inr y \<longleftrightarrow> (\<exists>x. r = Inr x \<and> f x = Inr y)"
  by (cases r) auto

lemma rbind_eq_Inl [result_simps]:
  "rbind r f = Inl e \<longleftrightarrow> r = Inl e \<or> (\<exists>x. r = Inr x \<and> f x = Inl e)"
  by (cases r) auto

lemma rbind_unit_eq_Inr: "rbind r f = Inr y \<longleftrightarrow> r = Inr () \<and> f () = Inr y"
  by (cases r) auto

lemma if_Inl_eq_Inr [result_simps]:
  "(if c then Inl e else r) = Inr y \<longleftrightarrow> \<not> c \<and> r = Inr y"
  by simp

lemma rbind_cong [fundef_cong]:
  "r = r' \<Longrightarrow> (\<And>x. r' = Inr x \<Longrightarrow> f x = f' x) \<Longrightarrow> rbind r f = rbind r' f'"
  by (cases r') auto

text \<open>An error annotated on its way up, as \<^verbatim>\<open>fmt.Errorf\<close> with \<^verbatim>\<open>%w\<close> does.\<close>

fun rmap_err :: "('e \<Rightarrow> 'f) \<Rightarrow> ('e, 'a) result \<Rightarrow> ('f, 'a) result" where
  "rmap_err h (Inl e) = Inl (h e)"
| "rmap_err h (Inr x) = Inr x"

lemma rmap_err_eq_Inr [result_simps]: "rmap_err h r = Inr y \<longleftrightarrow> r = Inr y"
  by (cases r) auto

lemma rmap_err_eq_Inl [result_simps]:
  "rmap_err h r = Inl e \<longleftrightarrow> (\<exists>e'. r = Inl e' \<and> e = h e')"
  by (cases r) auto

text \<open>
  A loop that checks every element and stops at the first error.
\<close>

fun check_all :: "('a \<Rightarrow> ('e, unit) result) \<Rightarrow> 'a list \<Rightarrow> ('e, unit) result" where
  "check_all f [] = Inr ()"
| "check_all f (x # xs) = rbind (f x) (\<lambda>_. check_all f xs)"

lemma check_all_ok [result_simps]:
  "check_all f xs = Inr () \<longleftrightarrow> (\<forall>x \<in> set xs. f x = Inr ())"
  by (induction xs) (auto simp: result_simps)

lemma check_all_cong [fundef_cong]:
  "xs = ys \<Longrightarrow> (\<And>x. x \<in> set ys \<Longrightarrow> f x = g x) \<Longrightarrow> check_all f xs = check_all g ys"
  by (induction xs arbitrary: ys) (auto intro!: rbind_cong)

text \<open>A loop that maps every element and stops at the first error.\<close>

fun map_result :: "('a \<Rightarrow> ('e, 'b) result) \<Rightarrow> 'a list \<Rightarrow> ('e, 'b list) result" where
  "map_result f [] = Inr []"
| "map_result f (x # xs) = rbind (f x) (\<lambda>y. rbind (map_result f xs) (\<lambda>ys. Inr (y # ys)))"

lemma map_result_length: "map_result f xs = Inr ys \<Longrightarrow> length ys = length xs"
  by (induction xs arbitrary: ys) (auto simp: result_simps)

lemma map_result_nth:
  "map_result f xs = Inr ys \<Longrightarrow> i < length xs \<Longrightarrow> f (xs ! i) = Inr (ys ! i)"
  by (induction xs arbitrary: ys i) (auto simp: result_simps nth_Cons split: nat.splits)

lemma map_result_mem:
  "map_result f xs = Inr ys \<Longrightarrow> y \<in> set ys \<Longrightarrow> \<exists>x \<in> set xs. f x = Inr y"
  by (induction xs arbitrary: ys) (auto simp: result_simps)

lemma find_SomeD: "find P xs = Some x \<Longrightarrow> P x \<and> x \<in> set xs"
  by (induction xs) (auto split: if_splits)

section \<open>Strictly sorted lists\<close>

text \<open>
  Go's \<^verbatim>\<open>sort.Strings\<close> followed by dropping equal neighbours, and the strictly ascending
  lists it gives.
\<close>

abbreviation strictly_sorted :: "'a::linorder list \<Rightarrow> bool" where
  "strictly_sorted xs \<equiv> sorted_wrt (<) xs"

definition sorted_set :: "'a::linorder list \<Rightarrow> 'a list" where
  "sorted_set xs = remdups_adj (sort xs)"

lemma sorted_wrt_less_distinct: "strictly_sorted xs \<Longrightarrow> distinct xs"
  by (induction xs) auto

lemma set_sorted_set [simp]: "set (sorted_set xs) = set xs"
  by (simp add: sorted_set_def)

lemma sorted_distinct_strict: "sorted xs \<Longrightarrow> distinct xs \<Longrightarrow> strictly_sorted (xs :: 'a::linorder list)"
  by (induction xs) (auto simp: order.strict_iff_order)

lemma distinct_remdups_adj_sorted: "sorted (xs :: 'a::linorder list) \<Longrightarrow> distinct (remdups_adj xs)"
  by (induction xs rule: remdups_adj.induct) (auto simp: remdups_adj_set)

lemma strictly_sorted_sorted_set [simp]: "strictly_sorted (sorted_set xs)"
  unfolding sorted_set_def
  by (intro sorted_distinct_strict distinct_remdups_adj_sorted sorted_remdups_adj) simp_all

lemma strictly_sorted_eq_sorted: "strictly_sorted (xs :: 'a::linorder list) \<longleftrightarrow> sorted xs \<and> distinct xs"
  using sorted_distinct_strict sorted_wrt_less_distinct
  by (metis strict_sorted_iff)

lemma strictly_sorted_unique:
  "strictly_sorted xs \<Longrightarrow> strictly_sorted ys \<Longrightarrow> set xs = set ys \<Longrightarrow> xs = (ys :: 'a::linorder list)"
  by (simp add: strictly_sorted_eq_sorted sorted_distinct_set_unique)

lemma sorted_set_cong: "set xs = set ys \<Longrightarrow> sorted_set xs = sorted_set (ys :: 'a::linorder list)"
  by (rule strictly_sorted_unique) simp_all

lemma sorted_set_id: "strictly_sorted xs \<Longrightarrow> sorted_set xs = xs"
  by (rule strictly_sorted_unique) simp_all

text \<open>Sorting the keys of a map that is iterated in no particular order.\<close>

definition sorted_keys :: "('a::linorder \<times> 'b) list \<Rightarrow> 'a list" where
  "sorted_keys m = sorted_set (map fst m)"

lemma set_sorted_keys [simp]: "set (sorted_keys m) = fst ` set m"
  by (simp add: sorted_keys_def)

lemma sorted_keys_perm: "set m = set m' \<Longrightarrow> sorted_keys m = sorted_keys m'"
  by (auto simp: sorted_keys_def intro!: sorted_set_cong)

section \<open>Lists\<close>

lemma takeWhile_append_stop: "(\<forall>x \<in> set xs. P x) \<Longrightarrow> \<not> P y \<Longrightarrow> takeWhile P (xs @ y # ys) = xs"
  by (induction xs) auto

lemma dropWhile_append_stop: "(\<forall>x \<in> set xs. P x) \<Longrightarrow> \<not> P y \<Longrightarrow> dropWhile P (xs @ y # ys) = y # ys"
  by (induction xs) auto

lemma takeWhile_all: "(\<forall>x \<in> set xs. P x) \<Longrightarrow> takeWhile P xs = xs"
  by (induction xs) auto

lemma dropWhile_all: "(\<forall>x \<in> set xs. P x) \<Longrightarrow> dropWhile P xs = []"
  by (induction xs) auto

lemma map_of_mem_distinct: "distinct (map fst al) \<Longrightarrow> map_of al k = Some v \<longleftrightarrow> (k, v) \<in> set al"
  by (auto dest: map_of_SomeD)

section \<open>Tables\<close>

text \<open>
  An association list that gives every key of a list the value a function has at it. Sorting
  its values by the key they carry lists the function over the sorted keys.
\<close>

definition is_table :: "'k list \<Rightarrow> ('k \<Rightarrow> 'v) \<Rightarrow> ('k \<times> 'v) list \<Rightarrow> bool" where
  "is_table ks g al \<longleftrightarrow> distinct (map fst al) \<and>
     (\<forall>k. map_of al k = (if k \<in> set ks then Some (g k) else None))"

lemma is_table_lookup: "is_table ks g al \<Longrightarrow> map_of al k = (if k \<in> set ks then Some (g k) else None)"
  by (simp add: is_table_def)

lemma is_table_mem: "is_table ks g al \<Longrightarrow> (k, v) \<in> set al \<longleftrightarrow> k \<in> set ks \<and> v = g k"
  unfolding is_table_def by (metis map_of_mem_distinct option.distinct(1) option.inject)

lemma is_table_keys: "is_table ks g al \<Longrightarrow> fst ` set al = set ks"
  unfolding dom_map_of_conv_image_fst [symmetric] by (auto simp: dom_def is_table_def split: if_splits)

lemma is_table_empty [simp]: "is_table [] g []"
  by (simp add: is_table_def)

lemma is_table_update:
  assumes "is_table ks g al" "\<And>k'. k' \<noteq> k \<Longrightarrow> g' k' = g k'" "v = g' k"
  shows "is_table (ks @ [k]) g' (AList.update k v al)"
  using assms by (auto simp: is_table_def update_conv' distinct_update)

lemma sort_key_by_names:
  "distinct (map f xs) \<Longrightarrow> strictly_sorted (map f (sort_key f xs))"
  by (auto simp: strictly_sorted_eq_sorted distinct_map)

lemma is_table_sorted:
  fixes ks :: "'k::linorder list"
  assumes t: "is_table ks g al" and f: "\<And>k. f (g k) = k"
  shows "sort_key f (map snd al) = map g (sorted_set ks)"
proof -
  have names: "map f (map snd al) = map fst al"
    using is_table_mem [OF t] f by auto
  let ?qs = "sort_key f (map snd al)"
  have "map f ?qs = sorted_set ks"
  proof (rule strictly_sorted_unique)
    show "strictly_sorted (map f ?qs)"
      by (rule sort_key_by_names) (unfold names, use t in \<open>simp add: is_table_def\<close>)
    show "set (map f ?qs) = set (sorted_set ks)"
      using arg_cong [OF names, of set] is_table_keys [OF t] by (simp add: image_image)
  qed simp
  moreover have "?qs = map g (map f ?qs)"
    using is_table_mem [OF t] f by (auto intro!: map_idI [symmetric])
  ultimately show ?thesis by metis
qed

end
