(* ===== verification/GoBytes.thy ===== *)
theory GoBytes
  imports Prelude
begin

text \<open>
  The operations of Go's packages \<^verbatim>\<open>strings\<close>, \<^verbatim>\<open>bytes\<close>, \<^verbatim>\<open>strconv\<close> and
  \<^verbatim>\<open>encoding/hex\<close> that the modelled code uses, on byte strings. An index that Go
  reports as -1 is \<open>None\<close>.
\<close>

section \<open>Prefixes, searching and cutting\<close>

definition has_prefix :: "string \<Rightarrow> string \<Rightarrow> bool" where
  "has_prefix s p = prefix p s"

definition has_suffix :: "string \<Rightarrow> string \<Rightarrow> bool" where
  "has_suffix s p = suffix p s"

definition cut_prefix :: "string \<Rightarrow> string \<Rightarrow> string option" where
  "cut_prefix s p = (if prefix p s then Some (drop (length p) s) else None)"

definition trim_prefix :: "string \<Rightarrow> string \<Rightarrow> string" where
  "trim_prefix s p = (if prefix p s then drop (length p) s else s)"

definition trim_suffix :: "string \<Rightarrow> string \<Rightarrow> string" where
  "trim_suffix s p = (if suffix p s then take (length s - length p) s else s)"

lemma cut_prefix_Some [simp]: "cut_prefix s p = Some r \<longleftrightarrow> s = p @ r"
  by (auto simp: cut_prefix_def prefix_def)

lemma cut_prefix_append [simp]: "cut_prefix (p @ r) p = Some r"
  by simp

lemma has_prefix_append [simp]: "has_prefix (p @ r) p"
  by (simp add: has_prefix_def)

lemma has_prefix_iff: "has_prefix s p \<longleftrightarrow> (\<exists>r. s = p @ r)"
  by (auto simp: has_prefix_def prefix_def)

text \<open>The first index of a byte, and of a substring.\<close>

fun index_byte :: "string \<Rightarrow> char \<Rightarrow> nat option" where
  "index_byte [] c = None"
| "index_byte (x # xs) c = (if x = c then Some 0 else map_option Suc (index_byte xs c))"

fun index_str :: "string \<Rightarrow> string \<Rightarrow> nat option" where
  "index_str [] p = (if p = [] then Some 0 else None)"
| "index_str (x # xs) p =
     (if prefix p (x # xs) then Some 0 else map_option Suc (index_str xs p))"

text \<open>The last index of a substring.\<close>

fun last_index_str :: "string \<Rightarrow> string \<Rightarrow> nat option" where
  "last_index_str [] p = (if p = [] then Some 0 else None)"
| "last_index_str (x # xs) p =
     (case last_index_str xs p of
        Some i \<Rightarrow> Some (Suc i)
      | None \<Rightarrow> if prefix p (x # xs) then Some 0 else None)"

lemma index_byte_Some:
  "index_byte s c = Some i \<longleftrightarrow> i < length s \<and> s ! i = c \<and> c \<notin> set (take i s)"
proof (induction s arbitrary: i)
  case (Cons x xs)
  then show ?case by (cases i) auto
qed simp

lemma index_byte_None [simp]: "index_byte s c = None \<longleftrightarrow> c \<notin> set s"
  by (induction s) auto

lemma index_byte_append: "c \<notin> set a \<Longrightarrow> index_byte (a @ c # b) c = Some (length a)"
  by (induction a) auto

lemma index_str_Some:
  "index_str s p = Some i \<Longrightarrow> \<exists>a r. s = a @ p @ r \<and> length a = i"
proof (induction s p arbitrary: i rule: index_str.induct)
  case (2 x xs p)
  show ?case
  proof (cases "prefix p (x # xs)")
    case True
    with 2 show ?thesis by (auto simp: prefix_def)
  next
    case False
    with 2 obtain j a r where "i = Suc j" "xs = a @ p @ r" "length a = j" by auto
    then show ?thesis by (intro exI [of _ "x # a"] exI [of _ r]) simp
  qed
qed (simp split: if_splits)

lemma last_index_str_Some:
  "last_index_str s p = Some i \<Longrightarrow> \<exists>a r. s = a @ p @ r \<and> length a = i"
proof (induction s p arbitrary: i rule: last_index_str.induct)
  case (2 x xs p)
  show ?case
  proof (cases "last_index_str xs p")
    case None
    with 2 show ?thesis by (auto simp: prefix_def split: if_splits)
  next
    case (Some j)
    with 2 obtain a r where "i = Suc j" "xs = a @ p @ r" "length a = j" by auto
    then show ?thesis by (intro exI [of _ "x # a"] exI [of _ r]) simp
  qed
qed (simp split: if_splits)

text \<open>\<^verbatim>\<open>Cut\<close>: what is before and after the first separator.\<close>

definition cut_str :: "string \<Rightarrow> string \<Rightarrow> (string \<times> string) option" where
  "cut_str s sep =
     (case index_str s sep of None \<Rightarrow> None | Some i \<Rightarrow> Some (take i s, drop (i + length sep) s))"

definition cut_byte :: "string \<Rightarrow> char \<Rightarrow> (string \<times> string) option" where
  "cut_byte s c =
     (case index_byte s c of None \<Rightarrow> None | Some i \<Rightarrow> Some (take i s, drop (Suc i) s))"

lemma cut_str_Some: "cut_str s sep = Some (a, b) \<Longrightarrow> s = a @ sep @ b"
  by (auto simp: cut_str_def split: option.splits dest!: index_str_Some)

lemma cut_byte_Some: "cut_byte s c = Some (a, b) \<longleftrightarrow> s = a @ c # b \<and> c \<notin> set a"
proof
  assume "cut_byte s c = Some (a, b)"
  then show "s = a @ c # b \<and> c \<notin> set a"
    by (auto simp: cut_byte_def index_byte_Some id_take_nth_drop [symmetric] split: option.splits)
next
  assume "s = a @ c # b \<and> c \<notin> set a"
  then show "cut_byte s c = Some (a, b)"
    by (simp add: cut_byte_def index_byte_append)
qed

lemma cut_byte_None [simp]: "cut_byte s c = None \<longleftrightarrow> c \<notin> set s"
  by (auto simp: cut_byte_def split: option.splits simp flip: index_byte_None)

lemma cut_str_single: "cut_str s [c] = cut_byte s c"
proof -
  have "index_str s [c] = index_byte s c" by (induction s) auto
  then show ?thesis by (cases "index_byte s c") (auto simp: cut_str_def cut_byte_def simp del: index_byte_None)
qed

section \<open>Splitting and joining\<close>

text \<open>\<^verbatim>\<open>strings.Split\<close> at a one-byte separator: never the empty list.\<close>

fun split_byte :: "char \<Rightarrow> string \<Rightarrow> string list" where
  "split_byte c [] = [[]]"
| "split_byte c (x # xs) =
     (if x = c then [] # split_byte c xs
      else case split_byte c xs of [] \<Rightarrow> [[x]] | w # ws \<Rightarrow> (x # w) # ws)"

fun join_str :: "string \<Rightarrow> string list \<Rightarrow> string" where
  "join_str sep [] = []"
| "join_str sep [w] = w"
| "join_str sep (w # v # ws) = w @ sep @ join_str sep (v # ws)"

lemma split_byte_nonempty [simp]: "split_byte c s \<noteq> []"
  by (induction s) (auto split: list.splits)

lemma join_str_Cons: "ws \<noteq> [] \<Longrightarrow> join_str sep (w # ws) = w @ sep @ join_str sep ws"
  by (cases ws) auto

lemma join_split_byte [simp]: "join_str [c] (split_byte c s) = s"
proof (induction s)
  case (Cons x xs)
  obtain w ws where "split_byte c xs = w # ws" by (cases "split_byte c xs") auto
  with Cons show ?case by (cases ws) auto
qed simp

lemma split_byte_no_sep: "w \<in> set (split_byte c s) \<Longrightarrow> c \<notin> set w"
  by (induction s arbitrary: w) (auto split: list.splits if_splits)

lemma split_byte_notin: "c \<notin> set s \<Longrightarrow> split_byte c s = [s]"
  by (induction s) auto

lemma split_byte_append: "c \<notin> set a \<Longrightarrow> split_byte c (a @ c # b) = a # split_byte c b"
  by (induction a) auto

lemma split_join_byte:
  "ws \<noteq> [] \<Longrightarrow> \<forall>w \<in> set ws. c \<notin> set w \<Longrightarrow> split_byte c (join_str [c] ws) = ws"
proof (induction ws)
  case (Cons w ws)
  then show ?case by (cases ws) (auto simp: split_byte_notin split_byte_append join_str_Cons)
qed simp

lemma split_byte_inj: "split_byte c s = split_byte c t \<Longrightarrow> s = t"
  by (metis join_split_byte)

section \<open>Trimming\<close>

definition trim_left :: "(char \<Rightarrow> bool) \<Rightarrow> string \<Rightarrow> string" where
  "trim_left P s = dropWhile P s"

definition trim_right :: "(char \<Rightarrow> bool) \<Rightarrow> string \<Rightarrow> string" where
  "trim_right P s = rev (dropWhile P (rev s))"

lemma trim_right_id: "s = [] \<or> \<not> P (last s) \<Longrightarrow> trim_right P s = s"
  by (cases s rule: rev_cases) (auto simp: trim_right_def)

section \<open>Numbers\<close>

text \<open>The value of a byte.\<close>

definition byte_val :: "char \<Rightarrow> nat" where
  "byte_val c = of_char c"

lemma byte_val_less [simp]: "byte_val c < 256"
  by (simp add: byte_val_def)

lemma byte_val_inj [simp]: "byte_val c = byte_val d \<longleftrightarrow> c = d"
  by (simp add: byte_val_def)

lemma char_of_byte_val [simp]: "char_of (byte_val c) = c"
  by (simp add: byte_val_def)

lemma byte_val_char_of [simp]: "n < 256 \<Longrightarrow> byte_val (char_of n) = n"
  by (simp add: byte_val_def)

definition is_digit :: "char \<Rightarrow> bool" where
  "is_digit c \<longleftrightarrow> 48 \<le> byte_val c \<and> byte_val c \<le> 57"

definition digit_val :: "char \<Rightarrow> nat" where
  "digit_val c = byte_val c - 48"

definition digit_char :: "nat \<Rightarrow> char" where
  "digit_char n = char_of (48 + n)"

lemma digit_char_props [simp]:
  "n < 10 \<Longrightarrow> is_digit (digit_char n)" "n < 10 \<Longrightarrow> digit_val (digit_char n) = n"
  by (simp_all add: is_digit_def digit_val_def digit_char_def)

lemma digit_char_val [simp]: "is_digit c \<Longrightarrow> digit_char (digit_val c) = c"
  by (simp add: is_digit_def digit_val_def digit_char_def byte_val_def)

lemma digit_val_less [simp]: "is_digit c \<Longrightarrow> digit_val c < 10"
  by (auto simp: is_digit_def digit_val_def)

text \<open>\<^verbatim>\<open>strconv.Itoa\<close> on a number that is not negative.\<close>

fun itoa :: "nat \<Rightarrow> string" where
  "itoa n = (if n < 10 then [digit_char n] else itoa (n div 10) @ [digit_char (n mod 10)])"

declare itoa.simps [simp del]

text \<open>The number a string of decimal digits writes.\<close>

definition decimal :: "string \<Rightarrow> nat" where
  "decimal s = foldl (\<lambda>n c. 10 * n + digit_val c) 0 s"

lemma decimal_snoc [simp]: "decimal (s @ [c]) = 10 * decimal s + digit_val c"
  by (simp add: decimal_def)

lemma decimal_Nil [simp]: "decimal [] = 0"
  by (simp add: decimal_def)

lemma decimal_single [simp]: "decimal [c] = digit_val c"
  by (simp add: decimal_def)

lemma itoa_nonempty [simp]: "itoa n \<noteq> []"
  by (subst itoa.simps) simp

lemma length_itoa: "n < 10 ^ k \<Longrightarrow> 0 < k \<Longrightarrow> length (itoa n) \<le> k"
proof (induction k arbitrary: n)
  case (Suc k)
  show ?case
  proof (cases "n < 10")
    case False
    with Suc have "n div 10 < 10 ^ k" by (simp add: less_mult_imp_div_less mult.commute)
    moreover have "0 < k" using False Suc.prems by (cases k) auto
    ultimately have "length (itoa (n div 10)) \<le> k" using Suc.IH by simp
    then show ?thesis using False by (subst itoa.simps) simp
  qed (simp add: itoa.simps [of n])
qed simp

lemma itoa_digits: "\<forall>c \<in> set (itoa n). is_digit c"
proof (induction n rule: itoa.induct)
  case (1 n)
  then show ?case by (cases "n < 10") (auto simp: itoa.simps [of n])
qed

lemma decimal_itoa [simp]: "decimal (itoa n) = n"
proof (induction n rule: itoa.induct)
  case (1 n)
  then show ?case by (cases "n < 10") (auto simp: itoa.simps [of n])
qed

lemma decimal_less: "\<forall>c \<in> set s. is_digit c \<Longrightarrow> decimal s < 10 ^ length s"
proof (induction s rule: rev_induct)
  case (snoc c s)
  then have "decimal s < 10 ^ length s" "digit_val c < 10" by auto
  then show ?case by simp
qed simp

text \<open>
  A number without a leading zero is written back as it was read: the two functions are
  inverse on canonical decimals.
\<close>

definition canonical_decimal :: "string \<Rightarrow> bool" where
  "canonical_decimal s \<longleftrightarrow>
     s \<noteq> [] \<and> (\<forall>c \<in> set s. is_digit c) \<and> (hd s = CHR ''0'' \<longrightarrow> length s = 1)"

lemma digit_val_zero: "is_digit c \<Longrightarrow> digit_val c = 0 \<longleftrightarrow> c = CHR ''0''"
proof -
  assume d: "is_digit c"
  have "digit_val c = 0 \<longleftrightarrow> byte_val c = byte_val (CHR ''0'')"
    using d by (auto simp: is_digit_def digit_val_def byte_val_def)
  then show ?thesis by simp
qed

lemma itoa_canonical: "canonical_decimal (itoa n)"
proof -
  have "hd (itoa n) = CHR ''0'' \<longrightarrow> n = 0"
  proof (induction n rule: itoa.induct)
    case (1 n)
    have "n < 10 \<Longrightarrow> digit_char n = CHR ''0'' \<Longrightarrow> n = 0"
      by (metis digit_char_props digit_val_zero)
    with 1 show ?case by (cases "n < 10") (auto simp: itoa.simps [of n])
  qed
  then show ?thesis
    by (auto simp: canonical_decimal_def itoa_digits itoa.simps [of 0])
qed

lemma decimal_pos: "canonical_decimal s \<Longrightarrow> length s > 1 \<Longrightarrow> 0 < decimal s"
proof (induction s rule: rev_induct)
  case (snoc c s)
  show ?case
  proof (cases "length s > 1")
    case True
    then have "canonical_decimal s"
      using snoc.prems by (cases s) (auto simp: canonical_decimal_def)
    with True snoc.IH show ?thesis by simp
  next
    case False
    with snoc.prems obtain d where "s = [d]" by (cases s) auto
    with snoc.prems have "digit_val d \<noteq> 0"
      by (auto simp: canonical_decimal_def digit_val_zero)
    with \<open>s = [d]\<close> show ?thesis by (simp add: decimal_def)
  qed
qed simp

lemma itoa_decimal: "canonical_decimal s \<Longrightarrow> itoa (decimal s) = s"
proof (induction s rule: rev_induct)
  case (snoc c s)
  show ?case
  proof (cases "s = []")
    case True
    with snoc.prems show ?thesis
      by (simp add: canonical_decimal_def itoa.simps [of "digit_val c"])
  next
    case False
    with snoc.prems have cs: "canonical_decimal s" and d: "is_digit c" and z: "hd s \<noteq> CHR ''0''"
      by (cases s; auto simp: canonical_decimal_def)+
    have "0 < decimal s"
    proof (cases "length s > 1")
      case True
      with cs show ?thesis by (rule decimal_pos)
    next
      case False
      with \<open>s \<noteq> []\<close> obtain e where "s = [e]" by (cases s) auto
      with cs z show ?thesis by (auto simp: canonical_decimal_def digit_val_zero intro!: gr0I)
    qed
    then show ?thesis
      using snoc.IH [OF cs] d by (subst itoa.simps) simp
  qed
qed (simp add: canonical_decimal_def)

section \<open>Hexadecimal\<close>

definition hex_digit :: "nat \<Rightarrow> char" where
  "hex_digit n = (if n < 10 then char_of (48 + n) else char_of (87 + n))"

definition is_lower_hex :: "char \<Rightarrow> bool" where
  "is_lower_hex c \<longleftrightarrow>
     48 \<le> byte_val c \<and> byte_val c \<le> 57 \<or> 97 \<le> byte_val c \<and> byte_val c \<le> 102"

definition hex_val :: "char \<Rightarrow> nat" where
  "hex_val c = (if byte_val c \<le> 57 then byte_val c - 48 else byte_val c - 87)"

fun hex_encode :: "string \<Rightarrow> string" where
  "hex_encode [] = []"
| "hex_encode (c # cs) =
     hex_digit (byte_val c div 16) # hex_digit (byte_val c mod 16) # hex_encode cs"

text \<open>\<^verbatim>\<open>hex.Decode\<close> on input known to be pairs of lowercase hex digits.\<close>

fun hex_decode :: "string \<Rightarrow> string" where
  "hex_decode (a # b # cs) = char_of (16 * hex_val a + hex_val b) # hex_decode cs"
| "hex_decode _ = []"

lemma hex_digit_props [simp]:
  "n < 16 \<Longrightarrow> is_lower_hex (hex_digit n)" "n < 16 \<Longrightarrow> hex_val (hex_digit n) = n"
  by (auto simp: is_lower_hex_def hex_digit_def hex_val_def)

lemma hex_digit_val [simp]: "is_lower_hex c \<Longrightarrow> hex_digit (hex_val c) = c"
  by (auto simp: is_lower_hex_def hex_digit_def hex_val_def byte_val_def)

lemma hex_val_less [simp]: "is_lower_hex c \<Longrightarrow> hex_val c < 16"
  by (auto simp: is_lower_hex_def hex_val_def)

lemma byte_val_div_16 [simp]: "byte_val c div 16 < 16"
  using byte_val_less [of c] by (simp add: less_mult_imp_div_less)

lemma length_hex_encode [simp]: "length (hex_encode s) = 2 * length s"
  by (induction s) auto

lemma hex_encode_lower: "\<forall>c \<in> set (hex_encode s). is_lower_hex c"
proof (induction s)
  case (Cons c s)
  then show ?case by simp
qed simp

lemma hex_decode_encode [simp]: "hex_decode (hex_encode s) = s"
proof (induction s)
  case (Cons c s)
  then show ?case by (simp add: byte_val_div_16 [unfolded byte_val_def] byte_val_def)
qed simp

lemma hex_encode_decode:
  "\<forall>c \<in> set s. is_lower_hex c \<Longrightarrow> even (length s) \<Longrightarrow> hex_encode (hex_decode s) = s"
proof (induction s rule: hex_decode.induct)
  case (1 a b cs)
  have ab: "hex_val a < 16" "hex_val b < 16" using 1 by auto
  then have v: "byte_val (char_of (16 * hex_val a + hex_val b)) = 16 * hex_val a + hex_val b"
    by (intro byte_val_char_of) simp
  show ?case using 1 ab by (simp add: v)
qed simp_all

lemma length_hex_decode: "length (hex_decode s) = length s div 2"
  by (induction s rule: hex_decode.induct) auto

end
