(* ===== verification/GoText.thy ===== *)
theory GoText
  imports GoBytes
begin

text \<open>
  What the code uses of Go's packages \<^verbatim>\<open>unicode/utf8\<close> and \<^verbatim>\<open>encoding/json\<close> on strings:
  cutting a byte string into the encodings of its runes, deciding whether it is valid
  UTF-8, writing a string as a JSON string with \<^verbatim>\<open>SetEscapeHTML(false)\<close>, and reading one
  back as \<^verbatim>\<open>json.Unmarshal\<close> into a string does.
\<close>

section \<open>UTF-8\<close>

definition byte_in :: "string \<Rightarrow> nat \<Rightarrow> nat \<Rightarrow> nat \<Rightarrow> bool" where
  "byte_in s i lo hi \<longleftrightarrow> i < length s \<and> lo \<le> byte_val (s ! i) \<and> byte_val (s ! i) \<le> hi"

text \<open>
  The length of the rune's encoding at the head of a string, 0 where the head encodes no
  rune: Go's \<^verbatim>\<open>first\<close> and \<^verbatim>\<open>acceptRanges\<close> tables written out.
\<close>

definition second_lo :: "string \<Rightarrow> nat" where
  "second_lo s = (if byte_in s 0 224 224 then 160 else if byte_in s 0 240 240 then 144 else 128)"

definition second_hi :: "string \<Rightarrow> nat" where
  "second_hi s = (if byte_in s 0 237 237 then 159 else if byte_in s 0 244 244 then 143 else 191)"

definition utf8_len :: "string \<Rightarrow> nat" where
  "utf8_len s =
     (if byte_in s 0 0 127 then 1
      else if byte_in s 0 194 223 \<and> byte_in s 1 128 191 then 2
      else if byte_in s 0 224 239 \<and> byte_in s 1 (second_lo s) (second_hi s)
        \<and> byte_in s 2 128 191 then 3
      else if byte_in s 0 240 244 \<and> byte_in s 1 (second_lo s) (second_hi s)
        \<and> byte_in s 2 128 191 \<and> byte_in s 3 128 191 then 4
      else 0)"

text \<open>
  The string cut at its runes: each piece is one rune's encoding, or one byte that is part
  of none, as \<^verbatim>\<open>range\<close> over a string steps.
\<close>

function chunks :: "string \<Rightarrow> string list" where
  "chunks s =
     (if s = [] then []
      else take (max 1 (utf8_len s)) s # chunks (drop (max 1 (utf8_len s)) s))"
  by pat_completeness auto
termination
  by (relation "measure length") auto

declare chunks.simps [simp del]

definition is_rune :: "string \<Rightarrow> bool" where
  "is_rune w \<longleftrightarrow> w \<noteq> [] \<and> utf8_len w = length w"

definition utf8_valid :: "string \<Rightarrow> bool" where
  "utf8_valid s \<longleftrightarrow> list_all is_rune (chunks s)"

text \<open>The rune a valid encoding stands for.\<close>

fun rune_val :: "string \<Rightarrow> nat" where
  "rune_val [a] = byte_val a"
| "rune_val [a, b] = (byte_val a mod 32) * 64 + byte_val b mod 64"
| "rune_val [a, b, c] = ((byte_val a mod 16) * 64 + byte_val b mod 64) * 64 + byte_val c mod 64"
| "rune_val [a, b, c, d] =
     (((byte_val a mod 8) * 64 + byte_val b mod 64) * 64 + byte_val c mod 64) * 64
     + byte_val d mod 64"
| "rune_val _ = 65533"

text \<open>\<^verbatim>\<open>utf8.RuneError\<close> stands for a byte that is part of no rune.\<close>

definition rune_of :: "string \<Rightarrow> nat" where
  "rune_of w = (if is_rune w then rune_val w else 65533)"

definition runes :: "string \<Rightarrow> nat list" where
  "runes s = map rune_of (chunks s)"

text \<open>\<^verbatim>\<open>utf8.AppendRune\<close>: a surrogate or a value past the last rune is written as U+FFFD.\<close>

definition utf8_encode :: "nat \<Rightarrow> string" where
  "utf8_encode r =
     (if r < 128 then [char_of r]
      else if r < 2048 then [char_of (192 + r div 64), char_of (128 + r mod 64)]
      else if 55296 \<le> r \<and> r \<le> 57343 \<or> 1114111 < r then [char_of (239::nat), char_of (191::nat), char_of (189::nat)]
      else if r < 65536 then
        [char_of (224 + r div 4096), char_of (128 + r div 64 mod 64), char_of (128 + r mod 64)]
      else
        [char_of (240 + r div 262144), char_of (128 + r div 4096 mod 64),
         char_of (128 + r div 64 mod 64), char_of (128 + r mod 64)])"

lemma chunks_Nil [simp]: "chunks [] = []"
  by (simp add: chunks.simps)

lemma concat_chunks [simp]: "concat (chunks s) = s"
proof (induction s rule: chunks.induct)
  case (1 s)
  then show ?case by (cases "s = []") (simp_all add: chunks.simps [of s])
qed

lemma byte_in_append: "byte_in s i lo hi \<Longrightarrow> byte_in (s @ t) i lo hi"
  by (auto simp: byte_in_def nth_append)

lemma byte_in_append_iff: "i < length s \<Longrightarrow> byte_in (s @ t) i lo hi \<longleftrightarrow> byte_in s i lo hi"
  by (auto simp: byte_in_def nth_append)

lemma byte_in_less: "byte_in s i lo hi \<Longrightarrow> Suc i \<le> length s"
  by (simp add: byte_in_def)

lemma utf8_len_le: "utf8_len s \<le> length s"
proof -
  have if_le: "(c \<Longrightarrow> x \<le> n) \<Longrightarrow> (\<not> c \<Longrightarrow> y \<le> n) \<Longrightarrow> (if c then x else y) \<le> n"
    for c and x y n :: nat by simp
  have "byte_in s 0 l h \<Longrightarrow> 1 \<le> length s" "byte_in s 1 l h \<Longrightarrow> 2 \<le> length s"
    "byte_in s 2 l h \<Longrightarrow> 3 \<le> length s" "byte_in s 3 l h \<Longrightarrow> 4 \<le> length s" for l h
    by (auto dest: byte_in_less)
  then show ?thesis
    unfolding utf8_len_def by (intro if_le; (blast | simp))
qed

lemma byte_in_Cons [simp]:
  "byte_in (a # s) 0 lo hi \<longleftrightarrow> lo \<le> byte_val a \<and> byte_val a \<le> hi"
  "byte_in (a # s) (Suc 0) lo hi \<longleftrightarrow> byte_in s 0 lo hi"
  "byte_in (a # s) 2 lo hi \<longleftrightarrow> byte_in s 1 lo hi"
  "byte_in (a # s) 3 lo hi \<longleftrightarrow> byte_in s 2 lo hi"
  "\<not> byte_in [] i lo hi"
  by (auto simp: byte_in_def numeral_2_eq_2 numeral_3_eq_3)

lemma second_range_append:
  "w \<noteq> [] \<Longrightarrow> second_lo (w @ t) = second_lo w" "w \<noteq> [] \<Longrightarrow> second_hi (w @ t) = second_hi w"
  by (simp_all add: second_lo_def second_hi_def byte_in_append_iff)

lemma second_range_take:
  "0 < n \<Longrightarrow> second_lo (take n s) = second_lo s" "0 < n \<Longrightarrow> second_hi (take n s) = second_hi s"
  by (cases "s = []"; cases n; simp add: second_lo_def second_hi_def byte_in_def)+

lemma second_lo_ge: "128 \<le> second_lo s"
  by (simp add: second_lo_def)

lemma is_rune_cases:
  assumes "is_rune w"
  obtains a where "w = [a]" | a b where "w = [a, b]" | a b c where "w = [a, b, c]"
  | a b c d where "w = [a, b, c, d]"
proof -
  have "length w = 1 \<or> length w = 2 \<or> length w = 3 \<or> length w = 4"
    using assms by (auto simp: is_rune_def utf8_len_def split: if_splits)
  then show thesis
    using that by (auto simp: numeral_eq_Suc length_Suc_conv)
qed

lemma utf8_len_iff:
  "utf8_len s = 1 \<longleftrightarrow> byte_in s 0 0 127"
  "utf8_len s = 2 \<longleftrightarrow> byte_in s 0 194 223 \<and> byte_in s 1 128 191"
  "utf8_len s = 3 \<longleftrightarrow> byte_in s 0 224 239 \<and> byte_in s 1 (second_lo s) (second_hi s) \<and>
     byte_in s 2 128 191"
  "utf8_len s = 4 \<longleftrightarrow> byte_in s 0 240 244 \<and> byte_in s 1 (second_lo s) (second_hi s) \<and>
     byte_in s 2 128 191 \<and> byte_in s 3 128 191"
  unfolding utf8_len_def by (auto simp: byte_in_def)

lemma utf8_len_range: "0 < utf8_len s \<Longrightarrow>
  utf8_len s = 1 \<or> utf8_len s = 2 \<or> utf8_len s = 3 \<or> utf8_len s = 4"
  unfolding utf8_len_def by (simp split: if_split_asm)

lemma utf8_len_append:
  assumes "is_rune w"
  shows "utf8_len (w @ t) = length w"
proof -
  have w: "w \<noteq> []" and len: "utf8_len w = length w" using assms by (auto simp: is_rune_def)
  have b: "byte_in w i lo hi \<Longrightarrow> byte_in (w @ t) i lo hi" for i lo hi
    by (rule byte_in_append)
  have k: "utf8_len (w @ t) = k"
    if "k = 1 \<or> k = 2 \<or> k = 3 \<or> k = 4" "utf8_len w = k" for k
    using that
    by (elim disjE; simp add: utf8_len_iff second_range_append [OF w] b del: One_nat_def)
  have "utf8_len (w @ t) = utf8_len w"
    using w len by (intro k utf8_len_range) simp_all
  then show ?thesis using len by simp
qed

lemma chunks_rune: "is_rune w \<Longrightarrow> chunks (w @ t) = w # chunks t"
  by (subst chunks.simps) (auto simp: utf8_len_append is_rune_def Suc_le_eq max_def)

lemma utf8_len_take:
  assumes "0 < utf8_len s"
  shows "utf8_len (take (utf8_len s) s) = utf8_len s"
proof -
  have b: "byte_in (take n s) i lo hi \<longleftrightarrow> i < n \<and> byte_in s i lo hi" for n i lo hi
    by (auto simp: byte_in_def)
  have r: "second_lo (take n s) = second_lo s" "second_hi (take n s) = second_hi s" if "0 < n" for n
    using that by (simp_all add: second_range_take)
  have k: "utf8_len (take k s) = k"
    if "k = 1 \<or> k = 2 \<or> k = 3 \<or> k = 4" "utf8_len s = k" for k
    using that by (elim disjE; simp add: utf8_len_iff b r del: One_nat_def)
  show ?thesis
    using assms by (intro k utf8_len_range) simp_all
qed

lemma is_rune_take: "0 < utf8_len s \<Longrightarrow> is_rune (take (utf8_len s) s)"
  using utf8_len_take [of s] utf8_len_le [of s] by (auto simp: is_rune_def)

lemma ascii_is_rune [simp]: "byte_val c < 128 \<Longrightarrow> is_rune [c]"
  by (simp add: is_rune_def utf8_len_def byte_in_def)

lemma index_cases:
  "(i::nat) < 2 \<longleftrightarrow> i = 0 \<or> i = 1" "(i::nat) < 3 \<longleftrightarrow> i = 0 \<or> i = 1 \<or> i = 2"
  "(i::nat) < 4 \<longleftrightarrow> i = 0 \<or> i = 1 \<or> i = 2 \<or> i = 3"
  by auto

lemma rune_not_ascii:
  assumes "is_rune w" "length w \<noteq> 1" "c \<in> set w"
  shows "128 \<le> byte_val c"
proof -
  obtain i where i: "i < length w" "c = w ! i" using assms(3) by (auto simp: in_set_conv_nth)
  have n: "utf8_len w = length w" "w \<noteq> []" using assms(1) by (auto simp: is_rune_def)
  then have "length w \<in> {2, 3, 4}"
    using assms(2) by (auto simp: utf8_len_def split: if_splits)
  then show ?thesis
    using n i assms(2) second_lo_ge [of w]
    by (auto simp: utf8_len_def byte_in_def index_cases split: if_splits)
qed

lemma rune_single: "is_rune [c] \<Longrightarrow> byte_val c < 128"
  by (auto simp: is_rune_def utf8_len_def byte_in_def split: if_splits)

lemma utf8_valid_Nil [simp]: "utf8_valid []"
  by (simp add: utf8_valid_def)

lemma utf8_valid_rune: "is_rune w \<Longrightarrow> utf8_valid (w @ t) \<longleftrightarrow> utf8_valid t"
  by (simp add: utf8_valid_def chunks_rune)

lemma utf8_valid_ascii [simp]: "byte_val c < 128 \<Longrightarrow> utf8_valid (c # t) \<longleftrightarrow> utf8_valid t"
  using utf8_valid_rune [of "[c]" t] by simp

text \<open>Induction over the runes of a valid string.\<close>

lemma utf8_induct [consumes 1, case_names Nil rune]:
  assumes "utf8_valid s" "P []" "\<And>w t. is_rune w \<Longrightarrow> utf8_valid t \<Longrightarrow> P t \<Longrightarrow> P (w @ t)"
  shows "P s"
  using assms(1)
proof (induction s rule: chunks.induct)
  case (1 s)
  show ?case
  proof (cases "s = []")
    case False
    let ?n = "max 1 (utf8_len s)"
    have c: "chunks s = take ?n s # chunks (drop ?n s)"
      using False by (simp add: chunks.simps [of s])
    with 1 have r: "is_rune (take ?n s)" and v: "utf8_valid (drop ?n s)"
      by (auto simp: utf8_valid_def)
    from assms(3) [OF r v 1(1) [OF False v]] show ?thesis by simp
  qed (simp add: assms(2))
qed

lemma utf8_valid_append: "utf8_valid s \<Longrightarrow> utf8_valid (s @ t) \<longleftrightarrow> utf8_valid t"
  by (induction s rule: utf8_induct) (simp_all add: utf8_valid_rune)

lemma chunks_append: "utf8_valid s \<Longrightarrow> chunks (s @ t) = chunks s @ chunks t"
  by (induction s rule: utf8_induct) (simp_all add: chunks_rune)

lemma utf8_valid_all_ascii: "\<forall>c \<in> set s. byte_val c < 128 \<Longrightarrow> utf8_valid s"
  by (induction s) simp_all

lemma chunk_cases: "w \<in> set (chunks s) \<Longrightarrow> is_rune w \<or> (\<exists>c. w = [c])"
proof (induction s rule: chunks.induct)
  case (1 s)
  show ?case
  proof (cases s)
    case (Cons c t)
    have "take (max 1 (utf8_len s)) s = [c] \<or> is_rune (take (max 1 (utf8_len s)) s)"
      using is_rune_take [of s] Cons by (cases "utf8_len s") (auto simp: max_def)
    then show ?thesis using 1 Cons by (subst (asm) (2) chunks.simps) auto
  qed (use 1 in simp)
qed

section \<open>White space\<close>

text \<open>\<^verbatim>\<open>unicode.IsSpace\<close>, and \<^verbatim>\<open>strings.TrimSpace\<close> over the runes of a string.\<close>

definition is_space_rune :: "nat \<Rightarrow> bool" where
  "is_space_rune r \<longleftrightarrow>
     r \<in> set [9, 10, 11, 12, 13, 32, 133, 160, 5760, 8232, 8233, 8239, 8287, 12288] \<or> 8192 \<le> r \<and> r \<le> 8202"

text \<open>\<^verbatim>\<open>unicode.IsControl\<close>.\<close>

definition is_control_rune :: "nat \<Rightarrow> bool" where
  "is_control_rune r \<longleftrightarrow> r < 32 \<or> 127 \<le> r \<and> r < 160"

definition space_chunk :: "string \<Rightarrow> bool" where
  "space_chunk w = is_space_rune (rune_of w)"

definition trim_right_list :: "('a \<Rightarrow> bool) \<Rightarrow> 'a list \<Rightarrow> 'a list" where
  "trim_right_list P xs = rev (dropWhile P (rev xs))"

definition trim_space :: "string \<Rightarrow> string" where
  "trim_space s = concat (trim_right_list space_chunk (dropWhile space_chunk (chunks s)))"

lemma length_trim_space: "length (trim_space s) \<le> length s"
proof -
  have le: "length (concat (dropWhile P xs)) \<le> length (concat xs)" for P and xs :: "string list"
    by (induction xs) auto
  have "length (concat (trim_right_list P xs)) \<le> length (concat xs)" for P and xs :: "string list"
    using le [of P "rev xs"] by (simp add: trim_right_list_def length_concat rev_map [symmetric])
  then show ?thesis
    unfolding trim_space_def by (metis (no_types, lifting) concat_chunks le order_trans)
qed

text \<open>A string whose ends are ASCII and no space is trimmed to itself.\<close>

lemma space_chunk_ascii: "byte_val c < 128 \<Longrightarrow> space_chunk [c] \<longleftrightarrow> byte_val c \<in> {9, 10, 11, 12, 13, 32}"
  by (simp add: space_chunk_def is_space_rune_def rune_of_def)

lemma chunks_ascii: "byte_val c < 128 \<Longrightarrow> chunks (c # s) = [c] # chunks s"
  using chunks_rune [of "[c]" s] by simp

lemma chunks_all_ascii: "\<forall>c \<in> set s. byte_val c < 128 \<Longrightarrow> chunks s = map (\<lambda>c. [c]) s"
  by (induction s) (simp_all add: chunks_ascii)

lemma trim_space_space: "trim_space (CHR '' '' # s) = trim_space s"
  by (simp add: trim_space_def chunks_ascii byte_val_def space_chunk_ascii)

lemma trim_right_list_id: "xs = [] \<or> \<not> P (last xs) \<Longrightarrow> trim_right_list P xs = xs"
  by (cases xs rule: rev_cases) (auto simp: trim_right_list_def)

lemma trim_space_id:
  assumes "utf8_valid s" "byte_val c < 128" "byte_val d < 128"
    "byte_val c \<notin> {9, 10, 11, 12, 13, 32}" "byte_val d \<notin> {9, 10, 11, 12, 13, 32}"
  shows "trim_space (c # s @ [d]) = c # s @ [d]"
proof -
  have ch: "chunks (c # s @ [d]) = [c] # chunks s @ [[d]]"
    using assms(1-3) by (simp add: chunks_ascii chunks_append)
  show ?thesis
    unfolding trim_space_def ch using assms
    by (simp add: space_chunk_ascii trim_right_list_id)
qed

lemma trim_space_single:
  "byte_val c < 128 \<Longrightarrow> byte_val c \<notin> {9, 10, 11, 12, 13, 32} \<Longrightarrow> trim_space [c] = [c]"
  by (simp add: trim_space_def chunks_ascii space_chunk_ascii trim_right_list_id)

lemma trim_space_Nil [simp]: "trim_space [] = []"
  by (simp add: trim_space_def trim_right_list_def)

text \<open>\<^verbatim>\<open>strings.Fields\<close>, over the runes of the line.\<close>

fun fields_loop :: "string \<Rightarrow> string list \<Rightarrow> string list" where
  "fields_loop cur [] = (if cur = [] then [] else [cur])"
| "fields_loop cur (w # ws) =
     (if space_chunk w then (if cur = [] then fields_loop [] ws else cur # fields_loop [] ws)
      else fields_loop (cur @ w) ws)"

definition go_fields :: "string \<Rightarrow> string list" where
  "go_fields s = fields_loop [] (chunks s)"

end
