(* ===== verification/GoJson.thy ===== *)
theory GoJson
  imports GoText
begin

text \<open>
  JSON strings as Go's \<^verbatim>\<open>encoding/json\<close> writes and reads them, and the round trip between
  the two on valid UTF-8.
\<close>

section \<open>Writing\<close>

text \<open>
  The escape of one ASCII byte with HTML escaping off: Go's \<^verbatim>\<open>safeSet\<close> leaves every byte
  from the space up as it is, but the quote and the backslash.
\<close>

definition backslash :: char where "backslash = char_of (92::nat)"
definition quotation :: char where "quotation = char_of (34::nat)"

definition json_ascii :: "char \<Rightarrow> string" where
  "json_ascii c =
     (let n = byte_val c in
      if n = 34 \<or> n = 92 then [backslash, c]
      else if n = 8 then [backslash, CHR ''b'']
      else if n = 12 then [backslash, CHR ''f'']
      else if n = 10 then [backslash, CHR ''n'']
      else if n = 13 then [backslash, CHR ''r'']
      else if n = 9 then [backslash, CHR ''t'']
      else if n < 32 then backslash # ''u00'' @ [hex_digit (n div 16), hex_digit (n mod 16)]
      else [c])"

definition line_sep :: string where
  "line_sep = [char_of (226::nat), char_of (128::nat), char_of (168::nat)]"

definition par_sep :: string where
  "par_sep = [char_of (226::nat), char_of (128::nat), char_of (169::nat)]"

definition json_piece :: "string \<Rightarrow> string" where
  "json_piece w =
     (if length w = 1 then
        (if byte_val (hd w) < 128 then json_ascii (hd w) else backslash # ''ufffd'')
      else if w = line_sep then backslash # ''u2028''
      else if w = par_sep then backslash # ''u2029''
      else w)"

definition json_body :: "string \<Rightarrow> string" where
  "json_body s = concat (map json_piece (chunks s))"

definition json_quote :: "string \<Rightarrow> string" where
  "json_quote s = quotation # json_body s @ [quotation]"

section \<open>Reading\<close>

definition hex_val_any :: "char \<Rightarrow> nat option" where
  "hex_val_any c =
     (let n = byte_val c in
      if 48 \<le> n \<and> n \<le> 57 then Some (n - 48)
      else if 97 \<le> n \<and> n \<le> 102 then Some (n - 87)
      else if 65 \<le> n \<and> n \<le> 70 then Some (n - 55)
      else None)"

text \<open>The four hex digits of an escape that opens with a backslash and a u.\<close>

fun hex4 :: "string \<Rightarrow> (nat \<times> string) option" where
  "hex4 (a # b # c # d # r) =
     (case (hex_val_any a, hex_val_any b, hex_val_any c, hex_val_any d) of
        (Some x, Some y, Some z, Some w) \<Rightarrow> Some (((x * 16 + y) * 16 + z) * 16 + w, r)
      | _ \<Rightarrow> None)"
| "hex4 _ = None"

text \<open>
  A surrogate followed by the escape of the other half of its pair is the rune of the pair.
  Any other surrogate is U+FFFD, and what follows it is read by itself.
\<close>

definition pair_rune :: "nat \<Rightarrow> string \<Rightarrow> (nat \<times> string) option" where
  "pair_rune hi r =
     (case r of
        b # u # r1 \<Rightarrow>
          if b = backslash \<and> u = CHR ''u'' then
            (case hex4 r1 of
               Some (lo, r2) \<Rightarrow>
                 if 55296 \<le> hi \<and> hi < 56320 \<and> 56320 \<le> lo \<and> lo < 57344
                 then Some ((hi - 55296) * 1024 + (lo - 56320) + 65536, r2) else None
             | None \<Rightarrow> None)
          else None
      | _ \<Rightarrow> None)"

definition json_escape :: "char \<Rightarrow> string \<Rightarrow> (string \<times> string) option" where
  "json_escape e r =
     (if e = quotation \<or> e = backslash \<or> e = CHR ''/'' then Some ([e], r)
      else if e = CHR ''b'' then Some ([char_of (8::nat)], r)
      else if e = CHR ''f'' then Some ([char_of (12::nat)], r)
      else if e = CHR ''n'' then Some ([char_of (10::nat)], r)
      else if e = CHR ''r'' then Some ([char_of (13::nat)], r)
      else if e = CHR ''t'' then Some ([char_of (9::nat)], r)
      else if e = CHR ''u'' then
        (case hex4 r of
           None \<Rightarrow> None
         | Some (v, r1) \<Rightarrow>
             if 55296 \<le> v \<and> v < 57344 then
               (case pair_rune v r1 of
                  Some (p, r2) \<Rightarrow> Some (utf8_encode p, r2)
                | None \<Rightarrow> Some (utf8_encode 65533, r1))
             else Some (utf8_encode v, r1))
      else None)"

lemma hex4_length: "hex4 s = Some (v, r) \<Longrightarrow> length r < length s"
  by (induction s rule: hex4.induct) (auto split: option.splits)

lemma pair_rune_length: "pair_rune v s = Some (p, r) \<Longrightarrow> length r < length s"
  by (auto simp: pair_rune_def split: list.splits if_splits option.splits dest!: hex4_length)

lemma json_escape_length: "json_escape e s = Some (w, r) \<Longrightarrow> length r \<le> length s"
  by (auto simp: json_escape_def split: if_splits option.splits
      dest!: hex4_length pair_rune_length)

text \<open>
  What follows the opening quote: the string read, and what follows the closing quote.
\<close>

function json_unquote :: "string \<Rightarrow> (string \<times> string) option" where
  "json_unquote s =
     (case s of
        [] \<Rightarrow> None
      | c # r \<Rightarrow>
          if c = quotation then Some ([], r)
          else if c = backslash then
            (case r of
               [] \<Rightarrow> None
             | e # r1 \<Rightarrow>
                 (case json_escape e r1 of
                    None \<Rightarrow> None
                  | Some (w, r2) \<Rightarrow>
                      map_option (\<lambda>(t, q). (w @ t, q))
                        (if length r2 \<le> length r1 then json_unquote r2 else None)))
          else if byte_val c < 32 then None
          else
            let n = max 1 (utf8_len s); w = take n s in
            map_option (\<lambda>(t, q). ((if is_rune w then w else utf8_encode 65533) @ t, q))
              (json_unquote (drop n s)))"
  by pat_completeness auto
termination
  by (relation "measure length") (auto simp: max_def)

declare json_unquote.simps [simp del]

definition is_json_space :: "char \<Rightarrow> bool" where
  "is_json_space c \<longleftrightarrow> byte_val c \<in> {9, 10, 13, 32}"

text \<open>
  \<^verbatim>\<open>json.Unmarshal\<close> into a string, of a text that opens with a quote: the one JSON value,
  with nothing but white space after it.
\<close>

definition json_unmarshal_string :: "string \<Rightarrow> string option" where
  "json_unmarshal_string s =
     (case s of
        [] \<Rightarrow> None
      | c # r \<Rightarrow>
          if c = quotation then
            (case json_unquote r of
               Some (t, q) \<Rightarrow> if list_all is_json_space q then Some t else None
             | None \<Rightarrow> None)
          else None)"

section \<open>The round trip\<close>

lemma hex_val_any_digit: "n < 16 \<Longrightarrow> hex_val_any (hex_digit n) = Some n"
  by (auto simp: hex_val_any_def hex_digit_def Let_def)

lemma byte_val_backslash [simp]: "byte_val backslash = 92" "byte_val quotation = 34"
  by (simp_all add: backslash_def quotation_def)

lemma quotation_neq [simp]: "quotation \<noteq> backslash" "backslash \<noteq> quotation"
  by (simp_all add: backslash_def quotation_def)

lemma byte_val_chars [simp]:
  "byte_val CHR ''b'' = 98" "byte_val CHR ''f'' = 102" "byte_val CHR ''n'' = 110"
  "byte_val CHR ''r'' = 114" "byte_val CHR ''t'' = 116" "byte_val CHR ''u'' = 117"
  "byte_val CHR ''0'' = 48" "byte_val CHR ''/'' = 47"
  by (simp_all add: byte_val_def)

lemma char_eq_byte: "c = d \<longleftrightarrow> byte_val c = byte_val d"
  by simp

lemma json_unquote_escape:
  "json_escape e r1 = Some (w, r2) \<Longrightarrow>
   json_unquote (backslash # e # r1) = map_option (\<lambda>(t, q). (w @ t, q)) (json_unquote r2)"
  by (subst json_unquote.simps) (simp add: json_escape_length)

lemma json_unquote_plain:
  assumes "is_rune w" "hd w \<noteq> quotation" "hd w \<noteq> backslash" "32 \<le> byte_val (hd w)"
  shows "json_unquote (w @ r) = map_option (\<lambda>(t, q). (w @ t, q)) (json_unquote r)"
proof -
  have ne: "w \<noteq> []" and n: "max 1 (utf8_len (w @ r)) = length w"
    using assms(1) by (auto simp: is_rune_def utf8_len_append Suc_le_eq max_def)
  obtain c v where w: "w = c # v" using ne by (cases w) auto
  then have m: "max (Suc 0) (utf8_len (c # v @ r)) = Suc (length v)" using n by simp
  show ?thesis
    using assms unfolding w
    by (subst json_unquote.simps) (simp add: m Let_def)
qed

lemma json_ascii_unquote:
  assumes "byte_val c < 128"
  shows "json_unquote (json_ascii c @ r) = map_option (\<lambda>(t, q). (c # t, q)) (json_unquote r)"
proof -
  consider (special) "byte_val c \<in> {34, 92, 8, 12, 10, 13, 9}"
    | (control) "byte_val c < 32" "byte_val c \<notin> {34, 92, 8, 12, 10, 13, 9}"
    | (plain) "32 \<le> byte_val c" "byte_val c \<notin> {34, 92}"
    by fastforce
  then show ?thesis
  proof cases
    case special
    define e where "e = (let n = byte_val c in if n = 8 then CHR ''b'' else if n = 12 then CHR ''f''
      else if n = 10 then CHR ''n'' else if n = 13 then CHR ''r'' else if n = 9 then CHR ''t'' else c)"
    from special have "json_ascii c = [backslash, e] \<and> json_escape e r = Some ([c], r)"
      by (auto simp: e_def json_ascii_def json_escape_def Let_def char_eq_byte simp del: byte_val_inj)
    then show ?thesis by (auto simp: json_unquote_escape)
  next
    case control
    let ?n = "byte_val c"
    let ?h = "''00'' @ [hex_digit (?n div 16), hex_digit (?n mod 16)]"
    have h: "hex4 (?h @ r) = Some (?n, r)"
      using hex_val_any_digit [of "?n div 16"] hex_val_any_digit [of "?n mod 16"]
      by (simp add: hex_val_any_def [of "CHR ''0''"])
    have "utf8_encode ?n = [c]" using assms by (simp add: utf8_encode_def)
    then have "json_escape (CHR ''u'') (?h @ r) = Some ([c], r)"
      using h control(1) unfolding json_escape_def
      by (simp add: char_eq_byte del: byte_val_inj)
    moreover have "json_ascii c @ r = backslash # CHR ''u'' # ?h @ r"
      using control by (simp add: json_ascii_def Let_def)
    ultimately show ?thesis by (simp add: json_unquote_escape)
  next
    case plain
    then have "json_ascii c = [c]" by (simp add: json_ascii_def Let_def)
    moreover have "c \<noteq> quotation" "c \<noteq> backslash"
      using plain(2) by (simp_all add: char_eq_byte del: byte_val_inj)
    ultimately show ?thesis
      using json_unquote_plain [of "[c]" r] assms plain(1) by simp
  qed
qed

lemma utf8_encode_seps: "utf8_encode 8232 = line_sep" "utf8_encode 8233 = par_sep"
  by (simp_all add: utf8_encode_def line_sep_def par_sep_def)

lemma json_sep_unquote:
  "json_unquote (backslash # ''u2028'' @ r) = map_option (\<lambda>(t, q). (line_sep @ t, q)) (json_unquote r)"
  "json_unquote (backslash # ''u2029'' @ r) = map_option (\<lambda>(t, q). (par_sep @ t, q)) (json_unquote r)"
proof -
  have h: "hex4 (''2028'' @ r) = Some (8232, r)" "hex4 (''2029'' @ r) = Some (8233, r)"
    by (simp_all add: hex_val_any_def byte_val_def)
  have "json_escape (CHR ''u'') (''2028'' @ r) = Some (line_sep, r)"
    "json_escape (CHR ''u'') (''2029'' @ r) = Some (par_sep, r)"
    unfolding json_escape_def h
    by (simp_all add: utf8_encode_seps char_eq_byte del: byte_val_inj)
  from this [THEN json_unquote_escape]
  show "json_unquote (backslash # ''u2028'' @ r) = map_option (\<lambda>(t, q). (line_sep @ t, q)) (json_unquote r)"
    "json_unquote (backslash # ''u2029'' @ r) = map_option (\<lambda>(t, q). (par_sep @ t, q)) (json_unquote r)"
    by simp_all
qed

lemma json_piece_unquote:
  assumes "is_rune w"
  shows "json_unquote (json_piece w @ r) = map_option (\<lambda>(t, q). (w @ t, q)) (json_unquote r)"
proof (cases "length w = 1")
  case True
  then obtain c where w: "w = [c]" by (auto simp: length_Suc_conv)
  with assms have "byte_val c < 128" by (simp add: rune_single)
  with w show ?thesis by (simp add: json_piece_def json_ascii_unquote)
next
  case False
  have "w \<noteq> []" using assms by (simp add: is_rune_def)
  then have hd: "128 \<le> byte_val (hd w)" using rune_not_ascii [OF assms False] by simp
  then have "hd w \<noteq> quotation" "hd w \<noteq> backslash" by (auto simp: char_eq_byte simp del: byte_val_inj)
  then show ?thesis
    using False json_sep_unquote json_unquote_plain [OF assms, of r] hd
    by (simp add: json_piece_def)
qed

lemma json_body_unquote:
  "utf8_valid s \<Longrightarrow> json_unquote (json_body s @ quotation # r) = Some (s, r)"
proof (induction s rule: utf8_induct)
  case Nil
  show ?case by (simp add: json_body_def json_unquote.simps)
next
  case (rune w t)
  then show ?case by (simp add: json_body_def chunks_rune json_piece_unquote)
qed

text \<open>A valid string written as JSON is read back as itself.\<close>

lemma json_unmarshal_quote:
  "utf8_valid s \<Longrightarrow> json_unmarshal_string (json_quote s) = Some s"
  using json_body_unquote [of s "[]"]
  by (simp add: json_unmarshal_string_def json_quote_def)

text \<open>
  What a JSON string holds: no newline and no other control character, so it is one line.
\<close>

lemma json_piece_no_control:
  assumes "c \<in> set (json_piece w)" "w \<in> set (chunks s)"
  shows "32 \<le> byte_val c \<or> (length w \<noteq> 1 \<and> c \<in> set w)"
proof -
  have hd: "32 \<le> byte_val (hex_digit n)" if "n < 16" for n
    using that by (auto simp: hex_digit_def)
  show ?thesis
    using assms hd [of "byte_val (hd w) div 16"] hd [of "byte_val (hd w) mod 16"]
    by (auto simp: json_piece_def json_ascii_def Let_def split: if_splits)
      (auto simp: byte_val_def)
qed

lemma chunk_not_single: "w \<in> set (chunks s) \<Longrightarrow> length w = 1 \<or> is_rune w"
  using chunk_cases [of w s] by auto

lemma json_body_no_control: "c \<in> set (json_body s) \<Longrightarrow> 32 \<le> byte_val c"
proof -
  assume "c \<in> set (json_body s)"
  then obtain w where w: "w \<in> set (chunks s)" "c \<in> set (json_piece w)"
    by (auto simp: json_body_def)
  from json_piece_no_control [OF w(2,1)] chunk_not_single [OF w(1)] rune_not_ascii [of w c]
  show ?thesis by auto
qed

lemma json_quote_no_newline: "c \<in> set (json_quote s) \<Longrightarrow> 32 \<le> byte_val c"
  by (auto simp: json_quote_def json_body_no_control)

end
