(* ===== verification/Regex.thy ===== *)
theory Regex
  imports GoBytes
begin

text \<open>
  The anchored patterns the code compiles with \<^verbatim>\<open>regexp.MustCompile\<close>. Every one of them
  is a regular expression over ASCII classes between \<^verbatim>\<open>^\<close> and \<^verbatim>\<open>$\<close>, so a pattern is
  modelled as a regular expression and \<^verbatim>\<open>MatchString\<close> as membership of the whole string,
  decided here by derivatives. Go matches over runes and these classes hold ASCII only, so
  matching over bytes decides the same strings.
\<close>

section \<open>Expressions and what they match\<close>

datatype rexp =
    Never
  | Eps
  | Cls "(char \<times> char) list"
  | Alt rexp rexp
  | Seq rexp rexp
  | Many rexp

definition in_class :: "(char \<times> char) list \<Rightarrow> char \<Rightarrow> bool" where
  "in_class rs c \<longleftrightarrow> (\<exists>(lo, hi) \<in> set rs. lo \<le> c \<and> c \<le> hi)"

lemma in_class_simps [simp]:
  "in_class [] c = False"
  "in_class ((lo, hi) # rs) c = (lo \<le> c \<and> c \<le> hi \<or> in_class rs c)"
  by (auto simp: in_class_def)

lemma in_class_single [simp]: "in_class [(c, c)] x \<longleftrightarrow> x = c"
  by auto

inductive rmem :: "rexp \<Rightarrow> string \<Rightarrow> bool" where
  eps: "rmem Eps []"
| cls: "in_class rs c \<Longrightarrow> rmem (Cls rs) [c]"
| alt1: "rmem r s \<Longrightarrow> rmem (Alt r q) s"
| alt2: "rmem q s \<Longrightarrow> rmem (Alt r q) s"
| seq: "rmem r s \<Longrightarrow> rmem q t \<Longrightarrow> rmem (Seq r q) (s @ t)"
| many0: "rmem (Many r) []"
| many: "rmem r s \<Longrightarrow> rmem (Many r) t \<Longrightarrow> rmem (Many r) (s @ t)"

inductive_simps rmem_simps [simp]:
  "rmem Never s"
  "rmem Eps s"
  "rmem (Cls rs) s"
  "rmem (Alt r q) s"

inductive_simps rmem_Seq: "rmem (Seq r q) s"

lemma rmem_Seq_Cls [simp]:
  "rmem (Seq (Cls rs) q) s \<longleftrightarrow> (\<exists>c t. s = c # t \<and> in_class rs c \<and> rmem q t)"
proof
  assume "rmem (Seq (Cls rs) q) s"
  then show "\<exists>c t. s = c # t \<and> in_class rs c \<and> rmem q t"
    unfolding rmem_Seq by auto
next
  assume "\<exists>c t. s = c # t \<and> in_class rs c \<and> rmem q t"
  then obtain c t where "s = [c] @ t" "in_class rs c" "rmem q t" by auto
  then show "rmem (Seq (Cls rs) q) s"
    by (metis rmem.cls rmem.seq)
qed

inductive_cases rmem_ManyE: "rmem (Many r) s"

section \<open>Building patterns\<close>

fun lit :: "string \<Rightarrow> rexp" where
  "lit [] = Eps"
| "lit (c # cs) = Seq (Cls [(c, c)]) (lit cs)"

fun reps :: "nat \<Rightarrow> rexp \<Rightarrow> rexp" where
  "reps 0 r = Eps"
| "reps (Suc n) r = Seq r (reps n r)"

definition some1 :: "rexp \<Rightarrow> rexp" where
  "some1 r = Seq r (Many r)"

fun alts :: "rexp list \<Rightarrow> rexp" where
  "alts [] = Never"
| "alts [r] = r"
| "alts (r # q # rs) = Alt r (alts (q # rs))"

fun seqs :: "rexp list \<Rightarrow> rexp" where
  "seqs [] = Eps"
| "seqs [r] = r"
| "seqs (r # q # rs) = Seq r (seqs (q # rs))"

lemma rmem_lit [simp]: "rmem (lit w) s \<longleftrightarrow> s = w"
proof (induction w arbitrary: s)
  case (Cons c w)
  show ?case by (simp only: lit.simps rmem_Seq_Cls in_class_single Cons.IH) blast
qed (simp only: lit.simps rmem_simps)

lemma rmem_Many_Cls [simp]: "rmem (Many (Cls rs)) s \<longleftrightarrow> (\<forall>c \<in> set s. in_class rs c)"
proof
  assume "rmem (Many (Cls rs)) s"
  then show "\<forall>c \<in> set s. in_class rs c"
    by (induction "Many (Cls rs)" s rule: rmem.induct) auto
next
  assume "\<forall>c \<in> set s. in_class rs c"
  then show "rmem (Many (Cls rs)) s"
  proof (induction s)
    case (Cons c s)
    then show ?case using rmem.many [of "Cls rs" "[c]" s] by simp
  qed (rule rmem.many0)
qed

lemma rmem_reps_Cls [simp]:
  "rmem (reps n (Cls rs)) s \<longleftrightarrow> length s = n \<and> (\<forall>c \<in> set s. in_class rs c)"
proof (induction n arbitrary: s)
  case (Suc n)
  then show ?case by (cases s) auto
qed auto

lemma rmem_some1_Cls [simp]:
  "rmem (some1 (Cls rs)) s \<longleftrightarrow> s \<noteq> [] \<and> (\<forall>c \<in> set s. in_class rs c)"
  by (cases s) (auto simp: some1_def)

section \<open>Deciding a match\<close>

fun nullable :: "rexp \<Rightarrow> bool" where
  "nullable Never = False"
| "nullable Eps = True"
| "nullable (Cls rs) = False"
| "nullable (Alt r q) = (nullable r \<or> nullable q)"
| "nullable (Seq r q) = (nullable r \<and> nullable q)"
| "nullable (Many r) = True"

text \<open>Sequencing and choice that drop what can never match, which keeps derivatives small.\<close>

fun mk_seq :: "rexp \<Rightarrow> rexp \<Rightarrow> rexp" where
  "mk_seq Never q = Never"
| "mk_seq Eps q = q"
| "mk_seq r q = Seq r q"

fun mk_alt :: "rexp \<Rightarrow> rexp \<Rightarrow> rexp" where
  "mk_alt Never q = q"
| "mk_alt r Never = r"
| "mk_alt r q = Alt r q"

fun deriv :: "char \<Rightarrow> rexp \<Rightarrow> rexp" where
  "deriv c Never = Never"
| "deriv c Eps = Never"
| "deriv c (Cls rs) = (if in_class rs c then Eps else Never)"
| "deriv c (Alt r q) = mk_alt (deriv c r) (deriv c q)"
| "deriv c (Seq r q) =
     (if nullable r then mk_alt (mk_seq (deriv c r) q) (deriv c q)
      else mk_seq (deriv c r) q)"
| "deriv c (Many r) = mk_seq (deriv c r) (Many r)"

fun matches :: "rexp \<Rightarrow> string \<Rightarrow> bool" where
  "matches r [] = nullable r"
| "matches r (c # s) = matches (deriv c r) s"

lemma rmem_mk_seq [simp]: "rmem (mk_seq r q) s \<longleftrightarrow> rmem (Seq r q) s"
  by (cases "(r, q)" rule: mk_seq.cases) (auto simp: rmem_Seq)

lemma rmem_mk_alt [simp]: "rmem (mk_alt r q) s \<longleftrightarrow> rmem (Alt r q) s"
  by (cases "(r, q)" rule: mk_alt.cases) auto

lemma nullable_iff: "nullable r \<longleftrightarrow> rmem r []"
  by (induction r) (auto simp: rmem_Seq intro: rmem.many0)

lemma rmem_Many_Cons:
  "rmem (Many r) (c # s) \<longleftrightarrow> (\<exists>u v. s = u @ v \<and> rmem r (c # u) \<and> rmem (Many r) v)"
proof
  assume "rmem (Many r) (c # s)"
  then show "\<exists>u v. s = u @ v \<and> rmem r (c # u) \<and> rmem (Many r) v"
  proof (induction "Many r" "c # s" arbitrary: s rule: rmem.induct)
    case (many u t)
    then show ?case by (cases u) auto
  qed
next
  assume "\<exists>u v. s = u @ v \<and> rmem r (c # u) \<and> rmem (Many r) v"
  then show "rmem (Many r) (c # s)"
    using rmem.many by fastforce
qed

lemma rmem_Seq_Cons:
  "rmem (Seq r q) (c # s) \<longleftrightarrow>
     (\<exists>u v. s = u @ v \<and> rmem r (c # u) \<and> rmem q v) \<or> rmem r [] \<and> rmem q (c # s)"
  by (auto simp: rmem_Seq Cons_eq_append_conv)

lemma rmem_deriv: "rmem (deriv c r) s \<longleftrightarrow> rmem r (c # s)"
proof (induction r arbitrary: s)
  case (Seq r q)
  then show ?case
    by (simp add: rmem_Seq_Cons nullable_iff) (auto simp: rmem_Seq)
next
  case (Many r)
  then show ?case by (simp add: rmem_Many_Cons) (auto simp: rmem_Seq)
qed auto

text \<open>The derivative matcher decides exactly the strings the pattern describes.\<close>

lemma matches_iff: "matches r s \<longleftrightarrow> rmem r s"
  by (induction s arbitrary: r) (simp_all add: nullable_iff rmem_deriv)

section \<open>Classes the patterns share\<close>

abbreviation "cls_digit \<equiv> Cls [(CHR ''0'', CHR ''9'')]"
abbreviation "cls_hex \<equiv> Cls [(CHR ''0'', CHR ''9''), (CHR ''a'', CHR ''f'')]"
abbreviation "cls_lower_digit \<equiv> Cls [(CHR ''a'', CHR ''z''), (CHR ''0'', CHR ''9'')]"
abbreviation "cls_alnum \<equiv>
  Cls [(CHR ''a'', CHR ''z''), (CHR ''A'', CHR ''Z''), (CHR ''0'', CHR ''9'')]"
abbreviation "cls_name_rest \<equiv>
  Cls [(CHR ''a'', CHR ''z''), (CHR ''A'', CHR ''Z''), (CHR ''0'', CHR ''9''),
       (CHR ''.'', CHR ''.''), (CHR ''_'', CHR ''_''), (CHR ''-'', CHR ''-'')]"

end
