(* ===== verification/Sha256.thy ===== *)
theory Sha256
  imports GoBytes "HOL-Library.Word"
begin

unbundle bit_operations_syntax

text \<open>
  SHA-256 as \<^verbatim>\<open>crypto/sha256\<close> computes it (FIPS 180-4), on byte strings. The code derives
  knot IDs, image hashes and digests with it, so the development computes it rather than
  leaving it open. Nothing is assumed of it beyond what is proved here: it is a function,
  and its result is 32 bytes.
\<close>

type_synonym u32 = "32 word"

section \<open>The round functions\<close>

definition rotr :: "nat \<Rightarrow> u32 \<Rightarrow> u32" where
  "rotr n x = (drop_bit n x) OR (push_bit (32 - n) x)"

definition big_sigma0 :: "u32 \<Rightarrow> u32" where
  "big_sigma0 x = rotr 2 x XOR rotr 13 x XOR rotr 22 x"

definition big_sigma1 :: "u32 \<Rightarrow> u32" where
  "big_sigma1 x = rotr 6 x XOR rotr 11 x XOR rotr 25 x"

definition small_sigma0 :: "u32 \<Rightarrow> u32" where
  "small_sigma0 x = rotr 7 x XOR rotr 18 x XOR drop_bit 3 x"

definition small_sigma1 :: "u32 \<Rightarrow> u32" where
  "small_sigma1 x = rotr 17 x XOR rotr 19 x XOR drop_bit 10 x"

definition sha_ch :: "u32 \<Rightarrow> u32 \<Rightarrow> u32 \<Rightarrow> u32" where
  "sha_ch x y z = (x AND y) XOR ((NOT x) AND z)"

definition sha_maj :: "u32 \<Rightarrow> u32 \<Rightarrow> u32 \<Rightarrow> u32" where
  "sha_maj x y z = (x AND y) XOR (x AND z) XOR (y AND z)"

definition round_constants :: "u32 list" where
  "round_constants =
    [1116352408, 1899447441, 3049323471, 3921009573, 961987163, 1508970993,
     2453635748, 2870763221, 3624381080, 310598401, 607225278, 1426881987,
     1925078388, 2162078206, 2614888103, 3248222580, 3835390401, 4022224774,
     264347078, 604807628, 770255983, 1249150122, 1555081692, 1996064986,
     2554220882, 2821834349, 2952996808, 3210313671, 3336571891, 3584528711,
     113926993, 338241895, 666307205, 773529912, 1294757372, 1396182291,
     1695183700, 1986661051, 2177026350, 2456956037, 2730485921, 2820302411,
     3259730800, 3345764771, 3516065817, 3600352804, 4094571909, 275423344,
     430227734, 506948616, 659060556, 883997877, 958139571, 1322822218,
     1537002063, 1747873779, 1955562222, 2024104815, 2227730452, 2361852424,
     2428436474, 2756734187, 3204031479, 3329325298]"

definition initial_hash :: "u32 list" where
  "initial_hash =
    [1779033703, 3144134277, 1013904242, 2773480762,
     1359893119, 2600822924, 528734635, 1541459225]"

section \<open>Padding and blocks\<close>

text \<open>The big-endian bytes of a word, and the word of big-endian bytes.\<close>

definition word_bytes :: "u32 \<Rightarrow> string" where
  "word_bytes w =
     map (\<lambda>k. char_of (uint (drop_bit k w))) [24, 16, 8, 0]"

fun bytes_words :: "string \<Rightarrow> u32 list" where
  "bytes_words (a # b # c # d # cs) =
     word_of_int (((of_char a * 256 + of_char b) * 256 + of_char c) * 256 + of_char d) #
     bytes_words cs"
| "bytes_words _ = []"

definition length_bytes :: "nat \<Rightarrow> string" where
  "length_bytes n = map (\<lambda>k. char_of (drop_bit k (8 * int n))) [56, 48, 40, 32, 24, 16, 8, 0]"

definition padding :: "nat \<Rightarrow> string" where
  "padding n =
     char_of (128::int) #
     replicate (nat ((55 - int n) mod 64)) (char_of (0::int)) @ length_bytes n"

section \<open>The compression function\<close>

text \<open>
  The message schedule is kept newest word first, so the words 2, 7, 15 and 16 back are at
  the indices 1, 6, 14 and 15.
\<close>

fun extend_schedule :: "nat \<Rightarrow> u32 list \<Rightarrow> u32 list" where
  "extend_schedule 0 ws = ws"
| "extend_schedule (Suc n) ws =
     extend_schedule n
       ((small_sigma1 (ws ! 1) + ws ! 6 + small_sigma0 (ws ! 14) + ws ! 15) # ws)"

fun sha_round :: "u32 list \<Rightarrow> u32 \<Rightarrow> u32 list" where
  "sha_round [a, b, c, d, e, f, g, h] kw =
     (let t1 = h + big_sigma1 e + sha_ch e f g + kw;
          t2 = big_sigma0 a + sha_maj a b c
      in [t1 + t2, a, b, c, d + t1, e, f, g])"
| "sha_round st kw = st"

fun sha_rounds :: "u32 list \<Rightarrow> u32 list \<Rightarrow> u32 list \<Rightarrow> u32 list" where
  "sha_rounds st (k # ks) (w # ws) = sha_rounds (sha_round st (k + w)) ks ws"
| "sha_rounds st _ _ = st"

definition compress :: "u32 list \<Rightarrow> u32 list \<Rightarrow> u32 list" where
  "compress st block =
     map2 (+) st (sha_rounds st round_constants (rev (extend_schedule 48 (rev block))))"

function compress_all :: "u32 list \<Rightarrow> u32 list \<Rightarrow> u32 list" where
  "compress_all st ws =
     (if length ws < 16 then st else compress_all (compress st (take 16 ws)) (drop 16 ws))"
  by pat_completeness auto
termination
  by (relation "measure (\<lambda>(st, ws). length ws)") auto

declare compress_all.simps [simp del]

definition sha256 :: "string \<Rightarrow> string" where
  "sha256 s =
     concat (map word_bytes (compress_all initial_hash (bytes_words (s @ padding (length s)))))"

section \<open>The digest's length\<close>

lemma length_sha_round: "length st = 8 \<Longrightarrow> length (sha_round st kw) = 8"
  by (cases "(st, kw)" rule: sha_round.cases) (auto simp: Let_def)

lemma length_sha_rounds: "length st = 8 \<Longrightarrow> length (sha_rounds st ks ws) = 8"
  by (induction st ks ws rule: sha_rounds.induct) (auto simp: length_sha_round)

lemma length_compress: "length st = 8 \<Longrightarrow> length (compress st b) = 8"
  by (simp add: compress_def length_sha_rounds)

lemma length_compress_all: "length st = 8 \<Longrightarrow> length (compress_all st ws) = 8"
proof (induction st ws rule: compress_all.induct)
  case (1 st ws)
  then show ?case by (cases "length ws < 16") (auto simp: compress_all.simps [of st ws] length_compress)
qed

lemma length_concat_word_bytes: "length (concat (map word_bytes ws)) = 4 * length ws"
  by (induction ws) (auto simp: word_bytes_def)

lemma length_sha256 [simp]: "length (sha256 s) = 32"
  by (simp add: sha256_def length_concat_word_bytes length_compress_all initial_hash_def)

text \<open>The hex digest, as \<^verbatim>\<open>hex.EncodeToString\<close> writes it.\<close>

definition sha256_hex :: "string \<Rightarrow> string" where
  "sha256_hex s = hex_encode (sha256 s)"

lemma length_sha256_hex [simp]: "length (sha256_hex s) = 64"
  by (simp add: sha256_hex_def)

end
