(* ===== verification/Codec.thy ===== *)
theory Codec
  imports Prelude
begin

text \<open>
  The contract the valley's readers keep. Every format the valley binds with a digest or a
  signature has one writer and one strict reader, and the reader promises that what it
  accepts is exactly what the writer would have written. A client that compares, hashes or
  signs the bytes relies on nothing else.
\<close>

section \<open>A reader that accepts only what the writer writes\<close>

locale canonical_reader =
  fixes render :: "'a \<Rightarrow> string"
    and parse :: "string \<Rightarrow> ('e, 'a) result"
  assumes parse_exact: "parse s = Inr x \<Longrightarrow> render x = s"
begin

text \<open>Two inputs that read as one value are one input.\<close>

lemma parse_injective: "parse s = Inr x \<Longrightarrow> parse t = Inr x \<Longrightarrow> s = t"
  using parse_exact by blast

text \<open>Rewriting what was read changes nothing.\<close>

lemma rewrite_stable: "parse s = Inr x \<Longrightarrow> parse (render x) = Inr x"
  using parse_exact by metis

text \<open>An input the writer does not produce is refused.\<close>

lemma unwritten_refused: "(\<And>x. render x \<noteq> s) \<Longrightarrow> \<exists>e. parse s = Inl e"
  by (cases "parse s") (auto dest: parse_exact)

end

section \<open>A reader and a writer that are inverse on the valid values\<close>

locale strict_codec = canonical_reader render parse
  for render :: "'a \<Rightarrow> string" and parse :: "string \<Rightarrow> ('e, 'a) result" +
  fixes valid :: "'a \<Rightarrow> bool"
  assumes parse_valid: "parse s = Inr x \<Longrightarrow> valid x"
    and parse_render: "valid x \<Longrightarrow> parse (render x) = Inr x"
begin

text \<open>Distinct valid values are written differently.\<close>

lemma render_injective: "valid x \<Longrightarrow> valid y \<Longrightarrow> render x = render y \<Longrightarrow> x = y"
  using parse_render by (metis sum.inject(2))

text \<open>The accepted inputs are exactly the encodings of the valid values.\<close>

lemma accepted_iff: "parse s = Inr x \<longleftrightarrow> valid x \<and> render x = s"
  using parse_exact parse_valid parse_render by metis

lemma accepted_range: "(\<exists>x. parse s = Inr x) \<longleftrightarrow> s \<in> render ` Collect valid"
  by (auto simp: accepted_iff)

text \<open>
  A digest of the encoding binds the value, unless the hash collides on two encodings.
\<close>

lemma digest_binds:
  assumes "valid x" "valid y" "h (render x) = h (render y)" "x \<noteq> y"
  shows "\<exists>s t. s \<noteq> t \<and> h s = h t \<and> parse s = Inr x \<and> parse t = Inr y"
  using assms render_injective parse_render by metis

end

end
