(* ===== verification/Delta.thy ===== *)
theory Delta
  imports Codec Sha256
begin

text \<open>
  \<^verbatim>\<open>delta/delta.go\<close>: the encoding \<^verbatim>\<open>valley-delta-v1\<close> of the change between two git trees,
  its strict reader \<^verbatim>\<open>Parse\<close>, and what the two promise each other.
\<close>

section \<open>Images, changes, deltas\<close>

definition header :: string where
  "header = ''valley-delta-v1'' @ [char_of (10::nat)]"

definition ModeFile :: string where "ModeFile = ''100644''"
definition ModeExec :: string where "ModeExec = ''100755''"
definition ModeSymlink :: string where "ModeSymlink = ''120000''"

record image =
  img_mode :: string
  img_sum :: string

definition zero_sum :: string where
  "zero_sum = replicate 32 (char_of (0::nat))"

definition no_image :: image where
  "no_image = \<lparr>img_mode = [], img_sum = zero_sum\<rparr>"

definition absent :: "image \<Rightarrow> bool" where
  "absent i \<longleftrightarrow> img_mode i = []"

definition image_string :: "image \<Rightarrow> string" where
  "image_string i = (if absent i then ''-'' else img_mode i @ '' '' @ hex_encode (img_sum i))"

record change =
  chg_path :: string
  pre :: image
  post :: image

type_synonym delta = "change list"

definition newline :: char where "newline = char_of (10::nat)"

definition encode_line :: "change \<Rightarrow> string" where
  "encode_line c =
     itoa (length (chg_path c)) @ '' '' @ chg_path c @ '' '' @
     image_string (pre c) @ '' '' @ image_string (post c) @ [newline]"

definition encode :: "delta \<Rightarrow> string" where
  "encode d = header @ concat (map encode_line d)"

definition digest :: "delta \<Rightarrow> string" where
  "digest d = sha256_hex (encode d)"

section \<open>Errors\<close>

datatype path_error =
    EmptyPath
  | HoldsNul
  | EmptyComponent
  | DotComponent string
  | GitComponent string
  | SlashComponent
  | LongComponent nat

datatype image_error =
    DirectoryMode string
  | SubmoduleMode string
  | NoMode
  | UnknownMode string
  | ModeNoSpace
  | BadHash
  | EmptySymlink

datatype line_error =
    NoLength
  | TooManyDigits
  | LeadingZero string
  | LengthNoSpace
  | LengthUnreadable string
  | LengthPastEnd nat
  | BadPath path_error
  | PathNoSpace string
  | BadPre string image_error
  | PreNoSpace string
  | BadPost string image_error
  | NoNewline string
  | NoChange string

datatype delta_error =
    NoHeader
  | BadEntry nat line_error
  | GivenTwice nat string
  | OutOfOrder nat string string
  | PreEntryUnder string string
  | PostEntryUnder string string

section \<open>Paths\<close>

definition maxName :: nat where "maxName = 255"

definition ascii_lower :: "char \<Rightarrow> char" where
  "ascii_lower c =
     (if 65 \<le> byte_val c \<and> byte_val c \<le> 90 then char_of (byte_val c + 32) else c)"

text \<open>
  \<^verbatim>\<open>strings.EqualFold\<close> against \<^verbatim>\<open>.git\<close>: none of these letters folds to a rune outside ASCII.
\<close>

definition folds_to_git :: "string \<Rightarrow> bool" where
  "folds_to_git name \<longleftrightarrow> map ascii_lower name = ''.git''"

definition checkName :: "string \<Rightarrow> (path_error, unit) result" where
  "checkName name =
     (if name = [] then Inl EmptyComponent
      else if name = ''.'' \<or> name = ''..'' then Inl (DotComponent name)
      else if folds_to_git name then Inl (GitComponent name)
      else if CHR ''/'' \<in> set name then Inl SlashComponent
      else if length name > maxName then Inl (LongComponent (length name))
      else Inr ())"

definition checkPath :: "string \<Rightarrow> (path_error, unit) result" where
  "checkPath p =
     (if p = [] then Inl EmptyPath
      else if char_of (0::nat) \<in> set p then Inl HoldsNul
      else check_all checkName (split_byte (CHR ''/'') p))"

section \<open>Images\<close>

definition checkMode :: "string \<Rightarrow> (image_error, unit) result" where
  "checkMode mode =
     (if mode = ModeFile \<or> mode = ModeExec \<or> mode = ModeSymlink then Inr ()
      else if mode = ''40000'' \<or> mode = ''040000'' then Inl (DirectoryMode mode)
      else if mode = ''160000'' then Inl (SubmoduleMode mode)
      else if mode = [] then Inl NoMode
      else Inl (UnknownMode mode))"

definition emptySum :: string where
  "emptySum = sha256 []"

definition lowerHex :: "string \<Rightarrow> bool" where
  "lowerHex b \<longleftrightarrow> list_all is_lower_hex b"

definition hexLen :: nat where "hexLen = 64"

definition parseImage :: "string \<Rightarrow> (image_error, image \<times> string) result" where
  "parseImage b =
     (if b \<noteq> [] \<and> hd b = CHR ''-'' then Inr (no_image, tl b)
      else
        let mode = takeWhile (\<lambda>c. c \<noteq> CHR '' '') (take 7 b) in
        rbind (checkMode mode) (\<lambda>_.
          if length mode = length b then Inl ModeNoSpace
          else
            let r = drop (length mode + 1) b in
            if length r < hexLen \<or> \<not> lowerHex (take hexLen r)
               \<or> (length r > hexLen \<and> is_lower_hex (r ! hexLen)) then Inl BadHash
            else
              let i = \<lparr>img_mode = mode, img_sum = hex_decode (take hexLen r)\<rparr> in
              if mode = ModeSymlink \<and> img_sum i = emptySum then Inl EmptySymlink
              else Inr (i, drop hexLen r)))"

section \<open>Lines\<close>

definition maxLenDigits :: nat where "maxLenDigits = 10"

text \<open>\<^verbatim>\<open>strconv.Atoi\<close> on digits: an error where the value does not fit an \<^verbatim>\<open>int\<close>.\<close>

definition atoi :: "string \<Rightarrow> nat option" where
  "atoi s = (if decimal s < 2 ^ 63 then Some (decimal s) else None)"

definition parseLine :: "string \<Rightarrow> (line_error, change \<times> string) result" where
  "parseLine b =
     (let digits = takeWhile is_digit b; after = dropWhile is_digit b in
      if digits = [] then Inl NoLength
      else if length digits > maxLenDigits then Inl TooManyDigits
      else if hd b = CHR ''0'' \<and> length digits > 1 then Inl (LeadingZero digits)
      else if after = [] \<or> hd after \<noteq> CHR '' '' then Inl LengthNoSpace
      else case atoi digits of
        None \<Rightarrow> Inl (LengthUnreadable digits)
      | Some n \<Rightarrow>
          let b1 = tl after in
          if n > length b1 then Inl (LengthPastEnd n)
          else
            let p = take n b1; b2 = drop n b1 in
            rbind (rmap_err BadPath (checkPath p)) (\<lambda>_.
            if b2 = [] \<or> hd b2 \<noteq> CHR '' '' then Inl (PathNoSpace p)
            else rbind (rmap_err (BadPre p) (parseImage (tl b2))) (\<lambda>(i, b3).
            if b3 = [] \<or> hd b3 \<noteq> CHR '' '' then Inl (PreNoSpace p)
            else rbind (rmap_err (BadPost p) (parseImage (tl b3))) (\<lambda>(j, b4).
            if b4 = [] \<or> hd b4 \<noteq> newline then Inl (NoNewline p)
            else if i = j then Inl (NoChange p)
            else Inr (\<lparr>chg_path = p, pre = i, post = j\<rparr>, tl b4)))))"

section \<open>Both sides\<close>

definition next_slash :: "string \<Rightarrow> nat \<Rightarrow> nat option" where
  "next_slash p i = map_option (\<lambda>j. i + 1 + j) (index_byte (drop (i + 1) p) (CHR ''/''))"

lemma next_slash_Some: "next_slash p i = Some j \<Longrightarrow> i < j \<and> j < length p"
  by (auto simp: next_slash_def index_byte_Some)

text \<open>The indices of the slashes from one of them on.\<close>

function slashes_from :: "string \<Rightarrow> nat \<Rightarrow> nat list" where
  "slashes_from p i = i # (case next_slash p i of None \<Rightarrow> [] | Some j \<Rightarrow> slashes_from p j)"
  by pat_completeness auto
termination
  by (relation "measure (\<lambda>(p, i). length p - i)") (auto dest: next_slash_Some)

declare slashes_from.simps [simp del]

definition dirs_of :: "string \<Rightarrow> string list" where
  "dirs_of p =
     (case index_byte p (CHR ''/'') of
        None \<Rightarrow> []
      | Some i \<Rightarrow> map (\<lambda>k. take k p) (slashes_from p i))"

definition present_paths :: "(change \<Rightarrow> image) \<Rightarrow> delta \<Rightarrow> string list" where
  "present_paths side d = map chg_path (filter (\<lambda>c. \<not> absent (side c)) d)"

definition checkSides :: "delta \<Rightarrow> (delta_error, unit) result" where
  "checkSides d =
     check_all (\<lambda>c. check_all (\<lambda>dir.
       if \<not> absent (pre c) \<and> dir \<in> set (present_paths pre d)
       then Inl (PreEntryUnder dir (chg_path c))
       else if \<not> absent (post c) \<and> dir \<in> set (present_paths post d)
       then Inl (PostEntryUnder dir (chg_path c))
       else Inr ()) (dirs_of (chg_path c))) d"

section \<open>Parse\<close>

text \<open>Each of the readers takes something off its input, so the loop over lines ends.\<close>

lemma parseImage_length: "parseImage b = Inr (i, r) \<Longrightarrow> length r < length b"
  by (auto simp: parseImage_def Let_def result_simps hexLen_def split: if_splits)

lemma nonempty_hd: "xs \<noteq> [] \<Longrightarrow> hd xs = x \<Longrightarrow> xs = x # tl xs"
  by (cases xs) auto

lemma parseLine_Inr:
  assumes "parseLine b = Inr (c, r)"
  obtains digits p t1 i t2 j where
    "b = digits @ '' '' @ p @ '' '' @ t1" "canonical_decimal digits" "length digits \<le> 10"
    "decimal digits = length p" "checkPath p = Inr ()"
    "parseImage t1 = Inr (i, '' '' @ t2)" "parseImage t2 = Inr (j, newline # r)"
    "i \<noteq> j" "c = \<lparr>chg_path = p, pre = i, post = j\<rparr>"
proof -
  define digits where "digits = takeWhile is_digit b"
  define after where "after = dropWhile is_digit b"
  have ba: "b = digits @ after" by (simp add: digits_def after_def)
  have dg: "\<forall>x \<in> set digits. is_digit x" by (auto simp: digits_def dest: set_takeWhileD)
  note L = assms [unfolded parseLine_def Let_def, folded digits_def after_def]
  have d: "digits \<noteq> []" "length digits \<le> 10" "\<not> (hd b = CHR ''0'' \<and> length digits > 1)"
    and a: "after \<noteq> []" "hd after = CHR '' ''"
    using L by (auto simp: maxLenDigits_def split: if_splits)
  note L = L [simplified d a maxLenDigits_def, simplified]
  obtain n where n: "atoi digits = Some n"
    using L d a by (auto split: option.splits if_splits)
  define p where "p = take n (tl after)"
  define b2 where "b2 = drop n (tl after)"
  have ap: "after = '' '' @ p @ b2" using nonempty_hd [OF a] by (simp add: p_def b2_def)
  have R: "n \<le> length (tl after)" "checkPath p = Inr ()" "b2 \<noteq> []" "hd b2 = CHR '' ''"
    "\<exists>i b3. parseImage (tl b2) = Inr (i, b3) \<and> b3 \<noteq> [] \<and> hd b3 = CHR '' '' \<and>
      (\<exists>j b4. parseImage (tl b3) = Inr (j, b4) \<and> b4 \<noteq> [] \<and> hd b4 = newline \<and> i \<noteq> j \<and>
        c = \<lparr>chg_path = p, pre = i, post = j\<rparr> \<and> r = tl b4)"
    using L d a n
    by (auto simp: result_simps p_def [symmetric] b2_def [symmetric] split: if_splits)
  then obtain i b3 j b4 where I: "parseImage (tl b2) = Inr (i, b3)" "b3 \<noteq> []" "hd b3 = CHR '' ''"
    "parseImage (tl b3) = Inr (j, b4)" "b4 \<noteq> []" "hd b4 = newline" "i \<noteq> j"
    "c = \<lparr>chg_path = p, pre = i, post = j\<rparr>" "r = tl b4"
    by blast
  have "hd b = hd digits" using ba d(1) by simp
  then have "canonical_decimal digits"
    using dg d by (cases digits) (auto simp: canonical_decimal_def)
  moreover have "decimal digits = length p"
    using n R(1) by (auto simp: atoi_def p_def split: if_splits)
  ultimately show thesis
    using that [of digits p "tl b2" i "tl b3" j] ba ap d(2) R I
      nonempty_hd [OF R(3,4)] nonempty_hd [OF I(2,3)] nonempty_hd [OF I(5,6)] by simp
qed

lemma parseLine_length: "parseLine b = Inr (c, r) \<Longrightarrow> length r < length b"
  by (erule parseLine_Inr) (auto dest!: parseImage_length)

text \<open>
  The loop of \<^verbatim>\<open>Parse\<close>: \<open>k\<close> counts the entries from 1, and \<open>d\<close> is the delta read so far.
\<close>

function parse_entries :: "nat \<Rightarrow> delta \<Rightarrow> string \<Rightarrow> (delta_error, delta) result" where
  "parse_entries k d rest =
     (if rest = [] then Inr d
      else rbind (rmap_err (BadEntry k) (parseLine rest)) (\<lambda>(c, after).
        if d \<noteq> [] \<and> chg_path c = chg_path (last d) then Inl (GivenTwice k (chg_path c))
        else if d \<noteq> [] \<and> chg_path c < chg_path (last d)
        then Inl (OutOfOrder k (chg_path c) (chg_path (last d)))
        else parse_entries (k + 1) (d @ [c]) after))"
  by pat_completeness auto
termination
  by (relation "measure (\<lambda>(k, d, rest). length rest)")
     (auto simp: rmap_err_eq_Inr dest: parseLine_length)

declare parse_entries.simps [simp del]

definition parse :: "string \<Rightarrow> (delta_error, delta) result" where
  "parse data =
     (case cut_prefix data header of
        None \<Rightarrow> Inl NoHeader
      | Some rest \<Rightarrow>
          rbind (parse_entries 1 [] rest) (\<lambda>d. rbind (checkSides d) (\<lambda>_. Inr d)))"

section \<open>The deltas there are\<close>

text \<open>What a delta between two trees is, apart from how it is written.\<close>

definition valid_image :: "image \<Rightarrow> bool" where
  "valid_image i \<longleftrightarrow>
     i = no_image \<or>
     img_mode i \<in> {ModeFile, ModeExec, ModeSymlink} \<and> length (img_sum i) = 32 \<and>
     \<not> (img_mode i = ModeSymlink \<and> img_sum i = emptySum)"

definition valid_path :: "string \<Rightarrow> bool" where
  "valid_path p \<longleftrightarrow> checkPath p = Inr () \<and> length p < 10 ^ 10"

definition valid_change :: "change \<Rightarrow> bool" where
  "valid_change c \<longleftrightarrow>
     valid_path (chg_path c) \<and> valid_image (pre c) \<and> valid_image (post c) \<and> pre c \<noteq> post c"

text \<open>No side holds an entry at a path and another under it.\<close>

definition one_kind :: "(change \<Rightarrow> image) \<Rightarrow> delta \<Rightarrow> bool" where
  "one_kind side d \<longleftrightarrow>
     (\<forall>c \<in> set d. \<forall>c' \<in> set d. \<not> absent (side c) \<longrightarrow> \<not> absent (side c') \<longrightarrow>
        \<not> prefix (chg_path c @ ''/'') (chg_path c'))"

definition valid_delta :: "delta \<Rightarrow> bool" where
  "valid_delta d \<longleftrightarrow>
     strictly_sorted (map chg_path d) \<and> (\<forall>c \<in> set d. valid_change c) \<and>
     one_kind pre d \<and> one_kind post d"

section \<open>What an accepted encoding is\<close>

lemma parseImage_exact:
  assumes "parseImage b = Inr (i, r)"
  shows "b = image_string i @ r \<and> valid_image i \<and> (\<not> absent i \<longrightarrow> r = [] \<or> \<not> is_lower_hex (hd r))"
proof (cases "b \<noteq> [] \<and> hd b = CHR ''-''")
  case True
  with assms have "i = no_image" "r = tl b" by (auto simp: parseImage_def)
  with True show ?thesis
    by (cases b) (auto simp: image_string_def absent_def no_image_def valid_image_def)
next
  case False
  define mode where "mode = takeWhile (\<lambda>c. c \<noteq> CHR '' '') (take 7 b)"
  define q where "q = drop (length mode + 1) b"
  have mode: "checkMode mode = Inr ()" and len: "length mode \<noteq> length b"
    and q: "\<not> (length q < hexLen \<or> \<not> lowerHex (take hexLen q)
               \<or> (length q > hexLen \<and> is_lower_hex (q ! hexLen)))"
    and i: "i = \<lparr>img_mode = mode, img_sum = hex_decode (take hexLen q)\<rparr>"
    and s: "\<not> (mode = ModeSymlink \<and> img_sum i = emptySum)" and r: "r = drop hexLen q"
    using assms False
    by (auto simp: parseImage_def Let_def result_simps mode_def [symmetric] q_def split: if_splits)
  have m: "mode \<in> {ModeFile, ModeExec, ModeSymlink}"
    using mode by (auto simp: checkMode_def split: if_splits)
  then have l6: "length mode = 6" and ne: "mode \<noteq> []"
    by (auto simp: ModeFile_def ModeExec_def ModeSymlink_def)
  have "mode = take (length mode) (take 7 b)"
    unfolding mode_def by (rule takeWhile_eq_take)
  then have pm: "mode = take 6 b" using l6 by simp
  have "length b \<ge> 6" using l6 pm by (metis length_take min_def nat_le_linear)
  then have b7: "length b > 6" using len l6 by simp
  have "b ! 6 = CHR '' ''"
  proof (rule ccontr)
    assume "b ! 6 \<noteq> CHR '' ''"
    moreover have "take 7 b = mode @ [b ! 6]"
      using b7 pm take_Suc_conv_app_nth [of 6 b] by simp
    moreover have "\<forall>c \<in> set mode. c \<noteq> CHR '' ''"
      unfolding mode_def by (auto dest: set_takeWhileD)
    ultimately have "takeWhile (\<lambda>c. c \<noteq> CHR '' '') (take 7 b) = mode @ [b ! 6]"
      by (auto intro: takeWhile_all)
    then have "mode = mode @ [b ! 6]" by (simp add: mode_def)
    then show False by simp
  qed
  then have b: "b = mode @ '' '' @ q"
    using b7 l6 unfolding q_def pm
    by (metis Cons_nth_drop_Suc append_Cons append_Nil append_take_drop_id Suc_eq_plus1)
  have hx: "hex_encode (hex_decode (take hexLen q)) = take hexLen q"
    using q by (intro hex_encode_decode) (auto simp: lowerHex_def list_all_iff hexLen_def)
  have "b = image_string i @ r"
    using b ne by (simp add: image_string_def absent_def i r hx)
  moreover have "valid_image i"
    using m s q by (simp add: valid_image_def i length_hex_decode hexLen_def)
  moreover have "r = [] \<or> \<not> is_lower_hex (hd r)"
    using q r by (auto simp: hd_drop_conv_nth not_less)
  ultimately show ?thesis by blast
qed

text \<open>
  The length an entry opens with is written back as it was read, and never too long for an
  \<^verbatim>\<open>int\<close>: the limit on its digits makes the error of \<^verbatim>\<open>Atoi\<close> unreachable.
\<close>

lemma atoi_fits:
  assumes "\<forall>c \<in> set s. is_digit c" "length s \<le> maxLenDigits"
  shows "atoi s = Some (decimal s)"
proof -
  have "decimal s < 10 ^ length s" using assms(1) by (rule decimal_less)
  also have "\<dots> \<le> 10 ^ 10" using assms(2) by (intro power_increasing) (simp_all add: maxLenDigits_def)
  also have "\<dots> < (2::nat) ^ 63" by simp
  finally show ?thesis by (simp add: atoi_def)
qed

lemma parseLine_never_unreadable: "parseLine b \<noteq> Inl (LengthUnreadable digits)"
proof
  assume a: "parseLine b = Inl (LengthUnreadable digits)"
  have "atoi (takeWhile is_digit b) = Some (decimal (takeWhile is_digit b))"
    if "length (takeWhile is_digit b) \<le> maxLenDigits"
    using that by (intro atoi_fits) (auto dest: set_takeWhileD)
  then show False
    using a unfolding parseLine_def Let_def
    by (auto simp: result_simps split: if_splits option.splits)
qed

lemma valid_image_absent: "valid_image i \<Longrightarrow> absent i \<longleftrightarrow> i = no_image"
  by (auto simp: valid_image_def absent_def no_image_def ModeFile_def ModeExec_def ModeSymlink_def)

lemma parseLine_exact:
  assumes "parseLine b = Inr (c, r)"
  shows "b = encode_line c @ r \<and> valid_change c"
  using assms
proof (rule parseLine_Inr)
  fix digits p t1 i t2 j
  assume h: "b = digits @ '' '' @ p @ '' '' @ t1" "canonical_decimal digits" "length digits \<le> 10"
    "decimal digits = length p" "checkPath p = Inr ()"
    "parseImage t1 = Inr (i, '' '' @ t2)" "parseImage t2 = Inr (j, newline # r)"
    "i \<noteq> j" "c = \<lparr>chg_path = p, pre = i, post = j\<rparr>"
  have d: "itoa (length p) = digits" using itoa_decimal [OF h(2)] h(4) by simp
  have "\<forall>c \<in> set digits. is_digit c" using h(2) by (simp add: canonical_decimal_def)
  then have "decimal digits < 10 ^ length digits" by (rule decimal_less)
  also have "\<dots> \<le> 10 ^ 10" using h(3) by (intro power_increasing) simp_all
  finally have "length p < 10 ^ 10" using h(4) by simp
  then show ?thesis
    using h d parseImage_exact [OF h(6)] parseImage_exact [OF h(7)]
    by (simp add: encode_line_def valid_change_def valid_path_def)
qed

lemma parse_entries_exact:
  assumes "parse_entries k d0 rest = Inr d" "strictly_sorted (map chg_path d0)"
    "\<forall>c \<in> set d0. valid_change c"
  shows "strictly_sorted (map chg_path d) \<and> (\<forall>c \<in> set d. valid_change c) \<and>
    concat (map encode_line d) = concat (map encode_line d0) @ rest"
  using assms
proof (induction k d0 rest rule: parse_entries.induct)
  case (1 k d0 rest)
  show ?case
  proof (cases "rest = []")
    case True
    with 1 show ?thesis by (simp add: parse_entries.simps)
  next
    case False
    with 1(2) obtain c after where l: "parseLine rest = Inr (c, after)"
      and tw: "\<not> (d0 \<noteq> [] \<and> chg_path c = chg_path (last d0))"
      and ord: "\<not> (d0 \<noteq> [] \<and> chg_path c < chg_path (last d0))"
      and go: "parse_entries (k + 1) (d0 @ [c]) after = Inr d"
      by (subst (asm) parse_entries.simps) (auto simp: result_simps split: if_splits)
    have lt: "d0 \<noteq> [] \<Longrightarrow> chg_path (last d0) < chg_path c" using tw ord by auto
    have "\<forall>x \<in> set d0. chg_path x < chg_path c"
    proof (cases d0 rule: rev_cases)
      case (snoc ds e)
      with lt 1(3) show ?thesis by (auto simp: sorted_wrt_append)
    qed simp
    then have "strictly_sorted (map chg_path (d0 @ [c]))"
      using 1(3) by (auto simp: sorted_wrt_append)
    moreover have "\<forall>x \<in> set (d0 @ [c]). valid_change x"
      using 1(4) parseLine_exact [OF l] by simp
    ultimately show ?thesis
      using 1(1) [OF False _ _ tw ord go, of "(c, after)"] l parseLine_exact [OF l] by auto
  qed
qed

text \<open>The check of both sides is exactly the abstract condition.\<close>

lemma slashes_from_set:
  "i < length p \<Longrightarrow> p ! i = CHR ''/'' \<Longrightarrow>
     set (slashes_from p i) = {k. i \<le> k \<and> k < length p \<and> p ! k = CHR ''/''}"
proof (induction p i rule: slashes_from.induct)
  case (1 p i)
  show ?case
  proof (cases "next_slash p i")
    case None
    then have "CHR ''/'' \<notin> set (drop (Suc i) p)" by (simp add: next_slash_def)
    moreover have "p ! k \<in> set (drop (Suc i) p)" if "Suc i \<le> k" "k < length p" for k
      using nth_mem [of "k - Suc i" "drop (Suc i) p"] that by simp
    ultimately have "i \<le> k \<Longrightarrow> k < length p \<Longrightarrow> p ! k = CHR ''/'' \<Longrightarrow> k = i" for k
      by (metis Suc_le_eq le_neq_implies_less)
    then show ?thesis
      using 1(2,3) None by (subst slashes_from.simps) auto
  next
    case (Some j)
    then obtain m where m: "j = i + 1 + m" "m < length p - Suc i" "p ! j = CHR ''/''"
      "CHR ''/'' \<notin> set (take m (drop (Suc i) p))"
      by (auto simp: next_slash_def index_byte_Some)
    have "p ! k \<noteq> CHR ''/''" if "i < k" "k < j" for k
    proof
      assume eq: "p ! k = CHR ''/''"
      have "take m (drop (Suc i) p) ! (k - Suc i) = p ! k"
        using that m by simp
      moreover have "k - Suc i < length (take m (drop (Suc i) p))" using that m by simp
      ultimately show False using m(4) eq by (metis nth_mem)
    qed
    then have gap: "i < k \<Longrightarrow> p ! k = CHR ''/'' \<Longrightarrow> j \<le> k" for k
      by (meson not_le)
    have "{k. i \<le> k \<and> k < length p \<and> p ! k = CHR ''/''}
      = insert i {k. j \<le> k \<and> k < length p \<and> p ! k = CHR ''/''}"
    proof (intro set_eqI iffI)
      fix k assume "k \<in> {k. i \<le> k \<and> k < length p \<and> p ! k = CHR ''/''}"
      then show "k \<in> insert i {k. j \<le> k \<and> k < length p \<and> p ! k = CHR ''/''}"
        using gap [of k] by (cases "k = i") simp_all
    next
      fix k assume k: "k \<in> insert i {k. j \<le> k \<and> k < length p \<and> p ! k = CHR ''/''}"
      show "k \<in> {k. i \<le> k \<and> k < length p \<and> p ! k = CHR ''/''}"
      proof (cases "k = i")
        case True
        with 1(2,3) show ?thesis by simp
      next
        case False
        with k m(1) show ?thesis by simp
      qed
    qed
    moreover have "set (slashes_from p j) = {k. j \<le> k \<and> k < length p \<and> p ! k = CHR ''/''}"
      using 1(1) [OF Some] m by simp
    ultimately show ?thesis
      using Some by (subst slashes_from.simps) simp
  qed
qed

lemma dirs_of_iff: "dir \<in> set (dirs_of p) \<longleftrightarrow> prefix (dir @ ''/'') p"
proof -
  have "dir \<in> set (dirs_of p) \<longleftrightarrow> (\<exists>k < length p. p ! k = CHR ''/'' \<and> dir = take k p)"
  proof (cases "index_byte p (CHR ''/'')")
    case None
    then have "CHR ''/'' \<notin> set p" by simp
    then show ?thesis unfolding dirs_of_def None by (auto dest: nth_mem)
  next
    case (Some i)
    then have i: "i < length p" "p ! i = CHR ''/''" "CHR ''/'' \<notin> set (take i p)"
      by (simp_all add: index_byte_Some)
    have "i \<le> k" if "k < length p" "p ! k = CHR ''/''" for k
      using i(3) that by (metis in_set_conv_nth length_take min_less_iff_conj not_le nth_take)
    then show ?thesis
      using Some slashes_from_set [OF i(1,2)] by (auto simp: dirs_of_def)
  qed
  also have "\<dots> \<longleftrightarrow> prefix (dir @ ''/'') p"
  proof
    assume "\<exists>k < length p. p ! k = CHR ''/'' \<and> dir = take k p"
    then obtain k where k: "k < length p" "p ! k = CHR ''/''" "dir = take k p" by blast
    then have "take (Suc k) p = dir @ ''/''" by (simp add: take_Suc_conv_app_nth)
    then show "prefix (dir @ ''/'') p" by (metis take_is_prefix)
  next
    assume "prefix (dir @ ''/'') p"
    then obtain r where "p = dir @ CHR ''/'' # r" by (auto simp: prefix_def)
    then show "\<exists>k < length p. p ! k = CHR ''/'' \<and> dir = take k p"
      by (intro exI [of _ "length dir"]) simp
  qed
  finally show ?thesis .
qed

lemma present_paths_iff:
  "dir \<in> set (present_paths side d) \<longleftrightarrow> (\<exists>c \<in> set d. \<not> absent (side c) \<and> chg_path c = dir)"
  by (auto simp: present_paths_def)

lemma checkSides_iff: "checkSides d = Inr () \<longleftrightarrow> one_kind pre d \<and> one_kind post d"
proof -
  have "checkSides d = Inr () \<longleftrightarrow> (\<forall>c \<in> set d. \<forall>dir. prefix (dir @ ''/'') (chg_path c) \<longrightarrow>
      \<not> (\<not> absent (pre c) \<and> dir \<in> set (present_paths pre d)) \<and>
      \<not> (\<not> absent (post c) \<and> dir \<in> set (present_paths post d)))"
    by (simp add: checkSides_def result_simps dirs_of_iff [symmetric]) blast
  then show ?thesis
    unfolding one_kind_def present_paths_iff by blast
qed

section \<open>Reading back what was written\<close>

lemma checkMode_ok: "m \<in> {ModeFile, ModeExec, ModeSymlink} \<Longrightarrow> checkMode m = Inr ()"
  by (auto simp: checkMode_def)

lemma mode_shape:
  "m \<in> {ModeFile, ModeExec, ModeSymlink} \<Longrightarrow>
     length m = 6 \<and> (\<forall>c \<in> set m. c \<noteq> CHR '' '') \<and> hd m \<noteq> CHR ''-''"
  by (auto simp: ModeFile_def ModeExec_def ModeSymlink_def)

lemma parseImage_complete:
  assumes "valid_image i" "r \<noteq> []" "\<not> is_lower_hex (hd r)"
  shows "parseImage (image_string i @ r) = Inr (i, r)"
proof (cases "i = no_image")
  case True
  then show ?thesis by (simp add: parseImage_def image_string_def absent_def no_image_def)
next
  case False
  with assms(1) have m: "img_mode i \<in> {ModeFile, ModeExec, ModeSymlink}"
    and l: "length (img_sum i) = 32" and s: "\<not> (img_mode i = ModeSymlink \<and> img_sum i = emptySum)"
    by (auto simp: valid_image_def)
  let ?m = "img_mode i" and ?h = "hex_encode (img_sum i)"
  have ms: "length ?m = 6" "\<forall>c \<in> set ?m. c \<noteq> CHR '' ''" "hd ?m \<noteq> CHR ''-''"
    using mode_shape [OF m] by blast+
  then have ne: "?m \<noteq> []" by force
  have str: "image_string i @ r = ?m @ CHR '' '' # ?h @ r"
    using ne by (simp add: image_string_def absent_def)
  have t: "takeWhile (\<lambda>c. c \<noteq> CHR '' '') (take 7 (?m @ CHR '' '' # ?h @ r)) = ?m"
    using ms by (simp add: takeWhile_append_stop)
  have hx: "lowerHex ?h" using hex_encode_lower by (auto simp: lowerHex_def list_all_iff)
  have "\<not> is_lower_hex ((?h @ r) ! 64)"
    using assms(2,3) l by (simp add: nth_append hd_conv_nth)
  then show ?thesis
    unfolding str parseImage_def Let_def t
    using ne ms l hx s checkMode_ok [OF m]
    by (simp add: hexLen_def)
qed

lemma not_hex [simp]: "\<not> is_lower_hex (CHR '' '')" "\<not> is_lower_hex newline"
  by (simp_all add: is_lower_hex_def byte_val_def newline_def)

lemma not_digit_space [simp]: "\<not> is_digit (CHR '' '')"
  by (simp add: is_digit_def byte_val_def)

lemma parseLine_complete:
  assumes "valid_change c"
  shows "parseLine (encode_line c @ r) = Inr (c, r)"
proof -
  let ?p = "chg_path c" and ?d = "itoa (length (chg_path c))"
  let ?post = "image_string (post c) @ newline # r"
  let ?pre = "image_string (pre c) @ CHR '' '' # ?post"
  let ?s = "?d @ CHR '' '' # ?p @ CHR '' '' # ?pre"
  have p: "checkPath ?p = Inr ()" "length ?p < 10 ^ 10"
    and im: "valid_image (pre c)" "valid_image (post c)" "pre c \<noteq> post c"
    using assms by (auto simp: valid_change_def valid_path_def)
  have can: "canonical_decimal ?d" by (rule itoa_canonical)
  then have dg: "?d \<noteq> []" "\<forall>x \<in> set ?d. is_digit x"
    "hd ?d = CHR ''0'' \<longrightarrow> length ?d = 1" by (auto simp: canonical_decimal_def)
  have l: "length ?d \<le> maxLenDigits" using p(2) by (simp add: maxLenDigits_def length_itoa)
  have tw: "takeWhile is_digit ?s = ?d" and dw: "dropWhile is_digit ?s = CHR '' '' # ?p @ CHR '' '' # ?pre"
    using dg(2) by (simp_all add: takeWhile_append_stop dropWhile_append_stop)
  have at: "atoi ?d = Some (length ?p)"
    using atoi_fits [OF dg(2) l] by simp
  have i1: "parseImage ?pre = Inr (pre c, CHR '' '' # ?post)"
    using im(1) by (intro parseImage_complete) simp_all
  have i2: "parseImage ?post = Inr (post c, newline # r)"
    using im(2) by (intro parseImage_complete) simp_all
  have s: "encode_line c @ r = ?s" by (simp add: encode_line_def)
  show ?thesis
    unfolding s parseLine_def Let_def tw dw
    using dg l at i1 i2 p(1) im(3) by simp
qed

lemma encode_line_nonempty: "encode_line c \<noteq> []"
  by (simp add: encode_line_def)

lemma parse_entries_complete:
  assumes "\<forall>c \<in> set d. valid_change c" "strictly_sorted (map chg_path (d0 @ d))"
  shows "parse_entries k d0 (concat (map encode_line d)) = Inr (d0 @ d)"
  using assms
proof (induction d arbitrary: k d0)
  case Nil
  show ?case by (simp add: parse_entries.simps)
next
  case (Cons c d)
  have lt: "d0 \<noteq> [] \<Longrightarrow> chg_path (last d0) < chg_path c"
    using Cons.prems(2) by (cases d0 rule: rev_cases) (auto simp: sorted_wrt_append)
  have "parse_entries (k + 1) (d0 @ [c]) (concat (map encode_line d)) = Inr ((d0 @ [c]) @ d)"
    using Cons.prems by (intro Cons.IH) simp_all
  moreover have "parseLine (concat (map encode_line (c # d))) = Inr (c, concat (map encode_line d))"
    using Cons.prems(1) parseLine_complete by simp
  moreover have "concat (map encode_line (c # d)) \<noteq> []" by (simp add: encode_line_nonempty)
  ultimately show ?case
    using lt by (subst parse_entries.simps) (auto simp: order.strict_implies_not_eq)
qed

lemma parse_exact: "parse data = Inr d \<Longrightarrow> encode d = data \<and> valid_delta d"
  by (auto simp: parse_def encode_def valid_delta_def result_simps checkSides_iff
      split: option.splits dest!: parse_entries_exact)

lemma parse_complete: "valid_delta d \<Longrightarrow> parse (encode d) = Inr d"
  using parse_entries_complete [of d "[]" 1] checkSides_iff [of d]
  by (simp add: parse_def encode_def valid_delta_def)

text \<open>
  \<^verbatim>\<open>Encode\<close> and \<^verbatim>\<open>Parse\<close> keep the contract of a strict reader and its writer.
\<close>

interpretation dc: strict_codec encode parse valid_delta
  by unfold_locales (auto dest: parse_exact intro: parse_complete)

section \<open>Properties\<close>

text \<open>
  C36: \<^verbatim>\<open>Parse\<close> accepts a byte string exactly when it is the \<^verbatim>\<open>valley-delta-v1\<close> encoding of a
  delta that some pair of trees could give, and the value it returns is that delta. So
  \<^verbatim>\<open>Encode\<close> writes a parsed delta back byte for byte, and every valid delta is readable.
\<close>

theorem delta_parse_iff: "parse data = Inr d \<longleftrightarrow> valid_delta d \<and> encode d = data"
  by (rule dc.accepted_iff)

text \<open>
  A digest binds a delta: two different valid deltas with one digest exhibit two
  different byte strings with one SHA-256.
\<close>

lemma delta_digest_binds:
  assumes "valid_delta d" "valid_delta e" "digest d = digest e" "d \<noteq> e"
  shows "\<exists>s t. s \<noteq> t \<and> sha256_hex s = sha256_hex t \<and> parse s = Inr d \<and> parse t = Inr e"
  using assms by (intro dc.digest_binds) (simp_all add: digest_def)

end
