(* ===== verification/Glob.thy ===== *)
theory Glob
  imports GoBytes
begin

text \<open>
  \<^verbatim>\<open>derive/glob.go\<close>: the globs of a policy's path classes, compiled to tokens and matched
  against changed paths, and the reading of a glob they implement.
\<close>

section \<open>Compiling\<close>

datatype token =
    Literal char
  | One
  | Within
  | Rest
  | Segments

abbreviation slash :: char where "slash \<equiv> CHR ''/''"

text \<open>The tokens of one segment that is not \<^verbatim>\<open>**\<close>.\<close>

definition compile_byte :: "char \<Rightarrow> token" where
  "compile_byte c = (if c = CHR ''*'' then Within else if c = CHR ''?'' then One else Literal c)"

text \<open>The loop of \<^verbatim>\<open>compile\<close> over the segments.\<close>

fun compile_segs :: "string list \<Rightarrow> token list" where
  "compile_segs [] = []"
| "compile_segs [seg] = (if seg = ''**'' then [Rest] else map compile_byte seg)"
| "compile_segs (seg # s # segs) =
     (if seg = ''**'' then Segments # compile_segs (s # segs)
      else map compile_byte seg @ Literal slash # compile_segs (s # segs))"

definition glob_segs :: "string \<Rightarrow> string list" where
  "glob_segs pattern =
     (let segs = split_byte slash pattern in if last segs = [] then butlast segs else segs)"

definition compile :: "string \<Rightarrow> token list" where
  "compile pattern = compile_segs (glob_segs pattern)"

section \<open>Matching\<close>

text \<open>
  The recursion \<^verbatim>\<open>at\<close> over a suffix of the glob and a suffix of the path, with the table
  \<^verbatim>\<open>seen\<close> that decides each pair of a token index and a position once. The table is
  threaded through the calls, as the closure shares it. The loops of a wildcard try the
  positions in order and stop at the first that matches.
\<close>

type_synonym table = "(nat \<times> nat) \<rightharpoonup> bool"

definition positions_within :: "string \<Rightarrow> nat \<Rightarrow> nat list" where
  "positions_within path p =
     [p ..< Suc (p + length (takeWhile (\<lambda>c. c \<noteq> slash) (drop p path)))]"

definition positions_rest :: "string \<Rightarrow> nat \<Rightarrow> nat list" where
  "positions_rest path p = [p ..< Suc (length path)]"

definition positions_segments :: "string \<Rightarrow> nat \<Rightarrow> nat list" where
  "positions_segments path p =
     p # map Suc (filter (\<lambda>q. path ! q = slash) [p ..< length path])"

definition next_positions :: "token \<Rightarrow> string \<Rightarrow> nat \<Rightarrow> nat list" where
  "next_positions tok path p =
     (case tok of
        Literal b \<Rightarrow> if p < length path \<and> path ! p = b then [p + 1] else []
      | One \<Rightarrow> if p < length path \<and> path ! p \<noteq> slash then [p + 1] else []
      | Within \<Rightarrow> positions_within path p
      | Rest \<Rightarrow> positions_rest path p
      | Segments \<Rightarrow> positions_segments path p)"

fun try_positions ::
  "(nat \<Rightarrow> table \<Rightarrow> bool \<times> table) \<Rightarrow> nat list \<Rightarrow> table \<Rightarrow> bool \<times> table" where
  "try_positions f [] seen = (False, seen)"
| "try_positions f (q # qs) seen =
     (case f q seen of (ok, seen') \<Rightarrow> if ok then (True, seen') else try_positions f qs seen')"

fun match_at :: "token list \<Rightarrow> string \<Rightarrow> nat \<Rightarrow> nat \<Rightarrow> table \<Rightarrow> bool \<times> table" where
  "match_at [] path t p seen = (p = length path, seen)"
| "match_at (tok # g) path t p seen =
     (case seen (t, p) of
        Some r \<Rightarrow> (r, seen)
      | None \<Rightarrow>
          (case try_positions (match_at g path (t + 1)) (next_positions tok path p) seen of
             (ok, seen') \<Rightarrow> (ok, seen'((t, p) \<mapsto> ok))))"

definition match_glob :: "token list \<Rightarrow> string \<Rightarrow> bool" where
  "match_glob g path = fst (match_at g path 0 0 Map.empty)"

definition Match :: "string \<Rightarrow> string \<Rightarrow> bool" where
  "Match glob path = match_glob (compile glob) path"

section \<open>What the table does not change\<close>

text \<open>Matching without the table.\<close>

fun matches_plain :: "token list \<Rightarrow> string \<Rightarrow> nat \<Rightarrow> bool" where
  "matches_plain [] path p = (p = length path)"
| "matches_plain (tok # g) path p =
     (\<exists>q \<in> set (next_positions tok path p). matches_plain g path q)"

text \<open>Every decided entry of the table is the answer for its suffix of the glob.\<close>

definition table_ok :: "token list \<Rightarrow> string \<Rightarrow> table \<Rightarrow> bool" where
  "table_ok g path seen \<longleftrightarrow>
     (\<forall>t p r. seen (t, p) = Some r \<longrightarrow> r = matches_plain (drop t g) path p)"

lemma table_ok_empty [simp]: "table_ok g path Map.empty"
  by (simp add: table_ok_def)

lemma table_ok_upd:
  "table_ok g path seen \<Longrightarrow> r = matches_plain (drop t g) path p \<Longrightarrow>
   table_ok g path (seen((t, p) \<mapsto> r))"
  by (simp add: table_ok_def)

lemma try_positions_ok:
  assumes "\<And>q seen. I seen \<Longrightarrow> fst (f q seen) = P q \<and> I (snd (f q seen))" "I seen"
  shows "fst (try_positions f qs seen) = (\<exists>q \<in> set qs. P q) \<and> I (snd (try_positions f qs seen))"
  using assms(2)
proof (induction qs arbitrary: seen)
  case (Cons q qs)
  obtain ok seen' where f: "f q seen = (ok, seen')" by (cases "f q seen")
  then show ?case using assms(1) [OF Cons.prems, of q] Cons.IH [of seen'] by auto
qed simp

lemma match_at_ok:
  assumes "table_ok g0 path seen" "g = drop t g0"
  shows "fst (match_at g path t p seen) = matches_plain g path p \<and>
    table_ok g0 path (snd (match_at g path t p seen))"
  using assms
proof (induction g arbitrary: t p seen)
  case (Cons tok g)
  show ?case
  proof (cases "seen (t, p)")
    case (Some r)
    then have "r = matches_plain (tok # g) path p"
      using Cons.prems unfolding table_ok_def by metis
    then show ?thesis using Some Cons.prems(1) by simp
  next
    case None
    have d: "g = drop (t + 1) g0"
      using Cons.prems(2) by (metis Suc_eq_plus1 drop_Suc list.sel(3) tl_drop)
    obtain ok seen' where tr: "try_positions (match_at g path (t + 1)) (next_positions tok path p) seen
        = (ok, seen')" by fastforce
    have "fst (try_positions (match_at g path (t + 1)) (next_positions tok path p) seen) =
        (\<exists>q \<in> set (next_positions tok path p). matches_plain g path q) \<and>
      table_ok g0 path (snd (try_positions (match_at g path (t + 1)) (next_positions tok path p) seen))"
      by (rule try_positions_ok) (use Cons.IH d Cons.prems(1) in blast)+
    then have ok: "ok = matches_plain (tok # g) path p" and tab: "table_ok g0 path seen'"
      unfolding tr by simp_all
    have "ok = matches_plain (drop t g0) path p"
      using ok unfolding Cons.prems(2) .
    with tab have "table_ok g0 path (seen'((t, p) \<mapsto> ok))" by (rule table_ok_upd)
    then show ?thesis
      using ok by (simp only: match_at.simps None option.case tr prod.case fst_conv snd_conv simp_thms)
  qed
qed simp

lemma match_glob_plain: "match_glob g path \<longleftrightarrow> matches_plain g path 0"
  using match_at_ok [of g path Map.empty g 0 0] by (simp add: match_glob_def)

section \<open>The reading of a glob\<close>

text \<open>
  How a glob is documented to read, stated over the segments of the glob and the path
  without tokens or positions: a segment matches one segment byte by byte, \<^verbatim>\<open>**\<close> any
  number of segments, and a last \<^verbatim>\<open>**\<close> any bytes.
\<close>

fun seg_match :: "string \<Rightarrow> string \<Rightarrow> bool" where
  "seg_match [] s = (s = [])"
| "seg_match (c # cs) s =
     (if c = CHR ''*'' then (\<exists>k \<le> length s. slash \<notin> set (take k s) \<and> seg_match cs (drop k s))
      else if c = CHR ''?'' then (case s of [] \<Rightarrow> False | x # xs \<Rightarrow> x \<noteq> slash \<and> seg_match cs xs)
      else (case s of [] \<Rightarrow> False | x # xs \<Rightarrow> x = c \<and> seg_match cs xs))"

inductive glob_spec :: "string list \<Rightarrow> string \<Rightarrow> bool" where
  empty: "glob_spec [] []"
| any_rest: "glob_spec [''**''] s"
| last: "seg \<noteq> ''**'' \<Longrightarrow> seg_match seg s \<Longrightarrow> glob_spec [seg] s"
| no_seg: "glob_spec (seg # segs) s \<Longrightarrow> glob_spec (''**'' # seg # segs) s"
| more_segs: "glob_spec (seg # segs) s \<Longrightarrow> glob_spec (''**'' # seg # segs) (u @ slash # s)"
| seg: "seg \<noteq> ''**'' \<Longrightarrow> seg_match seg u \<Longrightarrow> glob_spec (q # segs) s \<Longrightarrow>
    glob_spec (seg # q # segs) (u @ slash # s)"

inductive_simps glob_spec_simps:
  "glob_spec [] s"
  "glob_spec [sg] s"
  "glob_spec (sg # q # segs) s"

text \<open>Token by token, on the rest of the path instead of a position in it.\<close>

fun tok_match :: "token list \<Rightarrow> string \<Rightarrow> bool" where
  "tok_match [] s = (s = [])"
| "tok_match (Literal b # g) s = (case s of [] \<Rightarrow> False | x # xs \<Rightarrow> x = b \<and> tok_match g xs)"
| "tok_match (One # g) s = (case s of [] \<Rightarrow> False | x # xs \<Rightarrow> x \<noteq> slash \<and> tok_match g xs)"
| "tok_match (Within # g) s =
     (\<exists>k \<le> length s. slash \<notin> set (take k s) \<and> tok_match g (drop k s))"
| "tok_match (Rest # g) s = (\<exists>k \<le> length s. tok_match g (drop k s))"
| "tok_match (Segments # g) s =
     (tok_match g s \<or> (\<exists>k < length s. s ! k = slash \<and> tok_match g (drop (Suc k) s)))"

lemma in_positions_within:
  "p \<le> length s \<Longrightarrow> q \<in> set (positions_within s p) \<longleftrightarrow>
     (\<exists>k \<le> length (drop p s). slash \<notin> set (take k (drop p s)) \<and> q = p + k)"
proof -
  assume p: "p \<le> length s"
  have *: "k \<le> length (takeWhile (\<lambda>c. c \<noteq> slash) t) \<longleftrightarrow> k \<le> length t \<and> slash \<notin> set (take k t)"
    for k and t :: string
  proof (induction t arbitrary: k)
    case (Cons x t)
    then show ?case by (cases k) auto
  qed simp
  have "q \<in> set (positions_within s p) \<longleftrightarrow>
      (\<exists>k. k \<le> length (takeWhile (\<lambda>c. c \<noteq> slash) (drop p s)) \<and> q = p + k)"
    unfolding positions_within_def set_upt
    by (auto simp: less_Suc_eq_le intro: exI [of _ "q - p"])
  then show ?thesis unfolding * by blast
qed

lemma in_positions_rest:
  "p \<le> length s \<Longrightarrow> q \<in> set (positions_rest s p) \<longleftrightarrow> p \<le> q \<and> q \<le> length s"
  unfolding positions_rest_def set_upt by auto

lemma ex_shift_le:
  fixes p n :: nat
  shows "p \<le> n \<Longrightarrow> (\<exists>q. p \<le> q \<and> q \<le> n \<and> Q q) \<longleftrightarrow> (\<exists>k \<le> n - p. Q (p + k))"
  by (metis add_diff_cancel_left' diff_le_mono le_add1 le_add_diff_inverse nat_add_left_cancel_le)

lemma ex_shift_less:
  fixes p n :: nat
  shows "p \<le> n \<Longrightarrow> (\<exists>q. p \<le> q \<and> q < n \<and> Q q) \<longleftrightarrow> (\<exists>k < n - p. Q (p + k))"
  by (metis add_diff_cancel_left' diff_less_mono le_add1 le_add_diff_inverse nat_add_left_cancel_less)

lemma matches_plain_tok:
  "p \<le> length s \<Longrightarrow> matches_plain g s p \<longleftrightarrow> tok_match g (drop p s)"
proof (induction g arbitrary: p)
  case Nil
  then show ?case by auto
next
  case (Cons tok g)
  have d: "drop p s = s ! p # drop (Suc p) s" if "p < length s"
    using that by (simp add: Cons_nth_drop_Suc)
  show ?case
  proof (cases tok)
    case (Literal b)
    then show ?thesis
      using Cons d by (cases "p < length s") (auto simp: next_positions_def)
  next
    case One
    then show ?thesis
      using Cons d by (cases "p < length s") (auto simp: next_positions_def)
  next
    case Within
    have "matches_plain (tok # g) s p \<longleftrightarrow>
        (\<exists>k \<le> length (drop p s). slash \<notin> set (take k (drop p s)) \<and> matches_plain g s (p + k))"
      using in_positions_within [OF Cons.prems] by (auto simp: Within next_positions_def)
    also have "\<dots> \<longleftrightarrow> tok_match (tok # g) (drop p s)"
    proof -
      have "matches_plain g s (p + k) \<longleftrightarrow> tok_match g (drop k (drop p s))"
        if "k \<le> length (drop p s)" for k
        using Cons.IH [of "p + k"] that Cons.prems by (simp add: add.commute)
      then show ?thesis unfolding Within tok_match.simps by blast
    qed
    finally show ?thesis .
  next
    case Rest
    have "matches_plain (tok # g) s p \<longleftrightarrow>
        (\<exists>q. p \<le> q \<and> q \<le> length s \<and> tok_match g (drop q s))"
      using Cons.IH Cons.prems by (auto simp: Rest next_positions_def in_positions_rest)
    also have "\<dots> \<longleftrightarrow> (\<exists>k \<le> length s - p. tok_match g (drop (p + k) s))"
      by (rule ex_shift_le [OF Cons.prems])
    finally show ?thesis by (simp add: Rest add.commute)
  next
    case Segments
    have "matches_plain (tok # g) s p \<longleftrightarrow> tok_match g (drop p s) \<or>
        (\<exists>q. p \<le> q \<and> q < length s \<and> s ! q = slash \<and> tok_match g (drop (Suc q) s))"
      using Cons.IH Cons.prems by (auto simp: Segments next_positions_def positions_segments_def)
    also have "\<dots> \<longleftrightarrow> tok_match g (drop p s) \<or>
        (\<exists>k < length s - p. s ! (p + k) = slash \<and> tok_match g (drop (Suc (p + k)) s))"
      by (simp only: ex_shift_less [OF Cons.prems, of "\<lambda>q. s ! q = slash \<and> tok_match g (drop (Suc q) s)"])
    finally show ?thesis using Cons.prems by (simp add: Segments add.commute cong: conj_cong)
  qed
qed

text \<open>The tokens of a segment match a prefix of the path that the segment matches.\<close>

lemma ex_split: "(\<exists>k \<le> length s. P (take k s) (drop k s)) \<longleftrightarrow> (\<exists>u v. s = u @ v \<and> P u v)"
proof
  assume "\<exists>u v. s = u @ v \<and> P u v"
  then obtain u v where "s = u @ v" "P u v" by blast
  then show "\<exists>k \<le> length s. P (take k s) (drop k s)" by (intro exI [of _ "length u"]) simp
qed (metis append_take_drop_id)

lemma seg_match_star:
  "seg_match (CHR ''*'' # cs) s \<longleftrightarrow> (\<exists>u v. s = u @ v \<and> slash \<notin> set u \<and> seg_match cs v)"
  using ex_split [of s "\<lambda>u v. slash \<notin> set u \<and> seg_match cs v"] by simp

lemma tok_match_within:
  "tok_match (Within # g) s \<longleftrightarrow> (\<exists>u v. s = u @ v \<and> slash \<notin> set u \<and> tok_match g v)"
  using ex_split [of s "\<lambda>u v. slash \<notin> set u \<and> tok_match g v"] by simp

lemma tok_match_segment:
  "tok_match (map compile_byte seg @ g) s \<longleftrightarrow>
     (\<exists>u v. s = u @ v \<and> seg_match seg u \<and> tok_match g v)"
proof (induction seg arbitrary: s)
  case (Cons c cs)
  consider "c = CHR ''*''" | "c = CHR ''?''" | "c \<noteq> CHR ''*''" "c \<noteq> CHR ''?''" by blast
  then show ?case
  proof cases
    case 1
    have "tok_match (map compile_byte (c # cs) @ g) s \<longleftrightarrow>
        (\<exists>u v w. s = u @ v @ w \<and> slash \<notin> set u \<and> seg_match cs v \<and> tok_match g w)"
      unfolding 1 by (simp add: compile_byte_def tok_match_within Cons.IH del: tok_match.simps) blast
    also have "\<dots> \<longleftrightarrow> (\<exists>u v. s = u @ v \<and> seg_match (c # cs) u \<and> tok_match g v)"
      unfolding 1 seg_match_star by (metis append.assoc)
    finally show ?thesis .
  next
    case 2
    have tok: "compile_byte c = One" and
      seg: "\<And>u. seg_match (c # cs) u \<longleftrightarrow> (\<exists>x xs. u = x # xs \<and> x \<noteq> slash \<and> seg_match cs xs)"
      using 2 by (simp_all add: compile_byte_def split: list.split)
    show ?thesis
      unfolding seg list.map tok append_Cons tok_match.simps
      by (cases s) (auto simp: Cons.IH Cons_eq_append_conv)
  next
    case 3
    have tok: "compile_byte c = Literal c" and
      seg: "\<And>u. seg_match (c # cs) u \<longleftrightarrow> (\<exists>x xs. u = x # xs \<and> x = c \<and> seg_match cs xs)"
      using 3 by (simp_all add: compile_byte_def split: list.split)
    show ?thesis
      unfolding seg list.map tok append_Cons tok_match.simps
      by (cases s) (auto simp: Cons.IH Cons_eq_append_conv)
  qed
qed simp

lemma tok_match_literal: "tok_match (Literal b # g) s \<longleftrightarrow> (\<exists>v. s = b # v \<and> tok_match g v)"
  by (cases s) auto

lemma tok_match_segments:
  "tok_match (Segments # g) s \<longleftrightarrow> tok_match g s \<or> (\<exists>u v. s = u @ slash # v \<and> tok_match g v)"
proof -
  have "(\<exists>k < length s. s ! k = slash \<and> tok_match g (drop (Suc k) s)) \<longleftrightarrow>
      (\<exists>u v. s = u @ slash # v \<and> tok_match g v)"
  proof
    assume "\<exists>k < length s. s ! k = slash \<and> tok_match g (drop (Suc k) s)"
    then obtain k where "k < length s" "s ! k = slash" "tok_match g (drop (Suc k) s)" by blast
    then show "\<exists>u v. s = u @ slash # v \<and> tok_match g v" by (metis id_take_nth_drop)
  next
    assume "\<exists>u v. s = u @ slash # v \<and> tok_match g v"
    then obtain u v where "s = u @ slash # v" "tok_match g v" by blast
    then show "\<exists>k < length s. s ! k = slash \<and> tok_match g (drop (Suc k) s)"
      by (intro exI [of _ "length u"]) simp
  qed
  then show ?thesis by simp
qed

lemma tok_match_compile: "tok_match (compile_segs segs) s \<longleftrightarrow> glob_spec segs s"
proof (induction segs arbitrary: s rule: compile_segs.induct)
  case 1
  then show ?case by (simp add: glob_spec_simps)
next
  case (2 seg)
  then show ?case
    using tok_match_segment [of seg "[]" s] by (auto simp: glob_spec_simps)
next
  case (3 seg q segs)
  then show ?case
    by (auto simp: tok_match_segment tok_match_segments tok_match_literal glob_spec_simps(3)
        simp del: tok_match.simps compile_segs.simps simp: compile_segs.simps(3))
qed

text \<open>
  C37: the memoised matcher over the compiled tokens decides the documented reading of a glob,
  whatever the glob and the path: the table it shares between the branches never changes an
  answer, and the compilation loses nothing of the reading.
\<close>

theorem Match_iff: "Match pattern path \<longleftrightarrow> glob_spec (glob_segs pattern) path"
  by (simp add: Match_def compile_def match_glob_plain matches_plain_tok tok_match_compile)

end
