(* ===== verification/Composed.thy ===== *)
theory Composed
  imports GoBytes
begin

text \<open>
  \<^verbatim>\<open>composed/model.go\<close> and the types of \<^verbatim>\<open>composed/composed.go\<close>: the composed policy as the
  deriver reads it. A Go map is an association list, in the order a range over it happens to
  visit its keys; \<^verbatim>\<open>model_ok\<close> states that its keys are distinct.
\<close>

section \<open>The policy\<close>

type_synonym pin = string

definition Mandatory :: pin where "Mandatory = ''mandatory''"
definition Default :: pin where "Default = ''default''"

lemma pins_differ [simp]: "Mandatory \<noteq> Default" "Default \<noteq> Mandatory"
  by (simp_all add: Mandatory_def Default_def)

record Check =
  Runner :: string
  Attribute :: string
  Command :: string
  Validity :: string
  Cost :: string

record Class =
  Paths :: "string list"
  Requires :: "(string \<times> pin) list"
  Follows :: "string list"
  Carry :: string

record Policy =
  Checks :: "(string \<times> Check) list"
  MaxAutomaticVersions :: string
  HardwareApproval :: bool
  Digest :: string

record Model = Policy +
  Documents :: "string list"
  Classes :: "(string \<times> Class) list"
  Unclassified :: "(string \<times> pin) list"

text \<open>The keys of each Go map are distinct.\<close>

definition model_ok :: "Model \<Rightarrow> bool" where
  "model_ok m \<longleftrightarrow>
     distinct (map fst (Checks m)) \<and> distinct (map fst (Classes m)) \<and>
     distinct (map fst (Unclassified m)) \<and>
     (\<forall>(_, c) \<in> set (Classes m). distinct (map fst (Requires c)))"

text \<open>\<^verbatim>\<open>trueKeys\<close>: the keys of a set written as an object of booleans.\<close>

definition trueKeys :: "(string \<times> bool) list \<Rightarrow> string list" where
  "trueKeys s = sort (map fst (filter snd s))"

definition runners :: "string list" where "runners = [''nix'', ''command'']"
definition costs :: "string list" where "costs = [''quick'', ''slow'']"
definition modes :: "string list" where "modes = [''exact'', ''same-class'', ''same-paths'']"

end
