(* ===== verification/Derive.thy ===== *)
theory Derive
  imports Glob Composed
begin

text \<open>
  \<^verbatim>\<open>derive/derive.go\<close> and the pure part of \<^verbatim>\<open>derive/paths.go\<close>: the checks a change requires
  under a composed policy, and the paths of a diff as \<^verbatim>\<open>git diff -z --name-status\<close> prints
  them.
\<close>

section \<open>The result\<close>

record Follow =
  fw_name :: string
  fw_classes :: "string list"
  fw_check :: Check

record Required =
  rq_name :: string
  rq_classes :: "string list"
  rq_unclassified :: bool
  rq_pin :: pin
  rq_check :: Check

record Result =
  rs_paths :: "string list"
  rs_classes :: "string list"
  rs_unclassified :: "string list"
  rs_carry :: string
  rs_required :: "Required list"
  rs_follows :: "Follow list"

datatype derive_error =
    UndefinedCheck string
  | BadPin string pin
  | UnknownCarry string string
  | UndefinedFollow string string

definition strictness :: "string \<Rightarrow> nat option" where
  "strictness = map_of [(''same-paths'', 0), (''same-class'', 1), (''exact'', 2)]"

definition sortedSet :: "string list \<Rightarrow> string list" where
  "sortedSet paths = remdups_adj (sort paths)"

section \<open>Matching the paths\<close>

type_synonym compiled = "string \<times> token list list"

definition class_of :: "Model \<Rightarrow> string \<Rightarrow> Class" where
  "class_of m name = the (map_of (Classes m) name)"

definition compiled_classes :: "Model \<Rightarrow> compiled list" where
  "compiled_classes m =
     map (\<lambda>name. (name, map compile (Paths (class_of m name)))) (sort (map fst (Classes m)))"

text \<open>The classes a path hits, in the order of the classes.\<close>

definition hits :: "compiled list \<Rightarrow> string \<Rightarrow> string list" where
  "hits cs path = map fst (filter (\<lambda>(name, globs). \<exists>g \<in> set globs. match_glob g path) cs)"

text \<open>The loop over the paths: the matched classes and the paths no class covers.\<close>

fun scan_paths :: "compiled list \<Rightarrow> string list \<Rightarrow> string list \<times> string list \<Rightarrow> string list \<times> string list" where
  "scan_paths cs [] (matched, unclassified) = (matched, unclassified)"
| "scan_paths cs (path # paths) (matched, unclassified) =
     (let hit = hits cs path in
      scan_paths cs paths
        (hit @ matched, if hit = [] then unclassified @ [path] else unclassified))"

section \<open>Collecting the requirements\<close>

type_synonym required_map = "(string \<times> Required) list"

text \<open>The closure \<^verbatim>\<open>need\<close>: the entry of a check, created on first use, with its pin raised.\<close>

definition need :: "Model \<Rightarrow> required_map \<Rightarrow> string \<Rightarrow> pin \<Rightarrow> (derive_error, Required) result" where
  "need m required check pin =
     rbind
       (case map_of required check of
          Some q \<Rightarrow> Inr q
        | None \<Rightarrow>
            (case map_of (Checks m) check of
               None \<Rightarrow> Inl (UndefinedCheck check)
             | Some def \<Rightarrow>
                 Inr \<lparr>rq_name = check, rq_classes = [], rq_unclassified = False,
                      rq_pin = Default, rq_check = def\<rparr>))
       (\<lambda>q. if pin = Mandatory then Inr (q\<lparr>rq_pin := Mandatory\<rparr>)
            else if pin = Default then Inr q
            else Inl (BadPin check pin))"

text \<open>A loop over requirements, changing each entry found through the pointer \<^verbatim>\<open>need\<close> returns.\<close>

fun need_all ::
  "Model \<Rightarrow> (Required \<Rightarrow> Required) \<Rightarrow> (string \<times> pin) list \<Rightarrow> required_map \<Rightarrow>
   (derive_error, required_map) result" where
  "need_all m change [] required = Inr required"
| "need_all m change ((check, pin) # reqs) required =
     rbind (need m required check pin)
       (\<lambda>q. need_all m change reqs (AList.update check (change q) required))"

definition add_class :: "string \<Rightarrow> Required \<Rightarrow> Required" where
  "add_class name q = q\<lparr>rq_classes := rq_classes q @ [name]\<rparr>"

definition set_unclassified :: "Required \<Rightarrow> Required" where
  "set_unclassified q = q\<lparr>rq_unclassified := True\<rparr>"

text \<open>The loop over the classes, skipping the ones no path matched.\<close>

fun class_loop ::
  "Model \<Rightarrow> string list \<Rightarrow> string list \<Rightarrow> string list \<times> string \<times> required_map \<Rightarrow>
   (derive_error, string list \<times> string \<times> required_map) result" where
  "class_loop m matched [] acc = Inr acc"
| "class_loop m matched (name # names) (classes, carry, required) =
     (if name \<notin> set matched then class_loop m matched names (classes, carry, required)
      else
        let class = class_of m name in
        (case strictness (Carry class) of
           None \<Rightarrow> Inl (UnknownCarry name (Carry class))
         | Some mode \<Rightarrow>
             rbind (need_all m (add_class name) (Requires class) required)
               (\<lambda>required'. class_loop m matched names
                  (classes @ [name],
                   if the (strictness carry) < mode then Carry class else carry, required'))))"

section \<open>Collecting the follows\<close>

type_synonym follow_map = "(string \<times> Follow) list"

fun follow_class ::
  "Model \<Rightarrow> required_map \<Rightarrow> string \<Rightarrow> string list \<Rightarrow> follow_map \<Rightarrow>
   (derive_error, follow_map) result" where
  "follow_class m required name [] follows = Inr follows"
| "follow_class m required name (check # checks) follows =
     (if map_of required check \<noteq> None then follow_class m required name checks follows
      else
        rbind
          (case map_of follows check of
             Some f \<Rightarrow> Inr f
           | None \<Rightarrow>
               (case map_of (Checks m) check of
                  None \<Rightarrow> Inl (UndefinedFollow name check)
                | Some def \<Rightarrow> Inr \<lparr>fw_name = check, fw_classes = [], fw_check = def\<rparr>))
          (\<lambda>f. follow_class m required name checks
             (AList.update check (f\<lparr>fw_classes := fw_classes f @ [name]\<rparr>) follows)))"

fun follow_loop ::
  "Model \<Rightarrow> required_map \<Rightarrow> string list \<Rightarrow> follow_map \<Rightarrow> (derive_error, follow_map) result" where
  "follow_loop m required [] follows = Inr follows"
| "follow_loop m required (name # names) follows =
     rbind (follow_class m required name (Follows (class_of m name)) follows)
       (follow_loop m required names)"

definition Derive :: "Model \<Rightarrow> string list \<Rightarrow> (derive_error, Result) result" where
  "Derive m paths =
     (let sorted_paths = sortedSet paths;
          cs = compiled_classes m;
          (matched, unclassified) = scan_paths cs sorted_paths ([], [])
      in
      rbind (class_loop m matched (map fst cs) ([], ''same-paths'', []))
        (\<lambda>(classes, carry, required).
           rbind
             (if unclassified \<noteq> [] then need_all m set_unclassified (Unclassified m) required
              else Inr required)
             (\<lambda>required.
                rbind (follow_loop m required classes [])
                  (\<lambda>follows.
                     Inr \<lparr>rs_paths = sorted_paths, rs_classes = classes,
                          rs_unclassified = unclassified, rs_carry = carry,
                          rs_required = sort_key rq_name (map snd required),
                          rs_follows = sort_key fw_name (map snd follows)\<rparr>))))"

section \<open>The diff\<close>

datatype diff_error = Truncated | BadStatus string | EmptyPath

definition validStatus :: "string \<Rightarrow> bool" where
  "validStatus s =
     (case s of
        [] \<Rightarrow> False
      | c # rest \<Rightarrow> c \<in> set ''ACDMRTUXB'' \<and> list_all is_digit rest)"

abbreviation nul :: char where "nul \<equiv> CHR 0x00"

text \<open>The inner loop: the sides of one record, and what follows them.\<close>

fun read_sides :: "nat \<Rightarrow> string \<Rightarrow> (diff_error, string list \<times> string) result" where
  "read_sides 0 out = Inr ([], out)"
| "read_sides (Suc sides) out =
     (case cut_byte out nul of
        None \<Rightarrow> Inl Truncated
      | Some (path, after) \<Rightarrow>
          if path = [] then Inl EmptyPath
          else rbind (read_sides sides after) (\<lambda>(paths, rest). Inr (path # paths, rest)))"

definition sides_of :: "string \<Rightarrow> nat" where
  "sides_of status = (if hd status = CHR ''R'' \<or> hd status = CHR ''C'' then 2 else 1)"

lemma cut_byte_length: "cut_byte s c = Some (a, b) \<Longrightarrow> length b < length s"
  by (auto simp: cut_byte_Some)

lemma read_sides_length: "read_sides n out = Inr (ps, rest) \<Longrightarrow> length rest \<le> length out"
  by (induction n arbitrary: out ps rest)
    (fastforce simp: result_simps split: option.splits if_splits prod.splits dest!: cut_byte_length)+

function Changed :: "string \<Rightarrow> (diff_error, string list) result" where
  "Changed out =
     (if out = [] then Inr []
      else
        (case cut_byte out nul of
           None \<Rightarrow> Inl Truncated
         | Some (status, after) \<Rightarrow>
             if \<not> validStatus status then Inl (BadStatus status)
             else
               (case read_sides (sides_of status) after of
                  Inl e \<Rightarrow> Inl e
                | Inr (paths, rest) \<Rightarrow> rbind (Changed rest) (\<lambda>more. Inr (paths @ more)))))"
  by pat_completeness auto
termination
proof (relation "measure length")
  fix out :: string and x status after y and paths rest
  assume "cut_byte out nul = Some x" "(status, after) = x"
    "read_sides (sides_of status) after = Inr y" "(paths, rest) = y"
  then have "length after < length out" "length rest \<le> length after"
    using cut_byte_length read_sides_length by blast+
  then show "(rest, out) \<in> measure length" by simp
qed simp

declare Changed.simps [simp del]

section \<open>What a diff is read as\<close>

type_synonym diff_record = "string \<times> string list"

definition diff_record_ok :: "diff_record \<Rightarrow> bool" where
  "diff_record_ok rec \<longleftrightarrow>
     validStatus (fst rec) \<and> length (snd rec) = sides_of (fst rec) \<and>
     (\<forall>p \<in> set (snd rec). p \<noteq> [] \<and> nul \<notin> set p)"

definition render_paths :: "string list \<Rightarrow> string" where
  "render_paths ps = concat (map (\<lambda>p. p @ [nul]) ps)"

definition render_diff :: "diff_record list \<Rightarrow> string" where
  "render_diff recs = concat (map (\<lambda>(status, ps). status @ nul # render_paths ps) recs)"

lemma validStatus_no_nul: "validStatus s \<Longrightarrow> nul \<notin> set s"
  by (auto simp: validStatus_def list_all_iff is_digit_def byte_val_def split: list.splits)

lemma read_sides_iff:
  "read_sides n out = Inr (ps, rest) \<longleftrightarrow>
     out = render_paths ps @ rest \<and> length ps = n \<and> (\<forall>p \<in> set ps. p \<noteq> [] \<and> nul \<notin> set p)"
proof (induction n arbitrary: out ps)
  case 0
  then show ?case by (auto simp: render_paths_def)
next
  case (Suc n)
  show ?case
  proof (cases "cut_byte out nul")
    case None
    then have "read_sides (Suc n) out = Inl Truncated" "nul \<notin> set out"
      by (simp_all add: None del: cut_byte_None) (use None in simp)
    then show ?thesis by (cases ps) (auto simp: render_paths_def)
  next
    case (Some x)
    obtain p after where x: "x = (p, after)" by fastforce
    then have out: "out = p @ nul # after" "nul \<notin> set p" using Some by (auto simp: cut_byte_Some)
    have uniq: "out = q @ nul # t \<Longrightarrow> nul \<notin> set q \<Longrightarrow> q = p \<and> t = after" for q t
      using Some x cut_byte_Some [of out nul q t] by auto
    show ?thesis
    proof (cases ps)
      case Nil
      then show ?thesis using Some x by (auto simp: result_simps)
    next
      case (Cons q qs)
      have "read_sides (Suc n) out = Inr (ps, rest) \<longleftrightarrow>
          p \<noteq> [] \<and> q = p \<and> read_sides n after = Inr (qs, rest)"
        using Some x Cons by (auto simp: result_simps)
      also have "\<dots> \<longleftrightarrow> p \<noteq> [] \<and> q = p \<and> after = render_paths qs @ rest \<and> length qs = n \<and>
          (\<forall>p \<in> set qs. p \<noteq> [] \<and> nul \<notin> set p)"
        unfolding Suc.IH by blast
      also have "\<dots> \<longleftrightarrow> out = render_paths ps @ rest \<and> length ps = Suc n \<and>
          (\<forall>p \<in> set ps. p \<noteq> [] \<and> nul \<notin> set p)"
      proof -
        have r: "render_paths ps @ rest = q @ nul # render_paths qs @ rest"
          by (simp add: Cons render_paths_def)
        have "out = render_paths ps @ rest \<and> nul \<notin> set q \<longleftrightarrow> q = p \<and> after = render_paths qs @ rest"
          unfolding r using out uniq [of q "render_paths qs @ rest"] by metis
        then show ?thesis using out(2) unfolding Cons by (simp del: cut_byte_None) metis
      qed
      finally show ?thesis .
    qed
  qed
qed

text \<open>
  A diff is read exactly when it is a whole number of records as git writes them, each a
  known status and the number of paths its status has, every field closed by a NUL; and then
  the paths read are every side of every record, in order.
\<close>

theorem Changed_iff:
  "Changed out = Inr paths \<longleftrightarrow>
     (\<exists>recs. list_all diff_record_ok recs \<and> out = render_diff recs \<and>
        paths = concat (map snd recs))"
proof
  show "Changed out = Inr paths \<Longrightarrow> \<exists>recs. list_all diff_record_ok recs \<and>
      out = render_diff recs \<and> paths = concat (map snd recs)"
  proof (induction out arbitrary: paths rule: Changed.induct)
    case (1 out)
    show ?case
    proof (cases "out = []")
      case True
      then show ?thesis using 1 by (auto simp: Changed.simps render_diff_def intro: exI [of _ "[]"])
    next
      case False
      then obtain status after ps rest more where
        st: "cut_byte out nul = Some (status, after)" "validStatus status" and
        rd: "read_sides (sides_of status) after = Inr (ps, rest)" and
        more: "Changed rest = Inr more" "paths = ps @ more"
        using 1(2) by (subst (asm) Changed.simps)
          (auto simp: result_simps split: option.splits if_splits sum.splits prod.splits)
      obtain recs where recs: "list_all diff_record_ok recs" "rest = render_diff recs"
        "more = concat (map snd recs)"
        using 1(1) [OF False st(1) refl _ rd refl more(1)] st(2) by blast
      have "list_all diff_record_ok ((status, ps) # recs) \<and> out = render_diff ((status, ps) # recs)
          \<and> paths = concat (map snd ((status, ps) # recs))"
        using recs st rd more(2)
        by (simp add: diff_record_ok_def render_diff_def read_sides_iff cut_byte_Some)
      then show ?thesis by blast
    qed
  qed
next
  have "list_all diff_record_ok recs \<Longrightarrow> Changed (render_diff recs) = Inr (concat (map snd recs))" for recs
  proof (induction recs)
    case Nil
    then show ?case by (simp add: render_diff_def Changed.simps)
  next
    case (Cons rec recs)
    obtain status ps where rec: "rec = (status, ps)" by fastforce
    have out: "render_diff (rec # recs) = status @ nul # render_paths ps @ render_diff recs"
      by (simp add: render_diff_def rec)
    have ok: "diff_record_ok (status, ps)" using Cons.prems rec by simp
    then have cut: "cut_byte (render_diff (rec # recs)) nul = Some (status, render_paths ps @ render_diff recs)"
      unfolding out cut_byte_Some by (simp add: diff_record_ok_def validStatus_no_nul)
    have rd: "read_sides (sides_of status) (render_paths ps @ render_diff recs) = Inr (ps, render_diff recs)"
      using ok by (simp add: read_sides_iff diff_record_ok_def)
    show ?case
    proof -
      have "render_diff (rec # recs) \<noteq> []" by (simp add: out)
      then show ?thesis
        using Cons cut rd ok by (subst Changed.simps) (simp add: diff_record_ok_def rec)
    qed
  qed
  then show "\<exists>recs. list_all diff_record_ok recs \<and> out = render_diff recs \<and>
      paths = concat (map snd recs) \<Longrightarrow> Changed out = Inr paths" by blast
qed

section \<open>What a change requires\<close>

text \<open>A class covers a path when one of its globs matches it.\<close>

definition covers :: "Model \<Rightarrow> string \<Rightarrow> string \<Rightarrow> bool" where
  "covers m name path \<longleftrightarrow> (\<exists>g \<in> set (Paths (class_of m name)). Match g path)"

definition touched_classes :: "Model \<Rightarrow> string list \<Rightarrow> string list" where
  "touched_classes m paths =
     filter (\<lambda>name. \<exists>p \<in> set paths. covers m name p) (sort (map fst (Classes m)))"

definition uncovered :: "Model \<Rightarrow> string list \<Rightarrow> string list" where
  "uncovered m paths = filter (\<lambda>p. \<forall>name \<in> fst ` set (Classes m). \<not> covers m name p) (sorted_set paths)"

lemma sortedSet_sorted_set: "sortedSet = sorted_set"
  by (simp add: sortedSet_def sorted_set_def fun_eq_iff)

lemma set_hits: "set (hits (compiled_classes m) path) =
    {name \<in> fst ` set (Classes m). covers m name path}"
  by (force simp: hits_def compiled_classes_def covers_def Match_def)

lemma scan_paths_spec:
  "scan_paths cs ps (matched, un) = (matched', un') \<Longrightarrow>
     set matched' = set matched \<union> (\<Union>p \<in> set ps. set (hits cs p)) \<and>
     un' = un @ filter (\<lambda>p. hits cs p = []) ps"
  by (induction ps arbitrary: matched un) (fastforce simp: Let_def)+

text \<open>
  A demand is one requirement as a loop meets it: the check, the class requiring it or none
  for the unclassified set, and the pin.
\<close>

type_synonym demand = "string \<times> string option \<times> pin"

fun change_of :: "string option \<Rightarrow> Required \<Rightarrow> Required" where
  "change_of (Some name) = add_class name"
| "change_of None = set_unclassified"

definition class_demands :: "Model \<Rightarrow> string \<Rightarrow> demand list" where
  "class_demands m name = map (\<lambda>(check, pin). (check, Some name, pin)) (Requires (class_of m name))"

definition demands :: "Model \<Rightarrow> string list \<Rightarrow> string list \<Rightarrow> demand list" where
  "demands m classes un =
     concat (map (class_demands m) classes) @
     (if un \<noteq> [] then map (\<lambda>(check, pin). (check, None, pin)) (Unclassified m) else [])"

definition requirement :: "Model \<Rightarrow> demand list \<Rightarrow> string \<Rightarrow> Required" where
  "requirement m ds check =
     \<lparr>rq_name = check,
      rq_classes = map (\<lambda>d. the (fst (snd d))) (filter (\<lambda>d. fst d = check \<and> fst (snd d) \<noteq> None) ds),
      rq_unclassified = (\<exists>d \<in> set ds. fst d = check \<and> fst (snd d) = None),
      rq_pin = (if \<exists>d \<in> set ds. fst d = check \<and> snd (snd d) = Mandatory then Mandatory else Default),
      rq_check = the (map_of (Checks m) check)\<rparr>"

text \<open>The loops as one fold over the demands.\<close>

fun demand_all :: "Model \<Rightarrow> demand list \<Rightarrow> required_map \<Rightarrow> (derive_error, required_map) result" where
  "demand_all m [] required = Inr required"
| "demand_all m ((check, origin, pin) # ds) required =
     rbind (need m required check pin)
       (\<lambda>q. demand_all m ds (AList.update check (change_of origin q) required))"

lemma rbind_assoc: "rbind (rbind r f) g = rbind r (\<lambda>x. rbind (f x) g)"
  by (cases r) auto

lemma demand_all_append: "demand_all m (ds @ es) req = rbind (demand_all m ds req) (demand_all m es)"
  by (induction m ds req rule: demand_all.induct) (auto simp: rbind_assoc intro: rbind_cong)

lemma need_all_demand:
  "need_all m (change_of origin) reqs req = demand_all m (map (\<lambda>(check, pin). (check, origin, pin)) reqs) req"
  by (induction m "change_of origin" reqs req rule: need_all.induct) (auto intro: rbind_cong)

definition demand_ok :: "Model \<Rightarrow> demand \<Rightarrow> bool" where
  "demand_ok m d \<longleftrightarrow> map_of (Checks m) (fst d) \<noteq> None \<and> snd (snd d) \<in> {Mandatory, Default}"

text \<open>What the map holds after a list of demands.\<close>

definition holds_demands :: "Model \<Rightarrow> demand list \<Rightarrow> required_map \<Rightarrow> bool" where
  "holds_demands m ds req \<longleftrightarrow>
     (\<forall>d \<in> set ds. demand_ok m d) \<and> is_table (map fst ds) (requirement m ds) req"

lemma requirement_other: "check \<noteq> fst d \<Longrightarrow> requirement m (ds @ [d]) check = requirement m ds check"
  by (simp add: requirement_def)

lemma requirement_none:
  "check \<notin> fst ` set ds \<Longrightarrow> requirement m ds check =
     \<lparr>rq_name = check, rq_classes = [], rq_unclassified = False, rq_pin = Default,
      rq_check = the (map_of (Checks m) check)\<rparr>"
  by (force simp: requirement_def filter_empty_conv)

lemma requirement_same:
  "snd (snd d) \<in> {Mandatory, Default} \<Longrightarrow> requirement m (ds @ [d]) (fst d) =
     change_of (fst (snd d))
       (if snd (snd d) = Mandatory then (requirement m ds (fst d))\<lparr>rq_pin := Mandatory\<rparr>
        else requirement m ds (fst d))"
  by (cases "fst (snd d)") (auto simp: requirement_def add_class_def set_unclassified_def)

lemma demand_snoc:
  assumes "holds_demands m ds req"
  shows "demand_all m [d] req = Inr req' \<Longrightarrow> demand_ok m d \<and> holds_demands m (ds @ [d]) req'"
    and "demand_ok m d \<Longrightarrow> \<exists>req'. demand_all m [d] req = Inr req'"
proof -
  obtain check origin pin where d: "d = (check, origin, pin)" by (cases d)
  have oks: "\<forall>d \<in> set ds. demand_ok m d" and tab: "is_table (map fst ds) (requirement m ds) req"
    using assms by (simp_all add: holds_demands_def)
  define q0 where "q0 = requirement m ds check"
  have def: "check \<in> fst ` set ds \<Longrightarrow> map_of (Checks m) check \<noteq> None"
    using oks by (auto simp: demand_ok_def)
  have need: "need m req check pin =
      (if map_of (Checks m) check = None then Inl (UndefinedCheck check)
       else if pin = Mandatory then Inr (q0\<lparr>rq_pin := Mandatory\<rparr>)
       else if pin = Default then Inr q0 else Inl (BadPin check pin))"
    using def requirement_none [of check ds m]
    by (cases "check \<in> fst ` set ds")
      (auto simp: need_def q0_def is_table_lookup [OF tab] split: option.splits)
  show "demand_ok m d \<Longrightarrow> \<exists>req'. demand_all m [d] req = Inr req'"
    by (auto simp: d demand_ok_def need)
  assume "demand_all m [d] req = Inr req'"
  then have ok: "demand_ok m d" and
    req': "req' = AList.update check
      (change_of origin (if pin = Mandatory then q0\<lparr>rq_pin := Mandatory\<rparr> else q0)) req"
    by (auto simp: d need demand_ok_def split: if_splits)
  have "is_table (map fst ds @ [check]) (requirement m (ds @ [d])) req'"
    unfolding req'
    by (rule is_table_update [OF tab])
      (use ok requirement_same [of d m ds] in
        \<open>simp_all add: requirement_other d q0_def demand_ok_def\<close>)
  then show "demand_ok m d \<and> holds_demands m (ds @ [d]) req'"
    using oks ok by (simp add: holds_demands_def d)
qed

lemma demand_all_spec:
  "demand_all m ds [] = Inr req \<Longrightarrow> holds_demands m ds req"
proof (induction ds arbitrary: req rule: rev_induct)
  case Nil
  then show ?case by (simp add: holds_demands_def)
next
  case (snoc d ds)
  then obtain req1 where "demand_all m ds [] = Inr req1" "demand_all m [d] req1 = Inr req"
    by (auto simp: demand_all_append result_simps)
  then show ?case using snoc.IH demand_snoc(1) by blast
qed

lemma demand_all_total:
  "\<forall>d \<in> set ds. demand_ok m d \<Longrightarrow> \<exists>req. demand_all m ds [] = Inr req"
proof (induction ds rule: rev_induct)
  case (snoc d ds)
  then obtain req where req: "demand_all m ds [] = Inr req" by auto
  then obtain req' where "demand_all m [d] req = Inr req'"
    using demand_snoc(2) [OF demand_all_spec [OF req], of d] snoc.prems by auto
  then show ?case using req by (simp add: demand_all_append)
qed simp

text \<open>The strictest of the carry modes met so far.\<close>

definition stricter :: "string \<Rightarrow> string \<Rightarrow> string" where
  "stricter carry mode = (if the (strictness carry) < the (strictness mode) then mode else carry)"

definition carry_of :: "Model \<Rightarrow> string \<Rightarrow> string list \<Rightarrow> string" where
  "carry_of m = foldl (\<lambda>carry name. stricter carry (Carry (class_of m name)))"

definition carry_known :: "Model \<Rightarrow> string \<Rightarrow> bool" where
  "carry_known m name \<longleftrightarrow> strictness (Carry (class_of m name)) \<noteq> None"

lemma class_loop_spec:
  "class_loop m matched names (classes, carry, req) = Inr res \<longleftrightarrow>
     (let hit = filter (\<lambda>n. n \<in> set matched) names in
      list_all (carry_known m) hit \<and>
      (\<exists>req'. demand_all m (concat (map (class_demands m) hit)) req = Inr req' \<and>
        res = (classes @ hit, carry_of m carry hit, req')))"
proof (induction names arbitrary: classes carry req)
  case Nil
  then show ?case by (auto simp: carry_of_def)
next
  case (Cons name names)
  have need: "need_all m (add_class name) (Requires (class_of m name)) req = demand_all m (class_demands m name) req"
    using need_all_demand [of m "Some name"] by (simp add: class_demands_def)
  show ?case
  proof (cases "name \<in> set matched")
    case True
    then show ?thesis
      by (cases "strictness (Carry (class_of m name))")
        (auto simp: Let_def need carry_known_def result_simps Cons.IH carry_of_def stricter_def
          demand_all_append)
  next
    case False
    then show ?thesis using Cons.IH by (simp add: Let_def)
  qed
qed

lemma holds_demands_sorted:
  "holds_demands m ds req \<Longrightarrow>
     sort_key rq_name (map snd req) = map (requirement m ds) (sorted_set (map fst ds))"
  unfolding holds_demands_def by (intro is_table_sorted) (auto simp: requirement_def)

text \<open>The checks that follow a class, as the loop meets them.\<close>

definition follow_pairs :: "Model \<Rightarrow> required_map \<Rightarrow> string list \<Rightarrow> (string \<times> string) list" where
  "follow_pairs m req names =
     concat (map (\<lambda>n. map (\<lambda>c. (c, n)) (filter (\<lambda>c. map_of req c = None) (Follows (class_of m n)))) names)"

definition following :: "Model \<Rightarrow> (string \<times> string) list \<Rightarrow> string \<Rightarrow> Follow" where
  "following m ps check =
     \<lparr>fw_name = check, fw_classes = map snd (filter (\<lambda>p. fst p = check) ps),
      fw_check = the (map_of (Checks m) check)\<rparr>"

fun follow_all :: "Model \<Rightarrow> (string \<times> string) list \<Rightarrow> follow_map \<Rightarrow> (derive_error, follow_map) result" where
  "follow_all m [] follows = Inr follows"
| "follow_all m ((check, name) # ps) follows =
     rbind
       (case map_of follows check of
          Some f \<Rightarrow> Inr f
        | None \<Rightarrow>
            (case map_of (Checks m) check of
               None \<Rightarrow> Inl (UndefinedFollow name check)
             | Some def \<Rightarrow> Inr \<lparr>fw_name = check, fw_classes = [], fw_check = def\<rparr>))
       (\<lambda>f. follow_all m ps (AList.update check (f\<lparr>fw_classes := fw_classes f @ [name]\<rparr>) follows))"

lemma follow_all_append: "follow_all m (ps @ qs) fs = rbind (follow_all m ps fs) (follow_all m qs)"
  by (induction m ps fs rule: follow_all.induct) (auto simp: rbind_assoc intro: rbind_cong)

lemma follow_class_all:
  "follow_class m req name cs fs = follow_all m (map (\<lambda>c. (c, name)) (filter (\<lambda>c. map_of req c = None) cs)) fs"
  by (induction m req name cs fs rule: follow_class.induct) (auto intro: rbind_cong)

lemma follow_loop_all: "follow_loop m req names fs = follow_all m (follow_pairs m req names) fs"
  by (induction m req names fs rule: follow_loop.induct)
    (auto simp: follow_pairs_def follow_class_all follow_all_append intro: rbind_cong)

definition holds_follows :: "Model \<Rightarrow> (string \<times> string) list \<Rightarrow> follow_map \<Rightarrow> bool" where
  "holds_follows m ps fs \<longleftrightarrow>
     (\<forall>p \<in> set ps. map_of (Checks m) (fst p) \<noteq> None) \<and> is_table (map fst ps) (following m ps) fs"

lemma following_none:
  "check \<notin> fst ` set ps \<Longrightarrow> following m ps check =
     \<lparr>fw_name = check, fw_classes = [], fw_check = the (map_of (Checks m) check)\<rparr>"
  by (force simp: following_def filter_empty_conv)

lemma following_other: "check \<noteq> fst p \<Longrightarrow> following m (ps @ [p]) check = following m ps check"
  by (simp add: following_def)

lemma following_same:
  "following m (ps @ [(c, n)]) c = (following m ps c)\<lparr>fw_classes := fw_classes (following m ps c) @ [n]\<rparr>"
  by (simp add: following_def)

lemma follow_snoc:
  assumes "holds_follows m ps fs"
  shows "follow_all m [(c, n)] fs = Inr fs' \<Longrightarrow>
      map_of (Checks m) c \<noteq> None \<and> holds_follows m (ps @ [(c, n)]) fs'"
    and "map_of (Checks m) c \<noteq> None \<Longrightarrow> \<exists>fs'. follow_all m [(c, n)] fs = Inr fs'"
proof -
  have oks: "\<forall>p \<in> set ps. map_of (Checks m) (fst p) \<noteq> None" and
    tab: "is_table (map fst ps) (following m ps) fs"
    using assms by (simp_all add: holds_follows_def)
  have def: "c \<in> fst ` set ps \<Longrightarrow> map_of (Checks m) c \<noteq> None" using oks by blast
  have step: "follow_all m [(c, n)] fs =
      (if map_of (Checks m) c = None then Inl (UndefinedFollow n c)
       else Inr (AList.update c (following m (ps @ [(c, n)]) c) fs))"
    using def following_none [of c ps m]
    by (cases "c \<in> fst ` set ps")
      (auto simp: following_same is_table_lookup [OF tab] split: option.splits)
  then show "map_of (Checks m) c \<noteq> None \<Longrightarrow> \<exists>fs'. follow_all m [(c, n)] fs = Inr fs'" by simp
  assume "follow_all m [(c, n)] fs = Inr fs'"
  then have ok: "map_of (Checks m) c \<noteq> None" and
    fs': "fs' = AList.update c (following m (ps @ [(c, n)]) c) fs"
    unfolding step by (simp_all split: if_splits)
  have "is_table (map fst ps @ [c]) (following m (ps @ [(c, n)])) fs'"
    unfolding fs' by (rule is_table_update [OF tab]) (simp_all add: following_other)
  then show "map_of (Checks m) c \<noteq> None \<and> holds_follows m (ps @ [(c, n)]) fs'"
    using oks ok by (simp add: holds_follows_def)
qed

lemma follow_all_spec: "follow_all m ps [] = Inr fs \<Longrightarrow> holds_follows m ps fs"
proof (induction ps arbitrary: fs rule: rev_induct)
  case Nil
  then show ?case by (simp add: holds_follows_def)
next
  case (snoc p ps)
  then obtain fs1 where "follow_all m ps [] = Inr fs1" "follow_all m [p] fs1 = Inr fs"
    by (auto simp: follow_all_append result_simps)
  then show ?case using snoc.IH follow_snoc(1) by (metis prod.collapse)
qed

lemma follow_all_total:
  "\<forall>p \<in> set ps. map_of (Checks m) (fst p) \<noteq> None \<Longrightarrow> \<exists>fs. follow_all m ps [] = Inr fs"
proof (induction ps rule: rev_induct)
  case (snoc p ps)
  then obtain fs where fs: "follow_all m ps [] = Inr fs" by auto
  obtain c n where p: "p = (c, n)" by fastforce
  obtain fs' where "follow_all m [p] fs = Inr fs'"
    using follow_snoc(2) [OF follow_all_spec [OF fs], of c n] snoc.prems unfolding p by auto
  then show ?case using fs by (simp add: follow_all_append)
qed simp

lemma holds_follows_sorted:
  "holds_follows m ps fs \<Longrightarrow>
     sort_key fw_name (map snd fs) = map (following m ps) (sorted_set (map fst ps))"
  unfolding holds_follows_def by (intro is_table_sorted) (auto simp: following_def)

definition derived_demands :: "Model \<Rightarrow> string list \<Rightarrow> demand list" where
  "derived_demands m paths = demands m (touched_classes m paths) (uncovered m paths)"

definition derived_follows :: "Model \<Rightarrow> string list \<Rightarrow> (string \<times> string) list" where
  "derived_follows m paths =
     concat (map (\<lambda>n. map (\<lambda>c. (c, n))
       (filter (\<lambda>c. c \<notin> fst ` set (derived_demands m paths)) (Follows (class_of m n))))
       (touched_classes m paths))"

text \<open>The policy answers for the paths: it knows the carry modes, checks and pins they need.\<close>

definition answerable :: "Model \<Rightarrow> string list \<Rightarrow> bool" where
  "answerable m paths \<longleftrightarrow>
     (\<forall>name \<in> set (touched_classes m paths). carry_known m name) \<and>
     (\<forall>d \<in> set (derived_demands m paths). demand_ok m d) \<and>
     (\<forall>p \<in> set (derived_follows m paths). map_of (Checks m) (fst p) \<noteq> None)"

definition derived :: "Model \<Rightarrow> string list \<Rightarrow> Result" where
  "derived m paths =
     \<lparr>rs_paths = sorted_set paths, rs_classes = touched_classes m paths,
      rs_unclassified = uncovered m paths,
      rs_carry = carry_of m ''same-paths'' (touched_classes m paths),
      rs_required = map (requirement m (derived_demands m paths))
        (sorted_set (map fst (derived_demands m paths))),
      rs_follows = map (following m (derived_follows m paths))
        (sorted_set (map fst (derived_follows m paths)))\<rparr>"

lemma scan_compiled:
  assumes "scan_paths (compiled_classes m) (sortedSet paths) ([], []) = (matched, un)"
  shows "filter (\<lambda>n. n \<in> set matched) (map fst (compiled_classes m)) = touched_classes m paths"
    and "un = uncovered m paths"
proof -
  have m: "set matched = (\<Union>p \<in> set paths. {name \<in> fst ` set (Classes m). covers m name p})"
    and u: "un = filter (\<lambda>p. hits (compiled_classes m) p = []) (sorted_set paths)"
    using scan_paths_spec [OF assms] by (simp_all add: sortedSet_sorted_set set_hits)
  show "filter (\<lambda>n. n \<in> set matched) (map fst (compiled_classes m)) = touched_classes m paths"
    unfolding touched_classes_def compiled_classes_def m
    by (auto simp: comp_def intro!: filter_cong)
  have "hits (compiled_classes m) p = [] \<longleftrightarrow> (\<forall>name \<in> fst ` set (Classes m). \<not> covers m name p)" for p
    using set_hits [of m p] by (auto simp flip: set_empty)
  then show "un = uncovered m paths" by (simp add: u uncovered_def)
qed

text \<open>
  C29: what a change requires. The deriver answers exactly when the policy knows every carry
  mode, check and pin the paths call for, and then its answer is the specified one: the
  classes a path touches, the paths no class covers, the strictest carry mode, each required
  check once with every class requiring it and the strictest pin, and the checks that follow a
  touched class and are not required. No order in which the maps of the policy are visited
  changes which checks it names.
\<close>

theorem Derive_iff: "Derive m paths = Inr r \<longleftrightarrow> answerable m paths \<and> r = derived m paths"
proof -
  obtain matched un where scan:
    "scan_paths (compiled_classes m) (sortedSet paths) ([], []) = (matched, un)" by fastforce
  note hit = scan_compiled [OF scan]
  let ?cl = "touched_classes m paths" and ?ds = "derived_demands m paths"
  have two: "rbind (demand_all m (concat (map (class_demands m) ?cl)) [])
      (\<lambda>req. if un \<noteq> [] then need_all m set_unclassified (Unclassified m) req else Inr req) =
    demand_all m ?ds []"
    using need_all_demand [of m None]
    by (simp add: derived_demands_def demands_def demand_all_append hit(2) cong: rbind_cong)
  have fp: "follow_pairs m req ?cl = derived_follows m paths" if "holds_demands m ?ds req" for req
    using is_table_lookup [of "map fst ?ds" "requirement m ?ds" req] that
    by (simp add: follow_pairs_def derived_follows_def holds_demands_def)
  have "Derive m paths = Inr r \<longleftrightarrow> list_all (carry_known m) ?cl \<and>
    (\<exists>req. demand_all m ?ds [] = Inr req \<and> (\<exists>fs. follow_loop m req ?cl [] = Inr fs \<and>
      r = \<lparr>rs_paths = sorted_set paths, rs_classes = ?cl, rs_unclassified = un,
           rs_carry = carry_of m ''same-paths'' ?cl,
           rs_required = sort_key rq_name (map snd req), rs_follows = sort_key fw_name (map snd fs)\<rparr>))"
    unfolding Derive_def scan Let_def prod.case two [symmetric]
    by (auto simp: rbind_eq_Inr class_loop_spec Let_def hit(1) sortedSet_sorted_set)
  also have "\<dots> \<longleftrightarrow> answerable m paths \<and> r = derived m paths"
    (is "?l \<longleftrightarrow> ?r")
  proof
    assume ?l
    then obtain req fs where c: "list_all (carry_known m) ?cl" and req: "demand_all m ?ds [] = Inr req"
      and fs: "follow_loop m req ?cl [] = Inr fs" and
      r: "r = \<lparr>rs_paths = sorted_set paths, rs_classes = ?cl, rs_unclassified = un,
           rs_carry = carry_of m ''same-paths'' ?cl,
           rs_required = sort_key rq_name (map snd req), rs_follows = sort_key fw_name (map snd fs)\<rparr>"
      by blast
    note hd = demand_all_spec [OF req]
    note hf = follow_all_spec [OF fs [unfolded follow_loop_all fp [OF hd]]]
    have "answerable m paths"
      using c hd hf by (simp add: answerable_def list_all_iff holds_demands_def holds_follows_def)
    moreover have "r = derived m paths"
      unfolding r derived_def holds_demands_sorted [OF hd] holds_follows_sorted [OF hf] hit(2) ..
    ultimately show ?r ..
  next
    assume r: ?r
    then have a: "answerable m paths" by blast
    then obtain req where req: "demand_all m ?ds [] = Inr req"
      using demand_all_total unfolding answerable_def by blast
    note hd = demand_all_spec [OF req]
    obtain fs where fs: "follow_all m (derived_follows m paths) [] = Inr fs"
      using follow_all_total a unfolding answerable_def by blast
    have "r = \<lparr>rs_paths = sorted_set paths, rs_classes = ?cl, rs_unclassified = un,
           rs_carry = carry_of m ''same-paths'' ?cl,
           rs_required = sort_key rq_name (map snd req), rs_follows = sort_key fw_name (map snd fs)\<rparr>"
      unfolding holds_demands_sorted [OF hd] holds_follows_sorted [OF follow_all_spec [OF fs]] hit(2)
      using r by (simp add: derived_def)
    then show ?l
      using a req fs unfolding follow_loop_all fp [OF hd] answerable_def list_all_iff
      by (metis fp [OF hd] follow_loop_all)
  qed
  finally show ?thesis .
qed

section \<open>More paths never loosen what is required\<close>

lemma strictness_carry_of:
  "the (strictness (carry_of m c names)) =
     Max (insert (the (strictness c)) ((\<lambda>n. the (strictness (Carry (class_of m n)))) ` set names))"
proof (induction names arbitrary: c)
  case Nil
  then show ?case by (simp add: carry_of_def)
next
  case (Cons n names)
  have "the (strictness (stricter c (Carry (class_of m n)))) =
      max (the (strictness c)) (the (strictness (Carry (class_of m n))))"
    by (simp add: stricter_def max_def)
  then show ?case
    using Cons.IH [of "stricter c (Carry (class_of m n))"]
    by (cases "names = []") (auto simp: carry_of_def max.assoc max.commute max.left_commute)
qed

lemma touched_classes_mono: "set ps \<subseteq> set qs \<Longrightarrow> set (touched_classes m ps) \<subseteq> set (touched_classes m qs)"
  by (auto simp: touched_classes_def)

lemma uncovered_mono: "set ps \<subseteq> set qs \<Longrightarrow> set (uncovered m ps) \<subseteq> set (uncovered m qs)"
  by (auto simp: uncovered_def)

lemma derived_demands_mono:
  assumes "set ps \<subseteq> set qs"
  shows "set (derived_demands m ps) \<subseteq> set (derived_demands m qs)"
proof -
  have "uncovered m ps \<noteq> [] \<Longrightarrow> uncovered m qs \<noteq> []"
    using uncovered_mono [OF assms, of m] by auto
  then show ?thesis
    using touched_classes_mono [OF assms, of m] by (auto simp: derived_demands_def demands_def)
qed

definition at_least :: "Required \<Rightarrow> Required \<Rightarrow> bool" where
  "at_least q q' \<longleftrightarrow> rq_name q' = rq_name q \<and> set (rq_classes q) \<subseteq> set (rq_classes q') \<and>
     (rq_unclassified q \<longrightarrow> rq_unclassified q') \<and> (rq_pin q = Mandatory \<longrightarrow> rq_pin q' = Mandatory) \<and>
     rq_check q' = rq_check q"

lemma requirement_mono:
  assumes "set ds \<subseteq> set es"
  shows "at_least (requirement m ds c) (requirement m es c)"
  using assms by (auto simp: at_least_def requirement_def)

text \<open>
  A change that touches more paths requires at least as much: every check required before
  is still required, by the same classes or more, as mandatory as before and run the same way,
  and its carry mode is at least as strict.
\<close>

theorem Derive_monotone:
  assumes "set ps \<subseteq> set qs" "Derive m ps = Inr r" "Derive m qs = Inr r'"
  shows "(\<forall>q \<in> set (rs_required r). \<exists>q' \<in> set (rs_required r'). at_least q q') \<and>
    set (rs_classes r) \<subseteq> set (rs_classes r') \<and>
    the (strictness (rs_carry r)) \<le> the (strictness (rs_carry r'))"
proof -
  have r: "r = derived m ps" "r' = derived m qs" using assms by (simp_all add: Derive_iff)
  have "\<forall>q \<in> set (rs_required r). \<exists>q' \<in> set (rs_required r'). at_least q q'"
  proof
    fix q
    assume "q \<in> set (rs_required r)"
    then obtain c where c: "c \<in> fst ` set (derived_demands m ps)" "q = requirement m (derived_demands m ps) c"
      by (auto simp: r derived_def)
    note sub = derived_demands_mono [OF assms(1), of m]
    have "requirement m (derived_demands m qs) c \<in> set (rs_required r')"
      using c(1) sub by (auto simp: r derived_def)
    then show "\<exists>q' \<in> set (rs_required r'). at_least q q'"
      using requirement_mono [OF sub] c(2) by blast
  qed
  moreover have "set (rs_classes r) \<subseteq> set (rs_classes r')"
    using touched_classes_mono [OF assms(1)] by (simp add: r derived_def)
  moreover have "the (strictness (rs_carry r)) \<le> the (strictness (rs_carry r'))"
    using touched_classes_mono [OF assms(1), of m]
    by (auto simp: r derived_def strictness_carry_of intro!: Max_mono)
  ultimately show ?thesis by blast
qed

definition sample_policy :: Model where
  "sample_policy =
     \<lparr>Checks = [(''lint'', \<lparr>Runner = ''nix'', Attribute = ''lint'', Command = [], Validity = [], Cost = ''quick''\<rparr>)],
      MaxAutomaticVersions = ''3'', HardwareApproval = False, Digest = [], Documents = [],
      Classes = [(''go'', \<lparr>Paths = [''**'' @ ''/*.go''], Requires = [(''lint'', Mandatory)], Follows = [],
        Carry = ''exact''\<rparr>)],
      Unclassified = [(''lint'', Default)]\<rparr>"

theorem Derive_monotone_witness:
  "\<exists>r r'. Derive sample_policy [''README''] = Inr r \<and> Derive sample_policy [''a/b.go'', ''README''] = Inr r' \<and>
     rs_carry r = ''same-paths'' \<and> rs_carry r' = ''exact'' \<and>
     the (strictness (rs_carry r)) \<le> the (strictness (rs_carry r'))"
proof -
  have "case Derive sample_policy [''README''] of Inl _ \<Rightarrow> False | Inr r \<Rightarrow> rs_carry r = ''same-paths''"
    by code_simp
  then have 1: "\<exists>r. Derive sample_policy [''README''] = Inr r \<and> rs_carry r = ''same-paths''"
    by (simp split: sum.splits)
  have "case Derive sample_policy [''a/b.go'', ''README''] of Inl _ \<Rightarrow> False | Inr r \<Rightarrow> rs_carry r = ''exact''"
    by code_simp
  then have 2: "\<exists>r. Derive sample_policy [''a/b.go'', ''README''] = Inr r \<and> rs_carry r = ''exact''"
    by (simp split: sum.splits)
  from 1 2 show ?thesis
    using Derive_monotone [of "[''README'']" "[''a/b.go'', ''README'']" sample_policy] by auto
qed

end
