(* ===== verification/Verdict.thy ===== *)
theory Verdict
  imports GoBytes "HOL-Library.Multiset"
begin

text \<open>
  \<^verbatim>\<open>integrator/verdict/verdict.go\<close>: the commit rule, as a function of a change and a
  snapshot. A Go map that is only looked up is a partial function. An instant is a number of
  nanoseconds, and the difference of two instants saturates at the ends of a 64-bit duration.
  The sentences of a verdict are constructors that carry what the sentence names.
\<close>

section \<open>Data\<close>

datatype Outcome = Land | Stale | Reject

type_synonym Kind = string

definition Pure :: Kind where "Pure = ''pure''"
definition Effectful :: Kind where "Effectful = ''effectful''"

definition KindOf :: "string \<Rightarrow> Kind" where
  "KindOf runner =
     (if runner = ''nix'' then Pure else if runner = ''command'' then Effectful else [])"

type_synonym Admissibility = string

definition Admissible :: Admissibility where "Admissible = ''admissible''"
definition UnknownSigner :: Admissibility where "UnknownSigner = ''unknown-signer''"
definition Tampered :: Admissibility where "Tampered = ''tampered''"

lemma kinds [simp]:
  "Pure \<noteq> []" "Effectful \<noteq> []" "Pure \<noteq> Effectful" "Effectful \<noteq> Pure"
  by (simp_all add: Pure_def Effectful_def)

lemma admissibilities [simp]: "UnknownSigner \<noteq> Tampered" "Tampered \<noteq> UnknownSigner"
  by (simp_all add: UnknownSigner_def Tampered_def)

record Evidence =
  ev_Check :: string
  ev_Kind :: Kind
  ev_Admissible :: Admissibility
  ev_Runner :: string
  ev_Attribute :: string
  ev_Result :: string
  ev_Inputs :: string
  ev_Derivation :: string
  ev_ObservedAt :: int
  ev_TextDigest :: string
  ev_Signer :: string
  ev_Refusal :: string

record Change =
  ch_ID :: string
  ch_Target :: string
  ch_Base :: string
  ch_Head :: string
  ch_Attested :: string
  ch_Evidence :: "string \<rightharpoonup> Evidence"
  ch_Landed :: "string \<rightharpoonup> Evidence"

record Required =
  rq_Name :: string
  rq_Classes :: "string list"
  rq_Runner :: string
  rq_Attribute :: string
  rq_Validity :: int

record Applied =
  ap_Clean :: bool
  ap_Conflict :: string
  ap_Tree :: string

record Closure =
  cl_Inputs :: string
  cl_Derivation :: string

record Snapshot =
  sn_Apply :: Applied
  sn_Required :: "Required list"
  sn_Closures :: "string \<rightharpoonup> Closure"
  sn_ClosureErrors :: "string \<rightharpoonup> string"
  sn_Touched :: "string \<rightharpoonup> bool"
  sn_Now :: int

definition Short :: "string \<Rightarrow> string" where
  "Short digest = (if 12 < length digest then take 12 digest else digest)"

datatype reason =
    NoReason
  | DeltaConflicts
  | NoAttestation
  | DoesNotVerify string
  | SignedByNobodyHeld
  | RecordedAs string
  | NoTransferRule string
  | WrongKind Kind Kind
  | WrongComputation string string string string
  | ClosureNotComputable string
  | ClosureNotRecomputed
  | ClosureChanged string string
  | DerivationChanged string string
  | ClassTouched string
  | NoWindow
  | TooOld int int
  | LandingToo reason string reason

datatype rule = NoRule | Rejected | Unmoved | ClosureRule | Untouched

record CheckVerdict =
  cv_Name :: string
  cv_Transferred :: bool
  cv_Rule :: rule
  cv_Direct :: bool
  cv_Reason :: reason
  cv_Evidence :: string
  cv_Inputs :: string
  cv_Signer :: string

datatype summary =
    Conflicting string
  | RejectedFor string reason
  | NoLongerCarry nat nat
  | AlreadyInHistory
  | NothingRequired
  | OneCarries
  | AllCarry nat

datatype stale_reason = NotStale | ByConflict | ByEvidence

record Verdict_rec =
  vd_Outcome :: Outcome
  vd_Reason :: summary
  vd_StaleReason :: stale_reason
  vd_Checks :: "CheckVerdict list"
  vd_Invalidated :: "string list"

section \<open>One check from one source\<close>

text \<open>\<^verbatim>\<open>time.Time.Sub\<close>.\<close>

definition time_sub :: "int \<Rightarrow> int \<Rightarrow> int" where
  "time_sub t u = max (- (2 ^ 63)) (min (2 ^ 63 - 1) (t - u))"

definition new_verdict :: "string \<Rightarrow> CheckVerdict" where
  "new_verdict name =
     \<lparr>cv_Name = name, cv_Transferred = False, cv_Rule = NoRule, cv_Direct = False,
      cv_Reason = NoReason, cv_Evidence = [], cv_Inputs = [], cv_Signer = []\<rparr>"

definition weigh_pure :: "Snapshot \<Rightarrow> Required \<Rightarrow> bool \<Rightarrow> Evidence \<Rightarrow> CheckVerdict \<Rightarrow> CheckVerdict" where
  "weigh_pure s r unmoved ev cv =
     (if unmoved then cv\<lparr>cv_Transferred := True, cv_Rule := Unmoved\<rparr>
      else
        (case sn_ClosureErrors s (rq_Name r) of
           Some why \<Rightarrow> cv\<lparr>cv_Reason := ClosureNotComputable why\<rparr>
         | None \<Rightarrow>
             (case sn_Closures s (rq_Name r) of
                None \<Rightarrow> cv\<lparr>cv_Reason := ClosureNotRecomputed\<rparr>
              | Some got \<Rightarrow>
                  if cl_Inputs got \<noteq> ev_Inputs ev
                  then cv\<lparr>cv_Reason := ClosureChanged (Short (ev_Inputs ev)) (Short (cl_Inputs got))\<rparr>
                  else if cl_Derivation got \<noteq> ev_Derivation ev
                  then cv\<lparr>cv_Reason :=
                    DerivationChanged (Short (ev_Derivation ev)) (Short (cl_Derivation got))\<rparr>
                  else cv\<lparr>cv_Transferred := True, cv_Rule := ClosureRule, cv_Inputs := cl_Inputs got\<rparr>)))"

definition weigh_effectful :: "Snapshot \<Rightarrow> Required \<Rightarrow> Evidence \<Rightarrow> CheckVerdict \<Rightarrow> CheckVerdict" where
  "weigh_effectful s r ev cv =
     (case find (\<lambda>class. sn_Touched s class = Some True) (rq_Classes r) of
        Some class \<Rightarrow> cv\<lparr>cv_Reason := ClassTouched class\<rparr>
      | None \<Rightarrow>
          if rq_Validity r = 0 then cv\<lparr>cv_Reason := NoWindow\<rparr>
          else
            let age = time_sub (sn_Now s) (ev_ObservedAt ev) in
            if rq_Validity r \<le> age then cv\<lparr>cv_Reason := TooOld age (rq_Validity r)\<rparr>
            else cv\<lparr>cv_Transferred := True, cv_Rule := Untouched\<rparr>)"

definition weigh ::
  "(string \<rightharpoonup> Evidence) \<Rightarrow> Snapshot \<Rightarrow> Required \<Rightarrow> bool \<Rightarrow> CheckVerdict" where
  "weigh evidence s r unmoved =
     (let cv = new_verdict (rq_Name r) in
      case evidence (rq_Name r) of
        None \<Rightarrow> cv\<lparr>cv_Reason := NoAttestation\<rparr>
      | Some ev \<Rightarrow>
          let cv = cv\<lparr>cv_Evidence := ev_TextDigest ev, cv_Signer := ev_Signer ev\<rparr> in
          if ev_Admissible ev = Tampered
          then cv\<lparr>cv_Rule := Rejected, cv_Reason := DoesNotVerify (ev_Refusal ev)\<rparr>
          else if ev_Admissible ev = UnknownSigner then cv\<lparr>cv_Reason := SignedByNobodyHeld\<rparr>
          else if ev_Result ev \<noteq> ''passed'' then cv\<lparr>cv_Reason := RecordedAs (ev_Result ev)\<rparr>
          else
            let want = KindOf (rq_Runner r) in
            if want = [] then cv\<lparr>cv_Rule := Rejected, cv_Reason := NoTransferRule (rq_Runner r)\<rparr>
            else if ev_Kind ev \<noteq> want then cv\<lparr>cv_Reason := WrongKind want (ev_Kind ev)\<rparr>
            else if ev_Runner ev \<noteq> rq_Runner r \<or> ev_Attribute ev \<noteq> rq_Attribute r
            then cv\<lparr>cv_Reason :=
              WrongComputation (ev_Runner ev) (ev_Attribute ev) (rq_Runner r) (rq_Attribute r)\<rparr>
            else if want = Pure then weigh_pure s r unmoved ev cv
            else weigh_effectful s r ev cv)"

section \<open>One check from both sources\<close>

definition only_now :: "Snapshot \<Rightarrow> Snapshot" where
  "only_now s =
     \<lparr>sn_Apply = \<lparr>ap_Clean = False, ap_Conflict = [], ap_Tree = []\<rparr>, sn_Required = [],
      sn_Closures = Map.empty, sn_ClosureErrors = Map.empty, sn_Touched = Map.empty, sn_Now = sn_Now s\<rparr>"

definition judge :: "Change \<Rightarrow> Snapshot \<Rightarrow> Required \<Rightarrow> bool \<Rightarrow> CheckVerdict" where
  "judge ch s r unmoved =
     (let own = weigh (ch_Evidence ch) s r unmoved in
      if unmoved \<or> ch_Landed ch (rq_Name r) = None \<or> cv_Rule own = Rejected then own
      else
        let direct = (weigh (ch_Landed ch) (only_now s) (r\<lparr>rq_Classes := []\<rparr>) True)\<lparr>cv_Direct := True\<rparr> in
        if cv_Transferred direct then direct\<lparr>cv_Rule := Unmoved\<rparr>
        else if cv_Rule direct = Rejected then direct
        else if cv_Transferred own then own
        else own\<lparr>cv_Reason := LandingToo (cv_Reason own) (Short (ap_Tree (sn_Apply s))) (cv_Reason direct)\<rparr>)"

section \<open>The decision\<close>

definition conflict_verdict :: "string \<Rightarrow> CheckVerdict" where
  "conflict_verdict name = (new_verdict name)\<lparr>cv_Reason := DeltaConflicts\<rparr>"

text \<open>
  The loop over the checks: the verdicts so far and the invalidated names, or the verdict that
  ends the judgement.
\<close>

fun judge_loop ::
  "(Required \<Rightarrow> CheckVerdict) \<Rightarrow> Required list \<Rightarrow> CheckVerdict list \<Rightarrow> string list \<Rightarrow>
   (Verdict_rec, CheckVerdict list \<times> string list) result" where
  "judge_loop f [] checks invalidated = Inr (checks, invalidated)"
| "judge_loop f (r # rs) checks invalidated =
     (let cv = f r in
      if cv_Rule cv = Rejected then
        Inl \<lparr>vd_Outcome = Reject, vd_Reason = RejectedFor (rq_Name r) (cv_Reason cv),
             vd_StaleReason = NotStale, vd_Checks = checks @ [cv], vd_Invalidated = []\<rparr>
      else
        judge_loop f rs (checks @ [cv])
          (if cv_Transferred cv then invalidated else invalidated @ [rq_Name r]))"

definition landing_reason :: "Change \<Rightarrow> nat \<Rightarrow> summary" where
  "landing_reason ch n =
     (if n = 0 \<and> ch_Base ch \<noteq> [] \<and> ch_Base ch = ch_Head ch then AlreadyInHistory
      else if n = 0 then NothingRequired
      else if n = 1 then OneCarries
      else AllCarry n)"

definition Decide :: "Change \<Rightarrow> Snapshot \<Rightarrow> Verdict_rec" where
  "Decide ch s =
     (let required = sort_key rq_Name (sn_Required s) in
      if \<not> ap_Clean (sn_Apply s) then
        \<lparr>vd_Outcome = Stale, vd_Reason = Conflicting (ap_Conflict (sn_Apply s)),
         vd_StaleReason = ByConflict,
         vd_Checks = map (\<lambda>r. conflict_verdict (rq_Name r)) required,
         vd_Invalidated = map rq_Name required\<rparr>
      else
        let unmoved = (ap_Tree (sn_Apply s) \<noteq> [] \<and> ap_Tree (sn_Apply s) = ch_Attested ch) in
        case judge_loop (\<lambda>r. judge ch s r unmoved) required [] [] of
          Inl v \<Rightarrow> v
        | Inr (checks, invalidated) \<Rightarrow>
            if invalidated \<noteq> [] then
              \<lparr>vd_Outcome = Stale,
               vd_Reason = NoLongerCarry (length invalidated) (length required),
               vd_StaleReason = ByEvidence, vd_Checks = checks, vd_Invalidated = invalidated\<rparr>
            else
              \<lparr>vd_Outcome = Land, vd_Reason = landing_reason ch (length required),
               vd_StaleReason = NotStale, vd_Checks = checks, vd_Invalidated = invalidated\<rparr>)"

section \<open>The commit rule\<close>

text \<open>
  What the rule asks of a note, stated without the order in which the code asks it. A note is
  admitted when a held signer's note records a pass of the computation the policy requires.
\<close>

definition admitted :: "Required \<Rightarrow> Evidence \<Rightarrow> bool" where
  "admitted r ev \<longleftrightarrow>
     ev_Admissible ev \<notin> {Tampered, UnknownSigner} \<and> ev_Result ev = ''passed'' \<and>
     KindOf (rq_Runner r) \<noteq> [] \<and> ev_Kind ev = KindOf (rq_Runner r) \<and>
     ev_Runner ev = rq_Runner r \<and> ev_Attribute ev = rq_Attribute r"

definition recent :: "Snapshot \<Rightarrow> Required \<Rightarrow> Evidence \<Rightarrow> bool" where
  "recent s r ev \<longleftrightarrow> rq_Validity r \<noteq> 0 \<and> time_sub (sn_Now s) (ev_ObservedAt ev) < rq_Validity r"

definition same_closure :: "Snapshot \<Rightarrow> Required \<Rightarrow> Evidence \<Rightarrow> bool" where
  "same_closure s r ev \<longleftrightarrow> sn_ClosureErrors s (rq_Name r) = None \<and>
     (\<exists>got. sn_Closures s (rq_Name r) = Some got \<and>
        cl_Inputs got = ev_Inputs ev \<and> cl_Derivation got = ev_Derivation ev)"

definition untouched :: "Snapshot \<Rightarrow> Required \<Rightarrow> bool" where
  "untouched s r \<longleftrightarrow> (\<forall>class \<in> set (rq_Classes r). sn_Touched s class \<noteq> Some True)"

definition transfers :: "Snapshot \<Rightarrow> Required \<Rightarrow> bool \<Rightarrow> Evidence \<Rightarrow> bool" where
  "transfers s r unmoved ev \<longleftrightarrow>
     admitted r ev \<and>
     (if KindOf (rq_Runner r) = Pure then unmoved \<or> same_closure s r ev
      else untouched s r \<and> recent s r ev)"

definition refuses :: "(string \<rightharpoonup> Evidence) \<Rightarrow> Required \<Rightarrow> bool" where
  "refuses notes r \<longleftrightarrow> (\<exists>ev. notes (rq_Name r) = Some ev \<and>
     (ev_Admissible ev = Tampered \<or>
      ev_Admissible ev \<noteq> UnknownSigner \<and> ev_Result ev = ''passed'' \<and> KindOf (rq_Runner r) = []))"

definition unmoved_tree :: "Change \<Rightarrow> Snapshot \<Rightarrow> bool" where
  "unmoved_tree ch s \<longleftrightarrow> ap_Tree (sn_Apply s) \<noteq> [] \<and> ap_Tree (sn_Apply s) = ch_Attested ch"

definition own_stands :: "Change \<Rightarrow> Snapshot \<Rightarrow> Required \<Rightarrow> bool" where
  "own_stands ch s r \<longleftrightarrow>
     (\<exists>ev. ch_Evidence ch (rq_Name r) = Some ev \<and> transfers s r (unmoved_tree ch s) ev)"

text \<open>The landing tree's own note, which only a moved landing has.\<close>

definition landed_stands :: "Change \<Rightarrow> Snapshot \<Rightarrow> Required \<Rightarrow> bool" where
  "landed_stands ch s r \<longleftrightarrow> \<not> unmoved_tree ch s \<and>
     (\<exists>ev. ch_Landed ch (rq_Name r) = Some ev \<and> admitted r ev \<and>
        (KindOf (rq_Runner r) = Pure \<or> recent s r ev))"

definition forged :: "Change \<Rightarrow> Snapshot \<Rightarrow> Required \<Rightarrow> bool" where
  "forged ch s r \<longleftrightarrow> refuses (ch_Evidence ch) r \<or> \<not> unmoved_tree ch s \<and> refuses (ch_Landed ch) r"

definition stands :: "Change \<Rightarrow> Snapshot \<Rightarrow> Required \<Rightarrow> bool" where
  "stands ch s r \<longleftrightarrow> own_stands ch s r \<or> landed_stands ch s r"

lemmas note_defs = admitted_def recent_def same_closure_def untouched_def transfers_def

lemma weigh_pure_simps:
  "cv_Transferred (weigh_pure s r u ev cv) \<longleftrightarrow> u \<or> same_closure s r ev \<or> cv_Transferred cv"
  "cv_Rule cv = NoRule \<Longrightarrow> cv_Rule (weigh_pure s r u ev cv) \<noteq> Rejected"
  by (auto simp: weigh_pure_def same_closure_def split: option.splits)

lemma weigh_effectful_simps:
  "cv_Transferred (weigh_effectful s r ev cv) \<longleftrightarrow> untouched s r \<and> recent s r ev \<or> cv_Transferred cv"
  "cv_Rule cv = NoRule \<Longrightarrow> cv_Rule (weigh_effectful s r ev cv) \<noteq> Rejected"
  by (auto simp: weigh_effectful_def untouched_def recent_def Let_def find_None_iff find_Some_iff
      split: option.splits)

lemma weigh_Rejected: "cv_Rule (weigh notes s r u) = Rejected \<longleftrightarrow> refuses notes r"
  by (auto simp: weigh_def refuses_def new_verdict_def Let_def weigh_pure_simps weigh_effectful_simps
      split: option.splits)

lemma weigh_Transferred:
  "cv_Transferred (weigh notes s r u) \<longleftrightarrow>
     (\<exists>ev. notes (rq_Name r) = Some ev \<and> transfers s r u ev)"
  by (auto simp: weigh_def transfers_def admitted_def new_verdict_def Let_def weigh_pure_simps
      weigh_effectful_simps split: option.splits)

lemma transfers_not_refused: "notes (rq_Name r) = Some ev \<Longrightarrow> admitted r ev \<Longrightarrow> \<not> refuses notes r"
  by (auto simp: refuses_def admitted_def)

text \<open>One check.\<close>

lemma only_now_simps [simp]:
  "KindOf (rq_Runner r) = Pure \<Longrightarrow> transfers (only_now s) (r\<lparr>rq_Classes := []\<rparr>) True ev \<longleftrightarrow> admitted r ev"
  "KindOf (rq_Runner r) \<noteq> Pure \<Longrightarrow>
     transfers (only_now s) (r\<lparr>rq_Classes := []\<rparr>) True ev \<longleftrightarrow> admitted r ev \<and> recent s r ev"
  by (auto simp: note_defs only_now_def)

lemma judge_Rejected: "cv_Rule (judge ch s r (unmoved_tree ch s)) = Rejected \<longleftrightarrow> forged ch s r"
  and judge_Transferred:
    "\<not> forged ch s r \<Longrightarrow> cv_Transferred (judge ch s r (unmoved_tree ch s)) \<longleftrightarrow> stands ch s r"
proof -
  let ?u = "unmoved_tree ch s"
  let ?own = "weigh (ch_Evidence ch) s r ?u"
  let ?direct = "weigh (ch_Landed ch) (only_now s) (r\<lparr>rq_Classes := []\<rparr>) True"
  have own: "cv_Rule ?own = Rejected \<longleftrightarrow> refuses (ch_Evidence ch) r" "cv_Transferred ?own \<longleftrightarrow> own_stands ch s r"
    by (simp_all add: weigh_Rejected weigh_Transferred own_stands_def)
  have direct: "cv_Rule ?direct = Rejected \<longleftrightarrow> refuses (ch_Landed ch) r"
    "\<not> ?u \<Longrightarrow> cv_Transferred ?direct \<longleftrightarrow> landed_stands ch s r"
    by (auto simp: weigh_Rejected refuses_def weigh_Transferred landed_stands_def)
      (cases "KindOf (rq_Runner r) = Pure"; auto)+
  have excl: "landed_stands ch s r \<Longrightarrow> \<not> refuses (ch_Landed ch) r"
    using transfers_not_refused by (auto simp: landed_stands_def)
  have none: "ch_Landed ch (rq_Name r) = None \<Longrightarrow> \<not> refuses (ch_Landed ch) r \<and> \<not> landed_stands ch s r"
    by (auto simp: refuses_def landed_stands_def)
  show "cv_Rule (judge ch s r ?u) = Rejected \<longleftrightarrow> forged ch s r"
    using own direct excl none
    by (cases ?u; cases "ch_Landed ch (rq_Name r)") (auto simp: judge_def Let_def forged_def)
  show "\<not> forged ch s r \<Longrightarrow> cv_Transferred (judge ch s r ?u) \<longleftrightarrow> stands ch s r"
    using own direct excl none
    by (cases ?u; cases "ch_Landed ch (rq_Name r)")
      (auto simp: judge_def Let_def forged_def stands_def landed_stands_def)
qed

lemma judge_loop_Inr:
  "judge_loop f rs cs ns = Inr res \<longleftrightarrow>
     (\<forall>r \<in> set rs. cv_Rule (f r) \<noteq> Rejected) \<and>
     res = (cs @ map f rs, ns @ map rq_Name (filter (\<lambda>r. \<not> cv_Transferred (f r)) rs))"
  by (induction f rs cs ns rule: judge_loop.induct) (auto simp: Let_def)

lemma judge_loop_Inl:
  "judge_loop f rs cs ns = Inl v \<Longrightarrow>
     vd_Outcome v = Reject \<and> vd_Invalidated v = [] \<and> (\<exists>r \<in> set rs. cv_Rule (f r) = Rejected)"
  by (induction f rs cs ns rule: judge_loop.induct) (auto simp: Let_def split: if_splits)

definition behind :: "Change \<Rightarrow> Snapshot \<Rightarrow> Required list" where
  "behind ch s = filter (\<lambda>r. \<not> stands ch s r) (sort_key rq_Name (sn_Required s))"

text \<open>The decision in three cases.\<close>

lemma Decide_cases:
  obtains
    (conflict) "\<not> ap_Clean (sn_Apply s)" "vd_Outcome (Decide ch s) = Stale"
      "vd_StaleReason (Decide ch s) = ByConflict"
      "vd_Invalidated (Decide ch s) = map rq_Name (sort_key rq_Name (sn_Required s))"
  | (reject) "ap_Clean (sn_Apply s)" "\<exists>r \<in> set (sn_Required s). forged ch s r"
      "vd_Outcome (Decide ch s) = Reject" "vd_Invalidated (Decide ch s) = []"
  | (judged) "ap_Clean (sn_Apply s)" "\<forall>r \<in> set (sn_Required s). \<not> forged ch s r"
      "vd_Outcome (Decide ch s) = (if behind ch s = [] then Land else Stale)"
      "vd_StaleReason (Decide ch s) = (if behind ch s = [] then NotStale else ByEvidence)"
      "vd_Invalidated (Decide ch s) = map rq_Name (behind ch s)"
proof (cases "ap_Clean (sn_Apply s)")
  case False
  then show thesis by (intro conflict) (simp_all add: Decide_def Let_def)
next
  case clean: True
  let ?f = "\<lambda>r. judge ch s r (unmoved_tree ch s)" and ?rs = "sort_key rq_Name (sn_Required s)"
  show thesis
  proof (cases "judge_loop ?f ?rs [] []")
    case (Inl v)
    then have "Decide ch s = v"
      using clean unfolding Decide_def Let_def unmoved_tree_def by simp
    then show thesis
      using judge_loop_Inl [OF Inl] clean by (intro reject) (auto simp: judge_Rejected)
  next
    case (Inr res)
    then have nf: "\<forall>r \<in> set (sn_Required s). \<not> forged ch s r" and
      res: "res = (map ?f ?rs, map rq_Name (filter (\<lambda>r. \<not> cv_Transferred (?f r)) ?rs))"
      by (auto simp: judge_loop_Inr judge_Rejected)
    have b: "filter (\<lambda>r. \<not> cv_Transferred (?f r)) ?rs = behind ch s"
      unfolding behind_def using nf by (intro filter_cong) (simp_all add: judge_Transferred)
    have "Decide ch s = (if behind ch s \<noteq> [] then
        \<lparr>vd_Outcome = Stale, vd_Reason = NoLongerCarry (length (behind ch s)) (length ?rs),
         vd_StaleReason = ByEvidence, vd_Checks = map ?f ?rs, vd_Invalidated = map rq_Name (behind ch s)\<rparr>
      else \<lparr>vd_Outcome = Land, vd_Reason = landing_reason ch (length ?rs),
         vd_StaleReason = NotStale, vd_Checks = map ?f ?rs, vd_Invalidated = map rq_Name (behind ch s)\<rparr>)"
      using clean Inr unfolding res b by (simp add: Decide_def Let_def unmoved_tree_def)
    then show thesis by (intro judged) (use clean nf in simp_all)
  qed
qed

section \<open>Properties\<close>

lemma behind_empty: "behind ch s = [] \<longleftrightarrow> (\<forall>r \<in> set (sn_Required s). stands ch s r)"
  by (auto simp: behind_def filter_empty_conv)

text \<open>
  C14: a change lands exactly when its delta applies cleanly and every check the policy requires
  has evidence that stands, its own or the landing tree's, and no selected note is a forgery.
\<close>

theorem Decide_land:
  "vd_Outcome (Decide ch s) = Land \<longleftrightarrow> ap_Clean (sn_Apply s) \<and>
     list_all (\<lambda>r. stands ch s r \<and> \<not> forged ch s r) (sn_Required s)"
  by (cases rule: Decide_cases [of s ch]) (auto simp: behind_empty list_all_iff split: if_splits)

text \<open>
  C18: a change is rejected exactly when its delta applies and some required check has a
  selected note that is no evidence: a note that does not verify, on either tree, or a passing
  note for a check whose runner has no transfer rule. Evidence that is only out of date, or
  signed by an unknown key, never rejects a change.
\<close>

theorem Decide_reject:
  "vd_Outcome (Decide ch s) = Reject \<longleftrightarrow> ap_Clean (sn_Apply s) \<and> list_ex (forged ch s) (sn_Required s)"
  by (cases rule: Decide_cases [of s ch]) (auto simp: list_ex_iff split: if_splits)

text \<open>
  The invalidated checks are exactly the ones that need new evidence: every required check
  when the delta conflicts, none when the change lands or is rejected, and otherwise the
  required checks whose evidence does not stand, in the order of their names.
\<close>

theorem Decide_invalidated:
  "vd_Invalidated (Decide ch s) =
     (if vd_Outcome (Decide ch s) = Reject then []
      else map rq_Name (filter (\<lambda>r. \<not> (ap_Clean (sn_Apply s) \<and> stands ch s r))
        (sort_key rq_Name (sn_Required s))))"
  by (cases rule: Decide_cases [of s ch]) (auto simp: behind_def)

text \<open>
  C19: a retry is partial. When a change on a moved tree is stale for its evidence, adding to
  the landing tree's notes an admitted note, recent if its check is effectful, for each
  invalidated check and nothing else makes it land.
\<close>

theorem Decide_partial_retry:
  assumes stale: "vd_Outcome (Decide ch s) = Stale" "vd_StaleReason (Decide ch s) = ByEvidence"
    and moved: "\<not> unmoved_tree ch s"
    and dom: "dom fresh = set (vd_Invalidated (Decide ch s))"
    and fresh: "\<forall>r \<in> set (sn_Required s). \<forall>ev. fresh (rq_Name r) = Some ev \<longrightarrow>
      admitted r ev \<and> (KindOf (rq_Runner r) = Pure \<or> recent s r ev)"
  shows "vd_Outcome (Decide (ch\<lparr>ch_Landed := ch_Landed ch ++ fresh\<rparr>) s) = Land"
proof -
  let ?ch = "ch\<lparr>ch_Landed := ch_Landed ch ++ fresh\<rparr>"
  have judged: "ap_Clean (sn_Apply s)" "\<forall>r \<in> set (sn_Required s). \<not> forged ch s r"
    "dom fresh = rq_Name ` set (behind ch s)"
    using stale dom by (cases rule: Decide_cases [of s ch]; simp)+
  have u: "\<not> unmoved_tree ?ch s" using moved by (simp add: unmoved_tree_def)
  have upd: "(ch_Landed ch ++ fresh) n = ch_Landed ch n" if "fresh n = None" for n
    using that by (simp add: map_add_def)
  have "stands ?ch s r \<and> \<not> forged ?ch s r" if r: "r \<in> set (sn_Required s)" for r
  proof (cases "fresh (rq_Name r)")
    case None
    then have "r \<notin> set (behind ch s)" using judged(3) by auto
    then have "stands ch s r" using r by (simp add: behind_def)
    then show ?thesis
      using None judged(2) r moved u
      by (simp add: stands_def own_stands_def landed_stands_def forged_def refuses_def upd)
  next
    case (Some ev)
    then have ev: "admitted r ev" "KindOf (rq_Runner r) = Pure \<or> recent s r ev"
      "ch_Landed ?ch (rq_Name r) = Some ev"
      using fresh r by auto
    then have "stands ?ch s r" using u by (auto simp: stands_def landed_stands_def)
    moreover have "\<not> refuses (ch_Evidence ?ch) r" using judged(2) r by (simp add: forged_def)
    moreover have "\<not> refuses (ch_Landed ?ch) r" using transfers_not_refused ev by blast
    ultimately show ?thesis by (simp add: forged_def)
  qed
  then have "behind ?ch s = []" "\<not> (\<exists>r \<in> set (sn_Required s). forged ?ch s r)"
    by (simp_all add: behind_empty)
  then show ?thesis using judged(1) by (cases rule: Decide_cases [of s ?ch]) auto
qed

definition sample_note :: Evidence where
  "sample_note =
     \<lparr>ev_Check = ''test'', ev_Kind = ''effectful'', ev_Admissible = ''admissible'', ev_Runner = ''command'',
      ev_Attribute = [], ev_Result = ''passed'', ev_Inputs = [], ev_Derivation = [], ev_ObservedAt = 90,
      ev_TextDigest = ''d'', ev_Signer = ''k'', ev_Refusal = []\<rparr>"

definition sample_change :: Change where
  "sample_change =
     \<lparr>ch_ID = ''c1'', ch_Target = ''refs/heads/main'', ch_Base = ''b'', ch_Head = ''h'', ch_Attested = ''t1'',
      ch_Evidence = [''test'' \<mapsto> sample_note], ch_Landed = Map.empty\<rparr>"

definition sample_snapshot :: Snapshot where
  "sample_snapshot =
     \<lparr>sn_Apply = \<lparr>ap_Clean = True, ap_Conflict = [], ap_Tree = ''t2''\<rparr>,
      sn_Required = [\<lparr>rq_Name = ''test'', rq_Classes = [''go''], rq_Runner = ''command'', rq_Attribute = [],
        rq_Validity = 50\<rparr>],
      sn_Closures = Map.empty, sn_ClosureErrors = Map.empty, sn_Touched = [''go'' \<mapsto> True], sn_Now = 100\<rparr>"

lemmas sample_defs = sample_note_def sample_change_def sample_snapshot_def

lemma sample_stale:
  "vd_Outcome (Decide sample_change sample_snapshot) = Stale"
  "vd_StaleReason (Decide sample_change sample_snapshot) = ByEvidence"
  "vd_Invalidated (Decide sample_change sample_snapshot) = [''test'']"
  "\<not> unmoved_tree sample_change sample_snapshot"
  by code_simp+

theorem Decide_partial_retry_witness:
  "vd_Outcome (Decide sample_change sample_snapshot) = Stale \<and>
   vd_Outcome (Decide (sample_change\<lparr>ch_Landed :=
     ch_Landed sample_change ++ [''test'' \<mapsto> sample_note]\<rparr>) sample_snapshot) = Land"
proof -
  have "\<forall>r \<in> set (sn_Required sample_snapshot). \<forall>ev. [''test'' \<mapsto> sample_note] (rq_Name r) = Some ev \<longrightarrow>
      admitted r ev \<and> (KindOf (rq_Runner r) = Pure \<or> recent sample_snapshot r ev)"
    by (simp add: sample_defs admitted_def recent_def time_sub_def KindOf_def Tampered_def
        UnknownSigner_def Effectful_def Pure_def)
  then show ?thesis
    using Decide_partial_retry [of sample_change sample_snapshot "[''test'' \<mapsto> sample_note]"] sample_stale
    by simp
qed

text \<open>
  The decision does not depend on the order in which the policy lists the required checks,
  which have distinct names.
\<close>

theorem Decide_order:
  assumes "mset rs = mset (sn_Required s)" "distinct (map rq_Name rs)"
  shows "Decide ch (s\<lparr>sn_Required := rs\<rparr>) = Decide ch s"
proof -
  have set: "set rs = set (sn_Required s)" using assms(1) by (metis set_mset_mset)
  have "distinct (map rq_Name (sn_Required s))"
    using assms by (metis mset_eq_imp_distinct_iff mset_map)
  then have names: "map rq_Name (sort_key rq_Name rs) = map rq_Name (sort_key rq_Name (sn_Required s))"
    using assms(2) set by (intro strictly_sorted_unique sort_key_by_names) simp_all
  have inj: "inj_on rq_Name (set rs)" using assms(2) by (simp add: distinct_map)
  have sorted: "sort_key rq_Name rs = sort_key rq_Name (sn_Required s)"
    by (rule inj_on_map_eq_map [THEN iffD1, OF _ names]) (use inj set in simp)
  have same: "judge ch (s\<lparr>sn_Required := rs\<rparr>) r u = judge ch s r u" for r u
    by (simp add: judge_def weigh_def weigh_pure_def weigh_effectful_def only_now_def Let_def
        cong: option.case_cong if_cong)
  show ?thesis by (simp add: Decide_def Let_def sorted same)
qed

definition sample_required :: "Required list" where
  "sample_required =
     [\<lparr>rq_Name = ''test'', rq_Classes = [], rq_Runner = ''command'', rq_Attribute = [], rq_Validity = 50\<rparr>,
      \<lparr>rq_Name = ''lint'', rq_Classes = [], rq_Runner = ''nix'', rq_Attribute = ''lint'', rq_Validity = 0\<rparr>]"

theorem Decide_order_witness:
  "Decide sample_change (sample_snapshot\<lparr>sn_Required := sample_required\<rparr>) =
     Decide sample_change (sample_snapshot\<lparr>sn_Required := rev sample_required\<rparr>) \<and>
   vd_Invalidated (Decide sample_change (sample_snapshot\<lparr>sn_Required := rev sample_required\<rparr>)) = [''lint'']"
proof -
  have d: "distinct (map rq_Name sample_required)" by (simp add: sample_required_def)
  have "vd_Invalidated (Decide sample_change (sample_snapshot\<lparr>sn_Required := rev sample_required\<rparr>)) = [''lint'']"
    by code_simp
  then show ?thesis
    using Decide_order [of sample_required "sample_snapshot\<lparr>sn_Required := rev sample_required\<rparr>" sample_change] d
    by simp
qed

end
