(* ===== verification/KnotModel.thy ===== *)
theory KnotModel
  imports Regex GoText Sha256
begin

text \<open>
  \<^verbatim>\<open>knot/contract.go\<close>, \<^verbatim>\<open>knot/model.go\<close> and \<^verbatim>\<open>knot/id.go\<close>: the limits, names, references
  and rules of the plan graph, the four types and their fields, a knot and a comment, and how
  an ID is derived from a slug and a slug from a title.
\<close>

section \<open>The limits\<close>

definition MaxKnots :: nat where "MaxKnots = 5000"
definition MaxComments :: nat where "MaxComments = 20000"
definition MaxKnotSize :: nat where "MaxKnotSize = 65536"
definition MaxCommentSize :: nat where "MaxCommentSize = 16384"
definition MaxChangedPaths :: nat where "MaxChangedPaths = 32"
definition MaxTitle :: nat where "MaxTitle = 200"
definition MaxSlug :: nat where "MaxSlug = 48"
definition MaxName :: nat where "MaxName = 64"
definition MaxListItems :: nat where "MaxListItems = 64"
definition MaxLink :: nat where "MaxLink = 256"

definition StaleClaim :: int where "StaleClaim = 24 * 3600 * 1000000000"
definition IDRuleCutoff :: string where "IDRuleCutoff = ''2026-08-05''"

section \<open>The shapes of names and references\<close>

definition re_prefix :: rexp where
  "re_prefix = alts [lit ''oc'', lit ''bd'', lit ''ida'', lit ''qn'']"

definition re_localID :: rexp where
  "re_localID = seqs [re_prefix, lit ''-'', reps 7 cls_hex]"

definition re_name :: rexp where
  "re_name = Seq cls_alnum (Many cls_name_rest)"

definition re_qualifiedID :: rexp where
  "re_qualifiedID = seqs [re_name, lit '':'', re_localID]"

definition re_slug :: rexp where
  "re_slug = Seq (some1 cls_lower_digit) (Many (Seq (lit ''-'') (some1 cls_lower_digit)))"

definition re_date :: rexp where
  "re_date = seqs [reps 4 cls_digit, lit ''-'', reps 2 cls_digit, lit ''-'', reps 2 cls_digit]"

definition re_timestamp :: rexp where
  "re_timestamp = seqs [re_date, lit ''T'', reps 2 cls_digit, lit '':'', reps 2 cls_digit, lit '':'',
     reps 2 cls_digit, lit ''Z'']"

definition re_valleyChange :: rexp where
  "re_valleyChange =
     seqs [lit ''valley:'', re_name, lit ''/'', reps 32 (Cls [(CHR ''k'', CHR ''z'')])]"

definition re_githubPR :: rexp where
  "re_githubPR =
     seqs [lit ''https://github.com/'', some1 cls_name_rest, lit ''/'', some1 cls_name_rest, lit ''/pull/'',
       Cls [(CHR ''1'', CHR ''9'')], Many cls_digit]"

definition re_knotFile :: rexp where
  "re_knotFile =
     seqs [re_localID, lit ''-'',
       some1 (Cls [(CHR ''a'', CHR ''z''), (CHR ''0'', CHR ''9''), (CHR ''-'', CHR ''-'')]), lit ''.md'']"

definition re_stamp :: rexp where
  "re_stamp = seqs [reps 8 cls_digit, lit ''T'', reps 6 cls_digit, lit ''Z'']"

definition re_opID :: rexp where
  "re_opID = reps 16 cls_hex"

definition re_commentID :: rexp where
  "re_commentID = seqs [re_stamp, lit ''-'', re_opID]"

definition re_commentFile :: rexp where
  "re_commentFile = seqs [re_commentID, lit ''.md'']"

definition IsLocalID :: "string \<Rightarrow> bool" where
  "IsLocalID s = matches re_localID s"

definition IsQualifiedID :: "string \<Rightarrow> bool" where
  "IsQualifiedID s \<longleftrightarrow> length s \<le> MaxName + 12 \<and> matches re_qualifiedID s"

definition IsName :: "string \<Rightarrow> bool" where
  "IsName s \<longleftrightarrow> length s \<le> MaxName \<and> matches re_name s"

definition IsChangeLink :: "string \<Rightarrow> bool" where
  "IsChangeLink s \<longleftrightarrow> length s \<le> MaxLink \<and> (matches re_valleyChange s \<or> matches re_githubPR s)"

definition IsOpID :: "string \<Rightarrow> bool" where
  "IsOpID s = matches re_opID s"

definition IsCommentID :: "string \<Rightarrow> bool" where
  "IsCommentID s = matches re_commentID s"

definition IsTimestamp :: "string \<Rightarrow> bool" where
  "IsTimestamp s = matches re_timestamp s"

text \<open>
  Every character these patterns admit is a visible ASCII character, so what they match is
  valid UTF-8 and can stand bare on a line.
\<close>

definition plain_stops :: "nat list" where
  "plain_stops = [33, 34, 35, 37, 38, 39, 42, 44, 62, 64, 91, 92, 93, 96, 123, 124, 125]"

definition plain_char :: "char \<Rightarrow> bool" where
  "plain_char c \<longleftrightarrow> 33 \<le> byte_val c \<and> byte_val c \<le> 126 \<and> byte_val c \<notin> set plain_stops"

definition plain_range :: "char \<Rightarrow> char \<Rightarrow> bool" where
  "plain_range lo hi \<longleftrightarrow> 33 \<le> byte_val lo \<and> byte_val hi \<le> 126 \<and>
     list_all (\<lambda>n. n < byte_val lo \<or> byte_val hi < n) plain_stops"

fun plain_rexp :: "rexp \<Rightarrow> bool" where
  "plain_rexp Never = True"
| "plain_rexp Eps = True"
| "plain_rexp (Cls rs) = list_all (\<lambda>(lo, hi). plain_range lo hi) rs"
| "plain_rexp (Alt r q) = (plain_rexp r \<and> plain_rexp q)"
| "plain_rexp (Seq r q) = (plain_rexp r \<and> plain_rexp q)"
| "plain_rexp (Many r) = plain_rexp r"

lemma char_le_byte: "c \<le> d \<longleftrightarrow> byte_val c \<le> byte_val d"
  by (simp add: less_eq_char_def byte_val_def)

lemma plain_range_sound: "plain_range lo hi \<Longrightarrow> lo \<le> c \<Longrightarrow> c \<le> hi \<Longrightarrow> plain_char c"
  by (auto simp: plain_range_def plain_char_def char_le_byte list_all_iff)

lemma plain_rexp_sound: "rmem r s \<Longrightarrow> plain_rexp r \<Longrightarrow> \<forall>c \<in> set s. plain_char c"
proof (induction r s rule: rmem.induct)
  case (cls rs c)
  then show ?case
    using plain_range_sound by (fastforce simp: in_class_def list_all_iff)
qed auto

lemma plain_rexp_lit: "plain_rexp (lit w) \<longleftrightarrow> list_all (\<lambda>c. plain_range c c) w"
  by (induction w) auto

lemma plain_rexp_reps: "plain_rexp r \<Longrightarrow> plain_rexp (reps n r)"
  by (induction n) auto

definition plain :: "string \<Rightarrow> bool" where
  "plain s \<longleftrightarrow> list_all plain_char s"

lemma plain_ranges:
  "plain_range (CHR ''0'') (CHR ''9'')" "plain_range (CHR ''a'') (CHR ''z'')"
  "plain_range (CHR ''A'') (CHR ''Z'')" "plain_range (CHR ''a'') (CHR ''f'')"
  "plain_range (CHR ''k'') (CHR ''z'')" "plain_range (CHR ''1'') (CHR ''9'')"
  "plain_range (CHR ''.'') (CHR ''.'')" "plain_range (CHR ''_'') (CHR ''_'')"
  "plain_range (CHR ''-'') (CHR ''-'')"
  by (simp_all add: plain_range_def plain_stops_def byte_val_def)

lemmas plain_rexp_simps = plain_rexp_lit plain_rexp_reps plain_ranges some1_def
  re_prefix_def re_localID_def re_name_def re_qualifiedID_def re_date_def re_timestamp_def
  re_valleyChange_def re_githubPR_def

lemma plain_lits:
  "list_all (\<lambda>c. plain_range c c) w \<longleftrightarrow> list_all plain_char w"
proof -
  have "plain_range c c \<longleftrightarrow> plain_char c" for c
    unfolding plain_range_def plain_char_def list_all_iff by (metis nat_neq_iff)
  then show ?thesis by simp
qed

lemma plain_char_lits:
  "list_all plain_char ''oc''" "list_all plain_char ''bd''" "list_all plain_char ''ida''"
  "list_all plain_char ''qn''" "list_all plain_char ''-''" "list_all plain_char '':''"
  "list_all plain_char ''T''" "list_all plain_char ''Z''" "list_all plain_char ''valley:''"
  "list_all plain_char ''/''" "list_all plain_char ''https://github.com/''" "list_all plain_char ''/pull/''"
  by (simp_all add: plain_char_def plain_stops_def byte_val_def)

lemma plain_matches:
  "matches re_localID s \<Longrightarrow> plain s" "matches re_name s \<Longrightarrow> plain s" "matches re_qualifiedID s \<Longrightarrow> plain s"
  "matches re_date s \<Longrightarrow> plain s" "matches re_timestamp s \<Longrightarrow> plain s"
  "matches re_valleyChange s \<Longrightarrow> plain s" "matches re_githubPR s \<Longrightarrow> plain s"
proof -
  have "plain_rexp re_localID" "plain_rexp re_name" "plain_rexp re_qualifiedID" "plain_rexp re_date"
    "plain_rexp re_timestamp" "plain_rexp re_valleyChange" "plain_rexp re_githubPR"
    by (simp_all add: plain_rexp_simps plain_lits plain_char_lits del: lit.simps list.pred_inject(2) reps.simps)
      (simp_all add: plain_ranges plain_rexp_reps del: reps.simps)
  note this [THEN plain_rexp_sound [rotated]]
  then show
    "matches re_localID s \<Longrightarrow> plain s" "matches re_name s \<Longrightarrow> plain s" "matches re_qualifiedID s \<Longrightarrow> plain s"
    "matches re_date s \<Longrightarrow> plain s" "matches re_timestamp s \<Longrightarrow> plain s"
    "matches re_valleyChange s \<Longrightarrow> plain s" "matches re_githubPR s \<Longrightarrow> plain s"
    by (simp_all add: plain_def list_all_iff matches_iff)
qed

section \<open>The rules\<close>

datatype Rule =
    RuleType | RuleStatus | RuleIDShape | RuleIDDerived | RuleFilename | RuleDirectory | RuleUniqueID
  | RuleFieldOnType | RuleFieldShape | RuleRequired | RuleEdgeResolves | RuleParentOutcome | RuleGraduated
  | RuleCanonical | RuleText | RuleLayout | RuleLimit | RuleCycle | RuleTransition | RuleProvenance
  | RuleClaim | RuleCutoff

text \<open>A refusal: its rule and the path it is about. The sentence it carries is not modelled.\<close>

datatype refusal = Refusal Rule string

abbreviation refuse :: "Rule \<Rightarrow> string \<Rightarrow> (refusal, 'a) result" where
  "refuse rule path \<equiv> Inl (Refusal rule path)"

section \<open>The types\<close>

record Type =
  ty_Name :: string
  ty_Prefix :: string
  ty_Directory :: string
  ty_Active :: "string list"
  ty_Terminal :: "string list"

definition Types :: "Type list" where
  "Types =
     [\<lparr>ty_Name = ''outcome'', ty_Prefix = ''oc'', ty_Directory = ''outcomes'',
       ty_Active = [''open'', ''in-progress''], ty_Terminal = [''done'', ''abandoned'']\<rparr>,
      \<lparr>ty_Name = ''bug'', ty_Prefix = ''bd'', ty_Directory = ''bugs'',
       ty_Active = [''open''], ty_Terminal = [''closed'']\<rparr>,
      \<lparr>ty_Name = ''idea'', ty_Prefix = ''ida'', ty_Directory = ''ideas'',
       ty_Active = [''raw'', ''exploring'', ''adopted''],
       ty_Terminal = [''graduated'', ''superseded'', ''discarded'']\<rparr>,
      \<lparr>ty_Name = ''question'', ty_Prefix = ''qn'', ty_Directory = ''questions'',
       ty_Active = [''open''], ty_Terminal = [''answered'', ''dropped'']\<rparr>]"

definition CommentsDirectory :: string where "CommentsDirectory = ''comments''"

text \<open>The zero value the lookups return beside \<^verbatim>\<open>false\<close>.\<close>

definition no_type :: Type where
  "no_type = \<lparr>ty_Name = [], ty_Prefix = [], ty_Directory = [], ty_Active = [], ty_Terminal = []\<rparr>"

definition TypeNamed :: "string \<Rightarrow> Type option" where
  "TypeNamed name = find (\<lambda>t. ty_Name t = name) Types"

definition typeOfPrefix :: "string \<Rightarrow> Type option" where
  "typeOfPrefix pre = find (\<lambda>t. ty_Prefix t = pre) Types"

definition typeOfDirectory :: "string \<Rightarrow> Type option" where
  "typeOfDirectory dir = find (\<lambda>t. ty_Directory t = dir) Types"

definition Statuses :: "Type \<Rightarrow> string list" where
  "Statuses t = ty_Active t @ ty_Terminal t"

definition Initial :: "Type \<Rightarrow> string" where
  "Initial t = ty_Active t ! 0"

definition IsTerminal :: "Type \<Rightarrow> string \<Rightarrow> bool" where
  "IsTerminal t status \<longleftrightarrow> status \<in> set (ty_Terminal t)"

section \<open>The fields\<close>

record Field =
  fl_Name :: string
  fl_On :: "string list"
  fl_Kind :: string

definition allTypes :: "string list" where
  "allTypes = [''outcome'', ''bug'', ''idea'', ''question'']"

definition workTypes :: "string list" where
  "workTypes = [''outcome'', ''bug'']"

definition field :: "string \<Rightarrow> string list \<Rightarrow> string \<Rightarrow> Field" where
  "field name on kind = \<lparr>fl_Name = name, fl_On = on, fl_Kind = kind\<rparr>"

definition Fields :: "Field list" where
  "Fields =
     [field ''type'' allTypes ''token'',
      field ''id'' allTypes ''token'',
      field ''status'' allTypes ''token'',
      field ''title'' allTypes ''string'',
      field ''created'' allTypes ''token'',
      field ''created_by'' allTypes ''string'',
      field ''source'' allTypes ''string'',
      field ''parent'' allTypes ''token'',
      field ''owner'' allTypes ''string'',
      field ''blocked_by'' workTypes ''list'',
      field ''claimed_by'' workTypes ''string'',
      field ''claimed_at'' workTypes ''string'',
      field ''changes'' [''outcome'', ''bug'', ''question''] ''list'',
      field ''target'' workTypes ''string'',
      field ''graduated_into'' [''idea''] ''token'']"

definition FieldNamed :: "string \<Rightarrow> Field option" where
  "FieldNamed name = find (\<lambda>f. fl_Name f = name) Fields"

definition carries :: "Field \<Rightarrow> string \<Rightarrow> bool" where
  "carries f t \<longleftrightarrow> t \<in> set (fl_On f)"

section \<open>A knot and a comment\<close>

text \<open>
  A list field is \<^verbatim>\<open>nil\<close> until its key is read, and \<^verbatim>\<open>[]\<close> when the key holds no entry: the
  code tells the two apart.
\<close>

record Knot =
  kn_Type :: string
  kn_ID :: string
  kn_Status :: string
  kn_Title :: string
  kn_Created :: string
  kn_CreatedBy :: string
  kn_Source :: string
  kn_Parent :: string
  kn_Owner :: string
  kn_BlockedBy :: "string list option"
  kn_ClaimedBy :: string
  kn_ClaimedAt :: string
  kn_Changes :: "string list option"
  kn_Target :: string
  kn_GraduatedInto :: string
  kn_Body :: string
  kn_Slug :: string

definition elems :: "string list option \<Rightarrow> string list" where
  "elems l = (case l of None \<Rightarrow> [] | Some xs \<Rightarrow> xs)"

lemma elems_simps [simp]: "elems None = []" "elems (Some xs) = xs"
  by (simp_all add: elems_def)

definition TypeOf :: "Knot \<Rightarrow> Type" where
  "TypeOf k = (case TypeNamed (kn_Type k) of None \<Rightarrow> no_type | Some t \<Rightarrow> t)"

definition Path :: "Knot \<Rightarrow> string" where
  "Path k = ty_Directory (TypeOf k) @ ''/'' @ kn_ID k @ ''-'' @ kn_Slug k @ ''.md''"

definition Active :: "Knot \<Rightarrow> bool" where
  "Active k \<longleftrightarrow> \<not> IsTerminal (TypeOf k) (kn_Status k)"

definition Get :: "Knot \<Rightarrow> string \<Rightarrow> string" where
  "Get k fname =
     (if fname = ''type'' then kn_Type k
      else if fname = ''id'' then kn_ID k
      else if fname = ''status'' then kn_Status k
      else if fname = ''title'' then kn_Title k
      else if fname = ''created'' then kn_Created k
      else if fname = ''created_by'' then kn_CreatedBy k
      else if fname = ''source'' then kn_Source k
      else if fname = ''parent'' then kn_Parent k
      else if fname = ''owner'' then kn_Owner k
      else if fname = ''blocked_by'' then join_str '','' (elems (kn_BlockedBy k))
      else if fname = ''claimed_by'' then kn_ClaimedBy k
      else if fname = ''claimed_at'' then kn_ClaimedAt k
      else if fname = ''changes'' then join_str '','' (elems (kn_Changes k))
      else if fname = ''target'' then kn_Target k
      else if fname = ''graduated_into'' then kn_GraduatedInto k
      else [])"

record Comment =
  cm_Author :: string
  cm_Body :: string
  cm_Edited :: string
  cm_EditedBy :: string

definition CommentPath :: "string \<Rightarrow> string \<Rightarrow> string" where
  "CommentPath knotID commentID = CommentsDirectory @ ''/'' @ knotID @ ''/'' @ commentID @ ''.md''"

section \<open>IDs and slugs\<close>

definition DeriveID :: "Type \<Rightarrow> string \<Rightarrow> string" where
  "DeriveID t slug = ty_Prefix t @ ''-'' @ take 7 (sha256_hex slug)"

text \<open>
  The ASCII letter or digit that the lowercase of a rune is, if it is one.
  \<^verbatim>\<open>unicode.ToLower\<close> gives an ASCII letter for the ASCII capitals, for U+0130 and for U+212A
  alone.
\<close>

definition lower_alnum :: "nat \<Rightarrow> char option" where
  "lower_alnum r =
     (if 97 \<le> r \<and> r \<le> 122 \<or> 48 \<le> r \<and> r \<le> 57 then Some (char_of r)
      else if 65 \<le> r \<and> r \<le> 90 then Some (char_of (r + 32))
      else if r = 304 then Some (CHR ''i'')
      else if r = 8490 then Some (CHR ''k'')
      else None)"

text \<open>The loop of \<^verbatim>\<open>Slug\<close>: the bytes written and whether a hyphen is due.\<close>

fun slug_loop :: "nat list \<Rightarrow> string \<Rightarrow> bool \<Rightarrow> string" where
  "slug_loop [] b hyphen = b"
| "slug_loop (r # rs) b hyphen =
     (case lower_alnum r of
        Some c \<Rightarrow> slug_loop rs (b @ (if hyphen \<and> b \<noteq> [] then ''-'' else []) @ [c]) False
      | None \<Rightarrow> slug_loop rs b True)"

definition cut :: "string \<Rightarrow> nat \<Rightarrow> string" where
  "cut slug n =
     (let s =
        (if n < length slug then
           let s = take n slug;
               s = (case last_index_str s ''-'' of
                      Some i \<Rightarrow> if n div 2 < i then take i s else s
                    | None \<Rightarrow> s)
           in trim_right (\<lambda>c. c = CHR ''-'') s
         else slug)
      in if s = [] then ''knot'' else s)"

definition Slug :: "string \<Rightarrow> string" where
  "Slug title = cut (slug_loop (runes title) [] False) MaxSlug"

text \<open>The slugs \<^verbatim>\<open>NewID\<close> tries: the title's, then it with the suffixes from 2 on.\<close>

definition candidate :: "string \<Rightarrow> nat \<Rightarrow> string" where
  "candidate base n =
     (let suffix = ''-'' @ itoa n in cut base (MaxSlug - length suffix) @ suffix)"

text \<open>
  The loop of \<^verbatim>\<open>NewID\<close>, with the number of the suffix that comes next. It ends only when a
  slug gives a free ID, so not returning is the value \<^term>\<open>None\<close>.
\<close>

partial_function (option) new_id_loop ::
  "Type \<Rightarrow> (string \<Rightarrow> bool) \<Rightarrow> string \<Rightarrow> string \<Rightarrow> nat \<Rightarrow> (string \<times> string) option" where
  "new_id_loop t taken base slug n =
     (let ID = DeriveID t slug in
      if \<not> taken ID then Some (ID, slug)
      else new_id_loop t taken base (candidate base n) (n + 1))"

definition NewID :: "Type \<Rightarrow> string \<Rightarrow> (string \<Rightarrow> bool) \<Rightarrow> (string \<times> string) option" where
  "NewID t title taken = new_id_loop t taken (Slug title) (Slug title) 2"

section \<open>What a slug is\<close>

definition slug_char :: "char \<Rightarrow> bool" where
  "slug_char c \<longleftrightarrow> in_class [(CHR ''a'', CHR ''z''), (CHR ''0'', CHR ''9'')] c"

text \<open>The shape of a slug as an automaton: a word is due, or a word may go on.\<close>

fun slug_due :: "string \<Rightarrow> bool" and slug_more :: "string \<Rightarrow> bool" where
  "slug_due [] = False"
| "slug_due (c # cs) = (slug_char c \<and> slug_more cs)"
| "slug_more [] = True"
| "slug_more (c # cs) = (if slug_char c then slug_more cs else c = CHR ''-'' \<and> slug_due cs)"

lemma hyphen_no_slug_char [simp]: "\<not> slug_char (CHR ''-'')"
  by (simp add: slug_char_def less_eq_char_def)

lemma re_slug_automaton:
  defines "A \<equiv> cls_lower_digit" and "T \<equiv> Many (Seq (lit ''-'') (some1 cls_lower_digit))"
  shows "rmem (Seq (some1 A) T) s \<longleftrightarrow> slug_due s" "rmem (Seq (Many A) T) s \<longleftrightarrow> slug_more s"
proof (induction s)
  case Nil
  show "rmem (Seq (some1 A) T) [] \<longleftrightarrow> slug_due []" "rmem (Seq (Many A) T) [] \<longleftrightarrow> slug_more []"
    by (simp_all add: A_def T_def some1_def flip: nullable_iff)
next
  case (Cons c s)
  have T: "rmem T (c # s) \<longleftrightarrow> c = CHR ''-'' \<and> slug_due s"
  proof -
    have "rmem T (c # s) \<longleftrightarrow> rmem (deriv c T) s" by (simp add: rmem_deriv)
    also have "\<dots> \<longleftrightarrow> c = CHR ''-'' \<and> rmem (Seq (some1 A) T) s"
      by (cases "c = CHR ''-''") (auto simp: T_def A_def some1_def rmem_Seq)
    finally show ?thesis using Cons.IH(1) by simp
  qed
  have "rmem (Seq (some1 A) T) (c # s) \<longleftrightarrow> slug_char c \<and> rmem (Seq (Many A) T) s"
    by (simp add: some1_def A_def slug_char_def rmem_Seq_Cons del: in_class_simps) (auto simp: rmem_Seq)
  then show "rmem (Seq (some1 A) T) (c # s) \<longleftrightarrow> slug_due (c # s)" using Cons.IH by simp
  have MA: "rmem (Many A) (c # u) \<longleftrightarrow> slug_char c \<and> rmem (Many A) u" "rmem (Many A) []" for u
    by (simp_all add: A_def slug_char_def del: in_class_simps)
  have "rmem (Seq (Many A) T) (c # s) \<longleftrightarrow> slug_char c \<and> rmem (Seq (Many A) T) s \<or> rmem T (c # s)"
    unfolding rmem_Seq_Cons MA using MA(2) rmem_Seq [of "Many A" T s] by blast
  then show "rmem (Seq (Many A) T) (c # s) \<longleftrightarrow> slug_more (c # s)" using Cons.IH T by auto
qed

lemma re_slug_iff: "matches re_slug s \<longleftrightarrow> slug_due s"
  using re_slug_automaton(1) by (simp add: matches_iff re_slug_def)

lemma slug_append:
  "slug_due b \<Longrightarrow> slug_due (b @ cs) \<longleftrightarrow> slug_more cs"
  "slug_more b \<Longrightarrow> slug_more (b @ cs) \<longleftrightarrow> slug_more cs"
  by (induction b) (auto split: if_splits)

lemma slug_more_due: "slug_due s \<Longrightarrow> slug_more s"
  by (cases s) auto

lemma lower_alnum_slug_char: "lower_alnum r = Some c \<Longrightarrow> slug_char c"
  by (auto simp: lower_alnum_def slug_char_def less_eq_char_def split: if_splits)

lemma slug_loop_due:
  "b = [] \<or> slug_due b \<Longrightarrow> slug_loop rs b hyphen = [] \<or> slug_due (slug_loop rs b hyphen)"
proof (induction rs b hyphen rule: slug_loop.induct)
  case (2 r rs b hyphen)
  show ?case
  proof (cases "lower_alnum r")
    case None
    then show ?thesis using 2 by simp
  next
    case (Some c)
    then have "slug_char c" by (rule lower_alnum_slug_char)
    then have "slug_due (b @ (if hyphen \<and> b \<noteq> [] then ''-'' else []) @ [c])"
      using 2(3) by (auto simp: slug_append)
    then show ?thesis using 2(2) [OF Some] Some by simp
  qed
qed simp

lemma trim_right_Cons:
  "trim_right P (c # cs) = (if trim_right P cs = [] \<and> P c then [] else c # trim_right P cs)"
  by (auto simp: trim_right_def dropWhile_append dropWhile_eq_Nil_conv)

lemma trim_take_slug:
  defines "trim \<equiv> trim_right (\<lambda>c. c = CHR ''-'')"
  shows "slug_due s \<Longrightarrow> trim (take n s) = [] \<or> slug_due (trim (take n s))"
    and "slug_more s \<Longrightarrow> slug_more (trim (take n s))"
proof (induction s arbitrary: n)
  case Nil
  { case 1 then show ?case by simp }
  { case 2 then show ?case by (simp add: trim_def trim_right_def) }
next
  case (Cons c s)
  have hyphen: "slug_char c \<Longrightarrow> c \<noteq> CHR ''-''" using hyphen_no_slug_char by blast
  { case 1
    then show ?case
      using Cons.IH(2) [of "n - 1"] hyphen
      by (cases n) (auto simp: trim_def trim_right_Cons, simp add: trim_right_def) }
  { case 2
    show ?case
    proof (cases n)
      case 0
      then show ?thesis by (simp add: trim_def trim_right_def)
    next
      case (Suc m)
      show ?thesis
        using 2 Cons.IH [of m] hyphen
        by (auto simp: Suc trim_def trim_right_Cons split: if_splits)
    qed }
qed

lemma cut_cases:
  "\<exists>m \<le> n. cut slug n =
     (let s = (if n < length slug then trim_right (\<lambda>c. c = CHR ''-'') (take m slug) else slug)
      in if s = [] then ''knot'' else s)"
proof -
  define m where "m = (case last_index_str (take n slug) ''-'' of
      Some i \<Rightarrow> if n div 2 < i then min i n else n | None \<Rightarrow> n)"
  have "m \<le> n" by (simp add: m_def split: option.split)
  moreover have "cut slug n =
     (let s = (if n < length slug then trim_right (\<lambda>c. c = CHR ''-'') (take m slug) else slug)
      in if s = [] then ''knot'' else s)"
    unfolding cut_def Let_def m_def
    by (cases "last_index_str (take n slug) ''-''") simp_all
  ultimately show ?thesis by blast
qed

lemma cut_slug:
  assumes "slug = [] \<or> slug_due slug"
  shows "slug_due (cut slug n)"
proof -
  let ?trim = "trim_right (\<lambda>c. c = CHR ''-'')"
  have knot: "slug_due ''knot''" by (simp add: slug_char_def less_eq_char_def)
  have "slug_due (?trim (take m slug))" if "?trim (take m slug) \<noteq> []" for m
    using assms trim_take_slug(1) [of slug m] that by (auto simp: trim_right_def)
  then show ?thesis
    using knot assms cut_cases [of n slug] by (auto simp: Let_def simp del: slug_due.simps split: if_splits)
qed

lemma length_trim_right: "length (trim_right P s) \<le> length s"
  by (metis length_dropWhile_le length_rev trim_right_def)

lemma length_cut: "length (cut slug n) \<le> max n 4"
proof -
  have "length (trim_right P (take m slug)) \<le> m" for P m
    using length_trim_right [of P "take m slug"] by simp
  then have "m \<le> n \<Longrightarrow> length (trim_right P (take m slug)) \<le> max n 4" for P m
    by (meson le_max_iff_disj order_trans)
  then show ?thesis using cut_cases [of n slug] by (auto simp: Let_def)
qed

lemma Slug_due: "slug_due (Slug title)"
  unfolding Slug_def by (intro cut_slug slug_loop_due) simp

text \<open>
  Whatever the title, its slug has the shape a graph's layout asks of a slug and is no
  longer than a slug may be, so a knot made from it can always be written.
\<close>

theorem Slug_shape: "matches re_slug (Slug title) \<and> length (Slug title) \<le> MaxSlug"
proof -
  have "length (Slug title) \<le> MaxSlug"
    using length_cut [of _ MaxSlug] by (simp add: Slug_def MaxSlug_def)
  then show ?thesis by (simp add: re_slug_iff Slug_due)
qed

definition tries :: "string \<Rightarrow> nat \<Rightarrow> string" where
  "tries base m = (if m = 0 then base else candidate base (m + 1))"

lemma new_id_loop_finds:
  assumes "\<not> taken (DeriveID t (tries base k))" "m \<le> k"
  shows "\<exists>j. m \<le> j \<and> new_id_loop t taken base (tries base m) (m + 2) =
      Some (DeriveID t (tries base j), tries base j) \<and>
    \<not> taken (DeriveID t (tries base j)) \<and> (\<forall>i. m \<le> i \<and> i < j \<longrightarrow> taken (DeriveID t (tries base i)))"
  using assms(2)
proof (induction m rule: inc_induct)
  case base
  then show ?case using assms(1) by (subst new_id_loop.simps) (auto simp: Let_def)
next
  case (step m)
  have nxt: "tries base (Suc m) = candidate base (m + 2)" by (simp add: tries_def)
  show ?case
  proof (cases "taken (DeriveID t (tries base m))")
    case False
    then show ?thesis by (subst new_id_loop.simps) (auto simp: Let_def)
  next
    case True
    then have "new_id_loop t taken base (tries base m) (m + 2) =
        new_id_loop t taken base (tries base (Suc m)) (Suc m + 2)"
      by (subst new_id_loop.simps) (simp add: nxt)
    then show ?thesis using step.IH True by (metis Suc_leD le_antisym not_less_eq_eq not_less)
  qed
qed

lemma new_id_loop_Some:
  assumes "new_id_loop t taken base slug n = Some r"
  shows "\<forall>m. slug = tries base m \<longrightarrow> n = m + 2 \<longrightarrow> (\<exists>k \<ge> m. \<not> taken (DeriveID t (tries base k)))"
  using assms
proof (rule new_id_loop.raw_induct [rotated, of t taken base slug n r])
  fix f :: "Type \<Rightarrow> (string \<Rightarrow> bool) \<Rightarrow> string \<Rightarrow> string \<Rightarrow> nat \<Rightarrow> (string \<times> string) option"
    and t taken base slug n r
  assume IH: "\<And>t taken base slug n r. f t taken base slug n = Some r \<Longrightarrow>
      \<forall>m. slug = tries base m \<longrightarrow> n = m + 2 \<longrightarrow> (\<exists>k \<ge> m. \<not> taken (DeriveID t (tries base k)))"
    and f: "(let ID = DeriveID t slug in if \<not> taken ID then Some (ID, slug)
      else f t taken base (candidate base n) (n + 1)) = Some r"
  show "\<forall>m. slug = tries base m \<longrightarrow> n = m + 2 \<longrightarrow> (\<exists>k \<ge> m. \<not> taken (DeriveID t (tries base k)))"
  proof (intro allI impI)
    fix m
    assume m: "slug = tries base m" "n = m + 2"
    show "\<exists>k \<ge> m. \<not> taken (DeriveID t (tries base k))"
    proof (cases "taken (DeriveID t slug)")
      case False
      then show ?thesis using m by blast
    next
      case True
      then have "f t taken base (candidate base n) (n + 1) = Some r" using f by (simp add: Let_def)
      from IH [OF this] have "\<exists>k \<ge> Suc m. \<not> taken (DeriveID t (tries base k))"
        using m by (simp add: tries_def)
      then show ?thesis by (meson Suc_leD)
    qed
  qed
qed

lemma itoa_slug: "slug_more (itoa n)" "slug_due (itoa n)"
proof -
  have "slug_char c" if "is_digit c" for c
    using that by (simp add: slug_char_def is_digit_def less_eq_char_def byte_val_def)
  then have "\<forall>c \<in> set w. is_digit c \<Longrightarrow> slug_more w" for w
    by (induction w) auto
  then show "slug_more (itoa n)" using itoa_digits by blast
  then show "slug_due (itoa n)"
    using itoa_digits [of n] \<open>\<And>c. is_digit c \<Longrightarrow> slug_char c\<close> itoa_nonempty [of n]
    by (cases "itoa n") auto
qed

lemma tries_slug: "slug_due base \<Longrightarrow> slug_due (tries base m)"
  using cut_slug [of base] itoa_slug
  by (auto simp: tries_def candidate_def Let_def slug_append)

text \<open>
  A new knot's ID is the first of the title's slug and its numbered variants that gives a
  free ID, the search returns whenever one of them does, and the slug it returns has a slug's
  shape and the ID derived from it.
\<close>

theorem NewID_iff:
  "NewID t title taken = Some (ID, slug) \<longleftrightarrow>
     (\<exists>m. slug = tries (Slug title) m \<and> ID = DeriveID t slug \<and> \<not> taken ID \<and> matches re_slug slug \<and>
       list_all (\<lambda>j. taken (DeriveID t (tries (Slug title) j))) [0..<m])"
  (is "?l \<longleftrightarrow> (\<exists>m. ?r m)")
proof
  have base: "new_id_loop t taken (Slug title) (Slug title) 2 =
      new_id_loop t taken (Slug title) (tries (Slug title) 0) (0 + 2)"
    by (simp add: tries_def numeral_2_eq_2)
  have shape: "matches re_slug (tries (Slug title) m)" for m
    using Slug_due tries_slug by (simp add: re_slug_iff)
  {
    assume l: ?l
    then obtain k where "\<not> taken (DeriveID t (tries (Slug title) k))"
      using new_id_loop_Some [of t taken "Slug title" "Slug title" 2 "(ID, slug)"]
      by (auto simp: NewID_def tries_def elim: allE [of _ 0])
    from new_id_loop_finds [of taken, OF this, of 0] obtain j where
      "NewID t title taken = Some (DeriveID t (tries (Slug title) j), tries (Slug title) j)"
      "\<not> taken (DeriveID t (tries (Slug title) j))"
      "\<forall>i < j. taken (DeriveID t (tries (Slug title) i))"
      unfolding NewID_def base by auto
    then have "?r j" using l shape by (simp add: list_all_iff)
    then show "\<exists>m. ?r m" ..
  }
  assume "\<exists>m. ?r m"
  then obtain m where r: "?r m" ..
  then have free: "\<not> taken (DeriveID t (tries (Slug title) m))" by blast
  from new_id_loop_finds [of taken, OF this, of 0] obtain j where
    j: "NewID t title taken = Some (DeriveID t (tries (Slug title) j), tries (Slug title) j)"
    "\<not> taken (DeriveID t (tries (Slug title) j))"
    "\<forall>i < j. taken (DeriveID t (tries (Slug title) i))"
    unfolding NewID_def base by auto
  have "j = m"
    using r j(2,3) free by (metis atLeastLessThan_iff le0 linorder_neqE_nat list_all_iff set_upt)
  then show ?l using r j(1) by simp
qed

end
