(* ===== verification/KnotValidate.thy ===== *)
theory KnotValidate
  imports KnotModel
begin

text \<open>
  \<^verbatim>\<open>knot/validate.go\<close> and \<^verbatim>\<open>checkText\<close> of \<^verbatim>\<open>knot/canon.go\<close>: every rule about one knot
  alone, in the order the code asks them.
\<close>

section \<open>Text\<close>

definition bad_rune :: "nat \<Rightarrow> bool" where
  "bad_rune r \<longleftrightarrow> r < 32 \<and> r \<noteq> 10 \<and> r \<noteq> 9 \<or> 127 \<le> r \<and> r \<le> 159 \<or> r = 65534 \<or> r = 65535"

definition checkText :: "string \<Rightarrow> string \<Rightarrow> (refusal, unit) result" where
  "checkText path data =
     (if \<not> utf8_valid data then refuse RuleText path
      else if list_ex bad_rune (runes data) then refuse RuleText path
      else Inr ())"

definition contains_any :: "string \<Rightarrow> string \<Rightarrow> bool" where
  "contains_any s set_chars \<longleftrightarrow> list_ex (\<lambda>c. c \<in> set set_chars) s"

definition line_breaks :: string where
  "line_breaks = [CHR 0x0A, CHR 0x09]"

section \<open>The rules about one knot\<close>

definition holds :: "Knot \<Rightarrow> string \<Rightarrow> bool" where
  "holds k fname =
     (if fname = ''blocked_by'' then kn_BlockedBy k \<noteq> None
      else if fname = ''changes'' then kn_Changes k \<noteq> None
      else Get k fname \<noteq> [])"

definition checkFieldsOnType :: "Knot \<Rightarrow> string \<Rightarrow> Type \<Rightarrow> (refusal, unit) result" where
  "checkFieldsOnType k path t =
     check_all (\<lambda>f. if \<not> carries f (ty_Name t) \<and> holds k (fl_Name f)
       then refuse RuleFieldOnType path else Inr ()) Fields"

definition checkShapes :: "Knot \<Rightarrow> string \<Rightarrow> (refusal, unit) result" where
  "checkShapes k path =
     (if kn_CreatedBy k \<noteq> [] \<and> \<not> matches re_name (kn_CreatedBy k) then refuse RuleFieldShape path
      else if kn_Owner k \<noteq> [] \<and> \<not> matches re_name (kn_Owner k) then refuse RuleFieldShape path
      else if kn_Parent k \<noteq> [] \<and> \<not> IsLocalID (kn_Parent k) then refuse RuleFieldShape path
      else if kn_Parent k \<noteq> [] \<and> \<not> has_prefix (kn_Parent k) ''oc-'' then refuse RuleParentOutcome path
      else if kn_ClaimedBy k \<noteq> [] \<and> \<not> matches re_name (kn_ClaimedBy k) then refuse RuleFieldShape path
      else if kn_ClaimedAt k \<noteq> [] \<and> \<not> IsTimestamp (kn_ClaimedAt k) then refuse RuleFieldShape path
      else if kn_Target k \<noteq> [] \<and> \<not> matches re_name (kn_Target k) \<and> \<not> matches re_qualifiedID (kn_Target k)
      then refuse RuleFieldShape path
      else if kn_GraduatedInto k \<noteq> [] \<and>
        (\<not> IsLocalID (kn_GraduatedInto k) \<or>
         \<not> has_prefix (kn_GraduatedInto k) ''oc-'' \<and> \<not> has_prefix (kn_GraduatedInto k) ''qn-'')
      then refuse RuleFieldShape path
      else
        rbind (check_all (\<lambda>ref. if \<not> IsLocalID ref \<and> \<not> matches re_qualifiedID ref
            then refuse RuleFieldShape path else Inr ()) (elems (kn_BlockedBy k)))
          (\<lambda>_. check_all (\<lambda>link. if \<not> matches re_valleyChange link \<and> \<not> matches re_githubPR link
            then refuse RuleFieldShape path else Inr ()) (elems (kn_Changes k))))"

text \<open>
  The names whose length is limited. The code ranges over them in no particular order, and
  every refusal it could give is the same rule at the same path.
\<close>

definition name_fields :: "Knot \<Rightarrow> (string \<times> string) list" where
  "name_fields k =
     [(''created_by'', kn_CreatedBy k), (''owner'', kn_Owner k), (''claimed_by'', kn_ClaimedBy k),
      (''target'', kn_Target k)]"

definition checkLive :: "Knot \<Rightarrow> string \<Rightarrow> (refusal, unit) result" where
  "checkLive k path =
     (if kn_CreatedBy k = [] then refuse RuleProvenance path
      else if kn_Created k \<le> IDRuleCutoff then refuse RuleCutoff path
      else if (kn_ClaimedBy k = []) \<noteq> (kn_ClaimedAt k = []) then refuse RuleClaim path
      else if contains_any (kn_Title k) line_breaks \<or> checkText path (kn_Title k) \<noteq> Inr ()
      then refuse RuleText path
      else if contains_any (kn_Source k) line_breaks \<or> checkText path (kn_Source k) \<noteq> Inr ()
      then refuse RuleText path
      else if MaxTitle < length (kn_Title k) then refuse RuleLimit path
      else if MaxTitle < length (kn_Source k) then refuse RuleLimit path
      else if MaxListItems < length (elems (kn_BlockedBy k)) \<or> MaxListItems < length (elems (kn_Changes k))
      then refuse RuleLimit path
      else
        rbind (check_all (\<lambda>(fname, val).
            if MaxName + 12 < length val \<or> fname \<noteq> ''target'' \<and> MaxName < length val
            then refuse RuleLimit path else Inr ()) (name_fields k))
          (\<lambda>_. rbind (check_all (\<lambda>ref. if MaxName + 12 < length ref then refuse RuleLimit path else Inr ())
              (elems (kn_BlockedBy k)))
            (\<lambda>_. check_all (\<lambda>link. if MaxLink < length link then refuse RuleLimit path else Inr ())
              (elems (kn_Changes k)))))"

definition check_fields :: "Knot \<Rightarrow> string \<Rightarrow> Type \<Rightarrow> (refusal, unit) result" where
  "check_fields k path t =
     rbind (checkFieldsOnType k path t)
       (\<lambda>_. rbind (checkShapes k path)
         (\<lambda>_. if ty_Name t = ''outcome'' \<and> kn_BlockedBy k = None then refuse RuleRequired path
              else if ty_Name t = ''idea'' \<and> kn_Status k = ''graduated'' \<and> kn_GraduatedInto k = []
              then refuse RuleGraduated path
              else if kn_GraduatedInto k \<noteq> [] \<and> kn_Status k \<noteq> ''graduated'' then refuse RuleGraduated path
              else checkLive k path))"

definition check :: "Knot \<Rightarrow> string \<Rightarrow> (refusal, unit) result" where
  "check k path =
     (if kn_Type k = [] then refuse RuleRequired path
      else
        (case TypeNamed (kn_Type k) of
           None \<Rightarrow> refuse RuleType path
         | Some t \<Rightarrow>
             if kn_ID k = [] then refuse RuleRequired path
             else if \<not> IsLocalID (kn_ID k) \<or> \<not> has_prefix (kn_ID k) (ty_Prefix t @ ''-'')
             then refuse RuleIDShape path
             else if kn_Status k = [] then refuse RuleRequired path
             else if kn_Status k \<notin> set (Statuses t) then refuse RuleStatus path
             else if kn_Title k = [] then refuse RuleRequired path
             else if kn_Created k = [] then refuse RuleRequired path
             else if \<not> matches re_date (kn_Created k) then refuse RuleFieldShape path
             else check_fields k path t))"

section \<open>What a knot that passes holds\<close>

text \<open>The rules as one condition on the knot, whatever the path a refusal would name.\<close>

definition text_ok :: "string \<Rightarrow> bool" where
  "text_ok s \<longleftrightarrow> utf8_valid s \<and> list_all (\<lambda>r. \<not> bad_rune r) (runes s)"

definition ref_ok :: "string \<Rightarrow> bool" where
  "ref_ok ref \<longleftrightarrow> (IsLocalID ref \<or> matches re_qualifiedID ref) \<and> length ref \<le> MaxName + 12"

definition link_ok :: "string \<Rightarrow> bool" where
  "link_ok link \<longleftrightarrow> IsChangeLink link"

definition shapes_ok :: "Knot \<Rightarrow> bool" where
  "shapes_ok k \<longleftrightarrow>
     IsName (kn_CreatedBy k) \<and>
     (kn_Owner k = [] \<or> IsName (kn_Owner k)) \<and>
     (kn_Parent k = [] \<or> IsLocalID (kn_Parent k) \<and> has_prefix (kn_Parent k) ''oc-'') \<and>
     (kn_ClaimedBy k = [] \<and> kn_ClaimedAt k = [] \<or> IsName (kn_ClaimedBy k) \<and> IsTimestamp (kn_ClaimedAt k)) \<and>
     (kn_Target k = [] \<or> (matches re_name (kn_Target k) \<or> matches re_qualifiedID (kn_Target k)) \<and>
        length (kn_Target k) \<le> MaxName + 12) \<and>
     (kn_GraduatedInto k = [] \<or> kn_Status k = ''graduated'' \<and> IsLocalID (kn_GraduatedInto k) \<and>
        (has_prefix (kn_GraduatedInto k) ''oc-'' \<or> has_prefix (kn_GraduatedInto k) ''qn-'')) \<and>
     list_all ref_ok (elems (kn_BlockedBy k)) \<and> length (elems (kn_BlockedBy k)) \<le> MaxListItems \<and>
     list_all link_ok (elems (kn_Changes k)) \<and> length (elems (kn_Changes k)) \<le> MaxListItems"

definition live_ok :: "Knot \<Rightarrow> bool" where
  "live_ok k \<longleftrightarrow>
     IDRuleCutoff < kn_Created k \<and>
     text_ok (kn_Title k) \<and> CHR 0x0A \<notin> set (kn_Title k) \<and> CHR 0x09 \<notin> set (kn_Title k) \<and>
     length (kn_Title k) \<le> MaxTitle \<and>
     text_ok (kn_Source k) \<and> CHR 0x0A \<notin> set (kn_Source k) \<and> CHR 0x09 \<notin> set (kn_Source k) \<and>
     length (kn_Source k) \<le> MaxTitle"

definition type_ok :: "Type \<Rightarrow> Knot \<Rightarrow> bool" where
  "type_ok t k \<longleftrightarrow>
     TypeNamed (kn_Type k) = Some t \<and>
     IsLocalID (kn_ID k) \<and> has_prefix (kn_ID k) (ty_Prefix t @ ''-'') \<and>
     kn_Status k \<in> set (Statuses t) \<and> kn_Title k \<noteq> [] \<and> matches re_date (kn_Created k) \<and>
     list_all (\<lambda>f. carries f (ty_Name t) \<or> \<not> holds k (fl_Name f)) Fields \<and>
     (ty_Name t = ''outcome'' \<longrightarrow> kn_BlockedBy k \<noteq> None) \<and>
     (ty_Name t = ''idea'' \<and> kn_Status k = ''graduated'' \<longrightarrow> kn_GraduatedInto k \<noteq> [])"

definition knot_ok :: "Knot \<Rightarrow> bool" where
  "knot_ok k \<longleftrightarrow> (\<exists>t. type_ok t k) \<and> shapes_ok k \<and> live_ok k"

lemma checkText_ok: "checkText path s = Inr () \<longleftrightarrow> text_ok s"
  by (auto simp: checkText_def text_ok_def list_ex_iff list_all_iff)

lemma matches_nonempty:
  "\<not> matches re_name []" "\<not> IsLocalID []" "\<not> matches re_qualifiedID []"
  "\<not> matches re_date []" "\<not> IsTimestamp []"
proof -
  have seqs: "\<not> nullable r \<Longrightarrow> \<not> nullable (seqs (r # rs))" for r rs
    by (cases rs) simp_all
  show name: "\<not> matches re_name []" by (simp add: re_name_def)
  show id: "\<not> IsLocalID []"
    unfolding IsLocalID_def re_localID_def matches.simps by (rule seqs) (simp add: re_prefix_def)
  show "\<not> matches re_qualifiedID []"
    unfolding re_qualifiedID_def matches.simps by (rule seqs) (use name in simp)
  show date: "\<not> matches re_date []"
    unfolding re_date_def matches.simps by (rule seqs) (simp add: eval_nat_numeral)
  show "\<not> IsTimestamp []"
    unfolding IsTimestamp_def re_timestamp_def matches.simps by (rule seqs) (use date in simp)
qed

lemma TypeNamed_mem: "TypeNamed n = Some t \<Longrightarrow> t \<in> set Types \<and> ty_Name t = n"
  by (auto simp: TypeNamed_def find_Some_iff)

lemma status_nonempty: "TypeNamed n = Some t \<Longrightarrow> [] \<notin> set (Statuses t)"
proof -
  have "\<forall>t \<in> set Types. [] \<notin> set (Statuses t)" by (simp add: Types_def Statuses_def)
  then show "TypeNamed n = Some t \<Longrightarrow> ?thesis" using TypeNamed_mem by blast
qed

lemma TypeNamed_Nil: "TypeNamed [] = None"
  by (simp add: TypeNamed_def Types_def)

lemma check_if: "(if c then refuse r p else x) = Inr y \<longleftrightarrow> \<not> c \<and> x = Inr y"
  by simp

lemma checkFieldsOnType_ok:
  "checkFieldsOnType k path t = Inr () \<longleftrightarrow> list_all (\<lambda>f. carries f (ty_Name t) \<or> \<not> holds k (fl_Name f)) Fields"
  by (simp only: checkFieldsOnType_def check_all_ok check_if list_all_iff) auto

definition bare_shapes :: "Knot \<Rightarrow> bool" where
  "bare_shapes k \<longleftrightarrow>
     (kn_CreatedBy k = [] \<or> matches re_name (kn_CreatedBy k)) \<and>
     (kn_Owner k = [] \<or> matches re_name (kn_Owner k)) \<and>
     (kn_Parent k = [] \<or> IsLocalID (kn_Parent k) \<and> has_prefix (kn_Parent k) ''oc-'') \<and>
     (kn_ClaimedBy k = [] \<or> matches re_name (kn_ClaimedBy k)) \<and>
     (kn_ClaimedAt k = [] \<or> IsTimestamp (kn_ClaimedAt k)) \<and>
     (kn_Target k = [] \<or> matches re_name (kn_Target k) \<or> matches re_qualifiedID (kn_Target k)) \<and>
     (kn_GraduatedInto k = [] \<or> IsLocalID (kn_GraduatedInto k) \<and>
        (has_prefix (kn_GraduatedInto k) ''oc-'' \<or> has_prefix (kn_GraduatedInto k) ''qn-'')) \<and>
     list_all (\<lambda>ref. IsLocalID ref \<or> matches re_qualifiedID ref) (elems (kn_BlockedBy k)) \<and>
     list_all (\<lambda>link. matches re_valleyChange link \<or> matches re_githubPR link) (elems (kn_Changes k))"

lemma checkShapes_ok: "checkShapes k path = Inr () \<longleftrightarrow> bare_shapes k"
  by (simp only: checkShapes_def check_if rbind_unit_eq_Inr check_all_ok bare_shapes_def list_all_iff) blast

definition bare_live :: "Knot \<Rightarrow> bool" where
  "bare_live k \<longleftrightarrow>
     kn_CreatedBy k \<noteq> [] \<and> (kn_ClaimedBy k = []) = (kn_ClaimedAt k = []) \<and> live_ok k \<and>
     length (kn_CreatedBy k) \<le> MaxName \<and> length (kn_Owner k) \<le> MaxName \<and>
     length (kn_ClaimedBy k) \<le> MaxName \<and> length (kn_Target k) \<le> MaxName + 12 \<and>
     length (elems (kn_BlockedBy k)) \<le> MaxListItems \<and> length (elems (kn_Changes k)) \<le> MaxListItems \<and>
     list_all (\<lambda>ref. length ref \<le> MaxName + 12) (elems (kn_BlockedBy k)) \<and>
     list_all (\<lambda>link. length link \<le> MaxLink) (elems (kn_Changes k))"

lemma contains_line_breaks:
  "contains_any s line_breaks \<longleftrightarrow> CHR 0x0A \<in> set s \<or> CHR 0x09 \<in> set s"
  by (auto simp: contains_any_def line_breaks_def list_ex_iff)

lemma name_fields_ok:
  "check_all (\<lambda>(fname, val). if MaxName + 12 < length val \<or> fname \<noteq> ''target'' \<and> MaxName < length val
      then refuse RuleLimit path else Inr ()) (name_fields k) = Inr () \<longleftrightarrow>
   length (kn_CreatedBy k) \<le> MaxName \<and> length (kn_Owner k) \<le> MaxName \<and>
   length (kn_ClaimedBy k) \<le> MaxName \<and> length (kn_Target k) \<le> MaxName + 12"
  by (simp only: name_fields_def check_all_ok list.set ball_simps prod.case check_if) auto

lemma checkLive_ok: "checkLive k path = Inr () \<longleftrightarrow> bare_live k"
  unfolding checkLive_def check_if rbind_unit_eq_Inr name_fields_ok checkText_ok contains_line_breaks
  by (simp only: check_all_ok check_if bare_live_def live_ok_def list_all_iff not_less not_le simp_thms
      de_Morgan_disj) blast

text \<open>A knot passes exactly when it satisfies the condition.\<close>

lemma shapes_live: "bare_shapes k \<and> bare_live k \<and> (kn_GraduatedInto k = [] \<or> kn_Status k = ''graduated'') \<longleftrightarrow>
    shapes_ok k \<and> live_ok k"
proof -
  have name: "(n = [] \<or> matches re_name n) \<and> length n \<le> MaxName \<longleftrightarrow> n = [] \<or> IsName n"
    and name1: "n \<noteq> [] \<Longrightarrow> (n = [] \<or> matches re_name n) \<and> length n \<le> MaxName \<longleftrightarrow> IsName n"
    and target: "(n = [] \<or> matches re_name n \<or> matches re_qualifiedID n) \<and> length n \<le> MaxName + 12 \<longleftrightarrow>
      n = [] \<or> (matches re_name n \<or> matches re_qualifiedID n) \<and> length n \<le> MaxName + 12" for n
    by (auto simp: IsName_def)
  have nonempty: "\<not> IsName []" "\<not> IsTimestamp []" using matches_nonempty by (simp_all add: IsName_def)
  have claim: "((c = [] \<or> matches re_name c) \<and> length c \<le> MaxName) \<and> (at = [] \<or> IsTimestamp at) \<and>
      (c = []) = (at = []) \<longleftrightarrow> c = [] \<and> at = [] \<or> IsName c \<and> IsTimestamp at" for c at
    unfolding name using nonempty by (cases "c = []"; cases "at = []"; simp)
  have refs: "list_all (\<lambda>ref. IsLocalID ref \<or> matches re_qualifiedID ref) l \<and>
      list_all (\<lambda>ref. length ref \<le> MaxName + 12) l \<longleftrightarrow> list_all ref_ok l" for l
    by (auto simp: list_all_iff ref_ok_def)
  have links: "list_all (\<lambda>link. matches re_valleyChange link \<or> matches re_githubPR link) l \<and>
      list_all (\<lambda>link. length link \<le> MaxLink) l \<longleftrightarrow> list_all link_ok l" for l
    by (auto simp: list_all_iff link_ok_def IsChangeLink_def)
  have created: "(n = [] \<or> matches re_name n) \<and> n \<noteq> [] \<and> length n \<le> MaxName \<longleftrightarrow> IsName n" for n
    using nonempty by (auto simp: IsName_def)
  show ?thesis
    unfolding bare_shapes_def bare_live_def shapes_ok_def
    unfolding refs [symmetric] links [symmetric] claim [symmetric] name [symmetric]
      target [symmetric, of "kn_Target k"]
    unfolding created [symmetric] by satx
qed

lemma check_ok: "check k path = Inr () \<longleftrightarrow> knot_ok k"
proof (cases "TypeNamed (kn_Type k)")
  case None
  then show ?thesis by (simp add: check_def knot_ok_def type_ok_def)
next
  case (Some t)
  then have ty: "kn_Type k \<noteq> []" using TypeNamed_Nil by auto
  have "check_fields k path t = Inr () \<longleftrightarrow>
      list_all (\<lambda>f. carries f (ty_Name t) \<or> \<not> holds k (fl_Name f)) Fields \<and>
      (ty_Name t = ''outcome'' \<longrightarrow> kn_BlockedBy k \<noteq> None) \<and>
      (ty_Name t = ''idea'' \<and> kn_Status k = ''graduated'' \<longrightarrow> kn_GraduatedInto k \<noteq> []) \<and>
      shapes_ok k \<and> live_ok k"
    unfolding shapes_live [symmetric]
    by (simp only: check_fields_def rbind_unit_eq_Inr checkFieldsOnType_ok checkShapes_ok checkLive_ok check_if) satx
  moreover have "check k path = Inr () \<longleftrightarrow>
      IsLocalID (kn_ID k) \<and> has_prefix (kn_ID k) (ty_Prefix t @ ''-'') \<and> kn_Status k \<in> set (Statuses t) \<and>
      kn_Title k \<noteq> [] \<and> matches re_date (kn_Created k) \<and> check_fields k path t = Inr ()"
    using Some ty matches_nonempty status_nonempty [OF Some]
    by (simp only: check_def check_if option.case) metis
  ultimately show ?thesis
    using Some by (simp only: knot_ok_def type_ok_def option.inject) blast
qed

end
