(* ===== verification/KnotCanon.thy ===== *)
theory KnotCanon
  imports KnotValidate GoJson
begin

text \<open>
  \<^verbatim>\<open>knot/canon.go\<close>: the one form a knot's and a comment's file is written in, and the reader
  that refuses every other.
\<close>

section \<open>Splitting a file\<close>

abbreviation newline :: char where "newline \<equiv> CHR 0x0A"

definition fence :: string where "fence = ''---'' @ [newline]"

text \<open>The key \<^verbatim>\<open>keyShape\<close> reads from a line that is no field.\<close>

definition re_keyShape :: rexp where
  "re_keyShape =
     Seq (Cls [(CHR ''a'', CHR ''z''), (CHR ''_'', CHR ''_'')])
       (Many (Cls [(CHR ''a'', CHR ''z''), (CHR ''0'', CHR ''9''), (CHR ''_'', CHR ''_'')]))"

definition frontmatter :: "string \<Rightarrow> string \<Rightarrow> (refusal, string list \<times> string) result" where
  "frontmatter path data =
     (case cut_prefix data fence of
        None \<Rightarrow> refuse RuleCanonical path
      | Some rest \<Rightarrow>
          (case cut_prefix rest fence of
             Some body \<Rightarrow> Inr ([], body)
           | None \<Rightarrow>
               (case index_str rest (newline # fence) of
                  None \<Rightarrow> refuse RuleCanonical path
                | Some i \<Rightarrow>
                    Inr (split_byte newline (take i rest), drop (i + 1 + length fence) rest))))"

definition readBody :: "string \<Rightarrow> string" where
  "readBody rest = trim_prefix rest [newline]"

section \<open>Reading values\<close>

text \<open>The characters no bare token holds.\<close>

definition token_stops :: string where
  "token_stops = '' '' @ [CHR 0x09] @ ''[]{},#&*!|>'' @ [CHR 0x27] @ ''%@'' @ [CHR 0x60]"

definition readScalar :: "string \<Rightarrow> string option" where
  "readScalar val =
     (if has_prefix val [quotation] then json_unmarshal_string val
      else if val = [] \<or> contains_any val token_stops then None
      else Some val)"

text \<open>The scan for the quote that closes a string: its index, past every escaped byte.\<close>

fun closing_quote :: "string \<Rightarrow> nat option" where
  "closing_quote [] = None"
| "closing_quote (c # cs) =
     (if c = quotation then Some 0
      else if c = backslash then
        (case cs of [] \<Rightarrow> None | _ # ds \<Rightarrow> map_option (\<lambda>n. n + 2) (closing_quote ds))
      else map_option Suc (closing_quote cs))"

text \<open>One entry of a flow list and what follows it.\<close>

definition read_item :: "string \<Rightarrow> (string \<times> string) option" where
  "read_item inner =
     (if has_prefix inner [quotation] then
        (case closing_quote (tl inner) of
           None \<Rightarrow> None
         | Some n \<Rightarrow>
             (case json_unmarshal_string (take (n + 2) inner) of
                None \<Rightarrow> None
              | Some item \<Rightarrow> Some (item, drop (n + 2) inner)))
      else
        let n = (case index_byte inner (CHR '','') of None \<Rightarrow> length inner | Some i \<Rightarrow> i);
            item = trim_space (take n inner)
        in if item = [] then None else Some (item, drop n inner))"

lemma read_item_shorter: "read_item inner = Some (item, rest) \<Longrightarrow> length rest < length inner"
proof -
  assume r: "read_item inner = Some (item, rest)"
  show ?thesis
  proof (cases "has_prefix inner [quotation]")
    case True
    then have "inner \<noteq> []" by (auto simp: has_prefix_def)
    then show ?thesis using r True by (auto simp: read_item_def split: option.splits)
  next
    case False
    define n where "n = (case index_byte inner (CHR '','') of None \<Rightarrow> length inner | Some i \<Rightarrow> i)"
    have "trim_space (take n inner) \<noteq> []" "rest = drop n inner"
      using r False unfolding read_item_def n_def [symmetric] by (auto simp: Let_def split: if_splits)
    then have "take n inner \<noteq> []" by (metis trim_space_Nil)
    then have "0 < n" "0 < length inner" by auto
    then show ?thesis using \<open>rest = drop n inner\<close> by simp
  qed
qed

function read_items :: "string \<Rightarrow> string list option" where
  "read_items inner =
     (if inner = [] then Some []
      else
        (case read_item inner of
           None \<Rightarrow> None
         | Some (item, rest) \<Rightarrow>
             let rest = trim_space rest in
             if rest = [] then Some [item]
             else if hd rest \<noteq> CHR '','' then None
             else
               let rest = trim_space (tl rest) in
               if rest = [] then None else map_option (Cons item) (read_items rest)))"
  by pat_completeness auto
termination
proof (relation "measure length")
  fix inner :: string and x item rest r1 r2
  assume "read_item inner = Some x" "(item, rest) = x" "r1 = trim_space rest" "r2 = trim_space (tl r1)"
  then have "length rest < length inner" "length r1 \<le> length rest" "length r2 \<le> length (tl r1)"
    using read_item_shorter length_trim_space by blast+
  then show "(r2, inner) \<in> measure length" by simp
qed simp

declare read_items.simps [simp del]

definition readList :: "string \<Rightarrow> string list option" where
  "readList val =
     (if \<not> has_prefix val ''['' \<or> \<not> has_suffix val '']'' then None
      else read_items (butlast (tl val)))"

section \<open>Writing\<close>

definition quote :: "string \<Rightarrow> string" where
  "quote s = json_quote s"

definition renderList :: "string list \<Rightarrow> string" where
  "renderList l =
     ''['' @ join_str '', '' (map (\<lambda>item. if IsLocalID item then item else quote item) (remdups_adj (sort l))) @ '']''"

text \<open>The lines \<^verbatim>\<open>Render\<close> writes: each key it writes and its written value, in order.\<close>

definition render_lines :: "Knot \<Rightarrow> (string \<times> string) list" where
  "render_lines k =
     [(''type'', kn_Type k), (''id'', kn_ID k), (''status'', kn_Status k), (''title'', quote (kn_Title k)),
      (''created'', kn_Created k), (''created_by'', quote (kn_CreatedBy k))] @
     (if kn_Source k \<noteq> [] then [(''source'', quote (kn_Source k))] else []) @
     (if kn_Parent k \<noteq> [] then [(''parent'', kn_Parent k)] else []) @
     (if kn_Owner k \<noteq> [] then [(''owner'', quote (kn_Owner k))] else []) @
     (if kn_Type k \<in> set workTypes \<or> elems (kn_BlockedBy k) \<noteq> []
      then [(''blocked_by'', renderList (elems (kn_BlockedBy k)))] else []) @
     (if kn_ClaimedBy k \<noteq> [] then [(''claimed_by'', quote (kn_ClaimedBy k))] else []) @
     (if kn_ClaimedAt k \<noteq> [] then [(''claimed_at'', quote (kn_ClaimedAt k))] else []) @
     (if elems (kn_Changes k) \<noteq> [] then [(''changes'', renderList (elems (kn_Changes k)))] else []) @
     (if kn_Target k \<noteq> [] then [(''target'', quote (kn_Target k))] else []) @
     (if kn_GraduatedInto k \<noteq> [] then [(''graduated_into'', kn_GraduatedInto k)] else [])"

definition render_front :: "(string \<times> string) list \<Rightarrow> string" where
  "render_front ls = concat (map (\<lambda>(key, val). key @ '': '' @ val @ [newline]) ls)"

definition Render :: "Knot \<Rightarrow> string" where
  "Render k =
     fence @ render_front (render_lines k) @ fence @
     (if kn_Body k \<noteq> [] then newline # kn_Body k else [])"

fun replace_crlf :: "string \<Rightarrow> string" where
  "replace_crlf [] = []"
| "replace_crlf [c] = [c]"
| "replace_crlf (c # d # cs) =
     (if c = CHR 0x0D \<and> d = newline then newline # replace_crlf cs else c # replace_crlf (d # cs))"

definition NormalBody :: "string \<Rightarrow> string" where
  "NormalBody text =
     (let blank = (\<lambda>l. trim_space l = []);
          ls = trim_right_list blank (dropWhile blank (split_byte newline (replace_crlf text)))
      in if ls = [] then [] else join_str [newline] ls @ [newline])"

section \<open>Reading a knot\<close>

definition no_knot :: Knot where
  "no_knot =
     \<lparr>kn_Type = [], kn_ID = [], kn_Status = [], kn_Title = [], kn_Created = [], kn_CreatedBy = [],
      kn_Source = [], kn_Parent = [], kn_Owner = [], kn_BlockedBy = None, kn_ClaimedBy = [],
      kn_ClaimedAt = [], kn_Changes = None, kn_Target = [], kn_GraduatedInto = [], kn_Body = [],
      kn_Slug = []\<rparr>"

text \<open>The switch that stores a value under its field's name.\<close>

definition set_scalar :: "Knot \<Rightarrow> string \<Rightarrow> string \<Rightarrow> Knot" where
  "set_scalar k fname s =
     (if fname = ''type'' then k\<lparr>kn_Type := s\<rparr>
      else if fname = ''id'' then k\<lparr>kn_ID := s\<rparr>
      else if fname = ''status'' then k\<lparr>kn_Status := s\<rparr>
      else if fname = ''title'' then k\<lparr>kn_Title := s\<rparr>
      else if fname = ''created'' then k\<lparr>kn_Created := s\<rparr>
      else if fname = ''created_by'' then k\<lparr>kn_CreatedBy := s\<rparr>
      else if fname = ''source'' then k\<lparr>kn_Source := s\<rparr>
      else if fname = ''parent'' then k\<lparr>kn_Parent := s\<rparr>
      else if fname = ''owner'' then k\<lparr>kn_Owner := s\<rparr>
      else if fname = ''claimed_by'' then k\<lparr>kn_ClaimedBy := s\<rparr>
      else if fname = ''claimed_at'' then k\<lparr>kn_ClaimedAt := s\<rparr>
      else if fname = ''target'' then k\<lparr>kn_Target := s\<rparr>
      else if fname = ''graduated_into'' then k\<lparr>kn_GraduatedInto := s\<rparr>
      else k)"

definition set_list :: "Knot \<Rightarrow> string \<Rightarrow> string list \<Rightarrow> Knot" where
  "set_list k fname l =
     (if fname = ''blocked_by'' then k\<lparr>kn_BlockedBy := Some l\<rparr>
      else if fname = ''changes'' then k\<lparr>kn_Changes := Some l\<rparr>
      else k)"

definition read :: "Knot \<Rightarrow> string \<Rightarrow> Field \<Rightarrow> string \<Rightarrow> (refusal, Knot) result" where
  "read k path f val =
     (if fl_Kind f = ''list'' then
        (case readList val of
           None \<Rightarrow> refuse RuleCanonical path
         | Some l \<Rightarrow> Inr (set_list k (fl_Name f) l))
      else
        (case readScalar val of
           None \<Rightarrow> refuse RuleCanonical path
         | Some s \<Rightarrow> Inr (set_scalar k (fl_Name f) s)))"

definition cut_line :: "string \<Rightarrow> string \<times> string" where
  "cut_line line =
     (case cut_str line '': '' of Some kv \<Rightarrow> kv | None \<Rightarrow> (trim_suffix line '':'', []))"

fun read_lines ::
  "string \<Rightarrow> string list \<Rightarrow> string list \<Rightarrow> Knot \<Rightarrow> (refusal, Knot) result" where
  "read_lines path [] seen k = Inr k"
| "read_lines path (line # ls) seen k =
     (case cut_line line of (key, val) \<Rightarrow>
        (case FieldNamed key of
           None \<Rightarrow>
             if matches re_keyShape key then refuse RuleFieldOnType path else refuse RuleCanonical path
         | Some f \<Rightarrow>
             if key \<in> set seen then refuse RuleCanonical path
             else rbind (read k path f val) (read_lines path ls (key # seen))))"

definition parseKnot :: "string \<Rightarrow> string \<Rightarrow> string \<Rightarrow> (refusal, Knot) result" where
  "parseKnot path slug data =
     (if MaxKnotSize < length data then refuse RuleLimit path
      else rbind (checkText path data)
        (\<lambda>_. rbind (frontmatter path data)
          (\<lambda>(ls, rest).
             rbind (read_lines path ls [] (no_knot\<lparr>kn_Slug := slug, kn_Body := readBody rest\<rparr>))
               (\<lambda>k. rbind (check k path)
                 (\<lambda>_. if kn_Body k \<noteq> NormalBody (kn_Body k) then refuse RuleCanonical path
                      else if Render k \<noteq> data then refuse RuleCanonical path
                      else Inr k)))))"

section \<open>Comments\<close>

definition render_comment_lines :: "Comment \<Rightarrow> (string \<times> string) list" where
  "render_comment_lines c =
     [(''author'', quote (cm_Author c))] @
     (if cm_Edited c \<noteq> [] then [(''edited'', quote (cm_Edited c))] else []) @
     (if cm_EditedBy c \<noteq> [] then [(''edited_by'', quote (cm_EditedBy c))] else [])"

definition RenderComment :: "Comment \<Rightarrow> string" where
  "RenderComment c = fence @ render_front (render_comment_lines c) @ fence @ [newline] @ cm_Body c"

text \<open>
  The loop over the lines of a comment's frontmatter. A line with no value has the whole line
  for its key and an empty value, as \<^verbatim>\<open>strings.Cut\<close> leaves them.
\<close>

fun read_comment_lines ::
  "string \<Rightarrow> string list \<Rightarrow> string list \<Rightarrow> Comment \<Rightarrow> (refusal, string list \<times> Comment) result" where
  "read_comment_lines path [] seen c = Inr (seen, c)"
| "read_comment_lines path (line # ls) seen c =
     (case (case cut_str line '': '' of Some kv \<Rightarrow> kv | None \<Rightarrow> (line, [])) of (key, val) \<Rightarrow>
        if key \<notin> {''author'', ''edited'', ''edited_by''} then refuse RuleCanonical path
        else if key \<in> set seen then refuse RuleCanonical path
        else
          (case readScalar val of
             None \<Rightarrow> refuse RuleCanonical path
           | Some s \<Rightarrow>
               read_comment_lines path ls (key # seen)
                 (if key = ''author'' then c\<lparr>cm_Author := s\<rparr>
                  else if key = ''edited'' then c\<lparr>cm_Edited := s\<rparr>
                  else c\<lparr>cm_EditedBy := s\<rparr>)))"

definition check_comment :: "string \<Rightarrow> string list \<Rightarrow> Comment \<Rightarrow> (refusal, unit) result" where
  "check_comment path seen c =
     (if ''author'' \<notin> set seen then refuse RuleCanonical path
      else if \<not> IsName (cm_Author c) then refuse RuleFieldShape path
      else if ''edited'' \<in> set seen \<and> \<not> IsTimestamp (cm_Edited c) then refuse RuleFieldShape path
      else if ''edited_by'' \<in> set seen \<and> \<not> IsName (cm_EditedBy c) then refuse RuleFieldShape path
      else if (''edited'' \<in> set seen) \<noteq> (''edited_by'' \<in> set seen) then refuse RuleProvenance path
      else if cm_Body c = [] then refuse RuleRequired path
      else if cm_Body c \<noteq> NormalBody (cm_Body c) then refuse RuleCanonical path
      else Inr ())"

definition parseComment :: "string \<Rightarrow> string \<Rightarrow> (refusal, Comment) result" where
  "parseComment path data =
     (if MaxCommentSize < length data then refuse RuleLimit path
      else rbind (checkText path data)
        (\<lambda>_. rbind (frontmatter path data)
          (\<lambda>(ls, rest).
             rbind (read_comment_lines path ls []
                 \<lparr>cm_Author = [], cm_Body = readBody rest, cm_Edited = [], cm_EditedBy = []\<rparr>)
               (\<lambda>(seen, c). rbind (check_comment path seen c)
                 (\<lambda>_. if RenderComment c \<noteq> data then refuse RuleCanonical path else Inr c)))))"

end
