(* ===== verification/KnotRound.thy ===== *)
theory KnotRound
  imports KnotCanon Codec
begin

text \<open>
  What \<^verbatim>\<open>ParseKnot\<close> makes of what \<^verbatim>\<open>Render\<close> writes, value by value and line by line, and from
  it that the two are inverse on the knots that pass every rule.
\<close>

section \<open>Finding a substring\<close>

lemma index_str_skip:
  "c \<notin> set a \<Longrightarrow> index_str (a @ t) (c # p) = map_option ((+) (length a)) (index_str t (c # p))"
  by (induction a) (auto simp: option.map_comp comp_def map_option_case split: option.splits)

lemma index_str_here: "index_str (p @ t) p = Some 0"
  by (cases p; cases t) auto

lemma cut_str_first: "c \<notin> set a \<Longrightarrow> cut_str (a @ (c # p) @ t) (c # p) = Some (a, t)"
  using index_str_skip [of c a "(c # p) @ t" p] index_str_here [of "c # p" t]
  by (simp add: cut_str_def)

section \<open>The frontmatter's lines\<close>

definition line_of :: "string \<times> string \<Rightarrow> string" where
  "line_of kv = fst kv @ '': '' @ snd kv"

lemma fence_Cons: "fence = CHR ''-'' # ''--'' @ [newline]"
  by (simp add: fence_def)

lemma index_fence:
  assumes "ws \<noteq> []" "\<forall>w \<in> set ws. newline \<notin> set w \<and> w \<noteq> ''---''"
  shows "index_str (join_str [newline] ws @ (newline # fence) @ rest) (newline # fence) =
    Some (length (join_str [newline] ws))"
  using assms
proof (induction ws rule: induct_list012)
  case (2 w)
  then show ?case
    using index_str_skip [of newline w "(newline # fence) @ rest" fence] index_str_here [of "newline # fence" rest]
    by simp
next
  case (3 w v ws)
  let ?t = "join_str [newline] (v # ws) @ (newline # fence) @ rest"
  obtain u where u: "?t = v @ newline # u" by (cases ws) auto
  have "\<not> prefix fence (v @ newline # u)"
  proof
    assume "prefix fence (v @ newline # u)"
    then obtain t where t: "''---'' @ newline # t = v @ newline # u"
      by (auto simp: prefix_def fence_def)
    have "takeWhile (\<lambda>c. c \<noteq> newline) (''---'' @ newline # t) = ''---''" by simp
    moreover have "takeWhile (\<lambda>c. c \<noteq> newline) (v @ newline # u) = v"
      using 3(4) by (intro takeWhile_append_stop) auto
    ultimately have "v = ''---''" using t by metis
    then show False using 3(4) by simp
  qed
  then have "index_str (newline # ?t) (newline # fence) = map_option Suc (index_str ?t (newline # fence))"
    unfolding u by (simp only: index_str.simps Cons_prefix_Cons simp_thms if_False)
  also have "index_str ?t (newline # fence) = Some (length (join_str [newline] (v # ws)))"
    using 3 by simp
  finally have "index_str (newline # ?t) (newline # fence) = Some (Suc (length (join_str [newline] (v # ws))))"
    by simp
  then show ?case
    using index_str_skip [of newline w "newline # ?t" fence] 3(4) by simp
qed simp

lemma render_front_join:
  "ls \<noteq> [] \<Longrightarrow> render_front ls = join_str [newline] (map line_of ls) @ [newline]"
  by (induction ls rule: induct_list012) (auto simp: render_front_def line_of_def)

lemma frontmatter_render:
  assumes "ls \<noteq> []"
    and "\<forall>kv \<in> set ls. newline \<notin> set (fst kv) \<and> newline \<notin> set (snd kv) \<and> fst kv \<noteq> [] \<and> hd (fst kv) \<noteq> CHR ''-''"
  shows "frontmatter path (fence @ render_front ls @ fence @ rest) = Inr (map line_of ls, rest)"
proof -
  have lines: "\<forall>w \<in> set (map line_of ls). newline \<notin> set w \<and> w \<noteq> ''---''"
  proof
    fix w
    assume "w \<in> set (map line_of ls)"
    then obtain kv where kv: "kv \<in> set ls" "w = line_of kv" by auto
    then obtain c cs where "fst kv = c # cs" "c \<noteq> CHR ''-''" using assms(2) by (cases "fst kv") auto
    moreover have "newline \<notin> set (fst kv)" "newline \<notin> set (snd kv)" using assms(2) kv(1) by auto
    ultimately show "newline \<notin> set w \<and> w \<noteq> ''---''" by (simp add: kv(2) line_of_def)
  qed
  let ?j = "join_str [newline] (map line_of ls)"
  have shape: "render_front ls @ fence @ rest = ?j @ (newline # fence) @ rest"
    using render_front_join [OF assms(1)] by simp
  obtain c cs where j: "?j = c # cs" "c \<noteq> CHR ''-''"
  proof -
    obtain kv more where ls: "ls = kv # more" using assms(1) by (cases ls) auto
    then obtain c cs where "fst kv = c # cs" "c \<noteq> CHR ''-''" using assms(2) by (cases "fst kv") auto
    then show thesis using that by (cases more) (simp_all add: ls line_of_def)
  qed
  then have "\<not> prefix fence (?j @ (newline # fence) @ rest)" by (simp add: fence_Cons)
  then have nofence: "cut_prefix (?j @ (newline # fence) @ rest) fence = None"
    by (simp add: cut_prefix_def)
  have at: "index_str (?j @ (newline # fence) @ rest) (newline # fence) = Some (length ?j)"
    using assms(1) lines by (intro index_fence) simp_all
  have split: "split_byte newline ?j = map line_of ls"
    using assms(1) lines by (intro split_join_byte) simp_all
  have "cut_prefix (fence @ render_front ls @ fence @ rest) fence = Some (?j @ (newline # fence) @ rest)"
    by (simp add: shape)
  then show ?thesis
    unfolding frontmatter_def by (simp only: option.case nofence at) (simp add: split)
qed

section \<open>Plain text\<close>

lemma not_plain [simp]:
  "\<not> plain_char quotation" "\<not> plain_char backslash" "\<not> plain_char newline" "\<not> plain_char (CHR '','')"
  "\<not> plain_char (CHR ''['')"
  by (simp_all add: plain_char_def plain_stops_def byte_val_def quotation_def backslash_def)

lemma quotation_not_newline [simp]: "quotation \<noteq> newline" "newline \<noteq> quotation"
  by (simp_all add: char_eq_byte del: byte_val_inj) (simp_all add: byte_val_def)

lemma plain_charD:
  assumes "plain_char c"
  shows "c \<noteq> quotation" "c \<noteq> backslash" "c \<noteq> newline" "c \<noteq> CHR '',''" "c \<noteq> CHR ''[''"
    "byte_val c < 128" "33 \<le> byte_val c"
proof -
  show "c \<noteq> quotation" "c \<noteq> backslash" "c \<noteq> newline" "c \<noteq> CHR '',''" "c \<noteq> CHR ''[''"
    using assms not_plain by blast+
  show "byte_val c < 128" "33 \<le> byte_val c" using assms by (simp_all add: plain_char_def)
qed

lemma plain_Cons [simp]: "plain (c # s) \<longleftrightarrow> plain_char c \<and> plain s" and plain_Nil [simp]: "plain []"
  by (simp_all add: plain_def)

lemma plain_mem: "plain s \<Longrightarrow> c \<in> set s \<Longrightarrow> plain_char c"
  by (simp add: plain_def list_all_iff)

lemma plain_notin:
  "plain s \<Longrightarrow> quotation \<notin> set s" "plain s \<Longrightarrow> backslash \<notin> set s" "plain s \<Longrightarrow> newline \<notin> set s"
  "plain s \<Longrightarrow> CHR '','' \<notin> set s"
  using plain_mem plain_charD by blast+

lemma plain_utf8: "plain s \<Longrightarrow> utf8_valid s"
  using plain_mem plain_charD(6) by (intro utf8_valid_all_ascii) blast

lemma plain_json: "plain s \<Longrightarrow> json_body s = s"
proof (induction s)
  case (Cons c s)
  then have "plain_char c" by simp
  note c = plain_charD [OF this]
  then have "json_ascii c = [c]"
    by (auto simp: json_ascii_def Let_def char_eq_byte simp del: byte_val_inj)
  then show ?case using Cons c by (simp add: json_body_def chunks_ascii json_piece_def)
qed (simp add: json_body_def)

lemma plain_quote: "plain s \<Longrightarrow> quote s = quotation # s @ [quotation]"
  by (simp add: quote_def json_quote_def plain_json)

lemma plain_no_stops: "plain s \<Longrightarrow> \<not> contains_any s token_stops"
proof -
  have "c \<notin> set token_stops" if "plain_char c" for c
    using that by (auto simp: token_stops_def plain_char_def plain_stops_def byte_val_def)
  then show "plain s \<Longrightarrow> ?thesis"
    by (auto simp: contains_any_def list_ex_iff dest: plain_mem)
qed

section \<open>Scalars\<close>

lemma readScalar_quote: "utf8_valid s \<Longrightarrow> readScalar (quote s) = Some s"
proof -
  have "has_prefix (quote s) [quotation]"
    by (simp add: quote_def json_quote_def has_prefix_def)
  then show "utf8_valid s \<Longrightarrow> ?thesis"
    by (simp add: readScalar_def) (simp add: quote_def json_unmarshal_quote)
qed

lemma readScalar_plain: "plain s \<Longrightarrow> s \<noteq> [] \<Longrightarrow> readScalar s = Some s"
  using plain_notin(1) plain_no_stops
  by (cases s) (auto simp: readScalar_def has_prefix_def)

lemma quote_one_line: "newline \<notin> set (quote s)"
  using json_quote_no_newline [of newline s] by (auto simp: quote_def byte_val_def)

section \<open>Lists\<close>

definition item_text :: "string \<Rightarrow> string" where
  "item_text item = (if IsLocalID item then item else quote item)"

lemma renderList_items: "renderList l = ''['' @ join_str '', '' (map item_text (sorted_set l)) @ '']''"
  by (simp add: renderList_def item_text_def [abs_def] sorted_set_def)

lemma ascii_trim:
  assumes "\<forall>c \<in> set s. byte_val c < 128" "s \<noteq> []" "33 \<le> byte_val (hd s)" "33 \<le> byte_val (last s)"
  shows "trim_space s = s"
proof (cases s rule: rev_cases)
  case (snoc t d)
  show ?thesis
  proof (cases t)
    case Nil
    then show ?thesis using assms snoc by (simp add: trim_space_single)
  next
    case (Cons c u)
    then have "s = c # u @ [d]" using snoc by simp
    then show ?thesis
      using assms trim_space_id [of u c d] by (auto intro: utf8_valid_all_ascii)
  qed
qed (use assms in simp)

lemma closing_quote_plain: "plain s \<Longrightarrow> closing_quote (s @ quotation # r) = Some (length s)"
  by (induction s) (auto dest: plain_charD)

lemma read_item_text:
  assumes "plain i" "i \<noteq> []" "t = [] \<or> hd t = CHR '',''"
  shows "read_item (item_text i @ t) = Some (i, t)"
proof (cases "IsLocalID i")
  case True
  have np: "\<not> has_prefix (i @ t) [quotation]"
    using assms plain_notin(1) by (cases i) (auto simp: has_prefix_def)
  have n: "(case index_byte (i @ t) (CHR '','') of None \<Rightarrow> length (i @ t) | Some n \<Rightarrow> n) = length i"
  proof (cases t)
    case Nil
    then have "index_byte (i @ t) (CHR '','') = None" using plain_notin(4) [OF assms(1)] by simp
    then show ?thesis unfolding Nil append_Nil2 by (simp only: option.case)
  next
    case (Cons c cs)
    then show ?thesis using assms index_byte_append [OF plain_notin(4) [OF assms(1)], of cs] by simp
  qed
  have "trim_space i = i"
    using assms plain_mem plain_charD by (intro ascii_trim) auto
  then show ?thesis
    using True assms(2) np n by (simp add: read_item_def item_text_def Let_def)
next
  case False
  have q: "item_text i = quotation # i @ [quotation]"
    using False assms(1) by (simp add: item_text_def plain_quote)
  have "json_unmarshal_string (quotation # i @ [quotation]) = Some i"
    using json_unmarshal_quote [OF plain_utf8 [OF assms(1)]] plain_quote [OF assms(1)]
    by (simp add: quote_def)
  then show ?thesis
    using assms(1) by (simp add: q read_item_def has_prefix_def closing_quote_plain)
qed

lemma item_text_ends:
  assumes "plain i" "i \<noteq> []"
  shows "\<forall>c \<in> set (item_text i). byte_val c < 128" "item_text i \<noteq> []"
    "33 \<le> byte_val (hd (item_text i))" "33 \<le> byte_val (last (item_text i))"
    "newline \<notin> set (item_text i)"
proof -
  have i: "\<forall>c \<in> set i. byte_val c < 128 \<and> 33 \<le> byte_val c" "newline \<notin> set i"
    using plain_mem [OF assms(1)] plain_charD(6,7) plain_notin(3) [OF assms(1)] by blast+
  then show "\<forall>c \<in> set (item_text i). byte_val c < 128" "item_text i \<noteq> []"
    "33 \<le> byte_val (hd (item_text i))" "33 \<le> byte_val (last (item_text i))"
    "newline \<notin> set (item_text i)"
    using assms by (simp_all add: item_text_def plain_quote)
qed

lemma join_items:
  assumes "is \<noteq> []" "\<forall>i \<in> set is. plain i \<and> i \<noteq> []"
  shows "(\<forall>c \<in> set (join_str '', '' (map item_text is)). byte_val c < 128) \<and>
    join_str '', '' (map item_text is) \<noteq> [] \<and> 33 \<le> byte_val (hd (join_str '', '' (map item_text is))) \<and>
    33 \<le> byte_val (last (join_str '', '' (map item_text is)))"
  using assms
proof (induction "is" rule: induct_list012)
  case (3 i j js)
  then show ?case using item_text_ends [of i] by (auto simp: byte_val_def)
qed (use item_text_ends in auto)

lemma read_items_join:
  assumes "\<forall>i \<in> set is. plain i \<and> i \<noteq> []"
  shows "read_items (join_str '', '' (map item_text is)) = Some is"
  using assms
proof (induction "is" rule: induct_list012)
  case 1
  then show ?case by (simp add: read_items.simps)
next
  case (2 i)
  then show ?case
    using read_item_text [of i "[]"] item_text_ends(2) by (simp add: read_items.simps)
next
  case (3 i j js)
  let ?more = "join_str '', '' (map item_text (j # js))"
  let ?t = "CHR '','' # CHR '' '' # ?more"
  have more: "\<forall>c \<in> set ?more. byte_val c < 128" "?more \<noteq> []" "33 \<le> byte_val (hd ?more)"
    "33 \<le> byte_val (last ?more)"
    using join_items [of "j # js"] 3 by auto
  have trim1: "trim_space ?t = ?t"
    using more by (intro ascii_trim) (auto simp: byte_val_def)
  have trim2: "trim_space (CHR '' '' # ?more) = ?more"
    using more by (simp only: trim_space_space) (rule ascii_trim)
  have item: "read_item (item_text i @ ?t) = Some (i, ?t)"
    using 3 by (intro read_item_text) auto
  have "join_str '', '' (map item_text (i # j # js)) = item_text i @ ?t" by simp
  then show ?case
    using 3 item item_text_ends(2) [of i] more(2)
    by (subst read_items.simps) (simp only: trim1 trim2 Let_def option.case prod.case list.sel, simp)
qed

lemma readList_render:
  assumes "\<forall>i \<in> set l. plain i \<and> i \<noteq> []"
  shows "readList (renderList l) = Some (sorted_set l)"
  using assms
  by (simp add: readList_def renderList_items has_prefix_def has_suffix_def suffix_def read_items_join)

lemma renderList_one_line:
  assumes "\<forall>i \<in> set l. plain i \<and> i \<noteq> []"
  shows "newline \<notin> set (renderList l)"
proof -
  have "newline \<notin> set (join_str '', '' ws)" if "\<forall>w \<in> set ws. newline \<notin> set w" for ws
    using that by (induction ws rule: induct_list012) auto
  then show ?thesis using assms item_text_ends(5) by (auto simp: renderList_items)
qed

section \<open>Reading the lines\<close>

text \<open>A line as the reader meets it: its key and what storing its value does.\<close>

type_synonym update = "string \<times> (Knot \<Rightarrow> Knot)"

definition decodes :: "string \<times> string \<Rightarrow> update \<Rightarrow> bool" where
  "decodes kv u \<longleftrightarrow> fst u = fst kv \<and> newline \<notin> set (snd kv) \<and>
     (\<exists>f. FieldNamed (fst kv) = Some f \<and> (\<forall>path x. read x path f (snd kv) = Inr (snd u x)))"

lemma FieldNamed_key:
  assumes "FieldNamed key = Some f"
  shows "CHR '':'' \<notin> set key" "newline \<notin> set key" "key \<noteq> []" "hd key \<noteq> CHR ''-''"
proof -
  have "f \<in> set Fields" "fl_Name f = key"
    using assms by (auto simp: FieldNamed_def find_Some_iff)
  moreover have "\<forall>f \<in> set Fields. CHR '':'' \<notin> set (fl_Name f) \<and> newline \<notin> set (fl_Name f) \<and>
      fl_Name f \<noteq> [] \<and> hd (fl_Name f) \<noteq> CHR ''-''"
    by (simp add: Fields_def field_def)
  ultimately show "CHR '':'' \<notin> set key" "newline \<notin> set key" "key \<noteq> []" "hd key \<noteq> CHR ''-''"
    by auto
qed

lemma cut_line_of:
  "CHR '':'' \<notin> set (fst kv) \<Longrightarrow> cut_line (line_of kv) = kv"
  using cut_str_first [of "CHR '':''" "fst kv" "'' ''" "snd kv"]
  by (simp add: cut_line_def line_of_def)

lemma read_lines_decodes:
  assumes "list_all2 decodes ls us" "distinct (map fst ls)" "set seen \<inter> fst ` set ls = {}"
  shows "read_lines path (map line_of ls) seen x = Inr (foldl (\<lambda>x u. snd u x) x us)"
  using assms
proof (induction ls us arbitrary: seen x rule: list_all2_induct)
  case (Cons kv ls u us)
  then obtain f where f: "FieldNamed (fst kv) = Some f" "\<forall>path x. read x path f (snd kv) = Inr (snd u x)"
    by (auto simp: decodes_def)
  have cut: "cut_line (line_of kv) = (fst kv, snd kv)"
    using cut_line_of [OF FieldNamed_key(1) [OF f(1)]] by simp
  have "read_lines path (map line_of (kv # ls)) seen x = read_lines path (map line_of ls) (fst kv # seen) (snd u x)"
    using Cons.prems f by (simp add: cut case_prod_beta)
  also have "\<dots> = Inr (foldl (\<lambda>x u. snd u x) (snd u x) us)"
    using Cons.prems by (intro Cons.IH) auto
  finally show ?case by simp
qed simp

lemmas FieldNamed_simps = FieldNamed_def Fields_def field_def

definition opt :: "bool \<Rightarrow> 'a \<Rightarrow> 'a list" where
  "opt b x = (if b then [x] else [])"

lemma opt_if: "(if b then [x] else []) = opt b x"
  by (simp add: opt_def)

lemma opt_decodes: "(b \<Longrightarrow> decodes kv u) \<Longrightarrow> list_all2 decodes (opt b kv) (opt b u)"
  by (simp add: opt_def)

definition updates :: "Knot \<Rightarrow> update list" where
  "updates k =
     [(''type'', \<lambda>x. x\<lparr>kn_Type := kn_Type k\<rparr>), (''id'', \<lambda>x. x\<lparr>kn_ID := kn_ID k\<rparr>),
      (''status'', \<lambda>x. x\<lparr>kn_Status := kn_Status k\<rparr>), (''title'', \<lambda>x. x\<lparr>kn_Title := kn_Title k\<rparr>),
      (''created'', \<lambda>x. x\<lparr>kn_Created := kn_Created k\<rparr>), (''created_by'', \<lambda>x. x\<lparr>kn_CreatedBy := kn_CreatedBy k\<rparr>)] @
     opt (kn_Source k \<noteq> []) (''source'', \<lambda>x. x\<lparr>kn_Source := kn_Source k\<rparr>) @
     opt (kn_Parent k \<noteq> []) (''parent'', \<lambda>x. x\<lparr>kn_Parent := kn_Parent k\<rparr>) @
     opt (kn_Owner k \<noteq> []) (''owner'', \<lambda>x. x\<lparr>kn_Owner := kn_Owner k\<rparr>) @
     opt (kn_Type k \<in> set workTypes \<or> elems (kn_BlockedBy k) \<noteq> [])
       (''blocked_by'', \<lambda>x. x\<lparr>kn_BlockedBy := Some (sorted_set (elems (kn_BlockedBy k)))\<rparr>) @
     opt (kn_ClaimedBy k \<noteq> []) (''claimed_by'', \<lambda>x. x\<lparr>kn_ClaimedBy := kn_ClaimedBy k\<rparr>) @
     opt (kn_ClaimedAt k \<noteq> []) (''claimed_at'', \<lambda>x. x\<lparr>kn_ClaimedAt := kn_ClaimedAt k\<rparr>) @
     opt (elems (kn_Changes k) \<noteq> []) (''changes'', \<lambda>x. x\<lparr>kn_Changes := Some (sorted_set (elems (kn_Changes k)))\<rparr>) @
     opt (kn_Target k \<noteq> []) (''target'', \<lambda>x. x\<lparr>kn_Target := kn_Target k\<rparr>) @
     opt (kn_GraduatedInto k \<noteq> []) (''graduated_into'', \<lambda>x. x\<lparr>kn_GraduatedInto := kn_GraduatedInto k\<rparr>)"

text \<open>The knot the lines say: its lists sorted, each entry once, and set where a line is.\<close>

definition normal :: "Knot \<Rightarrow> Knot" where
  "normal k =
     k\<lparr>kn_BlockedBy := (if kn_Type k \<in> set workTypes \<or> elems (kn_BlockedBy k) \<noteq> []
         then Some (sorted_set (elems (kn_BlockedBy k))) else None),
       kn_Changes := (if elems (kn_Changes k) \<noteq> [] then Some (sorted_set (elems (kn_Changes k))) else None)\<rparr>"

lemma foldl_opt:
  "kn_Source x = [] \<Longrightarrow> foldl (\<lambda>x u. snd u x) x (opt (kn_Source k \<noteq> []) (n, \<lambda>x. x\<lparr>kn_Source := kn_Source k\<rparr>)) =
     x\<lparr>kn_Source := kn_Source k\<rparr>"
  "kn_Parent x = [] \<Longrightarrow> foldl (\<lambda>x u. snd u x) x (opt (kn_Parent k \<noteq> []) (n, \<lambda>x. x\<lparr>kn_Parent := kn_Parent k\<rparr>)) =
     x\<lparr>kn_Parent := kn_Parent k\<rparr>"
  "kn_Owner x = [] \<Longrightarrow> foldl (\<lambda>x u. snd u x) x (opt (kn_Owner k \<noteq> []) (n, \<lambda>x. x\<lparr>kn_Owner := kn_Owner k\<rparr>)) =
     x\<lparr>kn_Owner := kn_Owner k\<rparr>"
  "kn_ClaimedBy x = [] \<Longrightarrow> foldl (\<lambda>x u. snd u x) x (opt (kn_ClaimedBy k \<noteq> []) (n, \<lambda>x. x\<lparr>kn_ClaimedBy := kn_ClaimedBy k\<rparr>)) =
     x\<lparr>kn_ClaimedBy := kn_ClaimedBy k\<rparr>"
  "kn_ClaimedAt x = [] \<Longrightarrow> foldl (\<lambda>x u. snd u x) x (opt (kn_ClaimedAt k \<noteq> []) (n, \<lambda>x. x\<lparr>kn_ClaimedAt := kn_ClaimedAt k\<rparr>)) =
     x\<lparr>kn_ClaimedAt := kn_ClaimedAt k\<rparr>"
  "kn_Target x = [] \<Longrightarrow> foldl (\<lambda>x u. snd u x) x (opt (kn_Target k \<noteq> []) (n, \<lambda>x. x\<lparr>kn_Target := kn_Target k\<rparr>)) =
     x\<lparr>kn_Target := kn_Target k\<rparr>"
  "kn_GraduatedInto x = [] \<Longrightarrow> foldl (\<lambda>x u. snd u x) x (opt (kn_GraduatedInto k \<noteq> []) (n, \<lambda>x. x\<lparr>kn_GraduatedInto := kn_GraduatedInto k\<rparr>)) =
     x\<lparr>kn_GraduatedInto := kn_GraduatedInto k\<rparr>"
  "kn_BlockedBy x = None \<Longrightarrow> foldl (\<lambda>x u. snd u x) x (opt b (n, \<lambda>x. x\<lparr>kn_BlockedBy := Some l\<rparr>)) =
     x\<lparr>kn_BlockedBy := (if b then Some l else None)\<rparr>"
  "kn_Changes x = None \<Longrightarrow> foldl (\<lambda>x u. snd u x) x (opt b (n, \<lambda>x. x\<lparr>kn_Changes := Some l\<rparr>)) =
     x\<lparr>kn_Changes := (if b then Some l else None)\<rparr>"
  by (cases x; simp add: opt_def)+

lemma foldl_updates:
  "foldl (\<lambda>x u. snd u x) (no_knot\<lparr>kn_Slug := kn_Slug k, kn_Body := kn_Body k\<rparr>) (updates k) = normal k"
  unfolding updates_def no_knot_def
  by (simp add: foldl_opt del: opt_def) (cases k, simp add: normal_def)

lemma decodes_scalar:
  assumes "FieldNamed key = Some f" "fl_Kind f \<noteq> ''list''" "readScalar val = Some s" "newline \<notin> set val"
    "\<And>x. set_scalar x key s = u x"
  shows "decodes (key, val) (key, u)"
proof -
  have "fl_Name f = key" using assms(1) by (auto simp: FieldNamed_def find_Some_iff)
  then show ?thesis using assms by (simp add: decodes_def read_def)
qed

lemma decodes_list:
  assumes "FieldNamed key = Some f" "fl_Kind f = ''list''" "\<forall>i \<in> set l. plain i \<and> i \<noteq> []"
    "\<And>x. set_list x key (sorted_set l) = u x"
  shows "decodes (key, renderList l) (key, u)"
proof -
  have "fl_Name f = key" using assms(1) by (auto simp: FieldNamed_def find_Some_iff)
  then show ?thesis
    using assms by (simp add: decodes_def read_def readList_render renderList_one_line)
qed

lemma field_kind:
  "key \<in> {''type'', ''id'', ''status'', ''title'', ''created'', ''created_by'', ''source'', ''parent'', ''owner'',
     ''claimed_by'', ''claimed_at'', ''target'', ''graduated_into''} \<Longrightarrow>
   \<exists>f. FieldNamed key = Some f \<and> fl_Kind f \<noteq> ''list''"
  "key \<in> {''blocked_by'', ''changes''} \<Longrightarrow> \<exists>f. FieldNamed key = Some f \<and> fl_Kind f = ''list''"
  by (elim insertE emptyE; simp add: FieldNamed_simps)+

abbreviation scalar_keys :: "string set" where
  "scalar_keys \<equiv> {''type'', ''id'', ''status'', ''title'', ''created'', ''created_by'', ''source'', ''parent'',
     ''owner'', ''claimed_by'', ''claimed_at'', ''target'', ''graduated_into''}"

lemma decodes_quote:
  "key \<in> scalar_keys \<Longrightarrow> utf8_valid s \<Longrightarrow> (\<And>x. set_scalar x key s = u x) \<Longrightarrow>
   decodes (key, quote s) (key, u)"
  using field_kind(1) [of key] readScalar_quote quote_one_line decodes_scalar by metis

lemma decodes_plain:
  "key \<in> scalar_keys \<Longrightarrow> plain s \<Longrightarrow> s \<noteq> [] \<Longrightarrow> (\<And>x. set_scalar x key s = u x) \<Longrightarrow>
   decodes (key, s) (key, u)"
  using field_kind(1) [of key] readScalar_plain plain_notin(3) decodes_scalar by metis

lemma decodes_items:
  "key \<in> {''blocked_by'', ''changes''} \<Longrightarrow> \<forall>i \<in> set l. plain i \<and> i \<noteq> [] \<Longrightarrow>
   (\<And>x. set_list x key (sorted_set l) = u x) \<Longrightarrow> decodes (key, renderList l) (key, u)"
  using field_kind(2) [of key] decodes_list by metis

lemma type_plain:
  "t \<in> set Types \<Longrightarrow> plain (ty_Name t) \<and> ty_Name t \<noteq> [] \<and> (\<forall>s \<in> set (Statuses t). plain s \<and> s \<noteq> [])"
proof -
  have "\<forall>t \<in> set Types. plain (ty_Name t) \<and> ty_Name t \<noteq> [] \<and> (\<forall>s \<in> set (Statuses t). plain s \<and> s \<noteq> [])"
    by (simp add: Types_def Statuses_def plain_char_def plain_stops_def byte_val_def)
  then show "t \<in> set Types \<Longrightarrow> ?thesis" by blast
qed

lemma set_scalar_simps:
  "set_scalar x ''type'' s = x\<lparr>kn_Type := s\<rparr>" "set_scalar x ''id'' s = x\<lparr>kn_ID := s\<rparr>"
  "set_scalar x ''status'' s = x\<lparr>kn_Status := s\<rparr>" "set_scalar x ''title'' s = x\<lparr>kn_Title := s\<rparr>"
  "set_scalar x ''created'' s = x\<lparr>kn_Created := s\<rparr>" "set_scalar x ''created_by'' s = x\<lparr>kn_CreatedBy := s\<rparr>"
  "set_scalar x ''source'' s = x\<lparr>kn_Source := s\<rparr>" "set_scalar x ''parent'' s = x\<lparr>kn_Parent := s\<rparr>"
  "set_scalar x ''owner'' s = x\<lparr>kn_Owner := s\<rparr>" "set_scalar x ''claimed_by'' s = x\<lparr>kn_ClaimedBy := s\<rparr>"
  "set_scalar x ''claimed_at'' s = x\<lparr>kn_ClaimedAt := s\<rparr>" "set_scalar x ''target'' s = x\<lparr>kn_Target := s\<rparr>"
  "set_scalar x ''graduated_into'' s = x\<lparr>kn_GraduatedInto := s\<rparr>"
  "set_list x ''blocked_by'' l = x\<lparr>kn_BlockedBy := Some l\<rparr>"
  "set_list x ''changes'' l = x\<lparr>kn_Changes := Some l\<rparr>"
  by (simp_all add: set_scalar_def set_list_def)

lemma knot_ok_plain:
  assumes "knot_ok k"
  shows "plain (kn_Type k)" "kn_Type k \<noteq> []" "plain (kn_ID k)" "kn_ID k \<noteq> []"
    "plain (kn_Status k)" "kn_Status k \<noteq> []" "plain (kn_Created k)" "kn_Created k \<noteq> []"
    "plain (kn_CreatedBy k)" "plain (kn_Parent k)" "plain (kn_Owner k)" "plain (kn_ClaimedBy k)"
    "plain (kn_ClaimedAt k)" "plain (kn_Target k)" "plain (kn_GraduatedInto k)"
    "utf8_valid (kn_Title k)" "utf8_valid (kn_Source k)"
    "\<forall>i \<in> set (elems (kn_BlockedBy k)). plain i \<and> i \<noteq> []"
    "\<forall>i \<in> set (elems (kn_Changes k)). plain i \<and> i \<noteq> []"
proof -
  from assms obtain t where t: "type_ok t k" and sh: "shapes_ok k" and live: "live_ok k"
    by (auto simp: knot_ok_def)
  have ty: "t \<in> set Types" "ty_Name t = kn_Type k"
    using t TypeNamed_mem by (auto simp: type_ok_def)
  show "plain (kn_Type k)" "kn_Type k \<noteq> []" using type_plain [OF ty(1)] ty(2) by simp_all
  show "plain (kn_Status k)" "kn_Status k \<noteq> []"
    using type_plain [OF ty(1)] t by (simp_all add: type_ok_def)
  show "plain (kn_ID k)" using t plain_matches(1) by (simp add: type_ok_def IsLocalID_def)
  show "kn_ID k \<noteq> []" using t matches_nonempty by (auto simp: type_ok_def)
  show "plain (kn_Created k)" using t plain_matches(4) by (simp add: type_ok_def)
  show "kn_Created k \<noteq> []" using t matches_nonempty by (auto simp: type_ok_def)
  note pm = plain_matches
  show "plain (kn_CreatedBy k)" "plain (kn_Parent k)" "plain (kn_Owner k)" "plain (kn_ClaimedBy k)"
    "plain (kn_ClaimedAt k)" "plain (kn_Target k)" "plain (kn_GraduatedInto k)"
  proof -
    have name: "n = [] \<or> IsName n \<Longrightarrow> plain n" and local: "n = [] \<or> IsLocalID n \<and> P \<Longrightarrow> plain n"
      and time: "IsTimestamp n \<Longrightarrow> plain n" for n P
      using pm by (auto simp: IsName_def IsLocalID_def IsTimestamp_def)
    show "plain (kn_CreatedBy k)" "plain (kn_Owner k)" "plain (kn_Parent k)" "plain (kn_GraduatedInto k)"
      using sh unfolding shapes_ok_def by (blast intro: name local)+
    have "kn_ClaimedBy k = [] \<and> kn_ClaimedAt k = [] \<or> IsName (kn_ClaimedBy k) \<and> IsTimestamp (kn_ClaimedAt k)"
      using sh unfolding shapes_ok_def by blast
    then show "plain (kn_ClaimedBy k)" "plain (kn_ClaimedAt k)" using name time by auto
    have "kn_Target k = [] \<or> matches re_name (kn_Target k) \<or> matches re_qualifiedID (kn_Target k)"
      using sh unfolding shapes_ok_def by blast
    then show "plain (kn_Target k)" using pm by auto
  qed
  show "utf8_valid (kn_Title k)" "utf8_valid (kn_Source k)"
    using live by (simp_all add: live_ok_def text_ok_def)
  show "\<forall>i \<in> set (elems (kn_BlockedBy k)). plain i \<and> i \<noteq> []"
  proof -
    have "list_all ref_ok (elems (kn_BlockedBy k))" using sh unfolding shapes_ok_def by blast
    moreover have "ref_ok i \<Longrightarrow> plain i \<and> i \<noteq> []" for i
      using pm(1,3) [of i] matches_nonempty(2,3) by (auto simp: ref_ok_def IsLocalID_def)
    ultimately show ?thesis by (simp add: list_all_iff)
  qed
  have nolink: "\<not> IsChangeLink []"
    by (simp add: IsChangeLink_def re_valleyChange_def re_githubPR_def)
  show "\<forall>i \<in> set (elems (kn_Changes k)). plain i \<and> i \<noteq> []"
  proof -
    have "list_all link_ok (elems (kn_Changes k))" using sh unfolding shapes_ok_def by blast
    moreover have "link_ok i \<Longrightarrow> plain i \<and> i \<noteq> []" for i
      using pm(6,7) [of i] nolink by (auto simp: link_ok_def IsChangeLink_def)
    ultimately show ?thesis by (simp add: list_all_iff)
  qed
qed

lemma decodes_updates:
  assumes "knot_ok k"
  shows "list_all2 decodes (render_lines k) (updates k)"
  unfolding render_lines_def updates_def opt_if
  apply (intro list_all2_appendI opt_decodes list.rel_intros)
  apply ((rule decodes_quote decodes_items | rule decodes_plain);
      simp add: knot_ok_plain [OF assms] plain_utf8 set_scalar_simps)+
  done


lemma subseq_distinct_keys: "subseq xs ys \<Longrightarrow> distinct ys \<Longrightarrow> distinct xs"
  by (induction rule: list_emb.induct) (auto dest: list_emb_set)

lemma render_keys: "distinct (map fst (render_lines k))"
proof -
  have opt: "subseq (map fst (opt b kv)) [fst kv]" for b and kv :: "string \<times> string"
    by (simp add: opt_def)
  have "subseq (map fst (render_lines k))
    ([''type'', ''id'', ''status'', ''title'', ''created'', ''created_by''] @ [''source''] @ [''parent''] @ [''owner''] @
     [''blocked_by''] @ [''claimed_by''] @ [''claimed_at''] @ [''changes''] @ [''target''] @ [''graduated_into''])"
    unfolding render_lines_def opt_if map_append
    by (intro list_emb_append_mono) (simp_all add: opt_def)
  then show ?thesis by (rule subseq_distinct_keys) simp
qed

lemma read_render:
  assumes "knot_ok k"
  shows "\<exists>ls rest. frontmatter path (Render k) = Inr (ls, rest) \<and>
    read_lines path ls [] (no_knot\<lparr>kn_Slug := kn_Slug k, kn_Body := readBody rest\<rparr>) = Inr (normal k)"
proof (intro exI conjI)
  let ?rest = "if kn_Body k \<noteq> [] then newline # kn_Body k else []"
  note dec = decodes_updates [OF assms]
  have "\<forall>kv \<in> set (render_lines k). newline \<notin> set (fst kv) \<and> newline \<notin> set (snd kv) \<and>
      fst kv \<noteq> [] \<and> hd (fst kv) \<noteq> CHR ''-''"
  proof
    fix kv
    assume "kv \<in> set (render_lines k)"
    then obtain u where "decodes kv u" using dec by (metis in_set_conv_nth list_all2_conv_all_nth)
    then show "newline \<notin> set (fst kv) \<and> newline \<notin> set (snd kv) \<and> fst kv \<noteq> [] \<and> hd (fst kv) \<noteq> CHR ''-''"
      using FieldNamed_key [of "fst kv"] unfolding decodes_def by blast
  qed
  then show "frontmatter path (Render k) = Inr (map line_of (render_lines k), ?rest)"
    unfolding Render_def by (intro frontmatter_render) (simp add: render_lines_def)
  have "readBody ?rest = kn_Body k" by (simp add: readBody_def trim_prefix_def)
  then show "read_lines path (map line_of (render_lines k)) []
      (no_knot\<lparr>kn_Slug := kn_Slug k, kn_Body := readBody ?rest\<rparr>) = Inr (normal k)"
    using read_lines_decodes [OF dec render_keys, of "[]" path] foldl_updates by simp
qed

section \<open>The codec\<close>

definition valid_knot :: "string \<Rightarrow> Knot \<Rightarrow> bool" where
  "valid_knot slug k \<longleftrightarrow>
     kn_Slug k = slug \<and> knot_ok k \<and> normal k = k \<and> NormalBody (kn_Body k) = kn_Body k \<and>
     text_ok (Render k) \<and> length (Render k) \<le> MaxKnotSize"

lemma parseKnot_steps:
  "parseKnot path slug data = Inr k \<longleftrightarrow>
     length data \<le> MaxKnotSize \<and> text_ok data \<and>
     (\<exists>ls rest. frontmatter path data = Inr (ls, rest) \<and>
        read_lines path ls [] (no_knot\<lparr>kn_Slug := slug, kn_Body := readBody rest\<rparr>) = Inr k) \<and>
     knot_ok k \<and> NormalBody (kn_Body k) = kn_Body k \<and> Render k = data"
proof -
  have ex_pair: "(\<exists>p. P p) \<longleftrightarrow> (\<exists>a b. P (a, b))" for P :: "'x \<times> 'y \<Rightarrow> bool" by auto
  show ?thesis
    unfolding parseKnot_def check_if rbind_unit_eq_Inr rbind_eq_Inr checkText_ok ex_pair prod.case check_ok
    by (auto simp: not_less)
qed

lemma read_lines_slug:
  "read_lines path ls seen x = Inr k \<Longrightarrow> kn_Slug k = kn_Slug x"
proof (induction path ls seen x rule: read_lines.induct)
  case (2 path line ls seen x)
  have slug: "read x path f val = Inr y \<Longrightarrow> kn_Slug y = kn_Slug x" for f val y
    by (auto simp: read_def set_list_def set_scalar_def split: if_splits option.splits)
  show ?case
    using 2 slug by (auto simp: rbind_eq_Inr split: prod.splits option.splits if_splits)
qed simp

lemma parseKnot_exact: "parseKnot path slug data = Inr k \<Longrightarrow> Render k = data"
  by (simp add: parseKnot_steps)

lemma parseKnot_valid:
  assumes "parseKnot path slug data = Inr k"
  shows "valid_knot slug k"
proof -
  from assms have k: "length data \<le> MaxKnotSize" "text_ok data" "knot_ok k"
    "NormalBody (kn_Body k) = kn_Body k" "Render k = data" and
    ex: "\<exists>ls rest. frontmatter path data = Inr (ls, rest) \<and>
      read_lines path ls [] (no_knot\<lparr>kn_Slug := slug, kn_Body := readBody rest\<rparr>) = Inr k"
    by (simp_all add: parseKnot_steps)
  then have slug: "kn_Slug k = slug" by (auto dest: read_lines_slug)
  then have "normal k = k"
    using ex read_render [OF k(3), of path] k(5) by auto
  then show ?thesis using k slug by (simp add: valid_knot_def)
qed

lemma parseKnot_render:
  assumes "valid_knot slug k"
  shows "parseKnot path slug (Render k) = Inr k"
  using assms read_render [of k path] by (auto simp: valid_knot_def parseKnot_steps)

text \<open>The contract of a strict codec holds of the knot's reader and writer, whatever the path.\<close>

interpretation kc: strict_codec Render "parseKnot path slug" "valid_knot slug" for path slug
  by unfold_locales (auto dest: parseKnot_exact parseKnot_valid parseKnot_render)

text \<open>
  C13: a file is read as a knot exactly when it is the canonical form of a knot that passes
  every rule about one knot: the knot holds valid fields for its type, its lists are sorted
  without repeats and written where its type has them, its body is normal and the whole is
  clean text within the limit. So there is one way to write each knot, what is read is written
  back byte for byte, and every valid knot can be written and read back unchanged.
\<close>

theorem parseKnot_iff: "parseKnot path slug data = Inr k \<longleftrightarrow> valid_knot slug k \<and> Render k = data"
  by (rule kc.accepted_iff)

end
