(* ===== verification/GoTime.thy ===== *)
theory GoTime
  imports GoBytes
begin

text \<open>
  What the code uses of Go's \<^verbatim>\<open>time\<close>: which fixed-width texts \<^verbatim>\<open>time.Parse\<close> takes for a date
  and a time of day, and the seconds since the epoch such a text names.
\<close>

definition leap :: "nat \<Rightarrow> bool" where
  "leap y \<longleftrightarrow> y mod 4 = 0 \<and> (y mod 100 \<noteq> 0 \<or> y mod 400 = 0)"

definition days_in :: "nat \<Rightarrow> nat \<Rightarrow> nat" where
  "days_in y m = (if m = 2 then if leap y then 29 else 28 else if m \<in> {4, 6, 9, 11} then 30 else 31)"

definition valid_date :: "nat \<Rightarrow> nat \<Rightarrow> nat \<Rightarrow> bool" where
  "valid_date y m d \<longleftrightarrow> 1 \<le> m \<and> m \<le> 12 \<and> 1 \<le> d \<and> d \<le> days_in y m"

definition valid_clock :: "nat \<Rightarrow> nat \<Rightarrow> nat \<Rightarrow> bool" where
  "valid_clock h m s \<longleftrightarrow> h < 24 \<and> m < 60 \<and> s < 60"

text \<open>The number of days before a date, counted from the first of January of the year 0.\<close>

definition days_before_year :: "nat \<Rightarrow> nat" where
  "days_before_year y = 365 * y + (y + 3) div 4 - (y + 99) div 100 + (y + 399) div 400"

definition day_number :: "nat \<Rightarrow> nat \<Rightarrow> nat \<Rightarrow> nat" where
  "day_number y m d = days_before_year y + sum_list (map (days_in y) [1..<m]) + (d - 1)"

text \<open>The seconds since the first of January 1970, UTC.\<close>

definition epoch_days :: nat where
  "epoch_days = 719528"

definition unix_time :: "nat \<Rightarrow> nat \<Rightarrow> nat \<Rightarrow> nat \<Rightarrow> nat \<Rightarrow> nat \<Rightarrow> int" where
  "unix_time y mo d h mi s =
     (int (day_number y mo d) - int epoch_days) * 86400 + int (h * 3600 + mi * 60 + s)"

text \<open>A field of a fixed-width text: the number its digits from one place on write.\<close>

definition digits_at :: "string \<Rightarrow> nat \<Rightarrow> nat \<Rightarrow> nat" where
  "digits_at s i n = decimal (take n (drop i s))"

lemma epoch_days_day_number: "day_number 1970 1 1 = epoch_days"
  by (simp add: day_number_def days_before_year_def epoch_days_def)

end
