(* ===== verification/KnotLayout.thy ===== *)
theory KnotLayout
  imports KnotModel GoTime
begin

text \<open>
  The first half of \<^verbatim>\<open>knot/graph.go\<close>: a graph's tree listing and its index. \<open>Layout\<close> is
  the loop over the listing as the code has it, with its maps and its order of refusals;
  \<open>layout_valid\<close> and \<open>index_of\<close> say what it accepts and what it returns.
\<close>

section \<open>Entries, files and the index\<close>

record Entry =
  en_Path :: string
  en_Mode :: string
  en_OID :: string

record File =
  fi_Path :: string
  fi_OID :: string
  fi_ID :: string
  fi_Type :: string
  fi_Slug :: string
  fi_Stamp :: string
  fi_Op :: string

definition no_file :: File where
  "no_file = \<lparr>fi_Path = [], fi_OID = [], fi_ID = [], fi_Type = [], fi_Slug = [], fi_Stamp = [], fi_Op = []\<rparr>"

text \<open>A map the code ranges over or counts is an association list.\<close>

record Index =
  ix_Knots :: "(string \<times> File) list"
  ix_Comments :: "(string \<times> File) list"
  ix_Files :: "(string \<times> string) list"
  ix_knotAt :: "(string \<times> string) list"

definition empty_index :: Index where
  "empty_index = \<lparr>ix_Knots = [], ix_Comments = [], ix_Files = [], ix_knotAt = []\<rparr>"

definition CommentID :: "File \<Rightarrow> string" where
  "CommentID f = fi_Stamp f @ ''-'' @ fi_Op f"

section \<open>Names\<close>

abbreviation slash :: char where "slash \<equiv> CHR ''/''"

text \<open>\<^verbatim>\<open>path.Split\<close>, with the directory's closing slash trimmed.\<close>

definition split_dir :: "string \<Rightarrow> string \<times> string" where
  "split_dir p =
     (case last_index_str p [slash] of
        None \<Rightarrow> ([], p)
      | Some i \<Rightarrow> (trim_suffix (take (i + 1) p) [slash], drop (i + 1) p))"

text \<open>
  The submatches of the two filename patterns. No prefix holds a hyphen and the other parts
  have fixed widths, so each submatch is at a place its pattern fixes.
\<close>

definition knotFile :: "string \<Rightarrow> (string \<times> string \<times> string) option" where
  "knotFile base =
     (if matches re_knotFile base then
        (let pre = takeWhile (\<lambda>c. c \<noteq> CHR ''-'') base; n = length pre + 8 in
         Some (take n base, pre, take (length base - (n + 4)) (drop (n + 1) base)))
      else None)"

definition commentFile :: "string \<Rightarrow> (string \<times> string) option" where
  "commentFile base =
     (if matches re_commentFile base then Some (take 16 base, take 16 (drop 17 base)) else None)"

text \<open>\<^verbatim>\<open>time.Parse(CommentStamp, s)\<close> of a text the pattern has matched.\<close>

definition stamp_time :: "string \<Rightarrow> bool" where
  "stamp_time s \<longleftrightarrow>
     valid_date (digits_at s 0 4) (digits_at s 4 2) (digits_at s 6 2) \<and>
     valid_clock (digits_at s 9 2) (digits_at s 11 2) (digits_at s 13 2)"

definition layoutDir :: "string list \<Rightarrow> (refusal, unit) result" where
  "layoutDir parts =
     (let p = join_str [slash] parts in
      if length parts = 1 then
        (if typeOfDirectory (parts ! 0) \<noteq> None \<or> parts ! 0 = CommentsDirectory then Inr ()
         else refuse RuleLayout p)
      else if length parts = 2 then
        (if parts ! 0 = CommentsDirectory \<and> IsLocalID (parts ! 1) then Inr ()
         else if parts ! 0 = CommentsDirectory then refuse RuleLayout p
         else refuse RuleLayout p)
      else refuse RuleLayout p)"

definition layoutFile :: "string list \<Rightarrow> string \<Rightarrow> (refusal, File) result" where
  "layoutFile parts base =
     (let p = join_str [slash] parts in
      if length parts = 2 \<and> parts ! 0 \<noteq> CommentsDirectory then
        (case typeOfDirectory (parts ! 0) of
           None \<Rightarrow> refuse RuleLayout p
         | Some t \<Rightarrow>
             (case knotFile base of
                None \<Rightarrow> refuse RuleLayout p
              | Some (ident, pre, slug) \<Rightarrow>
                  if \<not> matches re_slug slug \<or> MaxSlug < length slug then refuse RuleLayout p
                  else if (case typeOfPrefix pre of None \<Rightarrow> [] | Some pt \<Rightarrow> ty_Name pt) \<noteq> ty_Name t
                  then refuse RuleDirectory p
                  else Inr (no_file\<lparr>fi_ID := ident, fi_Type := ty_Name t, fi_Slug := slug\<rparr>)))
      else if length parts = 3 \<and> parts ! 0 = CommentsDirectory then
        (case commentFile base of
           None \<Rightarrow> refuse RuleLayout p
         | Some (stamp, op) \<Rightarrow>
             if \<not> stamp_time stamp then refuse RuleLayout p
             else Inr (no_file\<lparr>fi_ID := parts ! 1, fi_Stamp := stamp, fi_Op := op\<rparr>))
      else refuse RuleLayout p)"

section \<open>Reading the listing\<close>

record reading =
  rd_index :: Index
  rd_seen :: "string \<Rightarrow> bool"
  rd_children :: "string \<Rightarrow> nat"
  rd_isDir :: "string \<Rightarrow> bool"
  rd_dirs :: "string list"

definition reading_start :: reading where
  "reading_start = \<lparr>rd_index = empty_index, rd_seen = (\<lambda>_. False), rd_children = (\<lambda>_. 0),
     rd_isDir = (\<lambda>_. False), rd_dirs = []\<rparr>"

definition layout_file_entry :: "reading \<Rightarrow> Entry \<Rightarrow> File \<Rightarrow> (refusal, reading) result" where
  "layout_file_entry st e f0 =
     (let idx = rd_index st; f = f0\<lparr>fi_Path := en_Path e, fi_OID := en_OID e\<rparr>;
          idx1 = idx\<lparr>ix_Files := AList.update (en_Path e) (en_OID e) (ix_Files idx)\<rparr> in
      if fi_Stamp f = [] then
        (if map_of (ix_Knots idx1) (fi_ID f) \<noteq> None then refuse RuleUniqueID (en_Path e)
         else Inr (st\<lparr>rd_index := idx1\<lparr>ix_Knots := AList.update (fi_ID f) f (ix_Knots idx1),
                ix_knotAt := AList.update (en_Path e) (fi_ID f) (ix_knotAt idx1)\<rparr>\<rparr>))
      else Inr (st\<lparr>rd_index := idx1\<lparr>ix_Comments := AList.update (en_Path e) f (ix_Comments idx1)\<rparr>\<rparr>))"

definition layout_entry :: "reading \<Rightarrow> Entry \<Rightarrow> (refusal, reading) result" where
  "layout_entry st e =
     (if rd_seen st (en_Path e) then refuse RuleLayout (en_Path e)
      else
        (let st = st\<lparr>rd_seen := (rd_seen st)(en_Path e := True)\<rparr>;
             (dir, base) = split_dir (en_Path e);
             st = st\<lparr>rd_children := (rd_children st)(dir := rd_children st dir + 1)\<rparr>;
             parts = split_byte slash (en_Path e) in
         if en_Mode e = ''40000'' then
           rbind (layoutDir parts)
             (\<lambda>_. Inr (st\<lparr>rd_dirs := rd_dirs st @ [en_Path e], rd_isDir := (rd_isDir st)(en_Path e := True)\<rparr>))
         else if en_Mode e \<noteq> ''100644'' then refuse RuleLayout (en_Path e)
         else rbind (layoutFile parts base) (layout_file_entry st e)))"

fun layout_loop :: "reading \<Rightarrow> Entry list \<Rightarrow> (refusal, reading) result" where
  "layout_loop st [] = Inr st"
| "layout_loop st (e # es) = rbind (layout_entry st e) (\<lambda>st'. layout_loop st' es)"

definition check_listed :: "(string \<Rightarrow> bool) \<Rightarrow> Entry \<Rightarrow> (refusal, unit) result" where
  "check_listed isDir e =
     (let parts = split_byte slash (en_Path e) in
      check_all (\<lambda>i. if \<not> isDir (join_str [slash] (take i parts)) then refuse RuleLayout (en_Path e) else Inr ())
        [1..<length parts])"

definition Layout :: "Entry list \<Rightarrow> (refusal, Index) result" where
  "Layout es =
     rbind (layout_loop reading_start es)
       (\<lambda>st.
          rbind (check_all (\<lambda>d. if rd_children st d = 0 then refuse RuleLayout d else Inr ()) (rd_dirs st))
            (\<lambda>_. rbind (check_all (check_listed (rd_isDir st)) es)
              (\<lambda>_. if MaxKnots < length (ix_Knots (rd_index st)) then refuse RuleLimit []
                   else if MaxComments < length (ix_Comments (rd_index st)) then refuse RuleLimit []
                   else Inr (rd_index st))))"

section \<open>What a listing's layout is\<close>

definition is_dir :: "Entry \<Rightarrow> bool" where
  "is_dir e \<longleftrightarrow> en_Mode e = ''40000''"

text \<open>The file a path names, whatever its object: its ID, type and slug, or its stamp.\<close>

definition named_file :: "string \<Rightarrow> (refusal, File) result" where
  "named_file p = layoutFile (split_byte slash p) (snd (split_dir p))"

definition entry_ok :: "Entry \<Rightarrow> bool" where
  "entry_ok e \<longleftrightarrow>
     (if is_dir e then layoutDir (split_byte slash (en_Path e)) = Inr ()
      else en_Mode e = ''100644'' \<and> (case named_file (en_Path e) of Inl _ \<Rightarrow> False | Inr _ \<Rightarrow> True))"

definition entry_file :: "Entry \<Rightarrow> File" where
  "entry_file e =
     (case named_file (en_Path e) of Inl _ \<Rightarrow> no_file | Inr f \<Rightarrow> f\<lparr>fi_Path := en_Path e, fi_OID := en_OID e\<rparr>)"

definition files :: "Entry list \<Rightarrow> File list" where
  "files es = map entry_file (filter (\<lambda>e. \<not> is_dir e) es)"

definition is_knot :: "File \<Rightarrow> bool" where
  "is_knot f \<longleftrightarrow> fi_Stamp f = []"

definition index_of :: "Entry list \<Rightarrow> Index" where
  "index_of es =
     \<lparr>ix_Knots = map (\<lambda>f. (fi_ID f, f)) (filter is_knot (files es)),
      ix_Comments = map (\<lambda>f. (fi_Path f, f)) (filter (\<lambda>f. \<not> is_knot f) (files es)),
      ix_Files = map (\<lambda>f. (fi_Path f, fi_OID f)) (files es),
      ix_knotAt = map (\<lambda>f. (fi_Path f, fi_ID f)) (filter is_knot (files es))\<rparr>"

definition entries_ok :: "Entry list \<Rightarrow> bool" where
  "entries_ok es \<longleftrightarrow> distinct (map en_Path es) \<and> list_all entry_ok es \<and>
     distinct (map fi_ID (filter is_knot (files es)))"

definition dir_paths :: "Entry list \<Rightarrow> string list" where
  "dir_paths es = map en_Path (filter is_dir es)"

definition layout_valid :: "Entry list \<Rightarrow> bool" where
  "layout_valid es \<longleftrightarrow> entries_ok es \<and>
     list_all (\<lambda>d. list_ex (\<lambda>e. fst (split_dir (en_Path e)) = d) es) (dir_paths es) \<and>
     list_all (\<lambda>e. let parts = split_byte slash (en_Path e) in
       list_all (\<lambda>i. join_str [slash] (take i parts) \<in> set (dir_paths es)) [1..<length parts]) es \<and>
     length (filter is_knot (files es)) \<le> MaxKnots \<and>
     length (filter (\<lambda>f. \<not> is_knot f) (files es)) \<le> MaxComments"

definition reading_of :: "Entry list \<Rightarrow> reading" where
  "reading_of es =
     \<lparr>rd_index = index_of es,
      rd_seen = (\<lambda>p. p \<in> set (map en_Path es)),
      rd_children = (\<lambda>d. length (filter (\<lambda>e. fst (split_dir (en_Path e)) = d) es)),
      rd_isDir = (\<lambda>p. p \<in> set (dir_paths es)),
      rd_dirs = dir_paths es\<rparr>"

lemma update_fresh: "map_of m k = None \<Longrightarrow> AList.update k v m = m @ [(k, v)]"
  by (induction m) (auto split: if_splits)

lemma named_file_no_place: "named_file p = Inr f \<Longrightarrow> fi_Path f = [] \<and> fi_OID f = []"
  by (auto simp: named_file_def layoutFile_def Let_def no_file_def split: if_splits option.splits)

lemma entry_file_simps [simp]:
  assumes "named_file (en_Path e) = Inr f"
  shows "fi_Path (entry_file e) = en_Path e" "fi_OID (entry_file e) = en_OID e" "fi_ID (entry_file e) = fi_ID f"
    "fi_Type (entry_file e) = fi_Type f" "fi_Slug (entry_file e) = fi_Slug f" "fi_Stamp (entry_file e) = fi_Stamp f"
    "fi_Op (entry_file e) = fi_Op f"
  using assms by (simp_all add: entry_file_def)

lemma entry_ok_file: "entry_ok e \<Longrightarrow> \<not> is_dir e \<Longrightarrow> \<exists>f. named_file (en_Path e) = Inr f"
  by (auto simp: entry_ok_def split: sum.splits)

lemma files_snoc: "files (es @ [e]) = files es @ (if is_dir e then [] else [entry_file e])"
  by (simp add: files_def)

lemma dir_paths_snoc: "dir_paths (es @ [e]) = dir_paths es @ (if is_dir e then [en_Path e] else [])"
  by (simp add: dir_paths_def)

lemma files_paths: "entries_ok es \<Longrightarrow> f \<in> set (files es) \<Longrightarrow> fi_Path f \<in> set (map en_Path es)"
  by (auto simp: files_def entries_ok_def list_all_iff dest!: entry_ok_file)

lemma fresh_index:
  assumes "entries_ok es" "p \<notin> set (map en_Path es)"
  shows "map_of (ix_Files (index_of es)) p = None" "map_of (ix_Comments (index_of es)) p = None"
    "map_of (ix_knotAt (index_of es)) p = None"
  using assms files_paths [OF assms(1)] by (force simp: index_of_def map_of_eq_None_iff)+

lemma knots_None: "map_of (ix_Knots (index_of es)) i = None \<longleftrightarrow> i \<notin> set (map fi_ID (filter is_knot (files es)))"
  by (force simp: index_of_def map_of_eq_None_iff)

lemma entries_ok_snoc:
  "entries_ok (es @ [e]) \<longleftrightarrow> entries_ok es \<and> en_Path e \<notin> set (map en_Path es) \<and> entry_ok e \<and>
     (is_dir e \<or> \<not> is_knot (entry_file e) \<or> map_of (ix_Knots (index_of es)) (fi_ID (entry_file e)) = None)"
  unfolding knots_None by (auto simp: entries_ok_def files_snoc intro: rev_image_eqI)

lemma layout_file_entry_step:
  assumes es: "entries_ok es" "en_Path e \<notin> set (map en_Path es)" and e: "\<not> is_dir e" "entry_ok e"
    and f: "named_file (en_Path e) = Inr f" and st: "rd_index st = index_of es"
  shows "layout_file_entry st e f = Inr st' \<longleftrightarrow>
     (\<not> is_knot (entry_file e) \<or> map_of (ix_Knots (index_of es)) (fi_ID (entry_file e)) = None) \<and>
     st' = st\<lparr>rd_index := index_of (es @ [e])\<rparr>"
proof -
  have ef: "entry_file e = f\<lparr>fi_Path := en_Path e, fi_OID := en_OID e\<rparr>" using f by (simp add: entry_file_def)
  note fresh = fresh_index [OF es]
  have snoc: "index_of (es @ [e]) = (let i = index_of es; g = entry_file e in
      if is_knot g then
        i\<lparr>ix_Files := ix_Files i @ [(en_Path e, en_OID e)], ix_Knots := ix_Knots i @ [(fi_ID g, g)],
          ix_knotAt := ix_knotAt i @ [(en_Path e, fi_ID g)]\<rparr>
      else i\<lparr>ix_Files := ix_Files i @ [(en_Path e, en_OID e)], ix_Comments := ix_Comments i @ [(en_Path e, g)]\<rparr>)"
    using e f by (simp add: index_of_def files_snoc Let_def)
  show ?thesis
    using fresh unfolding layout_file_entry_def snoc st ef [symmetric] Let_def
    by (auto simp: is_knot_def update_fresh)
qed

lemma layout_entry_step:
  assumes es: "entries_ok es"
  shows "layout_entry (reading_of es) e = Inr st \<longleftrightarrow> entries_ok (es @ [e]) \<and> st = reading_of (es @ [e])"
proof (cases "en_Path e \<in> set (map en_Path es)")
  case True
  then show ?thesis by (simp add: layout_entry_def entries_ok_snoc reading_of_def)
next
  case new: False
  obtain dir base where d: "split_dir (en_Path e) = (dir, base)" by fastforce
  have fun_ext: "(\<lambda>p. p \<in> set (map en_Path es))(en_Path e := True) = (\<lambda>p. p \<in> set (map en_Path (es @ [e])))"
    "(\<lambda>d. length (filter (\<lambda>e. fst (split_dir (en_Path e)) = d) es))
       (dir := length (filter (\<lambda>e. fst (split_dir (en_Path e)) = dir) es) + 1) =
     (\<lambda>d. length (filter (\<lambda>e. fst (split_dir (en_Path e)) = d) (es @ [e])))"
    using d by (auto simp: fun_eq_iff)
  show ?thesis
  proof (cases "is_dir e")
    case True
    then have same: "index_of (es @ [e]) = index_of es" by (simp add: index_of_def files_snoc)
    have "(\<lambda>p. p \<in> set (dir_paths es))(en_Path e := True) = (\<lambda>p. p \<in> set (dir_paths (es @ [e])))"
      using True by (auto simp: dir_paths_snoc fun_eq_iff)
    then show ?thesis
      using True new es d fun_ext same
      by (auto simp: layout_entry_def reading_of_def rbind_eq_Inr entries_ok_snoc entry_ok_def is_dir_def
          dir_paths_snoc Let_def)
  next
    case False
    show ?thesis
    proof (cases "named_file (en_Path e)")
      case (Inl x)
      then show ?thesis
        using False new d by (auto simp: layout_entry_def reading_of_def entries_ok_snoc entry_ok_def is_dir_def
            named_file_def Let_def)
    next
      case (Inr f)
      let ?st = "(reading_of es)\<lparr>rd_seen := (\<lambda>p. p \<in> set (map en_Path (es @ [e]))),
        rd_children := (\<lambda>d. length (filter (\<lambda>e. fst (split_dir (en_Path e)) = d) (es @ [e])))\<rparr>"
      have "layout_entry (reading_of es) e =
          (if en_Mode e \<noteq> ''100644'' then refuse RuleLayout (en_Path e) else layout_file_entry ?st e f)"
        using False new d Inr fun_ext
        by (simp add: layout_entry_def reading_of_def is_dir_def named_file_def Let_def)
      moreover have "?st\<lparr>rd_index := index_of (es @ [e])\<rparr> = reading_of (es @ [e])"
        using False by (simp add: reading_of_def dir_paths_snoc)
      moreover have "entry_ok e \<longleftrightarrow> en_Mode e = ''100644''"
        using False Inr by (simp add: entry_ok_def)
      ultimately show ?thesis
        using layout_file_entry_step [OF es new False _ Inr, of ?st st] False new es
        by (auto simp: entries_ok_snoc reading_of_def)
    qed
  qed
qed

lemma entries_ok_prefix: "entries_ok (a @ b) \<Longrightarrow> entries_ok a"
  by (simp add: entries_ok_def files_def)

lemma layout_loop_reads:
  "entries_ok pre \<Longrightarrow> layout_loop (reading_of pre) es = Inr st \<longleftrightarrow>
     entries_ok (pre @ es) \<and> st = reading_of (pre @ es)"
proof (induction es arbitrary: pre)
  case (Cons e es)
  have "entries_ok (pre @ e # es) \<Longrightarrow> entries_ok (pre @ [e])"
    using entries_ok_prefix [of "pre @ [e]" es] by simp
  then show ?case
    using Cons.IH [of "pre @ [e]"] layout_entry_step [OF Cons.prems, of e]
    by (auto simp: rbind_eq_Inr)
qed (auto simp: entries_ok_def)

lemma reading_start_of: "reading_start = reading_of []" and entries_ok_Nil: "entries_ok []"
  by (auto simp: reading_start_def reading_of_def index_of_def empty_index_def files_def dir_paths_def entries_ok_def)

text \<open>
  A listing is a graph's layout exactly when no path repeats, every entry is one of the
  directories or files a graph holds and named as one, no ID is used twice, no directory is
  empty, every directory a path passes through is listed, and the counts are within the
  limits; and its index is then the table of its files.
\<close>

theorem Layout_iff: "Layout es = Inr idx \<longleftrightarrow> layout_valid es \<and> idx = index_of es"
proof -
  have loop: "layout_loop reading_start es = Inr st \<longleftrightarrow> entries_ok es \<and> st = reading_of es" for st
    using layout_loop_reads [OF entries_ok_Nil, of es] by (simp add: reading_start_of)
  have dirs: "filter P es = [] \<longleftrightarrow> \<not> list_ex P es" for P
    by (auto simp: list_ex_iff filter_empty_conv)
  have listed: "check_listed isDir e = Inr () \<longleftrightarrow> (let parts = split_byte slash (en_Path e) in
      list_all (\<lambda>i. isDir (join_str [slash] (take i parts))) [1..<length parts])" for isDir e
    by (simp add: check_listed_def Let_def check_all_ok list_all_iff)
  show ?thesis
    unfolding Layout_def rbind_eq_Inr loop layout_valid_def
    by (auto simp: rbind_unit_eq_Inr check_all_ok reading_of_def dirs listed list_all_iff index_of_def)
qed

section \<open>What the index holds\<close>

lemma Layout_files:
  assumes "Layout es = Inr idx"
  shows "idx = index_of es" "entries_ok es"
  using assms by (auto simp: Layout_iff layout_valid_def)

lemma files_distinct: "entries_ok es \<Longrightarrow> distinct (map fi_Path (files es))"
proof -
  assume es: "entries_ok es"
  have "map fi_Path (files es) = map en_Path (filter (\<lambda>e. \<not> is_dir e) es)"
    using es by (auto simp: files_def entries_ok_def list_all_iff dest!: entry_ok_file)
  then show ?thesis using es by (simp add: entries_ok_def distinct_map_filter)
qed

lemma map_of_by_key: "distinct (map k xs) \<Longrightarrow> map_of (map (\<lambda>x. (k x, v x)) xs) a = Some b \<longleftrightarrow> (\<exists>x \<in> set xs. k x = a \<and> v x = b)"
proof -
  assume "distinct (map k xs)"
  then have "distinct (map fst (map (\<lambda>x. (k x, v x)) xs))" by (simp add: comp_def)
  then show ?thesis unfolding map_of_mem_distinct [OF \<open>distinct (map fst _)\<close>] by auto
qed

lemma index_lookup:
  assumes "Layout es = Inr idx"
  shows "map_of (ix_Files idx) p = Some oid \<longleftrightarrow> (\<exists>f \<in> set (files es). fi_Path f = p \<and> fi_OID f = oid)"
    and "map_of (ix_Knots idx) i = Some f \<longleftrightarrow> f \<in> set (files es) \<and> is_knot f \<and> fi_ID f = i"
    and "map_of (ix_Comments idx) p = Some f \<longleftrightarrow> f \<in> set (files es) \<and> \<not> is_knot f \<and> fi_Path f = p"
    and "map_of (ix_knotAt idx) p = Some i \<longleftrightarrow> (\<exists>f \<in> set (files es). is_knot f \<and> fi_Path f = p \<and> fi_ID f = i)"
proof -
  note idx = Layout_files [OF assms]
  have d: "distinct (map fi_Path (files es))" "distinct (map fi_Path (filter P (files es)))" for P
    using files_distinct [OF idx(2)] distinct_map_filter by blast+
  have k: "distinct (map fi_ID (filter is_knot (files es)))" using idx(2) by (simp add: entries_ok_def)
  show "map_of (ix_Files idx) p = Some oid \<longleftrightarrow> (\<exists>f \<in> set (files es). fi_Path f = p \<and> fi_OID f = oid)"
    using map_of_by_key [OF d(1), of fi_OID] by (simp add: idx(1) index_of_def)
  show "map_of (ix_Knots idx) i = Some f \<longleftrightarrow> f \<in> set (files es) \<and> is_knot f \<and> fi_ID f = i"
    using map_of_by_key [OF k, of "\<lambda>f. f"] by (auto simp: idx(1) index_of_def)
  show "map_of (ix_Comments idx) p = Some f \<longleftrightarrow> f \<in> set (files es) \<and> \<not> is_knot f \<and> fi_Path f = p"
    using map_of_by_key [OF d(2), of "\<lambda>f. f"] by (auto simp: idx(1) index_of_def)
  show "map_of (ix_knotAt idx) p = Some i \<longleftrightarrow> (\<exists>f \<in> set (files es). is_knot f \<and> fi_Path f = p \<and> fi_ID f = i)"
    using map_of_by_key [OF d(2), of fi_ID] by (auto simp: idx(1) index_of_def)
qed

lemma files_named:
  assumes "Layout es = Inr idx" "f \<in> set (files es)"
  shows "named_file (fi_Path f) = Inr (f\<lparr>fi_Path := [], fi_OID := []\<rparr>)"
proof -
  obtain e g where e: "f = entry_file e" "named_file (en_Path e) = Inr g"
    using assms Layout_files by (fastforce simp: files_def entries_ok_def list_all_iff dest!: entry_ok_file)
  then show ?thesis using named_file_no_place [OF e(2)] by (simp add: entry_file_def)
qed

lemma files_same:
  assumes "Layout es = Inr idx" "f \<in> set (files es)" "Layout es' = Inr idx'" "f' \<in> set (files es')"
    and "fi_Path f = fi_Path f'" "fi_OID f = fi_OID f'"
  shows "f = f'"
  using files_named [OF assms(1,2)] files_named [OF assms(3,4)] assms(5,6)
  by (cases f; cases f') simp

lemma files_same_name:
  assumes "Layout es = Inr idx" "f \<in> set (files es)" "Layout es' = Inr idx'" "f' \<in> set (files es')"
    and "fi_Path f = fi_Path f'"
  shows "fi_ID f = fi_ID f'" "fi_Type f = fi_Type f'" "fi_Slug f = fi_Slug f'" "fi_Stamp f = fi_Stamp f'"
  using files_named [OF assms(1,2)] files_named [OF assms(3,4)] assms(5)
  by (cases f; cases f'; simp)+

text \<open>A knot's ID in an index is a local ID, so no reference to another project's knot resolves.\<close>

lemma rmem_seqs3:
  "rmem (seqs [a, b, c]) s \<longleftrightarrow> (\<exists>x y z. s = x @ y @ z \<and> rmem a x \<and> rmem b y \<and> rmem c z)"
  by (auto simp: rmem_Seq)

lemma local_ID_parts:
  "rmem re_localID s \<longleftrightarrow> (\<exists>pre h. s = pre @ ''-'' @ h \<and> rmem re_prefix pre \<and> length h = 7 \<and> rmem (reps 7 cls_hex) h)"
  unfolding re_localID_def rmem_seqs3 rmem_lit by (auto simp del: reps.simps)

lemma prefix_no_hyphen: "rmem re_prefix pre \<Longrightarrow> CHR ''-'' \<notin> set pre"
  by (auto simp: re_prefix_def)

lemma knotFile_Some:
  assumes "knotFile base = Some (ident, pre, slug)"
  shows "base = ident @ ''-'' @ slug @ ''.md''" "IsLocalID ident" "has_prefix ident (pre @ ''-'')"
proof -
  have m: "matches re_knotFile base" using assms by (simp add: knotFile_def split: if_splits)
  then obtain i t where i: "base = i @ ''-'' @ t @ ''.md''" "rmem re_localID i"
    unfolding matches_iff re_knotFile_def seqs.simps rmem_Seq rmem_lit by auto
  from i(2) obtain p h where p: "i = p @ ''-'' @ h" "rmem re_prefix p" "length h = 7"
    unfolding local_ID_parts by blast
  have tw: "takeWhile (\<lambda>c. c \<noteq> CHR ''-'') base = p"
    unfolding i(1) p(1) using takeWhile_append_stop [of p "\<lambda>c. c \<noteq> CHR ''-''" "CHR ''-''" "h @ ''-'' @ t @ ''.md''"]
      prefix_no_hyphen [OF p(2)] by fastforce
  have len: "length i = length p + 8" using p by simp
  have "ident = i \<and> pre = p \<and> slug = t"
    using assms m len unfolding knotFile_def tw Let_def by (simp add: i(1))
  then show "base = ident @ ''-'' @ slug @ ''.md''" "IsLocalID ident" "has_prefix ident (pre @ ''-'')"
    using i p by (simp_all add: IsLocalID_def matches_iff has_prefix_def)
qed

lemma commentFile_Some:
  assumes "commentFile base = Some (stamp, op)"
  shows "base = stamp @ ''-'' @ op @ ''.md''" "length stamp = 16" "matches re_stamp stamp"
proof -
  have m: "rmem re_commentFile base" and so: "stamp = take 16 base" "op = take 16 (drop 17 base)"
    using assms by (auto simp: commentFile_def matches_iff split: if_splits)
  obtain a b where ab: "base = (a @ ''-'' @ b) @ ''.md''" "rmem re_stamp a" "rmem re_opID b"
    using m unfolding re_commentFile_def re_commentID_def rmem_seqs3 by (auto simp: rmem_Seq)
  have "length b = 16" using ab(3) unfolding re_opID_def rmem_reps_Cls by blast
  moreover have "length a = 16"
  proof -
    obtain x y where "a = x @ ''T'' @ y @ ''Z''" "rmem (reps 8 cls_digit) x" "rmem (reps 6 cls_digit) y"
      using ab(2) unfolding re_stamp_def seqs.simps rmem_Seq rmem_lit by auto
    then show ?thesis by (simp only: rmem_reps_Cls) simp
  qed
  ultimately have "stamp = a" "op = b" using so ab(1) by simp_all
  then show "base = stamp @ ''-'' @ op @ ''.md''" "length stamp = 16" "matches re_stamp stamp"
    using ab(1,2) \<open>length a = 16\<close> by (simp_all add: matches_iff)
qed

lemma named_file_cases:
  assumes "named_file p = Inr f"
  obtains (knot) d t pre where "split_byte slash p ! 0 = d" "length (split_byte slash p) = 2" "typeOfDirectory d = Some t"
      "knotFile (snd (split_dir p)) = Some (fi_ID f, pre, fi_Slug f)" "matches re_slug (fi_Slug f)"
      "(case typeOfPrefix pre of None \<Rightarrow> [] | Some pt \<Rightarrow> ty_Name pt) = ty_Name t" "fi_Type f = ty_Name t" "is_knot f"
  | (comment) "split_byte slash p ! 0 = CommentsDirectory" "length (split_byte slash p) = 3"
      "fi_ID f = split_byte slash p ! 1" "commentFile (snd (split_dir p)) = Some (fi_Stamp f, fi_Op f)"
      "stamp_time (fi_Stamp f)" "\<not> is_knot f"
proof (cases "length (split_byte slash p) = 2 \<and> split_byte slash p ! 0 \<noteq> CommentsDirectory")
  case True
  then obtain t ident pre slug where kf: "typeOfDirectory (split_byte slash p ! 0) = Some t"
    "knotFile (snd (split_dir p)) = Some (ident, pre, slug)"
    using assms by (auto simp: named_file_def layoutFile_def Let_def split: option.splits)
  have "matches re_slug slug \<and> (case typeOfPrefix pre of None \<Rightarrow> [] | Some pt \<Rightarrow> ty_Name pt) = ty_Name t \<and>
      f = no_file\<lparr>fi_ID := ident, fi_Type := ty_Name t, fi_Slug := slug\<rparr>"
    using assms True unfolding named_file_def layoutFile_def Let_def kf by (simp split: if_splits)
  then show thesis using that(1) kf True by (simp add: no_file_def is_knot_def)
next
  case False
  then have c: "length (split_byte slash p) = 3 \<and> split_byte slash p ! 0 = CommentsDirectory"
    using assms by (auto simp: named_file_def layoutFile_def Let_def split: if_splits)
  then obtain stamp op where cf: "commentFile (snd (split_dir p)) = Some (stamp, op)"
    using assms by (auto simp: named_file_def layoutFile_def Let_def split: option.splits)
  have "stamp_time stamp \<and> f = no_file\<lparr>fi_ID := split_byte slash p ! 1, fi_Stamp := stamp, fi_Op := op\<rparr>"
    using assms c unfolding named_file_def layoutFile_def Let_def cf by (simp split: if_splits)
  moreover have "stamp \<noteq> []" using commentFile_Some [OF cf] by auto
  ultimately show thesis using that(2) c cf by (simp add: no_file_def is_knot_def)
qed

lemma split_two:
  assumes "split_byte slash p = [a, b]"
  shows "p = a @ slash # b" "snd (split_dir p) = b"
proof -
  show p: "p = a @ slash # b" using join_split_byte [of slash p] assms by simp
  have b: "slash \<notin> set b" using split_byte_no_sep [of b slash p] assms by simp
  have none: "last_index_str b [slash] = None" using b by (induction b) auto
  have "last_index_str (slash # b) [slash] = Some 0" by (simp add: none)
  then have "last_index_str (a @ slash # b) [slash] = Some (length a)" by (induction a) simp_all
  then show "snd (split_dir p) = b" by (simp add: split_dir_def p)
qed

lemma typeOfDirectory_Some: "typeOfDirectory d = Some t \<Longrightarrow> t \<in> set Types \<and> ty_Directory t = d"
  by (auto simp: typeOfDirectory_def find_Some_iff)

text \<open>A knot's path is its type's directory, its ID and its slug, and nothing else.\<close>

lemma named_knot:
  assumes "named_file p = Inr f" "is_knot f"
  obtains t where "t \<in> set Types" "fi_Type f = ty_Name t" "IsLocalID (fi_ID f)" "matches re_slug (fi_Slug f)"
    "p = ty_Directory t @ ''/'' @ fi_ID f @ ''-'' @ fi_Slug f @ ''.md''"
  using assms(1)
proof (cases rule: named_file_cases)
  case (knot d t pre)
  then obtain b where sp: "split_byte slash p = [d, b]"
    by (cases "split_byte slash p") (auto simp: length_Suc_conv numeral_2_eq_2)
  show thesis
    using that [of t] knot split_two [OF sp] knotFile_Some [OF knot(4)] typeOfDirectory_Some [OF knot(3)] by simp
qed (use assms(2) in blast)

lemma index_knot_ID:
  assumes "Layout es = Inr idx" "map_of (ix_Knots idx) i = Some f"
  shows "IsLocalID i" "fi_ID f = i"
proof -
  have f: "f \<in> set (files es)" "is_knot f" "fi_ID f = i"
    using assms(2) unfolding index_lookup(2) [OF assms(1)] by auto
  show "fi_ID f = i" by (rule f(3))
  have "is_knot (f\<lparr>fi_Path := [], fi_OID := []\<rparr>)" using f(2) by (simp add: is_knot_def)
  from named_knot [OF files_named [OF assms(1) f(1)] this] show "IsLocalID i"
    using f(3) by simp
qed

text \<open>
  In an accepted layout every knot's file is where its type, ID and slug put it, so the
  path alone tells a reader all three, no two knots have one ID, and an edge resolves by the
  listing alone.
\<close>

theorem Layout_knot_paths:
  assumes "Layout es = Inr idx" "map_of (ix_Knots idx) i = Some f"
  shows "fi_ID f = i \<and> IsLocalID i \<and> matches re_slug (fi_Slug f) \<and>
    map_of (ix_Files idx) (fi_Path f) = Some (fi_OID f) \<and> map_of (ix_knotAt idx) (fi_Path f) = Some i \<and>
    list_ex (\<lambda>t. fi_Type f = ty_Name t \<and>
      fi_Path f = ty_Directory t @ ''/'' @ i @ ''-'' @ fi_Slug f @ ''.md'') Types"
proof -
  have f: "f \<in> set (files es)" "is_knot f" "fi_ID f = i"
    using assms(2) unfolding index_lookup(2) [OF assms(1)] by auto
  have g: "is_knot (f\<lparr>fi_Path := [], fi_OID := []\<rparr>)" using f(2) by (simp add: is_knot_def)
  obtain t where "t \<in> set Types" "fi_Type f = ty_Name t" "IsLocalID (fi_ID f)" "matches re_slug (fi_Slug f)"
    "fi_Path f = ty_Directory t @ ''/'' @ fi_ID f @ ''-'' @ fi_Slug f @ ''.md''"
    by (rule named_knot [OF files_named [OF assms(1) f(1)] g]) simp
  then show ?thesis
    using f by (auto simp: index_lookup [OF assms(1)] list_ex_iff)
qed

end
