(* ===== verification/Cycles.thy ===== *)
theory Cycles
  imports Prelude
begin

text \<open>
  The depth-first walk \<^verbatim>\<open>knot/graph.go\<close> looks for cycles with: \<^verbatim>\<open>visit\<close>, its marks and its trail,
  over nodes that are read on demand through a cache. The walk is stated over any nodes and
  any reader of a node's successors, and the locale below says what it decides.
\<close>

section \<open>The walk\<close>

datatype mark = Fresh | Visiting | Done

record ('n, 'c) walk =
  wk_state :: "'n \<Rightarrow> mark"
  wk_trail :: "'n list"
  wk_cache :: 'c

text \<open>
  \<^verbatim>\<open>visit\<close> of one node, and of every node of a list in order. The number is the fuel: how deep
  the walk may still go. Running out of it is \<^term>\<open>None\<close>. A node met again on the trail gives
  the loop from its first place on the trail back to it.
\<close>

fun visit ::
  "('n \<Rightarrow> 'c \<Rightarrow> ('e, 'n list \<times> 'c) result) \<Rightarrow> ('n list \<Rightarrow> 'n \<Rightarrow> 'c \<Rightarrow> 'e) \<Rightarrow>
   nat \<Rightarrow> 'n \<Rightarrow> ('n, 'c) walk \<Rightarrow> ('e, ('n, 'c) walk) result option"
and visit_each ::
  "('n \<Rightarrow> 'c \<Rightarrow> ('e, 'n list \<times> 'c) result) \<Rightarrow> ('n list \<Rightarrow> 'n \<Rightarrow> 'c \<Rightarrow> 'e) \<Rightarrow>
   nat \<Rightarrow> 'n list \<Rightarrow> ('n, 'c) walk \<Rightarrow> ('e, ('n, 'c) walk) result option"
where
  "visit load cyc 0 n w = None"
| "visit load cyc (Suc k) n w =
     (case wk_state w n of
        Visiting \<Rightarrow> Some (Inl (cyc (dropWhile (\<lambda>m. m \<noteq> n) (wk_trail w) @ [n]) n (wk_cache w)))
      | Done \<Rightarrow> Some (Inr w)
      | Fresh \<Rightarrow>
          (case load n (wk_cache w) of
             Inl e \<Rightarrow> Some (Inl e)
           | Inr (ns, c) \<Rightarrow>
               (case visit_each load cyc k ns
                   (w\<lparr>wk_state := (wk_state w)(n := Visiting), wk_trail := wk_trail w @ [n], wk_cache := c\<rparr>) of
                  None \<Rightarrow> None
                | Some (Inl e) \<Rightarrow> Some (Inl e)
                | Some (Inr w') \<Rightarrow>
                    Some (Inr (w'\<lparr>wk_state := (wk_state w')(n := Done), wk_trail := butlast (wk_trail w')\<rparr>)))))"
| "visit_each load cyc k [] w = Some (Inr w)"
| "visit_each load cyc k (n # ns) w =
     (case visit load cyc k n w of
        None \<Rightarrow> None
      | Some (Inl e) \<Rightarrow> Some (Inl e)
      | Some (Inr w') \<Rightarrow> visit_each load cyc k ns w')"

definition walk_start :: "'c \<Rightarrow> ('n, 'c) walk" where
  "walk_start c = \<lparr>wk_state = (\<lambda>_. Fresh), wk_trail = [], wk_cache = c\<rparr>"

section \<open>Grounded nodes\<close>

text \<open>
  What reading a node gives, the cache aside, is an error or its successors. A node is grounded
  when it reads and every successor is grounded: nothing it reaches fails to read, and no
  path from it goes on forever.
\<close>

inductive grounded :: "('n \<Rightarrow> ('e, 'n list) result) \<Rightarrow> 'n \<Rightarrow> bool" for plain where
  grounded: "plain n = Inr ns \<Longrightarrow> (\<And>m. m \<in> set ns \<Longrightarrow> grounded plain m) \<Longrightarrow> grounded plain n"

inductive_cases groundedE: "grounded plain n"

definition leads :: "('n \<Rightarrow> ('e, 'n list) result) \<Rightarrow> 'n \<Rightarrow> 'n \<Rightarrow> bool" where
  "leads plain n m \<longleftrightarrow> (case plain n of Inl e \<Rightarrow> False | Inr ns \<Rightarrow> m \<in> set ns)"

lemma leads_Inr [simp]: "plain n = Inr ns \<Longrightarrow> leads plain n m \<longleftrightarrow> m \<in> set ns"
  by (simp add: leads_def)

lemma grounded_leads: "grounded plain n \<Longrightarrow> leads plain n m \<Longrightarrow> grounded plain m"
  by (auto simp: leads_def elim: groundedE)

lemma grounded_reach: "(leads plain)\<^sup>*\<^sup>* n m \<Longrightarrow> grounded plain n \<Longrightarrow> grounded plain m"
  by (induction rule: rtranclp_induct) (auto dest: grounded_leads)

lemma grounded_acyclic: "grounded plain n \<Longrightarrow> \<not> (leads plain)\<^sup>+\<^sup>+ n n"
proof (induction rule: grounded.induct)
  case (grounded n ns)
  show ?case
  proof
    assume cycle: "(leads plain)\<^sup>+\<^sup>+ n n"
    then obtain m where m: "leads plain n m" "(leads plain)\<^sup>*\<^sup>* m n" by (auto dest: tranclpD)
    then have "(leads plain)\<^sup>+\<^sup>+ m m" by (metis rtranclp_into_tranclp1)
    then show False using grounded m(1) by simp
  qed
qed

lemma grounded_reach_acyclic: "grounded plain n \<Longrightarrow> (leads plain)\<^sup>*\<^sup>* n m \<Longrightarrow> \<not> (leads plain)\<^sup>+\<^sup>+ m m"
  using grounded_reach grounded_acyclic by metis

lemma grounded_reads: "grounded plain n \<Longrightarrow> (leads plain)\<^sup>*\<^sup>* n m \<Longrightarrow> \<exists>ns. plain m = Inr ns"
  using grounded_reach groundedE by metis

text \<open>Over finitely many nodes, reading everywhere and having no cycle is being grounded.\<close>

lemma acyclic_grounded:
  assumes fin: "finite V" and V: "\<And>n ns. plain n = Inr ns \<Longrightarrow> n \<in> V"
    and reads: "\<And>m. (leads plain)\<^sup>*\<^sup>* n m \<Longrightarrow> \<exists>ns. plain m = Inr ns"
    and acyc: "\<And>m. (leads plain)\<^sup>*\<^sup>* n m \<Longrightarrow> \<not> (leads plain)\<^sup>+\<^sup>+ m m"
  shows "grounded plain n"
proof -
  define R where "R = {(b, a). leads plain a b \<and> (leads plain)\<^sup>*\<^sup>* n a}"
  have inV: "m \<in> V" if "(leads plain)\<^sup>*\<^sup>* n m" for m
    using reads [OF that] V by blast
  have sub: "R \<subseteq> V \<times> V"
  proof clarify
    fix b a assume "(b, a) \<in> R"
    then have "(leads plain)\<^sup>*\<^sup>* n a" "(leads plain)\<^sup>*\<^sup>* n b"
      by (auto simp: R_def)
    then show "b \<in> V \<and> a \<in> V" using inV by blast
  qed
  have up: "(b, a) \<in> R\<^sup>+ \<Longrightarrow> (leads plain)\<^sup>+\<^sup>+ a b \<and> (leads plain)\<^sup>*\<^sup>* n a" for a b
    by (induction rule: trancl_induct) (auto simp: R_def intro: tranclp_trans)
  have "acyclic R" unfolding acyclic_def using up acyc by blast
  then have "wf R" using finite_acyclic_wf finite_subset [OF sub] fin by blast
  then have "(leads plain)\<^sup>*\<^sup>* n m \<Longrightarrow> grounded plain m" for m
  proof (induction m rule: wf_induct_rule)
    case (less m)
    then obtain ns where ns: "plain m = Inr ns" using reads by blast
    show ?case
    proof (rule grounded.grounded [of plain, OF ns])
      fix b assume "b \<in> set ns"
      then have "leads plain m b" using ns by simp
      then show "grounded plain b"
        using less by (auto simp: R_def intro: rtranclp.rtrancl_into_rtrancl)
    qed
  qed
  then show ?thesis by simp
qed

lemma grounded_transfer:
  assumes "grounded plain n"
    and "\<And>n ns. P n \<Longrightarrow> plain n = Inr ns \<Longrightarrow> grounded plain' n \<or> plain' n = Inr ns \<and> (\<forall>m \<in> set ns. P m)"
    and "P n"
  shows "grounded plain' n"
  using assms(1,3)
proof (induction rule: grounded.induct)
  case (grounded n ns)
  then show ?case using assms(2) [of n ns] by (metis grounded.grounded)
qed

section \<open>What the walk decides\<close>

text \<open>
  The contract of a node reader: it is a plain function seen through a cache that keeps to it,
  and finitely many nodes read.
\<close>

locale cached_reader =
  fixes load :: "'n \<Rightarrow> 'c \<Rightarrow> ('e, 'n list \<times> 'c) result"
    and plain :: "'n \<Rightarrow> ('e, 'n list) result"
    and good :: "'c \<Rightarrow> bool"
    and nodes :: "'n set"
  assumes load_Inr: "good c \<Longrightarrow> load n c = Inr (ns, c') \<Longrightarrow> plain n = Inr ns \<and> good c'"
    and load_Inl: "good c \<Longrightarrow> load n c = Inl e \<Longrightarrow> plain n = Inl e"
    and nodes_finite: "finite nodes"
    and reads_node: "plain n = Inr ns \<Longrightarrow> n \<in> nodes"
begin

definition good_walk :: "('n, 'c) walk \<Rightarrow> bool" where
  "good_walk w \<longleftrightarrow> good (wk_cache w) \<and> (\<forall>n. wk_state w n = Done \<longrightarrow> grounded plain n) \<and>
     (\<forall>n. wk_state w n = Visiting \<longleftrightarrow> n \<in> set (wk_trail w)) \<and>
     distinct (wk_trail w) \<and> set (wk_trail w) \<subseteq> nodes"

definition extends_walk :: "('n, 'c) walk \<Rightarrow> ('n, 'c) walk \<Rightarrow> bool" where
  "extends_walk w w' \<longleftrightarrow> good_walk w' \<and> wk_trail w' = wk_trail w \<and>
     (\<forall>m. wk_state w m = Done \<longrightarrow> wk_state w' m = Done)"

lemma extends_walk_trans: "extends_walk a b \<Longrightarrow> extends_walk b c \<Longrightarrow> extends_walk a c"
  by (auto simp: extends_walk_def)

lemma enter_good:
  assumes "good_walk w" "wk_state w n = Fresh" "load n (wk_cache w) = Inr (ns, c)"
  shows "good_walk (w\<lparr>wk_state := (wk_state w)(n := Visiting), wk_trail := wk_trail w @ [n], wk_cache := c\<rparr>)"
  using assms load_Inr [of "wk_cache w" n ns c] reads_node [of n ns]
  unfolding good_walk_def by force

lemma leave_good:
  assumes "good_walk w" "wk_state w n = Fresh"
    and w2: "extends_walk (w\<lparr>wk_state := (wk_state w)(n := Visiting), wk_trail := wk_trail w @ [n], wk_cache := c\<rparr>) w2"
    and n: "grounded plain n"
  shows "extends_walk w (w2\<lparr>wk_state := (wk_state w2)(n := Done), wk_trail := butlast (wk_trail w2)\<rparr>)"
  using assms unfolding extends_walk_def good_walk_def by (auto split: if_splits)

lemma visit_each_lift:
  assumes one: "\<And>n w w'. good_walk w \<Longrightarrow> visit load cyc k n w = Some (Inr w') \<Longrightarrow>
      extends_walk w w' \<and> wk_state w' n = Done"
  shows "good_walk w \<Longrightarrow> visit_each load cyc k ns w = Some (Inr w') \<Longrightarrow>
    extends_walk w w' \<and> (\<forall>n \<in> set ns. wk_state w' n = Done)"
proof (induction ns arbitrary: w)
  case Nil
  then show ?case by (simp add: extends_walk_def)
next
  case (Cons n ns)
  then obtain w1 where w1: "visit load cyc k n w = Some (Inr w1)" "visit_each load cyc k ns w1 = Some (Inr w')"
    by (auto split: option.splits sum.splits)
  have a: "extends_walk w w1" "wk_state w1 n = Done" using one Cons.prems(1) w1(1) by blast+
  then have b: "extends_walk w1 w'" "\<forall>n \<in> set ns. wk_state w' n = Done"
    using Cons.IH w1(2) by (auto simp: extends_walk_def)
  then show ?case using a by (auto simp: extends_walk_def)
qed

lemma visit_extends:
  "good_walk w \<Longrightarrow> visit load cyc k n w = Some (Inr w') \<Longrightarrow> extends_walk w w' \<and> wk_state w' n = Done"
proof (induction k arbitrary: n w w')
  case 0
  then show ?case by simp
next
  case (Suc k)
  show ?case
  proof (cases "wk_state w n")
    case Fresh
    with Suc.prems(2) obtain ns c w2 where l: "load n (wk_cache w) = Inr (ns, c)"
      and w2: "visit_each load cyc k ns
          (w\<lparr>wk_state := (wk_state w)(n := Visiting), wk_trail := wk_trail w @ [n], wk_cache := c\<rparr>) = Some (Inr w2)"
      and w': "w' = w2\<lparr>wk_state := (wk_state w2)(n := Done), wk_trail := butlast (wk_trail w2)\<rparr>"
      by (auto split: option.splits sum.splits)
    let ?v = "w\<lparr>wk_state := (wk_state w)(n := Visiting), wk_trail := wk_trail w @ [n], wk_cache := c\<rparr>"
    have e: "extends_walk ?v w2 \<and> (\<forall>n \<in> set ns. wk_state w2 n = Done)"
      by (rule visit_each_lift [OF _ enter_good [OF Suc.prems(1) Fresh l] w2]) (rule Suc.IH)
    then have "good_walk w2" "\<forall>n \<in> set ns. wk_state w2 n = Done" by (simp_all add: extends_walk_def)
    then have "\<And>m. m \<in> set ns \<Longrightarrow> grounded plain m"
      unfolding good_walk_def by metis
    moreover have "plain n = Inr ns"
      using load_Inr [OF _ l] Suc.prems(1) unfolding good_walk_def by metis
    ultimately have "grounded plain n" by (rule grounded.grounded [rotated])
    then show ?thesis using leave_good [OF Suc.prems(1) Fresh conjunct1 [OF e]]
      unfolding w' by simp
  qed (use Suc.prems in \<open>auto simp: extends_walk_def\<close>)
qed

lemma visit_each_extends:
  "good_walk w \<Longrightarrow> visit_each load cyc k ns w = Some (Inr w') \<Longrightarrow>
     extends_walk w w' \<and> (\<forall>n \<in> set ns. wk_state w' n = Done)"
  using visit_each_lift visit_extends by blast

text \<open>The walk goes no deeper than there are nodes, so that much fuel is enough.\<close>

lemma trail_short: "good_walk w \<Longrightarrow> length (wk_trail w) \<le> card nodes"
  using nodes_finite card_mono [of nodes "set (wk_trail w)"] distinct_card [of "wk_trail w"]
  by (simp add: good_walk_def)

lemma visit_total:
  "good_walk w \<Longrightarrow> card nodes < k + length (wk_trail w) \<Longrightarrow> visit load cyc k n w \<noteq> None"
proof (induction k arbitrary: n w)
  case 0
  then show ?case using trail_short by fastforce
next
  case (Suc k)
  have each: "good_walk v \<Longrightarrow> card nodes < k + length (wk_trail v) \<Longrightarrow> visit_each load cyc k ns v \<noteq> None" for ns v
  proof (induction ns arbitrary: v)
    case (Cons m ns)
    then show ?case
      using Suc.IH [of v m] visit_extends [of v cyc k m]
      by (auto simp: extends_walk_def split: option.splits sum.splits)
  qed simp
  show ?case
  proof (cases "wk_state w n")
    case Fresh
    have "visit_each load cyc k ns
        (w\<lparr>wk_state := (wk_state w)(n := Visiting), wk_trail := wk_trail w @ [n], wk_cache := c\<rparr>) \<noteq> None"
      if "load n (wk_cache w) = Inr (ns, c)" for ns c
      using each [OF enter_good [OF Suc.prems(1) Fresh that]] Suc.prems(2) by simp
    then show ?thesis using Fresh by (auto split: option.splits sum.splits)
  qed simp_all
qed

lemma visit_each_total:
  "good_walk w \<Longrightarrow> card nodes < k + length (wk_trail w) \<Longrightarrow> visit_each load cyc k ns w \<noteq> None"
proof (induction ns arbitrary: w)
  case (Cons n ns)
  then show ?case
    using visit_total [of w k cyc n] visit_extends [of w cyc k n]
    by (auto simp: extends_walk_def split: option.splits sum.splits)
qed simp

text \<open>A grounded node is never refused, since nothing on the trail leads to itself.\<close>

definition trail_leads :: "('n, 'c) walk \<Rightarrow> 'n \<Rightarrow> bool" where
  "trail_leads w n \<longleftrightarrow> (\<forall>v \<in> set (wk_trail w). (leads plain)\<^sup>+\<^sup>+ v n)"

lemma visit_no_error:
  "good_walk w \<Longrightarrow> trail_leads w n \<Longrightarrow> grounded plain n \<Longrightarrow> visit load cyc k n w \<noteq> Some (Inl e)"
proof (induction k arbitrary: n w)
  case (Suc k)
  have each: "good_walk v \<Longrightarrow> \<forall>m \<in> set ns. trail_leads v m \<and> grounded plain m \<Longrightarrow>
      visit_each load cyc k ns v \<noteq> Some (Inl e)" for ns v
  proof (induction ns arbitrary: v)
    case (Cons m ns)
    then have "visit load cyc k m v \<noteq> Some (Inl e)" using Suc.IH by simp
    moreover have "visit_each load cyc k ns v' \<noteq> Some (Inl e)" if "visit load cyc k m v = Some (Inr v')" for v'
      using Cons visit_extends [OF Cons.prems(1) that] by (auto simp: extends_walk_def trail_leads_def)
    ultimately show ?case by (auto split: option.splits sum.splits)
  qed simp
  show ?case
  proof (cases "wk_state w n")
    case Fresh
    obtain ns where ns: "plain n = Inr ns" "\<And>m. m \<in> set ns \<Longrightarrow> grounded plain m"
      using Suc.prems(3) by (auto elim: groundedE)
    then obtain c where l: "load n (wk_cache w) = Inr (ns, c)"
      using load_Inr load_Inl Suc.prems(1) unfolding good_walk_def
      by (cases "load n (wk_cache w)") fastforce+
    let ?v = "w\<lparr>wk_state := (wk_state w)(n := Visiting), wk_trail := wk_trail w @ [n], wk_cache := c\<rparr>"
    have "trail_leads ?v m" if "m \<in> set ns" for m
    proof -
      have "leads plain n m" using ns that by simp
      then show ?thesis using Suc.prems(2) by (auto simp: trail_leads_def intro: tranclp.trancl_into_trancl)
    qed
    then have "visit_each load cyc k ns ?v \<noteq> Some (Inl e)"
      using each enter_good [OF Suc.prems(1) Fresh l] ns(2) by blast
    then show ?thesis using Fresh l by (auto split: option.splits sum.splits)
  next
    case Visiting
    then have "(leads plain)\<^sup>+\<^sup>+ n n"
      using Suc.prems by (auto simp: good_walk_def trail_leads_def)
    then show ?thesis using grounded_acyclic [OF Suc.prems(3)] by blast
  qed simp
qed simp

lemma visit_each_no_error:
  "good_walk w \<Longrightarrow> wk_trail w = [] \<Longrightarrow> \<forall>n \<in> set ns. grounded plain n \<Longrightarrow> visit_each load cyc k ns w \<noteq> Some (Inl e)"
proof (induction ns arbitrary: w)
  case (Cons n ns)
  then have "visit load cyc k n w \<noteq> Some (Inl e)" by (simp add: visit_no_error trail_leads_def)
  then show ?case
    using Cons visit_extends [of w cyc k n] by (auto simp: extends_walk_def split: option.splits sum.splits)
qed simp

text \<open>
  Started afresh with fuel for every node, the walk always ends; it passes exactly when every
  node it starts from is grounded, and it leaves a cache that keeps to the reader.
\<close>

lemma start_good: "good c \<Longrightarrow> good_walk (walk_start c)"
  by (simp add: good_walk_def walk_start_def)

theorem walk_decides:
  assumes "good c" "card nodes < k"
  shows "visit_each load cyc k ns (walk_start c) \<noteq> None"
    and "(\<exists>w. visit_each load cyc k ns (walk_start c) = Some (Inr w)) \<longleftrightarrow> (\<forall>n \<in> set ns. grounded plain n)"
    and "visit_each load cyc k ns (walk_start c) = Some (Inr w) \<Longrightarrow> good (wk_cache w)"
proof -
  note g = start_good [OF assms(1)]
  show total: "visit_each load cyc k ns (walk_start c) \<noteq> None"
    using visit_each_total [OF g] assms(2) by (simp add: walk_start_def)
  show "visit_each load cyc k ns (walk_start c) = Some (Inr w) \<Longrightarrow> good (wk_cache w)" for w
    using visit_each_extends [OF g] by (auto simp: extends_walk_def good_walk_def)
  have "visit_each load cyc k ns (walk_start c) = Some (Inr w) \<Longrightarrow> \<forall>n \<in> set ns. grounded plain n" for w
    using visit_each_extends [OF g] by (auto simp: extends_walk_def good_walk_def)
  moreover have "\<forall>n \<in> set ns. grounded plain n \<Longrightarrow> visit_each load cyc k ns (walk_start c) \<noteq> Some (Inl e)" for e
    using visit_each_no_error [OF g] by (simp add: walk_start_def)
  ultimately show "(\<exists>w. visit_each load cyc k ns (walk_start c) = Some (Inr w)) \<longleftrightarrow> (\<forall>n \<in> set ns. grounded plain n)"
    using total by (metis option.exhaust sum.exhaust)
qed

end

end
