(* ===== verification/KnotGraph.thy ===== *)
theory KnotGraph
  imports KnotLayout KnotRound Cycles
begin

text \<open>
  The second half of \<^verbatim>\<open>knot/graph.go\<close>: a push held to the rules. The graph reads knots on
  demand through a cache, an edge resolves by the index, a change is held to what a push may
  do to a knot or a comment, and a walk from the changed knots looks for cycles.
\<close>

section \<open>Pushes\<close>

text \<open>
  A \<^verbatim>\<open>Reader\<close> gives an object's content or an error, here \<^term>\<open>None\<close>; an object's name is a
  hash of its content, so it is a function. \<^verbatim>\<open>MayEdit\<close> is absent or says whom the pusher may edit.
\<close>

type_synonym Reader = "string \<Rightarrow> nat \<Rightarrow> string option"

record Push =
  pu_Old :: "Index option"
  pu_New :: Index
  pu_Read :: Reader
  pu_Pusher :: string
  pu_MayEdit :: "(string \<Rightarrow> bool) option"

definition at_key :: "(string \<times> 'a) list \<Rightarrow> 'a \<Rightarrow> string \<Rightarrow> 'a" where
  "at_key m d k = (case map_of m k of None \<Rightarrow> d | Some v \<Rightarrow> v)"

lemma at_key_simps [simp]:
  "map_of m k = None \<Longrightarrow> at_key m d k = d" "map_of m k = Some v \<Longrightarrow> at_key m d k = v"
  by (simp_all add: at_key_def)

definition old_file :: "Push \<Rightarrow> string \<Rightarrow> string" where
  "old_file p path = (case pu_Old p of None \<Rightarrow> [] | Some old \<Rightarrow> at_key (ix_Files old) [] path)"

definition old_knot :: "Push \<Rightarrow> string \<Rightarrow> File" where
  "old_knot p i = (case pu_Old p of None \<Rightarrow> no_file | Some old \<Rightarrow> at_key (ix_Knots old) no_file i)"

section \<open>Reading a knot\<close>

type_synonym cache = "string \<Rightarrow> Knot option"

definition load_knot :: "Index \<Rightarrow> Reader \<Rightarrow> string \<Rightarrow> (refusal, Knot) result" where
  "load_knot idx rd i =
     (let f = at_key (ix_Knots idx) no_file i in
      case rd (fi_OID f) MaxKnotSize of
        None \<Rightarrow> refuse RuleLimit (fi_Path f)
      | Some data \<Rightarrow>
          rbind (parseKnot (fi_Path f) (fi_Slug f) data)
            (\<lambda>k. if kn_ID k \<noteq> fi_ID f then refuse RuleFilename (fi_Path f)
                 else if kn_Type k \<noteq> fi_Type f then refuse RuleDirectory (fi_Path f)
                 else if DeriveID (TypeOf k) (fi_Slug f) \<noteq> kn_ID k then refuse RuleIDDerived (fi_Path f)
                 else Inr k))"

definition graph_knot :: "Index \<Rightarrow> Reader \<Rightarrow> string \<Rightarrow> cache \<Rightarrow> (refusal, Knot \<times> cache) result" where
  "graph_knot idx rd i c =
     (case c i of
        Some k \<Rightarrow> Inr (k, c)
      | None \<Rightarrow> rbind (load_knot idx rd i) (\<lambda>k. Inr (k, c(i := Some k))))"

section \<open>Edges\<close>

definition resolve :: "Index \<Rightarrow> Knot \<Rightarrow> string \<Rightarrow> string list \<Rightarrow> (refusal, unit) result" where
  "resolve idx k i want =
     (case map_of (ix_Knots idx) i of
        None \<Rightarrow> refuse RuleEdgeResolves (Path k)
      | Some f \<Rightarrow>
          if 0 < length want \<and> fi_Type f \<notin> set want then refuse RuleParentOutcome (Path k) else Inr ())"

definition checkEdges :: "Index \<Rightarrow> Knot \<Rightarrow> (refusal, unit) result" where
  "checkEdges idx k =
     rbind (if kn_Parent k \<noteq> [] then resolve idx k (kn_Parent k) [''outcome''] else Inr ())
       (\<lambda>_. rbind (if kn_GraduatedInto k \<noteq> []
            then resolve idx k (kn_GraduatedInto k) [''outcome'', ''question''] else Inr ())
         (\<lambda>_. check_all (\<lambda>ref. if IsLocalID ref then resolve idx k ref [] else Inr ()) (elems (kn_BlockedBy k))))"

section \<open>What a push may change\<close>

definition as_it_was :: "string \<Rightarrow> refusal \<Rightarrow> refusal" where
  "as_it_was path e = (case e of Refusal rule _ \<Rightarrow> Refusal rule path)"

definition fixed_fields :: "string list" where
  "fixed_fields = [''id'', ''type'', ''created'', ''created_by'']"

definition checkTransition :: "Push \<Rightarrow> File \<Rightarrow> Knot \<Rightarrow> (refusal, unit) result" where
  "checkTransition p f k =
     (let before = old_knot p (fi_ID f) in
      if fi_Path before = [] then
        (if pu_Pusher p \<noteq> [] \<and> kn_CreatedBy k \<noteq> pu_Pusher p then refuse RuleProvenance (fi_Path f) else Inr ())
      else if fi_Path before \<noteq> fi_Path f then refuse RuleTransition (fi_Path f)
      else
        (case pu_Read p (fi_OID before) MaxKnotSize of
           None \<Rightarrow> refuse RuleLimit (fi_Path before)
         | Some data \<Rightarrow>
             rbind (rmap_err (as_it_was (fi_Path before)) (parseKnot (fi_Path before) (fi_Slug before) data))
               (\<lambda>old. check_all (\<lambda>fname. if Get old fname \<noteq> Get k fname then refuse RuleTransition (fi_Path f)
                  else Inr ()) fixed_fields)))"

definition check_edit :: "Push \<Rightarrow> string \<Rightarrow> Comment \<Rightarrow> Comment \<Rightarrow> (refusal, unit) result" where
  "check_edit p path old comment =
     (if cm_Author comment \<noteq> cm_Author old then refuse RuleTransition path
      else if cm_Edited comment = [] then refuse RuleProvenance path
      else if pu_Pusher p = [] then Inr ()
      else if cm_EditedBy comment \<noteq> pu_Pusher p then refuse RuleProvenance path
      else if pu_Pusher p = cm_Author old then Inr ()
      else
        (case pu_MayEdit p of
           None \<Rightarrow> refuse RuleTransition path
         | Some may \<Rightarrow> if may (cm_Author old) then Inr () else refuse RuleTransition path))"

definition checkComment :: "Push \<Rightarrow> File \<Rightarrow> bool \<Rightarrow> (refusal, unit) result" where
  "checkComment p c push =
     (if map_of (ix_Knots (pu_New p)) (fi_ID c) = None then refuse RuleEdgeResolves (fst (split_dir (fi_Path c)))
      else
        (case pu_Read p (fi_OID c) MaxCommentSize of
           None \<Rightarrow> refuse RuleLimit (fi_Path c)
         | Some data \<Rightarrow>
             rbind (parseComment (fi_Path c) data)
               (\<lambda>comment.
                  if \<not> push then Inr ()
                  else if old_file p (fi_Path c) = [] then
                    (if cm_Edited comment \<noteq> [] then refuse RuleProvenance (fi_Path c)
                     else if pu_Pusher p \<noteq> [] \<and> cm_Author comment \<noteq> pu_Pusher p
                     then refuse RuleProvenance (fi_Path c)
                     else Inr ())
                  else
                    (case pu_Read p (old_file p (fi_Path c)) MaxCommentSize of
                       None \<Rightarrow> refuse RuleLimit (fi_Path c)
                     | Some before \<Rightarrow>
                         rbind (rmap_err (as_it_was (fi_Path c)) (parseComment (fi_Path c) before))
                           (\<lambda>old. check_edit p (fi_Path c) old comment)))))"

section \<open>Cycles\<close>

definition edges :: "string list" where
  "edges = [''parent'', ''blocked_by'']"

definition next_knots :: "Index \<Rightarrow> string \<Rightarrow> Knot \<Rightarrow> string list" where
  "next_knots idx edge k =
     (if edge = ''parent'' \<and> kn_Parent k \<noteq> [] then [kn_Parent k]
      else if edge = ''blocked_by'' then filter (\<lambda>ref. map_of (ix_Knots idx) ref \<noteq> None) (elems (kn_BlockedBy k))
      else [])"

definition walk_load :: "Index \<Rightarrow> Reader \<Rightarrow> string \<Rightarrow> string \<Rightarrow> cache \<Rightarrow> (refusal, string list \<times> cache) result" where
  "walk_load idx rd edge i c =
     rbind (graph_knot idx rd i c) (\<lambda>(k, c'). Inr (next_knots idx edge k, c'))"

definition cycle_refusal :: "string list \<Rightarrow> string \<Rightarrow> cache \<Rightarrow> refusal" where
  "cycle_refusal loop i c = Refusal RuleCycle (case c i of None \<Rightarrow> [] | Some k \<Rightarrow> Path k)"

text \<open>
  The walks over each kind of edge, one cache between them. The fuel is one more than the
  knots the index holds; a walk that would need more is \<^term>\<open>None\<close>.
\<close>

fun check_edge_cycles :: "Index \<Rightarrow> Reader \<Rightarrow> string list \<Rightarrow> string list \<Rightarrow> cache \<Rightarrow> (refusal, unit) result option" where
  "check_edge_cycles idx rd from [] c = Some (Inr ())"
| "check_edge_cycles idx rd from (edge # es) c =
     (case visit_each (walk_load idx rd edge) cycle_refusal (Suc (length (ix_Knots idx))) from (walk_start c) of
        None \<Rightarrow> None
      | Some (Inl e) \<Rightarrow> Some (Inl e)
      | Some (Inr w) \<Rightarrow> check_edge_cycles idx rd from es (wk_cache w))"

definition checkCycles :: "Index \<Rightarrow> Reader \<Rightarrow> string list \<Rightarrow> cache \<Rightarrow> (refusal, unit) result option" where
  "checkCycles idx rd from c = check_edge_cycles idx rd from edges c"

section \<open>The check\<close>

definition changed_paths :: "Push \<Rightarrow> string list" where
  "changed_paths p =
     sort (map fst (filter (\<lambda>(path, oid). pu_Old p = None \<or> old_file p path \<noteq> oid) (ix_Files (pu_New p))))"

definition gone_paths :: "Push \<Rightarrow> string list" where
  "gone_paths p =
     (case pu_Old p of
        None \<Rightarrow> []
      | Some old \<Rightarrow> sort (map fst (filter (\<lambda>(path, _). map_of (ix_Files (pu_New p)) path = None) (ix_Files old))))"

fun check_changed ::
  "Push \<Rightarrow> bool \<Rightarrow> string list \<Rightarrow> cache \<Rightarrow> string list \<Rightarrow> (refusal, cache \<times> string list) result" where
  "check_changed p push [] c touched = Inr (c, touched)"
| "check_changed p push (path # paths) c touched =
     (case map_of (ix_Comments (pu_New p)) path of
        Some cm \<Rightarrow> rbind (checkComment p cm push) (\<lambda>_. check_changed p push paths c touched)
      | None \<Rightarrow>
          (let f = at_key (ix_Knots (pu_New p)) no_file (at_key (ix_knotAt (pu_New p)) [] path) in
           rbind (graph_knot (pu_New p) (pu_Read p) (fi_ID f) c)
             (\<lambda>(k, c'). rbind (checkEdges (pu_New p) k)
               (\<lambda>_. rbind (checkTransition p f k)
                 (\<lambda>_. check_changed p push paths c' (touched @ [fi_ID f]))))))"

definition check_push :: "Push \<Rightarrow> bool \<Rightarrow> (refusal, unit) result option" where
  "check_push p push =
     (case gone_paths p of
        path # _ \<Rightarrow> Some (refuse RuleTransition path)
      | [] \<Rightarrow>
          if push \<and> MaxChangedPaths < length (changed_paths p) then Some (refuse RuleLimit [])
          else
            (case check_changed p push (changed_paths p) (\<lambda>_. None) [] of
               Inl e \<Rightarrow> Some (Inl e)
             | Inr (c, touched) \<Rightarrow> checkCycles (pu_New p) (pu_Read p) touched c))"

definition Check :: "Push \<Rightarrow> (refusal, unit) result option" where
  "Check p = check_push p True"

definition Validate :: "Index \<Rightarrow> Reader \<Rightarrow> (refusal, unit) result option" where
  "Validate idx rd =
     check_push \<lparr>pu_Old = None, pu_New = idx, pu_Read = rd, pu_Pusher = [], pu_MayEdit = None\<rparr> False"

section \<open>The cache keeps to the reader\<close>

definition good_cache :: "Index \<Rightarrow> Reader \<Rightarrow> cache \<Rightarrow> bool" where
  "good_cache idx rd c \<longleftrightarrow> (\<forall>i k. c i = Some k \<longrightarrow> load_knot idx rd i = Inr k)"

definition plain_next :: "Index \<Rightarrow> Reader \<Rightarrow> string \<Rightarrow> string \<Rightarrow> (refusal, string list) result" where
  "plain_next idx rd edge i = rbind (load_knot idx rd i) (\<lambda>k. Inr (next_knots idx edge k))"

lemma good_cache_empty: "good_cache idx rd (\<lambda>_. None)"
  by (simp add: good_cache_def)

lemma graph_knot_Inr:
  "good_cache idx rd c \<Longrightarrow> graph_knot idx rd i c = Inr (k, c') \<Longrightarrow> load_knot idx rd i = Inr k \<and> good_cache idx rd c'"
  by (auto simp: graph_knot_def good_cache_def rbind_eq_Inr split: option.splits if_splits)

lemma graph_knot_load:
  "good_cache idx rd c \<Longrightarrow> load_knot idx rd i = Inr k \<Longrightarrow> \<exists>c'. graph_knot idx rd i c = Inr (k, c')"
  by (auto simp: graph_knot_def good_cache_def split: option.splits)

lemma graph_knot_Inl: "good_cache idx rd c \<Longrightarrow> graph_knot idx rd i c = Inl e \<Longrightarrow> load_knot idx rd i = Inl e"
  by (auto simp: graph_knot_def rbind_eq_Inl split: option.splits)

lemma load_knot_steps:
  "load_knot idx rd i = Inr k \<longleftrightarrow>
     (let f = at_key (ix_Knots idx) no_file i in
      \<exists>data. rd (fi_OID f) MaxKnotSize = Some data \<and> parseKnot (fi_Path f) (fi_Slug f) data = Inr k \<and>
        kn_ID k = fi_ID f \<and> kn_Type k = fi_Type f \<and> DeriveID (TypeOf k) (fi_Slug f) = kn_ID k)"
  unfolding load_knot_def Let_def
  by (cases "rd (fi_OID (at_key (ix_Knots idx) no_file i)) MaxKnotSize") (auto simp: rbind_eq_Inr)

lemma loaded_knot_ok: "load_knot idx rd i = Inr k \<Longrightarrow> knot_ok k"
  by (auto simp: load_knot_steps Let_def parseKnot_steps)

lemma loaded_ID: "load_knot idx rd i = Inr k \<Longrightarrow> IsLocalID (kn_ID k)"
  using loaded_knot_ok by (auto simp: knot_ok_def type_ok_def)

lemma load_knot_indexed:
  assumes "load_knot idx rd i = Inr k"
  shows "\<exists>f. map_of (ix_Knots idx) i = Some f"
proof (rule ccontr)
  assume "\<not> ?thesis"
  then have "map_of (ix_Knots idx) i = None" by simp
  then have "kn_ID k = []" using assms by (auto simp: load_knot_steps Let_def no_file_def)
  then show False using loaded_ID [OF assms] matches_nonempty(2) by simp
qed

interpretation kg: cached_reader "walk_load idx rd edge" "plain_next idx rd edge" "good_cache idx rd"
  "fst ` set (ix_Knots idx)" for idx rd edge
proof unfold_locales
  fix c i ns c'
  assume c: "good_cache idx rd c" "walk_load idx rd edge i c = Inr (ns, c')"
  then obtain k where "graph_knot idx rd i c = Inr (k, c')" "ns = next_knots idx edge k"
    by (auto simp: walk_load_def rbind_eq_Inr)
  then show "plain_next idx rd edge i = Inr ns \<and> good_cache idx rd c'"
    using graph_knot_Inr [OF c(1)] by (auto simp: plain_next_def)
next
  fix c i e
  assume c: "good_cache idx rd c" "walk_load idx rd edge i c = Inl e"
  then have "graph_knot idx rd i c = Inl e" by (auto simp: walk_load_def rbind_eq_Inl split: prod.splits)
  then show "plain_next idx rd edge i = Inl e" using graph_knot_Inl [OF c(1)] by (simp add: plain_next_def)
next
  fix i ns
  assume "plain_next idx rd edge i = Inr ns"
  then obtain f where "map_of (ix_Knots idx) i = Some f"
    using load_knot_indexed by (fastforce simp: plain_next_def rbind_eq_Inr)
  then show "i \<in> fst ` set (ix_Knots idx)" by (force dest: map_of_SomeD)
qed simp

lemma knots_fuel: "card (fst ` set (ix_Knots idx)) < Suc (length (ix_Knots idx))"
  using card_length [of "map fst (ix_Knots idx)"] by simp

lemma edge_cycles_decide:
  assumes "good_cache idx rd c"
  shows "check_edge_cycles idx rd from es c \<noteq> None"
    and "check_edge_cycles idx rd from es c = Some (Inr ()) \<longleftrightarrow>
      (\<forall>edge \<in> set es. \<forall>i \<in> set from. grounded (plain_next idx rd edge) i)"
  using assms
proof (induction es arbitrary: c)
  case (Cons edge es)
  {
    case 1
    note w = kg.walk_decides [OF 1 knots_fuel, where cyc = cycle_refusal and ns = "from"]
    show ?case using w(1,3) Cons.IH(1) by (auto split: option.splits sum.splits)
  next
    case 2
    let ?walk = "visit_each (walk_load idx rd edge) cycle_refusal (Suc (length (ix_Knots idx))) from (walk_start c)"
    note w = kg.walk_decides [OF 2 knots_fuel, where cyc = cycle_refusal and ns = "from"]
    show ?case
    proof (cases "\<exists>w. ?walk = Some (Inr w)")
      case True
      then obtain w' where w': "?walk = Some (Inr w')" by blast
      then have "\<forall>i \<in> set from. grounded (plain_next idx rd edge) i"
        by (intro iffD1 [OF w(2)] exI [of _ w'])
      then show ?thesis
        unfolding check_edge_cycles.simps w' option.case sum.case Cons.IH(2) [OF w(3) [OF w']] by simp
    next
      case False
      then have "\<not> (\<forall>i \<in> set from. grounded (plain_next idx rd edge) i)" unfolding w(2) .
      then show ?thesis using w(1) False by (auto split: option.splits sum.splits)
    qed
  }
qed simp_all

section \<open>What a check decides\<close>

definition changed_knot :: "Push \<Rightarrow> string \<Rightarrow> File" where
  "changed_knot p path = at_key (ix_Knots (pu_New p)) no_file (at_key (ix_knotAt (pu_New p)) [] path)"

definition path_fine :: "Push \<Rightarrow> bool \<Rightarrow> string \<Rightarrow> bool" where
  "path_fine p push path \<longleftrightarrow>
     (case map_of (ix_Comments (pu_New p)) path of
        Some cm \<Rightarrow> checkComment p cm push = Inr ()
      | None \<Rightarrow>
          (case load_knot (pu_New p) (pu_Read p) (fi_ID (changed_knot p path)) of
             Inl _ \<Rightarrow> False
           | Inr k \<Rightarrow> checkEdges (pu_New p) k = Inr () \<and> checkTransition p (changed_knot p path) k = Inr ()))"

definition touched_ids :: "Push \<Rightarrow> string list \<Rightarrow> string list" where
  "touched_ids p paths =
     map (\<lambda>path. fi_ID (changed_knot p path)) (filter (\<lambda>path. map_of (ix_Comments (pu_New p)) path = None) paths)"

lemma check_changed_sound:
  "check_changed p push paths c touched = Inr (c', t) \<Longrightarrow> good_cache (pu_New p) (pu_Read p) c \<Longrightarrow>
     good_cache (pu_New p) (pu_Read p) c' \<and> t = touched @ touched_ids p paths \<and> (\<forall>path \<in> set paths. path_fine p push path)"
proof (induction paths arbitrary: c touched)
  case (Cons path paths)
  show ?case
  proof (cases "map_of (ix_Comments (pu_New p)) path")
    case None
    then obtain k c1 where k: "graph_knot (pu_New p) (pu_Read p) (fi_ID (changed_knot p path)) c = Inr (k, c1)"
      "checkEdges (pu_New p) k = Inr ()" "checkTransition p (changed_knot p path) k = Inr ()"
      "check_changed p push paths c1 (touched @ [fi_ID (changed_knot p path)]) = Inr (c', t)"
      using Cons.prems(1) by (auto simp: rbind_eq_Inr Let_def changed_knot_def)
    note g = graph_knot_Inr [OF Cons.prems(2) k(1)]
    have "good_cache (pu_New p) (pu_Read p) c' \<and>
        t = (touched @ [fi_ID (changed_knot p path)]) @ touched_ids p paths \<and> (\<forall>path \<in> set paths. path_fine p push path)"
      using Cons.IH [OF k(4)] g by blast
    then show ?thesis
      using None k g by (simp add: touched_ids_def path_fine_def)
  next
    case (Some cm)
    then show ?thesis
      using Cons by (auto simp: rbind_eq_Inr touched_ids_def path_fine_def)
  qed
qed (simp add: touched_ids_def)

lemma check_changed_complete:
  "good_cache (pu_New p) (pu_Read p) c \<Longrightarrow> \<forall>path \<in> set paths. path_fine p push path \<Longrightarrow>
     \<exists>c'. check_changed p push paths c touched = Inr (c', touched @ touched_ids p paths)"
proof (induction paths arbitrary: c touched)
  case (Cons path paths)
  show ?case
  proof (cases "map_of (ix_Comments (pu_New p)) path")
    case None
    then obtain k where k: "load_knot (pu_New p) (pu_Read p) (fi_ID (changed_knot p path)) = Inr k"
      "checkEdges (pu_New p) k = Inr ()" "checkTransition p (changed_knot p path) k = Inr ()"
      using Cons.prems(2) by (auto simp: path_fine_def split: sum.splits)
    then obtain c1 where c1: "graph_knot (pu_New p) (pu_Read p) (fi_ID (changed_knot p path)) c = Inr (k, c1)"
      using graph_knot_load Cons.prems(1) by blast
    then have "good_cache (pu_New p) (pu_Read p) c1" using graph_knot_Inr Cons.prems(1) by blast
    then show ?thesis
      using Cons.IH [of c1 "touched @ [fi_ID (changed_knot p path)]"] Cons.prems(2) None k c1
      by (simp add: Let_def changed_knot_def touched_ids_def)
  next
    case (Some cm)
    then show ?thesis using Cons by (auto simp: path_fine_def touched_ids_def)
  qed
qed (simp add: touched_ids_def)

lemma check_push_decides:
  "check_push p push \<noteq> None"
  "check_push p push = Some (Inr ()) \<longleftrightarrow>
     gone_paths p = [] \<and> (push \<longrightarrow> length (changed_paths p) \<le> MaxChangedPaths) \<and>
     (\<forall>path \<in> set (changed_paths p). path_fine p push path) \<and>
     (\<forall>edge \<in> set edges. \<forall>i \<in> set (touched_ids p (changed_paths p)).
        grounded (plain_next (pu_New p) (pu_Read p) edge) i)"
proof -
  note start = good_cache_empty [of "pu_New p" "pu_Read p"]
  have cycles: "good_cache (pu_New p) (pu_Read p) c \<Longrightarrow> checkCycles (pu_New p) (pu_Read p) t c \<noteq> None"
    "good_cache (pu_New p) (pu_Read p) c \<Longrightarrow> checkCycles (pu_New p) (pu_Read p) t c = Some (Inr ()) \<longleftrightarrow>
      (\<forall>edge \<in> set edges. \<forall>i \<in> set t. grounded (plain_next (pu_New p) (pu_Read p) edge) i)" for c t
    unfolding checkCycles_def by (rule edge_cycles_decide; assumption)+
  show "check_push p push \<noteq> None"
    using check_changed_sound [OF _ start] cycles(1)
    by (auto simp: check_push_def split: list.splits sum.splits)
  show "check_push p push = Some (Inr ()) \<longleftrightarrow>
     gone_paths p = [] \<and> (push \<longrightarrow> length (changed_paths p) \<le> MaxChangedPaths) \<and>
     (\<forall>path \<in> set (changed_paths p). path_fine p push path) \<and>
     (\<forall>edge \<in> set edges. \<forall>i \<in> set (touched_ids p (changed_paths p)).
        grounded (plain_next (pu_New p) (pu_Read p) edge) i)"
  proof (cases "check_changed p push (changed_paths p) (\<lambda>_. None) []")
    case (Inl e)
    then have "\<not> (\<forall>path \<in> set (changed_paths p). path_fine p push path)"
      using check_changed_complete [OF start, of "changed_paths p" push "[]"] by auto
    then show ?thesis using Inl by (auto simp: check_push_def split: list.splits)
  next
    case (Inr ct)
    obtain c t where ct: "ct = (c, t)" by fastforce
    note s = check_changed_sound [OF Inr [unfolded ct] start]
    then show ?thesis
      using Inr cycles(2) [of c t] by (auto simp: check_push_def ct split: list.splits)
  qed
qed

text \<open>
  C28: a check always ends, whatever the graph and the push: the fuel of one more than the
  knots of the index is never used up, since the walk never goes below one knot twice.
\<close>

theorem Check_ends: "Check p \<noteq> None \<and> Validate idx rd \<noteq> None"
  by (simp add: Check_def Validate_def check_push_decides(1))

end
