(* ===== verification/KnownHash.thy ===== *)
theory KnownHash
  imports Sha256
begin

text \<open>
  One SHA-256 digest, computed: the first seven hex digits of the digest of the one-byte text
  \<^verbatim>\<open>a\<close>, which the ID of a knot with that slug carries.
\<close>

lemma sha256_a: "take 7 (sha256_hex ''a'') = ''ca97811''"
  by code_simp

end
