(* ===== verification/KnotSample.thy ===== *)
theory KnotSample
  imports KnotGraph KnownHash "HOL-Library.Code_Target_Nat"
begin

text \<open>
  A small graph the theorems about pushes are applied to: an outcome whose slug is \<^verbatim>\<open>a\<close>, a
  push that creates the graph with it, and a second push that renames it and comments on it.
\<close>

definition sample_type :: Type where
  "sample_type = Types ! 0"

definition sample_id :: string where "sample_id = ''oc-ca97811''"

definition sample_knot :: "string \<Rightarrow> Knot" where
  "sample_knot title = no_knot\<lparr>kn_Type := ''outcome'', kn_ID := sample_id, kn_Status := ''open'', kn_Title := title,
     kn_Created := ''2026-09-01'', kn_CreatedBy := ''ada'', kn_BlockedBy := Some [], kn_Slug := ''a''\<rparr>"

definition sample_comment :: Comment where
  "sample_comment = \<lparr>cm_Author = ''bob'', cm_Body = ''Go'' @ [newline], cm_Edited = [], cm_EditedBy = []\<rparr>"

definition knot_path :: string where "knot_path = ''outcomes/oc-ca97811-a.md''"
definition comment_path :: string where
  "comment_path = ''comments/oc-ca97811/20260901T120000Z-0123456789abcdef.md''"

definition sample_read :: Reader where
  "sample_read oid n =
     (if oid = ''k1'' then Some (Render (sample_knot ''A''))
      else if oid = ''k2'' then Some (Render (sample_knot ''B''))
      else if oid = ''c1'' then Some (RenderComment sample_comment)
      else None)"

definition dir_entry :: "string \<Rightarrow> Entry" where
  "dir_entry p = \<lparr>en_Path = p, en_Mode = ''40000'', en_OID = ''t''\<rparr>"

definition file_entry :: "string \<Rightarrow> string \<Rightarrow> Entry" where
  "file_entry p oid = \<lparr>en_Path = p, en_Mode = ''100644'', en_OID = oid\<rparr>"

definition sample1 :: "Entry list" where
  "sample1 = [dir_entry ''outcomes'', file_entry knot_path ''k1'']"

definition sample2 :: "Entry list" where
  "sample2 = [dir_entry ''comments'', dir_entry ''comments/oc-ca97811'', file_entry comment_path ''c1'',
     dir_entry ''outcomes'', file_entry knot_path ''k2'']"

definition sample_file :: "string \<Rightarrow> File" where
  "sample_file oid = \<lparr>fi_Path = knot_path, fi_OID = oid, fi_ID = sample_id, fi_Type = ''outcome'', fi_Slug = ''a'',
     fi_Stamp = [], fi_Op = []\<rparr>"

definition sample_comment_file :: File where
  "sample_comment_file = \<lparr>fi_Path = comment_path, fi_OID = ''c1'', fi_ID = sample_id, fi_Type = [], fi_Slug = [],
     fi_Stamp = ''20260901T120000Z'', fi_Op = ''0123456789abcdef''\<rparr>"

definition index1 :: Index where
  "index1 = \<lparr>ix_Knots = [(sample_id, sample_file ''k1'')], ix_Comments = [], ix_Files = [(knot_path, ''k1'')],
     ix_knotAt = [(knot_path, sample_id)]\<rparr>"

definition index2 :: Index where
  "index2 = \<lparr>ix_Knots = [(sample_id, sample_file ''k2'')], ix_Comments = [(comment_path, sample_comment_file)],
     ix_Files = [(comment_path, ''c1''), (knot_path, ''k2'')], ix_knotAt = [(knot_path, sample_id)]\<rparr>"

lemma sample_layout: "Layout sample1 = Inr index1" "Layout sample2 = Inr index2"
  by code_simp+

lemma sample_parse:
  "parseKnot knot_path ''a'' (Render (sample_knot ''A'')) = Inr (sample_knot ''A'')"
  "parseKnot knot_path ''a'' (Render (sample_knot ''B'')) = Inr (sample_knot ''B'')"
  "parseComment comment_path (RenderComment sample_comment) = Inr sample_comment"
  by code_simp+

lemma sample_objects:
  "sample_read ''k1'' n = Some (Render (sample_knot ''A''))"
  "sample_read ''k2'' n = Some (Render (sample_knot ''B''))"
  "sample_read ''c1'' n = Some (RenderComment sample_comment)"
  by (simp_all add: sample_read_def)

lemma sample_derived: "DeriveID (TypeOf (sample_knot title)) ''a'' = sample_id"
proof -
  have "ty_Prefix (TypeOf (sample_knot title)) = ''oc''"
    by (simp add: TypeOf_def TypeNamed_def Types_def sample_knot_def no_knot_def)
  then show ?thesis by (simp only: DeriveID_def sha256_a sample_id_def append.simps)
qed

lemma sample_fields:
  "kn_ID (sample_knot title) = sample_id" "kn_Type (sample_knot title) = ''outcome''"
  "kn_CreatedBy (sample_knot title) = ''ada''" "kn_Created (sample_knot title) = ''2026-09-01''"
  "kn_Parent (sample_knot title) = []" "kn_GraduatedInto (sample_knot title) = []"
  "kn_BlockedBy (sample_knot title) = Some []"
  by (simp_all add: sample_knot_def no_knot_def)

lemma sample_load:
  "load_knot index1 sample_read sample_id = Inr (sample_knot ''A'')"
  "load_knot index2 sample_read sample_id = Inr (sample_knot ''B'')"
  by (simp_all add: load_knot_def index1_def index2_def at_key_def sample_file_def sample_objects sample_parse
      sample_derived sample_fields)

lemma sample_edges: "checkEdges idx (sample_knot title) = Inr ()"
  by (simp add: checkEdges_def sample_fields)

lemma sample_grounded:
  "grounded (plain_next index1 sample_read edge) sample_id"
  "grounded (plain_next index2 sample_read edge) sample_id"
proof -
  have "plain_next index1 sample_read edge sample_id = Inr []" "plain_next index2 sample_read edge sample_id = Inr []"
    by (simp_all add: plain_next_def sample_load next_knots_def sample_fields)
  then show "grounded (plain_next index1 sample_read edge) sample_id"
    "grounded (plain_next index2 sample_read edge) sample_id"
    by (auto intro: grounded.grounded)
qed

definition push1 :: Push where
  "push1 = \<lparr>pu_Old = None, pu_New = index1, pu_Read = sample_read, pu_Pusher = ''ada'', pu_MayEdit = Some (\<lambda>_. False)\<rparr>"

definition push2 :: Push where
  "push2 = \<lparr>pu_Old = Some index1, pu_New = index2, pu_Read = sample_read, pu_Pusher = ''bob'', pu_MayEdit = Some (\<lambda>_. False)\<rparr>"

lemma sample_changed:
  "changed_paths push1 = [knot_path]" "gone_paths push1 = []" "touched_ids push1 [knot_path] = [sample_id]"
  "changed_paths push2 = [comment_path, knot_path]" "gone_paths push2 = []"
  "touched_ids push2 [comment_path, knot_path] = [sample_id]"
  by code_simp+

lemma sample_comment_ok: "checkComment push2 sample_comment_file True = Inr ()"
  by code_simp

lemma sample_transitions:
  "checkTransition push1 (sample_file ''k1'') (sample_knot ''A'') = Inr ()"
  "checkTransition push2 (sample_file ''k2'') (sample_knot ''B'') = Inr ()"
  by code_simp+

lemma sample_found:
  "changed_knot push1 knot_path = sample_file ''k1''" "changed_knot push2 knot_path = sample_file ''k2''"
  "map_of (ix_Comments index1) knot_path = None" "map_of (ix_Comments index2) knot_path = None"
  "map_of (ix_Comments index2) comment_path = Some sample_comment_file"
  by code_simp+

lemma sample_pushes: "Check push1 = Some (Inr ())" "Check push2 = Some (Inr ())"
proof -
  have new: "pu_New push1 = index1" "pu_New push2 = index2" "pu_Read push1 = sample_read" "pu_Read push2 = sample_read"
    by (simp_all add: push1_def push2_def)
  have id: "fi_ID (sample_file oid) = sample_id" for oid by (simp add: sample_file_def)
  show "Check push1 = Some (Inr ())"
    unfolding Check_def check_push_decides(2) sample_changed new
    by (simp add: path_fine_def new sample_found id sample_load sample_edges sample_transitions sample_grounded
        MaxChangedPaths_def)
  show "Check push2 = Some (Inr ())"
    unfolding Check_def check_push_decides(2) sample_changed new
    by (simp add: path_fine_def new sample_found id sample_load sample_edges sample_transitions sample_grounded
        sample_comment_ok MaxChangedPaths_def)
qed

end
