(* ===== verification/KnotHistory.thy ===== *)
theory KnotHistory
  imports KnotGraph
begin

text \<open>
  What the push check of \<^verbatim>\<open>knot/graph.go\<close> promises of a graph. A check reads only what a push
  changed; a graph every push of which was accepted is nevertheless one that the check of a
  whole graph passes, and no accepted push takes away a knot or changes what it is.
\<close>

section \<open>A valid graph\<close>

definition knot_fine :: "Index \<Rightarrow> Reader \<Rightarrow> string \<Rightarrow> bool" where
  "knot_fine idx rd i \<longleftrightarrow>
     (case load_knot idx rd i of Inl _ \<Rightarrow> False | Inr k \<Rightarrow> checkEdges idx k = Inr ())"

definition comment_fine :: "Index \<Rightarrow> Reader \<Rightarrow> File \<Rightarrow> bool" where
  "comment_fine idx rd f \<longleftrightarrow> map_of (ix_Knots idx) (fi_ID f) \<noteq> None \<and>
     (case rd (fi_OID f) MaxCommentSize of
        None \<Rightarrow> False
      | Some data \<Rightarrow> (case parseComment (fi_Path f) data of Inl _ \<Rightarrow> False | Inr _ \<Rightarrow> True))"

definition all_fine :: "Index \<Rightarrow> Reader \<Rightarrow> bool" where
  "all_fine idx rd \<longleftrightarrow> list_all (\<lambda>(i, _). knot_fine idx rd i) (ix_Knots idx) \<and>
     list_all (\<lambda>(_, f). comment_fine idx rd f) (ix_Comments idx)"

text \<open>Every knot and comment is fine, and no edge of either kind leads from a knot back to it.\<close>

definition edge_leads :: "Index \<Rightarrow> Reader \<Rightarrow> string \<Rightarrow> string \<Rightarrow> string \<Rightarrow> bool" where
  "edge_leads idx rd edge = leads (plain_next idx rd edge)"

definition valid_graph :: "Index \<Rightarrow> Reader \<Rightarrow> bool" where
  "valid_graph idx rd \<longleftrightarrow> all_fine idx rd \<and>
     (\<forall>i. \<not> (edge_leads idx rd ''parent'')\<^sup>+\<^sup>+ i i) \<and> (\<forall>i. \<not> (edge_leads idx rd ''blocked_by'')\<^sup>+\<^sup>+ i i)"

section \<open>Files and paths\<close>

lemma index_members:
  assumes L: "Layout es = Inr idx"
  shows knots_mem: "(i, f) \<in> set (ix_Knots idx) \<longleftrightarrow> f \<in> set (files es) \<and> is_knot f \<and> fi_ID f = i"
    and comments_mem: "(q, f) \<in> set (ix_Comments idx) \<longleftrightarrow> f \<in> set (files es) \<and> \<not> is_knot f \<and> fi_Path f = q"
    and files_mem: "(q, oid) \<in> set (ix_Files idx) \<longleftrightarrow> (\<exists>f \<in> set (files es). fi_Path f = q \<and> fi_OID f = oid)"
  using Layout_files [OF L] by (auto simp: index_of_def)

lemma index_list_all:
  assumes L: "Layout es = Inr idx"
  shows "list_all (\<lambda>(i, f). P i f) (ix_Knots idx) \<longleftrightarrow> (\<forall>f \<in> set (files es). is_knot f \<longrightarrow> P (fi_ID f) f)"
    and "list_all (\<lambda>(q, f). P q f) (ix_Comments idx) \<longleftrightarrow> (\<forall>f \<in> set (files es). \<not> is_knot f \<longrightarrow> P (fi_Path f) f)"
  by (auto simp: Layout_files(1) [OF L] index_of_def list_all_iff)

lemma at_ID:
  "Layout es = Inr idx \<Longrightarrow> f \<in> set (files es) \<Longrightarrow> is_knot f \<Longrightarrow> at_key (ix_Knots idx) no_file (fi_ID f) = f"
  using index_lookup(2) [of es idx "fi_ID f" f] by simp

lemma at_path:
  assumes L: "Layout es = Inr idx" and f: "f \<in> set (files es)" and p: "pu_New p = idx"
  shows "is_knot f \<Longrightarrow> map_of (ix_Comments idx) (fi_Path f) = None"
    and "is_knot f \<Longrightarrow> changed_knot p (fi_Path f) = f"
    and "\<not> is_knot f \<Longrightarrow> map_of (ix_Comments idx) (fi_Path f) = Some f"
proof -
  have same: "g \<in> set (files es) \<Longrightarrow> fi_Path g = fi_Path f \<Longrightarrow> g = f" for g
    by (rule inj_onD [of fi_Path "set (files es)"])
      (use files_distinct [OF Layout_files(2) [OF L]] f in \<open>simp_all only: distinct_map\<close>)
  show "map_of (ix_Comments idx) (fi_Path f) = None" if "is_knot f"
  proof (cases "map_of (ix_Comments idx) (fi_Path f)")
    case (Some g)
    then show ?thesis using index_lookup(3) [OF L, of "fi_Path f" g] same [of g] that by simp
  qed
  show "map_of (ix_Comments idx) (fi_Path f) = Some f" if "\<not> is_knot f"
    using index_lookup(3) [OF L] f that by blast
  show "changed_knot p (fi_Path f) = f" if "is_knot f"
  proof -
    have "map_of (ix_knotAt idx) (fi_Path f) = Some (fi_ID f)"
      using index_lookup(4) [OF L] f that by blast
    then show ?thesis using at_ID [OF L f that] p by (simp add: changed_knot_def)
  qed
qed

text \<open>Which paths a check of a push visits, and what it holds the file at each to.\<close>

lemma changed_paths_set:
  assumes "Layout es = Inr (pu_New p)"
  shows "set (changed_paths p) =
    fi_Path ` {f \<in> set (files es). pu_Old p = None \<or> old_file p (fi_Path f) \<noteq> fi_OID f}"
proof -
  have "ix_Files (pu_New p) = map (\<lambda>f. (fi_Path f, fi_OID f)) (files es)"
    by (simp add: Layout_files(1) [OF assms] index_of_def)
  then show ?thesis by (simp add: changed_paths_def filter_map comp_def image_image)
qed

lemma checkComment_fine: "checkComment p f push = Inr () \<Longrightarrow> comment_fine (pu_New p) (pu_Read p) f"
  by (auto simp: checkComment_def comment_fine_def rbind_eq_Inr split: if_splits option.splits sum.splits)

lemma path_fine_file:
  assumes "Layout es = Inr (pu_New p)" "f \<in> set (files es)" "path_fine p push (fi_Path f)"
  shows "is_knot f \<Longrightarrow> knot_fine (pu_New p) (pu_Read p) (fi_ID f)"
    and "\<not> is_knot f \<Longrightarrow> comment_fine (pu_New p) (pu_Read p) f"
  using at_path [OF assms(1,2) refl] assms(3) checkComment_fine
  by (auto simp: path_fine_def knot_fine_def split: sum.splits)

section \<open>Acyclic and grounded\<close>

lemma next_indexed:
  assumes "knot_fine idx rd i" "plain_next idx rd edge i = Inr ns" "j \<in> set ns"
  shows "\<exists>f. map_of (ix_Knots idx) j = Some f"
proof -
  obtain k where k: "load_knot idx rd i = Inr k" "ns = next_knots idx edge k" "checkEdges idx k = Inr ()"
    using assms(1,2) by (auto simp: knot_fine_def plain_next_def rbind_eq_Inr split: sum.splits)
  then show ?thesis
    using assms(3)
    by (auto simp: next_knots_def checkEdges_def resolve_def rbind_eq_Inr split: if_splits option.splits)
qed

lemma all_fine_loads:
  assumes "all_fine idx rd" "map_of (ix_Knots idx) i = Some f"
  shows "knot_fine idx rd i" "\<exists>ns. plain_next idx rd edge i = Inr ns"
proof -
  have "(i, f) \<in> set (ix_Knots idx)" using assms(2) by (rule map_of_SomeD)
  then show "knot_fine idx rd i" using assms(1) by (auto simp: all_fine_def list_all_iff)
  then show "\<exists>ns. plain_next idx rd edge i = Inr ns"
    by (auto simp: knot_fine_def plain_next_def split: sum.splits)
qed

lemma grounded_acyclic_iff:
  assumes fine: "all_fine idx rd"
  shows "(\<forall>i \<in> fst ` set (ix_Knots idx). grounded (plain_next idx rd edge) i) \<longleftrightarrow>
    (\<forall>i. \<not> (edge_leads idx rd edge)\<^sup>+\<^sup>+ i i)"
proof
  assume g: "\<forall>i \<in> fst ` set (ix_Knots idx). grounded (plain_next idx rd edge) i"
  show "\<forall>i. \<not> (edge_leads idx rd edge)\<^sup>+\<^sup>+ i i"
  proof (intro allI notI)
    fix i
    assume c: "(edge_leads idx rd edge)\<^sup>+\<^sup>+ i i"
    then obtain ns where "plain_next idx rd edge i = Inr ns"
      by (auto simp: edge_leads_def leads_def split: sum.splits dest!: tranclpD)
    then have "i \<in> fst ` set (ix_Knots idx)" by (rule kg.reads_node)
    then show False using g c grounded_acyclic by (fastforce simp: edge_leads_def)
  qed
next
  assume acyc: "\<forall>i. \<not> (edge_leads idx rd edge)\<^sup>+\<^sup>+ i i"
  show "\<forall>i \<in> fst ` set (ix_Knots idx). grounded (plain_next idx rd edge) i"
  proof
    fix i
    assume "i \<in> fst ` set (ix_Knots idx)"
    then obtain f where i: "map_of (ix_Knots idx) i = Some f"
      by (metis domD dom_map_of_conv_image_fst)
    have reach: "(leads (plain_next idx rd edge))\<^sup>*\<^sup>* i j \<Longrightarrow> \<exists>f. map_of (ix_Knots idx) j = Some f" for j
    proof (induction rule: rtranclp_induct)
      case (step j m)
      then obtain ns where "plain_next idx rd edge j = Inr ns" "m \<in> set ns"
        by (auto simp: leads_def split: sum.splits)
      then show ?case using next_indexed all_fine_loads(1) [OF fine] step.IH by blast
    qed (use i in blast)
    show "grounded (plain_next idx rd edge) i"
    proof (rule acyclic_grounded [of "fst ` set (ix_Knots idx)"])
      show "\<exists>ns. plain_next idx rd edge j = Inr ns" if "(leads (plain_next idx rd edge))\<^sup>*\<^sup>* i j" for j
        using reach [OF that] all_fine_loads(2) [OF fine] by blast
      show "\<not> (leads (plain_next idx rd edge))\<^sup>+\<^sup>+ j j" for j
        using acyc by (simp add: edge_leads_def)
    qed (auto dest: kg.reads_node)
  qed
qed

lemma valid_graph_grounded:
  "valid_graph idx rd \<longleftrightarrow> all_fine idx rd \<and>
     (\<forall>edge \<in> set edges. \<forall>i \<in> fst ` set (ix_Knots idx). grounded (plain_next idx rd edge) i)"
  using grounded_acyclic_iff [of idx rd] by (auto simp: valid_graph_def edges_def)

section \<open>The check of a whole graph\<close>

lemma touched_knots:
  assumes L: "Layout es = Inr (pu_New p)"
  shows "i \<in> set (touched_ids p (changed_paths p)) \<longleftrightarrow>
    (\<exists>f \<in> set (files es). is_knot f \<and> fi_ID f = i \<and> fi_Path f \<in> set (changed_paths p))"
proof
  assume "i \<in> set (touched_ids p (changed_paths p))"
  then obtain q where q: "q \<in> set (changed_paths p)" "map_of (ix_Comments (pu_New p)) q = None"
    "i = fi_ID (changed_knot p q)"
    by (auto simp: touched_ids_def)
  from q(1) obtain f where f: "f \<in> set (files es)" "q = fi_Path f"
    unfolding changed_paths_set [OF L] by blast
  then have "is_knot f" using at_path(3) [OF L f(1) refl] q(2) by (cases "is_knot f") simp_all
  then show "\<exists>f \<in> set (files es). is_knot f \<and> fi_ID f = i \<and> fi_Path f \<in> set (changed_paths p)"
    using at_path(2) [OF L f(1) refl] q f by (intro bexI [of _ f]) simp_all
next
  assume "\<exists>f \<in> set (files es). is_knot f \<and> fi_ID f = i \<and> fi_Path f \<in> set (changed_paths p)"
  then obtain f where f: "f \<in> set (files es)" "is_knot f" "fi_ID f = i" "fi_Path f \<in> set (changed_paths p)" by blast
  then show "i \<in> set (touched_ids p (changed_paths p))"
    using at_path(1,2) [OF L f(1) refl f(2)]
    unfolding touched_ids_def set_map set_filter by (intro image_eqI [of _ _ "fi_Path f"]) simp_all
qed

lemma knot_ids:
  assumes L: "Layout es = Inr idx"
  shows "i \<in> fst ` set (ix_Knots idx) \<longleftrightarrow> (\<exists>f \<in> set (files es). is_knot f \<and> fi_ID f = i)"
  by (simp add: Layout_files(1) [OF L] index_of_def image_image image_iff) blast

lemma all_fine_files:
  assumes L: "Layout es = Inr idx"
  shows "all_fine idx rd \<longleftrightarrow>
    (\<forall>f \<in> set (files es). if is_knot f then knot_fine idx rd (fi_ID f) else comment_fine idx rd f)"
  unfolding all_fine_def index_list_all [OF L] by auto

lemma whole_path_fine:
  assumes L: "Layout es = Inr idx" and f: "f \<in> set (files es)"
    and p: "p = \<lparr>pu_Old = None, pu_New = idx, pu_Read = rd, pu_Pusher = [], pu_MayEdit = None\<rparr>"
  shows "path_fine p False (fi_Path f) \<longleftrightarrow>
    (if is_knot f then knot_fine idx rd (fi_ID f) else comment_fine idx rd f)"
proof -
  have new: "pu_New p = idx" "pu_Read p = rd" by (simp_all add: p)
  have t: "checkTransition p g k = Inr ()" for g k
    by (simp add: checkTransition_def old_knot_def p no_file_def)
  have c: "checkComment p g False = Inr () \<longleftrightarrow> comment_fine idx rd g" for g
    by (auto simp: checkComment_def comment_fine_def p rbind_eq_Inr split: option.splits sum.splits)
  show ?thesis
    using at_path [OF L f new(1)] by (auto simp: path_fine_def new t c knot_fine_def split: sum.splits)
qed

lemma whole_graph_passes:
  assumes L: "Layout es = Inr idx"
  shows "Validate idx rd = Some (Inr ()) \<longleftrightarrow> valid_graph idx rd"
proof -
  define p where p: "p = \<lparr>pu_Old = None, pu_New = idx, pu_Read = rd, pu_Pusher = [], pu_MayEdit = None\<rparr>"
  have new: "pu_New p = idx" "pu_Read p = rd" by (simp_all add: p)
  note Lp = L [folded new(1)]
  have all: "set (changed_paths p) = fi_Path ` set (files es)"
    unfolding changed_paths_set [OF Lp] by (simp add: p)
  have fine: "(\<forall>q \<in> set (changed_paths p). path_fine p False q) \<longleftrightarrow> all_fine idx rd"
    unfolding all all_fine_files [OF L] using whole_path_fine [OF L _ p] by simp
  have touched: "set (touched_ids p (changed_paths p)) = fst ` set (ix_Knots idx)"
    by (intro set_eqI) (use all in \<open>simp only: touched_knots [OF Lp] knot_ids [OF L]; blast\<close>)
  have gone: "gone_paths p = []" by (simp add: gone_paths_def p)
  show ?thesis
    unfolding Validate_def p [symmetric] check_push_decides(2) valid_graph_grounded fine touched gone new
    by simp
qed

text \<open>
  C20: the check of a whole graph passes exactly when every knot reads, is named, typed and
  derived as its file says and has edges that resolve, every comment reads and is on a knot,
  and neither kind of edge has a cycle.
\<close>

theorem Validate_iff:
  assumes "Layout es = Inr idx"
  shows "Validate idx rd = Some (Inr ()) \<longleftrightarrow> valid_graph idx rd"
  by (rule whole_graph_passes [OF assms])

section \<open>A push keeps a graph valid\<close>

text \<open>A listing gives every entry its object, and an object's name is never empty.\<close>

definition named_objects :: "Entry list \<Rightarrow> bool" where
  "named_objects es \<longleftrightarrow> list_all (\<lambda>e. en_OID e \<noteq> []) es"

lemma named_objects_files:
  "Layout es = Inr idx \<Longrightarrow> named_objects es \<Longrightarrow> f \<in> set (files es) \<Longrightarrow> fi_OID f \<noteq> []"
  using Layout_files(2) [of es idx]
  by (auto simp: named_objects_def list_all_iff files_def entries_ok_def dest!: entry_ok_file)

text \<open>
  What holds between the two indexes of an accepted push: a file whose object is as it was is
  the file it was, and every file there was is there.
\<close>

lemma unchanged_file:
  assumes Lo: "Layout es = Inr old" and Ln: "Layout es' = Inr (pu_New p)" and p: "pu_Old p = Some old"
    and f: "f \<in> set (files es')" "named_objects es'" "fi_Path f \<notin> set (changed_paths p)"
  shows "f \<in> set (files es)"
proof -
  have same: "old_file p (fi_Path f) = fi_OID f"
    using f changed_paths_set [OF Ln] by auto
  then obtain oid where oid: "map_of (ix_Files old) (fi_Path f) = Some oid" "oid = fi_OID f"
    using named_objects_files [OF Ln f(2,1)] p by (auto simp: old_file_def at_key_def split: option.splits)
  then obtain g where "g \<in> set (files es)" "fi_Path g = fi_Path f" "fi_OID g = fi_OID f"
    using index_lookup(1) [OF Lo] by blast
  then show ?thesis using files_same [OF Lo _ Ln f(1)] by metis
qed

lemma kept_file:
  assumes Lo: "Layout es = Inr old" and Ln: "Layout es' = Inr (pu_New p)" and p: "pu_Old p = Some old"
    and gone: "gone_paths p = []" and f: "f \<in> set (files es)"
  obtains g where "g \<in> set (files es')" "fi_Path g = fi_Path f" "fi_ID g = fi_ID f" "fi_Type g = fi_Type f"
    "fi_Slug g = fi_Slug f" "is_knot g \<longleftrightarrow> is_knot f"
proof -
  have "(fi_Path f, fi_OID f) \<in> set (ix_Files old)" using files_mem [OF Lo] f by blast
  then have "map_of (ix_Files (pu_New p)) (fi_Path f) \<noteq> None"
    using arg_cong [OF gone, of set] by (simp add: gone_paths_def p) blast
  then obtain g where "g \<in> set (files es')" "fi_Path g = fi_Path f"
    using index_lookup(1) [OF Ln] by blast
  then show thesis using that files_same_name [OF Ln _ Lo f] by (simp add: is_knot_def)
qed

lemma kept_knot:
  assumes "Layout es = Inr old" "Layout es' = Inr (pu_New p)" "pu_Old p = Some old" "gone_paths p = []"
    and "map_of (ix_Knots old) i = Some f"
  obtains g where "map_of (ix_Knots (pu_New p)) i = Some g" "fi_Path g = fi_Path f" "fi_Type g = fi_Type f"
    "fi_Slug g = fi_Slug f"
proof -
  have f: "f \<in> set (files es)" "is_knot f" "fi_ID f = i"
    using assms(5) index_lookup(2) [OF assms(1)] by blast+
  obtain g where g: "g \<in> set (files es')" "fi_Path g = fi_Path f" "fi_ID g = fi_ID f" "fi_Type g = fi_Type f"
    "fi_Slug g = fi_Slug f" "is_knot g \<longleftrightarrow> is_knot f"
    using kept_file [OF assms(1-4) f(1)] by blast
  then show thesis using that [of g] index_lookup(2) [OF assms(2), of i g] f by simp
qed

lemma kept_edges:
  assumes "\<And>j f. map_of (ix_Knots old) j = Some f \<Longrightarrow> \<exists>g. map_of (ix_Knots idx) j = Some g \<and> fi_Type g = fi_Type f"
    and "checkEdges old k = Inr ()"
  shows "checkEdges idx k = Inr ()"
proof -
  have r: "resolve old k j want = Inr () \<Longrightarrow> resolve idx k j want = Inr ()" for j want
    using assms(1) [of j] by (auto simp: resolve_def split: option.splits if_splits)
  show ?thesis
    using assms(2) r unfolding checkEdges_def rbind_unit_eq_Inr check_all_ok
    by (auto split: if_splits)
qed

lemma kept_next:
  assumes keep: "\<And>j f. map_of (ix_Knots old) j = Some f \<Longrightarrow> \<exists>g. map_of (ix_Knots idx) j = Some g"
    and loc: "\<And>j f. map_of (ix_Knots idx) j = Some f \<Longrightarrow> IsLocalID j"
    and "checkEdges old k = Inr ()"
  shows "next_knots old edge k = next_knots idx edge k"
proof -
  have "map_of (ix_Knots old) ref \<noteq> None \<longleftrightarrow> map_of (ix_Knots idx) ref \<noteq> None" if "ref \<in> set (elems (kn_BlockedBy k))" for ref
  proof (cases "IsLocalID ref")
    case True
    then have "resolve old k ref [] = Inr ()"
      using assms(3) that unfolding checkEdges_def rbind_unit_eq_Inr check_all_ok by force
    then show ?thesis using keep [of ref] by (auto simp: resolve_def split: option.splits)
  next
    case False
    then show ?thesis using keep [of ref] loc [of ref] by (metis option.exhaust)
  qed
  then have "filter (\<lambda>ref. map_of (ix_Knots old) ref \<noteq> None) (elems (kn_BlockedBy k)) =
      filter (\<lambda>ref. map_of (ix_Knots idx) ref \<noteq> None) (elems (kn_BlockedBy k))"
    by (intro filter_cong) auto
  then show ?thesis unfolding next_knots_def by simp
qed

lemma accepted_push:
  assumes "Check p = Some (Inr ())"
  shows "gone_paths p = []" "length (changed_paths p) \<le> MaxChangedPaths"
    "q \<in> set (changed_paths p) \<Longrightarrow> path_fine p True q"
    "edge \<in> set edges \<Longrightarrow> i \<in> set (touched_ids p (changed_paths p)) \<Longrightarrow>
       grounded (plain_next (pu_New p) (pu_Read p) edge) i"
  using assms by (simp_all add: Check_def check_push_decides(2))

lemma unchanged_fine:
  assumes Lo: "Layout es = Inr old" and Ln: "Layout es' = Inr (pu_New p)" and p: "pu_Old p = Some old"
    and gone: "gone_paths p = []" and f: "f \<in> set (files es)" "f \<in> set (files es')"
    and fine: "all_fine old (pu_Read p)"
  shows "if is_knot f then knot_fine (pu_New p) (pu_Read p) (fi_ID f) else comment_fine (pu_New p) (pu_Read p) f"
proof (cases "is_knot f")
  case True
  have keep: "\<exists>g. map_of (ix_Knots (pu_New p)) j = Some g \<and> fi_Type g = fi_Type h"
    if "map_of (ix_Knots old) j = Some h" for j h
    using kept_knot [OF Lo Ln p gone that] by metis
  have same: "load_knot (pu_New p) (pu_Read p) (fi_ID f) = load_knot old (pu_Read p) (fi_ID f)"
    using at_ID [OF Ln f(2) True] at_ID [OF Lo f(1) True]
    by (simp add: load_knot_def)
  have "knot_fine old (pu_Read p) (fi_ID f)"
    using fine f(1) True unfolding all_fine_files [OF Lo] by auto
  then show ?thesis
    using True same kept_edges [of old "pu_New p", OF keep] by (auto simp: knot_fine_def split: sum.splits)
next
  case False
  then have c: "comment_fine old (pu_Read p) f" using fine f(1) unfolding all_fine_files [OF Lo] by auto
  then obtain h where "map_of (ix_Knots old) (fi_ID f) = Some h" by (auto simp: comment_fine_def)
  from kept_knot [OF Lo Ln p gone this] obtain g where "map_of (ix_Knots (pu_New p)) (fi_ID f) = Some g" by blast
  then show ?thesis using False c by (simp add: comment_fine_def)
qed

lemma unchanged_next:
  assumes Lo: "Layout es = Inr old" and Ln: "Layout es' = Inr (pu_New p)" and p: "pu_Old p = Some old"
    and gone: "gone_paths p = []" and fine: "all_fine old (pu_Read p)"
    and f: "f \<in> set (files es)" "f \<in> set (files es')" "is_knot f"
  shows "plain_next (pu_New p) (pu_Read p) edge (fi_ID f) = plain_next old (pu_Read p) edge (fi_ID f)"
proof -
  have keep: "\<exists>g. map_of (ix_Knots (pu_New p)) j = Some g" if "map_of (ix_Knots old) j = Some h" for j h
    using kept_knot [OF Lo Ln p gone that] by metis
  have same: "load_knot (pu_New p) (pu_Read p) (fi_ID f) = load_knot old (pu_Read p) (fi_ID f)"
    using at_ID [OF Ln f(2,3)] at_ID [OF Lo f(1,3)]
    by (simp add: load_knot_def)
  have "knot_fine old (pu_Read p) (fi_ID f)"
    using fine f(1,3) unfolding all_fine_files [OF Lo] by auto
  then obtain k where k: "load_knot old (pu_Read p) (fi_ID f) = Inr k" "checkEdges old k = Inr ()"
    by (auto simp: knot_fine_def split: sum.splits)
  have "next_knots old edge k = next_knots (pu_New p) edge k"
    by (rule kept_next [OF keep index_knot_ID(1) [OF Ln] k(2)])
  then show ?thesis using same k(1) by (simp add: plain_next_def)
qed

lemma push_keeps_valid_graph:
  assumes Lo: "Layout es = Inr old" and Ln: "Layout es' = Inr (pu_New p)" "named_objects es'"
    and p: "pu_Old p = Some old" and valid: "valid_graph old (pu_Read p)" and ok: "Check p = Some (Inr ())"
  shows "valid_graph (pu_New p) (pu_Read p)"
proof -
  note acc = accepted_push [OF ok]
  have fine: "all_fine old (pu_Read p)" using valid by (simp add: valid_graph_def)
  have was: "f \<in> set (files es)" if "f \<in> set (files es')" "fi_Path f \<notin> set (changed_paths p)" for f
    by (rule unchanged_file [OF Lo Ln(1) p that(1) Ln(2) that(2)])
  have "all_fine (pu_New p) (pu_Read p)"
    unfolding all_fine_files [OF Ln(1)]
  proof
    fix f
    assume f: "f \<in> set (files es')"
    show "if is_knot f then knot_fine (pu_New p) (pu_Read p) (fi_ID f) else comment_fine (pu_New p) (pu_Read p) f"
    proof (cases "fi_Path f \<in> set (changed_paths p)")
      case True
      then show ?thesis using path_fine_file [OF Ln(1) f acc(3)] by simp
    next
      case False
      then show ?thesis using unchanged_fine [OF Lo Ln(1) p acc(1) was f fine] f by blast
    qed
  qed
  moreover have "grounded (plain_next (pu_New p) (pu_Read p) edge) i"
    if edge: "edge \<in> set edges" and i: "i \<in> fst ` set (ix_Knots (pu_New p))" for edge i
  proof -
    have step: "grounded (plain_next (pu_New p) (pu_Read p) edge) (fi_ID f) \<or>
        f \<in> set (files es) \<and> plain_next (pu_New p) (pu_Read p) edge (fi_ID f) = plain_next old (pu_Read p) edge (fi_ID f)"
      if f: "f \<in> set (files es')" "is_knot f" for f
    proof (cases "fi_Path f \<in> set (changed_paths p)")
      case True
      then have "fi_ID f \<in> set (touched_ids p (changed_paths p))"
        using touched_knots [OF Ln(1)] f by blast
      then show ?thesis using acc(4) edge by blast
    next
      case False
      then show ?thesis
        using was [OF f(1)] unchanged_next [OF Lo Ln(1) p acc(1) fine _ f(1,2)] by blast
    qed
    have old_step: "grounded (plain_next (pu_New p) (pu_Read p) edge) j \<or>
        plain_next (pu_New p) (pu_Read p) edge j = Inr ns"
      if j: "plain_next old (pu_Read p) edge j = Inr ns" for j ns
    proof -
      have "j \<in> fst ` set (ix_Knots old)" using j by (rule kg.reads_node)
      then obtain h where "h \<in> set (files es)" "is_knot h" "fi_ID h = j" unfolding knot_ids [OF Lo] by blast
      moreover obtain g where "g \<in> set (files es')" "is_knot g" "fi_ID g = fi_ID h"
        using kept_file [OF Lo Ln(1) p acc(1) \<open>h \<in> set (files es)\<close>] \<open>is_knot h\<close> by metis
      ultimately show ?thesis using step [of g] j by auto
    qed
    obtain f where f: "f \<in> set (files es')" "is_knot f" "fi_ID f = i"
      using i unfolding knot_ids [OF Ln(1)] by blast
    show ?thesis
      using step [OF f(1,2)]
    proof
      assume "f \<in> set (files es) \<and> plain_next (pu_New p) (pu_Read p) edge (fi_ID f) = plain_next old (pu_Read p) edge (fi_ID f)"
      then have "i \<in> fst ` set (ix_Knots old)" unfolding knot_ids [OF Lo] using f by blast
      then have "grounded (plain_next old (pu_Read p) edge) i"
        using valid edge unfolding valid_graph_grounded by blast
      then show ?thesis
        by (rule grounded_transfer [where P = "\<lambda>_. True"]) (use old_step in auto)
    qed (use f in simp)
  qed
  ultimately show ?thesis unfolding valid_graph_grounded by blast
qed

lemma first_push_valid_graph:
  assumes Ln: "Layout es' = Inr (pu_New p)" and p: "pu_Old p = None" and ok: "Check p = Some (Inr ())"
  shows "valid_graph (pu_New p) (pu_Read p)"
proof -
  note acc = accepted_push [OF ok]
  have all: "f \<in> set (files es') \<Longrightarrow> fi_Path f \<in> set (changed_paths p)" for f
    unfolding changed_paths_set [OF Ln] using p by blast
  have "all_fine (pu_New p) (pu_Read p)"
    unfolding all_fine_files [OF Ln] using path_fine_file [OF Ln _ acc(3)] all by auto
  moreover have "i \<in> set (touched_ids p (changed_paths p))" if "i \<in> fst ` set (ix_Knots (pu_New p))" for i
    using that all unfolding knot_ids [OF Ln] touched_knots [OF Ln] by blast
  ultimately show ?thesis unfolding valid_graph_grounded using acc(4) by blast
qed

definition push_of :: "Index option \<Rightarrow> Index \<Rightarrow> Reader \<Rightarrow> string \<Rightarrow> (string \<Rightarrow> bool) option \<Rightarrow> Push" where
  "push_of old new rd who may =
     \<lparr>pu_Old = old, pu_New = new, pu_Read = rd, pu_Pusher = who, pu_MayEdit = may\<rparr>"

lemma push_of_simps [simp]:
  "pu_Old (push_of old new rd who may) = old" "pu_New (push_of old new rd who may) = new"
  "pu_Read (push_of old new rd who may) = rd" "pu_Pusher (push_of old new rd who may) = who"
  "pu_MayEdit (push_of old new rd who may) = may"
  by (simp_all add: push_of_def)

text \<open>
  A push that is accepted leaves a valid graph valid. The check reads no knot and no
  comment the push left as it was, and walks for cycles only from the knots it changed; the
  check of the whole graph passes all the same.
\<close>

theorem push_keeps_valid:
  assumes "Layout es = Inr old" "Layout es' = Inr new" "named_objects es'"
    and "Validate old rd = Some (Inr ())" "Check (push_of (Some old) new rd who may) = Some (Inr ())"
  shows "Validate new rd = Some (Inr ())"
  using push_keeps_valid_graph [of es old es' "push_of (Some old) new rd who may"] assms
  unfolding whole_graph_passes [OF assms(1)] whole_graph_passes [OF assms(2)] by simp

section \<open>What a push leaves of each knot and comment\<close>

text \<open>A comment as a graph holds it.\<close>

definition comment_at :: "Index \<Rightarrow> Reader \<Rightarrow> string \<Rightarrow> Comment option" where
  "comment_at idx rd q =
     (case map_of (ix_Comments idx) q of
        None \<Rightarrow> None
      | Some f \<Rightarrow>
          (case rd (fi_OID f) MaxCommentSize of
             None \<Rightarrow> None
           | Some data \<Rightarrow> (case parseComment q data of Inl _ \<Rightarrow> None | Inr c \<Rightarrow> Some c)))"

definition same_knot :: "Index \<Rightarrow> Index \<Rightarrow> Reader \<Rightarrow> string \<Rightarrow> bool" where
  "same_knot old new rd i \<longleftrightarrow>
     (case load_knot old rd i of
        Inl _ \<Rightarrow> False
      | Inr k \<Rightarrow>
          (case load_knot new rd i of
             Inl _ \<Rightarrow> False
           | Inr k' \<Rightarrow> list_all (\<lambda>fname. Get k' fname = Get k fname) fixed_fields \<and>
               fi_Path (at_key (ix_Knots new) no_file i) = fi_Path (at_key (ix_Knots old) no_file i)))"

definition same_author :: "Index \<Rightarrow> Index \<Rightarrow> Reader \<Rightarrow> string \<Rightarrow> bool" where
  "same_author old new rd q \<longleftrightarrow>
     (case comment_at old rd q of
        None \<Rightarrow> False
      | Some c \<Rightarrow> (case comment_at new rd q of None \<Rightarrow> False | Some c' \<Rightarrow> cm_Author c' = cm_Author c))"

lemma fine_comment_at:
  assumes L: "Layout es = Inr idx" and f: "f \<in> set (files es)" "\<not> is_knot f"
  shows "comment_at idx rd (fi_Path f) =
    (case rd (fi_OID f) MaxCommentSize of None \<Rightarrow> None
     | Some data \<Rightarrow> (case parseComment (fi_Path f) data of Inl _ \<Rightarrow> None | Inr c \<Rightarrow> Some c))"
proof -
  have "map_of (ix_Comments idx) (fi_Path f) = Some f"
    using index_lookup(3) [OF L] f by blast
  then show ?thesis by (simp add: comment_at_def)
qed

lemma fine_comment_Some:
  assumes "Layout es = Inr idx" "f \<in> set (files es)" "\<not> is_knot f" "comment_fine idx rd f"
  obtains data c where "rd (fi_OID f) MaxCommentSize = Some data" "parseComment (fi_Path f) data = Inr c"
    "comment_at idx rd (fi_Path f) = Some c"
  using assms(4) fine_comment_at [OF assms(1-3), of rd]
  by (auto simp: comment_fine_def split: option.splits sum.splits)

lemma push_same_knot:
  assumes Lo: "Layout es = Inr old" and Ln: "Layout es' = Inr (pu_New p)" "named_objects es'"
    and p: "pu_Old p = Some old" and valid: "valid_graph old (pu_Read p)" and ok: "Check p = Some (Inr ())"
    and f: "f \<in> set (files es)" "is_knot f"
  shows "same_knot old (pu_New p) (pu_Read p) (fi_ID f)"
proof -
  note acc = accepted_push [OF ok]
  have fine: "all_fine old (pu_Read p)" using valid by (simp add: valid_graph_def)
  then have "knot_fine old (pu_Read p) (fi_ID f)" using f unfolding all_fine_files [OF Lo] by auto
  then obtain k where k: "load_knot old (pu_Read p) (fi_ID f) = Inr k" by (auto simp: knot_fine_def split: sum.splits)
  obtain g where g: "g \<in> set (files es')" "fi_Path g = fi_Path f" "fi_ID g = fi_ID f" "is_knot g"
    using kept_file [OF Lo Ln(1) p acc(1) f(1)] f(2) by metis
  note at = at_ID [OF Lo f] at_ID [OF Ln(1) g(1,4), unfolded g(3)]
  show ?thesis
  proof (cases "fi_Path g \<in> set (changed_paths p)")
    case False
    then have "g = f"
      using unchanged_file [OF Lo Ln(1) p g(1) Ln(2)] files_same [OF Lo f(1) Lo] g(2)
        inj_onD [of fi_Path "set (files es)" g f] files_distinct [OF Layout_files(2) [OF Lo]] f(1)
      by (simp add: distinct_map)
    then have "load_knot (pu_New p) (pu_Read p) (fi_ID f) = load_knot old (pu_Read p) (fi_ID f)"
      using at by (simp add: load_knot_def)
    then show ?thesis using k at \<open>g = f\<close> by (simp add: same_knot_def list_all_iff)
  next
    case True
    then obtain k' where k': "load_knot (pu_New p) (pu_Read p) (fi_ID f) = Inr k'" "checkTransition p g k' = Inr ()"
      using acc(3) [OF True] at_path(1,2) [OF Ln(1) g(1) refl g(4)] g(3)
      by (auto simp: path_fine_def split: sum.splits)
    have old: "old_knot p (fi_ID g) = f" using at p g(3) by (simp add: old_knot_def)
    have "is_knot (f\<lparr>fi_Path := [], fi_OID := []\<rparr>)" using f(2) by (simp add: is_knot_def)
    then have "fi_Path f \<noteq> []" using named_knot [OF files_named [OF Lo f(1)]] by fastforce
    then have "\<forall>fname \<in> set fixed_fields. Get k fname = Get k' fname"
      using k'(2) k at old g(2) unfolding checkTransition_def load_knot_steps Let_def
      by (auto simp: result_simps check_all_ok)
    then show ?thesis using k k' at g(2) by (simp add: same_knot_def list_all_iff)
  qed
qed

lemma push_same_author:
  assumes Lo: "Layout es = Inr old" and Ln: "Layout es' = Inr (pu_New p)" "named_objects es'" "named_objects es"
    and p: "pu_Old p = Some old" and valid: "valid_graph old (pu_Read p)" and ok: "Check p = Some (Inr ())"
    and f: "f \<in> set (files es)" "\<not> is_knot f"
  shows "same_author old (pu_New p) (pu_Read p) (fi_Path f)"
proof -
  note acc = accepted_push [OF ok]
  have fine: "all_fine old (pu_Read p)" using valid by (simp add: valid_graph_def)
  then have cf: "comment_fine old (pu_Read p) f" using f unfolding all_fine_files [OF Lo] by auto
  obtain data c where c: "pu_Read p (fi_OID f) MaxCommentSize = Some data" "parseComment (fi_Path f) data = Inr c"
    "comment_at old (pu_Read p) (fi_Path f) = Some c"
    by (rule fine_comment_Some [OF Lo f cf])
  obtain g where g: "g \<in> set (files es')" "fi_Path g = fi_Path f" "\<not> is_knot g"
    using kept_file [OF Lo Ln(1) p acc(1) f(1)] f(2) by metis
  show ?thesis
  proof (cases "fi_Path g \<in> set (changed_paths p)")
    case False
    then have "g = f"
      using unchanged_file [OF Lo Ln(1) p g(1) Ln(2)] g(2)
        inj_onD [of fi_Path "set (files es)" g f] files_distinct [OF Layout_files(2) [OF Lo]] f(1)
      by (simp add: distinct_map)
    then show ?thesis
      using c fine_comment_at [OF Ln(1) g(1,3), of "pu_Read p"] by (simp add: same_author_def)
  next
    case True
    have cc: "checkComment p g True = Inr ()"
      using acc(3) [OF True] at_path(3) [OF Ln(1) g(1) refl g(3)] by (simp add: path_fine_def)
    then obtain data' c' where c': "pu_Read p (fi_OID g) MaxCommentSize = Some data'" "parseComment (fi_Path g) data' = Inr c'"
      "comment_at (pu_New p) (pu_Read p) (fi_Path g) = Some c'"
      using fine_comment_Some [OF Ln(1) g(1,3) checkComment_fine [OF cc]] by metis
    have "map_of (ix_Files old) (fi_Path f) = Some (fi_OID f)"
      using index_lookup(1) [OF Lo] f(1) by blast
    then have old: "old_file p (fi_Path g) = fi_OID f" "fi_OID f \<noteq> []"
      using p g(2) named_objects_files [OF Lo Ln(3) f(1)] by (simp_all add: old_file_def)
    have "check_edit p (fi_Path g) c c' = Inr ()"
      using cc c c' old g(2) by (simp add: checkComment_def split: if_splits)
    then have "cm_Author c' = cm_Author c" by (simp add: check_edit_def split: if_splits)
    then show ?thesis using c c' g(2) by (simp add: same_author_def)
  qed
qed

section \<open>Histories\<close>

text \<open>
  A graph's history: the push that creates the ref, and each push after it. The graph is its
  listing; who pushes, and whom they may edit, differs from push to push.
\<close>

inductive push_step :: "Reader \<Rightarrow> Entry list \<Rightarrow> Entry list \<Rightarrow> bool" for rd where
  written: "Layout es = Inr old \<Longrightarrow> Layout es' = Inr new \<Longrightarrow> named_objects es' \<Longrightarrow>
    Check (push_of (Some old) new rd who may) = Some (Inr ()) \<Longrightarrow> push_step rd es es'"

inductive pushed :: "Reader \<Rightarrow> Entry list \<Rightarrow> bool" for rd where
  first: "Layout es = Inr new \<Longrightarrow> named_objects es \<Longrightarrow>
    Check (push_of None new rd who may) = Some (Inr ()) \<Longrightarrow> pushed rd es"
| more: "pushed rd es \<Longrightarrow> push_step rd es es' \<Longrightarrow> pushed rd es'"

inductive_simps push_step_iff: "push_step rd es es'"

lemma pushed_invariant:
  "pushed rd es \<Longrightarrow> named_objects es \<and> (\<exists>idx. Layout es = Inr idx \<and> valid_graph idx rd)"
proof (induction rule: pushed.induct)
  case (first es new who may)
  then show ?case
    using first_push_valid_graph [of es "push_of None new rd who may"] by simp
next
  case (more es es')
  then obtain old new who may where "Layout es = Inr old" "Layout es' = Inr new" "named_objects es'"
    "Check (push_of (Some old) new rd who may) = Some (Inr ())"
    unfolding push_step_iff by blast
  then show ?case
    using push_keeps_valid_graph [of es old es' "push_of (Some old) new rd who may"] more.IH by auto
qed

text \<open>
  C8: whatever pushes have been accepted, from the one that created the ref on, the graph they
  leave has a layout and passes the check of a whole graph: every knot and comment reads and is
  fine, every edge resolves, and no edges of one kind form a cycle.
\<close>

theorem pushed_valid:
  assumes "pushed rd es"
  shows "case Layout es of Inl _ \<Rightarrow> False | Inr idx \<Rightarrow> Validate idx rd = Some (Inr ()) \<and> valid_graph idx rd"
  using pushed_invariant [OF assms] whole_graph_passes by auto

lemma same_knot_trans: "same_knot a b rd i \<Longrightarrow> same_knot b c rd i \<Longrightarrow> same_knot a c rd i"
  by (auto simp: same_knot_def list_all_iff split: sum.splits)

lemma same_author_trans: "same_author a b rd q \<Longrightarrow> same_author b c rd q \<Longrightarrow> same_author a c rd q"
  by (auto simp: same_author_def split: option.splits)

lemma same_knot_indexed: "same_knot a b rd i \<Longrightarrow> \<exists>f. map_of (ix_Knots b) i = Some f"
  using load_knot_indexed by (fastforce simp: same_knot_def split: sum.splits)

lemma same_author_indexed: "same_author a b rd q \<Longrightarrow> \<exists>f. map_of (ix_Comments b) q = Some f"
  by (auto simp: same_author_def comment_at_def split: option.splits)

definition nothing_lost :: "Reader \<Rightarrow> Index \<Rightarrow> Index \<Rightarrow> bool" where
  "nothing_lost rd old new \<longleftrightarrow> list_all (\<lambda>(i, _). same_knot old new rd i) (ix_Knots old) \<and>
     list_all (\<lambda>(q, _). same_author old new rd q) (ix_Comments old)"

lemma nothing_lost_trans: "nothing_lost rd a b \<Longrightarrow> nothing_lost rd b c \<Longrightarrow> nothing_lost rd a c"
proof -
  assume ab: "nothing_lost rd a b" and bc: "nothing_lost rd b c"
  have "same_knot a c rd i" if "(i, f) \<in> set (ix_Knots a)" for i f
  proof -
    have i: "same_knot a b rd i" using ab that by (auto simp: nothing_lost_def list_all_iff)
    then obtain g where "(i, g) \<in> set (ix_Knots b)" using same_knot_indexed map_of_SomeD by metis
    then show ?thesis using bc same_knot_trans [OF i] by (auto simp: nothing_lost_def list_all_iff)
  qed
  moreover have "same_author a c rd q" if "(q, f) \<in> set (ix_Comments a)" for q f
  proof -
    have q: "same_author a b rd q" using ab that by (auto simp: nothing_lost_def list_all_iff)
    then obtain g where "(q, g) \<in> set (ix_Comments b)" using same_author_indexed map_of_SomeD by metis
    then show ?thesis using bc same_author_trans [OF q] by (auto simp: nothing_lost_def list_all_iff)
  qed
  ultimately show ?thesis unfolding nothing_lost_def list_all_iff by blast
qed

lemma nothing_lost_step:
  assumes Lo: "Layout es = Inr old" "named_objects es" and Ln: "Layout es' = Inr new" "named_objects es'"
    and valid: "valid_graph old rd" and ok: "Check (push_of (Some old) new rd who may) = Some (Inr ())"
  shows "nothing_lost rd old new"
proof -
  let ?p = "push_of (Some old) new rd who may"
  have k: "same_knot old new rd (fi_ID f)" if "f \<in> set (files es)" "is_knot f" for f
    using push_same_knot [of es old es' ?p, OF Lo(1) _ Ln(2) _ _ ok that] Ln(1) valid by simp
  have c: "same_author old new rd (fi_Path f)" if "f \<in> set (files es)" "\<not> is_knot f" for f
    using push_same_author [of es old es' ?p, OF Lo(1) _ Ln(2) Lo(2) _ _ ok that] Ln(1) valid by simp
  show ?thesis
    unfolding nothing_lost_def index_list_all [OF Lo(1)] using k c by blast
qed

lemma nothing_lost_refl:
  assumes L: "Layout es = Inr idx" and "valid_graph idx rd"
  shows "nothing_lost rd idx idx"
proof -
  have fine: "f \<in> set (files es) \<Longrightarrow> if is_knot f then knot_fine idx rd (fi_ID f) else comment_fine idx rd f" for f
    using assms(2) unfolding valid_graph_def all_fine_files [OF L] by blast
  have "same_knot idx idx rd (fi_ID f)" if "f \<in> set (files es)" "is_knot f" for f
    using fine [OF that(1)] that(2) by (auto simp: knot_fine_def same_knot_def list_all_iff split: sum.splits)
  moreover have "same_author idx idx rd (fi_Path f)" if "f \<in> set (files es)" "\<not> is_knot f" for f
  proof -
    have "comment_fine idx rd f" using fine [OF that(1)] that(2) by simp
    from fine_comment_Some [OF L that this] obtain c where "comment_at idx rd (fi_Path f) = Some c" by blast
    then show ?thesis by (simp add: same_author_def)
  qed
  ultimately show ?thesis
    unfolding nothing_lost_def index_list_all [OF L] by blast
qed

lemma history_nothing_lost:
  assumes "pushed rd es" "(push_step rd)\<^sup>*\<^sup>* es es'"
  shows "case (Layout es, Layout es') of (Inr old, Inr new) \<Rightarrow> nothing_lost rd old new | _ \<Rightarrow> False"
proof -
  obtain old where old: "Layout es = Inr old" "valid_graph old rd" using pushed_invariant [OF assms(1)] by blast
  from assms(2) have "pushed rd es' \<and> (\<exists>new. Layout es' = Inr new \<and> nothing_lost rd old new)"
  proof (induction rule: rtranclp_induct)
    case base
    then show ?case using assms(1) old nothing_lost_refl by blast
  next
    case (step mid es')
    then obtain m where m: "Layout mid = Inr m" "nothing_lost rd old m" by blast
    have here: "pushed rd mid" using step.IH by blast
    have inv: "named_objects mid" "valid_graph m rd" using pushed_invariant [OF here] m(1) by auto
    obtain new who may where new: "Layout es' = Inr new" "named_objects es'"
      "Check (push_of (Some m) new rd who may) = Some (Inr ())"
      using step.hyps(2) m(1) unfolding push_step_iff by auto
    have "nothing_lost rd m new" by (rule nothing_lost_step [OF m(1) inv(1) new(1,2) inv(2) new(3)])
    then show ?case using new(1) m(2) nothing_lost_trans pushed.more [OF here step.hyps(2)] by blast
  qed
  then show ?thesis using old by auto
qed

text \<open>
  C9: nothing in a graph's history is lost: however many accepted pushes come after it, each
  knot a graph holds is still in its file with its id, type, creation date and creator, and
  each comment is still there under its author's name.
\<close>

theorem history_keeps:
  assumes "pushed rd es" "(push_step rd)\<^sup>*\<^sup>* es es'"
  shows "case (Layout es, Layout es') of (Inr old, Inr new) \<Rightarrow> nothing_lost rd old new | _ \<Rightarrow> False"
  by (rule history_nothing_lost [OF assms])

text \<open>
  What an accepted push by a named principal adds or edits is theirs: the knots it adds name
  them as creator, the comments it adds name them as author and record no edit, and the
  comments it edits record the edit in their name and are their own, or of an author whose
  comments the host lets them edit.
\<close>

definition comment_theirs :: "Push \<Rightarrow> File \<Rightarrow> bool" where
  "comment_theirs p f \<longleftrightarrow>
     (case comment_at (pu_New p) (pu_Read p) (fi_Path f) of
        None \<Rightarrow> False
      | Some c \<Rightarrow>
          if old_file p (fi_Path f) = [] then cm_Edited c = [] \<and> cm_Author c = pu_Pusher p
          else cm_Edited c \<noteq> [] \<and> cm_EditedBy c = pu_Pusher p \<and>
            (cm_Author c = pu_Pusher p \<or> (case pu_MayEdit p of None \<Rightarrow> False | Some may \<Rightarrow> may (cm_Author c))))"

definition knot_theirs :: "Push \<Rightarrow> string \<Rightarrow> bool" where
  "knot_theirs p i \<longleftrightarrow>
     (case load_knot (pu_New p) (pu_Read p) i of Inl _ \<Rightarrow> False | Inr k \<Rightarrow> kn_CreatedBy k = pu_Pusher p)"

text \<open>
  A knot the graph held is still its creator's: the push left its file as it was, or the knot read
  from the file before and the one read now were created by the same.
\<close>

definition creator_kept :: "Push \<Rightarrow> string \<Rightarrow> File \<Rightarrow> bool" where
  "creator_kept p i f \<longleftrightarrow>
     (let before = old_knot p i in
      fi_OID f = fi_OID before \<or>
      (case pu_Read p (fi_OID before) MaxKnotSize of
         None \<Rightarrow> False
       | Some data \<Rightarrow>
           (case (parseKnot (fi_Path before) (fi_Slug before) data, load_knot (pu_New p) (pu_Read p) i) of
              (Inr k0, Inr k) \<Rightarrow> kn_CreatedBy k = kn_CreatedBy k0
            | _ \<Rightarrow> False)))"

definition provenance_ok :: "Push \<Rightarrow> bool" where
  "provenance_ok p \<longleftrightarrow>
     list_all (\<lambda>(i, f). if fi_Path (old_knot p i) = [] then knot_theirs p i else creator_kept p i f) (ix_Knots (pu_New p)) \<and>
     list_all (\<lambda>(q, f). old_file p q = fi_OID f \<or> comment_theirs p f) (ix_Comments (pu_New p))"

definition laid_out :: "Entry list \<Rightarrow> Index option \<Rightarrow> bool" where
  "laid_out es old \<longleftrightarrow> (case old of None \<Rightarrow> True | Some idx \<Rightarrow> Layout es = Inr idx)"

lemma checkComment_theirs:
  assumes "Layout es = Inr (pu_New p)" "f \<in> set (files es)" "\<not> is_knot f"
    and cc: "checkComment p f True = Inr ()" and who: "pu_Pusher p \<noteq> []"
  shows "comment_theirs p f"
proof -
  obtain data c where c: "pu_Read p (fi_OID f) MaxCommentSize = Some data" "parseComment (fi_Path f) data = Inr c"
    "comment_at (pu_New p) (pu_Read p) (fi_Path f) = Some c"
    by (rule fine_comment_Some [OF assms(1-3) checkComment_fine [OF cc]])
  show ?thesis
  proof (cases "old_file p (fi_Path f) = []")
    case True
    then show ?thesis using cc c who by (auto simp: checkComment_def comment_theirs_def split: if_splits)
  next
    case False
    then obtain old where old: "check_edit p (fi_Path f) old c = Inr ()"
      using cc c by (auto simp: checkComment_def result_simps split: if_splits option.splits)
    then show ?thesis
      using False c who by (auto simp: check_edit_def comment_theirs_def split: if_splits option.splits)
  qed
qed

lemma transition_provenance:
  assumes "checkTransition p f k = Inr ()" "load_knot (pu_New p) (pu_Read p) (fi_ID f) = Inr k" "pu_Pusher p \<noteq> []"
  shows "if fi_Path (old_knot p (fi_ID f)) = [] then knot_theirs p (fi_ID f) else creator_kept p (fi_ID f) f"
  using assms
  by (auto simp: checkTransition_def Let_def knot_theirs_def creator_kept_def result_simps check_all_ok fixed_fields_def Get_def
      split: if_splits option.splits)

text \<open>
  C10: in an accepted push by a named principal, onto a graph or as its first, every knot the graph
  did not hold is created by them, and every knot it held keeps its creator, whoever edits it;
  every comment the push adds or edits is written or edited in their name, an edit of another's
  comment only where the host allows it.
\<close>

theorem push_provenance:
  assumes Lo: "laid_out es old" and Ln: "Layout es' = Inr new" "named_objects es'"
    and ok: "Check (push_of old new rd who may) = Some (Inr ())" and who: "who \<noteq> []"
  shows "provenance_ok (push_of old new rd who may)"
proof -
  define p where p: "p = push_of old new rd who may"
  note acc = accepted_push [OF ok [folded p]]
  have Lp: "Layout es' = Inr (pu_New p)" and po: "pu_Old p = old" and pw: "pu_Pusher p \<noteq> []"
    using Ln(1) who by (simp_all add: p)
  have "if fi_Path (old_knot p (fi_ID f)) = [] then knot_theirs p (fi_ID f) else creator_kept p (fi_ID f) f"
    if f: "f \<in> set (files es')" "is_knot f" for f
  proof (cases "fi_Path f \<in> set (changed_paths p)")
    case True
    then obtain k where "load_knot (pu_New p) (pu_Read p) (fi_ID f) = Inr k" "checkTransition p f k = Inr ()"
      using acc(3) [OF True] at_path(1,2) [OF Lp f(1) refl f(2)] by (auto simp: path_fine_def split: sum.splits)
    then show ?thesis using transition_provenance pw by blast
  next
    case False
    then obtain idx where o: "old = Some idx" using f changed_paths_set [OF Lp] po by (cases old) auto
    then have L: "Layout es = Inr idx" using Lo by (simp add: laid_out_def)
    have g: "f \<in> set (files es)" using unchanged_file [OF L Lp _ f(1) Ln(2) False] po o by blast
    have "is_knot (f\<lparr>fi_Path := [], fi_OID := []\<rparr>)" using f(2) by (simp add: is_knot_def)
    then have "fi_Path f \<noteq> []" using named_knot [OF files_named [OF L g]] by fastforce
    moreover have "old_knot p (fi_ID f) = f" using at_ID [OF L g f(2)] po o by (simp add: old_knot_def)
    ultimately show ?thesis by (simp add: creator_kept_def Let_def)
  qed
  moreover have "old_file p (fi_Path f) = fi_OID f \<or> comment_theirs p f" if f: "f \<in> set (files es')" "\<not> is_knot f" for f
  proof (cases "fi_Path f \<in> set (changed_paths p)")
    case True
    then have "checkComment p f True = Inr ()"
      using acc(3) [OF True] at_path(3) [OF Lp f(1) refl f(2)] by (simp add: path_fine_def)
    then show ?thesis using checkComment_theirs [OF Lp f _ pw] by blast
  qed (use f changed_paths_set [OF Lp] in auto)
  ultimately show ?thesis
    unfolding p [symmetric] provenance_ok_def index_list_all [OF Lp] by blast
qed

end
