(* ===== verification/KnotView.thy ===== *)
theory KnotView
  imports KnotHistory
begin

text \<open>
  \<^verbatim>\<open>knot/derive.go\<close>: a whole graph read, and what it says of one knot beyond the knot's own
  fields. None of it is stored; it is derived from the graph each time.
\<close>

section \<open>A graph, read\<close>

record Noted =
  nt_Comment :: Comment
  nt_ID :: string
  nt_Path :: string
  nt_At :: int
  nt_Op :: string

text \<open>
  The comments on a knot are found by its ID, and so are the edges read backwards. The two
  maps of those edges are built from the knots on the first view and never change after it,
  so they are functions of the knots.
\<close>

record Graph =
  gr_Index :: Index
  gr_Knots :: "(string \<times> Knot) list"
  gr_Comments :: "string \<Rightarrow> Noted list"

text \<open>\<^verbatim>\<open>time.Parse(CommentStamp, s)\<close> of a stamp, as the seconds since the epoch.\<close>

definition parse_stamp :: "string \<Rightarrow> int option" where
  "parse_stamp s =
     (if matches re_stamp s \<and> stamp_time s then
        Some (unix_time (digits_at s 0 4) (digits_at s 4 2) (digits_at s 6 2)
          (digits_at s 9 2) (digits_at s 11 2) (digits_at s 13 2))
      else None)"

text \<open>
  What stops a load: a graph that is not valid, an object that cannot be read, a file that is
  no knot or comment, a stamp that is no time.
\<close>

datatype load_error = Invalid refusal | Unreadable | Unparsed refusal | BadStamp string

fun load_knots :: "Reader \<Rightarrow> (string \<times> File) list \<Rightarrow> (string \<times> Knot) list \<Rightarrow> (load_error, (string \<times> Knot) list) result" where
  "load_knots rd [] m = Inr m"
| "load_knots rd ((i, f) # fs) m =
     (case rd (fi_OID f) MaxKnotSize of
        None \<Rightarrow> Inl Unreadable
      | Some data \<Rightarrow>
          rbind (rmap_err Unparsed (parseKnot (fi_Path f) (fi_Slug f) data))
            (\<lambda>k. load_knots rd fs (AList.update i k m)))"

fun load_comments ::
  "Reader \<Rightarrow> (string \<times> File) list \<Rightarrow> (string \<Rightarrow> Noted list) \<Rightarrow> (load_error, string \<Rightarrow> Noted list) result" where
  "load_comments rd [] m = Inr m"
| "load_comments rd ((path, f) # fs) m =
     (case rd (fi_OID f) MaxCommentSize of
        None \<Rightarrow> Inl Unreadable
      | Some data \<Rightarrow>
          rbind (rmap_err Unparsed (parseComment path data))
            (\<lambda>c. case parse_stamp (fi_Stamp f) of
                None \<Rightarrow> Inl (BadStamp path)
              | Some at \<Rightarrow>
                  load_comments rd fs
                    (m(fi_ID f := m (fi_ID f) @
                      [\<lparr>nt_Comment = c, nt_ID = CommentID f, nt_Path = path, nt_At = at, nt_Op = fi_Op f\<rparr>]))))"

definition Load :: "Index \<Rightarrow> Reader \<Rightarrow> (load_error, Graph) result option" where
  "Load idx rd =
     (case Validate idx rd of
        None \<Rightarrow> None
      | Some (Inl e) \<Rightarrow> Some (Inl (Invalid e))
      | Some (Inr _) \<Rightarrow>
          Some (rbind (load_knots rd (ix_Knots idx) [])
            (\<lambda>ks. rbind (load_comments rd (ix_Comments idx) (\<lambda>_. []))
              (\<lambda>cs. Inr \<lparr>gr_Index = idx, gr_Knots = ks, gr_Comments = (\<lambda>i. sort_key nt_Path (cs i))\<rparr>))))"

definition IDs :: "Graph \<Rightarrow> string list" where
  "IDs g = sort (map fst (gr_Knots g))"

section \<open>The view of a knot\<close>

record Progress =
  pg_Done :: nat
  pg_Of :: nat

record Claim =
  cl_By :: string
  cl_At :: string
  cl_AgeSeconds :: int
  cl_Stale :: bool

record View =
  vw_Ready :: bool
  vw_WaitingOn :: "string list"
  vw_ClearedByEnding :: "string list"
  vw_Dangling :: "string list"
  vw_Unresolved :: "string list"
  vw_Children :: "string list"
  vw_Blocks :: "string list"
  vw_Progress :: "Progress option"
  vw_Claim :: "Claim option"

definition no_view :: View where
  "no_view = \<lparr>vw_Ready = False, vw_WaitingOn = [], vw_ClearedByEnding = [], vw_Dangling = [], vw_Unresolved = [],
     vw_Children = [], vw_Blocks = [], vw_Progress = None, vw_Claim = None\<rparr>"

text \<open>
  \<^verbatim>\<open>Foreign\<close>: an error, or whether another project's graph holds the knot and which it is.
\<close>

type_synonym Foreign = "string \<Rightarrow> (unit, Knot option) result"

definition endings :: "string list" where
  "endings = [''abandoned'', ''discarded'', ''superseded'', ''dropped'']"

definition view_blocker :: "Graph \<Rightarrow> Foreign option \<Rightarrow> View \<Rightarrow> string \<Rightarrow> View" where
  "view_blocker g foreign v ref =
     (let (b, v) =
        (if IsLocalID ref then (map_of (gr_Knots g) ref, v)
         else
           (case foreign of
              None \<Rightarrow> (None, v\<lparr>vw_Unresolved := vw_Unresolved v @ [ref]\<rparr>)
            | Some ask \<Rightarrow>
                (case ask ref of
                   Inl _ \<Rightarrow> (None, v\<lparr>vw_Unresolved := vw_Unresolved v @ [ref]\<rparr>)
                 | Inr None \<Rightarrow> (None, v\<lparr>vw_Dangling := vw_Dangling v @ [ref]\<rparr>)
                 | Inr (Some k) \<Rightarrow> (Some k, v))))
      in
        (case b of
           None \<Rightarrow> v\<lparr>vw_WaitingOn := vw_WaitingOn v @ [ref]\<rparr>
         | Some k \<Rightarrow>
             if Active k then v\<lparr>vw_WaitingOn := vw_WaitingOn v @ [ref]\<rparr>
             else if kn_Status k \<in> set endings then v\<lparr>vw_ClearedByEnding := vw_ClearedByEnding v @ [ref]\<rparr>
             else v))"

text \<open>The edges read backwards: who is whose child, and who waits on whom.\<close>

type_synonym backwards = "string \<Rightarrow> string list"

definition add_back :: "backwards \<Rightarrow> string \<Rightarrow> string \<Rightarrow> backwards" where
  "add_back m a b = m(a := m a @ [b])"

fun read_backwards :: "Graph \<Rightarrow> string list \<Rightarrow> backwards \<times> backwards \<Rightarrow> backwards \<times> backwards" where
  "read_backwards g [] m = m"
| "read_backwards g (i # is) (children, blocks) =
     (case map_of (gr_Knots g) i of
        None \<Rightarrow> read_backwards g is (children, blocks)
      | Some k \<Rightarrow>
          read_backwards g is
            (if kn_Parent k \<noteq> [] then add_back children (kn_Parent k) i else children,
             foldl (\<lambda>m ref. add_back m ref i) blocks (elems (kn_BlockedBy k))))"

definition add_progress :: "Graph \<Rightarrow> Progress \<Rightarrow> string \<Rightarrow> Progress" where
  "add_progress g p child =
     (case map_of (gr_Knots g) child of
        None \<Rightarrow> p
      | Some k \<Rightarrow>
          if kn_Status k \<noteq> ''abandoned'' then
            (let p = p\<lparr>pg_Of := pg_Of p + 1\<rparr> in if Active k then p else p\<lparr>pg_Done := pg_Done p + 1\<rparr>)
          else p)"

text \<open>
  A claim's time, in nanoseconds since the epoch. A knot of a graph gives \<^verbatim>\<open>claimed_at\<close> as a
  timestamp, \<^verbatim>\<open>YYYY-MM-DDTHH:MM:SSZ\<close>, so no other text \<^verbatim>\<open>time.RFC3339\<close> would read is modelled.
  A duration is an \<^verbatim>\<open>int64\<close> of nanoseconds and \<^verbatim>\<open>Sub\<close> holds it to that range.
\<close>

definition claim_time :: "string \<Rightarrow> int option" where
  "claim_time s =
     (if IsTimestamp s \<and> valid_date (digits_at s 0 4) (digits_at s 5 2) (digits_at s 8 2) \<and>
        valid_clock (digits_at s 11 2) (digits_at s 14 2) (digits_at s 17 2)
      then Some (1000000000 * unix_time (digits_at s 0 4) (digits_at s 5 2) (digits_at s 8 2)
          (digits_at s 11 2) (digits_at s 14 2) (digits_at s 17 2))
      else None)"

definition duration :: "int \<Rightarrow> int" where
  "duration d = max (- (2 ^ 63)) (min (2 ^ 63 - 1) d)"

definition whole_seconds :: "int \<Rightarrow> int" where
  "whole_seconds d = (if d < 0 then - ((- d) div 1000000000) else d div 1000000000)"

definition claim_of :: "Knot \<Rightarrow> int \<Rightarrow> Claim" where
  "claim_of k now =
     (let c = \<lparr>cl_By = kn_ClaimedBy k, cl_At = kn_ClaimedAt k, cl_AgeSeconds = 0, cl_Stale = False\<rparr> in
      case claim_time (kn_ClaimedAt k) of
        None \<Rightarrow> c
      | Some at \<Rightarrow>
          (let age = duration (now - at) in c\<lparr>cl_AgeSeconds := whole_seconds age, cl_Stale := age > StaleClaim\<rparr>))"

text \<open>The view of a knot; a knot the graph does not hold has none.\<close>

definition View :: "Graph \<Rightarrow> string \<Rightarrow> int \<Rightarrow> Foreign option \<Rightarrow> View option" where
  "View g i now foreign =
     (case map_of (gr_Knots g) i of
        None \<Rightarrow> None
      | Some k \<Rightarrow>
          (let v = foldl (view_blocker g foreign) no_view (elems (kn_BlockedBy k));
               (children, blocks) = read_backwards g (IDs g) (\<lambda>_. [], \<lambda>_. []);
               v = v\<lparr>vw_Children := children i\<rparr>;
               progress = foldl (add_progress g) \<lparr>pg_Done = 0, pg_Of = 0\<rparr> (children i);
               v = v\<lparr>vw_Blocks := blocks i\<rparr>;
               v = (if 0 < length (vw_Children v) then v\<lparr>vw_Progress := Some progress\<rparr> else v);
               claimed = (kn_ClaimedBy k \<noteq> [] \<and> Active k);
               v = (if claimed then v\<lparr>vw_Claim := Some (claim_of k now)\<rparr> else v)
           in Some (v\<lparr>vw_Ready := (kn_Type k = ''outcome'' \<or> kn_Type k = ''bug'') \<and> Active k \<and> \<not> claimed \<and>
                length (vw_WaitingOn v) = 0\<rparr>)))"

section \<open>What a load gives\<close>

lemma load_knots_eq:
  "\<forall>(i, f) \<in> set fs. load i = Inr (kn i) \<and>
     (\<exists>data. rd (fi_OID f) MaxKnotSize = Some data \<and> parseKnot (fi_Path f) (fi_Slug f) data = Inr (kn i)) \<Longrightarrow>
   distinct (map fst m @ map fst fs) \<Longrightarrow>
   load_knots rd fs m = Inr (m @ map (\<lambda>(i, f). (i, kn i)) fs)"
proof (induction fs arbitrary: m)
  case (Cons x fs)
  obtain i f where x: "x = (i, f)" by fastforce
  have "map_of m i = None" using Cons.prems(2) by (auto simp: x map_of_eq_None_iff)
  then have "AList.update i (kn i) m = m @ [(i, kn i)]" by (rule update_fresh)
  then show ?case
    using Cons.IH [of "m @ [(i, kn i)]"] Cons.prems by (auto simp: x)
qed simp

lemma load_comments_ok:
  "\<forall>(q, f) \<in> set fs. (\<exists>t. parse_stamp (fi_Stamp f) = Some t) \<and>
     (\<exists>data c. rd (fi_OID f) MaxCommentSize = Some data \<and> parseComment q data = Inr c) \<Longrightarrow>
   \<exists>cs. load_comments rd fs m = Inr cs"
proof (induction fs arbitrary: m)
  case (Cons x fs)
  obtain q f where x: "x = (q, f)" by fastforce
  obtain t data c where ok: "parse_stamp (fi_Stamp f) = Some t" "rd (fi_OID f) MaxCommentSize = Some data"
    "parseComment q data = Inr c"
    using Cons.prems by (auto simp: x)
  have rest: "\<exists>cs. load_comments rd fs m' = Inr cs" for m' using Cons.IH Cons.prems by simp
  show ?case using rest by (simp add: x ok)
qed simp

definition knot_at :: "Index \<Rightarrow> Reader \<Rightarrow> string \<Rightarrow> Knot" where
  "knot_at idx rd i = (case load_knot idx rd i of Inl _ \<Rightarrow> no_knot | Inr k \<Rightarrow> k)"

lemma indexed_loads:
  assumes L: "Layout es = Inr idx" and fine: "all_fine idx rd" and i: "(i, f) \<in> set (ix_Knots idx)"
  shows "load_knot idx rd i = Inr (knot_at idx rd i)"
    and "\<exists>data. rd (fi_OID f) MaxKnotSize = Some data \<and> parseKnot (fi_Path f) (fi_Slug f) data = Inr (knot_at idx rd i)"
    and "checkEdges idx (knot_at idx rd i) = Inr ()"
proof -
  have f: "f \<in> set (files es)" "is_knot f" "fi_ID f = i" using i knots_mem [OF L] by auto
  have k: "knot_fine idx rd i" using fine i by (auto simp: all_fine_def list_all_iff)
  then show l: "load_knot idx rd i = Inr (knot_at idx rd i)"
    by (auto simp: knot_fine_def knot_at_def split: sum.splits)
  show "checkEdges idx (knot_at idx rd i) = Inr ()" using k l by (simp add: knot_fine_def)
  have at: "at_key (ix_Knots idx) no_file i = f" using at_ID [OF L f(1,2)] f(3) by simp
  show "\<exists>data. rd (fi_OID f) MaxKnotSize = Some data \<and> parseKnot (fi_Path f) (fi_Slug f) data = Inr (knot_at idx rd i)"
    using l unfolding load_knot_steps at Let_def by blast
qed

lemma comment_stamp:
  assumes L: "Layout es = Inr idx" and f: "(q, f) \<in> set (ix_Comments idx)"
  shows "\<exists>t. parse_stamp (fi_Stamp f) = Some t"
proof -
  have g: "f \<in> set (files es)" "\<not> is_knot f" "fi_Path f = q" using f comments_mem [OF L] by auto
  have n: "\<not> is_knot (f\<lparr>fi_Path := [], fi_OID := []\<rparr>)" using g(2) by (simp add: is_knot_def)
  show ?thesis
    using files_named [OF L g(1)]
  proof (cases rule: named_file_cases)
    case comment
    then show ?thesis using commentFile_Some(3) [OF comment(4)] by (simp add: parse_stamp_def)
  qed (use n in blast)
qed

lemma keys_distinct: "Layout es = Inr idx \<Longrightarrow> distinct (map fst (ix_Knots idx))"
  using Layout_files [of es idx] by (auto simp: entries_ok_def index_of_def comp_def)

lemma load_valid:
  assumes L: "Layout es = Inr idx" and valid: "valid_graph idx rd"
  shows "\<exists>cs. Load idx rd = Some (Inr \<lparr>gr_Index = idx,
      gr_Knots = map (\<lambda>(i, _). (i, knot_at idx rd i)) (ix_Knots idx), gr_Comments = cs\<rparr>)"
proof -
  have fine: "all_fine idx rd" using valid by (simp add: valid_graph_def)
  have "load_knots rd (ix_Knots idx) [] = Inr (map (\<lambda>(i, f). (i, knot_at idx rd i)) (ix_Knots idx))"
  proof -
    have "\<forall>(i, f) \<in> set (ix_Knots idx). load_knot idx rd i = Inr (knot_at idx rd i) \<and>
        (\<exists>data. rd (fi_OID f) MaxKnotSize = Some data \<and> parseKnot (fi_Path f) (fi_Slug f) data = Inr (knot_at idx rd i))"
      using indexed_loads(1,2) [OF L fine] by blast
    then show ?thesis using load_knots_eq [of "ix_Knots idx" "load_knot idx rd" "knot_at idx rd" rd "[]"]
      keys_distinct [OF L] by simp
  qed
  moreover have "\<exists>cs. load_comments rd (ix_Comments idx) (\<lambda>_. []) = Inr cs"
  proof (rule load_comments_ok, clarify)
    fix q f
    assume f: "(q, f) \<in> set (ix_Comments idx)"
    then have "f \<in> set (files es)" "\<not> is_knot f" "fi_Path f = q" using comments_mem [OF L] by auto
    moreover from this have "comment_fine idx rd f" using fine unfolding all_fine_files [OF L] by auto
    ultimately have "comment_fine idx rd f" "fi_Path f = q" by blast+
    then show "(\<exists>t. parse_stamp (fi_Stamp f) = Some t) \<and>
        (\<exists>data c. rd (fi_OID f) MaxCommentSize = Some data \<and> parseComment q data = Inr c)"
      using comment_stamp [OF L f] by (auto simp: comment_fine_def split: option.splits sum.splits)
  qed
  moreover have "Validate idx rd = Some (Inr ())" using whole_graph_passes [OF L] valid by simp
  ultimately show ?thesis by (auto simp: Load_def)
qed

text \<open>
  C40: loading a graph refuses exactly the graphs its check refuses, with the same refusal, and
  once the check has passed nothing else can fail: the loaded graph holds each knot of the
  index, as the check read it.
\<close>

theorem Load_refines:
  assumes L: "Layout es = Inr idx"
  shows "case Validate idx rd of
      None \<Rightarrow> False
    | Some (Inl e) \<Rightarrow> Load idx rd = Some (Inl (Invalid e))
    | Some (Inr _) \<Rightarrow>
        (case Load idx rd of
           Some (Inr g) \<Rightarrow> gr_Index g = idx \<and> map fst (gr_Knots g) = map fst (ix_Knots idx) \<and>
             list_all (\<lambda>(i, k). load_knot idx rd i = Inr k) (gr_Knots g)
         | _ \<Rightarrow> False)"
proof -
  have ends: "Validate idx rd \<noteq> None" by (simp add: Validate_def check_push_decides(1))
  show ?thesis
  proof (cases "Validate idx rd = Some (Inr ())")
    case True
    then have valid: "valid_graph idx rd" using whole_graph_passes [OF L] by simp
    then have fine: "all_fine idx rd" by (simp add: valid_graph_def)
    obtain cs where "Load idx rd = Some (Inr \<lparr>gr_Index = idx,
        gr_Knots = map (\<lambda>(i, _). (i, knot_at idx rd i)) (ix_Knots idx), gr_Comments = cs\<rparr>)"
      using load_valid [OF L valid] by blast
    then show ?thesis
      using True indexed_loads(1) [OF L fine] by (auto simp: list_all_iff comp_def split_def)
  next
    case False
    then obtain e where "Validate idx rd = Some (Inl e)"
      using ends by (metis (full_types) old.unit.exhaust option.exhaust sum.exhaust)
    then show ?thesis by (simp add: Load_def)
  qed
qed

section \<open>What a view says\<close>

text \<open>A blocker is cleared when its knot is known and is terminal.\<close>

definition cleared :: "Graph \<Rightarrow> Foreign option \<Rightarrow> string \<Rightarrow> bool" where
  "cleared g foreign ref \<longleftrightarrow>
     (if IsLocalID ref then (case map_of (gr_Knots g) ref of None \<Rightarrow> False | Some k \<Rightarrow> \<not> Active k)
      else (case foreign of
          None \<Rightarrow> False
        | Some ask \<Rightarrow> (case ask ref of Inr (Some k) \<Rightarrow> \<not> Active k | _ \<Rightarrow> False)))"

lemma view_blocker_waits:
  "vw_WaitingOn (view_blocker g foreign v ref) = vw_WaitingOn v @ (if cleared g foreign ref then [] else [ref])"
  by (auto simp: view_blocker_def cleared_def Let_def split: option.splits sum.splits)

lemma waiting_fold:
  "vw_WaitingOn (foldl (view_blocker g foreign) v refs) =
     vw_WaitingOn v @ filter (\<lambda>ref. \<not> cleared g foreign ref) refs"
  by (induction refs arbitrary: v) (simp_all add: view_blocker_waits)

definition blockers :: "Graph \<Rightarrow> string \<Rightarrow> string list" where
  "blockers g i = (case map_of (gr_Knots g) i of None \<Rightarrow> [] | Some k \<Rightarrow> elems (kn_BlockedBy k))"

definition parent_of :: "Graph \<Rightarrow> string \<Rightarrow> string" where
  "parent_of g i = (case map_of (gr_Knots g) i of None \<Rightarrow> [] | Some k \<Rightarrow> kn_Parent k)"

lemma add_back_fold:
  "foldl (\<lambda>m ref. add_back m ref i) b refs = (\<lambda>a. b a @ replicate (count_list refs a) i)"
proof (induction refs arbitrary: b)
  case (Cons r refs)
  then show ?case by (auto simp: add_back_def fun_eq_iff replicate_append_same [symmetric])
qed simp

lemma read_backwards_eq:
  "read_backwards g is (c, b) =
     (\<lambda>a. c a @ filter (\<lambda>i. a \<noteq> [] \<and> parent_of g i = a) is,
      \<lambda>a. b a @ concat (map (\<lambda>i. replicate (count_list (blockers g i) a) i) is))"
proof (induction "is" arbitrary: c b)
  case (Cons i "is")
  show ?case
  proof (cases "map_of (gr_Knots g) i")
    case None
    then show ?thesis by (auto simp: Cons.IH parent_of_def blockers_def fun_eq_iff)
  next
    case (Some k)
    then show ?thesis
      by (simp add: Cons.IH parent_of_def blockers_def add_back_fold) (auto simp: fun_eq_iff add_back_def)
  qed
qed simp

text \<open>
  What a view says of a knot the graph holds: it is ready exactly when it is an active,
  unclaimed outcome or bug every blocker of which is a known, terminal knot; it waits on
  exactly its other blockers, in order; its children are exactly the knots whose parent it is,
  sorted; and the knots it blocks are those whose \<^verbatim>\<open>blocked_by\<close> names it, once for each time.
\<close>

theorem View_says:
  "case View g i now foreign of
     None \<Rightarrow> map_of (gr_Knots g) i = None
   | Some v \<Rightarrow>
       (case map_of (gr_Knots g) i of
          None \<Rightarrow> False
        | Some k \<Rightarrow>
            vw_Ready v = (kn_Type k \<in> {''outcome'', ''bug''} \<and> Active k \<and> kn_ClaimedBy k = [] \<and>
              list_all (cleared g foreign) (elems (kn_BlockedBy k))) \<and>
            vw_WaitingOn v = filter (\<lambda>ref. \<not> cleared g foreign ref) (elems (kn_BlockedBy k)) \<and>
            vw_Children v = filter (\<lambda>c. i \<noteq> [] \<and> parent_of g c = i) (IDs g) \<and>
            vw_Blocks v = concat (map (\<lambda>c. replicate (count_list (blockers g c) i) c) (IDs g)))"
proof (cases "map_of (gr_Knots g) i")
  case None
  then show ?thesis by (simp add: View_def)
next
  case (Some k)
  have all: "filter (\<lambda>ref. \<not> cleared g foreign ref) refs = [] \<longleftrightarrow> list_all (cleared g foreign) refs" for refs
    by (auto simp: filter_empty_conv list_all_iff)
  show ?thesis
    by (auto simp: View_def Some read_backwards_eq Let_def waiting_fold no_view_def all)
qed

lemma View_waits:
  assumes "map_of (gr_Knots g) i = Some k"
  shows "\<exists>v. View g i now foreign = Some v \<and>
    vw_WaitingOn v = filter (\<lambda>ref. \<not> cleared g foreign ref) (elems (kn_BlockedBy k))"
  by (simp add: View_def assms read_backwards_eq Let_def waiting_fold no_view_def)

section \<open>Knots of one graph never wait on each other in a circle\<close>

lemma map_of_keyed:
  "map_of (map (\<lambda>(i, _). (i, h i)) l) j = (case map_of l j of None \<Rightarrow> None | Some _ \<Rightarrow> Some (h j))"
  by (induction l) auto

text \<open>
  C39: among the knots of one loaded graph, following the \<^verbatim>\<open>blocked_by\<close> edges that name a knot by its
  local ID, an active knot is held up by an active knot, itself or one those edges reach, that waits
  on no local ID: what is left for that one to wait on is qualified references, which the check
  does not follow and which may wait on each other in turn.
\<close>

theorem something_free:
  assumes L: "Layout es = Inr idx" and g: "Load idx rd = Some (Inr g)"
    and i: "map_of (gr_Knots g) i = Some k" "Active k"
  shows "\<exists>j kj v. (edge_leads idx rd ''blocked_by'')\<^sup>*\<^sup>* i j \<and> map_of (gr_Knots g) j = Some kj \<and> Active kj \<and>
    View g j now foreign = Some v \<and> list_all (\<lambda>ref. \<not> IsLocalID ref) (vw_WaitingOn v)"
proof -
  have "Validate idx rd = Some (Inr ())"
    using g by (auto simp: Load_def split: option.splits sum.splits)
  then have valid: "valid_graph idx rd" using whole_graph_passes [OF L] by simp
  then have fine: "all_fine idx rd" by (simp add: valid_graph_def)
  have knots: "gr_Knots g = map (\<lambda>(i, _). (i, knot_at idx rd i)) (ix_Knots idx)"
    using load_valid [OF L valid] g by auto
  have known: "map_of (gr_Knots g) j = Some k \<longleftrightarrow> (\<exists>f. map_of (ix_Knots idx) j = Some f) \<and> k = knot_at idx rd j" for j k
    unfolding knots map_of_keyed by (auto split: option.splits)
  obtain f where f: "map_of (ix_Knots idx) i = Some f" using i(1) known by blast
  then have "grounded (plain_next idx rd ''blocked_by'') i"
    using valid unfolding valid_graph_grounded edges_def by (force dest: map_of_SomeD)
  then show ?thesis
    using i
  proof (induction arbitrary: k rule: grounded.induct)
    case (grounded i ns)
    obtain f where f: "map_of (ix_Knots idx) i = Some f" "k = knot_at idx rd i" using grounded.prems(1) known by blast
    note ld = indexed_loads [OF L fine map_of_SomeD [OF f(1)], folded f(2)]
    have ns: "ns = next_knots idx ''blocked_by'' k" using grounded.hyps ld(1) by (simp add: plain_next_def)
    show ?case
    proof (cases "list_all (\<lambda>ref. IsLocalID ref \<longrightarrow> cleared g foreign ref) (elems (kn_BlockedBy k))")
      case True
      obtain v where "View g i now foreign = Some v"
        "vw_WaitingOn v = filter (\<lambda>ref. \<not> cleared g foreign ref) (elems (kn_BlockedBy k))"
        using View_waits [OF grounded.prems(1)] by blast
      then have "list_all (\<lambda>ref. \<not> IsLocalID ref) (vw_WaitingOn v)" using True by (auto simp: list_all_iff)
      then show ?thesis using \<open>View g i now foreign = Some v\<close> grounded.prems by blast
    next
      case False
      then obtain ref where ref: "ref \<in> set (elems (kn_BlockedBy k))" "IsLocalID ref" "\<not> cleared g foreign ref"
        by (auto simp: list_all_iff)
      then have "resolve idx k ref [] = Inr ()"
        using ld(3) unfolding checkEdges_def rbind_unit_eq_Inr check_all_ok by force
      then obtain h where h: "map_of (ix_Knots idx) ref = Some h" by (auto simp: resolve_def split: option.splits)
      then have "map_of (gr_Knots g) ref = Some (knot_at idx rd ref)" using known by blast
      moreover from this have "Active (knot_at idx rd ref)" using ref by (simp add: cleared_def)
      moreover have next_ref: "ref \<in> set ns" using ns h ref(1) by (simp add: next_knots_def)
      ultimately obtain j kj v where "(edge_leads idx rd ''blocked_by'')\<^sup>*\<^sup>* ref j" "map_of (gr_Knots g) j = Some kj"
        "Active kj" "View g j now foreign = Some v" "list_all (\<lambda>ref. \<not> IsLocalID ref) (vw_WaitingOn v)"
        using grounded.IH by blast
      moreover have "edge_leads idx rd ''blocked_by'' i ref"
        using grounded.hyps next_ref by (simp add: edge_leads_def)
      ultimately show ?thesis by (meson converse_rtranclp_into_rtranclp)
    qed
  qed
qed

end
