(* ===== verification/KnotWitness.thy ===== *)
theory KnotWitness
  imports KnotView KnotSample
begin

text \<open>
  The theorems about the layout, the check and the history of a graph, applied to the sample
  graph and its two pushes.
\<close>

lemma sample_push_of:
  "push1 = push_of None index1 sample_read ''ada'' (Some (\<lambda>_. False))" "push2 = push_of (Some index1) index2 sample_read ''bob'' (Some (\<lambda>_. False))"
  by (simp_all add: push1_def push2_def push_of_def)

lemma sample_named: "named_objects sample1" "named_objects sample2"
  by (simp_all add: named_objects_def sample1_def sample2_def dir_entry_def file_entry_def)

lemma sample_valid: "valid_graph index1 sample_read" "Validate index1 sample_read = Some (Inr ())"
proof -
  show g: "valid_graph index1 sample_read"
    using first_push_valid_graph [of sample1 push1] sample_layout(1) sample_pushes(1) by (simp add: push1_def)
  show "Validate index1 sample_read = Some (Inr ())"
    unfolding whole_graph_passes [OF sample_layout(1)] by (rule g)
qed

theorem push_keeps_valid_witness: "Validate index2 sample_read = Some (Inr ())"
  by (rule push_keeps_valid [OF sample_layout sample_named(2) sample_valid(2) sample_pushes(2) [unfolded sample_push_of]])

lemma sample_history: "pushed sample_read sample1" "push_step sample_read sample1 sample2"
proof -
  show "pushed sample_read sample1"
    using sample_pushes(1) unfolding sample_push_of by (rule pushed.first [OF sample_layout(1) sample_named(1)])
  show "push_step sample_read sample1 sample2"
    using sample_pushes(2) unfolding sample_push_of
    by (rule push_step.written [OF sample_layout sample_named(2)])
qed

theorem pushed_valid_witness:
  "case Layout sample1 of Inl _ \<Rightarrow> False | Inr idx \<Rightarrow> Validate idx sample_read = Some (Inr ()) \<and> valid_graph idx sample_read"
  by (rule pushed_valid [OF sample_history(1)])

theorem Validate_iff_witness: "Validate index1 sample_read = Some (Inr ()) \<and> valid_graph index1 sample_read"
  using Validate_iff [OF sample_layout(1)] sample_valid(1) by simp

theorem Layout_knot_paths_witness:
  "fi_ID (sample_file ''k1'') = sample_id \<and> IsLocalID sample_id"
  using Layout_knot_paths [OF sample_layout(1), of sample_id "sample_file ''k1''"] by (simp add: index1_def)

theorem history_keeps_witness: "nothing_lost sample_read index1 index2"
  using history_keeps [OF sample_history(1) r_into_rtranclp [of "push_step sample_read", OF sample_history(2)]]
  by (simp add: sample_layout)

theorem push_provenance_witness: "provenance_ok push2"
  unfolding sample_push_of
proof (rule push_provenance [OF _ sample_layout(2) sample_named(2) sample_pushes(2) [unfolded sample_push_of]])
  show "laid_out sample1 (Some index1)" using sample_layout(1) by (simp add: laid_out_def)
qed simp


theorem Load_refines_witness:
  "case Load index1 sample_read of Some (Inr g) \<Rightarrow> map fst (gr_Knots g) = [sample_id] | _ \<Rightarrow> False"
proof -
  have "map fst (ix_Knots index1) = [sample_id]" by (simp add: index1_def)
  then show ?thesis
    using Load_refines [OF sample_layout(1), of sample_read] by (auto simp: sample_valid(2) split: option.splits sum.splits)
qed

lemma sample_loaded:
  obtains g where "Load index1 sample_read = Some (Inr g)" "map_of (gr_Knots g) sample_id = Some (sample_knot ''A'')"
proof -
  have at: "knot_at index1 sample_read sample_id = sample_knot ''A''" by (simp add: knot_at_def sample_load)
  show thesis
    using load_valid [OF sample_layout(1) sample_valid(1)] that by (auto simp: index1_def at [unfolded index1_def])
qed

theorem something_free_witness:
  "case Load index1 sample_read of Some (Inr g) \<Rightarrow>
       \<exists>j kj v. (edge_leads index1 sample_read ''blocked_by'')\<^sup>*\<^sup>* sample_id j \<and> map_of (gr_Knots g) j = Some kj \<and>
         Active kj \<and> View g j 0 None = Some v \<and> list_all (\<lambda>ref. \<not> IsLocalID ref) (vw_WaitingOn v)
   | _ \<Rightarrow> False"
proof -
  obtain g where g: "Load index1 sample_read = Some (Inr g)" "map_of (gr_Knots g) sample_id = Some (sample_knot ''A'')"
    by (rule sample_loaded)
  have "Active (sample_knot ''A'')" by code_simp
  from something_free [OF sample_layout(1) g this, of 0 None] show ?thesis by (simp add: g(1))
qed

end
