(* ===== verification/KnotCommit.thy ===== *)
theory KnotCommit
  imports KnotModel
begin

text \<open>
  \<^verbatim>\<open>knot/commit.go\<close>: a graph commit read from its object, and the trailer that names the
  operation it records.
\<close>

section \<open>The trailer\<close>

abbreviation nl :: char where "nl \<equiv> CHR 0x0A"

definition OpTrailer :: string where "OpTrailer = ''Valley-Op''"

datatype commit_error =
    NoMessage | NoTree | BadParent | LateParent | NoEmail | NoTime | Committers nat | NoTrailer | TwoTrailers

definition OpOf :: "string \<Rightarrow> (commit_error, string) result" where
  "OpOf message =
     (let ls = split_byte nl (trim_right (\<lambda>c. c = nl) message); lst = last ls in
      case cut_prefix lst (OpTrailer @ '': '') of
        None \<Rightarrow> Inl NoTrailer
      | Some op \<Rightarrow>
          if \<not> IsOpID op then Inl NoTrailer
          else if list_ex (\<lambda>l. has_prefix l OpTrailer) (butlast ls) then Inl TwoTrailers
          else Inr op)"

definition Message :: "string \<Rightarrow> string \<Rightarrow> string" where
  "Message subject op = subject @ [nl, nl] @ OpTrailer @ '': '' @ op @ [nl]"

section \<open>The commit\<close>

record Commit =
  ct_Tree :: string
  ct_Parents :: "string list"
  ct_Committer :: string
  ct_Time :: int
  ct_Op :: string

definition isHex :: "string \<Rightarrow> nat \<Rightarrow> bool" where
  "isHex s hashSize \<longleftrightarrow> length s = 2 * hashSize \<and> list_all is_lower_hex s"

text \<open>\<^verbatim>\<open>strconv.ParseInt(s, 10, 64)\<close>.\<close>

definition parse_int64 :: "string \<Rightarrow> int option" where
  "parse_int64 s =
     (let (neg, ds) =
        (case s of
           [] \<Rightarrow> (False, [])
         | c # cs \<Rightarrow> if c = CHR ''-'' then (True, cs) else if c = CHR ''+'' then (False, cs) else (False, s))
      in
        if ds = [] \<or> \<not> list_all is_digit ds then None
        else
          (let n = (if neg then - int (decimal ds) else int (decimal ds)) in
           if - (2 ^ 63) \<le> n \<and> n < 2 ^ 63 then Some n else None))"

definition re_zone :: rexp where
  "re_zone = Seq (Alt (lit ''+'') (lit ''-'')) (reps 4 cls_digit)"

text \<open>The time is kept as its seconds since the epoch, which is all \<^verbatim>\<open>time.Unix\<close> is given.\<close>

definition commitTime :: "string \<Rightarrow> (commit_error, int) result" where
  "commitTime s =
     (case cut_byte s (CHR '' '') of
        None \<Rightarrow> Inl NoTime
      | Some (seconds, zone) \<Rightarrow>
          (case parse_int64 seconds of
             None \<Rightarrow> Inl NoTime
           | Some n \<Rightarrow> if \<not> matches re_zone zone then Inl NoTime else Inr n))"

fun read_parents :: "nat \<Rightarrow> string list \<Rightarrow> string list \<Rightarrow> (commit_error, string list \<times> string list) result" where
  "read_parents hashSize [] ps = Inr (ps, [])"
| "read_parents hashSize (l # ls) ps =
     (if has_prefix l ''parent '' then
        (let p = trim_prefix l ''parent '' in
         if \<not> isHex p hashSize then Inl BadParent else read_parents hashSize ls (ps @ [p]))
      else Inr (ps, l # ls))"

definition read_committer :: "string \<Rightarrow> (commit_error, string \<times> int) result" where
  "read_committer l =
     (let r = trim_prefix l ''committer '' in
      case cut_str r '' <'' of
        None \<Rightarrow> Inl NoEmail
      | Some (who, rest) \<Rightarrow>
          (case last_index_str rest ''> '' of
             None \<Rightarrow> Inl NoEmail
           | Some e \<Rightarrow> rbind (commitTime (drop (e + 2) rest)) (\<lambda>t. Inr (who, t))))"

fun read_headers :: "string list \<Rightarrow> nat \<Rightarrow> Commit \<Rightarrow> (commit_error, nat \<times> Commit) result" where
  "read_headers [] n c = Inr (n, c)"
| "read_headers (l # ls) n c =
     (if has_prefix l ''parent '' then Inl LateParent
      else if has_prefix l ''committer '' then
        rbind (read_committer l)
          (\<lambda>(who, t). read_headers ls (n + 1) (c\<lparr>ct_Committer := who, ct_Time := t\<rparr>))
      else read_headers ls n c)"

definition ParseCommit :: "string \<Rightarrow> nat \<Rightarrow> (commit_error, Commit) result" where
  "ParseCommit body hashSize =
     (case cut_str body [nl, nl] of
        None \<Rightarrow> Inl NoMessage
      | Some (header, message) \<Rightarrow>
          (let ls = split_byte nl header in
           case cut_prefix (hd ls) ''tree '' of
             None \<Rightarrow> Inl NoTree
           | Some tree \<Rightarrow>
               if \<not> isHex tree hashSize then Inl NoTree
               else
                 rbind (read_parents hashSize (tl ls) [])
                   (\<lambda>(ps, rest).
                      rbind (read_headers rest 0
                          \<lparr>ct_Tree = tree, ct_Parents = ps, ct_Committer = [], ct_Time = 0, ct_Op = []\<rparr>)
                        (\<lambda>(n, c). if n \<noteq> 1 then Inl (Committers n)
                           else rbind (OpOf message) (\<lambda>op. Inr (c\<lparr>ct_Op := op\<rparr>))))))"

section \<open>What is read\<close>

definition re_trailer_line :: "string \<Rightarrow> string" where
  "re_trailer_line op = OpTrailer @ '': '' @ op"

lemma opid_no_newline: "IsOpID op \<Longrightarrow> nl \<notin> set op \<and> op \<noteq> []"
proof -
  assume "IsOpID op"
  then have "length op = 16" "\<forall>c \<in> set op. in_class [(CHR ''0'', CHR ''9''), (CHR ''a'', CHR ''f'')] c"
    unfolding IsOpID_def matches_iff re_opID_def rmem_reps_Cls by auto
  moreover have "\<not> in_class [(CHR ''0'', CHR ''9''), (CHR ''a'', CHR ''f'')] nl"
    by (simp add: less_eq_char_def)
  ultimately show ?thesis by force
qed

lemma split_byte_append_lines:
  "split_byte nl (a @ nl # b) = split_byte nl a @ split_byte nl b"
proof (induction a)
  case (Cons c a)
  obtain w ws where "split_byte nl a = w # ws" by (cases "split_byte nl a") auto
  then show ?case using Cons by simp
qed simp

text \<open>
  The operation a message is written for is the operation read from it: whatever the
  subject, as long as no line of it opens with the trailer's name.
\<close>

theorem OpOf_Message:
  assumes "IsOpID op"
  shows "OpOf (Message subject op) =
    (if list_ex (\<lambda>l. has_prefix l OpTrailer) (split_byte nl subject) then Inl TwoTrailers else Inr op)"
proof -
  note op = opid_no_newline [OF assms]
  have last_op: "last op \<noteq> nl" using op by (metis last_in_set)
  have trailer: "nl \<notin> set (OpTrailer @ '': '' @ op)" using op by (simp add: OpTrailer_def)
  have "trim_right (\<lambda>c. c = nl) (Message subject op) = subject @ [nl, nl] @ OpTrailer @ '': '' @ op"
    unfolding Message_def
    using trim_right_id [of "subject @ [nl, nl] @ OpTrailer @ '': '' @ op" "\<lambda>c. c = nl"] op last_op
    by (simp add: trim_right_def)
  then have "split_byte nl (trim_right (\<lambda>c. c = nl) (Message subject op)) =
      split_byte nl subject @ [[], OpTrailer @ '': '' @ op]"
    using split_byte_append_lines [of subject "nl # OpTrailer @ '': '' @ op"]
      split_byte_append_lines [of "[]" "OpTrailer @ '': '' @ op"] split_byte_notin [OF trailer]
    by simp
  moreover define w where "w = OpTrailer @ '': '' @ op"
  ultimately have split: "split_byte nl (trim_right (\<lambda>c. c = nl) (Message subject op)) = split_byte nl subject @ [[], w]"
    by simp
  have cp: "cut_prefix w (OpTrailer @ '': '') = Some op" by (simp add: w_def)
  have "\<not> has_prefix [] OpTrailer" by (simp add: has_prefix_def OpTrailer_def)
  then show ?thesis
    using assms by (simp add: OpOf_def split cp butlast_append del: cut_prefix_Some)
qed

lemma sample_op: "IsOpID ''0123456789abcdef''"
  by (simp add: IsOpID_def matches_iff re_opID_def less_eq_char_def)

theorem OpOf_Message_witness: "OpOf (Message ''Open oc-ca97811'' ''0123456789abcdef'') = Inr ''0123456789abcdef''"
  unfolding OpOf_Message [OF sample_op] by (simp add: has_prefix_def OpTrailer_def)

definition parent_line :: "string \<Rightarrow> string" where
  "parent_line p = ''parent '' @ p"

lemma parent_line: "has_prefix l ''parent '' \<longleftrightarrow> (\<exists>p. l = parent_line p)"
  "trim_prefix (parent_line p) ''parent '' = p" "parent_line p = parent_line q \<longleftrightarrow> p = q"
  by (auto simp: parent_line_def has_prefix_iff trim_prefix_def)

text \<open>
  The headers of a commit as they are read: the tree line, then every parent line there is, then
  one committer line among the rest.
\<close>

definition commit_reads :: "string list \<Rightarrow> nat \<Rightarrow> Commit \<Rightarrow> bool" where
  "commit_reads ls hashSize c \<longleftrightarrow>
     hd ls = ''tree '' @ ct_Tree c \<and> isHex (ct_Tree c) hashSize \<and> list_all (\<lambda>p. isHex p hashSize) (ct_Parents c) \<and>
     (\<exists>rest l. tl ls = map parent_line (ct_Parents c) @ rest \<and>
        list_all (\<lambda>l. \<not> has_prefix l ''parent '') rest \<and> filter (\<lambda>l. has_prefix l ''committer '') rest = [l] \<and>
        read_committer l = Inr (ct_Committer c, ct_Time c))"

lemma read_parents_iff:
  "read_parents n ls ps = Inr (qs, rest) \<longleftrightarrow>
     (\<exists>new. qs = ps @ new \<and> ls = map parent_line new @ rest \<and> list_all (\<lambda>p. isHex p n) new \<and>
        (rest = [] \<or> \<not> has_prefix (hd rest) ''parent ''))"
proof (induction ls arbitrary: ps)
  case (Cons l ls)
  show ?case
  proof (cases "has_prefix l ''parent ''")
    case True
    then obtain p where l: "l = parent_line p" unfolding parent_line(1) by blast
    have "(\<exists>new. qs = ps @ new \<and> l # ls = map parent_line new @ rest \<and> list_all (\<lambda>p. isHex p n) new \<and>
          (rest = [] \<or> \<not> has_prefix (hd rest) ''parent '')) \<longleftrightarrow>
        isHex p n \<and> (\<exists>new. qs = (ps @ [p]) @ new \<and> ls = map parent_line new @ rest \<and> list_all (\<lambda>p. isHex p n) new \<and>
          (rest = [] \<or> \<not> has_prefix (hd rest) ''parent ''))" (is "?l \<longleftrightarrow> ?r")
    proof
      assume ?l
      then obtain new where new: "qs = ps @ new" "l # ls = map parent_line new @ rest" "list_all (\<lambda>p. isHex p n) new"
        "rest = [] \<or> \<not> has_prefix (hd rest) ''parent ''" by blast
      then obtain q new' where "new = q # new'" using True by (cases new) auto
      then show ?r using new l by (auto simp: parent_line(3))
    next
      assume ?r
      then obtain new where "isHex p n" "qs = (ps @ [p]) @ new" "ls = map parent_line new @ rest"
        "list_all (\<lambda>p. isHex p n) new" "rest = [] \<or> \<not> has_prefix (hd rest) ''parent ''" by blast
      then show ?l using l by (intro exI [of _ "p # new"]) simp
    qed
    moreover have "read_parents n (l # ls) ps = Inr (qs, rest) \<longleftrightarrow>
        isHex p n \<and> read_parents n ls (ps @ [p]) = Inr (qs, rest)"
      using True l by (simp add: parent_line(2) Let_def)
    ultimately show ?thesis using Cons.IH by blast
  next
    case False
    then have no: "l # ls \<noteq> map parent_line (q # new) @ rest" for q new by (auto simp: parent_line(1))
    have "(\<exists>new. qs = ps @ new \<and> l # ls = map parent_line new @ rest \<and> list_all (\<lambda>p. isHex p n) new \<and>
          (rest = [] \<or> \<not> has_prefix (hd rest) ''parent '')) \<longleftrightarrow> qs = ps \<and> rest = l # ls" (is "?l \<longleftrightarrow> ?r")
    proof
      assume ?l
      then obtain new where new: "qs = ps @ new" "l # ls = map parent_line new @ rest" by blast
      then have "new = []" using no by (cases new) blast+
      then show ?r using new by simp
    next
      assume ?r
      then show ?l using False by (intro exI [of _ "[]"]) simp
    qed
    then show ?thesis using False by auto
  qed
qed auto

lemma case_cut_prefix:
  "(case cut_prefix s p of None \<Rightarrow> Inl e | Some r \<Rightarrow> f r) = Inr y \<longleftrightarrow> (\<exists>r. s = p @ r \<and> f r = Inr y)"
  by (cases "prefix p s") (auto simp: cut_prefix_def prefix_def)

lemma read_headers_iff:
  "read_headers ls n c = Inr (m, c') \<longleftrightarrow>
     list_all (\<lambda>l. \<not> has_prefix l ''parent '') ls \<and>
     (let cs = filter (\<lambda>l. has_prefix l ''committer '') ls in
      m = n + length cs \<and> (\<forall>l \<in> set cs. \<exists>r. read_committer l = Inr r) \<and>
      (if cs = [] then c' = c
       else (\<exists>who t. read_committer (last cs) = Inr (who, t) \<and> c' = c\<lparr>ct_Committer := who, ct_Time := t\<rparr>)))"
proof (induction ls n c rule: read_headers.induct)
  case (2 l ls n c)
  show ?case
  proof (cases "has_prefix l ''parent '' \<or> \<not> has_prefix l ''committer ''")
    case True
    then show ?thesis using 2(2) by (auto simp: Let_def)
  next
    case False
    show ?thesis
    proof (cases "read_committer l")
      case (Inl e)
      then show ?thesis using False by (simp add: Let_def)
    next
      case (Inr r)
      obtain who t where r: "r = (who, t)" by fastforce
      show ?thesis
        using 2(1) [of "(who, t)" who t] False Inr r by (auto simp: Let_def)
    qed
  qed
qed auto

text \<open>
  A commit object is read exactly when its headers are its tree, its parents and a rest
  with no parent line and one committer line, and its message ends with one trailer; what is
  read is what they say. So a parent anywhere git would not read one is refused, and the
  parents read are every parent line of the commit.
\<close>

theorem ParseCommit_iff:
  "ParseCommit body hashSize = Inr c \<longleftrightarrow>
     (\<exists>header message. cut_str body [nl, nl] = Some (header, message) \<and>
        commit_reads (split_byte nl header) hashSize c \<and> OpOf message = Inr (ct_Op c))"
proof (cases "cut_str body [nl, nl]")
  case None
  then show ?thesis by (simp add: ParseCommit_def)
next
  case (Some hm)
  obtain header message where hm: "hm = (header, message)" by fastforce
  let ?ls = "split_byte nl header"
  have heads: "read_headers rest 0 c0 = Inr (Suc 0, c1) \<longleftrightarrow>
      list_all (\<lambda>l. \<not> has_prefix l ''parent '') rest \<and>
      (\<exists>l who t. filter (\<lambda>l. has_prefix l ''committer '') rest = [l] \<and> read_committer l = Inr (who, t) \<and>
        c1 = c0\<lparr>ct_Committer := who, ct_Time := t\<rparr>)" for rest c0 c1
    unfolding read_headers_iff Let_def
    by (cases "filter (\<lambda>l. has_prefix l ''committer '') rest" rule: remdups_adj.cases)
      (auto simp del: set_filter)
  have hd_rest: "list_all (\<lambda>l. \<not> has_prefix l ''parent '') rest \<Longrightarrow> rest = [] \<or> \<not> has_prefix (hd rest) ''parent ''"
    for rest by (cases rest) auto
  have "ParseCommit body hashSize = Inr c \<longleftrightarrow>
      (\<exists>tree ps rest c1 op. hd ?ls = ''tree '' @ tree \<and> isHex tree hashSize \<and>
        read_parents hashSize (tl ?ls) [] = Inr (ps, rest) \<and>
        read_headers rest 0 \<lparr>ct_Tree = tree, ct_Parents = ps, ct_Committer = [], ct_Time = 0, ct_Op = []\<rparr> = Inr (Suc 0, c1) \<and>
        OpOf message = Inr op \<and> c = c1\<lparr>ct_Op := op\<rparr>)"
    unfolding ParseCommit_def Some hm option.case prod.case Let_def
    unfolding case_cut_prefix by (auto simp: rbind_eq_Inr)
  also have "\<dots> \<longleftrightarrow> commit_reads ?ls hashSize c \<and> OpOf message = Inr (ct_Op c)"
  proof
    assume "commit_reads ?ls hashSize c \<and> OpOf message = Inr (ct_Op c)"
    then obtain rest l where *: "hd ?ls = ''tree '' @ ct_Tree c" "isHex (ct_Tree c) hashSize"
      "list_all (\<lambda>p. isHex p hashSize) (ct_Parents c)" "tl ?ls = map parent_line (ct_Parents c) @ rest"
      "list_all (\<lambda>l. \<not> has_prefix l ''parent '') rest" "filter (\<lambda>l. has_prefix l ''committer '') rest = [l]"
      "read_committer l = Inr (ct_Committer c, ct_Time c)" "OpOf message = Inr (ct_Op c)"
      unfolding commit_reads_def by blast
    then show "\<exists>tree ps rest c1 op. hd ?ls = ''tree '' @ tree \<and> isHex tree hashSize \<and>
        read_parents hashSize (tl ?ls) [] = Inr (ps, rest) \<and>
        read_headers rest 0 \<lparr>ct_Tree = tree, ct_Parents = ps, ct_Committer = [], ct_Time = 0, ct_Op = []\<rparr> = Inr (Suc 0, c1) \<and>
        OpOf message = Inr op \<and> c = c1\<lparr>ct_Op := op\<rparr>"
      unfolding heads read_parents_iff
      by (intro exI [of _ "ct_Tree c"] exI [of _ "ct_Parents c"] exI [of _ rest] exI [of _ "c\<lparr>ct_Op := []\<rparr>"]
          exI [of _ "ct_Op c"]) (use hd_rest in simp)
  next
    assume "\<exists>tree ps rest c1 op. hd ?ls = ''tree '' @ tree \<and> isHex tree hashSize \<and>
        read_parents hashSize (tl ?ls) [] = Inr (ps, rest) \<and>
        read_headers rest 0 \<lparr>ct_Tree = tree, ct_Parents = ps, ct_Committer = [], ct_Time = 0, ct_Op = []\<rparr> = Inr (Suc 0, c1) \<and>
        OpOf message = Inr op \<and> c = c1\<lparr>ct_Op := op\<rparr>"
    then show "commit_reads ?ls hashSize c \<and> OpOf message = Inr (ct_Op c)"
      unfolding heads read_parents_iff commit_reads_def by fastforce
  qed
  finally show ?thesis by (simp add: Some hm)
qed

end
