(* ===== verification/Patterns.thy ===== *)
theory Patterns
  imports GoBytes
begin

text \<open>
  The pattern lists of \<^verbatim>\<open>sigverify/allowed.go\<close>: OpenSSH's \<^verbatim>\<open>match_pattern\<close> and
  \<^verbatim>\<open>match_pattern_list\<close> as the code has them, and what they decide. A principal or a
  namespace is authorized by such a list.
\<close>

section \<open>One pattern\<close>

abbreviation star :: char where "star \<equiv> CHR ''*''"
abbreviation question :: char where "question \<equiv> CHR ''?''"

function matchPattern :: "string \<Rightarrow> string \<Rightarrow> bool" where
  "matchPattern s [] = (s = [])"
| "matchPattern s (p # ps) =
     (if p = star then
        (case dropWhile (\<lambda>c. c = star) ps of
           [] \<Rightarrow> True
         | q # qs \<Rightarrow>
             if q \<noteq> question then
               list_ex (\<lambda>i. s ! i = q \<and> matchPattern (drop (i + 1) s) qs) [0..<length s]
             else list_ex (\<lambda>i. matchPattern (drop i s) (q # qs)) [0..<length s])
      else
        (case s of
           [] \<Rightarrow> False
         | c # cs \<Rightarrow> if p \<noteq> question \<and> p \<noteq> c then False else matchPattern cs ps))"
  by pat_completeness auto

termination
proof (relation "measure (\<lambda>(s, p). length p)")
  fix s p ps q qs i
  assume "dropWhile (\<lambda>c. c = star) ps = q # qs"
  then have "length (q # qs) \<le> length ps" by (metis length_dropWhile_le)
  then show "((drop (i + 1) s, qs), (s, p # ps)) \<in> measure (\<lambda>(s, p). length p)"
    and "((drop i s, q # qs), (s, p # ps)) \<in> measure (\<lambda>(s, p). length p)"
    by simp_all
qed simp_all

text \<open>What a pattern means: a star any bytes, a question mark one, every other byte itself.\<close>

inductive means :: "string \<Rightarrow> string \<Rightarrow> bool" where
  nil: "means [] []"
| star: "means ps t \<Longrightarrow> means (star # ps) (u @ t)"
| question: "means ps t \<Longrightarrow> means (question # ps) (c # t)"
| byte: "c \<noteq> star \<Longrightarrow> c \<noteq> question \<Longrightarrow> means ps t \<Longrightarrow> means (c # ps) (c # t)"

inductive_simps means_Nil [simp]: "means [] s"
inductive_simps means_Cons: "means (p # ps) s"

lemma means_star: "means (star # ps) s \<longleftrightarrow> (\<exists>i \<le> length s. means ps (drop i s))"
proof
  assume "means (star # ps) s"
  then obtain u t where "s = u @ t" "means ps t" unfolding means_Cons by auto
  then show "\<exists>i \<le> length s. means ps (drop i s)" by (intro exI [of _ "length u"]) simp
next
  assume "\<exists>i \<le> length s. means ps (drop i s)"
  then obtain i where "means ps (drop i s)" by blast
  then have "means (star # ps) (take i s @ drop i s)" by (rule means.star)
  then show "means (star # ps) s" by simp
qed

lemma means_other:
  "p \<noteq> star \<Longrightarrow> means (p # ps) s \<longleftrightarrow> (\<exists>c cs. s = c # cs \<and> (p = question \<or> p = c) \<and> means ps cs)"
  unfolding means_Cons by auto

lemma means_stars: "means (star # ps) s \<longleftrightarrow> means (star # dropWhile (\<lambda>c. c = star) ps) s"
proof (induction ps arbitrary: s)
  case (Cons p ps)
  show ?case
  proof (cases "p = star")
    case True
    have "means (star # star # ps) s \<longleftrightarrow> means (star # ps) s"
    proof
      assume "means (star # star # ps) s"
      then obtain i j where "i \<le> length s" "j \<le> length (drop i s)" "means ps (drop j (drop i s))"
        unfolding means_star by blast
      then show "means (star # ps) s" unfolding means_star by (intro exI [of _ "j + i"]) simp
    next
      assume "means (star # ps) s"
      then show "means (star # star # ps) s" unfolding means_star [of "star # ps"] by (intro exI [of _ 0]) simp
    qed
    then show ?thesis using Cons.IH True by simp
  qed simp
qed simp

lemma matchPattern_means: "matchPattern s p \<longleftrightarrow> means p s"
proof (induction s p rule: matchPattern.induct)
  case (2 s p ps)
  show ?case
  proof (cases "p = star")
    case False
    then show ?thesis using 2(3) by (auto simp: means_other split: list.split)
  next
    case True
    show ?thesis
    proof (cases "dropWhile (\<lambda>c. c = star) ps")
      case Nil
      then have "means (star # ps) s"
        unfolding means_stars [of ps] Nil unfolding means_star by (intro exI [of _ "length s"]) simp
      then show ?thesis unfolding True
        by (subst matchPattern.simps(2)) (simp only: Nil list.case if_True refl simp_thms)
    next
      case (Cons q qs)
      have q: "q \<noteq> star" using hd_dropWhile [of "\<lambda>c. c = star" ps] Cons by simp
      have "means (star # ps) s \<longleftrightarrow> (\<exists>i < length s. means (q # qs) (drop i s))"
      proof
        assume "means (star # ps) s"
        then obtain i where i: "i \<le> length s" "means (q # qs) (drop i s)"
          unfolding means_stars [of ps] Cons unfolding means_star by blast
        then have "drop i s \<noteq> []" unfolding means_other [OF q] by auto
        then show "\<exists>i < length s. means (q # qs) (drop i s)" using i(2) by (intro exI [of _ i]) simp
      next
        assume "\<exists>i < length s. means (q # qs) (drop i s)"
        then show "means (star # ps) s"
          unfolding means_stars [of ps] Cons unfolding means_star using less_imp_le by blast
      qed
      moreover have "means (q # qs) (drop i s) \<longleftrightarrow> (q = question \<or> s ! i = q) \<and> means qs (drop (i + 1) s)"
        if "i < length s" for i
        unfolding means_other [OF q] using that by (simp add: Cons_nth_drop_Suc [symmetric]) auto
      ultimately show ?thesis
        using True Cons 2(1) [OF True Cons] 2(2) [OF True Cons] by (auto simp: list_ex_iff)
    qed
  qed
qed simp

section \<open>A list of patterns\<close>

definition maxPattern :: nat where "maxPattern = 1024 - 1"

definition comma :: char where "comma = CHR '',''"

definition bang :: char where "bang = CHR ''!''"

lemma match_list_shorter:
  assumes "l \<noteq> []" "l1 = (if hd l = bang then tl l else l)"
    and "pattern = take maxPattern (takeWhile (\<lambda>c. c \<noteq> comma) l1)" "length pattern < maxPattern"
    and "l2 = drop (length pattern) l1" "l3 = (if l2 \<noteq> [] \<and> hd l2 = comma then tl l2 else l2)"
  shows "length l3 < length l"
proof (cases "hd l = bang")
  case True
  then have "length l1 < length l" using assms(1,2) by simp
  moreover have "length l3 \<le> length l1" using assms(5,6) by (auto simp: le_diff_conv)
  ultimately show ?thesis by simp
next
  case False
  then have l1: "l1 = l" using assms(2) by simp
  show ?thesis
  proof (cases "hd l = comma")
    case True
    then have "pattern = []" using assms(1,3) l1 by (cases l) auto
    then show ?thesis using assms(1,5,6) l1 True by simp
  next
    case False
    have "maxPattern = Suc (maxPattern - 1)" by (simp add: maxPattern_def)
    then have "pattern \<noteq> []" using assms(1,3) l1 False by (cases l) (auto simp: take_Suc_Cons split: if_splits)
    then have "length l2 < length l" using assms(1,5) l1 by simp
    moreover have "length l3 \<le> length l2" using assms(6) by simp
    ultimately show ?thesis by simp
  qed
qed

text \<open>The loop over the list, with what is left of it and whether a pattern has matched.\<close>

function match_list_loop :: "string \<Rightarrow> string \<Rightarrow> int \<Rightarrow> int" where
  "match_list_loop s l positive =
     (if l = [] then positive
      else
        (let negated = (hd l = bang);
             l1 = (if negated then tl l else l);
             pattern = take maxPattern (takeWhile (\<lambda>c. c \<noteq> comma) l1);
             l2 = drop (length pattern) l1;
             l3 = (if l2 \<noteq> [] \<and> hd l2 = comma then tl l2 else l2) in
         if length pattern \<ge> maxPattern then 0
         else if matchPattern s pattern then (if negated then - 1 else match_list_loop s l3 1)
         else match_list_loop s l3 positive))"
  by pat_completeness auto

termination
proof (relation "measure (\<lambda>(s, l, positive). length l)", simp, goal_cases)
  case (1 s l positive negated l1 pattern l2 l3)
  then show ?case using match_list_shorter [of l l1 pattern l2 l3] by simp
next
  case (2 s l positive negated l1 pattern l2 l3)
  then show ?case using match_list_shorter [of l l1 pattern l2 l3] by simp
qed

declare match_list_loop.simps [simp del]

definition matchPatternList :: "string \<Rightarrow> string \<Rightarrow> int" where
  "matchPatternList s l = match_list_loop s l 0"

section \<open>What a list decides\<close>

text \<open>The entries of a list: whether each is negated, and its pattern. A list that ends with a
  comma has no entry after it.\<close>

definition entry :: "string \<Rightarrow> bool \<times> string" where
  "entry w = (if w \<noteq> [] \<and> hd w = bang then (True, tl w) else (False, w))"

definition entries :: "string \<Rightarrow> (bool \<times> string) list" where
  "entries l = (let ws = split_byte comma l in map entry (if last ws = [] then butlast ws else ws))"

fun judge_entries :: "string \<Rightarrow> (bool \<times> string) list \<Rightarrow> int \<Rightarrow> int" where
  "judge_entries s [] positive = positive"
| "judge_entries s ((negated, pattern) # es) positive =
     (if length pattern \<ge> maxPattern then 0
      else if means pattern s then (if negated then - 1 else judge_entries s es 1)
      else judge_entries s es positive)"

lemma bang_comma: "bang \<noteq> comma" by (simp add: bang_def comma_def)

lemma entries_step:
  assumes "l \<noteq> []"
  shows "entries l = entry (takeWhile (\<lambda>c. c \<noteq> comma) l) # entries (drop (Suc (length (takeWhile (\<lambda>c. c \<noteq> comma) l))) l)"
proof (cases "comma \<in> set l")
  case True
  then obtain a b where l: "l = a @ comma # b" "comma \<notin> set a" using split_list_first by metis
  then have tw: "takeWhile (\<lambda>c. c \<noteq> comma) l = a" unfolding l(1)
    by (intro takeWhile_append_stop) (use l(2) in auto)
  have "split_byte comma l = a # split_byte comma b" using split_byte_append [OF l(2)] l(1) by simp
  then have "entries l = entry a # entries b" by (simp add: entries_def Let_def)
  then show ?thesis unfolding tw by (simp add: l(1))
next
  case False
  then have tw: "takeWhile (\<lambda>c. c \<noteq> comma) l = l" by (intro takeWhile_all) auto
  have "entries l = [entry l]" "entries [] = []" using assms split_byte_notin [OF False] by (simp_all add: entries_def)
  then show ?thesis unfolding tw by simp
qed

lemma match_list_entries: "match_list_loop s l positive = judge_entries s (entries l) positive"
proof (induction s l positive rule: match_list_loop.induct)
  case (1 s l positive)
  show ?case
  proof (cases "l = []")
    case True
    have "entries [] = []" by (simp add: entries_def)
    then show ?thesis using True by (subst match_list_loop.simps) simp
  next
    case False
    define w where "w = takeWhile (\<lambda>c. c \<noteq> comma) l"
    define negated where "negated = (hd l = bang)"
    define l1 where "l1 = (if negated then tl l else l)"
    define p where "p = takeWhile (\<lambda>c. c \<noteq> comma) l1"
    define l3 where "l3 = drop (Suc (length w)) l"
    have w: "w = (if negated then bang # p else p)"
    proof (cases negated)
      case True
      then have "l = bang # tl l" using \<open>l \<noteq> []\<close> by (cases l) (simp_all add: negated_def)
      then have "w = takeWhile (\<lambda>c. c \<noteq> comma) (bang # tl l)" by (simp add: w_def)
      then show ?thesis using True bang_comma by (simp add: p_def l1_def)
    qed (simp add: w_def p_def l1_def)
    have entry: "entry w = (negated, p)"
    proof (cases negated)
      case False
      then have "p = w" using w by simp
      moreover have "w = [] \<or> hd w \<noteq> bang"
        using False unfolding negated_def w_def by (cases l) auto
      ultimately show ?thesis using False by (auto simp: entry_def)
    next
      case True
      then have "w = bang # p" using w by simp
      then show ?thesis using True by (simp add: entry_def)
    qed
    have step: "entries l = (negated, p) # entries l3"
      using entries_step [OF False] entry by (simp add: w_def l3_def)
    have rest: "(let l2 = drop (length p) l1 in if l2 \<noteq> [] \<and> hd l2 = comma then tl l2 else l2) = l3"
    proof -
      have d: "drop (length p) l1 = dropWhile (\<lambda>c. c \<noteq> comma) l1" by (simp add: p_def dropWhile_eq_drop)
      then have hd: "drop (length p) l1 \<noteq> [] \<Longrightarrow> hd (drop (length p) l1) = comma"
        using hd_dropWhile [of "\<lambda>c. c \<noteq> comma" l1] by simp
      have "l3 = drop (Suc (length p)) l1"
        using w False by (cases l) (auto simp: l3_def l1_def negated_def)
      then show ?thesis
        using hd by (cases "drop (length p) l1 = []") (simp_all add: drop_Suc tl_drop)
    qed
    have long: "length (take maxPattern p) \<ge> maxPattern \<longleftrightarrow> length p \<ge> maxPattern"
      "\<not> length p \<ge> maxPattern \<Longrightarrow> take maxPattern p = p" by auto
    show ?thesis
    proof (cases "length p \<ge> maxPattern")
      case True
      then show ?thesis using False
        by (simp add: match_list_loop.simps [of s l] step Let_def negated_def [symmetric] l1_def [symmetric] p_def [symmetric])
    next
      case short: False
      note take = long(2) [OF short]
      note unfold = match_list_loop.simps [of s l positive]
      have "match_list_loop s l positive =
          (if matchPattern s p then (if negated then - 1 else match_list_loop s l3 1) else match_list_loop s l3 positive)"
        using False short rest unfolding unfold Let_def negated_def [symmetric] l1_def [symmetric] p_def [symmetric] take
        by simp
      moreover have "\<not> negated \<Longrightarrow> matchPattern s p \<Longrightarrow> match_list_loop s l3 1 = judge_entries s (entries l3) 1"
        using 1(1) [OF False negated_def l1_def _ refl refl] short rest take unfolding p_def [symmetric]
        by (simp add: Let_def)
      moreover have "\<not> matchPattern s p \<Longrightarrow> match_list_loop s l3 positive = judge_entries s (entries l3) positive"
        using 1(2) [OF False negated_def l1_def _ refl refl] short rest take unfolding p_def [symmetric]
        by (simp add: Let_def)
      ultimately show ?thesis using short by (simp add: step matchPattern_means)
    qed
  qed
qed

lemma judge_entries_one:
  "positive \<in> {0, 1} \<Longrightarrow> judge_entries s es positive = 1 \<longleftrightarrow>
     list_all (\<lambda>(negated, p). length p < maxPattern \<and> \<not> (negated \<and> means p s)) es \<and>
     (positive = 1 \<or> list_ex (\<lambda>(negated, p). \<not> negated \<and> means p s) es)"
  by (induction s es positive rule: judge_entries.induct) auto

text \<open>
  A pattern list authorizes a name exactly when each of its patterns is within OpenSSH's
  limit, the name matches none that is negated, and it matches one that is not: wherever a
  negated pattern stands in the list, it wins.
\<close>

theorem matchPatternList_iff:
  "matchPatternList s l = 1 \<longleftrightarrow>
     list_all (\<lambda>(negated, p). length p < maxPattern \<and> \<not> (negated \<and> means p s)) (entries l) \<and>
     list_ex (\<lambda>(negated, p). \<not> negated \<and> means p s) (entries l)"
  using judge_entries_one [of 0 s "entries l"] by (simp add: matchPatternList_def match_list_entries)

end
