(* ===== verification/Wire.thy ===== *)
theory Wire
  imports Codec GoBytes "HOL-Library.Word"
begin

text \<open>
  \<^verbatim>\<open>sigverify/wire.go\<close>: the reader of the SSH wire encoding. The first failed read records an
  error; every later read then returns a zero value, so a parser reads all of its fields and
  checks the error once.
\<close>

section \<open>The reader\<close>

datatype wire_error = Short | NegativeInteger | RedundantZero | Trailing

record reader =
  wr_rest :: string
  wr_err :: "wire_error option"

definition reader_of :: "string \<Rightarrow> reader" where
  "reader_of b = \<lparr>wr_rest = b, wr_err = None\<rparr>"

lemma reader_of_simps [simp]: "wr_rest (reader_of b) = b" "wr_err (reader_of b) = None"
  by (simp_all add: reader_of_def)

text \<open>The bytes taken, or \<^term>\<open>None\<close> for the \<^verbatim>\<open>nil\<close> a failed read gives.\<close>

definition take_bytes :: "nat \<Rightarrow> reader \<Rightarrow> string option \<times> reader" where
  "take_bytes n r =
     (if wr_err r \<noteq> None then (None, r)
      else if length (wr_rest r) < n then (None, r\<lparr>wr_err := Some Short\<rparr>)
      else (Some (take n (wr_rest r)), r\<lparr>wr_rest := drop n (wr_rest r)\<rparr>))"

text \<open>Big-endian numbers.\<close>

definition be_nat :: "string \<Rightarrow> nat" where
  "be_nat b = foldl (\<lambda>n c. 256 * n + byte_val c) 0 b"

fun be_bytes :: "nat \<Rightarrow> nat \<Rightarrow> string" where
  "be_bytes 0 n = []"
| "be_bytes (Suc k) n = be_bytes k (n div 256) @ [char_of (n mod 256)]"

definition u8 :: "reader \<Rightarrow> 8 word \<times> reader" where
  "u8 r = (case take_bytes 1 r of (b, r') \<Rightarrow> ((case b of None \<Rightarrow> 0 | Some s \<Rightarrow> word_of_nat (byte_val (hd s))), r'))"

definition u32 :: "reader \<Rightarrow> 32 word \<times> reader" where
  "u32 r = (case take_bytes 4 r of (b, r') \<Rightarrow> ((case b of None \<Rightarrow> 0 | Some s \<Rightarrow> word_of_nat (be_nat s)), r'))"

definition str :: "reader \<Rightarrow> string \<times> reader" where
  "str r =
     (case u32 r of (n, r1) \<Rightarrow>
        if wr_err r1 \<noteq> None then ([], r1)
        else if length (wr_rest r1) < unat n then ([], r1\<lparr>wr_err := Some Short\<rparr>)
        else (case take_bytes (unat n) r1 of (b, r2) \<Rightarrow> ((case b of None \<Rightarrow> [] | Some s \<Rightarrow> s), r2)))"

definition mpint :: "reader \<Rightarrow> nat option \<times> reader" where
  "mpint r =
     (case str r of (b, r1) \<Rightarrow>
        if wr_err r1 \<noteq> None then (None, r1)
        else if 0 < length b \<and> 128 \<le> byte_val (b ! 0) then (None, r1\<lparr>wr_err := Some NegativeInteger\<rparr>)
        else if 0 < length b \<and> byte_val (b ! 0) = 0 \<and> (length b = 1 \<or> byte_val (b ! 1) < 128)
        then (None, r1\<lparr>wr_err := Some RedundantZero\<rparr>)
        else (Some (be_nat b), r1))"

definition end_read :: "reader \<Rightarrow> (wire_error, unit) result" where
  "end_read r =
     (case wr_err r of
        Some e \<Rightarrow> Inl e
      | None \<Rightarrow> if length (wr_rest r) \<noteq> 0 then Inl Trailing else Inr ())"

definition append_u32 :: "string \<Rightarrow> 32 word \<Rightarrow> string" where
  "append_u32 dst n = dst @ be_bytes 4 (unat n)"

definition appendString :: "string \<Rightarrow> string \<Rightarrow> string" where
  "appendString dst b = append_u32 dst (word_of_nat (length b)) @ b"

section \<open>Numbers and bytes\<close>

lemma be_nat_Nil [simp]: "be_nat [] = 0" by (simp add: be_nat_def)

lemma be_nat_snoc [simp]: "be_nat (b @ [c]) = 256 * be_nat b + byte_val c" by (simp add: be_nat_def)

lemma length_be_bytes [simp]: "length (be_bytes k n) = k"
  by (induction k arbitrary: n) simp_all

lemma byte_val_char_of_mod [simp]: "byte_val (char_of (n :: nat)) = n mod 256"
  by (simp add: byte_val_def)

lemma be_nat_bytes: "n < 256 ^ k \<Longrightarrow> be_nat (be_bytes k n) = n"
proof (induction k arbitrary: n)
  case (Suc k)
  then have "n div 256 < 256 ^ k" by (simp add: less_mult_imp_div_less mult.commute)
  then show ?case using Suc.IH by simp
qed simp

lemma be_bytes_nat: "be_bytes (length b) (be_nat b) = b"
proof (induction b rule: rev_induct)
  case (snoc c b)
  have "(256 * be_nat b + byte_val c) div 256 = be_nat b" "(256 * be_nat b + byte_val c) mod 256 = byte_val c"
    using byte_val_less [of c] by simp_all
  then show ?case using snoc by simp
qed simp

lemma be_nat_single [simp]: "be_nat [c] = byte_val c"
  using be_nat_snoc [of "[]" c] by simp

lemma be_nat_less: "be_nat b < 256 ^ length b"
proof (induction b rule: rev_induct)
  case (snoc c b)
  have "256 * be_nat b + byte_val c < 256 * be_nat b + 256" using byte_val_less [of c] by simp
  also have "\<dots> \<le> 256 * 256 ^ length b" using snoc by simp
  finally show ?case by simp
qed simp

lemma be_nat_append: "be_nat (a @ b) = be_nat a * 256 ^ length b + be_nat b"
proof (induction b rule: rev_induct)
  case (snoc c b)
  have "be_nat (a @ b @ [c]) = 256 * be_nat (a @ b) + byte_val c" using be_nat_snoc [of "a @ b" c] by simp
  then show ?case using snoc by (simp add: algebra_simps)
qed simp

section \<open>What is read\<close>

text \<open>A string's wire form, and what each read says of the bytes it read.\<close>

definition wire_string :: "string \<Rightarrow> string" where
  "wire_string b = be_bytes 4 (length b) @ b"

lemma appendString_wire: "length b < 2 ^ 32 \<Longrightarrow> appendString dst b = dst @ wire_string b"
  by (simp add: appendString_def append_u32_def wire_string_def unat_of_nat take_bit_nat_eq_self)

lemma take_bytes_ok:
  "wr_err (snd (take_bytes n r)) = None \<longleftrightarrow> wr_err r = None \<and> n \<le> length (wr_rest r)"
  by (cases "wr_err r"; cases "length (wr_rest r) < n") (simp_all add: take_bytes_def)

lemma take_bytes_good:
  "wr_err r = None \<Longrightarrow> n \<le> length (wr_rest r) \<Longrightarrow>
     take_bytes n r = (Some (take n (wr_rest r)), r\<lparr>wr_rest := drop n (wr_rest r)\<rparr>)"
  by (simp add: take_bytes_def)

lemma snd_u32: "snd (u32 r) = snd (take_bytes 4 r)" and snd_u8: "snd (u8 r) = snd (take_bytes 1 r)"
  by (simp_all add: u32_def u8_def split: prod.split)

lemma u32_ok:
  "wr_err (snd (u32 r)) = None \<longleftrightarrow> wr_err r = None \<and> 4 \<le> length (wr_rest r)"
  by (simp only: snd_u32 take_bytes_ok)

lemma u32_reads:
  assumes "wr_err (snd (u32 r)) = None"
  shows "wr_rest r = be_bytes 4 (unat (fst (u32 r))) @ wr_rest (snd (u32 r))"
proof -
  have r: "wr_err r = None" "4 \<le> length (wr_rest r)" using assms by (simp_all only: u32_ok)
  let ?s = "take 4 (wr_rest r)"
  have len: "length ?s = 4" using r by simp
  have "be_nat ?s < 2 ^ 32" using be_nat_less [of ?s] len by simp
  then have "unat (fst (u32 r)) = be_nat ?s"
    by (simp add: u32_def take_bytes_good [OF r] unat_of_nat take_bit_nat_eq_self)
  then have "be_bytes 4 (unat (fst (u32 r))) = ?s" using be_bytes_nat [of ?s] len by simp
  moreover have "wr_rest (snd (u32 r)) = drop 4 (wr_rest r)" by (simp add: u32_def take_bytes_good [OF r])
  ultimately show ?thesis by simp
qed

lemma u8_ok: "wr_err (snd (u8 r)) = None \<longleftrightarrow> wr_err r = None \<and> 1 \<le> length (wr_rest r)"
  by (simp only: snd_u8 take_bytes_ok)

lemma u8_reads:
  assumes "wr_err (snd (u8 r)) = None"
  shows "wr_rest r = char_of (unat (fst (u8 r))) # wr_rest (snd (u8 r))"
proof -
  have r: "wr_err r = None" "1 \<le> length (wr_rest r)" using assms by (simp_all only: u8_ok)
  then obtain c t where c: "wr_rest r = c # t" by (cases "wr_rest r") auto
  have "unat (word_of_nat (byte_val c) :: 8 word) = byte_val c"
    using byte_val_less [of c] by (simp add: unat_of_nat take_bit_nat_eq_self)
  moreover have "u8 r = (word_of_nat (byte_val c), r\<lparr>wr_rest := t\<rparr>)"
    unfolding u8_def take_bytes_good [OF r] by (simp add: c)
  ultimately show ?thesis by (simp add: c)
qed

text \<open>A string is read exactly when its wire form is next, and then it is what is read.\<close>

lemma str_ok:
  assumes "wr_err (snd (str r)) = None"
  shows "wr_err r = None" "wr_rest r = wire_string (fst (str r)) @ wr_rest (snd (str r))"
    "length (fst (str r)) < 2 ^ 32"
proof -
  obtain n r1 where n: "u32 r = (n, r1)" by fastforce
  have e1: "wr_err r1 = None" using assms by (auto simp: str_def n split: if_splits)
  then have r: "wr_err r = None" "wr_rest r = be_bytes 4 (unat n) @ wr_rest r1"
    using u32_ok [of r] u32_reads [of r] n by auto
  have len: "unat n \<le> length (wr_rest r1)" using assms e1 by (auto simp: str_def n split: if_splits)
  then have s: "str r = (take (unat n) (wr_rest r1), r1\<lparr>wr_rest := drop (unat n) (wr_rest r1)\<rparr>)"
    using e1 by (simp add: str_def n take_bytes_def)
  show "wr_err r = None" by (rule r(1))
  show "wr_rest r = wire_string (fst (str r)) @ wr_rest (snd (str r))"
    using r(2) len by (simp add: s wire_string_def)
  show "length (fst (str r)) < 2 ^ 32" using len unsigned_less [of n] by (simp add: s)
qed

lemma str_reads:
  assumes "wr_err r = None" "wr_rest r = wire_string b @ t" "length b < 2 ^ 32"
  shows "str r = (b, r\<lparr>wr_rest := t\<rparr>)"
proof -
  have "be_nat (be_bytes 4 (length b)) = length b" using assms(3) by (simp add: be_nat_bytes)
  moreover have "unat (word_of_nat (length b) :: 32 word) = length b"
    using assms(3) by (simp add: unat_of_nat take_bit_nat_eq_self)
  ultimately show ?thesis
    using assms(1,2) by (simp add: str_def u32_def take_bytes_def wire_string_def)
qed

section \<open>One integer has one encoding\<close>

text \<open>The minimal encoding of a number: its bytes, with a zero byte where the first is 128 or more.\<close>

fun min_bytes :: "nat \<Rightarrow> string" where
  "min_bytes n = (if n = 0 then [] else min_bytes (n div 256) @ [char_of (n mod 256)])"

declare min_bytes.simps [simp del]

definition mpint_bytes :: "nat \<Rightarrow> string" where
  "mpint_bytes n =
     (let b = min_bytes n in if b \<noteq> [] \<and> 128 \<le> byte_val (hd b) then char_of (0 :: nat) # b else b)"

lemma min_bytes_0 [simp]: "min_bytes 0 = []"
  by (simp add: min_bytes.simps)

lemma min_bytes_pos: "0 < n \<Longrightarrow> min_bytes n = min_bytes (n div 256) @ [char_of (n mod 256)]"
  by (subst min_bytes.simps) simp

lemma be_nat_min: "be_nat (min_bytes n) = n"
proof (induction n rule: min_bytes.induct)
  case (1 n)
  then show ?case by (cases "n = 0") (simp_all add: min_bytes_pos)
qed

lemma min_bytes_hd: "0 < n \<Longrightarrow> min_bytes n \<noteq> [] \<and> byte_val (hd (min_bytes n)) \<noteq> 0"
proof (induction n rule: min_bytes.induct)
  case (1 n)
  show ?case
  proof (cases "n div 256 = 0")
    case True
    then have "n < 256" by (simp add: div_eq_0_iff)
    then show ?thesis using 1(2) by (simp add: min_bytes_pos True)
  next
    case False
    then have pos: "0 < n div 256" by simp
    then have "min_bytes (n div 256) \<noteq> [] \<and> byte_val (hd (min_bytes (n div 256))) \<noteq> 0" using 1 by simp
    then show ?thesis using min_bytes_pos [OF 1(2)] by (simp del: byte_val_char_of_mod)
  qed
qed

lemma length_min_bytes: "n < 256 ^ k \<Longrightarrow> length (min_bytes n) \<le> k"
proof (induction k arbitrary: n)
  case (Suc k)
  then have "n div 256 < 256 ^ k" by (simp add: less_mult_imp_div_less mult.commute)
  then show ?case using Suc.IH [of "n div 256"] by (cases "n = 0") (simp_all add: min_bytes_pos)
qed simp

lemma min_bytes_be: "b = [] \<or> byte_val (hd b) \<noteq> 0 \<Longrightarrow> min_bytes (be_nat b) = b"
proof (induction b rule: rev_induct)
  case (snoc c b)
  show ?case
  proof (cases "b = []")
    case True
    then have "0 < byte_val c" using snoc by simp
    then show ?thesis using byte_val_less [of c] True by (simp add: min_bytes_pos del: byte_val_less)
  next
    case False
    then have b: "min_bytes (be_nat b) = b" using snoc by simp
    then have "be_nat b \<noteq> 0" using False min_bytes_0 by metis
    then have "min_bytes (be_nat (b @ [c])) = min_bytes (be_nat b) @ [char_of (byte_val c)]"
      using byte_val_less [of c] by (simp add: min_bytes_pos)
    then show ?thesis using b by simp
  qed
qed simp

lemma mpint_bytes_short: "n < 256 ^ k \<Longrightarrow> length (mpint_bytes n) \<le> Suc k"
  using length_min_bytes [of n k] by (simp add: mpint_bytes_def Let_def)

definition mpint_ok :: "string \<Rightarrow> bool" where
  "mpint_ok b \<longleftrightarrow> \<not> (0 < length b \<and> 128 \<le> byte_val (b ! 0)) \<and>
     \<not> (0 < length b \<and> byte_val (b ! 0) = 0 \<and> (length b = 1 \<or> byte_val (b ! 1) < 128))"

lemma mpint_ok_iff: "mpint_ok b \<longleftrightarrow> b = mpint_bytes (be_nat b)"
proof (cases b)
  case Nil
  then show ?thesis by (simp add: mpint_ok_def mpint_bytes_def)
next
  case b: (Cons c t)
  have nz: "byte_val c \<noteq> 0 \<Longrightarrow> mpint_bytes (be_nat b) = (if 128 \<le> byte_val c then char_of (0 :: nat) # b else b)"
    using min_bytes_be [of b] by (simp add: mpint_bytes_def b Let_def)
  show ?thesis
  proof (cases "byte_val c = 0")
    case False
    then show ?thesis using nz by (auto simp: mpint_ok_def b)
  next
    case True
    then have c: "c = char_of (0 :: nat)" by (metis byte_val_char_of_mod byte_val_inj mod_0)
    have be: "be_nat b = be_nat t" using be_nat_append [of "[c]" t] True by (simp add: b be_nat_def)
    show ?thesis
    proof (cases t)
      case Nil
      then show ?thesis using True by (simp add: mpint_ok_def b be mpint_bytes_def Let_def)
    next
      case t: (Cons d u)
      show ?thesis
      proof (cases "byte_val d = 0")
        case True
        have "min_bytes (be_nat t) = b \<Longrightarrow> False"
          using min_bytes_hd [of "be_nat t"] \<open>byte_val c = 0\<close> b by (cases "be_nat t = 0") auto
        moreover have "min_bytes (be_nat t) = t \<Longrightarrow> False"
          using min_bytes_hd [of "be_nat t"] True t by (cases "be_nat t = 0") auto
        ultimately have "b \<noteq> mpint_bytes (be_nat b)"
          unfolding be mpint_bytes_def Let_def using b by (metis list.inject)
        then show ?thesis using True \<open>byte_val c = 0\<close> by (simp add: mpint_ok_def b t)
      next
        case False
        then have "min_bytes (be_nat t) = t" by (simp add: min_bytes_be t)
        then have m: "mpint_bytes (be_nat b) = (if 128 \<le> byte_val d then char_of (0 :: nat) # t else t)"
          unfolding be mpint_bytes_def by (simp add: t)
        have "mpint_ok b \<longleftrightarrow> 128 \<le> byte_val d" using \<open>byte_val c = 0\<close> by (auto simp: mpint_ok_def b t)
        moreover have "b = (if 128 \<le> byte_val d then char_of (0 :: nat) # t else t) \<longleftrightarrow> 128 \<le> byte_val d"
          using c by (simp add: b)
        ultimately show ?thesis unfolding m by simp
      qed
    qed
  qed
qed

lemma mpint_reads_iff:
  "mpint r = (Some n, r') \<and> wr_err r' = None \<longleftrightarrow>
     (\<exists>b. str r = (b, r') \<and> wr_err r' = None \<and> b = mpint_bytes n)"
proof -
  obtain b r1 where s: "str r = (b, r1)" by fastforce
  have "mpint r = (if wr_err r1 \<noteq> None then (None, r1) else if mpint_ok b then (Some (be_nat b), r1)
      else (None, snd (mpint r)))"
    unfolding mpint_def s prod.case mpint_ok_def by (auto split: if_splits)
  moreover have "b = mpint_bytes n \<longleftrightarrow> mpint_ok b \<and> be_nat b = n"
  proof
    assume "b = mpint_bytes n"
    moreover have "be_nat (mpint_bytes n) = n"
      using be_nat_min [of n] be_nat_append [of "[char_of (0 :: nat)]" "min_bytes n"]
      by (simp add: mpint_bytes_def Let_def be_nat_def)
    ultimately show "mpint_ok b \<and> be_nat b = n" unfolding mpint_ok_iff by simp
  next
    assume a: "mpint_ok b \<and> be_nat b = n"
    then show "b = mpint_bytes n" unfolding mpint_ok_iff by metis
  qed
  ultimately show ?thesis by (auto simp: s split: if_splits)
qed

section \<open>A run of reads, read backwards\<close>

text \<open>
  A reader without an error is the reader of what is left. A read that leaves one tells what it
  read, so the fields a parser reads are known from the last reader back to the first.
\<close>

lemma reader_of_inj [simp]: "reader_of s = reader_of t \<longleftrightarrow> s = t"
  by (simp add: reader_of_def)

lemma reader_of_rest: "wr_err r = None \<longleftrightarrow> r = reader_of (wr_rest r)"
  by (cases r) (simp add: reader_of_def)

lemma reader_err [simp]: "wr_err r = Some e \<Longrightarrow> r \<noteq> reader_of t"
  by auto

lemma with_err [simp]: "r\<lparr>wr_err := Some e\<rparr> \<noteq> reader_of t"
  by (cases r) (simp add: reader_of_def)

lemma end_back: "end_read r = Inr () \<longleftrightarrow> r = reader_of []"
  by (cases r) (auto simp: end_read_def reader_of_def split: option.splits)

lemma str_back: "str r = (b, reader_of t) \<longleftrightarrow> r = reader_of (wire_string b @ t) \<and> length b < 2 ^ 32"
proof
  assume a: "str r = (b, reader_of t)"
  then have "wr_err (snd (str r)) = None" by simp
  note ok = str_ok [OF this, unfolded a fst_conv snd_conv reader_of_simps]
  show "r = reader_of (wire_string b @ t) \<and> length b < 2 ^ 32"
    using ok reader_of_rest [of r] by metis
next
  assume "r = reader_of (wire_string b @ t) \<and> length b < 2 ^ 32"
  then show "str r = (b, reader_of t)" using str_reads [of r b t] by (simp add: reader_of_def)
qed

lemma u8_back: "u8 r = (w, reader_of t) \<longleftrightarrow> r = reader_of (char_of (unat w) # t)"
proof
  assume a: "u8 r = (w, reader_of t)"
  then have "wr_err (snd (u8 r)) = None" by simp
  from u8_reads [OF this] iffD1 [OF u8_ok this] show "r = reader_of (char_of (unat w) # t)"
    using reader_of_rest [of r] by (simp add: a)
next
  assume r: "r = reader_of (char_of (unat w) # t)"
  have "unat w < 256" using unsigned_less [of w] by simp
  then show "u8 r = (w, reader_of t)" by (simp add: r u8_def take_bytes_def reader_of_def)
qed

lemma u32_back: "u32 r = (w, reader_of t) \<longleftrightarrow> r = reader_of (be_bytes 4 (unat w) @ t)"
proof
  assume a: "u32 r = (w, reader_of t)"
  then have "wr_err (snd (u32 r)) = None" by simp
  from u32_reads [OF this] iffD1 [OF u32_ok this] show "r = reader_of (be_bytes 4 (unat w) @ t)"
    using reader_of_rest [of r] by (simp add: a)
next
  assume r: "r = reader_of (be_bytes 4 (unat w) @ t)"
  have "unat w < 256 ^ 4" using unsigned_less [of w] by simp
  then show "u32 r = (w, reader_of t)" by (simp add: r u32_def take_bytes_def reader_of_def be_nat_bytes)
qed

lemma mpint_back:
  "mpint r = (v, reader_of t) \<longleftrightarrow>
     (\<exists>n. v = Some n \<and> r = reader_of (wire_string (mpint_bytes n) @ t) \<and> length (mpint_bytes n) < 2 ^ 32)"
proof (cases v)
  case None
  have "mpint r \<noteq> (None, reader_of t)"
    by (auto simp: mpint_def split: prod.split)
  then show ?thesis using None by simp
next
  case (Some n)
  have "mpint r = (Some n, reader_of t) \<longleftrightarrow> str r = (mpint_bytes n, reader_of t)"
    using mpint_reads_iff [of r n "reader_of t"] by auto
  then show ?thesis using Some by (auto simp: str_back)
qed

text \<open>
  Each non-negative integer has exactly one encoding the reader takes: a wire string is read
  as the number exactly when it holds the number's minimal bytes, with no sign and no
  redundant leading zero.
\<close>

theorem mpint_iff:
  "mpint (reader_of s) = (Some n, reader_of t) \<longleftrightarrow>
     s = wire_string (mpint_bytes n) @ t \<and> length (mpint_bytes n) < 2 ^ 32"
  by (simp add: mpint_back)

end
