(* ===== verification/Sha512.thy ===== *)
theory Sha512
  imports Wire
begin

unbundle bit_operations_syntax

text \<open>
  SHA-512 and SHA-384 as \<^verbatim>\<open>crypto/sha512\<close> computes them (FIPS 180-4), on byte strings.
  Signatures hash their message with them. Nothing is assumed of them.
\<close>

type_synonym u64 = "64 word"

section \<open>The round functions\<close>

definition rotr64 :: "nat \<Rightarrow> u64 \<Rightarrow> u64" where
  "rotr64 n x = (drop_bit n x) OR (push_bit (64 - n) x)"

definition big_sigma0_64 :: "u64 \<Rightarrow> u64" where
  "big_sigma0_64 x = rotr64 28 x XOR rotr64 34 x XOR rotr64 39 x"

definition big_sigma1_64 :: "u64 \<Rightarrow> u64" where
  "big_sigma1_64 x = rotr64 14 x XOR rotr64 18 x XOR rotr64 41 x"

definition small_sigma0_64 :: "u64 \<Rightarrow> u64" where
  "small_sigma0_64 x = rotr64 1 x XOR rotr64 8 x XOR drop_bit 7 x"

definition small_sigma1_64 :: "u64 \<Rightarrow> u64" where
  "small_sigma1_64 x = rotr64 19 x XOR rotr64 61 x XOR drop_bit 6 x"

definition round_constants_64 :: "u64 list" where
  "round_constants_64 =
    [4794697086780616226, 8158064640168781261, 13096744586834688815, 16840607885511220156,
     4131703408338449720, 6480981068601479193, 10538285296894168987, 12329834152419229976,
     15566598209576043074, 1334009975649890238, 2608012711638119052, 6128411473006802146,
     8268148722764581231, 9286055187155687089, 11230858885718282805, 13951009754708518548,
     16472876342353939154, 17275323862435702243, 1135362057144423861, 2597628984639134821,
     3308224258029322869, 5365058923640841347, 6679025012923562964, 8573033837759648693,
     10970295158949994411, 12119686244451234320, 12683024718118986047, 13788192230050041572,
     14330467153632333762, 15395433587784984357, 489312712824947311, 1452737877330783856,
     2861767655752347644, 3322285676063803686, 5560940570517711597, 5996557281743188959,
     7280758554555802590, 8532644243296465576, 9350256976987008742, 10552545826968843579,
     11727347734174303076, 12113106623233404929, 14000437183269869457, 14369950271660146224,
     15101387698204529176, 15463397548674623760, 17586052441742319658, 1182934255886127544,
     1847814050463011016, 2177327727835720531, 2830643537854262169, 3796741975233480872,
     4115178125766777443, 5681478168544905931, 6601373596472566643, 7507060721942968483,
     8399075790359081724, 8693463985226723168, 9568029438360202098, 10144078919501101548,
     10430055236837252648, 11840083180663258601, 13761210420658862357, 14299343276471374635,
     14566680578165727644, 15097957966210449927, 16922976911328602910, 17689382322260857208,
     500013540394364858, 748580250866718886, 1242879168328830382, 1977374033974150939,
     2944078676154940804, 3659926193048069267, 4368137639120453308, 4836135668995329356,
     5532061633213252278, 6448918945643986474, 6902733635092675308, 7801388544844847127]"

definition initial_hash_512 :: "u64 list" where
  "initial_hash_512 =
    [7640891576956012808, 13503953896175478587, 4354685564936845355, 11912009170470909681,
     5840696475078001361, 11170449401992604703, 2270897969802886507, 6620516959819538809]"

definition initial_hash_384 :: "u64 list" where
  "initial_hash_384 =
    [14680500436340154072, 7105036623409894663, 10473403895298186519, 1526699215303891257,
     7436329637833083697, 10282925794625328401, 15784041429090275239, 5167115440072839076]"

section \<open>Padding and blocks\<close>

definition word_bytes_64 :: "u64 \<Rightarrow> string" where
  "word_bytes_64 w = be_bytes 8 (unat w)"

fun bytes_words_64 :: "nat \<Rightarrow> string \<Rightarrow> u64 list" where
  "bytes_words_64 0 s = []"
| "bytes_words_64 (Suc n) s = word_of_nat (be_nat (take 8 s)) # bytes_words_64 n (drop 8 s)"

definition padding_512 :: "nat \<Rightarrow> string" where
  "padding_512 n =
     char_of (128 :: nat) # replicate (nat ((111 - int n) mod 128)) (char_of (0 :: nat)) @ be_bytes 16 (8 * n)"

section \<open>The compression function\<close>

text \<open>The message schedule is kept newest word first.\<close>

fun extend_schedule_64 :: "nat \<Rightarrow> u64 list \<Rightarrow> u64 list" where
  "extend_schedule_64 0 ws = ws"
| "extend_schedule_64 (Suc n) ws =
     extend_schedule_64 n
       ((small_sigma1_64 (ws ! 1) + ws ! 6 + small_sigma0_64 (ws ! 14) + ws ! 15) # ws)"

fun sha512_round :: "u64 list \<Rightarrow> u64 \<Rightarrow> u64 list" where
  "sha512_round [a, b, c, d, e, f, g, h] kw =
     (let t1 = h + big_sigma1_64 e + ((e AND f) XOR ((NOT e) AND g)) + kw;
          t2 = big_sigma0_64 a + ((a AND b) XOR (a AND c) XOR (b AND c))
      in [t1 + t2, a, b, c, d + t1, e, f, g])"
| "sha512_round st kw = st"

fun sha512_rounds :: "u64 list \<Rightarrow> u64 list \<Rightarrow> u64 list \<Rightarrow> u64 list" where
  "sha512_rounds st (k # ks) (w # ws) = sha512_rounds (sha512_round st (k + w)) ks ws"
| "sha512_rounds st _ _ = st"

definition compress_512 :: "u64 list \<Rightarrow> u64 list \<Rightarrow> u64 list" where
  "compress_512 st block =
     map2 (+) st (sha512_rounds st round_constants_64 (rev (extend_schedule_64 64 (rev block))))"

function compress_all_512 :: "u64 list \<Rightarrow> u64 list \<Rightarrow> u64 list" where
  "compress_all_512 st ws =
     (if length ws < 16 then st else compress_all_512 (compress_512 st (take 16 ws)) (drop 16 ws))"
  by pat_completeness auto
termination
  by (relation "measure (\<lambda>(st, ws). length ws)") auto

declare compress_all_512.simps [simp del]

definition sha2_words :: "u64 list \<Rightarrow> string \<Rightarrow> u64 list" where
  "sha2_words h s =
     (let padded = s @ padding_512 (length s) in compress_all_512 h (bytes_words_64 (length padded div 8) padded))"

definition sha512 :: "string \<Rightarrow> string" where
  "sha512 s = concat (map word_bytes_64 (sha2_words initial_hash_512 s))"

definition sha384 :: "string \<Rightarrow> string" where
  "sha384 s = concat (map word_bytes_64 (take 6 (sha2_words initial_hash_384 s)))"

section \<open>The digests' lengths\<close>

lemma length_sha512_round: "length st = 8 \<Longrightarrow> length (sha512_round st kw) = 8"
  by (cases "(st, kw)" rule: sha512_round.cases) (auto simp: Let_def)

lemma length_sha512_rounds: "length st = 8 \<Longrightarrow> length (sha512_rounds st ks ws) = 8"
  by (induction st ks ws rule: sha512_rounds.induct) (auto simp: length_sha512_round)

lemma length_compress_all_512: "length st = 8 \<Longrightarrow> length (compress_all_512 st ws) = 8"
proof (induction st ws rule: compress_all_512.induct)
  case (1 st ws)
  then show ?case
    by (cases "length ws < 16")
      (auto simp: compress_all_512.simps [of st ws] compress_512_def length_sha512_rounds)
qed

lemma length_words_64: "length (concat (map word_bytes_64 ws)) = 8 * length ws"
  by (induction ws) (auto simp: word_bytes_64_def)

lemma length_sha512 [simp]: "length (sha512 s) = 64"
  by (simp add: sha512_def length_words_64 sha2_words_def Let_def length_compress_all_512 initial_hash_512_def)

lemma length_sha384 [simp]: "length (sha384 s) = 48"
  by (simp add: sha384_def length_words_64 sha2_words_def Let_def length_compress_all_512 initial_hash_384_def)

end
