(* ===== verification/Base64.thy ===== *)
theory Base64
  imports Codec GoBytes
begin

text \<open>
  \<^verbatim>\<open>encoding/base64\<close> as the code uses it: the standard alphabet with padding, decoded
  strictly, and without padding for fingerprints. The strict decoder takes exactly what the
  encoder writes, but that it passes over carriage returns and newlines.
\<close>

section \<open>The alphabet\<close>

definition b64_alphabet :: string where
  "b64_alphabet = ''ABCDEFGHIJKLMNOPQRSTUVWXYZabcdefghijklmnopqrstuvwxyz0123456789+/''"

abbreviation pad :: char where "pad \<equiv> CHR ''=''"

definition b64_char :: "nat \<Rightarrow> char" where
  "b64_char n = b64_alphabet ! n"

definition b64_val :: "char \<Rightarrow> nat option" where
  "b64_val c = index_byte b64_alphabet c"

lemma b64_length: "length b64_alphabet = 64"
  by (simp add: b64_alphabet_def)

lemma b64_distinct: "distinct b64_alphabet"
  by (simp add: b64_alphabet_def)

lemma b64_val_char: "n < 64 \<Longrightarrow> b64_val (b64_char n) = Some n"
  unfolding b64_val_def b64_char_def index_byte_Some
  using b64_distinct by (auto simp: b64_length in_set_conv_nth nth_eq_iff_index_eq)

lemma b64_val_Some: "b64_val c = Some n \<Longrightarrow> n < 64 \<and> b64_char n = c"
  unfolding b64_val_def b64_char_def index_byte_Some by (simp add: b64_length)

lemma b64_val_pad: "b64_val pad = None"
  by (simp add: b64_val_def b64_alphabet_def)

lemma b64_char_no_pad: "n < 64 \<Longrightarrow> b64_char n \<noteq> pad"
  using b64_val_char [of n] b64_val_pad by auto

section \<open>Encoding and decoding\<close>

fun b64_enc :: "string \<Rightarrow> string" where
  "b64_enc [] = []"
| "b64_enc [x] = [b64_char (byte_val x div 4), b64_char (byte_val x mod 4 * 16), pad, pad]"
| "b64_enc [x, y] =
     [b64_char (byte_val x div 4), b64_char (byte_val x mod 4 * 16 + byte_val y div 16),
      b64_char (byte_val y mod 16 * 4), pad]"
| "b64_enc (x # y # z # r) =
     b64_char (byte_val x div 4) # b64_char (byte_val x mod 4 * 16 + byte_val y div 16) #
     b64_char (byte_val y mod 16 * 4 + byte_val z div 64) # b64_char (byte_val z mod 64) # b64_enc r"

text \<open>The unpadded form fingerprints are written in.\<close>

definition b64_raw :: "string \<Rightarrow> string" where
  "b64_raw s = takeWhile (\<lambda>c. c \<noteq> pad) (b64_enc s)"

definition group1 :: "nat \<Rightarrow> nat \<Rightarrow> char" where
  "group1 p q = char_of (p * 4 + q div 16)"

definition group2 :: "nat \<Rightarrow> nat \<Rightarrow> char" where
  "group2 q r = char_of (q mod 16 * 16 + r div 4)"

definition group3 :: "nat \<Rightarrow> nat \<Rightarrow> char" where
  "group3 r s = char_of (r mod 4 * 64 + s)"

definition b64_tail :: "char \<Rightarrow> char \<Rightarrow> char \<Rightarrow> string option" where
  "b64_tail a b c =
     (case (b64_val a, b64_val b) of
        (Some p, Some q) \<Rightarrow>
          if c = pad then (if q mod 16 = 0 then Some [group1 p q] else None)
          else
            (case b64_val c of
               Some r \<Rightarrow> if r mod 4 = 0 then Some [group1 p q, group2 q r] else None
             | None \<Rightarrow> None)
      | _ \<Rightarrow> None)"

fun b64_dec :: "string \<Rightarrow> string option" where
  "b64_dec [] = Some []"
| "b64_dec (a # b # c # d # rest) =
     (if d = pad then (if rest = [] then b64_tail a b c else None)
      else
        (case (b64_val a, b64_val b, b64_val c, b64_val d) of
           (Some p, Some q, Some r, Some s) \<Rightarrow>
             map_option (\<lambda>t. group1 p q # group2 q r # group3 r s # t) (b64_dec rest)
         | _ \<Rightarrow> None))"
| "b64_dec _ = None"

datatype b64_error = NotCanonical

definition b64_decode :: "string \<Rightarrow> (b64_error, string) result" where
  "b64_decode s =
     (case b64_dec (filter (\<lambda>c. c \<noteq> CHR 0x0D \<and> c \<noteq> CHR 0x0A) s) of
        None \<Rightarrow> Inl NotCanonical
      | Some b \<Rightarrow> Inr b)"

section \<open>The decoder is the encoder's inverse\<close>

lemma group_bytes:
  "group1 (byte_val x div 4) (byte_val x mod 4 * 16 + k) = x" if "k < 16"
  using that byte_val_less [of x] by (simp add: group1_def)

lemma group2_bytes:
  "group2 (j * 16 + byte_val y div 16) (byte_val y mod 16 * 4 + k) = y" if "k < 4"
proof -
  have "byte_val y div 16 < 16" using byte_val_less [of y] by linarith
  then have "(j * 16 + byte_val y div 16) mod 16 = byte_val y div 16" by simp
  moreover have "(byte_val y mod 16 * 4 + k) div 4 = byte_val y mod 16" using that by simp
  ultimately show ?thesis by (simp add: group2_def)
qed

lemma group3_bytes: "group3 (j * 4 + byte_val z div 64) (byte_val z mod 64) = z"
proof -
  have "byte_val z div 64 < 4" using byte_val_less [of z] by linarith
  then have "(j * 4 + byte_val z div 64) mod 4 = byte_val z div 64" by simp
  then show ?thesis by (simp add: group3_def)
qed

lemma sextets:
  "byte_val x div 4 < 64" "byte_val x mod 4 * 16 + byte_val y div 16 < 64"
  "byte_val y mod 16 * 4 + byte_val z div 64 < 64" "byte_val z mod 64 < 64" "byte_val x mod 4 * 16 < 64"
  "byte_val y mod 16 * 4 < 64" "byte_val y div 16 < 16" "byte_val z div 64 < 4"
  using byte_val_less [of x] byte_val_less [of y] byte_val_less [of z] by (simp_all; linarith)+

lemma b64_dec_enc: "b64_dec (b64_enc s) = Some s"
proof (induction s rule: b64_enc.induct)
  case (2 x)
  then show ?case
    using group_bytes [of 0 x] by (simp add: b64_tail_def b64_val_char sextets)
next
  case (3 x y)
  then show ?case
    using group_bytes [of "byte_val y div 16" x] group2_bytes [of 0 "byte_val x mod 4" y]
    by (simp add: b64_tail_def b64_val_char sextets b64_char_no_pad)
next
  case (4 x y z r)
  then show ?case
    using group_bytes [of "byte_val y div 16" x] group2_bytes [of "byte_val z div 64" "byte_val x mod 4" y]
      group3_bytes [of "byte_val y mod 16" z]
    by (simp add: b64_val_char sextets b64_char_no_pad)
qed simp

lemma regroup:
  assumes "p < 64" "q < 64" "r < 64" "s < 64"
  shows "byte_val (group1 p q) div 4 = p" "byte_val (group1 p q) mod 4 * 16 = q div 16 * 16"
    "byte_val (group2 q r) div 16 = q mod 16" "byte_val (group2 q r) mod 16 * 4 = r div 4 * 4"
    "byte_val (group3 r s) div 64 = r mod 4" "byte_val (group3 r s) mod 64 = s"
proof -
  have g1: "byte_val (group1 p q) = p * 4 + q div 16" and g2: "byte_val (group2 q r) = q mod 16 * 16 + r div 4"
    and g3: "byte_val (group3 r s) = r mod 4 * 64 + s"
    using assms by (simp_all add: group1_def group2_def group3_def)
  have small: "q div 16 < 4" "r div 4 < 16" "r mod 4 < 4" "q mod 16 < 16" using assms by simp_all
  show "byte_val (group1 p q) div 4 = p" "byte_val (group1 p q) mod 4 * 16 = q div 16 * 16"
    "byte_val (group2 q r) div 16 = q mod 16" "byte_val (group2 q r) mod 16 * 4 = r div 4 * 4"
    "byte_val (group3 r s) div 64 = r mod 4" "byte_val (group3 r s) mod 64 = s"
    unfolding g1 g2 g3 using small assms by simp_all
qed

lemma b64_enc_dec: "b64_dec s = Some b \<Longrightarrow> b64_enc b = s"
proof (induction s arbitrary: b rule: b64_dec.induct)
  case (2 a b c d rest x)
  show ?case
  proof (cases "d = pad")
    case True
    then have t: "rest = []" "b64_tail a b c = Some x" using 2(2) by (simp_all split: if_splits)
    then obtain p q where pq: "b64_val a = Some p" "b64_val b = Some q"
      by (auto simp: b64_tail_def split: option.splits)
    note v = b64_val_Some [OF pq(1)] b64_val_Some [OF pq(2)]
    show ?thesis
    proof (cases "c = pad")
      case pad: True
      then have x: "x = [group1 p q]" "q mod 16 = 0" using t pq by (simp_all add: b64_tail_def split: if_splits)
      have "q div 16 * 16 = q" using x(2) by presburger
      then show ?thesis using regroup [of p q 0 0] v t pad True x by simp
    next
      case False
      then obtain r where r: "b64_val c = Some r" "r mod 4 = 0" "x = [group1 p q, group2 q r]"
        using t pq by (auto simp: b64_tail_def split: option.splits if_splits)
      have "r div 4 * 4 = r" using r(2) by presburger
      then show ?thesis using regroup [of p q r 0] v b64_val_Some [OF r(1)] t True r by simp
    qed
  next
    case False
    then obtain p q r s y where v: "b64_val a = Some p" "b64_val b = Some q" "b64_val c = Some r" "b64_val d = Some s"
      "b64_dec rest = Some y" "x = group1 p q # group2 q r # group3 r s # y"
      using 2(2) by (auto split: option.splits)
    note w = b64_val_Some [OF v(1)] b64_val_Some [OF v(2)] b64_val_Some [OF v(3)] b64_val_Some [OF v(4)]
    have "b64_enc y = rest" using 2(1) [OF False] v by auto
    then show ?thesis using regroup [of p q r s] w by (simp add: v(6))
  qed
qed simp_all

definition b64_strict :: "string \<Rightarrow> (b64_error, string) result" where
  "b64_strict s = (case b64_dec s of None \<Rightarrow> Inl NotCanonical | Some b \<Rightarrow> Inr b)"

interpretation b64: strict_codec b64_enc b64_strict "\<lambda>_. True"
  by unfold_locales (auto simp: b64_strict_def b64_dec_enc dest: b64_enc_dec split: option.splits)

lemma b64_decode_iff:
  "b64_decode s = Inr b \<longleftrightarrow> filter (\<lambda>c. c \<noteq> CHR 0x0D \<and> c \<noteq> CHR 0x0A) s = b64_enc b"
  using b64.accepted_iff [of "filter (\<lambda>c. c \<noteq> CHR 0x0D \<and> c \<noteq> CHR 0x0A) s" b]
  by (auto simp: b64_decode_def b64_strict_def)

section \<open>The decoder that is not strict\<close>

text \<open>The same, but that the bits the last group has to spare are not looked at.\<close>

definition b64_lax_tail :: "char \<Rightarrow> char \<Rightarrow> char \<Rightarrow> string option" where
  "b64_lax_tail a b c =
     (case (b64_val a, b64_val b) of
        (Some p, Some q) \<Rightarrow>
          if c = pad then Some [group1 p q]
          else (case b64_val c of Some r \<Rightarrow> Some [group1 p q, group2 q r] | None \<Rightarrow> None)
      | _ \<Rightarrow> None)"

fun b64_lax_dec :: "string \<Rightarrow> string option" where
  "b64_lax_dec [] = Some []"
| "b64_lax_dec (a # b # c # d # rest) =
     (if d = pad then (if rest = [] then b64_lax_tail a b c else None)
      else
        (case (b64_val a, b64_val b, b64_val c, b64_val d) of
           (Some p, Some q, Some r, Some s) \<Rightarrow>
             map_option (\<lambda>t. group1 p q # group2 q r # group3 r s # t) (b64_lax_dec rest)
         | _ \<Rightarrow> None))"
| "b64_lax_dec _ = None"

definition b64_lax :: "string \<Rightarrow> string option" where
  "b64_lax s = b64_lax_dec (filter (\<lambda>c. c \<noteq> CHR 0x0D \<and> c \<noteq> CHR 0x0A) s)"

lemma b64_lax_tail_strict: "b64_tail a b c = Some x \<Longrightarrow> b64_lax_tail a b c = Some x"
  by (auto simp: b64_tail_def b64_lax_tail_def split: option.splits if_splits)

lemma b64_lax_strict: "b64_dec s = Some b \<Longrightarrow> b64_lax_dec s = Some b"
  by (induction s arbitrary: b rule: b64_dec.induct)
    (auto dest: b64_lax_tail_strict split: if_splits option.splits)

lemma b64_enc_chars: "c \<in> set (b64_enc s) \<Longrightarrow> c = pad \<or> b64_val c \<noteq> None"
proof (induction s rule: b64_enc.induct)
  case (4 x y z r)
  then show ?case by (auto simp: b64_val_char sextets)
qed (auto simp: b64_val_char sextets)

lemma b64_enc_clean: "c \<in> set (b64_enc s) \<Longrightarrow> byte_val c < 128 \<and> 32 < byte_val c \<and> byte_val c \<noteq> 127"
proof -
  have "list_all (\<lambda>c. byte_val c < 128 \<and> 32 < byte_val c \<and> byte_val c \<noteq> 127) (pad # b64_alphabet)"
    by (simp add: b64_alphabet_def byte_val_def)
  moreover assume "c \<in> set (b64_enc s)"
  then have "c \<in> set (pad # b64_alphabet)" using b64_enc_chars [of c s] by (auto simp: b64_val_def)
  ultimately show ?thesis unfolding list_all_iff by blast
qed

lemma b64_lax_enc: "b64_lax (b64_enc s) = Some s"
proof -
  have "filter (\<lambda>c. c \<noteq> CHR 0x0D \<and> c \<noteq> CHR 0x0A) (b64_enc s) = b64_enc s"
    by (rule filter_True) (auto dest: b64_enc_clean simp: byte_val_def)
  then show ?thesis by (simp add: b64_lax_def b64_lax_strict b64_dec_enc)
qed

end
