(* ===== verification/Keys.thy ===== *)
theory Keys
  imports Wire Base64 Sha256 Sha512
begin

text \<open>
  \<^verbatim>\<open>sigverify/keys.go\<close>: reading an OpenSSH public key, and checking a signature blob
  against it. The curve arithmetic and the RSA arithmetic of Go's \<^verbatim>\<open>crypto\<close> packages are
  the functions of a record \<open>primitives\<close>, an argument of the definitions; the hashes are the
  concrete ones of \<open>Sha256\<close> and \<open>Sha512\<close>.
\<close>

section \<open>Key types\<close>

definition TypeSKEd25519 :: string where "TypeSKEd25519 = ''sk-ssh-ed25519@openssh.com''"
definition TypeSKECDSA :: string where "TypeSKECDSA = ''sk-ecdsa-sha2-nistp256@openssh.com''"
definition TypeEd25519 :: string where "TypeEd25519 = ''ssh-ed25519''"
definition TypeECDSA256 :: string where "TypeECDSA256 = ''ecdsa-sha2-nistp256''"
definition TypeECDSA384 :: string where "TypeECDSA384 = ''ecdsa-sha2-nistp384''"
definition TypeECDSA521 :: string where "TypeECDSA521 = ''ecdsa-sha2-nistp521''"
definition TypeRSA :: string where "TypeRSA = ''ssh-rsa''"

lemmas type_defs = TypeSKEd25519_def TypeSKECDSA_def TypeEd25519_def TypeECDSA256_def
  TypeECDSA384_def TypeECDSA521_def TypeRSA_def

definition minRSABits :: nat where "minRSABits = 2048"

datatype curve = P256 | P384 | P521

datatype rsa_hash = HashSHA256 | HashSHA512

text \<open>
  Go's \<^verbatim>\<open>ed25519.Verify\<close>, \<^verbatim>\<open>ecdsa.ParseUncompressedPublicKey\<close> (whether it takes the point),
  \<^verbatim>\<open>ecdsa.Verify\<close> and \<^verbatim>\<open>rsa.VerifyPKCS1v15\<close>. An ECDSA public key is named by its curve and
  its uncompressed point.
\<close>

record primitives =
  ed25519_verify :: "string \<Rightarrow> string \<Rightarrow> string \<Rightarrow> bool"
  point_ok :: "curve \<Rightarrow> string \<Rightarrow> bool"
  ecdsa_verify :: "curve \<Rightarrow> string \<Rightarrow> string \<Rightarrow> nat \<Rightarrow> nat \<Rightarrow> bool"
  rsa_verify :: "nat \<Rightarrow> nat \<Rightarrow> rsa_hash \<Rightarrow> string \<Rightarrow> string \<Rightarrow> bool"

text \<open>Which of the three pointers of a \<^verbatim>\<open>publicKey\<close> is set; an RSA key is its modulus and exponent.\<close>

datatype material = Ed25519Key string | ECDSAKey curve string | RSAKey nat nat

record publicKey =
  pk_typ :: string
  pk_blob :: string
  pk_application :: string
  pk_material :: material

definition securityKey :: "publicKey \<Rightarrow> bool" where
  "securityKey k \<longleftrightarrow> pk_typ k = TypeSKEd25519 \<or> pk_typ k = TypeSKECDSA"

definition fingerprint :: "publicKey \<Rightarrow> string" where
  "fingerprint k = ''SHA256:'' @ b64_raw (sha256 (pk_blob k))"

definition curveFor :: "string \<Rightarrow> curve \<times> string" where
  "curveFor typ =
     (if typ = TypeECDSA384 then (P384, ''nistp384'')
      else if typ = TypeECDSA521 then (P521, ''nistp521'')
      else (P256, ''nistp256''))"

fun bit_len :: "nat \<Rightarrow> nat" where
  "bit_len n = (if n = 0 then 0 else Suc (bit_len (n div 2)))"

declare bit_len.simps [simp del]

section \<open>Reading a public key\<close>

text \<open>
  The refusals, in the order of the code. The first two are \<^verbatim>\<open>unsupportedKeyError\<close>: a key that
  may be well formed and that this package does not verify.
\<close>

datatype key_error =
    UnsupportedType string
  | SmallModulus nat
  | KeyTypeUnread wire_error
  | KeyUnread string wire_error
  | KeySize nat
  | CurveName string
  | BadPoint
  | BadExponent nat

fun unsupported_key :: "key_error \<Rightarrow> bool" where
  "unsupported_key (UnsupportedType t) \<longleftrightarrow> True"
| "unsupported_key (SmallModulus n) \<longleftrightarrow> True"
| "unsupported_key _ \<longleftrightarrow> False"

text \<open>The application field, which only a security key's encoding has.\<close>

definition read_application :: "bool \<Rightarrow> reader \<Rightarrow> string \<times> reader" where
  "read_application sk r = (if sk then str r else ([], r))"

definition parse_ed25519 :: "string \<Rightarrow> string \<Rightarrow> reader \<Rightarrow> (key_error, publicKey) result" where
  "parse_ed25519 blob typ r =
     (let (pub, r1) = str r;
          (app, r2) = read_application (typ = TypeSKEd25519) r1
      in rbind (rmap_err (KeyUnread typ) (end_read r2)) (\<lambda>_.
           if length pub \<noteq> 32 then Inl (KeySize (length pub))
           else Inr \<lparr>pk_typ = typ, pk_blob = blob, pk_application = app, pk_material = Ed25519Key pub\<rparr>))"

definition parse_ecdsa :: "primitives \<Rightarrow> string \<Rightarrow> string \<Rightarrow> reader \<Rightarrow> (key_error, publicKey) result" where
  "parse_ecdsa P blob typ r =
     (let (curveName, r1) = str r;
          (point, r2) = str r1;
          (app, r3) = read_application (typ = TypeSKECDSA) r2
      in rbind (rmap_err (KeyUnread typ) (end_read r3)) (\<lambda>_.
           let (curve, want) = curveFor typ
           in if curveName \<noteq> want then Inl (CurveName curveName)
              else if \<not> point_ok P curve point then Inl BadPoint
              else Inr \<lparr>pk_typ = typ, pk_blob = blob, pk_application = app,
                        pk_material = ECDSAKey curve point\<rparr>))"

definition parse_rsa :: "string \<Rightarrow> string \<Rightarrow> reader \<Rightarrow> (key_error, publicKey) result" where
  "parse_rsa blob typ r =
     (let (e, r1) = mpint r;
          (n, r2) = mpint r1
      in rbind (rmap_err (KeyUnread typ) (end_read r2)) (\<lambda>_.
           if bit_len (the n) < minRSABits then Inl (SmallModulus (bit_len (the n)))
           else if the e < 3 \<or> 2 ^ 31 - 1 < the e \<or> even (the e) then Inl (BadExponent (the e))
           else Inr \<lparr>pk_typ = typ, pk_blob = blob, pk_application = [],
                     pk_material = RSAKey (the n) (the e)\<rparr>))"

definition parsePublicKey :: "primitives \<Rightarrow> string \<Rightarrow> (key_error, publicKey) result" where
  "parsePublicKey P blob =
     (let (typ, r) = str (reader_of blob)
      in case wr_err r of
           Some e \<Rightarrow> Inl (KeyTypeUnread e)
         | None \<Rightarrow>
             if typ \<in> {TypeEd25519, TypeSKEd25519} then parse_ed25519 blob typ r
             else if typ \<in> {TypeECDSA256, TypeECDSA384, TypeECDSA521, TypeSKECDSA}
             then parse_ecdsa P blob typ r
             else if typ = TypeRSA then parse_rsa blob typ r
             else Inl (UnsupportedType typ))"

section \<open>One key has one encoding\<close>

text \<open>What \<^verbatim>\<open>ssh-keygen\<close> writes for a key, and the keys there are.\<close>

fun material_bytes :: "string \<Rightarrow> material \<Rightarrow> string" where
  "material_bytes typ (Ed25519Key pub) = wire_string pub"
| "material_bytes typ (ECDSAKey c point) = wire_string (snd (curveFor typ)) @ wire_string point"
| "material_bytes typ (RSAKey n e) = wire_string (mpint_bytes e) @ wire_string (mpint_bytes n)"

definition key_bytes :: "publicKey \<Rightarrow> string" where
  "key_bytes k =
     wire_string (pk_typ k) @ material_bytes (pk_typ k) (pk_material k) @
     (if securityKey k then wire_string (pk_application k) else [])"

fun material_ok :: "primitives \<Rightarrow> string \<Rightarrow> material \<Rightarrow> bool" where
  "material_ok P typ (Ed25519Key pub) \<longleftrightarrow> typ \<in> {TypeEd25519, TypeSKEd25519} \<and> length pub = 32"
| "material_ok P typ (ECDSAKey c point) \<longleftrightarrow>
     typ \<in> {TypeECDSA256, TypeECDSA384, TypeECDSA521, TypeSKECDSA} \<and> c = fst (curveFor typ) \<and>
     point_ok P c point \<and> length point < 2 ^ 32"
| "material_ok P typ (RSAKey n e) \<longleftrightarrow>
     typ = TypeRSA \<and> minRSABits \<le> bit_len n \<and> length (mpint_bytes n) < 2 ^ 32 \<and>
     3 \<le> e \<and> e < 2 ^ 31 \<and> odd e"

definition key_ok :: "primitives \<Rightarrow> publicKey \<Rightarrow> bool" where
  "key_ok P k \<longleftrightarrow>
     material_ok P (pk_typ k) (pk_material k) \<and> pk_blob k = key_bytes k \<and>
     length (pk_application k) < 2 ^ 32 \<and> (\<not> securityKey k \<longrightarrow> pk_application k = [])"

lemma types_distinct:
  "distinct [TypeSKEd25519, TypeSKECDSA, TypeEd25519, TypeECDSA256, TypeECDSA384, TypeECDSA521, TypeRSA]"
  by (simp add: type_defs)

lemmas type_neq [simp] = types_distinct [simplified]

lemma types_distinct_rev:
  "distinct [TypeRSA, TypeECDSA521, TypeECDSA384, TypeECDSA256, TypeEd25519, TypeSKECDSA, TypeSKEd25519]"
  by (simp add: type_defs)

lemmas type_neq_rev [simp] = types_distinct_rev [simplified]

lemma type_short: "typ \<in> {TypeSKEd25519, TypeSKECDSA, TypeEd25519, TypeECDSA256, TypeECDSA384, TypeECDSA521, TypeRSA}
    \<Longrightarrow> length typ < 2 ^ 32"
  by (auto simp: type_defs)

lemma curve_short: "length (snd (curveFor typ)) < 2 ^ 32"
  by (simp add: curveFor_def)

lemma application_back:
  "read_application sk r = (a, reader_of t) \<longleftrightarrow>
     r = reader_of ((if sk then wire_string a else []) @ t) \<and> length a < 2 ^ 32 \<and> (\<not> sk \<longrightarrow> a = [])"
  by (auto simp: read_application_def str_back)

lemma parse_ed25519_iff:
  "parse_ed25519 blob typ r = Inr k \<longleftrightarrow>
     (\<exists>pub app. r = reader_of (wire_string pub @ (if typ = TypeSKEd25519 then wire_string app else [])) \<and>
        length pub = 32 \<and> length app < 2 ^ 32 \<and> (typ \<noteq> TypeSKEd25519 \<longrightarrow> app = []) \<and>
        k = \<lparr>pk_typ = typ, pk_blob = blob, pk_application = app, pk_material = Ed25519Key pub\<rparr>)"
    (is "_ \<longleftrightarrow> (\<exists>pub app. ?R pub app)")
proof
  assume a: "parse_ed25519 blob typ r = Inr k"
  obtain pub r1 where p: "str r = (pub, r1)" by fastforce
  obtain app r2 where q: "read_application (typ = TypeSKEd25519) r1 = (app, r2)" by fastforce
  have e: "end_read r2 = Inr ()" and len: "length pub = 32"
    and k: "k = \<lparr>pk_typ = typ, pk_blob = blob, pk_application = app, pk_material = Ed25519Key pub\<rparr>"
    using a by (simp_all add: parse_ed25519_def p q result_simps split: if_splits)
  have "r1 = reader_of ((if typ = TypeSKEd25519 then wire_string app else []) @ [])"
      "length app < 2 ^ 32" "typ \<noteq> TypeSKEd25519 \<longrightarrow> app = []"
    using q [unfolded iffD1 [OF end_back e] application_back] by simp_all
  then show "\<exists>pub app. ?R pub app" using p len k by (auto simp: str_back)
next
  assume "\<exists>pub app. ?R pub app"
  then obtain pub app where R: "?R pub app" by blast
  then have "str r = (pub, reader_of (if typ = TypeSKEd25519 then wire_string app else []))"
    unfolding str_back by simp
  moreover have "read_application (typ = TypeSKEd25519) (reader_of (if typ = TypeSKEd25519 then wire_string app else []))
      = (app, reader_of [])"
    unfolding application_back using R by simp
  moreover have "end_read (reader_of []) = Inr ()" by (simp only: end_back)
  ultimately show "parse_ed25519 blob typ r = Inr k" using R by (simp add: parse_ed25519_def)
qed

lemma parse_ecdsa_iff:
  "parse_ecdsa P blob typ r = Inr k \<longleftrightarrow>
     (\<exists>point app. r = reader_of (wire_string (snd (curveFor typ)) @ wire_string point @
           (if typ = TypeSKECDSA then wire_string app else [])) \<and>
        length point < 2 ^ 32 \<and> point_ok P (fst (curveFor typ)) point \<and>
        length app < 2 ^ 32 \<and> (typ \<noteq> TypeSKECDSA \<longrightarrow> app = []) \<and>
        k = \<lparr>pk_typ = typ, pk_blob = blob, pk_application = app,
             pk_material = ECDSAKey (fst (curveFor typ)) point\<rparr>)"
    (is "_ \<longleftrightarrow> (\<exists>point app. ?R point app)")
proof
  assume a: "parse_ecdsa P blob typ r = Inr k"
  obtain name r1 where n: "str r = (name, r1)" by fastforce
  obtain point r2 where p: "str r1 = (point, r2)" by fastforce
  obtain app r3 where q: "read_application (typ = TypeSKECDSA) r2 = (app, r3)" by fastforce
  have e: "end_read r3 = Inr ()" and w: "name = snd (curveFor typ)" "point_ok P (fst (curveFor typ)) point"
    and k: "k = \<lparr>pk_typ = typ, pk_blob = blob, pk_application = app,
             pk_material = ECDSAKey (fst (curveFor typ)) point\<rparr>"
    using a by (simp_all add: parse_ecdsa_def n p q result_simps split: if_splits prod.splits)
  have r2: "r2 = reader_of ((if typ = TypeSKECDSA then wire_string app else []) @ [])"
      "length app < 2 ^ 32" "typ \<noteq> TypeSKECDSA \<longrightarrow> app = []"
    using q [unfolded iffD1 [OF end_back e] application_back] by simp_all
  have r1: "r1 = reader_of (wire_string point @ (if typ = TypeSKECDSA then wire_string app else []))"
      "length point < 2 ^ 32"
    using p [unfolded r2(1) str_back] by simp_all
  have "r = reader_of (wire_string name @ wire_string point @ (if typ = TypeSKECDSA then wire_string app else []))"
    using n [unfolded r1(1) str_back] by simp
  then have "?R point app" using r1 r2 w k by simp
  then show "\<exists>point app. ?R point app" by blast
next
  assume "\<exists>point app. ?R point app"
  then obtain point app where R: "?R point app" by blast
  let ?t = "if typ = TypeSKECDSA then wire_string app else []"
  have "str r = (snd (curveFor typ), reader_of (wire_string point @ ?t))"
    unfolding str_back using R curve_short by simp
  moreover have "str (reader_of (wire_string point @ ?t)) = (point, reader_of ?t)"
    unfolding str_back using R by simp
  moreover have "read_application (typ = TypeSKECDSA) (reader_of ?t) = (app, reader_of [])"
    unfolding application_back using R by simp
  moreover have "end_read (reader_of []) = Inr ()" by (simp only: end_back)
  ultimately show "parse_ecdsa P blob typ r = Inr k" using R by (simp add: parse_ecdsa_def case_prod_beta)
qed

lemma parse_rsa_iff:
  "parse_rsa blob typ r = Inr k \<longleftrightarrow>
     (\<exists>n e. r = reader_of (wire_string (mpint_bytes e) @ wire_string (mpint_bytes n)) \<and>
        length (mpint_bytes e) < 2 ^ 32 \<and> length (mpint_bytes n) < 2 ^ 32 \<and>
        minRSABits \<le> bit_len n \<and> 3 \<le> e \<and> e < 2 ^ 31 \<and> odd e \<and>
        k = \<lparr>pk_typ = typ, pk_blob = blob, pk_application = [], pk_material = RSAKey n e\<rparr>)"
    (is "_ \<longleftrightarrow> (\<exists>n e. ?R n e)")
proof
  assume a: "parse_rsa blob typ r = Inr k"
  obtain oe r1 where p: "mpint r = (oe, r1)" by fastforce
  obtain m r2 where q: "mpint r1 = (m, r2)" by fastforce
  have fin: "end_read r2 = Inr ()" and w: "\<not> bit_len (the m) < minRSABits"
      "\<not> (the oe < 3 \<or> 2 ^ 31 - 1 < the oe \<or> even (the oe))"
    and k: "k = \<lparr>pk_typ = typ, pk_blob = blob, pk_application = [], pk_material = RSAKey (the m) (the oe)\<rparr>"
    using a by (simp_all add: parse_rsa_def p q result_simps split: if_splits)
  obtain n where n: "m = Some n" "r1 = reader_of (wire_string (mpint_bytes n) @ [])" "length (mpint_bytes n) < 2 ^ 32"
    using q [unfolded iffD1 [OF end_back fin] mpint_back] by blast
  obtain e where e: "oe = Some e" "r = reader_of (wire_string (mpint_bytes e) @ wire_string (mpint_bytes n) @ [])"
      "length (mpint_bytes e) < 2 ^ 32"
    using p [unfolded n(2) mpint_back] by blast
  have "?R n e" using w k n e by auto
  then show "\<exists>n e. ?R n e" by blast
next
  assume "\<exists>n e. ?R n e"
  then obtain n e where R: "?R n e" by blast
  have "mpint r = (Some e, reader_of (wire_string (mpint_bytes n)))"
    unfolding mpint_back using R by auto
  moreover have "mpint (reader_of (wire_string (mpint_bytes n))) = (Some n, reader_of [])"
    unfolding mpint_back using R by auto
  moreover have "end_read (reader_of []) = Inr ()" by (simp only: end_back)
  ultimately show "parse_rsa blob typ r = Inr k" using R by (auto simp: parse_rsa_def)
qed

lemma parsePublicKey_at:
  assumes "str (reader_of blob) = (typ, reader_of rest)"
  shows "parsePublicKey P blob =
    (if typ \<in> {TypeEd25519, TypeSKEd25519} then parse_ed25519 blob typ (reader_of rest)
     else if typ \<in> {TypeECDSA256, TypeECDSA384, TypeECDSA521, TypeSKECDSA}
     then parse_ecdsa P blob typ (reader_of rest)
     else if typ = TypeRSA then parse_rsa blob typ (reader_of rest)
     else Inl (UnsupportedType typ))"
  by (simp add: parsePublicKey_def assms)

lemma parsed_key:
  assumes "parsePublicKey P blob = Inr k"
  shows "key_ok P k" and "key_bytes k = blob"
proof -
  obtain ty r where s: "str (reader_of blob) = (ty, r)" by fastforce
  have "wr_err r = None" using assms by (auto simp: parsePublicKey_def s split: option.splits)
  then obtain rest where r: "r = reader_of rest" using reader_of_rest by blast
  note s = s [unfolded r]
  then have blob: "blob = wire_string ty @ rest" by (simp add: str_back)
  note a = assms [unfolded parsePublicKey_at [OF s]]
  consider (ed) "ty \<in> {TypeEd25519, TypeSKEd25519}" "parse_ed25519 blob ty (reader_of rest) = Inr k"
    | (ec) "ty \<in> {TypeECDSA256, TypeECDSA384, TypeECDSA521, TypeSKECDSA}"
        "parse_ecdsa P blob ty (reader_of rest) = Inr k"
    | (rsa) "ty = TypeRSA" "parse_rsa blob ty (reader_of rest) = Inr k"
    using a by (auto split: if_splits)
  then have "key_ok P k \<and> key_bytes k = blob"
  proof cases
    case ed
    from ed(2) [unfolded parse_ed25519_iff] obtain pub app where
      "rest = wire_string pub @ (if ty = TypeSKEd25519 then wire_string app else [])" "length pub = 32"
      "length app < 2 ^ 32" "ty \<noteq> TypeSKEd25519 \<longrightarrow> app = []"
      "k = \<lparr>pk_typ = ty, pk_blob = blob, pk_application = app, pk_material = Ed25519Key pub\<rparr>" by auto
    then show ?thesis using ed(1) by (auto simp: key_ok_def key_bytes_def securityKey_def blob)
  next
    case ec
    from ec(2) [unfolded parse_ecdsa_iff] obtain point app where
      "rest = wire_string (snd (curveFor ty)) @ wire_string point @ (if ty = TypeSKECDSA then wire_string app else [])"
      "length point < 2 ^ 32" "point_ok P (fst (curveFor ty)) point"
      "length app < 2 ^ 32" "ty \<noteq> TypeSKECDSA \<longrightarrow> app = []"
      "k = \<lparr>pk_typ = ty, pk_blob = blob, pk_application = app, pk_material = ECDSAKey (fst (curveFor ty)) point\<rparr>"
      by auto
    then show ?thesis using ec(1) by (auto simp: key_ok_def key_bytes_def securityKey_def blob)
  next
    case rsa
    from rsa(2) [unfolded parse_rsa_iff] obtain n e where
      "rest = wire_string (mpint_bytes e) @ wire_string (mpint_bytes n)" "length (mpint_bytes n) < 2 ^ 32"
      "minRSABits \<le> bit_len n" "3 \<le> e" "e < 2 ^ 31" "odd e"
      "k = \<lparr>pk_typ = ty, pk_blob = blob, pk_application = [], pk_material = RSAKey n e\<rparr>" by auto
    then show ?thesis using rsa(1) by (simp add: key_ok_def key_bytes_def securityKey_def blob)
  qed
  then show "key_ok P k" "key_bytes k = blob" by auto
qed

lemma parsePublicKey_bytes:
  assumes ok: "key_ok P k"
  shows "parsePublicKey P (key_bytes k) = Inr k"
proof -
  obtain ty app m where k: "k = \<lparr>pk_typ = ty, pk_blob = key_bytes k, pk_application = app, pk_material = m\<rparr>"
    using ok by (cases k) (simp add: key_ok_def)
  have f: "pk_typ k = ty" "pk_application k = app" "pk_material k = m" by (subst k, simp)+
  let ?rest = "material_bytes ty m @ (if securityKey k then wire_string app else [])"
  have m: "material_ok P ty m" and app: "length app < 2 ^ 32" "\<not> securityKey k \<longrightarrow> app = []"
    using ok by (simp_all add: key_ok_def f)
  have "length ty < 2 ^ 32" using m by (cases m) (auto simp: type_defs)
  then have s: "str (reader_of (key_bytes k)) = (ty, reader_of ?rest)"
    by (simp add: str_back key_bytes_def f)
  show ?thesis
  proof (cases m)
    case (Ed25519Key pub)
    have sk: "securityKey k \<longleftrightarrow> ty = TypeSKEd25519" using m Ed25519Key by (auto simp: securityKey_def f)
    have "parse_ed25519 (key_bytes k) ty (reader_of ?rest) = Inr k"
      unfolding parse_ed25519_iff sk Ed25519Key material_bytes.simps
      using m app k by - (rule exI [of _ pub], rule exI [of _ app], simp only: sk Ed25519Key material_ok.simps, (simp)?)
    then show ?thesis using m Ed25519Key by (simp add: parsePublicKey_at [OF s])
  next
    case (ECDSAKey c point)
    have sk: "securityKey k \<longleftrightarrow> ty = TypeSKECDSA" using m ECDSAKey by (auto simp: securityKey_def f)
    have c: "c = fst (curveFor ty)" using m ECDSAKey by simp
    have "parse_ecdsa P (key_bytes k) ty (reader_of ?rest) = Inr k"
      unfolding parse_ecdsa_iff sk ECDSAKey material_bytes.simps
      using m app k by - (rule exI [of _ point], rule exI [of _ app], simp only: sk ECDSAKey c material_ok.simps, (simp)?)
    then show ?thesis using m ECDSAKey by (auto simp: parsePublicKey_at [OF s])
  next
    case (RSAKey n e)
    have "e < 256 ^ 4" using m RSAKey by simp
    then have "length (mpint_bytes e) < 2 ^ 32" using mpint_bytes_short [of e 4] by simp
    moreover have "\<not> securityKey k" using m RSAKey by (simp add: securityKey_def f)
    ultimately have "parse_rsa (key_bytes k) ty (reader_of ?rest) = Inr k"
      unfolding parse_rsa_iff RSAKey material_bytes.simps
      using m app k by - (rule exI [of _ n], rule exI [of _ e], simp only: RSAKey material_ok.simps, (simp)?)
    then show ?thesis using m RSAKey by (simp add: parsePublicKey_at [OF s])
  qed
qed

interpretation pk: strict_codec key_bytes "parsePublicKey P" "key_ok P" for P
  by unfold_locales (auto dest: parsed_key parsePublicKey_bytes)

text \<open>
  A public key has one encoding: a blob is read as a key exactly when it is the encoding of
  that key, of a known type, with a 32-byte Ed25519 point, a point on the type's own curve, or
  an RSA modulus of at least 2048 bits and a usable exponent. So keys may be compared by their bytes.
\<close>

theorem parsePublicKey_iff:
  "parsePublicKey P blob = Inr k \<longleftrightarrow> key_ok P k \<and> key_bytes k = blob"
  by (rule pk.accepted_iff)

end
