(* ===== verification/KeyVerify.thy ===== *)
theory KeyVerify
  imports Keys
begin

text \<open>
  \<^verbatim>\<open>sigverify/keys.go\<close>, second half: \<^verbatim>\<open>publicKey.verify\<close>. A security key signs its own
  authenticator data, with the hash of the message inside it, so the flags and the counter read
  from the signature are the ones that were signed.
\<close>

section \<open>The check of a signature blob\<close>

record authenticatorData =
  auth_flags :: "8 word"
  auth_counter :: "32 word"

definition no_auth :: authenticatorData where
  "no_auth = \<lparr>auth_flags = 0, auth_counter = 0\<rparr>"

datatype verify_error =
    SigTypeUnread wire_error
  | WrongSigType string
  | SigUnread wire_error
  | SigSize nat
  | RSASigType string
  | NilKey

definition ecdsaHash :: "string \<Rightarrow> string \<Rightarrow> string" where
  "ecdsaHash typ =
     (if typ = TypeECDSA384 then sha384 else if typ = TypeECDSA521 then sha512 else sha256)"

text \<open>\<^verbatim>\<open>rsa.PublicKey.Size\<close>: the modulus' length in bytes.\<close>

definition rsa_size :: "nat \<Rightarrow> nat" where
  "rsa_size n = (bit_len n + 7) div 8"

fun rsa_digest :: "rsa_hash \<Rightarrow> string \<Rightarrow> string" where
  "rsa_digest HashSHA256 = sha256"
| "rsa_digest HashSHA512 = sha512"

definition rsa_sig_hash :: "string \<Rightarrow> rsa_hash option" where
  "rsa_sig_hash sigType =
     (if sigType = ''rsa-sha2-256'' then Some HashSHA256
      else if sigType = ''rsa-sha2-512'' then Some HashSHA512 else None)"

definition verifyRSA ::
  "primitives \<Rightarrow> nat \<Rightarrow> nat \<Rightarrow> string \<Rightarrow> reader \<Rightarrow> string \<Rightarrow> (verify_error, bool) result" where
  "verifyRSA P n e sigType r data =
     (case rsa_sig_hash sigType of
        None \<Rightarrow> Inl (RSASigType sigType)
      | Some h \<Rightarrow>
          let (raw, r1) = str r
          in rbind (rmap_err SigUnread (end_read r1)) (\<lambda>_.
               if length raw \<noteq> rsa_size n then Inl (SigSize (length raw))
               else Inr (rsa_verify P n e h (rsa_digest h data) raw)))"

definition read_auth :: "bool \<Rightarrow> reader \<Rightarrow> authenticatorData \<times> reader" where
  "read_auth sk r =
     (if sk then
        let (flags, r1) = u8 r; (counter, r2) = u32 r1
        in (\<lparr>auth_flags = flags, auth_counter = counter\<rparr>, r2)
      else (no_auth, r))"

text \<open>What the key signs: the data itself, or a security key's authenticator data around its hash.\<close>

definition sk_signed :: "string \<Rightarrow> authenticatorData \<Rightarrow> string \<Rightarrow> string" where
  "sk_signed app auth data =
     append_u32 (sha256 app @ [char_of (unat (auth_flags auth))]) (auth_counter auth) @ sha256 data"

definition signed_bytes :: "publicKey \<Rightarrow> authenticatorData \<Rightarrow> string \<Rightarrow> string" where
  "signed_bytes k auth data = (if securityKey k then sk_signed (pk_application k) auth data else data)"

definition verify_ecdsa ::
  "primitives \<Rightarrow> string \<Rightarrow> curve \<Rightarrow> string \<Rightarrow> string \<Rightarrow> string \<Rightarrow> (verify_error, bool) result" where
  "verify_ecdsa P typ c point msg raw =
     (let (sr, r1) = mpint (reader_of raw); (ss, r2) = mpint r1
      in rbind (rmap_err SigUnread (end_read r2)) (\<lambda>_.
           Inr (ecdsa_verify P c point (ecdsaHash typ msg) (the sr) (the ss))))"

definition verify ::
  "primitives \<Rightarrow> publicKey \<Rightarrow> string \<Rightarrow> string \<Rightarrow> (verify_error, authenticatorData \<times> bool) result" where
  "verify P k data sig =
     (let (sigType, r) = str (reader_of sig)
      in case wr_err r of
           Some e \<Rightarrow> Inl (SigTypeUnread e)
         | None \<Rightarrow>
             if pk_typ k = TypeRSA then
               (case pk_material k of
                  RSAKey n e \<Rightarrow> rbind (verifyRSA P n e sigType r data) (\<lambda>ok. Inr (no_auth, ok))
                | _ \<Rightarrow> Inl NilKey)
             else if sigType \<noteq> pk_typ k then Inl (WrongSigType sigType)
             else
               (let (raw, r1) = str r; (auth, r2) = read_auth (securityKey k) r1
                in rbind (rmap_err SigUnread (end_read r2)) (\<lambda>_.
                     case pk_material k of
                       Ed25519Key pub \<Rightarrow>
                         if length raw \<noteq> 64 then Inl (SigSize (length raw))
                         else Inr (auth, ed25519_verify P pub (signed_bytes k auth data) raw)
                     | ECDSAKey c point \<Rightarrow>
                         rbind (verify_ecdsa P (pk_typ k) c point (signed_bytes k auth data) raw)
                           (\<lambda>ok. Inr (auth, ok))
                     | RSAKey n e \<Rightarrow> Inl NilKey)))"

section \<open>What a signature is\<close>

definition auth_bytes :: "publicKey \<Rightarrow> authenticatorData \<Rightarrow> string" where
  "auth_bytes k a =
     (if securityKey k then char_of (unat (auth_flags a)) # be_bytes 4 (unat (auth_counter a)) else [])"

definition auth_for :: "publicKey \<Rightarrow> authenticatorData \<Rightarrow> bool" where
  "auth_for k a \<longleftrightarrow> (\<not> securityKey k \<longrightarrow> a = no_auth)"

definition rsa_name :: "rsa_hash \<Rightarrow> string" where
  "rsa_name h = (case h of HashSHA256 \<Rightarrow> ''rsa-sha2-256'' | HashSHA512 \<Rightarrow> ''rsa-sha2-512'')"

text \<open>
  The raw bytes inside a blob, and whether the key's own primitive takes them, over the bytes
  the key signs.
\<close>

fun raw_ok :: "primitives \<Rightarrow> publicKey \<Rightarrow> authenticatorData \<Rightarrow> string \<Rightarrow> string \<Rightarrow> material \<Rightarrow> bool" where
  "raw_ok P k a data raw (Ed25519Key pub) \<longleftrightarrow>
     length raw = 64 \<and> ed25519_verify P pub (signed_bytes k a data) raw"
| "raw_ok P k a data raw (ECDSAKey c point) \<longleftrightarrow>
     (\<exists>r s. raw = wire_string (mpint_bytes r) @ wire_string (mpint_bytes s) \<and>
        length (mpint_bytes r) < 2 ^ 32 \<and> length (mpint_bytes s) < 2 ^ 32 \<and>
        ecdsa_verify P c point (ecdsaHash (pk_typ k) (signed_bytes k a data)) r s)"
| "raw_ok P k a data raw (RSAKey n e) \<longleftrightarrow> False"

definition genuine :: "primitives \<Rightarrow> publicKey \<Rightarrow> string \<Rightarrow> string \<Rightarrow> authenticatorData \<Rightarrow> bool" where
  "genuine P k data sig a \<longleftrightarrow>
     auth_for k a \<and>
     (case pk_material k of
        RSAKey n e \<Rightarrow>
          \<exists>h raw. sig = wire_string (rsa_name h) @ wire_string raw \<and> length raw < 2 ^ 32 \<and>
            length raw = rsa_size n \<and> rsa_verify P n e h (rsa_digest h data) raw
      | m \<Rightarrow>
          \<exists>raw. sig = wire_string (pk_typ k) @ wire_string raw @ auth_bytes k a \<and> length raw < 2 ^ 32 \<and>
            raw_ok P k a data raw m)"

lemma auth_back:
  "read_auth (securityKey k) r = (a, reader_of t) \<longleftrightarrow> r = reader_of (auth_bytes k a @ t) \<and> auth_for k a"
proof (cases "securityKey k")
  case True
  obtain f r1 where f: "u8 r = (f, r1)" by fastforce
  obtain c r2 where c: "u32 r1 = (c, r2)" by fastforce
  have "read_auth True r = (a, reader_of t) \<longleftrightarrow> a = \<lparr>auth_flags = f, auth_counter = c\<rparr> \<and> r2 = reader_of t"
    by (auto simp: read_auth_def f c)
  also have "\<dots> \<longleftrightarrow> r = reader_of (char_of (unat (auth_flags a)) # be_bytes 4 (unat (auth_counter a)) @ t)"
  proof
    assume a: "a = \<lparr>auth_flags = f, auth_counter = c\<rparr> \<and> r2 = reader_of t"
    then have "r1 = reader_of (be_bytes 4 (unat c) @ t)" using c u32_back by blast
    then show "r = reader_of (char_of (unat (auth_flags a)) # be_bytes 4 (unat (auth_counter a)) @ t)"
      using f u8_back a by auto
  next
    assume r: "r = reader_of (char_of (unat (auth_flags a)) # be_bytes 4 (unat (auth_counter a)) @ t)"
    then have "u8 r = (auth_flags a, reader_of (be_bytes 4 (unat (auth_counter a)) @ t))" using u8_back by blast
    moreover have "u32 (reader_of (be_bytes 4 (unat (auth_counter a)) @ t)) = (auth_counter a, reader_of t)"
      using u32_back by blast
    ultimately show "a = \<lparr>auth_flags = f, auth_counter = c\<rparr> \<and> r2 = reader_of t" using f c by simp
  qed
  finally show ?thesis using True by (simp add: auth_bytes_def auth_for_def)
next
  case False
  then show ?thesis by (auto simp: read_auth_def auth_bytes_def auth_for_def)
qed

lemma rsa_sig_hash_iff: "rsa_sig_hash t = Some h \<longleftrightarrow> t = rsa_name h"
  by (cases h) (auto simp: rsa_sig_hash_def rsa_name_def)

lemma verifyRSA_iff:
  "verifyRSA P n e sigType r data = Inr True \<longleftrightarrow>
     (\<exists>h raw. sigType = rsa_name h \<and> r = reader_of (wire_string raw) \<and> length raw < 2 ^ 32 \<and>
        length raw = rsa_size n \<and> rsa_verify P n e h (rsa_digest h data) raw)"
    (is "_ \<longleftrightarrow> (\<exists>h raw. ?R h raw)")
proof
  assume a: "verifyRSA P n e sigType r data = Inr True"
  then obtain h where h: "rsa_sig_hash sigType = Some h" by (auto simp: verifyRSA_def split: option.splits)
  obtain raw r1 where s: "str r = (raw, r1)" by fastforce
  have "end_read r1 = Inr ()" and R: "length raw = rsa_size n" "rsa_verify P n e h (rsa_digest h data) raw"
    using a by (simp_all add: verifyRSA_def h s result_simps split: if_splits)
  then have "str r = (raw, reader_of [])" using s end_back by metis
  then have "?R h raw" using R iffD1 [OF rsa_sig_hash_iff h] unfolding str_back by simp
  then show "\<exists>h raw. ?R h raw" by blast
next
  assume "\<exists>h raw. ?R h raw"
  then obtain h raw where R: "?R h raw" by blast
  have "str r = (raw, reader_of [])" unfolding str_back using R by simp
  moreover have "rsa_sig_hash sigType = Some h" unfolding rsa_sig_hash_iff using R by simp
  moreover have "end_read (reader_of []) = Inr ()" by (simp only: end_back)
  ultimately show "verifyRSA P n e sigType r data = Inr True" using R by (simp add: verifyRSA_def)
qed

lemma verify_ecdsa_iff:
  "verify_ecdsa P ty c point msg raw = Inr True \<longleftrightarrow>
     (\<exists>r s. raw = wire_string (mpint_bytes r) @ wire_string (mpint_bytes s) \<and>
        length (mpint_bytes r) < 2 ^ 32 \<and> length (mpint_bytes s) < 2 ^ 32 \<and>
        ecdsa_verify P c point (ecdsaHash ty msg) r s)"
    (is "_ \<longleftrightarrow> (\<exists>r s. ?R r s)")
proof
  assume a: "verify_ecdsa P ty c point msg raw = Inr True"
  obtain sr r1 where p: "mpint (reader_of raw) = (sr, r1)" by fastforce
  obtain ss r2 where q: "mpint r1 = (ss, r2)" by fastforce
  have "end_read r2 = Inr ()" and R: "ecdsa_verify P c point (ecdsaHash ty msg) (the sr) (the ss)"
    using a by (simp_all add: verify_ecdsa_def p q result_simps)
  then obtain s where s: "ss = Some s" "r1 = reader_of (wire_string (mpint_bytes s) @ [])" "length (mpint_bytes s) < 2 ^ 32"
    using q end_back mpint_back by metis
  obtain r where "sr = Some r" "reader_of raw = reader_of (wire_string (mpint_bytes r) @ wire_string (mpint_bytes s) @ [])"
      "length (mpint_bytes r) < 2 ^ 32"
    using p [unfolded s(2) mpint_back] by blast
  then have "?R r s" using R s by simp
  then show "\<exists>r s. ?R r s" by blast
next
  assume "\<exists>r s. ?R r s"
  then obtain r s where R: "?R r s" by blast
  have "mpint (reader_of raw) = (Some r, reader_of (wire_string (mpint_bytes s)))"
    unfolding mpint_back using R by auto
  moreover have "mpint (reader_of (wire_string (mpint_bytes s))) = (Some s, reader_of [])"
    unfolding mpint_back using R by auto
  moreover have "end_read (reader_of []) = Inr ()" by (simp only: end_back)
  ultimately show "verify_ecdsa P ty c point msg raw = Inr True" using R by (simp add: verify_ecdsa_def)
qed

lemma raw_ok_ecdsa:
  "raw_ok P k a data raw (ECDSAKey c point) \<longleftrightarrow>
     verify_ecdsa P (pk_typ k) c point (signed_bytes k a data) raw = Inr True"
  by (simp add: verify_ecdsa_iff)

lemma verify_at:
  assumes "str (reader_of sig) = (t, reader_of rest)"
  shows "verify P k data sig =
    (if pk_typ k = TypeRSA then
       (case pk_material k of
          RSAKey n e \<Rightarrow> rbind (verifyRSA P n e t (reader_of rest) data) (\<lambda>ok. Inr (no_auth, ok))
        | _ \<Rightarrow> Inl NilKey)
     else if t \<noteq> pk_typ k then Inl (WrongSigType t)
     else
       (let (raw, r1) = str (reader_of rest); (auth, r2) = read_auth (securityKey k) r1
        in rbind (rmap_err SigUnread (end_read r2)) (\<lambda>_.
             case pk_material k of
               Ed25519Key pub \<Rightarrow>
                 if length raw \<noteq> 64 then Inl (SigSize (length raw))
                 else Inr (auth, ed25519_verify P pub (signed_bytes k auth data) raw)
             | ECDSAKey c point \<Rightarrow>
                 rbind (verify_ecdsa P (pk_typ k) c point (signed_bytes k auth data) raw)
                   (\<lambda>ok. Inr (auth, ok))
             | RSAKey n e \<Rightarrow> Inl NilKey)))"
  by (simp add: verify_def assms)

lemma rsa_name_short: "length (rsa_name h) < 2 ^ 32"
  by (cases h) (simp_all add: rsa_name_def)

lemma verify_rsa_key:
  assumes "pk_typ k = TypeRSA" "pk_material k = RSAKey n e"
  shows "verify P k data sig = Inr (a, True) \<longleftrightarrow> genuine P k data sig a"
proof
  have sk: "\<not> securityKey k" using assms by (simp add: securityKey_def)
  {
    assume v: "verify P k data sig = Inr (a, True)"
    obtain t r where s: "str (reader_of sig) = (t, r)" by fastforce
    have "wr_err r = None" using v by (auto simp: verify_def s split: option.splits)
    then obtain rest where r: "r = reader_of rest" using reader_of_rest by blast
    note s = s [unfolded r]
    have "verifyRSA P n e t (reader_of rest) data = Inr True" and a: "a = no_auth"
      using v [unfolded verify_at [OF s]] assms by (auto simp: result_simps)
    then show "genuine P k data sig a"
      using s sk assms unfolding verifyRSA_iff str_back genuine_def auth_for_def by auto
  next
    assume g: "genuine P k data sig a"
    then obtain h raw where R: "sig = wire_string (rsa_name h) @ wire_string raw" "length raw < 2 ^ 32"
        "length raw = rsa_size n" "rsa_verify P n e h (rsa_digest h data) raw" and a: "a = no_auth"
      unfolding genuine_def auth_for_def using assms sk by auto
    have s: "str (reader_of sig) = (rsa_name h, reader_of (wire_string raw))"
      unfolding str_back using R rsa_name_short by simp
    have "verifyRSA P n e (rsa_name h) (reader_of (wire_string raw)) data = Inr True"
      unfolding verifyRSA_iff using R by blast
    then show "verify P k data sig = Inr (a, True)" using assms a by (simp add: verify_at [OF s])
  }
qed

lemma verify_other_key:
  assumes ok: "key_ok P k" and rsa: "pk_typ k \<noteq> TypeRSA"
  shows "verify P k data sig = Inr (a, True) \<longleftrightarrow> genuine P k data sig a"
proof -
  have mat: "material_ok P (pk_typ k) (pk_material k)" using ok by (simp add: key_ok_def)
  have short: "length (pk_typ k) < 2 ^ 32" using mat by (cases "pk_material k") (auto simp: type_defs)
  have m: "\<not> (\<exists>n e. pk_material k = RSAKey n e)" using mat rsa by auto
  have g: "genuine P k data sig a \<longleftrightarrow> auth_for k a \<and>
      (\<exists>raw. sig = wire_string (pk_typ k) @ wire_string raw @ auth_bytes k a \<and> length raw < 2 ^ 32 \<and>
        raw_ok P k a data raw (pk_material k))"
    using m unfolding genuine_def by (cases "pk_material k") auto
  show ?thesis unfolding g
  proof
    assume v: "verify P k data sig = Inr (a, True)"
    obtain t r where s: "str (reader_of sig) = (t, r)" by fastforce
    have "wr_err r = None" using v by (auto simp: verify_def s split: option.splits)
    then obtain rest where r: "r = reader_of rest" using reader_of_rest by blast
    note s = s [unfolded r]
    obtain raw r1 where q: "str (reader_of rest) = (raw, r1)" by fastforce
    obtain b r2 where u: "read_auth (securityKey k) r1 = (b, r2)" by fastforce
    note v = v [unfolded verify_at [OF s] Let_def q prod.case u]
    have t: "t = pk_typ k" and "end_read r2 = Inr ()"
      using v rsa by (auto simp: result_simps split: if_splits)
    then have r2: "r2 = reader_of []" by (simp add: end_back)
    have "raw_ok P k a data raw (pk_material k)" and b: "b = a"
      using v rsa t by (auto simp: result_simps verify_ecdsa_iff split: if_splits material.splits)
    moreover have r1: "r1 = reader_of (auth_bytes k a @ [])" and af: "auth_for k a"
      using u [unfolded r2 b auth_back] by simp_all
    moreover have "rest = wire_string raw @ auth_bytes k a" "length raw < 2 ^ 32"
      using q [unfolded r1 str_back] by simp_all
    moreover have "sig = wire_string t @ rest" using s by (simp add: str_back)
    ultimately show "auth_for k a \<and>
      (\<exists>raw. sig = wire_string (pk_typ k) @ wire_string raw @ auth_bytes k a \<and> length raw < 2 ^ 32 \<and>
        raw_ok P k a data raw (pk_material k))" using t by auto
  next
    assume "auth_for k a \<and>
      (\<exists>raw. sig = wire_string (pk_typ k) @ wire_string raw @ auth_bytes k a \<and> length raw < 2 ^ 32 \<and>
        raw_ok P k a data raw (pk_material k))"
    then obtain raw where af: "auth_for k a" and R: "sig = wire_string (pk_typ k) @ wire_string raw @ auth_bytes k a"
      "length raw < 2 ^ 32" "raw_ok P k a data raw (pk_material k)" by blast
    have s: "str (reader_of sig) = (pk_typ k, reader_of (wire_string raw @ auth_bytes k a))"
      unfolding str_back using R short by simp
    have q: "str (reader_of (wire_string raw @ auth_bytes k a)) = (raw, reader_of (auth_bytes k a))"
      unfolding str_back using R by simp
    have u: "read_auth (securityKey k) (reader_of (auth_bytes k a)) = (a, reader_of [])"
      unfolding auth_back using af by simp
    have e: "end_read (reader_of []) = Inr ()" by (simp only: end_back)
    show "verify P k data sig = Inr (a, True)"
      using R(3) rsa unfolding verify_at [OF s] Let_def q prod.case u e rmap_err.simps rbind.simps
      by (cases "pk_material k") (auto simp: raw_ok_ecdsa simp del: raw_ok.simps(2))
  qed
qed

lemma verify_genuine: "key_ok P k \<Longrightarrow> verify P k data sig = Inr (a, True) \<longleftrightarrow> genuine P k data sig a"
  using verify_other_key [of P k] verify_rsa_key [of k]
  by (cases "pk_typ k = TypeRSA"; cases "pk_material k") (auto simp: key_ok_def)

text \<open>
  C16: a signature blob verifies under a key exactly when it is the one encoding of a raw
  signature by that key's own algorithm that the key's primitive takes: over the data, or for a
  security key over the authenticator data that holds the very flags and counter returned.
\<close>

theorem verify_iff:
  assumes "key_ok P k"
  shows "verify P k data sig = Inr (a, True) \<longleftrightarrow> genuine P k data sig a"
  by (rule verify_genuine [OF assms])

definition all_pass :: primitives where
  "all_pass = \<lparr>ed25519_verify = \<lambda>_ _ _. True, point_ok = \<lambda>_ _. True,
     ecdsa_verify = \<lambda>_ _ _ _ _. True, rsa_verify = \<lambda>_ _ _ _ _. True\<rparr>"

definition zero_bytes :: "nat \<Rightarrow> string" where
  "zero_bytes n = replicate n (char_of (0 :: nat))"

definition sample_key :: publicKey where
  "sample_key = \<lparr>pk_typ = TypeEd25519, pk_blob = wire_string TypeEd25519 @ wire_string (zero_bytes 32),
     pk_application = [], pk_material = Ed25519Key (zero_bytes 32)\<rparr>"

lemma sample_key_ok: "key_ok all_pass sample_key"
  by (simp add: key_ok_def sample_key_def key_bytes_def securityKey_def zero_bytes_def)

theorem verify_iff_witness:
  "verify all_pass sample_key ''data'' (wire_string TypeEd25519 @ wire_string (zero_bytes 64)) = Inr (no_auth, True)"
proof -
  have "genuine all_pass sample_key ''data'' (wire_string TypeEd25519 @ wire_string (zero_bytes 64)) no_auth"
    by (simp add: genuine_def sample_key_def auth_for_def auth_bytes_def securityKey_def all_pass_def)
      (rule exI [of _ "zero_bytes 64"], simp add: zero_bytes_def)
  then show ?thesis using verify_iff [OF sample_key_ok] by simp
qed

text \<open>The bytes a security key signs determine its flags, its counter and the hash of the data.\<close>

lemma unat_eq_imp: "unat a = unat b \<Longrightarrow> a = b"
  by (rule unsigned_word_eqI)

lemma unat_32: "unat (a :: 32 word) < 2 ^ 32"
  using unsigned_less [of a] by simp

lemma be_nat_unat: "be_nat (be_bytes 4 (unat (a :: 32 word))) = unat a"
  using unat_32 [of a] by (intro be_nat_bytes) simp

lemma be_bytes_inj: "be_bytes 4 (unat (a :: 32 word)) = be_bytes 4 (unat b) \<Longrightarrow> a = b"
  using be_nat_unat [of a] be_nat_unat [of b] unat_eq_imp [of a b] by argo

lemma sk_signed_binds:
  assumes "sk_signed app a d = sk_signed app' a' d'"
  shows "sha256 app = sha256 app' \<and> a = a' \<and> sha256 d = sha256 d'"
proof -
  have e: "sha256 app @ char_of (unat (auth_flags a)) # be_bytes 4 (unat (auth_counter a)) @ sha256 d =
      sha256 app' @ char_of (unat (auth_flags a')) # be_bytes 4 (unat (auth_counter a')) @ sha256 d'"
    using assms by (simp add: sk_signed_def append_u32_def)
  have app: "sha256 app = sha256 app'" using e by (simp add: append_eq_append_conv)
  then have "char_of (unat (auth_flags a)) = (char_of (unat (auth_flags a')) :: char)"
    and "be_bytes 4 (unat (auth_counter a)) @ sha256 d = be_bytes 4 (unat (auth_counter a')) @ sha256 d'"
    using e by simp_all
  moreover have "unat (auth_flags a) < 256" "unat (auth_flags a') < 256"
    using unsigned_less [of "auth_flags a"] unsigned_less [of "auth_flags a'"] by simp_all
  ultimately have "unat (auth_flags a) = unat (auth_flags a')" "auth_counter a = auth_counter a'"
    "sha256 d = sha256 d'"
    using byte_val_char_of [of "unat (auth_flags a)"] byte_val_char_of [of "unat (auth_flags a')"]
    by (auto dest: be_bytes_inj)
  then have "auth_flags a = auth_flags a'" by (simp add: unat_eq_imp)
  then show ?thesis using app \<open>auth_counter a = auth_counter a'\<close> \<open>sha256 d = sha256 d'\<close> by (cases a; cases a') simp
qed

end
