(* ===== verification/SshSig.thy ===== *)
theory SshSig
  imports Keys GoText
begin

text \<open>
  \<^verbatim>\<open>sigverify/sshsig.go\<close>: the SSHSIG envelope, its armor, and the bytes a signer's key signs.
\<close>

section \<open>The envelope\<close>

definition sshsigMagic :: string where "sshsigMagic = ''SSHSIG''"
definition sshsigVersion :: "32 word" where "sshsigVersion = 1"
definition armorBegin :: string where "armorBegin = ''-----BEGIN SSH SIGNATURE-----''"
definition armorEnd :: string where "armorEnd = ''-----END SSH SIGNATURE-----''"

record envelope =
  en_publicKey :: string
  en_namespace :: string
  en_hashAlg :: string
  en_signature :: string

datatype sig_error =
    HeaderWithoutNewline
  | NoFooter
  | FooterFollowed
  | ArmorNotBase64
  | NotSSHSIG
  | BlobUnread wire_error
  | BadVersion "32 word"

definition cr :: char where "cr = CHR 0x0D"
definition nl :: char where "nl = CHR 0x0A"

definition armor_footer :: string where "armor_footer = nl # armorEnd"

text \<open>The input after the header's line, or \<^term>\<open>None\<close> where no newline follows the header.\<close>

definition after_header :: "string \<Rightarrow> string option" where
  "after_header rest =
     (if has_prefix rest [cr, nl] then Some (drop 2 rest)
      else if has_prefix rest [nl] then Some (drop 1 rest)
      else None)"

definition dearmor :: "string \<Rightarrow> (sig_error, string) result" where
  "dearmor armored =
     (case after_header (drop (length armorBegin) armored) of
        None \<Rightarrow> Inl HeaderWithoutNewline
      | Some rest \<Rightarrow>
          (case index_str rest armor_footer of
             None \<Rightarrow> Inl NoFooter
           | Some i \<Rightarrow>
               if trim_space (drop (i + 1 + length armorEnd) rest) \<noteq> [] then Inl FooterFollowed
               else
                 (let encoded = filter (\<lambda>c. c \<noteq> cr \<and> c \<noteq> nl) (take i rest)
                  in rmap_err (\<lambda>_. ArmorNotBase64) (b64_decode encoded))))"

text \<open>The fields after the magic preamble. The reserved field is read and not kept.\<close>

definition parse_blob :: "string \<Rightarrow> (sig_error, envelope) result" where
  "parse_blob blob =
     (if \<not> has_prefix blob sshsigMagic then Inl NotSSHSIG
      else
        let (version, r1) = u32 (reader_of (drop (length sshsigMagic) blob));
            (key, r2) = str r1;
            (ns, r3) = str r2;
            (reserved, r4) = str r3;
            (alg, r5) = str r4;
            (sig, r6) = str r5
        in rbind (rmap_err BlobUnread (end_read r6)) (\<lambda>_.
             if version \<noteq> sshsigVersion then Inl (BadVersion version)
             else Inr \<lparr>en_publicKey = key, en_namespace = ns, en_hashAlg = alg, en_signature = sig\<rparr>))"

definition parseSignature :: "string \<Rightarrow> (sig_error, envelope) result" where
  "parseSignature sig =
     rbind (if has_prefix sig armorBegin then dearmor sig else Inr sig) parse_blob"

section \<open>The signed bytes\<close>

text \<open>The hash of a message, where SSHSIG allows the algorithm.\<close>

definition message_hash :: "string \<Rightarrow> string \<Rightarrow> string option" where
  "message_hash alg message =
     (if alg = ''sha512'' then Some (sha512 message)
      else if alg = ''sha256'' then Some (sha256 message)
      else None)"

definition signedData :: "string \<Rightarrow> string \<Rightarrow> string \<Rightarrow> string option" where
  "signedData ns alg message =
     (case message_hash alg message of
        None \<Rightarrow> None
      | Some dg \<Rightarrow>
          Some (appendString (appendString (appendString (appendString sshsigMagic ns) []) alg) dg))"

section \<open>What is read\<close>

definition blob_bytes :: "envelope \<Rightarrow> string \<Rightarrow> string" where
  "blob_bytes env reserved =
     sshsigMagic @ be_bytes 4 1 @ wire_string (en_publicKey env) @ wire_string (en_namespace env) @
     wire_string reserved @ wire_string (en_hashAlg env) @ wire_string (en_signature env)"

definition short_fields :: "envelope \<Rightarrow> string \<Rightarrow> bool" where
  "short_fields env reserved \<longleftrightarrow>
     list_all (\<lambda>b. length b < 2 ^ 32)
       [en_publicKey env, en_namespace env, reserved, en_hashAlg env, en_signature env]"

lemma parse_blob_iff:
  "parse_blob blob = Inr env \<longleftrightarrow> (\<exists>reserved. blob = blob_bytes env reserved \<and> short_fields env reserved)"
proof
  assume a: "parse_blob blob = Inr env"
  then have "has_prefix blob sshsigMagic" by (auto simp: parse_blob_def split: if_splits)
  then obtain b0 where b0: "blob = sshsigMagic @ b0" by (auto simp: has_prefix_iff)
  obtain v r1 where u: "u32 (reader_of b0) = (v, r1)" by fastforce
  obtain key r2 where s1: "str r1 = (key, r2)" by fastforce
  obtain ns r3 where s2: "str r2 = (ns, r3)" by fastforce
  obtain res r4 where s3: "str r3 = (res, r4)" by fastforce
  obtain alg r5 where s4: "str r4 = (alg, r5)" by fastforce
  obtain sg r6 where s5: "str r5 = (sg, r6)" by fastforce
  have e: "end_read r6 = Inr ()" and v: "v = sshsigVersion"
    and env: "env = \<lparr>en_publicKey = key, en_namespace = ns, en_hashAlg = alg, en_signature = sg\<rparr>"
    using a by (simp_all add: parse_blob_def b0 u s1 s2 s3 s4 s5 result_simps split: if_splits)
  note r6 = iffD1 [OF end_back e]
  note b5 = iffD1 [OF str_back s5 [unfolded r6]]
  note b4 = iffD1 [OF str_back s4 [unfolded conjunct1 [OF b5]]]
  note b3 = iffD1 [OF str_back s3 [unfolded conjunct1 [OF b4]]]
  note b2 = iffD1 [OF str_back s2 [unfolded conjunct1 [OF b3]]]
  note b1 = iffD1 [OF str_back s1 [unfolded conjunct1 [OF b2]]]
  have "reader_of b0 = reader_of (be_bytes 4 (unat v) @ wire_string key @ wire_string ns @ wire_string res @
      wire_string alg @ wire_string sg)"
    using iffD1 [OF u32_back u [unfolded conjunct1 [OF b1]]] by simp
  then have "blob = blob_bytes env res" by (simp add: b0 env blob_bytes_def v sshsigVersion_def)
  moreover have "short_fields env res" using b1 b2 b3 b4 b5 by (simp add: short_fields_def env)
  ultimately show "\<exists>reserved. blob = blob_bytes env reserved \<and> short_fields env reserved" by blast
next
  assume "\<exists>reserved. blob = blob_bytes env reserved \<and> short_fields env reserved"
  then obtain res where blob: "blob = blob_bytes env res" and short: "short_fields env res" by blast
  let ?t5 = "wire_string (en_signature env)"
  let ?t4 = "wire_string (en_hashAlg env) @ ?t5"
  let ?t3 = "wire_string res @ ?t4"
  let ?t2 = "wire_string (en_namespace env) @ ?t3"
  let ?t1 = "wire_string (en_publicKey env) @ ?t2"
  have "u32 (reader_of (be_bytes 4 1 @ ?t1)) = (1, reader_of ?t1)" unfolding u32_back by simp
  moreover have "str (reader_of ?t1) = (en_publicKey env, reader_of ?t2)"
    "str (reader_of ?t2) = (en_namespace env, reader_of ?t3)"
    "str (reader_of ?t3) = (res, reader_of ?t4)"
    "str (reader_of ?t4) = (en_hashAlg env, reader_of ?t5)"
    "str (reader_of ?t5) = (en_signature env, reader_of [])"
    unfolding str_back using short by (simp_all add: short_fields_def)
  moreover have "end_read (reader_of []) = Inr ()" by (simp only: end_back)
  ultimately show "parse_blob blob = Inr env"
    by (simp add: parse_blob_def blob blob_bytes_def sshsigVersion_def)
qed

section \<open>The armor\<close>

lemma index_str_iff:
  "index_str s p = Some i \<longleftrightarrow>
     (\<exists>r. s = take i s @ p @ r \<and> i \<le> length s) \<and> (\<forall>a r. s = a @ p @ r \<longrightarrow> i \<le> length a)"
    (is "_ \<longleftrightarrow> ?at s i \<and> ?first s i")
proof (induction s arbitrary: i)
  case Nil
  then show ?case by auto
next
  case (Cons x s)
  show ?case
  proof (cases "prefix p (x # s)")
    case True
    then obtain r where r: "x # s = p @ r" by (auto simp: prefix_def)
    then have "?first (x # s) i \<Longrightarrow> i = 0" by (metis append_Nil le_zero_eq list.size(3))
    moreover have "?at (x # s) 0" using r by auto
    ultimately show ?thesis using True by auto
  next
    case False
    then have np: "x # s \<noteq> p @ r" for r by (auto simp: prefix_def)
    have first: "?first (x # s) (Suc j) \<longleftrightarrow> ?first s j" for j
    proof
      assume a: "?first (x # s) (Suc j)"
      show "?first s j" using a by (metis Suc_le_mono append_Cons length_Cons)
    next
      assume b: "?first s j"
      show "?first (x # s) (Suc j)"
      proof (intro allI impI)
        fix a r assume e: "x # s = a @ p @ r"
        then obtain a' where "a = x # a'" using np by (cases a) auto
        then show "Suc j \<le> length a" using b e by simp
      qed
    qed
    have at: "?at (x # s) (Suc j) \<longleftrightarrow> ?at s j" for j by simp
    have "\<not> ?at (x # s) 0" using np by auto
    then show ?thesis using False Cons.IH first at by (cases i) auto
  qed
qed

definition first_footer :: "string \<Rightarrow> string \<Rightarrow> bool" where
  "first_footer body tail \<longleftrightarrow>
     (\<forall>a r. body @ armor_footer @ tail = a @ armor_footer @ r \<longrightarrow> length body \<le> length a)"

definition armored :: "string \<Rightarrow> string \<Rightarrow> bool" where
  "armored sig blob \<longleftrightarrow>
     (\<exists>newline body tail. newline \<in> {[nl], [cr, nl]} \<and> sig = armorBegin @ newline @ body @ armor_footer @ tail \<and>
        first_footer body tail \<and> trim_space tail = [] \<and>
        filter (\<lambda>c. c \<noteq> cr \<and> c \<noteq> nl) body = b64_enc blob)"

lemma after_header_iff: "after_header s = Some r \<longleftrightarrow> s = [nl] @ r \<or> s = [cr, nl] @ r"
proof -
  have "nl \<noteq> cr" by (simp add: nl_def cr_def)
  then show ?thesis by (cases s; cases "tl s") (auto simp: after_header_def has_prefix_iff)
qed

lemma b64_decode_filtered:
  "b64_decode (filter (\<lambda>c. c \<noteq> cr \<and> c \<noteq> nl) s) = Inr b \<longleftrightarrow> filter (\<lambda>c. c \<noteq> cr \<and> c \<noteq> nl) s = b64_enc b"
  by (simp add: b64_decode_iff cr_def nl_def)

lemma dearmor_iff:
  assumes "sig = armorBegin @ s"
  shows "dearmor sig = Inr blob \<longleftrightarrow> armored sig blob"
proof
  assume a: "dearmor sig = Inr blob"
  then obtain rest i where r: "after_header s = Some rest" "index_str rest armor_footer = Some i"
    "trim_space (drop (i + 1 + length armorEnd) rest) = []"
    "b64_decode (filter (\<lambda>c. c \<noteq> cr \<and> c \<noteq> nl) (take i rest)) = Inr blob"
    by (auto simp: dearmor_def assms result_simps Let_def split: option.splits if_splits)
  obtain tail where t: "rest = take i rest @ armor_footer @ tail" "i \<le> length rest"
    using r(2) unfolding index_str_iff by blast
  let ?body = "take i rest"
  have "drop (i + 1 + length armorEnd) (?body @ armor_footer @ tail) = tail"
    using t(2) by (simp add: armor_footer_def)
  then have "trim_space tail = []" using r(3) t(1) by metis
  moreover have "first_footer ?body tail"
    using r(2) t unfolding index_str_iff first_footer_def by (metis length_take min.absorb2)
  moreover have "filter (\<lambda>c. c \<noteq> cr \<and> c \<noteq> nl) ?body = b64_enc blob" using r(4) by (simp add: b64_decode_filtered)
  moreover obtain newline where "newline \<in> {[nl], [cr, nl]}" "s = newline @ ?body @ armor_footer @ tail"
    using r(1) t(1) unfolding after_header_iff by (metis insertI1 insertI2)
  ultimately show "armored sig blob" unfolding armored_def assms by blast
next
  assume "armored sig blob"
  then obtain newline body tail where a: "newline \<in> {[nl], [cr, nl]}"
    "s = newline @ body @ armor_footer @ tail" "first_footer body tail" "trim_space tail = []"
    "filter (\<lambda>c. c \<noteq> cr \<and> c \<noteq> nl) body = b64_enc blob"
    unfolding armored_def assms by auto
  let ?rest = "body @ armor_footer @ tail"
  have "after_header s = Some ?rest" unfolding after_header_iff using a(1,2) by auto
  moreover have "index_str ?rest armor_footer = Some (length body)"
    using a(3) unfolding index_str_iff first_footer_def by simp
  moreover have "trim_space (drop (length body + 1 + length armorEnd) ?rest) = []"
    using a(4) by (simp add: armor_footer_def)
  moreover have "b64_decode (filter (\<lambda>c. c \<noteq> cr \<and> c \<noteq> nl) body) = Inr blob"
    using a(5) unfolding b64_decode_filtered by simp
  ultimately show "dearmor sig = Inr blob" by (simp add: dearmor_def assms)
qed

lemma magic_not_armor: "\<not> has_prefix (blob_bytes env reserved) armorBegin"
  by (simp add: has_prefix_def armorBegin_def blob_bytes_def sshsigMagic_def)

text \<open>
  C26: a signature is read exactly when it is, bare or armored in canonical base64, the encoding
  of its fields under version 1 of the format; only the reserved field is free, and it is
  not among the fields returned.
\<close>

theorem parseSignature_iff:
  "parseSignature sig = Inr env \<longleftrightarrow>
     (\<exists>reserved. short_fields env reserved \<and>
        (sig = blob_bytes env reserved \<or> armored sig (blob_bytes env reserved)))"
proof (cases "has_prefix sig armorBegin")
  case True
  then obtain s where s: "sig = armorBegin @ s" by (auto simp: has_prefix_iff)
  have "parseSignature sig = Inr env \<longleftrightarrow> (\<exists>blob. armored sig blob \<and> parse_blob blob = Inr env)"
    using True dearmor_iff [OF s] by (simp add: parseSignature_def result_simps)
  moreover have "sig \<noteq> blob_bytes env reserved" for reserved using True magic_not_armor by metis
  ultimately show ?thesis unfolding parse_blob_iff by blast
next
  case False
  then have "\<not> armored sig blob" for blob by (auto simp: armored_def has_prefix_def)
  then show ?thesis using False by (auto simp: parseSignature_def parse_blob_iff)
qed

section \<open>What is signed\<close>

lemma wire_string_inj:
  assumes "wire_string a @ s = wire_string b @ t" "length a < 2 ^ 32" "length b < 2 ^ 32"
  shows "a = b \<and> s = t"
proof -
  have a: "str (reader_of (wire_string a @ s)) = (a, reader_of s)" unfolding str_back using assms(2) by simp
  have b: "str (reader_of (wire_string b @ t)) = (b, reader_of t)" unfolding str_back using assms(3) by simp
  from trans [OF sym [OF a [unfolded assms(1)]] b] show ?thesis by simp
qed

lemma message_hash_short: "message_hash alg m = Some h \<Longrightarrow> length h < 2 ^ 32 \<and> length alg < 2 ^ 32"
  by (auto simp: message_hash_def split: if_splits)

lemma signedData_wire:
  assumes "signedData ns alg m = Some d" "length ns < 2 ^ 32"
  shows "\<exists>h. message_hash alg m = Some h \<and>
    d = sshsigMagic @ wire_string ns @ wire_string [] @ wire_string alg @ wire_string h"
proof -
  obtain h where h: "message_hash alg m = Some h" using assms(1) by (auto simp: signedData_def split: option.splits)
  then show ?thesis
    using assms message_hash_short [OF h] by (simp add: signedData_def appendString_wire)
qed

lemma signed_data_binds:
  assumes "signedData ns alg m = Some d" "signedData ns' alg' m' = Some d"
    and "length ns < 2 ^ 32" "length ns' < 2 ^ 32"
  shows "ns = ns' \<and> alg = alg' \<and> message_hash alg m = message_hash alg' m'"
proof -
  obtain h where h: "message_hash alg m = Some h"
    "d = sshsigMagic @ wire_string ns @ wire_string [] @ wire_string alg @ wire_string h"
    using signedData_wire [OF assms(1,3)] by blast
  obtain h' where h': "message_hash alg' m' = Some h'"
    "d = sshsigMagic @ wire_string ns' @ wire_string [] @ wire_string alg' @ wire_string h'"
    using signedData_wire [OF assms(2,4)] by blast
  have "wire_string ns @ wire_string [] @ wire_string alg @ wire_string h =
      wire_string ns' @ wire_string [] @ wire_string alg' @ wire_string h'"
    using h(2) h'(2) by simp
  from wire_string_inj [OF this assms(3,4)]
  have ns: "ns = ns'" and "wire_string alg @ wire_string h @ [] = wire_string alg' @ wire_string h' @ []" by simp_all
  from wire_string_inj [OF this(2)] message_hash_short [OF h(1)] message_hash_short [OF h'(1)]
  have "alg = alg'" "wire_string h @ [] = wire_string h' @ []" by auto
  moreover from wire_string_inj [OF this(2)] message_hash_short [OF h(1)] message_hash_short [OF h'(1)]
  have "h = h'" by simp
  ultimately show ?thesis using ns h h' by simp
qed

text \<open>
  C27: the bytes a key signs determine the namespace, the hash algorithm and the hash of the
  message, so a signature made for one namespace says nothing in another.
\<close>

theorem signedData_binds:
  assumes "signedData ns alg m = Some d" "signedData ns' alg' m' = Some d"
    and "length ns < 2 ^ 32" "length ns' < 2 ^ 32"
  shows "ns = ns' \<and> alg = alg' \<and> message_hash alg m = message_hash alg' m'"
  by (rule signed_data_binds [OF assms])

theorem signedData_binds_witness:
  "\<exists>d. signedData ''git'' ''sha256'' ''m'' = Some d \<and>
     (\<forall>ns. length ns < 2 ^ 32 \<and> signedData ns ''sha256'' ''m'' = Some d \<longrightarrow> ns = ''git'')"
proof -
  obtain d where d: "signedData ''git'' ''sha256'' ''m'' = Some d" by (simp add: signedData_def message_hash_def)
  moreover have "ns = ''git''" if "length ns < 2 ^ 32" "signedData ns ''sha256'' ''m'' = Some d" for ns
    using signedData_binds [OF that(2) d that(1)] by simp
  ultimately show ?thesis by blast
qed

end
