(* ===== verification/Allowed.thy ===== *)
theory Allowed
  imports Keys Patterns GoText GoTime
begin

text \<open>
  \<^verbatim>\<open>sigverify/allowed.go\<close>: the allowed-signers file, one line at a time, and the lookup of the
  lines that let a key sign. Unicode's case tables and the host's time zone are the functions
  of a record \<open>host\<close>, an argument of the definitions.
\<close>

section \<open>Case and time\<close>

record host =
  ho_upper :: "nat \<Rightarrow> nat"
  ho_lower :: "nat \<Rightarrow> nat"
  ho_local :: "nat \<Rightarrow> nat \<Rightarrow> nat \<Rightarrow> nat \<Rightarrow> nat \<Rightarrow> nat \<Rightarrow> int"

text \<open>
  \<^verbatim>\<open>strings.ToUpper\<close> and \<^verbatim>\<open>strings.ToLower\<close>: rune by rune, and a byte that is part of no rune
  becomes the three bytes of \<^verbatim>\<open>utf8.RuneError\<close>.
\<close>

definition upper_rune :: "host \<Rightarrow> nat \<Rightarrow> nat" where
  "upper_rune h r = (if r < 128 then if 97 \<le> r \<and> r \<le> 122 then r - 32 else r else ho_upper h r)"

definition lower_rune :: "host \<Rightarrow> nat \<Rightarrow> nat" where
  "lower_rune h r = (if r < 128 then if 65 \<le> r \<and> r \<le> 90 then r + 32 else r else ho_lower h r)"

definition map_runes :: "(nat \<Rightarrow> nat) \<Rightarrow> string \<Rightarrow> string" where
  "map_runes f s = concat (map (\<lambda>w. utf8_encode (if is_rune w then f (rune_val w) else 65533)) (chunks s))"

definition to_upper :: "host \<Rightarrow> string \<Rightarrow> string" where
  "to_upper h s = map_runes (upper_rune h) s"

definition to_lower :: "host \<Rightarrow> string \<Rightarrow> string" where
  "to_lower h s = map_runes (lower_rune h) s"

text \<open>\<^verbatim>\<open>OutOfRange\<close> is the panic of a slice past the end of its string.\<close>

datatype time_error = NotATime string | NotAfter1970 string | OutOfRange

text \<open>The suffix taken off, and whether the time is in UTC.\<close>

definition time_digits :: "host \<Rightarrow> string \<Rightarrow> (time_error, bool \<times> string) result" where
  "time_digits h s =
     (let up = to_upper h s;
          cut = (\<lambda>t. if length s < length t then Inl OutOfRange else Inr (True, take (length t) s))
      in if has_suffix up ''UTC'' \<and> 3 < length s then cut (take (length up - 3) up)
         else if has_suffix up ''Z'' \<and> 1 < length s then cut (take (length up - 1) up)
         else Inr (False, s))"

definition two_or_zero :: "string \<Rightarrow> nat \<Rightarrow> nat" where
  "two_or_zero d i = (if i < length d then digits_at d i 2 else 0)"

definition ParseTime :: "host \<Rightarrow> string \<Rightarrow> (time_error, int) result" where
  "ParseTime h s =
     rbind (time_digits h s) (\<lambda>(utc, d).
       let y = digits_at d 0 4; mo = digits_at d 4 2; dd = digits_at d 6 2;
           hh = two_or_zero d 8; mi = two_or_zero d 10; ss = two_or_zero d 12
       in if length d \<notin> {8, 12, 14} then Inl (NotATime s)
          else if \<not> (list_all is_digit d \<and> valid_date y mo dd \<and> valid_clock hh mi ss) then Inl (NotATime s)
          else
            let t = (if utc then unix_time y mo dd hh mi ss else ho_local h y mo dd hh mi ss)
            in if t \<le> 0 then Inl (NotAfter1970 s) else Inr t)"

section \<open>Lines\<close>

type_synonym Class = string

definition ClassFIDO :: Class where "ClassFIDO = ''fido-sk''"
definition ClassTKey :: Class where "ClassTKey = ''tkey-signer''"
definition ClassSoftware :: Class where "ClassSoftware = ''software''"

lemmas class_defs = ClassFIDO_def ClassTKey_def ClassSoftware_def

record signerLine =
  sl_number :: nat
  sl_principals :: string
  sl_certAuthority :: bool
  sl_hasNamespaces :: bool
  sl_namespaces :: string
  sl_validAfter :: int
  sl_validBefore :: int
  sl_verifyRequired :: bool
  sl_tkeySigner :: bool
  sl_signerApp :: string
  sl_key :: string
  sl_class :: Class

record AllowedSigners =
  as_source :: string
  as_lines :: "signerLine list"

definition no_line :: signerLine where
  "no_line = \<lparr>sl_number = 0, sl_principals = [], sl_certAuthority = False, sl_hasNamespaces = False,
     sl_namespaces = [], sl_validAfter = 0, sl_validBefore = 0, sl_verifyRequired = False,
     sl_tkeySigner = False, sl_signerApp = [], sl_key = [], sl_class = []\<rparr>"

datatype option_error =
    ValueNotQuoted string
  | ValueUnclosed string
  | OptionTwice string
  | BadSignerApp string
  | BadTime string time_error
  | NoTouchRequired
  | UnknownOption string
  | NoComma string char
  | TrailingComma
  | EmptyWindow

datatype line_error =
    NoKeyAfterPrincipals
  | PrincipalsUnclosed
  | PrincipalsEmpty
  | LineKeyType string
  | OptionsUnclosed
  | NoKey
  | BadOption option_error
  | KeyNotBase64 string
  | BadKey key_error
  | KeyMislabelled string string
  | TKeyNotEd25519 string
  | TKeyVerifyRequired
  | TKeyCertAuthority

datatype file_error = NulByte nat | BadLine nat line_error

definition quote_char :: char where "quote_char = CHR 0x22"
definition backslash :: char where "backslash = CHR 0x5C"
definition tab_char :: char where "tab_char = CHR 0x09"

text \<open>The two sets of blanks the parser trims.\<close>

definition line_blank :: "char \<Rightarrow> bool" where
  "line_blank c \<longleftrightarrow> c \<in> {CHR '' '', CHR 0x09, CHR 0x0D, CHR 0x0A}"

definition blank :: "char \<Rightarrow> bool" where
  "blank c \<longleftrightarrow> c \<in> {CHR '' '', CHR 0x09}"

definition principalsField :: "string \<Rightarrow> (line_error, string \<times> string) result" where
  "principalsField line =
     (let pre = takeWhile (\<lambda>c. \<not> (line_blank c \<or> c = quote_char)) line; rest = drop (length pre) line
      in if rest = [] then Inl NoKeyAfterPrincipals
         else
           rbind (if hd rest = quote_char then
                    (case cut_byte (tl rest) quote_char of
                       None \<Rightarrow> Inl PrincipalsUnclosed
                     | Some (q, after) \<Rightarrow> Inr (pre @ q, after))
                  else Inr (pre, tl rest))
             (\<lambda>(field, after). if field = [] then Inl PrincipalsEmpty else Inr (field, trim_left line_blank after)))"

text \<open>The length of the options, and whether a quote is still open where they end.\<close>

fun options_end :: "bool \<Rightarrow> string \<Rightarrow> nat \<times> bool" where
  "options_end quoted [] = (0, quoted)"
| "options_end quoted (c # rest) =
     (if \<not> quoted \<and> blank c then (0, quoted)
      else if c = backslash \<and> rest \<noteq> [] \<and> hd rest = quote_char
      then (case options_end quoted (tl rest) of (n, q) \<Rightarrow> (n + 2, q))
      else (case options_end (if c = quote_char then \<not> quoted else quoted) rest of (n, q) \<Rightarrow> (n + 1, q)))"

definition optionsField :: "string \<Rightarrow> (line_error, string \<times> string) result" where
  "optionsField rest =
     (case options_end False rest of
        (i, quoted) \<Rightarrow>
          if quoted then Inl OptionsUnclosed
          else
            let after = trim_left blank (drop i rest)
            in if after = [] then Inl NoKey else Inr (take i rest, after))"

fun dequote_loop :: "string \<Rightarrow> string \<Rightarrow> (string \<times> string) option" where
  "dequote_loop b [] = None"
| "dequote_loop b (c # s) =
     (if c = backslash \<and> s \<noteq> [] \<and> hd s = quote_char then dequote_loop (b @ [quote_char]) (tl s)
      else if c = quote_char then Some (b, s)
      else dequote_loop (b @ [c]) s)"

definition dequote :: "string \<Rightarrow> string \<Rightarrow> (option_error, string \<times> string) result" where
  "dequote name s =
     (if \<not> has_prefix s [quote_char] then Inl (ValueNotQuoted name)
      else (case dequote_loop [] (tl s) of None \<Rightarrow> Inl (ValueUnclosed name) | Some r \<Rightarrow> Inr r))"

definition validSignerApp :: "string \<Rightarrow> bool" where
  "validSignerApp v \<longleftrightarrow>
     \<not> (length v = 0 \<or> 64 < length v) \<and>
     list_all (\<lambda>c. 97 \<le> c \<and> c \<le> 122 \<or> 65 \<le> c \<and> c \<le> 90 \<or> 48 \<le> c \<and> c \<le> 57 \<or>
       c \<in> set (map byte_val ''._+:-'')) (runes v)"

text \<open>One option set on the line.\<close>

definition set_option ::
  "host \<Rightarrow> signerLine \<Rightarrow> string \<Rightarrow> bool \<Rightarrow> string \<Rightarrow> (option_error, signerLine) result" where
  "set_option h l name hasValue value =
     (if name = ''cert-authority'' \<and> \<not> hasValue then Inr (l\<lparr>sl_certAuthority := True\<rparr>)
      else if name = ''verify-required'' \<and> \<not> hasValue then Inr (l\<lparr>sl_verifyRequired := True\<rparr>)
      else if name = ''tkey-signer'' then
        (if hasValue \<and> \<not> validSignerApp value then Inl (BadSignerApp value)
         else Inr (l\<lparr>sl_tkeySigner := True, sl_signerApp := value\<rparr>))
      else if name = ''namespaces'' \<and> hasValue then
        Inr (l\<lparr>sl_hasNamespaces := True, sl_namespaces := value\<rparr>)
      else if name = ''valid-after'' \<and> hasValue then
        rbind (rmap_err (BadTime name) (ParseTime h value)) (\<lambda>t. Inr (l\<lparr>sl_validAfter := t\<rparr>))
      else if name = ''valid-before'' \<and> hasValue then
        rbind (rmap_err (BadTime name) (ParseTime h value)) (\<lambda>t. Inr (l\<lparr>sl_validBefore := t\<rparr>))
      else if name = ''no-touch-required'' then Inl NoTouchRequired
      else Inl (UnknownOption name))"

definition read_value :: "string \<Rightarrow> string \<Rightarrow> (option_error, string \<times> string) result" where
  "read_value name rest = (if has_prefix rest ''='' then dequote name (tl rest) else Inr ([], rest))"

lemma dequote_loop_shorter: "dequote_loop b s = Some (v, r) \<Longrightarrow> length r < length s"
  by (induction b s rule: dequote_loop.induct) (auto split: if_splits)

lemma read_value_shorter: "read_value name rest = Inr (v, r) \<Longrightarrow> length r \<le> length rest"
  by (auto simp: read_value_def dequote_def split: if_splits option.splits
      dest!: dequote_loop_shorter intro: order.trans [OF less_imp_le])

function option_loop :: "host \<Rightarrow> string list \<Rightarrow> signerLine \<Rightarrow> string \<Rightarrow> (option_error, signerLine) result" where
  "option_loop h seen l opts =
     (if opts = [] then Inr l
      else
        let word = takeWhile (\<lambda>c. c \<noteq> CHR ''='' \<and> c \<noteq> CHR '','') opts;
            rest = drop (length word) opts; name = to_lower h word
        in rbind (read_value name rest) (\<lambda>(value, after).
             if name \<in> set seen then Inl (OptionTwice name)
             else rbind (set_option h l name (has_prefix rest ''='') value) (\<lambda>l'.
               if after = [] then Inr l'
               else if hd after \<noteq> CHR '','' then Inl (NoComma name (hd after))
               else if tl after = [] then Inl TrailingComma
               else option_loop h (name # seen) l' (tl after))))"
  by pat_completeness auto
termination
  by (relation "measure (\<lambda>(h, seen, l, opts). length opts)")
    (auto dest!: read_value_shorter simp: Suc_le_eq less_diff_conv2)

declare option_loop.simps [simp del]

definition parseOptions :: "host \<Rightarrow> signerLine \<Rightarrow> string \<Rightarrow> (option_error, signerLine) result" where
  "parseOptions h l opts =
     rbind (option_loop h [] l opts) (\<lambda>l.
       if sl_validAfter l \<noteq> 0 \<and> sl_validBefore l \<noteq> 0 \<and> sl_validBefore l \<le> sl_validAfter l
       then Inl EmptyWindow else Inr l)"

end
