(* ===== verification/SignerLines.thy ===== *)
theory SignerLines
  imports Allowed
begin

text \<open>
  \<^verbatim>\<open>sigverify/allowed.go\<close>: a whole line and the whole file, and what holds of every line of a
  file that parses.
\<close>

section \<open>The key field\<close>

text \<open>\<^verbatim>\<open>strings.Fields\<close>: the runs of runes that are no white space.\<close>

function word_chunks :: "string list \<Rightarrow> string list list" where
  "word_chunks ws =
     (let r = dropWhile space_chunk ws in
      if r = [] then []
      else takeWhile (\<lambda>w. \<not> space_chunk w) r # word_chunks (dropWhile (\<lambda>w. \<not> space_chunk w) r))"
  by pat_completeness auto
termination
proof (relation "measure length", simp, goal_cases)
  case (1 ws r)
  then have "\<not> space_chunk (hd r)" using hd_dropWhile by metis
  then have "length (dropWhile (\<lambda>w. \<not> space_chunk w) r) < length r"
    using 1(2) by (cases r) (auto simp: le_imp_less_Suc length_dropWhile_le)
  then show ?case using 1(1) length_dropWhile_le [of space_chunk ws] by simp
qed

declare word_chunks.simps [simp del]

definition fields :: "string \<Rightarrow> string list" where
  "fields s = map concat (word_chunks (chunks s))"

definition knownKeyType :: "string \<Rightarrow> bool" where
  "knownKeyType word \<longleftrightarrow>
     word \<in> {TypeSKEd25519, TypeSKECDSA, TypeEd25519, TypeECDSA256, TypeECDSA384, TypeECDSA521, TypeRSA}"

definition looksLikeKeyType :: "string \<Rightarrow> bool" where
  "looksLikeKeyType word \<longleftrightarrow>
     \<not> list_ex (\<lambda>c. c = CHR ''='' \<or> c = CHR '','') word \<and>
     (list_ex (has_prefix word) [''ssh-'', ''sk-'', ''ecdsa-'', ''webauthn-'', ''rsa-''] \<or>
      has_suffix word ''@openssh.com'')"

definition keyField :: "primitives \<Rightarrow> string \<Rightarrow> (line_error, string \<times> string) result" where
  "keyField P rest =
     (case fields rest of
        ty # b64 # _ \<Rightarrow>
          if \<not> knownKeyType ty then Inl (LineKeyType ty)
          else rbind (rmap_err (\<lambda>_. KeyNotBase64 ty) (b64_decode b64)) (\<lambda>blob.
                 rbind (rmap_err BadKey (parsePublicKey P blob)) (\<lambda>k.
                   if pk_typ k \<noteq> ty then Inl (KeyMislabelled ty (pk_typ k)) else Inr (blob, ty)))
      | _ \<Rightarrow> Inl NoKey)"

section \<open>A line and a file\<close>

definition class_of_line :: "string \<Rightarrow> signerLine \<Rightarrow> (line_error, Class) result" where
  "class_of_line keyType l =
     (if keyType = TypeSKEd25519 \<or> keyType = TypeSKECDSA then
        (if sl_tkeySigner l then Inl (TKeyNotEd25519 keyType) else Inr ClassFIDO)
      else if sl_tkeySigner l then
        (if keyType \<noteq> TypeEd25519 then Inl (TKeyNotEd25519 keyType)
         else if sl_verifyRequired l then Inl TKeyVerifyRequired
         else if sl_certAuthority l then Inl TKeyCertAuthority
         else Inr ClassTKey)
      else Inr ClassSoftware)"

text \<open>The options of a line, where the word after the principals is no key type.\<close>

definition line_options :: "host \<Rightarrow> signerLine \<Rightarrow> string \<Rightarrow> (line_error, signerLine \<times> string) result" where
  "line_options h l rest =
     (let word = takeWhile (\<lambda>c. c \<noteq> tab_char) (takeWhile (\<lambda>c. c \<noteq> CHR '' '') rest)
      in if \<not> knownKeyType word \<and> looksLikeKeyType word then Inl (LineKeyType word)
         else if \<not> knownKeyType word then
           rbind (optionsField rest) (\<lambda>(opts, after).
             rbind (rmap_err BadOption (parseOptions h l opts)) (\<lambda>l. Inr (l, after)))
         else Inr (l, rest))"

definition parseSignerLine :: "primitives \<Rightarrow> host \<Rightarrow> string \<Rightarrow> (line_error, signerLine) result" where
  "parseSignerLine P h line =
     rbind (principalsField line) (\<lambda>(principals, rest).
       rbind (line_options h (no_line\<lparr>sl_principals := principals\<rparr>) rest) (\<lambda>(l, rest).
         rbind (keyField P rest) (\<lambda>(key, keyType).
           rbind (class_of_line keyType l) (\<lambda>c. Inr (l\<lparr>sl_key := key, sl_class := c\<rparr>)))))"

text \<open>The loop over the lines, with the number of the first.\<close>

fun parse_lines :: "primitives \<Rightarrow> host \<Rightarrow> nat \<Rightarrow> string list \<Rightarrow> (file_error, signerLine list) result" where
  "parse_lines P h n [] = Inr []"
| "parse_lines P h n (raw # raws) =
     (if CHR 0x00 \<in> set raw then Inl (NulByte n)
      else
        let line = trim_left line_blank raw
        in if line = [] \<or> hd line = CHR ''#'' then parse_lines P h (n + 1) raws
           else rbind (rmap_err (BadLine n) (parseSignerLine P h line)) (\<lambda>l.
                  rbind (parse_lines P h (n + 1) raws) (\<lambda>ls. Inr (l\<lparr>sl_number := n\<rparr> # ls))))"

definition ParseAllowedSigners :: "primitives \<Rightarrow> host \<Rightarrow> string \<Rightarrow> string \<Rightarrow> (file_error, AllowedSigners) result" where
  "ParseAllowedSigners P h source data =
     rbind (parse_lines P h 1 (split_byte (CHR 0x0A) data)) (\<lambda>ls. Inr \<lparr>as_source = source, as_lines = ls\<rparr>)"

section \<open>What holds of every line\<close>

text \<open>The options touch neither the line's key nor its class, and the times they set are after 1970.\<close>

definition times_ok :: "signerLine \<Rightarrow> bool" where
  "times_ok l \<longleftrightarrow> 0 \<le> sl_validAfter l \<and> 0 \<le> sl_validBefore l"

lemma ParseTime_pos: "ParseTime h s = Inr t \<Longrightarrow> 0 < t"
  by (auto simp: ParseTime_def Let_def result_simps split: if_splits prod.splits)

lemma set_option_keeps:
  "set_option h l name hv v = Inr l' \<Longrightarrow> times_ok l \<Longrightarrow>
     times_ok l' \<and> sl_principals l' = sl_principals l"
  by (auto simp: set_option_def result_simps times_ok_def dest: ParseTime_pos split: if_splits)

lemma option_loop_keeps:
  "option_loop h seen l opts = Inr l' \<Longrightarrow> times_ok l \<Longrightarrow>
     times_ok l' \<and> sl_principals l' = sl_principals l"
proof (induction h seen l opts rule: option_loop.induct)
  case (1 h seen l opts)
  show ?case
  proof (cases "opts = []")
    case True
    then have "option_loop h seen l opts = Inr l" by (subst option_loop.simps) simp
    then show ?thesis using 1(2,3) by simp
  next
    case False
    define word where "word = takeWhile (\<lambda>c. c \<noteq> CHR ''='' \<and> c \<noteq> CHR '','') opts"
    define rest where "rest = drop (length word) opts"
    define name where "name = to_lower h word"
    obtain vl after m where v: "read_value name rest = Inr (vl, after)" "name \<notin> set seen"
      "set_option h l name (has_prefix rest ''='') vl = Inr m"
      and m: "after = [] \<and> m = l' \<or> after \<noteq> [] \<and> hd after = CHR '','' \<and> tl after \<noteq> [] \<and>
        option_loop h (name # seen) m (tl after) = Inr l'"
      using 1(2) False
      by (subst (asm) option_loop.simps)
        (auto simp: Let_def word_def [symmetric] rest_def [symmetric] name_def [symmetric] result_simps split: if_splits)
    have keep: "times_ok m \<and> sl_principals m = sl_principals l" using set_option_keeps [OF v(3) 1(3)] .
    show ?thesis
    proof (cases "after = []")
      case True
      then show ?thesis using m keep by simp
    next
      case nonempty: False
      then have "times_ok l' \<and> sl_principals l' = sl_principals m"
        using 1(1) [OF False word_def rest_def name_def v(1) refl v(2) v(3)] m keep by simp
      then show ?thesis using keep by simp
    qed
  qed
qed

definition window_ok :: "signerLine \<Rightarrow> bool" where
  "window_ok l \<longleftrightarrow> times_ok l \<and> (sl_validAfter l = 0 \<or> sl_validBefore l = 0 \<or> sl_validAfter l < sl_validBefore l)"

lemma parseOptions_keeps:
  "parseOptions h l opts = Inr l' \<Longrightarrow> times_ok l \<Longrightarrow> window_ok l' \<and> sl_principals l' = sl_principals l"
  by (auto simp: parseOptions_def result_simps window_ok_def dest!: option_loop_keeps split: if_splits)

lemma line_options_keeps:
  assumes "line_options h l rest = Inr (l', after)" "window_ok l"
  shows "window_ok l' \<and> sl_principals l' = sl_principals l"
  using assms parseOptions_keeps [of h l] unfolding window_ok_def
  by (auto simp: line_options_def Let_def result_simps split: if_splits)

text \<open>
  What a line of a parsed file is: its key is the encoding of a key that is read, its class is
  the one its key and its mark give, and the mark of a TKey stands on a plain Ed25519 key with
  neither a demand it cannot meet nor an authority.
\<close>

definition line_ok :: "primitives \<Rightarrow> signerLine \<Rightarrow> bool" where
  "line_ok P l \<longleftrightarrow>
     (\<exists>k. parsePublicKey P (sl_key l) = Inr k \<and>
        (sl_class l = ClassFIDO \<longleftrightarrow> securityKey k) \<and>
        (sl_class l = ClassTKey \<longleftrightarrow> sl_tkeySigner l) \<and>
        (sl_class l = ClassTKey \<longrightarrow> pk_typ k = TypeEd25519 \<and> \<not> sl_verifyRequired l \<and> \<not> sl_certAuthority l)) \<and>
     sl_class l \<in> {ClassFIDO, ClassTKey, ClassSoftware} \<and> window_ok l \<and> sl_principals l \<noteq> []"

lemma principals_nonempty: "principalsField line = Inr (p, rest) \<Longrightarrow> p \<noteq> []"
  by (auto simp: principalsField_def Let_def result_simps split: if_splits)

lemma keyField_reads:
  "keyField P rest = Inr (key, ty) \<Longrightarrow> \<exists>k. parsePublicKey P key = Inr k \<and> pk_typ k = ty"
  by (auto simp: keyField_def result_simps split: list.splits if_splits)

lemma classes_distinct [simp]:
  "ClassFIDO \<noteq> ClassTKey" "ClassFIDO \<noteq> ClassSoftware" "ClassTKey \<noteq> ClassSoftware"
  "ClassTKey \<noteq> ClassFIDO" "ClassSoftware \<noteq> ClassFIDO" "ClassSoftware \<noteq> ClassTKey"
  by (simp_all add: class_defs)

lemma parsed_line_ok:
  assumes "parseSignerLine P h line = Inr l"
  shows "line_ok P l"
proof -
  obtain p rest where p: "principalsField line = Inr (p, rest)" using assms by (auto simp: parseSignerLine_def result_simps)
  obtain m after where m: "line_options h (no_line\<lparr>sl_principals := p\<rparr>) rest = Inr (m, after)"
    using assms p by (auto simp: parseSignerLine_def result_simps)
  obtain key ty c where k: "keyField P after = Inr (key, ty)" "class_of_line ty m = Inr c"
    "l = m\<lparr>sl_key := key, sl_class := c\<rparr>"
    using assms p m by (auto simp: parseSignerLine_def result_simps)
  have "window_ok (no_line\<lparr>sl_principals := p\<rparr>)" by (simp add: window_ok_def times_ok_def no_line_def)
  from line_options_keeps [OF m this] have w: "window_ok m" "sl_principals m = p" by simp_all
  obtain pk where pk: "parsePublicKey P key = Inr pk" "pk_typ pk = ty" using keyField_reads [OF k(1)] by blast
  have c: "(c = ClassFIDO \<longleftrightarrow> securityKey pk) \<and> (c = ClassTKey \<longleftrightarrow> sl_tkeySigner m) \<and>
      (c = ClassTKey \<longrightarrow> ty = TypeEd25519 \<and> \<not> sl_verifyRequired m \<and> \<not> sl_certAuthority m) \<and>
      c \<in> {ClassFIDO, ClassTKey, ClassSoftware}"
    using k(2) pk(2) by (auto simp: class_of_line_def securityKey_def split: if_splits)
  have "window_ok l" using w(1) by (simp add: k(3) window_ok_def times_ok_def)
  then show ?thesis using pk c w(2) principals_nonempty [OF p] by (auto simp: line_ok_def k(3))
qed

lemma line_ok_number [simp]: "line_ok P (l\<lparr>sl_number := n\<rparr>) = line_ok P l"
  by (simp add: line_ok_def window_ok_def times_ok_def)

lemma parsed_lines_ok: "parse_lines P h n raws = Inr ls \<Longrightarrow> list_all (line_ok P) ls"
proof (induction P h n raws arbitrary: ls rule: parse_lines.induct)
  case (2 P h n raw raws)
  show ?case
  proof (cases "trim_left line_blank raw = [] \<or> hd (trim_left line_blank raw) = CHR ''#''")
    case True
    then show ?thesis using 2(1,3) by (auto simp: Let_def split: if_splits)
  next
    case False
    then obtain l ls' where l: "parseSignerLine P h (trim_left line_blank raw) = Inr l"
      "parse_lines P h (n + 1) raws = Inr ls'" "ls = l\<lparr>sl_number := n\<rparr> # ls'" "CHR 0x00 \<notin> set raw"
      using 2(3) by (auto simp: Let_def result_simps split: if_splits)
    have "list_all (line_ok P) ls'" using 2(2) [OF l(4) refl False _ l(2)] l(1) by simp
    then show ?thesis using parsed_line_ok [OF l(1)] l(3) by simp
  qed
qed simp

lemma parsed_signers_ok: "ParseAllowedSigners P h source data = Inr a \<Longrightarrow> list_all (line_ok P) (as_lines a)"
  by (auto simp: ParseAllowedSigners_def result_simps dest: parsed_lines_ok)

text \<open>
  C25: in a file that parses, every line's key is read and its class is the one the key and the
  tkey-signer mark give; a TKey line is a plain Ed25519 key with neither verify-required nor
  cert-authority, and no line has an empty window. A line that breaks this refuses the file.
\<close>

theorem signers_ok:
  assumes "ParseAllowedSigners P h source data = Inr a"
  shows "list_all (line_ok P) (as_lines a)"
  by (rule parsed_signers_ok [OF assms])

section \<open>A time that is not refused but out of range\<close>

text \<open>
  A byte that is part of no rune is three bytes long in upper case, so the length taken from the
  upper-case text can be past the end of the text it is used on.
\<close>

lemma invalid_upper: "map_runes f (CHR 0xFF # s) = utf8_encode 65533 @ map_runes f s"
proof -
  have n: "utf8_len (CHR 0xFF # s) = 0" by (simp add: utf8_len_def byte_val_def)
  have "chunks (CHR 0xFF # s) = [CHR 0xFF] # chunks s" by (subst chunks.simps) (simp add: n)
  moreover have "\<not> is_rune [CHR 0xFF]" by (simp add: is_rune_def utf8_len_def byte_val_def)
  ultimately show ?thesis by (simp add: map_runes_def)
qed

lemma upper_ascii:
  assumes "byte_val c < 128" "\<not> (97 \<le> byte_val c \<and> byte_val c \<le> 122)"
  shows "to_upper h (c # s) = c # to_upper h s"
proof -
  have "is_rune [c]" using assms(1) by (simp add: is_rune_def utf8_len_def)
  moreover have "upper_rune h (byte_val c) = byte_val c" using assms by (auto simp: upper_rune_def)
  moreover have "utf8_encode (byte_val c) = [c]" using assms(1) by (simp add: utf8_encode_def)
  ultimately show ?thesis using assms(1) by (simp add: to_upper_def map_runes_def chunks_ascii)
qed

lemma upper_utc: "to_upper h ''UTC'' = ''UTC''"
proof -
  have "to_upper h [] = []" by (simp add: to_upper_def map_runes_def)
  then show ?thesis by (simp add: upper_ascii byte_val_def)
qed

text \<open>
  A time of two bytes that are no runes, followed by UTC, is not refused as malformed: it
  slices past its end, and the parser of the file panics.
\<close>

theorem ParseTime_out_of_range:
  "ParseTime h ([CHR 0xFF, CHR 0xFF] @ ''UTC'') = Inl OutOfRange"
proof -
  have "to_upper h ([CHR 0xFF, CHR 0xFF] @ ''UTC'') = utf8_encode 65533 @ utf8_encode 65533 @ ''UTC''"
    using upper_utc [of h] by (simp add: to_upper_def invalid_upper)
  then show ?thesis by (simp add: ParseTime_def time_digits_def utf8_encode_def has_suffix_def suffix_def Let_def)
qed

end
