(* ===== verification/Lookup.thy ===== *)
theory Lookup
  imports SignerLines KeyVerify
begin

text \<open>
  \<^verbatim>\<open>AllowedSigners.lookup\<close>: which lines let a key sign, what the first of them says, and the
  most specific refusal where none does.
\<close>

section \<open>Refusals\<close>

datatype Reason =
    Malformed | Unsigned | WrongNamespace | UnsupportedKey | BadSignature | UnknownKey | ClassNotAllowed
  | PrincipalNotAllowed | NamespaceNotAllowed | NotYetValid | Expired | NoUserPresence
  | NoUserVerification | TagNameMismatch | TargetNotCommit | TargetMissing

definition reason_string :: "Reason \<Rightarrow> string" where
  "reason_string r =
     (case r of
        Malformed \<Rightarrow> ''malformed'' | Unsigned \<Rightarrow> ''unsigned'' | WrongNamespace \<Rightarrow> ''wrong-namespace''
      | UnsupportedKey \<Rightarrow> ''unsupported-key'' | BadSignature \<Rightarrow> ''bad-signature'' | UnknownKey \<Rightarrow> ''unknown-key''
      | ClassNotAllowed \<Rightarrow> ''class-not-allowed'' | PrincipalNotAllowed \<Rightarrow> ''principal-not-allowed''
      | NamespaceNotAllowed \<Rightarrow> ''namespace-not-allowed'' | NotYetValid \<Rightarrow> ''not-yet-valid''
      | Expired \<Rightarrow> ''expired'' | NoUserPresence \<Rightarrow> ''no-user-presence''
      | NoUserVerification \<Rightarrow> ''no-user-verification'' | TagNameMismatch \<Rightarrow> ''tag-name-mismatch''
      | TargetNotCommit \<Rightarrow> ''target-not-commit'' | TargetMissing \<Rightarrow> ''target-missing'')"

section \<open>The lookup\<close>

record request =
  rq_key :: string
  rq_principal :: string
  rq_namespace :: string
  rq_at :: int
  rq_classes :: "Class set"

record signer_match =
  mt_principal :: string
  mt_class :: Class
  mt_signerApp :: string
  mt_uvRequired :: bool

text \<open>What a line that lists the key says against the request, with the rank of the refusal.\<close>

definition objection :: "request \<Rightarrow> signerLine \<Rightarrow> (nat \<times> Reason) option" where
  "objection req l =
     (if sl_class l \<notin> rq_classes req then Some (1, ClassNotAllowed)
      else if rq_principal req \<noteq> [] \<and> matchPatternList (rq_principal req) (sl_principals l) \<noteq> 1
      then Some (2, PrincipalNotAllowed)
      else if sl_hasNamespaces l \<and> matchPatternList (rq_namespace req) (sl_namespaces l) \<noteq> 1
      then Some (3, NamespaceNotAllowed)
      else if sl_validAfter l \<noteq> 0 \<and> rq_at req < sl_validAfter l then Some (4, NotYetValid)
      else if sl_validBefore l \<noteq> 0 \<and> sl_validBefore l < rq_at req then Some (4, Expired)
      else None)"

definition first_match :: "request \<Rightarrow> signerLine \<Rightarrow> signer_match" where
  "first_match req l =
     \<lparr>mt_principal = (if rq_principal req = [] then sl_principals l else rq_principal req),
      mt_class = sl_class l, mt_signerApp = sl_signerApp l, mt_uvRequired = False\<rparr>"

text \<open>The loop's variables: the rank and the refusal so far, and the match.\<close>

record lookup_state =
  lk_rank :: nat
  lk_refusal :: Reason
  lk_match :: "signer_match option"

definition lookup_step :: "request \<Rightarrow> signerLine \<Rightarrow> lookup_state \<Rightarrow> lookup_state" where
  "lookup_step req l st =
     (if sl_certAuthority l \<or> sl_key l \<noteq> rq_key req then st
      else
        (case objection req l of
           Some (r, reason) \<Rightarrow> if lk_rank st < r then st\<lparr>lk_rank := r, lk_refusal := reason\<rparr> else st
         | None \<Rightarrow>
             let m = (case lk_match st of None \<Rightarrow> first_match req l | Some m \<Rightarrow> m)
             in st\<lparr>lk_match := Some (m\<lparr>mt_uvRequired := mt_uvRequired m \<or> sl_verifyRequired l\<rparr>)\<rparr>))"

definition lookup :: "AllowedSigners \<Rightarrow> request \<Rightarrow> (Reason, signer_match) result" where
  "lookup a req =
     (let st = fold (lookup_step req) (as_lines a) \<lparr>lk_rank = 0, lk_refusal = UnknownKey, lk_match = None\<rparr>
      in case lk_match st of None \<Rightarrow> Inl (lk_refusal st) | Some m \<Rightarrow> Inr m)"

section \<open>What it finds\<close>

definition lists_key :: "request \<Rightarrow> signerLine \<Rightarrow> bool" where
  "lists_key req l \<longleftrightarrow> \<not> sl_certAuthority l \<and> sl_key l = rq_key req"

definition lets_sign :: "request \<Rightarrow> signerLine \<Rightarrow> bool" where
  "lets_sign req l \<longleftrightarrow>
     lists_key req l \<and> sl_class l \<in> rq_classes req \<and>
     (rq_principal req = [] \<or> matchPatternList (rq_principal req) (sl_principals l) = 1) \<and>
     (sl_hasNamespaces l \<longrightarrow> matchPatternList (rq_namespace req) (sl_namespaces l) = 1) \<and>
     (sl_validAfter l = 0 \<or> sl_validAfter l \<le> rq_at req) \<and>
     (sl_validBefore l = 0 \<or> rq_at req \<le> sl_validBefore l)"

lemma lets_sign_iff: "lets_sign req l \<longleftrightarrow> lists_key req l \<and> objection req l = None"
  by (simp add: lets_sign_def objection_def not_less)

definition match_of :: "request \<Rightarrow> signerLine list \<Rightarrow> signer_match option" where
  "match_of req ls =
     (case find (lets_sign req) ls of
        None \<Rightarrow> None
      | Some l \<Rightarrow> Some ((first_match req l)\<lparr>mt_uvRequired := \<exists>l' \<in> set ls. lets_sign req l' \<and> sl_verifyRequired l'\<rparr>))"

text \<open>The refusals of the lines that list the key, and the first of those of the highest rank.\<close>

definition objections :: "request \<Rightarrow> signerLine list \<Rightarrow> (nat \<times> Reason) list" where
  "objections req ls = map (\<lambda>l. the (objection req l)) (filter (\<lambda>l. lists_key req l \<and> objection req l \<noteq> None) ls)"

definition worst :: "(nat \<times> Reason) list \<Rightarrow> nat \<times> Reason" where
  "worst os = fold (\<lambda>o' w. if fst w < fst o' then o' else w) os (0, UnknownKey)"

lemma objections_snoc:
  "objections req (ls @ [l]) =
     objections req ls @ (if lists_key req l \<and> objection req l \<noteq> None then [the (objection req l)] else [])"
  by (simp add: objections_def)

lemma find_snoc: "find P (xs @ [x]) = (case find P xs of None \<Rightarrow> if P x then Some x else None | Some y \<Rightarrow> Some y)"
  by (induction xs) auto

lemma lookup_fold:
  "fold (lookup_step req) ls \<lparr>lk_rank = 0, lk_refusal = UnknownKey, lk_match = None\<rparr> =
     \<lparr>lk_rank = fst (worst (objections req ls)), lk_refusal = snd (worst (objections req ls)),
      lk_match = match_of req ls\<rparr>"
proof (induction ls rule: rev_induct)
  case Nil
  then show ?case by (simp add: objections_def worst_def match_of_def)
next
  case (snoc l ls)
  show ?case
  proof (cases "lists_key req l")
    case False
    then have "\<not> lets_sign req l" by (simp add: lets_sign_def)
    then have "match_of req (ls @ [l]) = match_of req ls"
      by (auto simp: match_of_def find_snoc split: option.splits)
    then show ?thesis using snoc False by (auto simp: lookup_step_def objections_snoc lists_key_def)
  next
    case True
    then have key: "\<not> (sl_certAuthority l \<or> sl_key l \<noteq> rq_key req)" by (simp add: lists_key_def)
    show ?thesis
    proof (cases "objection req l")
      case None
      then have "lets_sign req l" using True by (simp add: lets_sign_iff)
      then have "match_of req (ls @ [l]) =
          (let m = (case match_of req ls of None \<Rightarrow> first_match req l | Some m \<Rightarrow> m)
           in Some (m\<lparr>mt_uvRequired := mt_uvRequired m \<or> sl_verifyRequired l\<rparr>))"
        by (auto simp: match_of_def find_snoc first_match_def find_None_iff dest: find_SomeD split: option.splits)
      then show ?thesis using snoc key None by (simp add: lookup_step_def objections_snoc Let_def)
    next
      case (Some o')
      then have "\<not> lets_sign req l" by (simp add: lets_sign_iff)
      then have "match_of req (ls @ [l]) = match_of req ls"
        by (auto simp: match_of_def find_snoc split: option.splits)
      moreover have "worst (objections req (ls @ [l])) =
          (if fst (worst (objections req ls)) < fst o' then o' else worst (objections req ls))"
        using True Some by (simp add: objections_snoc worst_def)
      ultimately show ?thesis using snoc key Some by (cases o') (simp add: lookup_step_def)
    qed
  qed
qed

lemma lookup_eq:
  "lookup a req =
     (case match_of req (as_lines a) of
        None \<Rightarrow> Inl (snd (worst (objections req (as_lines a))))
      | Some m \<Rightarrow> Inr m)"
  by (simp add: lookup_def lookup_fold split: option.split)

lemma find_Some_split:
  "find P xs = Some x \<longleftrightarrow> (\<exists>ys zs. xs = ys @ x # zs \<and> list_all (\<lambda>y. \<not> P y) ys \<and> P x)"
    (is "_ \<longleftrightarrow> ?split xs")
proof
  show "find P xs = Some x \<Longrightarrow> ?split xs"
  proof (induction xs)
    case (Cons a xs)
    show ?case
    proof (cases "P a")
      case True
      then show ?thesis using Cons(2) by - (rule exI [of _ "[]"], rule exI [of _ xs], simp)
    next
      case False
      then obtain ys zs where "xs = ys @ x # zs" "list_all (\<lambda>y. \<not> P y) ys" "P x" using Cons by auto
      then show ?thesis using False by - (rule exI [of _ "a # ys"], rule exI [of _ zs], simp)
    qed
  qed simp
  show "?split xs \<Longrightarrow> find P xs = Some x"
  proof -
    assume "?split xs"
    then obtain ys zs where xs: "xs = ys @ x # zs" "list_all (\<lambda>y. \<not> P y) ys" "P x" by blast
    from xs(2,3) show ?thesis unfolding xs(1) by (induction ys) simp_all
  qed
qed

lemma lookup_match:
  "lookup a req = Inr m \<longleftrightarrow>
     (\<exists>before l after. as_lines a = before @ l # after \<and> list_all (\<lambda>l'. \<not> lets_sign req l') before \<and> lets_sign req l \<and>
        m = (first_match req l)\<lparr>mt_uvRequired := \<exists>l' \<in> set (as_lines a). lets_sign req l' \<and> sl_verifyRequired l'\<rparr>)"
proof -
  have "lookup a req = Inr m \<longleftrightarrow> match_of req (as_lines a) = Some m"
    by (simp add: lookup_eq split: option.split)
  also have "\<dots> \<longleftrightarrow> (\<exists>l. find (lets_sign req) (as_lines a) = Some l \<and>
      m = (first_match req l)\<lparr>mt_uvRequired := \<exists>l' \<in> set (as_lines a). lets_sign req l' \<and> sl_verifyRequired l'\<rparr>)"
    by (auto simp: match_of_def split: option.splits)
  finally show ?thesis unfolding find_Some_split by blast
qed

text \<open>
  A key may sign exactly when a line lets it: a line that lists the key and is no authority,
  in an accepted class, for the principal, in the namespace, within its window. The first such
  line names the class and the principal, and every such line can demand user verification.
\<close>

theorem lookup_iff:
  "lookup a req = Inr m \<longleftrightarrow>
     (\<exists>before l after. as_lines a = before @ l # after \<and> list_all (\<lambda>l'. \<not> lets_sign req l') before \<and> lets_sign req l \<and>
        m = (first_match req l)\<lparr>mt_uvRequired := \<exists>l' \<in> set (as_lines a). lets_sign req l' \<and> sl_verifyRequired l'\<rparr>)"
  by (rule lookup_match)

end
