(* ===== verification/SigVerify.thy ===== *)
theory SigVerify
  imports SshSig Lookup
begin

text \<open>
  \<^verbatim>\<open>sigverify/sigverify.go\<close>: the policy of a call and \<^verbatim>\<open>Verify\<close>, every check in its order.
  The sentence of a refusal is left out; its reason and its signer are kept.
\<close>

unbundle bit_operations_syntax

section \<open>Calls and results\<close>

definition FlagUserPresent :: "8 word" where "FlagUserPresent = 0x01"
definition FlagUserVerified :: "8 word" where "FlagUserVerified = 0x04"

record Policy =
  po_Classes :: "Class list"
  po_AllowNonSK :: bool
  po_RequireUV :: bool

definition classes :: "Policy \<Rightarrow> Class set" where
  "classes p =
     (let s = set (po_Classes p); s = (if s = {} then {ClassFIDO} else s)
      in if po_AllowNonSK p then insert ClassSoftware s else s)"

definition ParseClass :: "string \<Rightarrow> Class option" where
  "ParseClass name = (if name \<in> {ClassFIDO, ClassTKey, ClassSoftware} then Some name else None)"

text \<open>The time is the seconds since the epoch, \<^term>\<open>None\<close> where Go's zero time stands for now.\<close>

record Options =
  op_Namespace :: string
  op_Principal :: string
  op_AnyPrincipal :: bool
  op_Policy :: Policy
  op_Time :: "int option"

record Signer =
  sg_KeyType :: string
  sg_Fingerprint :: string
  sg_SecurityKey :: bool
  sg_Flags :: "8 word"
  sg_Counter :: "32 word"

definition UserPresent :: "Signer \<Rightarrow> bool" where
  "UserPresent s \<longleftrightarrow> sg_SecurityKey s \<and> sg_Flags s AND FlagUserPresent \<noteq> 0"

definition UserVerified :: "Signer \<Rightarrow> bool" where
  "UserVerified s \<longleftrightarrow> sg_SecurityKey s \<and> sg_Flags s AND FlagUserVerified \<noteq> 0"

record Result =
  rs_Signer :: Signer
  rs_Namespace :: string
  rs_Principal :: string
  rs_Class :: Class
  rs_SignerApp :: string

record Refusal =
  rf_Reason :: Reason
  rf_Signer :: "Signer option"

datatype usage_error =
    NoNamespace
  | NoSigners
  | NoPrincipal
  | BothPrincipals
  | NulInName
  | BadClass string
  | NoTagName

datatype failure = Usage usage_error | Refused Refusal

section \<open>Verify\<close>

definition check_usage :: "AllowedSigners option \<Rightarrow> Options \<Rightarrow> (usage_error, unit) result" where
  "check_usage signers opts =
     (if op_Namespace opts = [] then Inl NoNamespace
      else if signers = None then Inl NoSigners
      else if op_Principal opts = [] \<and> \<not> op_AnyPrincipal opts then Inl NoPrincipal
      else if op_Principal opts \<noteq> [] \<and> op_AnyPrincipal opts then Inl BothPrincipals
      else if CHR 0x00 \<in> set (op_Principal opts) \<or> CHR 0x00 \<in> set (op_Namespace opts) then Inl NulInName
      else check_all (\<lambda>c. if ParseClass c = None then Inl (BadClass c) else Inr ()) (po_Classes (op_Policy opts)))"

definition refuse :: "Reason \<Rightarrow> Signer option \<Rightarrow> (failure, 'a) result" where
  "refuse reason signer = Inl (Refused \<lparr>rf_Reason = reason, rf_Signer = signer\<rparr>)"

definition signer_of :: "publicKey \<Rightarrow> authenticatorData \<Rightarrow> Signer" where
  "signer_of k auth =
     \<lparr>sg_KeyType = pk_typ k, sg_Fingerprint = fingerprint k, sg_SecurityKey = securityKey k,
      sg_Flags = auth_flags auth, sg_Counter = auth_counter auth\<rparr>"

definition request_of :: "Options \<Rightarrow> int \<Rightarrow> string \<Rightarrow> request" where
  "request_of opts now blob =
     \<lparr>rq_key = blob, rq_principal = op_Principal opts, rq_namespace = op_Namespace opts,
      rq_at = (case op_Time opts of None \<Rightarrow> now | Some t \<Rightarrow> t), rq_classes = classes (op_Policy opts)\<rparr>"

text \<open>The signature over the message: the key, and what its authenticator says.\<close>

definition check_signature ::
  "primitives \<Rightarrow> string \<Rightarrow> string \<Rightarrow> Options \<Rightarrow> (failure, publicKey \<times> authenticatorData) result" where
  "check_signature P message signature opts =
     (case parseSignature signature of
        Inl e \<Rightarrow> refuse Malformed None
      | Inr env \<Rightarrow>
          (case parsePublicKey P (en_publicKey env) of
             Inl e \<Rightarrow> refuse (if unsupported_key e then UnsupportedKey else Malformed) None
           | Inr k \<Rightarrow>
               let signer = Some (signer_of k no_auth)
               in if en_namespace env \<noteq> op_Namespace opts then refuse WrongNamespace signer
                  else
                    (case signedData (en_namespace env) (en_hashAlg env) message of
                       None \<Rightarrow> refuse Malformed signer
                     | Some data \<Rightarrow>
                         (case verify P k data (en_signature env) of
                            Inl e \<Rightarrow> refuse Malformed signer
                          | Inr (auth, ok) \<Rightarrow>
                              if ok then Inr (k, auth) else refuse BadSignature signer))))"

text \<open>The flags, once a line lets the key sign.\<close>

definition check_flags :: "Options \<Rightarrow> Signer \<Rightarrow> signer_match \<Rightarrow> (failure, unit) result" where
  "check_flags opts signer m =
     (if mt_class m = ClassFIDO \<and> \<not> UserPresent signer then refuse NoUserPresence (Some signer)
      else if po_RequireUV (op_Policy opts) \<or> mt_uvRequired m then
        (if mt_class m = ClassTKey then refuse NoUserVerification (Some signer)
         else if mt_class m \<noteq> ClassFIDO then refuse NoUserVerification (Some signer)
         else if \<not> UserVerified signer then refuse NoUserVerification (Some signer)
         else Inr ())
      else Inr ())"

definition Verify ::
  "primitives \<Rightarrow> int \<Rightarrow> AllowedSigners option \<Rightarrow> string \<Rightarrow> string \<Rightarrow> Options \<Rightarrow> (failure, Result) result" where
  "Verify P now signers message signature opts =
     rbind (rmap_err Usage (check_usage signers opts)) (\<lambda>_.
       rbind (check_signature P message signature opts) (\<lambda>(k, auth).
         let signer = signer_of k auth
         in case lookup (the signers) (request_of opts now (pk_blob k)) of
              Inl reason \<Rightarrow> refuse reason (Some signer)
            | Inr m \<Rightarrow>
                rbind (check_flags opts signer m) (\<lambda>_.
                  Inr \<lparr>rs_Signer = signer, rs_Namespace = op_Namespace opts, rs_Principal = mt_principal m,
                       rs_Class = mt_class m, rs_SignerApp = mt_signerApp m\<rparr>)))"

section \<open>What is accepted\<close>

definition usage_ok :: "Options \<Rightarrow> bool" where
  "usage_ok opts \<longleftrightarrow>
     op_Namespace opts \<noteq> [] \<and> (op_Principal opts = [] \<longleftrightarrow> op_AnyPrincipal opts) \<and>
     CHR 0x00 \<notin> set (op_Principal opts) \<and> CHR 0x00 \<notin> set (op_Namespace opts) \<and>
     set (po_Classes (op_Policy opts)) \<subseteq> {ClassFIDO, ClassTKey, ClassSoftware}"

lemma check_usage_iff: "check_usage signers opts = Inr () \<longleftrightarrow> signers \<noteq> None \<and> usage_ok opts"
  by (auto simp: check_usage_def usage_ok_def ParseClass_def result_simps)

text \<open>A signature over the message: read, in the call's namespace, and genuine under its key.\<close>

definition signs ::
  "primitives \<Rightarrow> string \<Rightarrow> string \<Rightarrow> string \<Rightarrow> publicKey \<Rightarrow> authenticatorData \<Rightarrow> bool" where
  "signs P ns message signature k auth \<longleftrightarrow>
     (\<exists>env data. parseSignature signature = Inr env \<and> en_namespace env = ns \<and>
        key_ok P k \<and> key_bytes k = en_publicKey env \<and>
        signedData ns (en_hashAlg env) message = Some data \<and> genuine P k data (en_signature env) auth)"

lemma check_signature_iff:
  "check_signature P message signature opts = Inr (k, auth) \<longleftrightarrow>
     signs P (op_Namespace opts) message signature k auth"
proof
  assume a: "check_signature P message signature opts = Inr (k, auth)"
  obtain env where env: "parseSignature signature = Inr env"
    using a by (cases "parseSignature signature") (auto simp: check_signature_def refuse_def)
  obtain k' where k': "parsePublicKey P (en_publicKey env) = Inr k'"
    using a by (cases "parsePublicKey P (en_publicKey env)") (auto simp: check_signature_def env refuse_def)
  have ns: "en_namespace env = op_Namespace opts"
    using a by (auto simp: check_signature_def env k' refuse_def Let_def split: if_splits)
  obtain data where d: "signedData (op_Namespace opts) (en_hashAlg env) message = Some data"
    using a by (cases "signedData (op_Namespace opts) (en_hashAlg env) message")
      (auto simp: check_signature_def env k' ns refuse_def)
  obtain x where x: "verify P k' data (en_signature env) = Inr x"
    using a by (cases "verify P k' data (en_signature env)") (auto simp: check_signature_def env k' ns d refuse_def)
  have "x = (auth, True)" "k' = k"
    using a by (cases x; auto simp: check_signature_def env k' ns d x refuse_def split: if_splits)+
  then show "signs P (op_Namespace opts) message signature k auth"
    unfolding signs_def using env ns d x parsed_key [OF k'] verify_genuine [of P k] by metis
next
  assume "signs P (op_Namespace opts) message signature k auth"
  then obtain env data where e: "parseSignature signature = Inr env" "en_namespace env = op_Namespace opts"
    "key_ok P k" "key_bytes k = en_publicKey env"
    "signedData (op_Namespace opts) (en_hashAlg env) message = Some data"
    "genuine P k data (en_signature env) auth" unfolding signs_def by blast
  have "parsePublicKey P (en_publicKey env) = Inr k" using parsePublicKey_bytes [OF e(3)] e(4) by simp
  moreover have "verify P k data (en_signature env) = Inr (auth, True)" using verify_genuine [OF e(3)] e(6) by simp
  ultimately show "check_signature P message signature opts = Inr (k, auth)"
    using e by (simp add: check_signature_def)
qed

definition flags_ok :: "Options \<Rightarrow> Signer \<Rightarrow> signer_match \<Rightarrow> bool" where
  "flags_ok opts signer m \<longleftrightarrow>
     (mt_class m = ClassFIDO \<longrightarrow> UserPresent signer) \<and>
     (po_RequireUV (op_Policy opts) \<or> mt_uvRequired m \<longrightarrow> mt_class m = ClassFIDO \<and> UserVerified signer)"

lemma check_flags_iff: "check_flags opts signer m = Inr () \<longleftrightarrow> flags_ok opts signer m"
  by (auto simp: check_flags_def flags_ok_def refuse_def)

lemma verify_accepts:
  "Verify P now (Some a) message signature opts = Inr r \<longleftrightarrow>
     usage_ok opts \<and>
     (\<exists>k auth m. signs P (op_Namespace opts) message signature k auth \<and>
        lookup a (request_of opts now (pk_blob k)) = Inr m \<and> flags_ok opts (signer_of k auth) m \<and>
        r = \<lparr>rs_Signer = signer_of k auth, rs_Namespace = op_Namespace opts, rs_Principal = mt_principal m,
             rs_Class = mt_class m, rs_SignerApp = mt_signerApp m\<rparr>)" (is "_ \<longleftrightarrow> _ \<and> (\<exists>k auth m. ?ok k auth m)")
proof
  assume v: "Verify P now (Some a) message signature opts = Inr r"
  then have u: "usage_ok opts" using check_usage_iff [of "Some a" opts] by (auto simp: Verify_def result_simps)
  obtain k auth where k: "check_signature P message signature opts = Inr (k, auth)"
    using v by (auto simp: Verify_def result_simps)
  obtain m where m: "lookup a (request_of opts now (pk_blob k)) = Inr m"
    using v by (cases "lookup a (request_of opts now (pk_blob k))") (auto simp: Verify_def result_simps k refuse_def)
  have "?ok k auth m"
    using v by (auto simp: Verify_def result_simps k m Let_def check_signature_iff [symmetric] check_flags_iff [symmetric])
  then show "usage_ok opts \<and> (\<exists>k auth m. ?ok k auth m)" using u by blast
next
  assume "usage_ok opts \<and> (\<exists>k auth m. ?ok k auth m)"
  then obtain k auth m where u: "usage_ok opts" and ok: "?ok k auth m" by blast
  have "check_usage (Some a) opts = Inr ()" using u by (simp add: check_usage_iff)
  moreover have "check_signature P message signature opts = Inr (k, auth)" using ok by (simp add: check_signature_iff)
  moreover have "check_flags opts (signer_of k auth) m = Inr ()" using ok by (simp add: check_flags_iff)
  ultimately show "Verify P now (Some a) message signature opts = Inr r" using ok by (simp add: Verify_def)
qed

lemma accepted:
  assumes "Verify P now (Some a) message signature opts = Inr r"
  obtains k auth m where "signs P (op_Namespace opts) message signature k auth"
    "lookup a (request_of opts now (pk_blob k)) = Inr m" "flags_ok opts (signer_of k auth) m"
    "rs_Signer r = signer_of k auth" "rs_Class r = mt_class m"
proof -
  from assms obtain k auth m where "signs P (op_Namespace opts) message signature k auth"
    "lookup a (request_of opts now (pk_blob k)) = Inr m" "flags_ok opts (signer_of k auth) m"
    "r = \<lparr>rs_Signer = signer_of k auth, rs_Namespace = op_Namespace opts, rs_Principal = mt_principal m,
             rs_Class = mt_class m, rs_SignerApp = mt_signerApp m\<rparr>"
    unfolding verify_accepts by blast
  then show thesis using that by simp
qed

text \<open>
  C24: a signature is accepted exactly when the call is well formed, the signature is genuine over
  the message in the call's namespace, a line lets its key sign, and the flags the key
  signed prove what the line's class and the policy ask.
\<close>

theorem Verify_iff:
  "Verify P now (Some a) message signature opts = Inr r \<longleftrightarrow>
     usage_ok opts \<and>
     (\<exists>k auth m. signs P (op_Namespace opts) message signature k auth \<and>
        lookup a (request_of opts now (pk_blob k)) = Inr m \<and> flags_ok opts (signer_of k auth) m \<and>
        r = \<lparr>rs_Signer = signer_of k auth, rs_Namespace = op_Namespace opts, rs_Principal = mt_principal m,
             rs_Class = mt_class m, rs_SignerApp = mt_signerApp m\<rparr>)"
  by (rule verify_accepts)

section \<open>What an accepted signature proves\<close>

lemma lookup_class:
  assumes "lookup a req = Inr m"
  shows "mt_class m \<in> rq_classes req" and "\<exists>l \<in> set (as_lines a). lets_sign req l \<and> mt_class m = sl_class l"
  using assms unfolding lookup_match by (auto simp: first_match_def lets_sign_def)

lemma signs_raw:
  assumes "signs P ns message signature k auth" "securityKey k"
  shows "\<exists>alg data raw. signedData ns alg message = Some data \<and> raw_ok P k auth data raw (pk_material k) \<and>
    signed_bytes k auth data = sk_signed (pk_application k) auth data"
proof -
  obtain alg data sig where g: "key_ok P k" "signedData ns alg message = Some data" "genuine P k data sig auth"
    using assms unfolding signs_def by blast
  have "\<not> (\<exists>n e. pk_material k = RSAKey n e)" using g(1) assms(2) by (auto simp: key_ok_def securityKey_def)
  then have "\<exists>raw. raw_ok P k auth data raw (pk_material k)"
    using g(3) unfolding genuine_def by (cases "pk_material k") auto
  then show ?thesis using g(2) assms(2) by (auto simp: signed_bytes_def)
qed

text \<open>The presence of a person: what the flags returned say, and that the key signed those flags.\<close>

definition touched :: "primitives \<Rightarrow> string \<Rightarrow> string \<Rightarrow> Result \<Rightarrow> bool" where
  "touched P ns message r \<longleftrightarrow>
     sg_Flags (rs_Signer r) AND FlagUserPresent \<noteq> 0 \<and>
     (\<exists>k auth alg data raw. key_ok P k \<and> securityKey k \<and> rs_Signer r = signer_of k auth \<and>
        signedData ns alg message = Some data \<and> raw_ok P k auth data raw (pk_material k) \<and>
        signed_bytes k auth data = sk_signed (pk_application k) auth data)"

lemma fido_class_touched:
  assumes "Verify P now (Some a) message signature opts = Inr r" "rs_Class r = ClassFIDO"
  shows "touched P (op_Namespace opts) message r"
proof -
  obtain k auth m where s: "signs P (op_Namespace opts) message signature k auth"
    and l: "lookup a (request_of opts now (pk_blob k)) = Inr m" and f: "flags_ok opts (signer_of k auth) m"
    and r: "rs_Signer r = signer_of k auth" "rs_Class r = mt_class m"
    by (rule accepted [OF assms(1)])
  have up: "UserPresent (signer_of k auth)" using f r(2) assms(2) by (simp add: flags_ok_def)
  have sk: "securityKey k" using up by (simp add: UserPresent_def signer_of_def)
  have "key_ok P k" using s unfolding signs_def by blast
  then show ?thesis
    unfolding touched_def using signs_raw [OF s sk] sk up r(1) unfolding UserPresent_def by (metis (no_types, lifting))
qed

text \<open>
  C15: with the default policy, every accepted signature was made by a touched security key:
  the user-presence bit is set in the flags returned, and the key's own primitive took the
  authenticator data that holds those flags. No line of the file can waive it.
\<close>

theorem default_policy_touched:
  assumes "Verify P now (Some a) message signature opts = Inr r"
    and "po_Classes (op_Policy opts) = []" "\<not> po_AllowNonSK (op_Policy opts)"
  shows "touched P (op_Namespace opts) message r"
proof -
  obtain k :: publicKey and m :: signer_match where "lookup a (request_of opts now (pk_blob k)) = Inr m" "rs_Class r = mt_class m"
    by (rule accepted [OF assms(1)]) blast
  then have "rs_Class r = ClassFIDO"
    using lookup_class(1) assms(2,3) by (fastforce simp: request_of_def classes_def)
  then show ?thesis using fido_class_touched [OF assms(1)] by blast
qed

text \<open>
  Where the policy requires user verification, or a line that lets the key sign does, an
  accepted signature is a security key's and carries the user-verification bit.
\<close>

theorem uv_enforced:
  assumes "Verify P now (Some a) message signature opts = Inr r" "parseSignature signature = Inr env"
    and "po_RequireUV (op_Policy opts) \<or>
      (\<exists>l \<in> set (as_lines a). sl_verifyRequired l \<and> lets_sign (request_of opts now (en_publicKey env)) l)"
  shows "rs_Class r = ClassFIDO \<and> UserVerified (rs_Signer r)"
proof -
  obtain k auth m where s: "signs P (op_Namespace opts) message signature k auth"
    and l: "lookup a (request_of opts now (pk_blob k)) = Inr m" and f: "flags_ok opts (signer_of k auth) m"
    and r: "rs_Signer r = signer_of k auth" "rs_Class r = mt_class m"
    by (rule accepted [OF assms(1)])
  have "pk_blob k = en_publicKey env" using s assms(2) by (auto simp: signs_def key_ok_def)
  then have "po_RequireUV (op_Policy opts) \<or> mt_uvRequired m"
    using assms(3) l unfolding lookup_match by auto
  then show ?thesis using f r by (simp add: flags_ok_def)
qed

end
