(* ===== verification/GitTag.thy ===== *)
theory GitTag
  imports SigVerify
begin

text \<open>
  \<^verbatim>\<open>sigverify/gittag.go\<close>: a raw git tag object, split into what its signature covers and the
  signature, verified, and then held to the name and the type it was signed with.
\<close>

section \<open>Splitting a tag\<close>

definition GitNamespace :: string where "GitNamespace = ''git''"

definition signatureHeaders :: "string list" where
  "signatureHeaders =
     [''-----BEGIN PGP SIGNATURE-----'', ''-----BEGIN PGP MESSAGE-----'', ''-----BEGIN SIGNED MESSAGE-----'',
      armorBegin]"

definition opens :: "string \<Rightarrow> bool" where
  "opens line \<longleftrightarrow> list_ex (has_prefix line) signatureHeaders"

text \<open>The loop over the lines: where the last signature header opens one.\<close>

function last_header :: "nat \<Rightarrow> string \<Rightarrow> nat option \<Rightarrow> nat option" where
  "last_header start line match =
     (if line = [] then match
      else
        let match = (if opens line then Some start else match)
        in case index_byte line nl of
             None \<Rightarrow> match
           | Some i \<Rightarrow> last_header (start + i + 1) (drop (i + 1) line) match)"
  by pat_completeness auto
termination
  by (relation "measure (\<lambda>(start, line, m). length line)") auto

declare last_header.simps [simp del]

function removeSignatureHeaders :: "bool \<Rightarrow> string \<Rightarrow> string" where
  "removeSignatureHeaders inSignature object =
     (if object = [] then []
      else
        let line_end = (case index_byte object nl of None \<Rightarrow> length object | Some i \<Rightarrow> i + 1);
            line = take line_end object; rest = drop line_end object
        in if inSignature \<and> has_prefix line '' '' then removeSignatureHeaders inSignature rest
           else if has_prefix line ''gpgsig '' \<or> has_prefix line ''gpgsig-sha256 ''
           then removeSignatureHeaders True rest
           else if line = [nl] then object
           else line @ removeSignatureHeaders False rest)"
  by pat_completeness auto
termination
  by (relation "measure (\<lambda>(b, object). length object)") (auto split: option.splits)

declare removeSignatureHeaders.simps [simp del]

definition SplitTag :: "string \<Rightarrow> string \<times> string option" where
  "SplitTag object =
     (case last_header 0 object None of
        None \<Rightarrow> (object, None)
      | Some i \<Rightarrow> (removeSignatureHeaders False (take i object), Some (drop i object)))"

section \<open>The header and the check\<close>

record Tag =
  tg_Name :: string
  tg_Commit :: string

record tagHeader =
  th_object :: string
  th_objectType :: string
  th_name :: string

datatype header_error = NoHeader string | NotObjectID

definition isObjectID :: "string \<Rightarrow> bool" where
  "isObjectID i \<longleftrightarrow> (length i = 40 \<or> length i = 64) \<and>
     list_all (\<lambda>c. CHR ''0'' \<le> c \<and> c \<le> CHR ''9'' \<or> CHR ''a'' \<le> c \<and> c \<le> CHR ''f'') i"

definition header_field :: "string list \<Rightarrow> nat \<Rightarrow> string \<Rightarrow> (header_error, string) result" where
  "header_field ls i name =
     (if length ls \<le> i \<or> \<not> has_prefix (ls ! i) (name @ '' '') then Inl (NoHeader name)
      else Inr (drop (length name + 1) (ls ! i)))"

definition parseTagHeader :: "string \<Rightarrow> (header_error, tagHeader) result" where
  "parseTagHeader payload =
     (let header = (case cut_str payload [nl, nl] of None \<Rightarrow> payload | Some (h, _) \<Rightarrow> h);
          ls = split_byte nl header
      in rbind (header_field ls 0 ''object'') (\<lambda>object.
           if \<not> isObjectID object then Inl NotObjectID
           else rbind (header_field ls 1 ''type'') (\<lambda>ty.
                  rbind (header_field ls 2 ''tag'') (\<lambda>name.
                    Inr \<lparr>th_object = object, th_objectType = ty, th_name = name\<rparr>))))"

definition VerifyTag ::
  "primitives \<Rightarrow> int \<Rightarrow> AllowedSigners option \<Rightarrow> string \<Rightarrow> string \<Rightarrow> Options \<Rightarrow> (failure, Result \<times> Tag) result" where
  "VerifyTag P now signers object name opts =
     (if name = [] then Inl (Usage NoTagName)
      else
        (case SplitTag object of
           (payload, None) \<Rightarrow> refuse Unsigned None
         | (payload, Some signature) \<Rightarrow>
             rbind (Verify P now signers payload signature (opts\<lparr>op_Namespace := GitNamespace\<rparr>)) (\<lambda>r.
               case parseTagHeader payload of
                 Inl e \<Rightarrow> refuse Malformed (Some (rs_Signer r))
               | Inr h \<Rightarrow>
                   if th_name h \<noteq> name then refuse TagNameMismatch (Some (rs_Signer r))
                   else if th_objectType h \<noteq> ''commit'' then refuse TargetNotCommit (Some (rs_Signer r))
                   else Inr (r, \<lparr>tg_Name = th_name h, tg_Commit = th_object h\<rparr>))))"

section \<open>Where a signature starts\<close>

function line_suffixes :: "string \<Rightarrow> string list" where
  "line_suffixes s =
     (if s = [] then []
      else s # (case index_byte s nl of None \<Rightarrow> [] | Some i \<Rightarrow> line_suffixes (drop (i + 1) s)))"
  by pat_completeness auto
termination
  by (relation "measure length") auto

declare line_suffixes.simps [simp del]

lemma line_suffixes_cut:
  "nl \<notin> set a \<Longrightarrow> line_suffixes (a @ nl # b) = (a @ nl # b) # line_suffixes b"
  by (subst line_suffixes.simps) (simp add: index_byte_append)

lemma line_suffixes_last: "nl \<notin> set s \<Longrightarrow> line_suffixes s = (if s = [] then [] else [s])"
  by (subst line_suffixes.simps) (simp add: iffD2 [OF index_byte_None])

lemma line_cases:
  obtains "nl \<notin> set s" | a b where "s = a @ nl # b" "nl \<notin> set a"
  using split_list_first [of nl s] by blast

definition at_line :: "string \<Rightarrow> bool" where
  "at_line pre \<longleftrightarrow> pre = [] \<or> last pre = nl"

lemma line_suffixes_iff:
  "t \<in> set (line_suffixes s) \<longleftrightarrow> t \<noteq> [] \<and> (\<exists>pre. s = pre @ t \<and> at_line pre)"
proof (induction s rule: length_induct)
  case (1 s)
  show ?case
  proof (cases s rule: line_cases)
    case 1
    have "pre = []" if "s = pre @ t" "at_line pre" for pre
      using that 1 by (cases pre rule: rev_cases) (auto simp: at_line_def)
    then have "(\<exists>pre. s = pre @ t \<and> at_line pre) \<longleftrightarrow> s = t" by (metis append_Nil at_line_def)
    then show ?thesis using line_suffixes_last [OF 1] by auto
  next
    case (2 a b)
    have ih: "t \<in> set (line_suffixes b) \<longleftrightarrow> t \<noteq> [] \<and> (\<exists>pre. b = pre @ t \<and> at_line pre)"
      using 1 2 by simp
    have "(\<exists>pre. s = pre @ t \<and> at_line pre) \<longleftrightarrow> t = s \<or> (\<exists>pre. b = pre @ t \<and> at_line pre)"
    proof
      assume "\<exists>pre. s = pre @ t \<and> at_line pre"
      then obtain pre where p: "s = pre @ t" "at_line pre" by blast
      show "t = s \<or> (\<exists>pre. b = pre @ t \<and> at_line pre)"
      proof (cases "length pre \<le> length a")
        case True
        then have "pre = take (length pre) a" using p(1) 2(1) by (metis append_eq_conv_conj take_append diff_is_0_eq take0 append_Nil2)
        then have "nl \<notin> set pre" using 2(2) by (metis in_set_takeD)
        then show ?thesis using p by (cases pre rule: rev_cases) (auto simp: at_line_def)
      next
        case False
        then have "drop (Suc (length a)) (pre @ t) = drop (Suc (length a)) pre @ t" by simp
        moreover have "drop (Suc (length a)) s = b" by (simp add: 2(1))
        ultimately have "b = drop (Suc (length a)) pre @ t" using p(1) by simp
        moreover have "at_line (drop (Suc (length a)) pre)" using p(2)
          by (cases "Suc (length a) < length pre") (auto simp: at_line_def last_drop)
        ultimately show ?thesis by blast
      qed
    next
      assume "t = s \<or> (\<exists>pre. b = pre @ t \<and> at_line pre)"
      then show "\<exists>pre. s = pre @ t \<and> at_line pre"
      proof
        assume "t = s"
        then show ?thesis by (auto simp: at_line_def)
      next
        assume "\<exists>pre. b = pre @ t \<and> at_line pre"
        then obtain pre where "b = pre @ t" "at_line pre" by blast
        then show ?thesis using 2(1) by (intro exI [of _ "a @ nl # pre"]) (auto simp: at_line_def)
      qed
    qed
    then show ?thesis using ih 2 by (auto simp: line_suffixes_cut)
  qed
qed

lemma last_header_find:
  "last_header n s m =
     (case find opens (rev (line_suffixes s)) of None \<Rightarrow> m | Some t \<Rightarrow> Some (n + length s - length t))"
proof (induction n s m rule: last_header.induct)
  case (1 n s m)
  show ?case
  proof (cases s rule: line_cases)
    case 1
    then show ?thesis by (subst last_header.simps) (auto simp: line_suffixes_last iffD2 [OF index_byte_None])
  next
    case (2 a b)
    have drop: "drop (length a + 1) s = b" by (simp add: 2)
    have idx: "index_byte s nl = Some (length a)" using 2 by (simp add: index_byte_append)
    have nonempty: "s \<noteq> []" using 2(1) by simp
    have "last_header n s m = last_header (n + length a + 1) b (if opens s then Some n else m)"
      using nonempty by (subst last_header.simps) (simp only: Let_def idx option.case drop if_False)
    also have "\<dots> = (case find opens (rev (line_suffixes b)) of None \<Rightarrow> (if opens s then Some n else m)
        | Some t \<Rightarrow> Some (n + length a + 1 + length b - length t))"
      using 1 [OF nonempty refl idx] unfolding drop .
    finally show ?thesis
      using 2 by (auto simp: line_suffixes_cut find_snoc split: option.splits)
  qed
qed

text \<open>
  Where the last header opens a line: the signature, and what stands before it. The signature
  starts a line and opens with a header, and no later line does.
\<close>

definition signature_at :: "string \<Rightarrow> string \<Rightarrow> string \<Rightarrow> bool" where
  "signature_at object pre sig \<longleftrightarrow>
     object = pre @ sig \<and> at_line pre \<and> opens sig \<and>
     (\<forall>pre' sig'. object = pre' @ sig' \<and> at_line pre' \<and> opens sig' \<longrightarrow> length pre' \<le> length pre)"

lemma opens_nonempty: "opens s \<Longrightarrow> s \<noteq> []"
  by (auto simp: opens_def signatureHeaders_def armorBegin_def has_prefix_def)

lemma line_suffixes_decreasing: "sorted_wrt (\<lambda>s t. length t < length s) (line_suffixes s)"
proof (induction s rule: line_suffixes.induct)
  case (1 s)
  show ?case
  proof (cases s rule: line_cases)
    case 1
    then show ?thesis by (simp add: line_suffixes_last)
  next
    case (2 a b)
    have "length t < length s" if "t \<in> set (line_suffixes b)" for t
      using that 2(1) unfolding line_suffixes_iff by auto
    moreover have "sorted_wrt (\<lambda>s t. length t < length s) (line_suffixes b)"
      using 1 [of "length a"] 2 by (simp add: index_byte_append)
    ultimately show ?thesis using 2 by (auto simp: line_suffixes_cut)
  qed
qed

lemma last_opening:
  assumes "sorted_wrt (\<lambda>s t. length t < length (s :: string)) ts"
  shows "find P (rev ts) = Some u \<longleftrightarrow> u \<in> set ts \<and> P u \<and> (\<forall>t \<in> set ts. P t \<longrightarrow> length u \<le> length t)"
  using assms
proof (induction ts)
  case (Cons t ts)
  then have ih: "find P (rev ts) = Some u \<longleftrightarrow> u \<in> set ts \<and> P u \<and> (\<forall>t \<in> set ts. P t \<longrightarrow> length u \<le> length t)"
    and smaller: "\<And>v. v \<in> set ts \<Longrightarrow> length v < length t" by simp_all
  show ?case
  proof (cases "find P (rev ts)")
    case None
    then have "\<forall>v \<in> set ts. \<not> P v" by (auto simp: find_None_iff)
    then show ?thesis using None by (auto simp: find_snoc)
  next
    case (Some w)
    then have w: "w \<in> set ts" "P w" using find_SomeD [of P "rev ts" w] by auto
    then have "u = t \<Longrightarrow> \<not> (\<forall>v \<in> set (t # ts). P v \<longrightarrow> length u \<le> length v)"
      using smaller by fastforce
    moreover have "u \<in> set ts \<Longrightarrow> length u \<le> length t" using smaller by (simp add: less_imp_le)
    ultimately show ?thesis using Some ih by (auto simp: find_snoc)
  qed
qed simp

lemma SplitTag_signature:
  "SplitTag object = (payload, Some sig) \<longleftrightarrow>
     (\<exists>pre. signature_at object pre sig \<and> payload = removeSignatureHeaders False pre)"
proof -
  let ?u = "find opens (rev (line_suffixes object))"
  have at: "?u = Some sig \<longleftrightarrow> (\<exists>pre. signature_at object pre sig)"
  proof
    assume "?u = Some sig"
    then have a: "sig \<in> set (line_suffixes object)" "opens sig"
      "\<forall>t \<in> set (line_suffixes object). opens t \<longrightarrow> length sig \<le> length t"
      unfolding last_opening [OF line_suffixes_decreasing] by auto
    then obtain pre where pre: "object = pre @ sig" "at_line pre" unfolding line_suffixes_iff by blast
    have "length pre' \<le> length pre" if "object = pre' @ sig'" "at_line pre'" "opens sig'" for pre' sig'
    proof -
      have "sig' \<in> set (line_suffixes object)" unfolding line_suffixes_iff using that opens_nonempty by blast
      then have "length sig \<le> length sig'" using a(3) that(3) by blast
      moreover have "length pre' + length sig' = length pre + length sig" using that(1) pre(1) by (metis length_append)
      ultimately show ?thesis by simp
    qed
    then show "\<exists>pre. signature_at object pre sig" unfolding signature_at_def using pre a(2) by blast
  next
    assume "\<exists>pre. signature_at object pre sig"
    then obtain pre where p: "object = pre @ sig" "at_line pre" "opens sig"
      "\<forall>pre' sig'. object = pre' @ sig' \<and> at_line pre' \<and> opens sig' \<longrightarrow> length pre' \<le> length pre"
      unfolding signature_at_def by blast
    have "length sig \<le> length t" if "t \<in> set (line_suffixes object)" "opens t" for t
    proof -
      have "\<exists>pre'. object = pre' @ t \<and> at_line pre'" using that(1) unfolding line_suffixes_iff by blast
      then obtain pre' where "object = pre' @ t" "at_line pre'" by blast
      moreover from this have "length pre' \<le> length pre" using p(4) that(2) by blast
      ultimately show ?thesis using p(1) by (metis add_le_imp_le_left add_le_mono1 le_trans length_append nat_le_iff_add)
    qed
    moreover have "sig \<in> set (line_suffixes object)"
      unfolding line_suffixes_iff using p opens_nonempty by blast
    ultimately show "?u = Some sig" unfolding last_opening [OF line_suffixes_decreasing] using p(3) by blast
  qed
  have split: "SplitTag object = (payload, Some sig) \<longleftrightarrow>
      ?u = Some sig \<and> payload = removeSignatureHeaders False (take (length object - length sig) object)"
  proof (cases ?u)
    case None
    then show ?thesis by (simp add: SplitTag_def last_header_find)
  next
    case (Some u)
    then have "u \<in> set (line_suffixes object)" unfolding last_opening [OF line_suffixes_decreasing] by blast
    then obtain pre where pre: "object = pre @ u" unfolding line_suffixes_iff by blast
    have "SplitTag object = (removeSignatureHeaders False pre, Some u)"
      using Some by (simp add: SplitTag_def last_header_find) (simp add: pre)
    then show ?thesis using Some pre by auto
  qed
  have take: "signature_at object pre sig \<Longrightarrow> take (length object - length sig) object = pre" for pre
    by (auto simp: signature_at_def)
  show ?thesis unfolding split at using take by blast
qed

text \<open>
  A tag is split where git splits it: the signature starts at the last line that opens with
  any signature header, and the payload is what stands before it, less the headers that carry
  a signature for the other hash.
\<close>

theorem SplitTag_iff:
  "SplitTag object = (payload, Some sig) \<longleftrightarrow>
     (\<exists>pre. signature_at object pre sig \<and> payload = removeSignatureHeaders False pre)"
  by (rule SplitTag_signature)

section \<open>What a header says\<close>

text \<open>The three lines that open a tag object, as git writes them.\<close>

definition header_bytes :: "tagHeader \<Rightarrow> string \<Rightarrow> string" where
  "header_bytes h rest =
     (''object '' @ th_object h) @ nl # (''type '' @ th_objectType h) @ nl # (''tag '' @ th_name h) @ rest"

definition header_ok :: "tagHeader \<Rightarrow> string \<Rightarrow> bool" where
  "header_ok h rest \<longleftrightarrow>
     isObjectID (th_object h) \<and> nl \<notin> set (th_objectType h) \<and> nl \<notin> set (th_name h) \<and>
     (rest = [] \<or> hd rest = nl)"

lemma header_field_iff:
  "header_field ls i name = Inr v \<longleftrightarrow> i < length ls \<and> ls ! i = name @ '' '' @ v"
  by (auto simp: header_field_def has_prefix_iff)

lemma nl_object_id: "isObjectID i \<Longrightarrow> nl \<notin> set i"
  by (auto simp: isObjectID_def list_all_iff nl_def less_eq_char_def)

lemma nl_letters: "nl \<notin> set ''object ''" "nl \<notin> set ''type ''" "nl \<notin> set ''tag ''"
  by (simp_all add: nl_def)

lemma cut_past_line:
  assumes "l @ nl # r = h @ nl # nl # b" "nl \<notin> set l" "r \<noteq> []" "hd r \<noteq> nl"
  shows "\<exists>h'. h = l @ nl # h' \<and> r = h' @ nl # nl # b"
  using assms(1) unfolding append_eq_append_conv2
proof (elim exE conjE disjE)
  fix u assume u: "l = h @ u" "u @ nl # r = nl # nl # b"
  then show ?thesis using assms(2-4) by (cases u) auto
next
  fix u assume u: "l @ u = h" "nl # r = u @ nl # nl # b"
  then show ?thesis using assms(3,4) by (cases u) auto
qed

lemma cut_past_last:
  assumes "l @ rest = h @ nl # nl # b" "nl \<notin> set l" "rest = [] \<or> hd rest = nl"
  shows "\<exists>rest'. h = l @ rest' \<and> (rest' = [] \<or> hd rest' = nl)"
  using assms(1) unfolding append_eq_append_conv2
proof (elim exE conjE disjE)
  fix u assume u: "l = h @ u" "u @ rest = nl # nl # b"
  then show ?thesis using assms(2) by (cases u) auto
next
  fix u assume u: "l @ u = h" "rest = u @ nl # nl # b"
  then show ?thesis using assms(3) by (cases u) auto
qed

lemma split_first: "nl \<notin> set l \<Longrightarrow> rest = [] \<or> hd rest = nl \<Longrightarrow> \<exists>ls. split_byte nl (l @ rest) = l # ls"
  by (cases rest) (auto simp: split_byte_notin split_byte_append)

lemma parse_at:
  assumes "header = l0 @ nl # l1 @ nl # l2 @ rest" "nl \<notin> set l0" "nl \<notin> set l1" "nl \<notin> set l2"
    and "rest = [] \<or> hd rest = nl"
  shows "\<exists>ls. split_byte nl header = l0 # l1 # l2 # ls"
  using split_first [OF assms(4,5)] assms(1-3) by (auto simp: split_byte_append)

lemma three_first:
  "2 < length xs \<and> xs ! 0 = a \<and> xs ! 1 = b \<and> xs ! 2 = c \<longleftrightarrow> (\<exists>ys. xs = a # b # c # ys)"
proof
  assume a: "2 < length xs \<and> xs ! 0 = a \<and> xs ! 1 = b \<and> xs ! 2 = c"
  then have "xs = xs ! 0 # xs ! 1 # xs ! 2 # drop 3 xs"
    by (cases xs; cases "tl xs"; cases "tl (tl xs)") (auto simp: numeral_3_eq_3)
  then show "\<exists>ys. xs = a # b # c # ys" using a by metis
qed auto

lemma parseTagHeader_iff:
  "parseTagHeader payload = Inr h \<longleftrightarrow> (\<exists>rest. payload = header_bytes h rest \<and> header_ok h rest)"
proof -
  let ?l0 = "''object '' @ th_object h" and ?l1 = "''type '' @ th_objectType h" and ?l2 = "''tag '' @ th_name h"
  define header where "header = (case cut_str payload [nl, nl] of None \<Rightarrow> payload | Some (x, _) \<Rightarrow> x)"
  have p: "parseTagHeader payload = Inr h \<longleftrightarrow>
      isObjectID (th_object h) \<and> (\<exists>ls. split_byte nl header = ?l0 # ?l1 # ?l2 # ls)"
  proof -
    let ?ls = "split_byte nl header"
    have "parseTagHeader payload = Inr h \<longleftrightarrow>
        isObjectID (th_object h) \<and> header_field ?ls 0 ''object'' = Inr (th_object h) \<and>
        header_field ?ls 1 ''type'' = Inr (th_objectType h) \<and> header_field ?ls 2 ''tag'' = Inr (th_name h)"
      unfolding parseTagHeader_def header_def [symmetric] Let_def
      by (cases h; cases "header_field ?ls 0 ''object''"; cases "header_field ?ls 1 ''type''";
        cases "header_field ?ls 2 ''tag''") auto
    also have "\<dots> \<longleftrightarrow> isObjectID (th_object h) \<and> 2 < length ?ls \<and> ?ls ! 0 = ?l0 \<and> ?ls ! 1 = ?l1 \<and> ?ls ! 2 = ?l2"
      unfolding header_field_iff by auto
    also have "\<dots> \<longleftrightarrow> isObjectID (th_object h) \<and> (\<exists>ls. ?ls = ?l0 # ?l1 # ?l2 # ls)"
      by (simp only: three_first)
    finally show ?thesis .
  qed
  have "isObjectID (th_object h) \<and> (\<exists>ls. split_byte nl header = ?l0 # ?l1 # ?l2 # ls) \<longleftrightarrow>
      (\<exists>rest. payload = header_bytes h rest \<and> header_ok h rest)"
  proof
    assume a: "isObjectID (th_object h) \<and> (\<exists>ls. split_byte nl header = ?l0 # ?l1 # ?l2 # ls)"
    then obtain ls where ls: "split_byte nl header = ?l0 # ?l1 # ?l2 # ls" by blast
    have clean: "nl \<notin> set ?l1" "nl \<notin> set ?l2" 
      by (rule split_byte_no_sep [of _ _ header], unfold ls, simp)+
    define more where "more = (if ls = [] then [] else nl # join_str [nl] ls)"
    have "header = join_str [nl] (?l0 # ?l1 # ?l2 # ls)" using arg_cong [OF ls, of "join_str [nl]"] by (simp only: join_split_byte)
    then have header: "header = header_bytes h more"
      by (cases ls) (simp_all add: header_bytes_def more_def)
    obtain tail where tail: "payload = header @ tail" "tail = [] \<or> hd tail = nl"
    proof (cases "cut_str payload [nl, nl]")
      case None
      then show thesis using that [of "[]"] by (simp add: header_def)
    next
      case (Some x)
      then show thesis using that [of "nl # nl # snd x"] cut_str_Some [of payload "[nl, nl]" "fst x" "snd x"]
        by (simp add: header_def case_prod_beta)
    qed
    have "payload = header_bytes h (more @ tail)" using tail(1) header by (simp add: header_bytes_def)
    moreover have "more @ tail = [] \<or> hd (more @ tail) = nl" using tail(2) by (auto simp: more_def)
    ultimately show "\<exists>rest. payload = header_bytes h rest \<and> header_ok h rest"
      using a clean by (auto simp: header_ok_def)
  next
    assume "\<exists>rest. payload = header_bytes h rest \<and> header_ok h rest"
    then obtain rest where r: "payload = header_bytes h rest" "header_ok h rest" by blast
    have clean: "nl \<notin> set ?l0" "nl \<notin> set ?l1" "nl \<notin> set ?l2" "rest = [] \<or> hd rest = nl"
      using r(2) nl_object_id [of "th_object h"] nl_letters by (auto simp: header_ok_def)
    have "\<exists>rest'. header = header_bytes h rest' \<and> (rest' = [] \<or> hd rest' = nl)"
    proof (cases "cut_str payload [nl, nl]")
      case None
      then show ?thesis using r(1) clean(4) by (auto simp: header_def)
    next
      case (Some x)
      then have cut: "?l0 @ nl # ?l1 @ nl # ?l2 @ rest = header @ nl # nl # snd x"
        using cut_str_Some [of payload "[nl, nl]" "fst x" "snd x"] r(1)
        by (simp add: header_def header_bytes_def case_prod_beta)
      have t: "hd (?l1 @ nl # ?l2 @ rest) \<noteq> nl" "hd (?l2 @ rest) \<noteq> nl" by (simp_all add: nl_def)
      obtain h1 where h1: "header = ?l0 @ nl # h1" "?l1 @ nl # ?l2 @ rest = h1 @ nl # nl # snd x"
        using cut_past_line [OF cut clean(1) _ t(1)] by auto
      obtain h2 where h2: "h1 = ?l1 @ nl # h2" "?l2 @ rest = h2 @ nl # nl # snd x"
        using cut_past_line [OF h1(2) clean(2) _ t(2)] by auto
      obtain rest' where "h2 = ?l2 @ rest'" "rest' = [] \<or> hd rest' = nl"
        using cut_past_last [OF h2(2) clean(3,4)] by blast
      then show ?thesis using h1(1) h2(1) by (auto simp: header_bytes_def)
    qed
    then obtain rest' where "header = header_bytes h rest'" "rest' = [] \<or> hd rest' = nl" by blast
    then have "\<exists>ls. split_byte nl header = ?l0 # ?l1 # ?l2 # ls"
      using parse_at [of header ?l0 ?l1 ?l2 rest'] clean(1-3) by (simp add: header_bytes_def)
    then show "isObjectID (th_object h) \<and> (\<exists>ls. split_byte nl header = ?l0 # ?l1 # ?l2 # ls)"
      using r(2) by (simp add: header_ok_def)
  qed
  then show ?thesis using p by simp
qed

text \<open>
  A tag is accepted under a name exactly when its last signature is accepted in git's
  namespace over the payload before it, and that signed payload opens with the header of a
  commit's tag of this very name: the commit returned is the one that was signed.
\<close>

theorem VerifyTag_iff:
  "VerifyTag P now (Some a) object name opts = Inr (r, t) \<longleftrightarrow>
     name \<noteq> [] \<and>
     (\<exists>pre sig h rest. signature_at object pre sig \<and>
        Verify P now (Some a) (removeSignatureHeaders False pre) sig (opts\<lparr>op_Namespace := ''git''\<rparr>) = Inr r \<and>
        removeSignatureHeaders False pre = header_bytes h rest \<and> header_ok h rest \<and>
        th_name h = name \<and> th_objectType h = ''commit'' \<and> t = \<lparr>tg_Name = name, tg_Commit = th_object h\<rparr>)"
  (is "_ \<longleftrightarrow> name \<noteq> [] \<and> (\<exists>pre sig h rest. ?ok pre sig h rest)")
proof -
  let ?opts = "opts\<lparr>op_Namespace := ''git''\<rparr>"
  have v: "VerifyTag P now (Some a) object name opts = Inr (r, t) \<longleftrightarrow>
      name \<noteq> [] \<and> (\<exists>payload sig h. SplitTag object = (payload, Some sig) \<and>
        Verify P now (Some a) payload sig ?opts = Inr r \<and>
        parseTagHeader payload = Inr h \<and> th_name h = name \<and> th_objectType h = ''commit'' \<and>
        t = \<lparr>tg_Name = name, tg_Commit = th_object h\<rparr>)" (is "_ \<longleftrightarrow> _ \<and> (\<exists>payload sig h. ?is payload sig h)")
  proof -
    obtain payload s where sp: "SplitTag object = (payload, s)" by fastforce
    show ?thesis
    proof (cases s)
      case None
      then show ?thesis by (simp add: VerifyTag_def sp refuse_def)
    next
      case (Some sig)
      have "VerifyTag P now (Some a) object name opts = Inr (r, t) \<longleftrightarrow>
          name \<noteq> [] \<and> (\<exists>h. ?is payload sig h)"
        by (cases "Verify P now (Some a) payload sig ?opts"; cases "parseTagHeader payload")
          (auto simp: VerifyTag_def GitNamespace_def refuse_def sp Some)
      then show ?thesis by (auto simp: sp Some)
    qed
  qed
  have "(\<exists>payload sig h. ?is payload sig h) \<longleftrightarrow> (\<exists>pre sig h rest. ?ok pre sig h rest)"
  proof
    assume "\<exists>payload sig h. ?is payload sig h"
    then obtain payload sig h where i: "?is payload sig h" by blast
    obtain pre where "signature_at object pre sig" "payload = removeSignatureHeaders False pre"
      using i SplitTag_signature by blast
    moreover obtain rest where "payload = header_bytes h rest" "header_ok h rest" using i parseTagHeader_iff by blast
    ultimately have "?ok pre sig h rest" using i by simp
    then show "\<exists>pre sig h rest. ?ok pre sig h rest" by blast
  next
    assume "\<exists>pre sig h rest. ?ok pre sig h rest"
    then obtain pre sig h rest where o: "?ok pre sig h rest" by blast
    have "SplitTag object = (removeSignatureHeaders False pre, Some sig)" using o SplitTag_signature by blast
    moreover have "parseTagHeader (removeSignatureHeaders False pre) = Inr h" using o parseTagHeader_iff by blast
    ultimately have "?is (removeSignatureHeaders False pre) sig h" using o by blast
    then show "\<exists>payload sig h. ?is payload sig h" by blast
  qed
  then show ?thesis using v by simp
qed

end
