(* ===== verification/SigWitness.thy ===== *)
theory SigWitness
  imports GitTag "HOL-Library.Code_Target_Nat"
begin

text \<open>
  Concrete inputs at which the hypotheses of the properties about signatures hold: a file with
  one key, a security key whose line demands user verification, and a signature made with it.
\<close>

section \<open>A file that parses\<close>

definition plain_host :: host where
  "plain_host = \<lparr>ho_upper = \<lambda>r. r, ho_lower = \<lambda>r. r, ho_local = unix_time\<rparr>"

definition sample_file :: string where
  "sample_file = ''a ssh-ed25519 '' @ b64_enc (key_bytes sample_key)"

lemma sample_parses: "case ParseAllowedSigners all_pass plain_host [] sample_file of Inl e \<Rightarrow> False | Inr a \<Rightarrow> length (as_lines a) = 1"
  by code_simp

theorem signers_ok_witness:
  "\<exists>a. ParseAllowedSigners all_pass plain_host [] sample_file = Inr a \<and> length (as_lines a) = 1 \<and>
     list_all (line_ok all_pass) (as_lines a)"
proof -
  obtain a where "ParseAllowedSigners all_pass plain_host [] sample_file = Inr a" "length (as_lines a) = 1"
    using sample_parses by (cases "ParseAllowedSigners all_pass plain_host [] sample_file") auto
  then show ?thesis using signers_ok by blast
qed

section \<open>A signature by a security key\<close>

definition touched_auth :: authenticatorData where
  "touched_auth = \<lparr>auth_flags = 5, auth_counter = 7\<rparr>"

definition sample_sk_bytes :: string where
  "sample_sk_bytes = wire_string TypeSKEd25519 @ wire_string (zero_bytes 32) @ wire_string ''ssh:''"

definition sample_sk :: publicKey where
  "sample_sk = \<lparr>pk_typ = TypeSKEd25519, pk_blob = sample_sk_bytes,
     pk_application = ''ssh:'', pk_material = Ed25519Key (zero_bytes 32)\<rparr>"

definition sample_line :: signerLine where
  "sample_line = no_line\<lparr>sl_number := 1, sl_principals := ''a'', sl_verifyRequired := True,
     sl_key := sample_sk_bytes, sl_class := ClassFIDO\<rparr>"

definition sample_signers :: AllowedSigners where
  "sample_signers = \<lparr>as_source = [], as_lines = [sample_line]\<rparr>"

definition sample_opts :: Options where
  "sample_opts = \<lparr>op_Namespace = ''git'', op_Principal = [], op_AnyPrincipal = True,
     op_Policy = \<lparr>po_Classes = [], po_AllowNonSK = False, po_RequireUV = False\<rparr>, op_Time = Some 1\<rparr>"

definition sample_env :: envelope where
  "sample_env = \<lparr>en_publicKey = sample_sk_bytes, en_namespace = ''git'', en_hashAlg = ''sha256'',
     en_signature = wire_string TypeSKEd25519 @ wire_string (zero_bytes 64) @ auth_bytes sample_sk touched_auth\<rparr>"

definition sample_sig :: string where "sample_sig = blob_bytes sample_env []"

definition sample_result :: Result where
  "sample_result = \<lparr>rs_Signer = signer_of sample_sk touched_auth, rs_Namespace = ''git'',
     rs_Principal = ''a'', rs_Class = ClassFIDO, rs_SignerApp = []\<rparr>"

lemma sample_sk_security: "securityKey sample_sk"
  by (simp add: securityKey_def sample_sk_def)

lemma sample_sk_bytes: "key_bytes sample_sk = sample_sk_bytes"
  using sample_sk_security by (simp add: key_bytes_def) (simp add: sample_sk_def sample_sk_bytes_def)

lemma sample_sk_ok: "key_ok all_pass sample_sk"
  using sample_sk_security sample_sk_bytes
  by (simp add: key_ok_def) (simp add: sample_sk_def zero_bytes_def)

lemma sample_env_parsed: "parseSignature sample_sig = Inr sample_env"
proof -
  have "short_fields sample_env []"
    by (simp add: short_fields_def sample_env_def sample_sk_bytes_def wire_string_def auth_bytes_def
        zero_bytes_def type_defs)
  then have "parse_blob sample_sig = Inr sample_env" unfolding parse_blob_iff sample_sig_def by blast
  moreover have "\<not> has_prefix sample_sig armorBegin" unfolding sample_sig_def by (rule magic_not_armor)
  ultimately show ?thesis by (simp add: parseSignature_def)
qed

lemma sample_signs: "signs all_pass ''git'' ''m'' sample_sig sample_sk touched_auth"
proof -
  obtain data where d: "signedData ''git'' ''sha256'' ''m'' = Some data" by (simp add: signedData_def message_hash_def)
  have "genuine all_pass sample_sk data (en_signature sample_env) touched_auth"
    unfolding genuine_def using sample_sk_security
    by (simp add: auth_for_def) (simp add: sample_sk_def sample_env_def all_pass_def zero_bytes_def,
        rule exI [of _ "zero_bytes 64"], simp add: zero_bytes_def)
  then show ?thesis
    unfolding signs_def using sample_env_parsed sample_sk_ok sample_sk_bytes d
    by (intro exI [of _ sample_env]) (auto simp: sample_env_def)
qed

lemma sample_lets: "lets_sign (request_of sample_opts 0 sample_sk_bytes) sample_line"
  by (simp add: lets_sign_def lists_key_def request_of_def sample_opts_def sample_line_def no_line_def classes_def)

lemma sample_lookup:
  "lookup sample_signers (request_of sample_opts 0 sample_sk_bytes) =
     Inr \<lparr>mt_principal = ''a'', mt_class = ClassFIDO, mt_signerApp = [], mt_uvRequired = True\<rparr>"
proof -
  have "first_match (request_of sample_opts 0 sample_sk_bytes) sample_line =
      \<lparr>mt_principal = ''a'', mt_class = ClassFIDO, mt_signerApp = [], mt_uvRequired = False\<rparr>"
    by (simp add: first_match_def request_of_def sample_opts_def sample_line_def no_line_def)
  moreover have "sl_verifyRequired sample_line" by (simp add: sample_line_def)
  ultimately show ?thesis
    unfolding lookup_match using sample_lets
    by (intro exI [of _ "[]"] exI [of _ sample_line]) (simp add: sample_signers_def)
qed

lemma sample_verified: "Verify all_pass 0 (Some sample_signers) ''m'' sample_sig sample_opts = Inr sample_result"
proof -
  have u: "usage_ok sample_opts" by (simp add: usage_ok_def sample_opts_def)
  have f: "flags_ok sample_opts (signer_of sample_sk touched_auth)
      \<lparr>mt_principal = ''a'', mt_class = ClassFIDO, mt_signerApp = [], mt_uvRequired = True\<rparr>"
    using sample_sk_security
    by (simp add: flags_ok_def UserPresent_def UserVerified_def signer_of_def touched_auth_def
        FlagUserPresent_def FlagUserVerified_def)
  have b: "pk_blob sample_sk = sample_sk_bytes" by (simp add: sample_sk_def)
  show ?thesis
    unfolding verify_accepts using u f sample_signs sample_lookup b
    by (intro conjI exI [of _ sample_sk] exI [of _ touched_auth]) (auto simp: sample_result_def sample_opts_def)
qed

theorem default_policy_touched_witness: "touched all_pass ''git'' ''m'' sample_result"
  using default_policy_touched [OF sample_verified] by (simp add: sample_opts_def)

theorem uv_enforced_witness: "rs_Class sample_result = ClassFIDO \<and> UserVerified (rs_Signer sample_result)"
proof -
  have "\<exists>l \<in> set (as_lines sample_signers). sl_verifyRequired l \<and> lets_sign (request_of sample_opts 0 (en_publicKey sample_env)) l"
    using sample_lets by (simp add: sample_signers_def sample_env_def) (simp add: sample_line_def)
  then show ?thesis using uv_enforced [OF sample_verified sample_env_parsed] by blast
qed

end
