(* ===== verification/Note.thy ===== *)
theory Note
  imports Base64 GoText Sha256 "HOL-Library.Word"
begin

text \<open>
  \<^verbatim>\<open>note/note.go\<close>: the signed note an attestation travels in: verifier keys, the split of a
  note into its text and its signature lines, signing, and opening. Ed25519 is a parameter:
  the check is a function of the public key, the text and the signature, and a private key is
  its public key and its signing function.
\<close>

section \<open>Names, bytes and keys\<close>

definition newline :: char where "newline = CHR 0x0A"
definition AlgEd25519 :: char where "AlgEd25519 = CHR 0x01"
definition Mark :: string where "Mark = [CHR 0xE2, CHR 0x80, CHR 0x94, CHR '' '']"
definition StatementType :: string where "StatementType = ''the-valley/attestation/v1''"
definition signatureSize :: nat where "signatureSize = 4 + 64"

definition first_word :: "string \<Rightarrow> 32 word" where
  "first_word b = word_of_nat (foldl (\<lambda>n c. 256 * n + byte_val c) 0 (take 4 b))"

definition KeyHash :: "string \<Rightarrow> string \<Rightarrow> 32 word" where
  "KeyHash name pub = first_word (sha256 (name @ [newline] @ [AlgEd25519] @ pub))"

datatype name_error = NameEmpty | NameNotUtf8 | NameSpace | NameControl | NamePlus

definition CheckName :: "string \<Rightarrow> (name_error, unit) result" where
  "CheckName name =
     (if name = [] then Inl NameEmpty
      else if \<not> utf8_valid name then Inl NameNotUtf8
      else if list_ex is_space_rune (runes name) then Inl NameSpace
      else if list_ex is_control_rune (runes name) then Inl NameControl
      else if CHR ''+'' \<in> set name then Inl NamePlus
      else Inr ())"

datatype bytes_error = NoteNotUtf8 | NoteControl char

definition note_control :: "char \<Rightarrow> bool" where
  "note_control c \<longleftrightarrow> byte_val c < 32 \<and> c \<noteq> newline \<or> byte_val c = 127"

definition CheckBytes :: "string \<Rightarrow> (bytes_error, unit) result" where
  "CheckBytes b =
     (if \<not> utf8_valid b then Inl NoteNotUtf8
      else (case find note_control b of Some c \<Rightarrow> Inl (NoteControl c) | None \<Rightarrow> Inr ()))"

datatype text_error = TextUnended | TextBytes bytes_error

definition CheckText :: "string \<Rightarrow> (text_error, unit) result" where
  "CheckText t = (if t = [] \<or> last t \<noteq> newline then Inl TextUnended else rmap_err TextBytes (CheckBytes t))"

record VerifierKey =
  vk_Name :: string
  vk_Hash :: "32 word"
  vk_Pub :: string

definition NewVerifierKey :: "string \<Rightarrow> string \<Rightarrow> VerifierKey" where
  "NewVerifierKey name pub = \<lparr>vk_Name = name, vk_Hash = KeyHash name pub, vk_Pub = pub\<rparr>"

text \<open>\<^verbatim>\<open>%08x\<close>: the four bytes in lower-case hex.\<close>

definition word_bytes_be :: "32 word \<Rightarrow> string" where
  "word_bytes_be w = map (\<lambda>i. char_of (unat w div 256 ^ (3 - i) mod 256)) [0, 1, 2, 3]"

definition hex8 :: "32 word \<Rightarrow> string" where
  "hex8 w = hex_encode (word_bytes_be w)"

definition key_string :: "VerifierKey \<Rightarrow> string" where
  "key_string v = vk_Name v @ ''+'' @ hex8 (vk_Hash v) @ ''+'' @ b64_enc (AlgEd25519 # vk_Pub v)"

datatype key_line_error =
    NotAKey
  | KeyName name_error
  | KeyUndecoded
  | KeyNotEd25519
  | KeyHashDiffers

text \<open>\<^verbatim>\<open>strings.SplitN\<close> at the first two pluses.\<close>

definition split_plus :: "string \<Rightarrow> (string \<times> string \<times> string) option" where
  "split_plus s =
     (case cut_byte s (CHR ''+'') of
        None \<Rightarrow> None
      | Some (a, r) \<Rightarrow>
          (case cut_byte r (CHR ''+'') of None \<Rightarrow> None | Some (b, c) \<Rightarrow> Some (a, b, c)))"

definition ParseVerifierKey :: "string \<Rightarrow> (key_line_error, VerifierKey) result" where
  "ParseVerifierKey line =
     (case split_plus (trim_space line) of
        None \<Rightarrow> Inl NotAKey
      | Some (name, written, encoded) \<Rightarrow>
          rbind (rmap_err KeyName (CheckName name)) (\<lambda>_.
            case b64_lax encoded of
              None \<Rightarrow> Inl KeyUndecoded
            | Some raw \<Rightarrow>
                if length raw \<noteq> 1 + 32 \<or> hd raw \<noteq> AlgEd25519 then Inl KeyNotEd25519
                else
                  let v = NewVerifierKey name (tl raw)
                  in if hex8 (vk_Hash v) \<noteq> written then Inl KeyHashDiffers else Inr v))"

text \<open>The loop of \<^verbatim>\<open>ParseVerifierKeys\<close>, with the number of the line that comes next.\<close>

fun parse_keys :: "nat \<Rightarrow> string list \<Rightarrow> (nat \<times> key_line_error, VerifierKey list) result" where
  "parse_keys n [] = Inr []"
| "parse_keys n (l # ls) =
     (let line = trim_space l
      in if line = [] \<or> has_prefix line ''#'' then parse_keys (n + 1) ls
         else rbind (rmap_err (\<lambda>e. (n, e)) (ParseVerifierKey line)) (\<lambda>v.
                rbind (parse_keys (n + 1) ls) (\<lambda>vs. Inr (v # vs))))"

definition ParseVerifierKeys :: "string \<Rightarrow> (nat \<times> key_line_error, VerifierKey list) result" where
  "ParseVerifierKeys data = parse_keys 1 (split_byte newline data)"

section \<open>Splitting a note\<close>

record Signature =
  si_Name :: string
  si_Hash :: "32 word"
  si_Sig :: string
  si_Line :: string

datatype sig_line_error =
    NoMark
  | NoSignature
  | SignerName name_error
  | SignatureUndecoded
  | SignatureSize nat

definition parse_sig_line :: "string \<Rightarrow> (sig_line_error, Signature) result" where
  "parse_sig_line line =
     (case cut_prefix line Mark of
        None \<Rightarrow> Inl NoMark
      | Some rest \<Rightarrow>
          (case cut_byte rest (CHR '' '') of
             None \<Rightarrow> Inl NoSignature
           | Some (name, encoded) \<Rightarrow>
               rbind (rmap_err SignerName (CheckName name)) (\<lambda>_.
                 case b64_lax encoded of
                   None \<Rightarrow> Inl SignatureUndecoded
                 | Some blob \<Rightarrow>
                     if length blob \<noteq> signatureSize then Inl (SignatureSize (length blob))
                     else Inr \<lparr>si_Name = name, si_Hash = first_word blob, si_Sig = drop 4 blob, si_Line = line\<rparr>)))"

datatype note_error =
    NoteBytes bytes_error
  | NoBlankLine
  | NoteText text_error
  | NoSignatureBlock
  | BadSignatureLine sig_line_error
  | SignedTwice string
  | DoesNotVerify string
  | NoKnownSigner

definition sig_id :: "Signature \<Rightarrow> string" where
  "sig_id s = si_Name s @ ''+'' @ hex8 (si_Hash s)"

fun read_sigs :: "string list \<Rightarrow> string list \<Rightarrow> (note_error, Signature list) result" where
  "read_sigs seen [] = Inr []"
| "read_sigs seen (l # ls) =
     rbind (rmap_err BadSignatureLine (parse_sig_line l)) (\<lambda>s.
       if sig_id s \<in> set seen then Inl (SignedTwice (sig_id s))
       else rbind (read_sigs (sig_id s # seen) ls) (\<lambda>ss. Inr (s # ss)))"

definition Split :: "string \<Rightarrow> (note_error, string \<times> Signature list) result" where
  "Split note =
     rbind (rmap_err NoteBytes (CheckBytes note)) (\<lambda>_.
       case last_index_str note [newline, newline] of
         None \<Rightarrow> Inl NoBlankLine
       | Some i \<Rightarrow>
           let tx = take (i + 1) note; block = drop (i + 2) note
           in rbind (rmap_err NoteText (CheckText tx)) (\<lambda>_.
                if block = [] \<or> last block \<noteq> newline then Inl NoSignatureBlock
                else rbind (read_sigs [] (split_byte newline (trim_suffix block [newline])))
                       (\<lambda>sigs. Inr (tx, sigs))))"

section \<open>Signing and opening\<close>

record PrivateKey =
  pr_public :: string
  pr_sign :: "string \<Rightarrow> string"

definition SignatureLine :: "string \<Rightarrow> string \<Rightarrow> PrivateKey \<Rightarrow> string" where
  "SignatureLine tx name priv =
     Mark @ name @ '' '' @ b64_enc (word_bytes_be (KeyHash name (pr_public priv)) @ pr_sign priv tx) @ [newline]"

definition SignedSize :: "string \<Rightarrow> string \<Rightarrow> nat" where
  "SignedSize tx name = length tx + 1 + length Mark + length name + 1 + (signatureSize + 2) div 3 * 4 + 1"

datatype sign_error = SignText text_error | SignName name_error | SignSplit note_error

definition Sign :: "string \<Rightarrow> string \<Rightarrow> PrivateKey \<Rightarrow> (sign_error, string) result" where
  "Sign tx name priv =
     rbind (rmap_err SignText (CheckText tx)) (\<lambda>_.
       rbind (rmap_err SignName (CheckName name)) (\<lambda>_.
         Inr (tx @ [newline] @ SignatureLine tx name priv)))"

definition AddSignature :: "string \<Rightarrow> string \<Rightarrow> PrivateKey \<Rightarrow> (sign_error, string) result" where
  "AddSignature note name priv =
     rbind (rmap_err SignName (CheckName name)) (\<lambda>_.
       rbind (rmap_err SignSplit (Split note)) (\<lambda>(tx, sigs).
         if list_ex (\<lambda>s. si_Name s = name \<and> si_Hash s = KeyHash name (pr_public priv)) sigs then Inr note
         else Inr (note @ SignatureLine tx name priv)))"

record Checked =
  ck_Signature :: Signature
  ck_Known :: bool
  ck_Verified :: bool

definition held_key :: "VerifierKey list \<Rightarrow> Signature \<Rightarrow> VerifierKey option" where
  "held_key known s = find (\<lambda>k. vk_Name k = si_Name s \<and> vk_Hash k = si_Hash s) known"

text \<open>The loop over the signatures: each is checked under the first key held for it.\<close>

fun check_sigs ::
  "(string \<Rightarrow> string \<Rightarrow> string \<Rightarrow> bool) \<Rightarrow> VerifierKey list \<Rightarrow> string \<Rightarrow> Signature list \<Rightarrow> (note_error, Checked list) result" where
  "check_sigs ver known tx [] = Inr []"
| "check_sigs ver known tx (s # ss) =
     (case held_key known s of
        None \<Rightarrow>
          rbind (check_sigs ver known tx ss)
            (\<lambda>cs. Inr (\<lparr>ck_Signature = s, ck_Known = False, ck_Verified = False\<rparr> # cs))
      | Some k \<Rightarrow>
          if \<not> ver (vk_Pub k) tx (si_Sig s) then Inl (DoesNotVerify (sig_id s))
          else
            rbind (check_sigs ver known tx ss)
              (\<lambda>cs. Inr (\<lparr>ck_Signature = s, ck_Known = True, ck_Verified = True\<rparr> # cs)))"

definition Open ::
  "(string \<Rightarrow> string \<Rightarrow> string \<Rightarrow> bool) \<Rightarrow> string \<Rightarrow> VerifierKey list \<Rightarrow> (note_error, string \<times> Checked list) result" where
  "Open ver note known =
     rbind (Split note) (\<lambda>(tx, sigs).
       rbind (check_sigs ver known tx sigs) (\<lambda>cs.
         if length (filter ck_Verified cs) = 0 then Inl NoKnownSigner else Inr (tx, cs)))"

section \<open>What a statement is about\<close>

record Subject =
  sb_Scheme :: string
  sb_Digest :: string

datatype statement_error =
    StatementText text_error
  | NotAStatement
  | BadField nat
  | FieldTwice nat string
  | NoPrimary
  | NoDigest string

fun read_fields :: "nat \<Rightarrow> (string \<times> string) list \<Rightarrow> string list \<Rightarrow> (statement_error, (string \<times> string) list) result" where
  "read_fields n kvs [] = Inr kvs"
| "read_fields n kvs (l # ls) =
     (case cut_byte l (CHR '' '') of
        None \<Rightarrow> Inl (BadField n)
      | Some (key, val) \<Rightarrow>
          if key = [] \<or> val = [] then Inl (BadField n)
          else if map_of kvs key \<noteq> None then Inl (FieldTwice n key)
          else read_fields (n + 1) ((key, val) # kvs) ls)"

definition field_or_empty :: "(string \<times> string) list \<Rightarrow> string \<Rightarrow> string" where
  "field_or_empty kvs key = (case map_of kvs key of None \<Rightarrow> [] | Some v \<Rightarrow> v)"

definition StatementSubject :: "string \<Rightarrow> (statement_error, Subject) result" where
  "StatementSubject tx =
     rbind (rmap_err StatementText (CheckText tx)) (\<lambda>_.
       case split_byte newline (trim_suffix tx [newline]) of
         [] \<Rightarrow> Inl NotAStatement
       | first # rest \<Rightarrow>
           if first \<noteq> StatementType then Inl NotAStatement
           else rbind (read_fields 2 [] rest) (\<lambda>kvs.
             let scheme = field_or_empty kvs ''subject.primary'';
                 dg = field_or_empty kvs (''subject.digest.'' @ scheme)
             in if scheme = [] then Inl NoPrimary
                else if dg = [] then Inl (NoDigest scheme)
                else Inr \<lparr>sb_Scheme = scheme, sb_Digest = dg\<rparr>))"

end
