(* ===== verification/NoteRound.thy ===== *)
theory NoteRound
  imports Note
begin

text \<open>
  What the reader of notes accepts: a note splits exactly when it is its text, a blank line and
  its signature lines, it opens exactly when every signature by a held key verifies and one
  does, and what the writer writes is read back.
\<close>

section \<open>Bytes and lines\<close>

lemma CheckBytes_iff: "CheckBytes b = Inr () \<longleftrightarrow> utf8_valid b \<and> (\<forall>c \<in> set b. \<not> note_control c)"
  by (auto simp: CheckBytes_def find_None_iff dest: find_SomeD split: option.splits if_splits)

lemma CheckText_iff:
  "CheckText t = Inr () \<longleftrightarrow> t \<noteq> [] \<and> last t = newline \<and> CheckBytes t = Inr ()"
  by (simp add: CheckText_def result_simps)

lemma last_index_str_iff:
  assumes "p \<noteq> []"
  shows "last_index_str s p = Some i \<longleftrightarrow>
    (\<exists>a r. s = a @ p @ r \<and> length a = i) \<and> (\<forall>a r. s = a @ p @ r \<longrightarrow> length a \<le> i)"
    (is "_ \<longleftrightarrow> ?at s i \<and> ?lst s i")
proof (induction s arbitrary: i)
  case Nil
  then show ?case using assms by simp
next
  case (Cons x s)
  have at: "?at (x # s) (Suc j) \<longleftrightarrow> ?at s j" for j
  proof
    assume "?at (x # s) (Suc j)"
    then obtain a r where "x # s = a @ p @ r" "length a = Suc j" by blast
    then show "?at s j" by (cases a) auto
  next
    assume "?at s j"
    then obtain a r where "s = a @ p @ r" "length a = j" by blast
    then have "x # s = (x # a) @ p @ r \<and> length (x # a) = Suc j" by simp
    then show "?at (x # s) (Suc j)" by blast
  qed
  have lst: "?lst (x # s) (Suc j) \<longleftrightarrow> ?lst s j" for j
  proof
    assume l: "?lst (x # s) (Suc j)"
    show "?lst s j"
    proof (intro allI impI)
      fix a r assume "s = a @ p @ r"
      then have "x # s = (x # a) @ p @ r" by simp
      then show "length a \<le> j" using l by (metis Suc_le_mono length_Cons)
    qed
  next
    assume l: "?lst s j"
    show "?lst (x # s) (Suc j)"
    proof (intro allI impI)
      fix a r assume "x # s = a @ p @ r"
      then show "length a \<le> Suc j" using l by (cases a) auto
    qed
  qed
  show ?case
  proof (cases "last_index_str s p")
    case (Some j)
    then have "?at s j" "?lst s j" using Cons by blast+
    then have "?at (x # s) (Suc j)" "?lst (x # s) (Suc j)" using at lst by blast+
    then have "?at (x # s) i \<and> ?lst (x # s) i \<longleftrightarrow> i = Suc j" by (metis le_antisym)
    then show ?thesis using Some by auto
  next
    case None
    have none: "s \<noteq> a @ p @ r" for a r
    proof
      assume s: "s = a @ p @ r"
      define n where "n = Max {length a' |a'. \<exists>r'. s = a' @ p @ r'}"
      have fin: "finite {length a' |a'. \<exists>r'. s = a' @ p @ r'}"
        by (rule finite_subset [of _ "{..length s}"]) auto
      have "n \<in> {length a' |a'. \<exists>r'. s = a' @ p @ r'}" unfolding n_def using s fin by (intro Max_in) auto
      then have "?at s n" by blast
      moreover have "?lst s n" unfolding n_def using fin by (auto intro!: Max_ge)
      ultimately have "last_index_str s p = Some n" using Cons by blast
      then show False using None by simp
    qed
    then have "\<not> ?at s j" for j by blast
    then have suc: "\<not> ?at (x # s) (Suc j)" for j using at by blast
    have zero: "?at (x # s) 0 \<longleftrightarrow> prefix p (x # s)" by (auto simp: prefix_def)
    have only: "?lst (x # s) 0"
    proof (intro allI impI)
      fix a r assume "x # s = a @ p @ r"
      then show "length a \<le> 0" using none by (cases a) auto
    qed
    show ?thesis
    proof (cases i)
      case 0
      then show ?thesis using None zero only by auto
    next
      case (Suc j)
      then show ?thesis using None suc by auto
    qed
  qed
qed

definition lines_text :: "string list \<Rightarrow> string" where
  "lines_text ls = concat (map (\<lambda>l. l @ [newline]) ls)"

lemma lines_text_Cons [simp]: "lines_text (l # ls) = l @ newline # lines_text ls"
  and lines_text_Nil [simp]: "lines_text [] = []"
  by (simp_all add: lines_text_def)

lemma join_lines: "ls \<noteq> [] \<Longrightarrow> join_str [newline] ls @ [newline] = lines_text ls"
proof (induction ls)
  case (Cons l ls)
  then show ?case by (cases ls) (auto simp: join_str_Cons)
qed simp

lemma lines_text_last: "ls \<noteq> [] \<Longrightarrow> lines_text ls \<noteq> [] \<and> last (lines_text ls) = newline"
proof (induction ls)
  case (Cons l ls)
  then show ?case by (cases ls) auto
qed simp

lemma cut_line:
  assumes "l @ newline # r = u @ newline # newline # v" "newline \<notin> set l" "l \<noteq> []"
  shows "\<exists>u'. newline # r = u' @ newline # newline # v"
  using assms(1) unfolding append_eq_append_conv2
proof (elim exE conjE disjE)
  fix w assume w: "l = u @ w" "w @ newline # r = newline # newline # v"
  then show ?thesis using assms(2) by (cases w) auto
next
  fix w assume w: "l @ w = u" "newline # r = w @ newline # newline # v"
  then show ?thesis by blast
qed

lemma no_blank_line:
  "\<forall>l \<in> set ls. l \<noteq> [] \<and> newline \<notin> set l \<Longrightarrow> newline # lines_text ls \<noteq> u @ newline # newline # v"
proof (induction ls arbitrary: u)
  case Nil
  then show ?case by (cases u) auto
next
  case (Cons l ls)
  show ?case
  proof
    assume a: "newline # lines_text (l # ls) = u @ newline # newline # v"
    have l: "l \<noteq> []" "newline \<notin> set l" using Cons(2) by auto
    then obtain u' where "l @ newline # lines_text ls = u' @ newline # newline # v"
      using a by (cases u; cases l) auto
    then obtain u'' where "newline # lines_text ls = u'' @ newline # newline # v" using cut_line l by blast
    then show False using Cons by auto
  qed
qed

section \<open>Splitting\<close>

lemma mark_clean: "newline \<notin> set Mark" "Mark \<noteq> []" "CHR ''+'' \<notin> set Mark"
  by (simp_all add: Mark_def newline_def)

lemma parse_sig_line_keeps: "parse_sig_line l = Inr s \<Longrightarrow> si_Line s = l \<and> l \<noteq> []"
  using mark_clean(2)
  by (auto simp: parse_sig_line_def result_simps split: option.splits if_splits)

lemma read_sigs_iff:
  "read_sigs seen ls = Inr ss \<longleftrightarrow>
     ls = map si_Line ss \<and> (\<forall>s \<in> set ss. parse_sig_line (si_Line s) = Inr s) \<and>
     distinct (map sig_id ss) \<and> set (map sig_id ss) \<inter> set seen = {}"
proof (induction ls arbitrary: seen ss)
  case Nil
  then show ?case by auto
next
  case (Cons l ls)
  show ?case
  proof
    assume "read_sigs seen (l # ls) = Inr ss"
    then obtain s ss' where s: "parse_sig_line l = Inr s" "sig_id s \<notin> set seen"
      "read_sigs (sig_id s # seen) ls = Inr ss'" "ss = s # ss'"
      by (auto simp: result_simps split: if_splits)
    then show "l # ls = map si_Line ss \<and> (\<forall>s \<in> set ss. parse_sig_line (si_Line s) = Inr s) \<and>
        distinct (map sig_id ss) \<and> set (map sig_id ss) \<inter> set seen = {}"
      using Cons [of "sig_id s # seen" ss'] parse_sig_line_keeps [OF s(1)] by auto
  next
    assume a: "l # ls = map si_Line ss \<and> (\<forall>s \<in> set ss. parse_sig_line (si_Line s) = Inr s) \<and>
        distinct (map sig_id ss) \<and> set (map sig_id ss) \<inter> set seen = {}"
    then obtain s ss' where ss: "ss = s # ss'" by (cases ss) auto
    then have "read_sigs (sig_id s # seen) ls = Inr ss'" using a Cons [of "sig_id s # seen" ss'] by auto
    then show "read_sigs seen (l # ls) = Inr ss" using a ss by auto
  qed
qed

text \<open>A note as written: its text, a blank line, and the lines of its signatures.\<close>

definition note_bytes :: "string \<Rightarrow> Signature list \<Rightarrow> string" where
  "note_bytes tx sigs = tx @ newline # lines_text (map si_Line sigs)"

definition sigs_ok :: "Signature list \<Rightarrow> bool" where
  "sigs_ok sigs \<longleftrightarrow>
     sigs \<noteq> [] \<and> (\<forall>s \<in> set sigs. parse_sig_line (si_Line s) = Inr s \<and> newline \<notin> set (si_Line s)) \<and>
     distinct (map sig_id sigs)"

lemma trim_newline: "b \<noteq> [] \<Longrightarrow> last b = newline \<Longrightarrow> trim_suffix b [newline] @ [newline] = b"
  by (cases b rule: rev_cases) (auto simp: trim_suffix_def suffix_def)

lemma trim_lines: "trim_suffix (b @ [newline]) [newline] = b"
  by (simp add: trim_suffix_def)

lemma Split_exact:
  "Split note = Inr (tx, sigs) \<longleftrightarrow>
     CheckBytes note = Inr () \<and> CheckText tx = Inr () \<and> sigs_ok sigs \<and> note = note_bytes tx sigs"
proof
  assume a: "Split note = Inr (tx, sigs)"
  then obtain i where i: "CheckBytes note = Inr ()" "last_index_str note [newline, newline] = Some i"
    by (auto simp: Split_def result_simps split: option.splits)
  let ?block = "drop (i + 2) note"
  have r: "tx = take (i + 1) note" "CheckText tx = Inr ()" "?block \<noteq> []" "last ?block = newline"
    "read_sigs [] (split_byte newline (trim_suffix ?block [newline])) = Inr sigs"
    using a i by (auto simp: Split_def Let_def result_simps split: if_splits)
  obtain t b where n: "note = t @ [newline, newline] @ b" "length t = i" using last_index_str_Some [OF i(2)] by auto
  have ls: "split_byte newline (trim_suffix ?block [newline]) = map si_Line sigs"
    and ok: "\<forall>s \<in> set sigs. parse_sig_line (si_Line s) = Inr s" "distinct (map sig_id sigs)"
    using r(5) by (auto simp: read_sigs_iff)
  have ne: "map si_Line sigs \<noteq> []" using ls split_byte_nonempty [of newline] by metis
  have "?block = trim_suffix ?block [newline] @ [newline]" using trim_newline r(3,4) by metis
  also have "\<dots> = lines_text (map si_Line sigs)"
    using join_lines [OF ne] join_split_byte [of newline] unfolding ls [symmetric] by metis
  finally have "note = note_bytes tx sigs" using n r(1) by (simp add: note_bytes_def)
  moreover have "sigs_ok sigs"
  proof -
    have "newline \<notin> set l" if "l \<in> set (map si_Line sigs)" for l
      using that split_byte_no_sep [of l newline] unfolding ls [symmetric] by blast
    then show ?thesis unfolding sigs_ok_def using ok ne by auto
  qed
  ultimately show "CheckBytes note = Inr () \<and> CheckText tx = Inr () \<and> sigs_ok sigs \<and> note = note_bytes tx sigs"
    using i(1) r(2) by blast
next
  assume a: "CheckBytes note = Inr () \<and> CheckText tx = Inr () \<and> sigs_ok sigs \<and> note = note_bytes tx sigs"
  then obtain t where t: "tx = t @ [newline]" by (cases tx rule: rev_cases) (auto simp: CheckText_iff)
  define ls where "ls = map si_Line sigs"
  have ls: "ls \<noteq> []" "\<forall>l \<in> set ls. l \<noteq> [] \<and> newline \<notin> set l"
    using a parse_sig_line_keeps by (auto simp: ls_def sigs_ok_def)
  have n: "note = t @ [newline, newline] @ lines_text ls" using a t by (simp add: note_bytes_def ls_def)
  have "length u \<le> length t" if u: "note = u @ [newline, newline] @ v" for u v
  proof (rule ccontr)
    assume "\<not> length u \<le> length t"
    then have "drop (length t + 1) (u @ [newline, newline] @ v) = drop (length t + 1) u @ [newline, newline] @ v" by simp
    moreover have "drop (length t + 1) note = newline # lines_text ls" using n by simp
    ultimately have "newline # lines_text ls = drop (length t + 1) u @ newline # newline # v" using u by simp
    then show False using no_blank_line [OF ls(2)] by blast
  qed
  then have idx: "last_index_str note [newline, newline] = Some (length t)"
    using n by (subst last_index_str_iff) auto
  have "split_byte newline (join_str [newline] ls) = ls" using ls by (intro split_join_byte) auto
  then have "read_sigs [] (split_byte newline (trim_suffix (lines_text ls) [newline])) = Inr sigs"
    using a join_lines [OF ls(1)] trim_lines [of "join_str [newline] ls"] by (simp add: read_sigs_iff sigs_ok_def ls_def)
  moreover have "take (length t + 1) note = tx" "drop (length t + 2) note = lines_text ls" using n t by simp_all
  moreover have "CheckBytes note = Inr ()" "CheckText tx = Inr ()" using a by blast+
  ultimately show "Split note = Inr (tx, sigs)"
    using idx lines_text_last [OF ls(1)] by (simp add: Split_def)
qed

text \<open>
  A note is read exactly when it is its text, which ends with a newline, a blank line, and
  one or more lines that each are a signature line of its own signer and key, in valid UTF-8
  with no control character; so a note has one text and one list of signatures.
\<close>

theorem Split_iff:
  "Split note = Inr (tx, sigs) \<longleftrightarrow>
     CheckBytes note = Inr () \<and> CheckText tx = Inr () \<and> sigs_ok sigs \<and> note = note_bytes tx sigs"
  by (rule Split_exact)

section \<open>Opening\<close>

definition check_of :: "VerifierKey list \<Rightarrow> Signature \<Rightarrow> Checked" where
  "check_of known s =
     \<lparr>ck_Signature = s, ck_Known = (held_key known s \<noteq> None), ck_Verified = (held_key known s \<noteq> None)\<rparr>"

text \<open>A signature by a key the reader holds verifies under it.\<close>

definition genuine :: "(string \<Rightarrow> string \<Rightarrow> string \<Rightarrow> bool) \<Rightarrow> VerifierKey list \<Rightarrow> string \<Rightarrow> Signature \<Rightarrow> bool" where
  "genuine ver known tx s \<longleftrightarrow>
     (case held_key known s of None \<Rightarrow> True | Some k \<Rightarrow> ver (vk_Pub k) tx (si_Sig s))"

lemma genuine_iff: "genuine ver known tx s \<longleftrightarrow> (\<forall>k. held_key known s = Some k \<longrightarrow> ver (vk_Pub k) tx (si_Sig s))"
  by (simp add: genuine_def split: option.split)

lemma check_sigs_iff:
  "check_sigs ver known tx ss = Inr cs \<longleftrightarrow>
     (\<forall>s \<in> set ss. \<forall>k. held_key known s = Some k \<longrightarrow> ver (vk_Pub k) tx (si_Sig s)) \<and> cs = map (check_of known) ss"
proof (induction ss arbitrary: cs)
  case (Cons s ss)
  then show ?case
    by (cases "held_key known s") (auto simp: result_simps check_of_def)
qed auto

lemma opened:
  "Open ver note known = Inr (tx, cs) \<longleftrightarrow>
     (\<exists>sigs. CheckBytes note = Inr () \<and> CheckText tx = Inr () \<and> sigs_ok sigs \<and> note = note_bytes tx sigs \<and>
        (\<forall>s \<in> set sigs. \<forall>k. held_key known s = Some k \<longrightarrow> ver (vk_Pub k) tx (si_Sig s)) \<and>
        (\<exists>s \<in> set sigs. held_key known s \<noteq> None) \<and> cs = map (check_of known) sigs)"
proof -
  have none: "filter ck_Verified (map (check_of known) sigs) = [] \<longleftrightarrow> (\<forall>s \<in> set sigs. held_key known s = None)" for sigs
    by (auto simp: filter_empty_conv check_of_def simp del: filter_map)
  have "Open ver note known = Inr (tx, cs) \<longleftrightarrow>
      (\<exists>sigs. Split note = Inr (tx, sigs) \<and>
        (\<forall>s \<in> set sigs. \<forall>k. held_key known s = Some k \<longrightarrow> ver (vk_Pub k) tx (si_Sig s)) \<and>
        (\<exists>s \<in> set sigs. held_key known s \<noteq> None) \<and> cs = map (check_of known) sigs)"
    by (auto simp: Open_def result_simps check_sigs_iff none simp del: filter_map)
  then show ?thesis unfolding Split_exact by blast
qed

text \<open>
  C17: a note opens exactly when it is well formed, at least one of its signatures is by a key
  the reader holds, and every signature by such a key verifies over the text: one good
  signature never carries a forgery beside it.
\<close>

theorem Open_iff:
  "Open ver note known = Inr (tx, cs) \<longleftrightarrow>
     (\<exists>sigs. CheckBytes note = Inr () \<and> CheckText tx = Inr () \<and> sigs_ok sigs \<and> note = note_bytes tx sigs \<and>
        list_all (genuine ver known tx) sigs \<and> list_ex (\<lambda>s. held_key known s \<noteq> None) sigs \<and>
        cs = map (check_of known) sigs)"
  unfolding opened by (simp add: genuine_iff list_all_iff list_ex_iff)

section \<open>Keys and signatures as written\<close>

lemma length_word_bytes [simp]: "length (word_bytes_be w) = 4"
  by (simp add: word_bytes_be_def)

lemma word_bytes_value: "foldl (\<lambda>n c. 256 * n + byte_val c) 0 (word_bytes_be w) = unat w"
proof -
  define n where "n = unat w"
  have "n < 4294967296" unfolding n_def using unsigned_less [of w] by simp
  then have top: "n div 256 div 256 div 256 < 256" by (simp add: div_mult2_eq [symmetric])
  have e: "n div 65536 = n div 256 div 256" "n div 16777216 = n div 256 div 256 div 256"
    by (simp_all add: div_mult2_eq [symmetric])
  have b: "byte_val (char_of (k mod 256)) = k mod 256" for k :: nat by (simp add: byte_val_def)
  have step: "256 * (k div 256) + k mod 256 = k" for k :: nat by simp
  have l: "word_bytes_be w =
      [char_of (n div 256 div 256 div 256), char_of (n div 256 div 256 mod 256),
       char_of (n div 256 mod 256), char_of (n mod 256)]"
    using top by (simp add: word_bytes_be_def n_def [symmetric] e)
  have c: "byte_val (char_of (n div 256 div 256 div 256)) = n div 256 div 256 div 256"
    using top by (rule byte_val_char_of)
  show ?thesis unfolding l foldl.simps c b mult_0_right add_0_left step by (rule n_def)
qed

lemma first_word_bytes: "first_word (word_bytes_be w @ r) = w"
  by (simp add: first_word_def word_bytes_value)

lemma cut_byte_at: "c \<notin> set a \<Longrightarrow> cut_byte (a @ c # b) c = Some (a, b)"
  by (simp add: cut_byte_Some)

lemma hex8_clean: "c \<in> set (hex8 w) \<Longrightarrow> is_lower_hex c"
  using hex_encode_lower unfolding hex8_def by blast

lemma plus_not_hex: "CHR ''+'' \<notin> set (hex8 w)"
  using hex8_clean [of "CHR ''+''" w] by (auto simp: is_lower_hex_def byte_val_def)

lemma CheckName_iff:
  "CheckName name = Inr () \<longleftrightarrow>
     name \<noteq> [] \<and> utf8_valid name \<and> (\<forall>r \<in> set (runes name). \<not> is_space_rune r \<and> \<not> is_control_rune r) \<and>
     CHR ''+'' \<notin> set name"
  by (auto simp: CheckName_def list_ex_iff)

text \<open>An ASCII byte of valid UTF-8 is a rune of it.\<close>

lemma ascii_rune: "utf8_valid s \<Longrightarrow> c \<in> set s \<Longrightarrow> byte_val c < 128 \<Longrightarrow> byte_val c \<in> set (runes s)"
proof (induction s rule: utf8_induct)
  case (rune w t)
  have "byte_val c \<in> set (runes w)" if "c \<in> set w"
  proof (cases "length w = 1")
    case True
    then have "w = [c]" using that by (cases w) auto
    then show ?thesis using rune.prems(2) by (simp add: runes_def chunks_ascii rune_of_def)
  next
    case False
    then show ?thesis using rune_not_ascii [OF rune.hyps(1) False that] rune.prems(2) by simp
  qed
  moreover have "set (runes (w @ t)) = set (runes w) \<union> set (runes t)"
    using chunks_rune [OF rune.hyps(1), of t] chunks_rune [OF rune.hyps(1), of "[]"] by (simp add: runes_def)
  ultimately show ?case using rune by auto
qed simp

lemma low_rune: "n \<le> 32 \<or> n = 127 \<Longrightarrow> is_space_rune n \<or> is_control_rune n"
  by (cases "n = 32") (auto simp: is_space_rune_def is_control_rune_def)

lemma name_clean:
  assumes "CheckName name = Inr ()"
  shows "c \<in> set name \<Longrightarrow> 32 < byte_val c \<and> byte_val c \<noteq> 127"
proof (rule ccontr)
  assume c: "c \<in> set name" and n: "\<not> (32 < byte_val c \<and> byte_val c \<noteq> 127)"
  have v: "utf8_valid name" and r: "\<forall>r \<in> set (runes name). \<not> is_space_rune r \<and> \<not> is_control_rune r"
    using assms unfolding CheckName_iff by blast+
  have "byte_val c < 128" using n by linarith
  then have "byte_val c \<in> set (runes name)" using ascii_rune [OF v c] by blast
  then show False using n r low_rune [of "byte_val c"] by force
qed

lemma name_no_space: "CheckName name = Inr () \<Longrightarrow> CHR '' '' \<notin> set name"
  using name_clean [of name "CHR '' ''"] by (auto simp: byte_val_def)

definition priv_ok :: "PrivateKey \<Rightarrow> string \<Rightarrow> bool" where
  "priv_ok priv tx \<longleftrightarrow> length (pr_sign priv tx) = 64"

definition signature_by :: "string \<Rightarrow> string \<Rightarrow> PrivateKey \<Rightarrow> Signature" where
  "signature_by tx name priv =
     \<lparr>si_Name = name, si_Hash = KeyHash name (pr_public priv), si_Sig = pr_sign priv tx,
      si_Line = Mark @ name @ '' '' @ b64_enc (word_bytes_be (KeyHash name (pr_public priv)) @ pr_sign priv tx)\<rparr>"

lemma SignatureLine_eq: "SignatureLine tx name priv = si_Line (signature_by tx name priv) @ [newline]"
  by (simp add: SignatureLine_def signature_by_def)

lemma signature_line_read:
  assumes "CheckName name = Inr ()" "priv_ok priv tx"
  shows "parse_sig_line (si_Line (signature_by tx name priv)) = Inr (signature_by tx name priv)"
proof -
  let ?b = "word_bytes_be (KeyHash name (pr_public priv)) @ pr_sign priv tx"
  have "cut_prefix (Mark @ name @ '' '' @ b64_enc ?b) Mark = Some (name @ CHR '' '' # b64_enc ?b)" by simp
  moreover have "cut_byte (name @ CHR '' '' # b64_enc ?b) (CHR '' '') = Some (name, b64_enc ?b)"
    by (rule cut_byte_at) (rule name_no_space [OF assms(1)])
  ultimately show ?thesis
    using assms by (simp add: parse_sig_line_def signature_by_def b64_lax_enc priv_ok_def signatureSize_def first_word_bytes)
qed

lemma printable: "32 \<le> byte_val c \<and> byte_val c \<noteq> 127 \<Longrightarrow> \<not> note_control c \<and> c \<noteq> newline"
  by (cases "c = newline") (simp_all add: note_control_def newline_def byte_val_def)

lemma signature_line_clean:
  assumes "CheckName name = Inr ()"
  shows "\<forall>c \<in> set (si_Line (signature_by tx name priv)). \<not> note_control c \<and> c \<noteq> newline"
    and "utf8_valid (si_Line (signature_by tx name priv) @ t) \<longleftrightarrow> utf8_valid t"
proof -
  let ?e = "b64_enc (word_bytes_be (KeyHash name (pr_public priv)) @ pr_sign priv tx)"
  have line: "si_Line (signature_by tx name priv) = Mark @ name @ CHR '' '' # ?e" by (simp add: signature_by_def)
  have e: "\<forall>c \<in> set ?e. byte_val c < 128 \<and> 32 < byte_val c \<and> byte_val c \<noteq> 127" using b64_enc_clean by blast
  have nm: "\<forall>c \<in> set name. 32 < byte_val c \<and> byte_val c \<noteq> 127" using name_clean [OF assms] by blast
  have mk: "\<forall>c \<in> set (Mark @ '' ''). 32 \<le> byte_val c \<and> byte_val c \<noteq> 127" by (simp add: Mark_def byte_val_def)
  have "\<forall>c \<in> set (Mark @ name @ CHR '' '' # ?e). 32 \<le> byte_val c \<and> byte_val c \<noteq> 127"
    using e nm mk by auto
  then show "\<forall>c \<in> set (si_Line (signature_by tx name priv)). \<not> note_control c \<and> c \<noteq> newline"
    unfolding line using printable by blast
  have "is_rune [CHR 0xE2, CHR 0x80, CHR 0x94]"
    by (simp add: is_rune_def utf8_len_def byte_val_def second_lo_def second_hi_def)
  then have "utf8_valid Mark" using utf8_valid_rune [of "[CHR 0xE2, CHR 0x80, CHR 0x94]" "'' ''"]
    by (simp add: Mark_def byte_val_def)
  moreover have "utf8_valid name" using assms by (simp add: CheckName_iff)
  moreover have "utf8_valid (CHR '' '' # ?e)" using utf8_valid_all_ascii e by (simp add: byte_val_def)
  ultimately show "utf8_valid (si_Line (signature_by tx name priv) @ t) \<longleftrightarrow> utf8_valid t"
    unfolding line append_assoc using utf8_valid_append by blast
qed

section \<open>Written notes are read\<close>

lemma written_bytes:
  assumes "CheckText tx = Inr ()" "CheckName name = Inr ()" "CheckBytes (tx @ [newline] @ t) = Inr ()"
  shows "CheckBytes (tx @ [newline] @ t @ si_Line (signature_by u name priv) @ [newline]) = Inr ()"
proof -
  let ?l = "si_Line (signature_by u name priv)"
  have v: "utf8_valid (tx @ [newline] @ t)" and c: "\<forall>c \<in> set (tx @ [newline] @ t). \<not> note_control c"
    using assms(3) unfolding CheckBytes_iff by blast+
  have nl: "utf8_valid [newline]" "\<not> note_control newline" by (simp_all add: newline_def byte_val_def note_control_def)
  have "utf8_valid ((tx @ [newline] @ t) @ ?l @ [newline])"
    using utf8_valid_append [OF v] signature_line_clean(2) [OF assms(2)] nl(1) by blast
  moreover have "\<forall>c \<in> set ((tx @ [newline] @ t) @ ?l @ [newline]). \<not> note_control c"
    using c signature_line_clean(1) [OF assms(2)] nl(2) by auto
  ultimately show ?thesis unfolding CheckBytes_iff append_assoc by blast
qed

lemma signed_note:
  assumes "Sign tx name priv = Inr note" "priv_ok priv tx"
  shows "Split note = Inr (tx, [signature_by tx name priv])"
proof -
  have t: "CheckText tx = Inr ()" and n: "CheckName name = Inr ()"
    and nt: "note = tx @ [newline] @ SignatureLine tx name priv"
    using assms(1) by (auto simp: Sign_def result_simps)
  have "CheckBytes (tx @ [newline]) = Inr ()"
  proof -
    have "utf8_valid tx" "\<forall>c \<in> set tx. \<not> note_control c" using t by (auto simp: CheckText_iff CheckBytes_iff)
    then show ?thesis unfolding CheckBytes_iff
      by (auto simp: utf8_valid_append newline_def byte_val_def note_control_def)
  qed
  then have b: "CheckBytes note = Inr ()"
    using written_bytes [OF t n, of "[]" tx priv] unfolding nt SignatureLine_eq by simp
  have "sigs_ok [signature_by tx name priv]"
    using signature_line_read [OF n assms(2)] signature_line_clean(1) [OF n] unfolding sigs_ok_def by auto
  moreover have "note = note_bytes tx [signature_by tx name priv]"
    unfolding nt note_bytes_def SignatureLine_eq by simp
  ultimately show ?thesis using b t unfolding Split_exact by blast
qed

lemma added_note:
  assumes "AddSignature note name priv = Inr note'" "Split note = Inr (tx, sigs)" "priv_ok priv tx"
    "\<forall>s \<in> set sigs. sig_id s \<noteq> sig_id (signature_by tx name priv)"
  shows "Split note' = Inr (tx, sigs @ [signature_by tx name priv])"
proof -
  let ?s = "signature_by tx name priv"
  have n: "CheckName name = Inr ()" using assms(1) by (auto simp: AddSignature_def result_simps)
  have "\<not> list_ex (\<lambda>s. si_Name s = name \<and> si_Hash s = KeyHash name (pr_public priv)) sigs"
    using assms(4) by (auto simp: list_ex_iff sig_id_def signature_by_def)
  then have nt': "note' = note @ si_Line ?s @ [newline]"
    using assms(1,2) n by (simp add: AddSignature_def result_simps SignatureLine_eq)
  have a: "CheckBytes note = Inr ()" "CheckText tx = Inr ()" "sigs_ok sigs" "note = note_bytes tx sigs"
    using assms(2) unfolding Split_exact by blast+
  have "CheckBytes note' = Inr ()"
    using written_bytes [OF a(2) n, of "lines_text (map si_Line sigs)" tx priv] a(1)
    unfolding nt' a(4) note_bytes_def by simp
  moreover have "sigs_ok (sigs @ [?s])"
    using a(3) assms(4) signature_line_read [OF n assms(3)] signature_line_clean(1) [OF n]
    unfolding sigs_ok_def by force
  moreover have "note' = note_bytes tx (sigs @ [?s])"
    unfolding nt' a(4) note_bytes_def lines_text_def by simp
  ultimately show ?thesis using a(2) unfolding Split_exact by blast
qed

lemma signed_opens:
  assumes "Sign tx name priv = Inr note" "priv_ok priv tx" "ver (pr_public priv) tx (pr_sign priv tx)"
  shows "Open ver note [NewVerifierKey name (pr_public priv)] =
      Inr (tx, [check_of [NewVerifierKey name (pr_public priv)] (signature_by tx name priv)])"
proof -
  have "Split note = Inr (tx, [signature_by tx name priv])" by (rule signed_note [OF assms(1,2)])
  moreover have "held_key [NewVerifierKey name (pr_public priv)] (signature_by tx name priv) =
      Some (NewVerifierKey name (pr_public priv))"
    by (simp add: held_key_def NewVerifierKey_def signature_by_def)
  ultimately show ?thesis
    using assms(3) by (simp add: Open_def check_of_def NewVerifierKey_def signature_by_def)
qed

text \<open>
  C35: a note the writer signs opens under the verifier key of its signer, to the text that was
  signed and one verified signature.
\<close>

theorem Sign_Open:
  assumes "Sign tx name priv = Inr note" "priv_ok priv tx" "ver (pr_public priv) tx (pr_sign priv tx)"
  shows "Open ver note [NewVerifierKey name (pr_public priv)] =
      Inr (tx, [check_of [NewVerifierKey name (pr_public priv)] (signature_by tx name priv)])"
  by (rule signed_opens [where ver = ver, OF assms])

text \<open>A note signed at one concrete text, by a key whose signature is 64 zero bytes.\<close>

definition sample_priv :: PrivateKey where
  "sample_priv = \<lparr>pr_public = replicate 32 (CHR ''k''), pr_sign = (\<lambda>t. replicate 64 (CHR 0x00))\<rparr>"

definition sample_text :: string where
  "sample_text = ''hello'' @ [newline]"

lemma Sign_Open_witness:
  "Open (\<lambda>pub t s. t = sample_text) (sample_text @ [newline] @ SignatureLine sample_text ''n'' sample_priv)
      [NewVerifierKey ''n'' (pr_public sample_priv)] =
    Inr (sample_text, [check_of [NewVerifierKey ''n'' (pr_public sample_priv)] (signature_by sample_text ''n'' sample_priv)])"
proof (rule Sign_Open)
  have "CheckText sample_text = Inr ()"
    by (simp add: CheckText_iff CheckBytes_iff sample_text_def newline_def byte_val_def note_control_def)
  moreover have "CheckName ''n'' = Inr ()"
    by (simp add: CheckName_iff byte_val_def runes_def chunks_ascii rune_of_def is_space_rune_def is_control_rune_def)
  ultimately show "Sign sample_text ''n'' sample_priv =
      Inr (sample_text @ [newline] @ SignatureLine sample_text ''n'' sample_priv)"
    by (simp add: Sign_def)
qed (simp_all add: priv_ok_def sample_priv_def)

lemma length_b64_enc: "length (b64_enc s) = (length s + 2) div 3 * 4"
proof (induction s rule: b64_enc.induct)
  case (4 x y z r)
  have "(3 + length r + 2) div 3 = Suc ((length r + 2) div 3)" by presburger
  then show ?case using 4 by (simp add: add.commute)
qed auto

lemma Sign_size:
  assumes "Sign tx name priv = Inr note" "priv_ok priv tx"
  shows "length note = SignedSize tx name"
  using assms
  by (auto simp: Sign_def result_simps SignatureLine_def SignedSize_def signatureSize_def priv_ok_def length_b64_enc)

text \<open>
  The last two bits of the encoded signature are not read: a line and its variant differ and
  carry one signature.
\<close>

definition line_with :: "string \<Rightarrow> string" where
  "line_with e = Mark @ ''n '' @ replicate 88 (CHR ''A'') @ e"

lemma sig_line_twice:
  "line_with ''AAA='' \<noteq> line_with ''AAB='' \<and>
   (\<exists>s t. parse_sig_line (line_with ''AAA='') = Inr s \<and> parse_sig_line (line_with ''AAB='') = Inr t \<and>
      si_Name s = si_Name t \<and> si_Hash s = si_Hash t \<and> si_Sig s = si_Sig t)"
proof -
  have n: "CheckName ''n'' = Inr ()"
    by (simp add: CheckName_iff byte_val_def runes_def chunks_ascii rune_of_def is_space_rune_def is_control_rune_def)
  have cut: "cut_byte (''n '' @ r) (CHR '' '') = Some (''n'', r)" for r by (simp add: cut_byte_Some)
  have d: "b64_lax (replicate 88 (CHR ''A'') @ ''AAA='') = Some (replicate 68 (CHR 0x00))"
    "b64_lax (replicate 88 (CHR ''A'') @ ''AAB='') = Some (replicate 68 (CHR 0x00))"
    by code_simp+
  have "parse_sig_line (line_with e) =
      Inr \<lparr>si_Name = ''n'', si_Hash = first_word (replicate 68 (CHR 0x00)),
        si_Sig = drop 4 (replicate 68 (CHR 0x00)), si_Line = line_with e\<rparr>"
    if "b64_lax (replicate 88 (CHR ''A'') @ e) = Some (replicate 68 (CHR 0x00))" for e
    using n that unfolding line_with_def
    by (simp add: parse_sig_line_def cut [unfolded append_Cons append_Nil] signatureSize_def
        del: cut_prefix_Some replicate_Suc)
  then show ?thesis using d by (simp add: line_with_def)
qed

text \<open>
  The reading of signature lines is not one to one: two different lines are read as the
  same signer, key and signature, since the last bits of the encoding are ignored.
\<close>

theorem parse_sig_line_not_unique:
  "line_with ''AAA='' \<noteq> line_with ''AAB='' \<and>
   (\<exists>s t. parse_sig_line (line_with ''AAA='') = Inr s \<and> parse_sig_line (line_with ''AAB='') = Inr t \<and>
      si_Name s = si_Name t \<and> si_Hash s = si_Hash t \<and> si_Sig s = si_Sig t)"
  by (rule sig_line_twice)

section \<open>Verifier keys as written\<close>

lemma trim_space_ends:
  assumes "chunks s \<noteq> []" "\<not> space_chunk (hd (chunks s))" "\<not> space_chunk (last (chunks s))"
  shows "trim_space s = s"
proof -
  have "dropWhile space_chunk (chunks s) = chunks s" using assms by (cases "chunks s") auto
  then show ?thesis using assms by (simp add: trim_space_def trim_right_list_id concat_chunks)
qed

lemma key_string_read:
  assumes "CheckName name = Inr ()" "length pub = 32"
  shows "ParseVerifierKey (key_string (NewVerifierKey name pub)) = Inr (NewVerifierKey name pub)"
proof -
  let ?v = "NewVerifierKey name pub"
  let ?e = "b64_enc (AlgEd25519 # pub)"
  let ?m = "''+'' @ hex8 (vk_Hash ?v) @ ''+'' @ ?e"
  have n: "utf8_valid name" "name \<noteq> []" "CHR ''+'' \<notin> set name"
    and r: "\<forall>r \<in> set (runes name). \<not> is_space_rune r"
    using assms(1) unfolding CheckName_iff by blast+
  have ne: "chunks name \<noteq> []" using n(2) by (metis concat.simps(1) concat_chunks)
  have e: "?e \<noteq> []" using assms(2) by (cases pub; cases "tl pub") auto
  have hex: "byte_val c < 128" if "c \<in> set (hex8 w)" for c w
    using hex8_clean [OF that] unfolding is_lower_hex_def by linarith
  have "\<forall>c \<in> set ?e. byte_val c < 128" "byte_val (CHR ''+'') < 128"
    using b64_enc_clean by (blast, simp add: byte_val_def)
  then have ascii: "\<forall>c \<in> set ?m. byte_val c < 128"
    using hex by (simp add: ball_Un)
  have ch: "chunks (name @ ?m) = chunks name @ map (\<lambda>c. [c]) ?m"
    using ascii by (simp add: chunks_append [OF n(1)] chunks_all_ascii)
  have "last ?m = last ?e" using e by simp
  then have "\<not> space_chunk [last ?m]"
    using b64_enc_clean [OF last_in_set [OF e]] by (auto simp: space_chunk_ascii)
  moreover have "\<not> space_chunk (hd (chunks name))"
    using r ne by (simp add: space_chunk_def runes_def)
  ultimately have trim: "trim_space (name @ ?m) = name @ ?m"
    using ne unfolding ch by (intro trim_space_ends) (simp_all only: ch, simp_all add: last_map e)
  have "split_plus (name @ ?m) = Some (name, hex8 (vk_Hash ?v), ?e)"
    using cut_byte_at [OF n(3)] cut_byte_at [OF plus_not_hex] by (simp add: split_plus_def)
  then show ?thesis
    using assms trim by (simp add: ParseVerifierKey_def key_string_def NewVerifierKey_def b64_lax_enc)
qed

end
