(* ===== verification/ChangeId.thy ===== *)
theory ChangeId
  imports GoText Codec
begin

text \<open>
  \<^verbatim>\<open>change/id.go\<close>: change IDs, the refs and request names that carry them, branch names, and
  the handles that stand for an ID among others. The random bytes of \<^verbatim>\<open>NewID\<close> are an argument.
\<close>

section \<open>IDs, refs and request names\<close>

definition IDLength :: nat where "IDLength = 32"
definition MinHandle :: nat where "MinHandle = 4"
definition RefPrefix :: string where "RefPrefix = ''refs/the-valley/changes/''"
definition RequestPrefix :: string where "RequestPrefix = ''c-''"

definition isIDText :: "string \<Rightarrow> bool" where
  "isIDText s = list_all (\<lambda>c. \<not> (byte_val c < byte_val CHR ''k'' \<or> byte_val CHR ''z'' < byte_val c)) s"

definition ValidID :: "string \<Rightarrow> bool" where
  "ValidID s \<longleftrightarrow> length s = IDLength \<and> isIDText s"

definition Ref :: "string \<Rightarrow> string \<Rightarrow> string" where
  "Ref target cid = RefPrefix @ target @ ''/'' @ cid"

definition RequestName :: "string \<Rightarrow> string" where
  "RequestName cid = RequestPrefix @ cid"

definition RequestID :: "string \<Rightarrow> string option" where
  "RequestID name =
     (case cut_prefix name RequestPrefix of
        None \<Rightarrow> None
      | Some cid \<Rightarrow> if \<not> ValidID cid then None else Some cid)"

definition ValidBranch :: "string \<Rightarrow> bool" where
  "ValidBranch name \<longleftrightarrow>
     (if name = [] \<or> has_suffix name ''.'' \<or> index_str name ''..'' \<noteq> None \<or> index_str name [CHR ''@'', CHR 0x7B] \<noteq> None
      then False
      else if list_ex (\<lambda>part. part = [] \<or> hd part = CHR ''.'' \<or> has_suffix part ''.lock'')
          (split_byte (CHR ''/'') name)
      then False
      else list_all
        (\<lambda>c. \<not> (byte_val c < 32 \<or> byte_val c = 127 \<or> c \<in> set ([CHR '' '', CHR ''~'', CHR ''^'', CHR '':'', CHR ''?'', CHR ''*'', CHR ''['', CHR 0x5C])))
        name)"

definition last_slash :: "string \<Rightarrow> nat option" where
  "last_slash s = last_index_str s ''/''"

definition ParseRef :: "string \<Rightarrow> (string \<times> string) option" where
  "ParseRef ref =
     (case cut_prefix ref RefPrefix of
        None \<Rightarrow> None
      | Some rest \<Rightarrow>
          (case last_slash rest of
             None \<Rightarrow> None
           | Some slash \<Rightarrow>
               let target = take slash rest; cid = drop (slash + 1) rest
               in if \<not> ValidBranch target \<or> \<not> ValidID cid then None else Some (target, cid)))"

text \<open>Each half of a byte is one letter: z for 0 down to k for 15.\<close>

definition id_letter :: "nat \<Rightarrow> char" where
  "id_letter n = char_of (byte_val CHR ''z'' - n)"

definition NewChangeID :: "string \<Rightarrow> string" where
  "NewChangeID raw = concat (map (\<lambda>b. [id_letter (byte_val b div 16), id_letter (byte_val b mod 16)]) raw)"

section \<open>Handles\<close>

fun common_length :: "string \<Rightarrow> string \<Rightarrow> nat" where
  "common_length (x # xs) (y # ys) = (if x = y then Suc (common_length xs ys) else 0)"
| "common_length _ _ = 0"

fun handle_loop :: "string \<Rightarrow> string list \<Rightarrow> nat \<Rightarrow> nat" where
  "handle_loop cid [] n = n"
| "handle_loop cid (w # among) n =
     (if w = cid then handle_loop cid among n
      else
        let common = common_length cid w
        in handle_loop cid among (if common + 1 > n then common + 1 else n))"

definition Handle :: "string \<Rightarrow> string list \<Rightarrow> string" where
  "Handle cid among =
     (let n = handle_loop cid among MinHandle
      in take (if n > length cid then length cid else n) cid)"

definition Matching :: "string \<Rightarrow> string list \<Rightarrow> string list" where
  "Matching name among =
     (if length name < MinHandle \<or> length name > IDLength \<or> \<not> isIDText name then []
      else filter (\<lambda>cid. has_prefix cid name) among)"

definition LooksLikeHandle :: "string \<Rightarrow> bool" where
  "LooksLikeHandle name \<longleftrightarrow> length name \<ge> MinHandle \<and> length name \<le> IDLength \<and> isIDText name"

section \<open>Refs and names are read back\<close>

lemma id_text_mem: "isIDText s \<Longrightarrow> c \<in> set s \<Longrightarrow> 107 \<le> byte_val c \<and> byte_val c \<le> 122"
  by (auto simp: isIDText_def list_all_iff byte_val_def)

lemma id_no_slash: "isIDText s \<Longrightarrow> CHR ''/'' \<notin> set s"
  using id_text_mem [of s "CHR ''/''"] by (auto simp: byte_val_def)

lemma id_text_append [simp]: "isIDText (s @ t) \<longleftrightarrow> isIDText s \<and> isIDText t"
  by (simp add: isIDText_def)

lemma last_slash_append: "CHR ''/'' \<notin> set b \<Longrightarrow> last_slash (a @ CHR ''/'' # b) = Some (length a)"
proof -
  have none: "last_index_str b ''/'' = None" if "CHR ''/'' \<notin> set b" for b
    using that by (induction b) auto
  show "CHR ''/'' \<notin> set b \<Longrightarrow> last_slash (a @ CHR ''/'' # b) = Some (length a)"
    unfolding last_slash_def using none by (induction a) auto
qed

lemma last_slash_Some: "last_slash s = Some i \<Longrightarrow> s = take i s @ CHR ''/'' # drop (i + 1) s"
  unfolding last_slash_def by (auto dest: last_index_str_Some)

lemma ParseRef_exact: "ParseRef ref = Some (target, cid) \<longleftrightarrow> ref = Ref target cid \<and> ValidBranch target \<and> ValidID cid"
proof
  assume "ParseRef ref = Some (target, cid)"
  then obtain rest i where r: "ref = RefPrefix @ rest" "last_slash rest = Some i"
    "target = take i rest" "cid = drop (i + 1) rest" "ValidBranch target" "ValidID cid"
    by (auto simp: ParseRef_def Let_def split: option.splits if_splits)
  then show "ref = Ref target cid \<and> ValidBranch target \<and> ValidID cid"
    using last_slash_Some [OF r(2)] by (simp add: Ref_def)
next
  assume a: "ref = Ref target cid \<and> ValidBranch target \<and> ValidID cid"
  then have "last_slash (target @ CHR ''/'' # cid) = Some (length target)"
    by (intro last_slash_append id_no_slash) (simp add: ValidID_def)
  then show "ParseRef ref = Some (target, cid)" using a by (simp add: ParseRef_def Ref_def)
qed

lemma Ref_inj: "ValidID i \<Longrightarrow> ValidID j \<Longrightarrow> Ref t i = Ref u j \<longleftrightarrow> t = u \<and> i = j"
  by (auto simp: Ref_def ValidID_def)

lemma RequestID_iff: "RequestID name = Some cid \<longleftrightarrow> name = RequestName cid \<and> ValidID cid"
  by (auto simp: RequestID_def RequestName_def split: option.splits if_splits)

section \<open>New IDs\<close>

lemma id_letter_val: "n < 16 \<Longrightarrow> byte_val (id_letter n) = 122 - n"
  by (simp add: id_letter_def byte_val_def)

lemma id_letter_inj: "n < 16 \<Longrightarrow> m < 16 \<Longrightarrow> id_letter n = id_letter m \<longleftrightarrow> n = m"
proof
  assume l: "n < 16" "m < 16" "id_letter n = id_letter m"
  then have "122 - n = 122 - m" using id_letter_val by metis
  then show "n = m" using l(1,2) by linarith
qed simp

lemma NewChangeID_Cons [simp]:
  "NewChangeID (b # raw) = id_letter (byte_val b div 16) # id_letter (byte_val b mod 16) # NewChangeID raw"
  and NewChangeID_Nil [simp]: "NewChangeID [] = []"
  by (simp_all add: NewChangeID_def)

lemma new_id_text: "isIDText (NewChangeID raw) \<and> length (NewChangeID raw) = 2 * length raw"
proof (induction raw)
  case (Cons b raw)
  have "107 \<le> 122 - n \<and> 122 - n \<le> 122" if "n < 16" for n :: nat using that by linarith
  from this [of "byte_val b div 16"] this [of "byte_val b mod 16"]
  show ?case using Cons by (simp add: isIDText_def id_letter_val byte_val_def [of "CHR ''k''"] byte_val_def [of "CHR ''z''"] not_less)
qed (simp add: isIDText_def)

lemma new_id_valid: "length raw = 16 \<Longrightarrow> ValidID (NewChangeID raw)"
  using new_id_text by (simp add: ValidID_def IDLength_def)

lemma new_id_inj: "NewChangeID r = NewChangeID s \<longleftrightarrow> r = s"
proof (induction r arbitrary: s)
  case Nil
  then show ?case by (cases s) auto
next
  case (Cons b r)
  show ?case
  proof (cases s)
    case (Cons c t)
    have "byte_val b div 16 = byte_val c div 16 \<and> byte_val b mod 16 = byte_val c mod 16 \<longleftrightarrow> b = c"
      by (metis byte_val_inj div_mult_mod_eq)
    then show ?thesis using Cons.IH Cons by (auto simp: id_letter_inj)
  qed simp
qed

section \<open>A handle is the shortest unambiguous prefix\<close>

lemma handle_loop_le:
  "handle_loop cid among n \<le> k \<longleftrightarrow> n \<le> k \<and> (\<forall>w \<in> set among. w \<noteq> cid \<longrightarrow> common_length cid w < k)"
  by (induction among arbitrary: n) (auto simp: Let_def)

lemma filter_one:
  "distinct xs \<Longrightarrow> x \<in> set xs \<Longrightarrow> P x \<Longrightarrow> filter P xs = [x] \<longleftrightarrow> (\<forall>w \<in> set xs. P w \<longrightarrow> w = x)"
  by (induction xs) (auto simp: filter_empty_conv)

lemma common_prefix: "k \<le> length cid \<Longrightarrow> prefix (take k cid) w \<longleftrightarrow> k \<le> common_length cid w"
proof (induction cid w arbitrary: k rule: common_length.induct)
  case (1 x xs y ys)
  then show ?case by (cases k) auto
qed (auto simp: take_eq_Nil)

lemma common_length_le: "common_length v w \<le> length v"
  by (induction v w rule: common_length.induct) auto

lemma common_full: "common_length v w = length v \<Longrightarrow> length v = length w \<Longrightarrow> v = w"
  by (induction v w rule: common_length.induct) (auto split: if_splits)

lemma handle_shortest:
  assumes "list_all ValidID among" "distinct among" "cid \<in> set among" "prefix h cid"
  shows "Matching h among = [cid] \<longleftrightarrow> length (Handle cid among) \<le> length h"
proof -
  have len: "\<forall>w \<in> set among. length w = 32" "isIDText cid" "length cid = 32"
    using assms(1,3) by (auto simp: list_all_iff ValidID_def IDLength_def)
  have h: "h = take (length h) cid" "length h \<le> 32"
    using assms(4) len(3) by (auto simp: prefix_def)
  have hid: "isIDText h" using assms(4) len(2) by (auto simp: prefix_def)
  have less: "common_length cid w < 32" if "w \<in> set among" "w \<noteq> cid" for w
    using common_length_le [of cid w] common_full [of cid w] len that by (metis le_neq_implies_less)
  then have top: "handle_loop cid among MinHandle \<le> 32" by (simp add: handle_loop_le MinHandle_def)
  then have hl: "length (Handle cid among) = handle_loop cid among MinHandle"
    using len(3) by (simp add: Handle_def Let_def)
  have pre: "has_prefix w h \<longleftrightarrow> length h \<le> common_length cid w" for w
    using common_prefix [of "length h" cid w] h(2) len(3) unfolding h(1) [symmetric] has_prefix_def by simp
  have own: "has_prefix cid h" using assms(4) by (simp add: has_prefix_def)
  have one: "filter (\<lambda>w. has_prefix w h) among = [cid] \<longleftrightarrow> (\<forall>w \<in> set among. has_prefix w h \<longrightarrow> w = cid)"
    by (rule filter_one [OF assms(2,3)]) (rule own)
  have "Matching h among = [cid] \<longleftrightarrow> 4 \<le> length h \<and> filter (\<lambda>w. has_prefix w h) among = [cid]"
    using h(2) hid by (simp add: Matching_def MinHandle_def IDLength_def)
  then have "Matching h among = [cid] \<longleftrightarrow> 4 \<le> length h \<and> (\<forall>w \<in> set among. has_prefix w h \<longrightarrow> w = cid)"
    unfolding one .
  then show ?thesis unfolding hl handle_loop_le MinHandle_def pre by (meson not_le)
qed

text \<open>
  Among distinct change IDs, a prefix of one of them stands for it alone exactly when it is
  at least as long as its handle: the handle is the shortest name that is read as this change.
\<close>

theorem Handle_shortest:
  assumes "list_all ValidID among" "distinct among" "cid \<in> set among" "prefix h cid"
  shows "Matching h among = [cid] \<longleftrightarrow> length (Handle cid among) \<le> length h"
  by (rule handle_shortest [OF assms])

definition sample_id :: string where
  "sample_id = ''nxvpwlkmqtsrzyoukklnpmqrstuvwxyz''"

lemma Handle_shortest_witness:
  "Matching ''nxvpw'' [sample_id, ''nxvpzlkmqtsrzyoukklnpmqrstuvwxyz''] = [sample_id] \<longleftrightarrow>
     length (Handle sample_id [sample_id, ''nxvpzlkmqtsrzyoukklnpmqrstuvwxyz'']) \<le> length ''nxvpw''"
proof (rule Handle_shortest)
  show "list_all ValidID [sample_id, ''nxvpzlkmqtsrzyoukklnpmqrstuvwxyz'']"
    by (simp add: sample_id_def ValidID_def IDLength_def isIDText_def byte_val_def)
qed (simp_all add: sample_id_def)

end
