(* ===== verification/ChangeJson.thy ===== *)
theory ChangeJson
  imports GoJson
begin

text \<open>
  \<^verbatim>\<open>change/json.go\<close>: the strict JSON reader change records and restack reports are read with.
  Go's reader keeps a position in the data; here the state is what follows that position. The
  position and the sentence of an error are left out, what was expected there is kept.
\<close>

section \<open>Values and errors\<close>

definition maxDepth :: nat where "maxDepth = 8"

datatype jvalue =
    JObject "(string \<times> jvalue) list"
  | JArray "jvalue list"
  | JString string
  | JNumber string
  | JLiteral string

datatype expected = AValue | AKey | AColon | CommaOrBrace | CommaOrBracket | StringEnd | AnEscape | FourHex | ADigit

datatype json_error =
    JsonNotUtf8
  | EndsWhere expected
  | HoldsWhere char expected
  | NestsTooDeep
  | KeyTwice string
  | ControlInString char
  | HalfSurrogate
  | NoSuchEscape char
  | MoreAfter

definition jfail :: "expected \<Rightarrow> string \<Rightarrow> (json_error, 'a) result" where
  "jfail what s = (case s of [] \<Rightarrow> Inl (EndsWhere what) | c # _ \<Rightarrow> Inl (HoldsWhere c what))"

lemma jfail_not_Inr [simp]: "jfail what s \<noteq> Inr x" "Inr x \<noteq> jfail what s"
  by (auto simp: jfail_def split: list.splits)

definition space :: "string \<Rightarrow> string" where
  "space s = dropWhile is_json_space s"

section \<open>Strings\<close>

definition read_hex4 :: "string \<Rightarrow> (json_error, nat \<times> string) result" where
  "read_hex4 s = (case hex4 s of None \<Rightarrow> jfail FourHex s | Some p \<Rightarrow> Inr p)"

definition is_surrogate :: "nat \<Rightarrow> bool" where
  "is_surrogate r \<longleftrightarrow> 0xD800 \<le> r \<and> r < 0xE000"

definition read_escaped_rune :: "string \<Rightarrow> (json_error, string \<times> string) result" where
  "read_escaped_rune s =
     rbind (read_hex4 s) (\<lambda>(rn, r).
       if is_surrogate rn then
         (if rn \<ge> 0xDC00 \<or> length r < 2 \<or> r ! 0 \<noteq> backslash \<or> r ! 1 \<noteq> CHR ''u'' then Inl HalfSurrogate
          else rbind (read_hex4 (drop 2 r)) (\<lambda>(low, r2).
            if \<not> (0xDC00 \<le> low \<and> low < 0xE000) then Inl HalfSurrogate
            else Inr (utf8_encode ((rn - 0xD800) * 1024 + (low - 0xDC00) + 0x10000), r2)))
       else Inr (utf8_encode rn, r))"

text \<open>What the letter after a backslash stands for.\<close>

definition read_escape :: "char \<Rightarrow> string \<Rightarrow> (json_error, string \<times> string) result" where
  "read_escape e r =
     (if e = quotation \<or> e = backslash \<or> e = CHR ''/'' then Inr ([e], r)
      else if e = CHR ''b'' then Inr ([char_of (8::nat)], r)
      else if e = CHR ''f'' then Inr ([char_of (12::nat)], r)
      else if e = CHR ''n'' then Inr ([char_of (10::nat)], r)
      else if e = CHR ''r'' then Inr ([char_of (13::nat)], r)
      else if e = CHR ''t'' then Inr ([char_of (9::nat)], r)
      else if e = CHR ''u'' then read_escaped_rune r
      else Inl (NoSuchEscape e))"

lemma read_hex4_length: "read_hex4 s = Inr (v, r) \<Longrightarrow> length r < length s"
  by (auto simp: read_hex4_def jfail_def dest!: hex4_length split: option.splits list.splits)

lemma read_escaped_rune_length: "read_escaped_rune s = Inr (w, r) \<Longrightarrow> length r < length s"
  by (auto simp: read_escaped_rune_def result_simps dest!: read_hex4_length split: if_splits)

lemma read_escape_length: "read_escape e s = Inr (w, r) \<Longrightarrow> length r \<le> length s"
  by (auto simp: read_escape_def dest!: read_escaped_rune_length split: if_splits)

text \<open>What follows the opening quote: the string, and what follows the closing quote.\<close>

function read_string :: "string \<Rightarrow> (json_error, string \<times> string) result" where
  "read_string s =
     (case s of
        [] \<Rightarrow> jfail StringEnd []
      | c # r \<Rightarrow>
          if c = quotation then Inr ([], r)
          else if byte_val c < 32 then Inl (ControlInString c)
          else if c \<noteq> backslash then rbind (read_string r) (\<lambda>(t, q). Inr (c # t, q))
          else
            (case r of
               [] \<Rightarrow> jfail AnEscape []
             | e # r1 \<Rightarrow>
                 rbind (read_escape e r1) (\<lambda>(w, r2).
                   rbind (read_string r2) (\<lambda>(t, q). Inr (w @ t, q)))))"
  by pat_completeness auto
termination
  by (relation "measure length") (auto dest!: read_escape_length)

declare read_string.simps [simp del]

section \<open>Numbers\<close>

text \<open>\<^verbatim>\<open>digits\<close>: the run of digits at the head, which has to hold one at least.\<close>

definition read_digits :: "string \<Rightarrow> string \<times> string" where
  "read_digits s = (takeWhile is_digit s, dropWhile is_digit s)"

definition read_whole :: "string \<Rightarrow> (json_error, string \<times> string) result" where
  "read_whole s =
     (case s of
        [] \<Rightarrow> jfail ADigit s
      | c # r \<Rightarrow>
          if c = CHR ''0'' then Inr ([c], r)
          else if is_digit c then Inr (read_digits s)
          else jfail ADigit s)"

definition read_fraction :: "string \<Rightarrow> (json_error, string \<times> string) result" where
  "read_fraction s =
     (case s of
        [] \<Rightarrow> Inr ([], s)
      | c # r \<Rightarrow>
          if c = CHR ''.'' then
            (case read_digits r of (ds, r2) \<Rightarrow> if ds = [] then jfail ADigit r else Inr (c # ds, r2))
          else Inr ([], s))"

definition read_exponent :: "string \<Rightarrow> (json_error, string \<times> string) result" where
  "read_exponent s =
     (case s of
        [] \<Rightarrow> Inr ([], s)
      | c # r \<Rightarrow>
          if c = CHR ''e'' \<or> c = CHR ''E'' then
            (let sign = (if r \<noteq> [] \<and> (hd r = CHR ''+'' \<or> hd r = CHR ''-'') then [hd r] else []);
                 r1 = drop (length sign) r
             in case read_digits r1 of
                  (ds, r2) \<Rightarrow> if ds = [] then jfail ADigit r1 else Inr (c # sign @ ds, r2))
          else Inr ([], s))"

definition read_number :: "string \<Rightarrow> (json_error, string \<times> string) result" where
  "read_number s =
     (let sign = (if s \<noteq> [] \<and> hd s = CHR ''-'' then [hd s] else [])
      in rbind (read_whole (drop (length sign) s)) (\<lambda>(w, r1).
           rbind (read_fraction r1) (\<lambda>(f, r2).
             rbind (read_exponent r2) (\<lambda>(e, r3). Inr (sign @ w @ f @ e, r3)))))"

section \<open>Values\<close>

definition literals :: "string list" where
  "literals = [''true'', ''false'', ''null'']"

lemma read_string_length: "read_string s = Inr (t, q) \<Longrightarrow> length q < length s"
proof (induction s arbitrary: t q rule: read_string.induct)
  case (1 s)
  show ?case
    using 1(3) 1(1,2) read_escape_length
    by (subst (asm) read_string.simps) (fastforce simp: result_simps split: list.splits if_splits)
qed

lemma length_space [simp]: "length (space s) \<le> length s"
  by (simp add: space_def length_dropWhile_le)

lemma space_shorter: "space s = c # r \<Longrightarrow> length r < length s"
  using length_space [of s] by simp

lemma member_value_shorter:
  assumes "space s = c # x" "read_string x = Inr p" "space (snd p) = c2 # y"
  shows "length (space y) < length s"
proof -
  have "length (snd p) < length x" using assms(2) read_string_length [of x "fst p" "snd p"] by simp
  then show ?thesis
    using space_shorter [OF assms(1)] space_shorter [OF assms(3)] length_space [of y] by linarith
qed

text \<open>
  A value, the members of an object and the elements of an array. The reader only ever moves
  forward; the tests of length say so to the termination proof and never fail
  (\<open>read_value_forward\<close>).
\<close>

function read_value :: "nat \<Rightarrow> string \<Rightarrow> (json_error, jvalue \<times> string) result"
  and read_members :: "nat \<Rightarrow> (string \<times> jvalue) list \<Rightarrow> string \<Rightarrow> (json_error, jvalue \<times> string) result"
  and read_elements :: "nat \<Rightarrow> jvalue list \<Rightarrow> string \<Rightarrow> (json_error, jvalue \<times> string) result"
  where
  "read_value depth s =
     (if depth > maxDepth then Inl NestsTooDeep
      else
        (case s of
           [] \<Rightarrow> jfail AValue s
         | c # r \<Rightarrow>
             if c = CHR ''{'' then
               (if space r \<noteq> [] \<and> hd (space r) = CHR ''}'' then Inr (JObject [], tl (space r))
                else read_members depth [] r)
             else if c = CHR ''['' then
               (if space r \<noteq> [] \<and> hd (space r) = CHR '']'' then Inr (JArray [], tl (space r))
                else read_elements depth [] r)
             else if c = quotation then rbind (read_string r) (\<lambda>(t, q). Inr (JString t, q))
             else if c = CHR ''-'' \<or> is_digit c then rbind (read_number s) (\<lambda>(n, q). Inr (JNumber n, q))
             else
               (case find (has_prefix s) literals of
                  Some lit \<Rightarrow> Inr (JLiteral lit, drop (length lit) s)
                | None \<Rightarrow> jfail AValue s)))"
| "read_members depth ms s =
     (case space s of
        [] \<Rightarrow> jfail AKey []
      | c # r \<Rightarrow>
          if c \<noteq> quotation then jfail AKey (c # r)
          else
            rbind (read_string r) (\<lambda>(key, s2).
              if key \<in> set (map fst ms) then Inl (KeyTwice key)
              else
                (case space s2 of
                   [] \<Rightarrow> jfail AColon []
                 | c2 # r2 \<Rightarrow>
                     if c2 \<noteq> CHR '':'' then jfail AColon (c2 # r2)
                     else
                       rbind (read_value (depth + 1) (space r2)) (\<lambda>(v, s3).
                         (case space s3 of
                            [] \<Rightarrow> jfail CommaOrBrace []
                          | c3 # r3 \<Rightarrow>
                              if c3 = CHR '','' then
                                (if length r3 < length s then read_members depth (ms @ [(key, v)]) r3
                                 else jfail CommaOrBrace [])
                              else if c3 = CHR ''}'' then Inr (JObject (ms @ [(key, v)]), r3)
                              else jfail CommaOrBrace (c3 # r3))))))"
| "read_elements depth vs s =
     rbind (read_value (depth + 1) (space s)) (\<lambda>(v, s3).
       (case space s3 of
          [] \<Rightarrow> jfail CommaOrBracket []
        | c3 # r3 \<Rightarrow>
            if c3 = CHR '','' then
              (if length r3 < length s then read_elements depth (vs @ [v]) r3
               else jfail CommaOrBracket [])
            else if c3 = CHR '']'' then Inr (JArray (vs @ [v]), r3)
            else jfail CommaOrBracket (c3 # r3)))"
  by pat_completeness auto
termination
proof (relation "measure (\<lambda>x. case x of Inl (d, s) \<Rightarrow> 2 * length s
    | Inr (Inl (d, ms, s)) \<Rightarrow> 2 * length s + 1 | Inr (Inr (d, vs, s)) \<Rightarrow> 2 * length s + 1)", goal_cases)
  case (4 d ms s c x p key s2 c2 y)
  then show ?case using member_value_shorter [of s c x p c2 y] by auto
qed (auto simp: le_imp_less_Suc)

declare read_value.simps [simp del] read_members.simps [simp del] read_elements.simps [simp del]

section \<open>The reader moves forward\<close>

lemma read_digits_length: "read_digits s = (ds, r) \<Longrightarrow> length r + length ds = length s"
  unfolding read_digits_def by (metis add.commute length_append prod.inject takeWhile_dropWhile_id)

lemma read_whole_length: "read_whole s = Inr (w, r) \<Longrightarrow> length r < length s"
proof (cases s)
  case (Cons c t)
  assume "read_whole s = Inr (w, r)"
  then show ?thesis using Cons length_dropWhile_le [of is_digit t]
    by (auto simp: read_whole_def read_digits_def split: if_splits)
qed (simp add: read_whole_def)

lemma read_fraction_length: "read_fraction s = Inr (w, r) \<Longrightarrow> length r \<le> length s"
  using length_dropWhile_le [of is_digit "tl s"]
  by (auto simp: read_fraction_def read_digits_def split: list.splits if_splits prod.splits)

lemma read_exponent_length: "read_exponent s = Inr (w, r) \<Longrightarrow> length r \<le> length s"
proof (cases s)
  case (Cons c t)
  assume "read_exponent s = Inr (w, r)"
  then show ?thesis using Cons length_dropWhile_le [of is_digit t] length_dropWhile_le [of is_digit "tl t"]
    by (cases t) (auto simp: read_exponent_def read_digits_def Let_def split: if_splits)
qed (simp add: read_exponent_def)

lemma read_number_length: "read_number s = Inr (n, q) \<Longrightarrow> length q < length s"
  by (fastforce simp: read_number_def result_simps Let_def
      dest!: read_whole_length read_fraction_length read_exponent_length split: if_splits)

lemma literals_nonempty: "find (has_prefix s) literals = Some lit \<Longrightarrow> prefix lit s \<and> lit \<noteq> []"
  by (auto simp: literals_def has_prefix_def split: if_splits)

lemma read_members_Inr:
  assumes "read_members depth ms s = Inr x"
  obtains r key s2 r2 v s3 c3 r3 where
    "space s = quotation # r" "read_string r = Inr (key, s2)" "key \<notin> set (map fst ms)"
    "space s2 = CHR '':'' # r2" "read_value (depth + 1) (space r2) = Inr (v, s3)" "space s3 = c3 # r3"
    "c3 = CHR '','' \<and> length r3 < length s \<and> read_members depth (ms @ [(key, v)]) r3 = Inr x \<or>
      c3 = CHR ''}'' \<and> x = (JObject (ms @ [(key, v)]), r3)"
proof -
  note step = read_members.simps [of depth ms s]
  obtain r where r: "space s = quotation # r"
    using assms unfolding step by (cases "space s") (simp_all split: if_splits)
  obtain key s2 where k: "read_string r = Inr (key, s2)" "key \<notin> set (map fst ms)"
    using assms unfolding step r by (cases "read_string r") (auto split: if_splits)
  obtain r2 where r2: "space s2 = CHR '':'' # r2"
    using assms k(2) unfolding step r by (cases "space s2") (simp_all add: k(1) split: if_splits)
  obtain v s3 where v: "read_value (depth + 1) (space r2) = Inr (v, s3)"
    using assms k(2) unfolding step r by (cases "read_value (depth + 1) (space r2)") (auto simp: k(1) r2)
  obtain c3 r3 where c3: "space s3 = c3 # r3"
    using assms k(2) v unfolding step r by (cases "space s3") (simp_all add: k(1) r2)
  have "c3 = CHR '','' \<and> length r3 < length s \<and> read_members depth (ms @ [(key, v)]) r3 = Inr x \<or>
      c3 = CHR ''}'' \<and> x = (JObject (ms @ [(key, v)]), r3)"
    using assms k(2) v c3 unfolding step r by (simp add: k(1) r2 split: if_splits)
  then show ?thesis using that r k r2 v c3 by blast
qed

lemma read_elements_Inr:
  assumes "read_elements depth vs s = Inr x"
  obtains v s3 c3 r3 where
    "read_value (depth + 1) (space s) = Inr (v, s3)" "space s3 = c3 # r3"
    "c3 = CHR '','' \<and> length r3 < length s \<and> read_elements depth (vs @ [v]) r3 = Inr x \<or>
      c3 = CHR '']'' \<and> x = (JArray (vs @ [v]), r3)"
proof -
  note step = read_elements.simps [of depth vs s]
  obtain v s3 where v: "read_value (depth + 1) (space s) = Inr (v, s3)"
    using assms unfolding step by (cases "read_value (depth + 1) (space s)") auto
  obtain c3 r3 where c3: "space s3 = c3 # r3"
    using assms v unfolding step by (cases "space s3") simp_all
  have "c3 = CHR '','' \<and> length r3 < length s \<and> read_elements depth (vs @ [v]) r3 = Inr x \<or>
      c3 = CHR '']'' \<and> x = (JArray (vs @ [v]), r3)"
    using assms v c3 unfolding step by (simp split: if_splits)
  then show ?thesis using that v c3 by blast
qed

lemma read_value_forward:
  "read_value d s = Inr (v, q) \<Longrightarrow> length q < length s"
  and read_members_forward: "read_members d ms s = Inr (v, q) \<Longrightarrow> length q < length s"
  and read_elements_forward: "read_elements d vs s = Inr (v, q) \<Longrightarrow> length q < length s"
proof (induction d s and d ms s and d vs s arbitrary: v q and v q and v q
    rule: read_value_read_members_read_elements.induct)
  case (1 depth s)
  show ?case
  proof (cases s)
    case (Cons c r)
    have sp: "length (tl (space r)) < length s" using Cons length_space [of r] by (cases "space r") auto
    have lit: "length (drop (length l) s) < length s" if "find (has_prefix s) literals = Some l" for l
      using literals_nonempty [OF that] Cons by auto
    show ?thesis
      using 1(3) Cons 1(1) [OF _ Cons] 1(2) [OF _ Cons] sp lit read_string_length read_number_length
      by (subst (asm) read_value.simps)
        (fastforce simp: result_simps split: if_splits option.splits)
  qed (use 1(3) in \<open>subst (asm) read_value.simps, simp add: split: if_splits\<close>)
next
  case (2 depth ms s)
  from 2(3) show ?case
  proof (rule read_members_Inr)
    fix r key s2 r2 w s3 c3 r3
    assume r: "space s = quotation # r" "read_string r = Inr (key, s2)" "key \<notin> set (map fst ms)"
      "space s2 = CHR '':'' # r2" "read_value (depth + 1) (space r2) = Inr (w, s3)" "space s3 = c3 # r3"
      and q: "c3 = CHR '','' \<and> length r3 < length s \<and> read_members depth (ms @ [(key, w)]) r3 = Inr (v, q) \<or>
        c3 = CHR ''}'' \<and> (v, q) = (JObject (ms @ [(key, w)]), r3)"
    have "length s3 < length (space r2)" using 2(1) [OF r(1) _ r(2) refl r(3) r(4)] r(5) by simp
    moreover have "length (space r2) < length s"
      using member_value_shorter [OF r(1,2)] r(4) by simp
    ultimately have "length r3 < length s" using space_shorter [OF r(6)] by simp
    then show "length q < length s"
      using q 2(2) [OF r(1) _ r(2) refl r(3) r(4) _ r(5) refl r(6)] by auto
  qed
next
  case (3 depth vs s)
  from 3(3) show ?case
  proof (rule read_elements_Inr)
    fix w s3 c3 r3
    assume r: "read_value (depth + 1) (space s) = Inr (w, s3)" "space s3 = c3 # r3"
      and q: "c3 = CHR '','' \<and> length r3 < length s \<and> read_elements depth (vs @ [w]) r3 = Inr (v, q) \<or>
        c3 = CHR '']'' \<and> (v, q) = (JArray (vs @ [w]), r3)"
    have "length s3 < length (space s)" using 3(1) r(1) by blast
    then have "length r3 < length s" using space_shorter [OF r(2)] length_space [of s] by linarith
    then show "length q < length s" using q 3(2) [OF r(1) refl r(2)] by auto
  qed
qed

text \<open>\<^verbatim>\<open>readJSON\<close>: the one value, with only white space around it.\<close>

definition readJSON :: "string \<Rightarrow> (json_error, jvalue) result" where
  "readJSON data =
     (if \<not> utf8_valid data then Inl JsonNotUtf8
      else rbind (read_value 1 (space data)) (\<lambda>(v, r). if space r \<noteq> [] then Inl MoreAfter else Inr v))"

end
