(* ===== verification/JsonRound.thy ===== *)
theory JsonRound
  imports ChangeJson
begin

text \<open>
  What the strict JSON reader accepts holds no key twice and nests at most eight deep, and it
  reads back what Go's \<^verbatim>\<open>encoding/json\<close> writes with an indent of two spaces and HTML escaping
  off.
\<close>

section \<open>What is read\<close>

fun jvalue_strict :: "nat \<Rightarrow> jvalue \<Rightarrow> bool" where
  "jvalue_strict d (JObject ms) \<longleftrightarrow>
     d \<le> maxDepth \<and> distinct (map fst ms) \<and> list_all (jvalue_strict (d + 1)) (map snd ms)"
| "jvalue_strict d (JArray vs) \<longleftrightarrow> d \<le> maxDepth \<and> list_all (jvalue_strict (d + 1)) vs"
| "jvalue_strict d _ \<longleftrightarrow> d \<le> maxDepth"

lemma read_value_strict:
  "read_value d s = Inr (v, q) \<Longrightarrow> jvalue_strict d v"
  and read_members_strict: "read_members d ms s = Inr (v, q) \<Longrightarrow> d \<le> maxDepth \<Longrightarrow> jvalue_strict d (JObject ms) \<Longrightarrow> jvalue_strict d v"
  and read_elements_strict: "read_elements d vs s = Inr (v, q) \<Longrightarrow> d \<le> maxDepth \<Longrightarrow> jvalue_strict d (JArray vs) \<Longrightarrow> jvalue_strict d v"
proof (induction d s and d ms s and d vs s arbitrary: v q and v q and v q
    rule: read_value_read_members_read_elements.induct)
  case (1 depth s)
  have d: "depth \<le> maxDepth" using 1(3) by (subst (asm) read_value.simps) (simp split: if_splits)
  show ?case
  proof (cases s)
    case (Cons c r)
    show ?thesis
      using 1(3) Cons d 1(1) [OF _ Cons] 1(2) [OF _ Cons]
      by (subst (asm) read_value.simps)
        (fastforce simp: result_simps split: if_splits option.splits)
  qed (use 1(3) in \<open>subst (asm) read_value.simps, simp split: if_splits\<close>)
next
  case (2 depth ms s)
  from 2(3) show ?case
  proof (rule read_members_Inr)
    fix r key s2 r2 w s3 c3 r3
    assume r: "space s = quotation # r" "read_string r = Inr (key, s2)" "key \<notin> set (map fst ms)"
      "space s2 = CHR '':'' # r2" "read_value (depth + 1) (space r2) = Inr (w, s3)" "space s3 = c3 # r3"
      and q: "c3 = CHR '','' \<and> length r3 < length s \<and> read_members depth (ms @ [(key, w)]) r3 = Inr (v, q) \<or>
        c3 = CHR ''}'' \<and> (v, q) = (JObject (ms @ [(key, w)]), r3)"
    have "jvalue_strict (depth + 1) w" using 2(1) [OF r(1) _ r(2) refl r(3) r(4)] r(5) by simp
    then have "jvalue_strict depth (JObject (ms @ [(key, w)]))" using 2(4,5) r(3) by auto
    then show "jvalue_strict depth v"
      using q 2(2) [OF r(1) _ r(2) refl r(3) r(4) _ r(5) refl r(6)] 2(4) by auto
  qed
next
  case (3 depth vs s)
  from 3(3) show ?case
  proof (rule read_elements_Inr)
    fix w s3 c3 r3
    assume r: "read_value (depth + 1) (space s) = Inr (w, s3)" "space s3 = c3 # r3"
      and q: "c3 = CHR '','' \<and> length r3 < length s \<and> read_elements depth (vs @ [w]) r3 = Inr (v, q) \<or>
        c3 = CHR '']'' \<and> (v, q) = (JArray (vs @ [w]), r3)"
    have "jvalue_strict (depth + 1) w" using 3(1) r(1) by blast
    then have "jvalue_strict depth (JArray (vs @ [w]))" using 3(4,5) by auto
    then show "jvalue_strict depth v" using q 3(2) [OF r(1) refl r(2)] 3(4) by auto
  qed
qed

lemma readJSON_strict: "readJSON s = Inr v \<Longrightarrow> jvalue_strict 1 v"
  using read_value_strict by (auto simp: readJSON_def result_simps split: if_splits)

section \<open>What is written\<close>

text \<open>The line break and the indent before a member, an element or a closing bracket.\<close>

definition break :: "nat \<Rightarrow> string" where
  "break l = CHR 0x0A # replicate (2 * l) (CHR '' '')"

fun write_value :: "nat \<Rightarrow> jvalue \<Rightarrow> string" where
  "write_value l (JObject ms) =
     (if ms = [] then ''{}''
      else ''{'' @ break (l + 1) @
        join_str ('','' @ break (l + 1)) (map (\<lambda>m. json_quote (fst m) @ '': '' @ write_value (l + 1) (snd m)) ms) @
        break l @ ''}'')"
| "write_value l (JArray vs) =
     (if vs = [] then ''[]''
      else ''['' @ break (l + 1) @ join_str ('','' @ break (l + 1)) (map (write_value (l + 1)) vs) @ break l @ '']'')"
| "write_value l (JString s) = json_quote s"
| "write_value l (JNumber n) = n"
| "write_value l (JLiteral n) = n"

fun writable :: "nat \<Rightarrow> jvalue \<Rightarrow> bool" where
  "writable d (JObject ms) \<longleftrightarrow>
     d \<le> maxDepth \<and> distinct (map fst ms) \<and> list_all utf8_valid (map fst ms) \<and> list_all (writable (d + 1)) (map snd ms)"
| "writable d (JArray vs) \<longleftrightarrow> d \<le> maxDepth \<and> list_all (writable (d + 1)) vs"
| "writable d (JString s) \<longleftrightarrow> d \<le> maxDepth"
| "writable d (JNumber n) \<longleftrightarrow> d \<le> maxDepth \<and> canonical_decimal n"
| "writable d (JLiteral n) \<longleftrightarrow> d \<le> maxDepth \<and> n \<in> set literals"

text \<open>
  A byte that is part of no rune is written as an escaped U+FFFD, so what is read back of a value
  is the value with each of them replaced.
\<close>

definition replacement :: string where
  "replacement = [CHR 0xEF, CHR 0xBF, CHR 0xBD]"

definition clean_text :: "string \<Rightarrow> string" where
  "clean_text s = concat (map (\<lambda>w. if is_rune w then w else replacement) (chunks s))"

fun clean :: "jvalue \<Rightarrow> jvalue" where
  "clean (JObject ms) = JObject (map (\<lambda>m. (fst m, clean (snd m))) ms)"
| "clean (JArray vs) = JArray (map clean vs)"
| "clean (JString s) = JString (clean_text s)"
| "clean (JNumber n) = JNumber n"
| "clean (JLiteral n) = JLiteral n"

lemma clean_text_id [simp]: "utf8_valid s \<Longrightarrow> clean_text s = s"
proof -
  have "list_all is_rune ws \<Longrightarrow> map (\<lambda>w. if is_rune w then w else replacement) ws = ws" for ws
    by (induction ws) simp_all
  then show "utf8_valid s \<Longrightarrow> ?thesis" by (simp add: clean_text_def utf8_valid_def concat_chunks)
qed

section \<open>Strings are read back\<close>

lemma read_string_plain:
  "32 \<le> byte_val c \<Longrightarrow> c \<noteq> quotation \<Longrightarrow> c \<noteq> backslash \<Longrightarrow>
   read_string (c # r) = rbind (read_string r) (\<lambda>(t, q). Inr (c # t, q))"
  by (subst read_string.simps) simp

lemma rbind_prepend:
  "rbind (rbind m (\<lambda>(t, q). Inr (w @ t, q))) (\<lambda>(t, q). Inr (c # t, q)) = rbind m (\<lambda>(t, q). Inr (c # w @ t, q))"
  by (cases m) auto

lemma rbind_same: "rbind m Inr = m"
  by (cases m) auto

lemma read_string_plains:
  "\<forall>c \<in> set w. 32 \<le> byte_val c \<and> c \<noteq> quotation \<and> c \<noteq> backslash \<Longrightarrow>
   read_string (w @ r) = rbind (read_string r) (\<lambda>(t, q). Inr (w @ t, q))"
  by (induction w) (simp_all add: read_string_plain rbind_prepend rbind_same)

lemma read_string_escape:
  "read_escape e r = Inr (w, r2) \<Longrightarrow>
   read_string (backslash # e # r) = rbind (read_string r2) (\<lambda>(t, q). Inr (w @ t, q))"
  by (subst read_string.simps) simp

lemma read_escape_json: "e \<noteq> CHR ''u'' \<Longrightarrow> json_escape e r = Some (w, r2) \<Longrightarrow> read_escape e r = Inr (w, r2)"
  unfolding json_escape_def read_escape_def
  by (cases "e = quotation \<or> e = backslash \<or> e = CHR ''/''"; cases "e = CHR ''b''"; cases "e = CHR ''f''";
      cases "e = CHR ''n''"; cases "e = CHR ''r''"; cases "e = CHR ''t''"; simp)

lemma json_ascii_read:
  assumes "byte_val c < 128"
  shows "read_string (json_ascii c @ r) = rbind (read_string r) (\<lambda>(t, q). Inr (c # t, q))"
proof -
  consider (special) "byte_val c \<in> {34, 92, 8, 12, 10, 13, 9}"
    | (control) "byte_val c < 32" "byte_val c \<notin> {34, 92, 8, 12, 10, 13, 9}"
    | (plain) "32 \<le> byte_val c" "byte_val c \<notin> {34, 92}"
    by fastforce
  then show ?thesis
  proof cases
    case special
    define e where "e = (let n = byte_val c in if n = 8 then CHR ''b'' else if n = 12 then CHR ''f''
      else if n = 10 then CHR ''n'' else if n = 13 then CHR ''r'' else if n = 9 then CHR ''t'' else c)"
    from special have "json_ascii c = [backslash, e] \<and> json_escape e r = Some ([c], r) \<and> e \<noteq> CHR ''u''"
      by (auto simp: e_def json_ascii_def json_escape_def Let_def char_eq_byte simp del: byte_val_inj)
    then show ?thesis using read_string_escape [OF read_escape_json] by simp
  next
    case control
    let ?n = "byte_val c"
    let ?h = "''00'' @ [hex_digit (?n div 16), hex_digit (?n mod 16)]"
    have h: "hex4 (?h @ r) = Some (?n, r)"
      using hex_val_any_digit [of "?n div 16"] hex_val_any_digit [of "?n mod 16"]
      by (simp add: hex_val_any_def [of "CHR ''0''"])
    have "utf8_encode ?n = [c]" using assms by (simp add: utf8_encode_def)
    then have "read_escape (CHR ''u'') (?h @ r) = Inr ([c], r)"
      using h control(1) unfolding read_escape_def read_escaped_rune_def read_hex4_def is_surrogate_def
      by (simp add: char_eq_byte del: byte_val_inj)
    moreover have "json_ascii c @ r = backslash # CHR ''u'' # ?h @ r"
      using control by (simp add: json_ascii_def Let_def)
    ultimately show ?thesis by (simp add: read_string_escape)
  next
    case plain
    then have "json_ascii c = [c]" by (simp add: json_ascii_def Let_def)
    moreover have "c \<noteq> quotation" "c \<noteq> backslash"
      using plain(2) by (simp_all add: char_eq_byte del: byte_val_inj)
    ultimately show ?thesis using plain(1) by (simp add: read_string_plain)
  qed
qed

lemma json_sep_read:
  "read_string (backslash # ''u2028'' @ r) = rbind (read_string r) (\<lambda>(t, q). Inr (line_sep @ t, q))"
  "read_string (backslash # ''u2029'' @ r) = rbind (read_string r) (\<lambda>(t, q). Inr (par_sep @ t, q))"
proof -
  have h: "hex4 (''2028'' @ r) = Some (8232, r)" "hex4 (''2029'' @ r) = Some (8233, r)"
    by (simp_all add: hex_val_any_def byte_val_def)
  have "read_escape (CHR ''u'') (''2028'' @ r) = Inr (line_sep, r)"
    "read_escape (CHR ''u'') (''2029'' @ r) = Inr (par_sep, r)"
    unfolding read_escape_def read_escaped_rune_def read_hex4_def h is_surrogate_def
    by (simp_all add: utf8_encode_seps char_eq_byte del: byte_val_inj)
  from this [THEN read_string_escape]
  show "read_string (backslash # ''u2028'' @ r) = rbind (read_string r) (\<lambda>(t, q). Inr (line_sep @ t, q))"
    "read_string (backslash # ''u2029'' @ r) = rbind (read_string r) (\<lambda>(t, q). Inr (par_sep @ t, q))"
    by simp_all
qed

lemma json_piece_read:
  assumes "is_rune w"
  shows "read_string (json_piece w @ r) = rbind (read_string r) (\<lambda>(t, q). Inr (w @ t, q))"
proof (cases "length w = 1")
  case True
  then obtain c where w: "w = [c]" by (auto simp: length_Suc_conv)
  with assms have "byte_val c < 128" by (simp add: rune_single)
  with w show ?thesis by (simp add: json_piece_def json_ascii_read)
next
  case False
  have "\<forall>c \<in> set w. 32 \<le> byte_val c \<and> c \<noteq> quotation \<and> c \<noteq> backslash"
  proof
    fix c assume "c \<in> set w"
    then have "128 \<le> byte_val c" using rune_not_ascii [OF assms False] by simp
    then show "32 \<le> byte_val c \<and> c \<noteq> quotation \<and> c \<noteq> backslash"
      by (auto simp: char_eq_byte simp del: byte_val_inj)
  qed
  then show ?thesis using False json_sep_read read_string_plains by (simp add: json_piece_def)
qed

lemma replacement_read:
  "read_string (backslash # ''ufffd'' @ r) = rbind (read_string r) (\<lambda>(t, q). Inr (replacement @ t, q))"
proof -
  have h: "hex4 (''fffd'' @ r) = Some (65533, r)" by (simp add: hex_val_any_def byte_val_def)
  have "utf8_encode 65533 = replacement" by (simp add: utf8_encode_def replacement_def char_eq_byte byte_val_def del: byte_val_inj)
  then have "read_escape (CHR ''u'') (''fffd'' @ r) = Inr (replacement, r)"
    unfolding read_escape_def read_escaped_rune_def read_hex4_def h is_surrogate_def
    by (simp add: char_eq_byte del: byte_val_inj)
  from this [THEN read_string_escape] show ?thesis by simp
qed

lemma chunk_read:
  assumes "is_rune w \<or> (\<exists>c. w = [c])"
  shows "read_string (json_piece w @ r) =
    rbind (read_string r) (\<lambda>(t, q). Inr ((if is_rune w then w else replacement) @ t, q))"
proof (cases "is_rune w")
  case True
  then show ?thesis by (simp add: json_piece_read)
next
  case False
  then obtain c where w: "w = [c]" using assms by blast
  then have "\<not> byte_val c < 128" using False ascii_is_rune [of c] by blast
  then show ?thesis using w False replacement_read by (simp add: json_piece_def)
qed

lemma chunks_shape: "\<forall>w \<in> set (chunks s). is_rune w \<or> (\<exists>c. w = [c])"
proof (induction s rule: chunks.induct)
  case (1 s)
  show ?case
  proof (cases "s = []")
    case False
    have "is_rune (take (max 1 (utf8_len s)) s) \<or> (\<exists>c. take (max 1 (utf8_len s)) s = [c])"
      using False is_rune_take [of s] by (cases "utf8_len s = 0"; cases s) (auto simp: max_def)
    then show ?thesis using 1 False by (subst chunks.simps) simp
  qed (simp add: chunks.simps)
qed

lemma json_body_read: "read_string (json_body s @ quotation # r) = Inr (clean_text s, r)"
proof -
  have "read_string (concat (map json_piece ws) @ quotation # r) =
      Inr (concat (map (\<lambda>w. if is_rune w then w else replacement) ws), r)"
    if "\<forall>w \<in> set ws. is_rune w \<or> (\<exists>c. w = [c])" for ws
    using that
  proof (induction ws)
    case Nil
    show ?case by (subst read_string.simps) simp
  next
    case (Cons w ws)
    then show ?case by (simp add: chunk_read)
  qed
  then show ?thesis using chunks_shape by (simp add: json_body_def clean_text_def)
qed

lemma quotation_chr: "quotation = CHR 0x22"
  using byte_val_inj [of quotation "CHR 0x22"] by (simp add: byte_val_def quotation_def)

section \<open>Numbers and white space\<close>

text \<open>What may follow a value as it is written: nothing, a comma or a line break.\<close>

definition stops :: "string \<Rightarrow> bool" where
  "stops r \<longleftrightarrow> r = [] \<or> hd r = CHR '','' \<or> hd r = CHR 0x0A"

lemma stops_cases: "stops r \<Longrightarrow> r = [] \<or> (\<exists>t. r = CHR '','' # t) \<or> (\<exists>t. r = CHR 0x0A # t)"
  by (cases r) (auto simp: stops_def)

lemma not_digits: "\<not> is_digit (CHR '','')" "\<not> is_digit (CHR 0x0A)"
  by (simp_all add: is_digit_def byte_val_def)

lemma digits_stop: "\<forall>c \<in> set n. is_digit c \<Longrightarrow> stops r \<Longrightarrow> read_digits (n @ r) = (n, r)"
  by (drule stops_cases) (auto simp: read_digits_def takeWhile_append dropWhile_append not_digits)

lemma number_end: "stops r \<Longrightarrow> read_fraction r = Inr ([], r) \<and> read_exponent r = Inr ([], r)"
  by (drule stops_cases) (auto simp: read_fraction_def read_exponent_def)

lemma decimal_head:
  assumes "canonical_decimal n"
  shows "\<exists>c m. n = c # m \<and> is_digit c \<and> (\<forall>c \<in> set m. is_digit c) \<and> (c = CHR ''0'' \<longrightarrow> m = [])"
  using assms by (cases n) (auto simp: canonical_decimal_def)

lemma read_number_decimal:
  assumes "canonical_decimal n" "stops r"
  shows "read_number (n @ r) = Inr (n, r)"
proof -
  obtain c m where n: "n = c # m" "is_digit c" "\<forall>c \<in> set m. is_digit c" "c = CHR ''0'' \<longrightarrow> m = []"
    using decimal_head [OF assms(1)] by blast
  have "c \<noteq> CHR ''-''" using n(2) by (auto simp: is_digit_def byte_val_def)
  moreover have "read_whole (n @ r) = Inr (n, r)"
    using n digits_stop [of n r] assms(2) by (auto simp: read_whole_def)
  ultimately show ?thesis using number_end [OF assms(2)] n(1) by (simp add: read_number_def)
qed

lemma space_stays: "\<not> is_json_space c \<Longrightarrow> space (c # r) = c # r"
  by (simp add: space_def)

lemma space_break: "\<not> is_json_space c \<Longrightarrow> space (break l @ c # r) = c # r"
  by (simp add: space_def break_def is_json_space_def byte_val_def dropWhile_append)

lemma bracket_not_space:
  "\<not> is_json_space (CHR ''{'')" "\<not> is_json_space (CHR ''}'')" "\<not> is_json_space (CHR ''['')"
  "\<not> is_json_space (CHR '']'')" "\<not> is_json_space (CHR '','')" "\<not> is_json_space (CHR '':'')"
  "\<not> is_json_space quotation"
  by (simp_all add: is_json_space_def byte_val_def quotation_def)

lemma value_starts:
  "c \<in> {CHR ''{'', CHR ''['', CHR ''t'', CHR ''f'', CHR ''n'', CHR 0x22} \<or> is_digit c \<Longrightarrow> \<not> is_json_space c \<and> c \<noteq> CHR '']''"
  by (auto simp: is_json_space_def is_digit_def byte_val_def)

lemma write_head: "writable d v \<Longrightarrow> \<exists>c t. write_value l v = c # t \<and> \<not> is_json_space c \<and> c \<noteq> CHR '']''"
proof -
  assume w: "writable d v"
  have "\<exists>c t. write_value l v = c # t \<and>
      (c \<in> {CHR ''{'', CHR ''['', CHR ''t'', CHR ''f'', CHR ''n'', CHR 0x22} \<or> is_digit c)"
  proof (cases v)
    case (JNumber n)
    then have "canonical_decimal n" using w by simp
    from decimal_head [OF this] show ?thesis using JNumber by auto
  next
    case (JLiteral n)
    then show ?thesis using w by (auto simp: literals_def)
  qed (simp_all add: json_quote_def quotation_chr)
  then show ?thesis using value_starts by metis
qed

section \<open>Members and elements\<close>

lemma read_members_next:
  assumes "space s = quotation # r" "read_string r = Inr (key, s2)" "key \<notin> set (map fst ms)"
    "space s2 = CHR '':'' # r2" "read_value (depth + 1) (space r2) = Inr (v, s3)" "space s3 = CHR '','' # r3"
  shows "read_members depth ms s = read_members depth (ms @ [(key, v)]) r3"
proof -
  have "length r3 < length s"
    using member_value_shorter [OF assms(1,2)] assms(4) read_value_forward [OF assms(5)] space_shorter [OF assms(6)]
    by simp
  then show ?thesis using assms(3) by (subst read_members.simps) (simp add: assms(1,2,4,6) assms(5) [simplified])
qed

lemma read_members_last:
  assumes "space s = quotation # r" "read_string r = Inr (key, s2)" "key \<notin> set (map fst ms)"
    "space s2 = CHR '':'' # r2" "read_value (depth + 1) (space r2) = Inr (v, s3)" "space s3 = CHR ''}'' # r3"
  shows "read_members depth ms s = Inr (JObject (ms @ [(key, v)]), r3)"
  using assms(3) by (subst read_members.simps) (simp add: assms(1,2,4,6) assms(5) [simplified])

lemma read_elements_next:
  assumes "read_value (depth + 1) (space s) = Inr (v, s3)" "space s3 = CHR '','' # r3"
  shows "read_elements depth vs s = read_elements depth (vs @ [v]) r3"
proof -
  have "length r3 < length s"
    using read_value_forward [OF assms(1)] space_shorter [OF assms(2)] length_space [of s] by linarith
  then show ?thesis by (subst read_elements.simps) (simp add: assms(2) assms(1) [simplified])
qed

lemma read_elements_last:
  assumes "read_value (depth + 1) (space s) = Inr (v, s3)" "space s3 = CHR '']'' # r3"
  shows "read_elements depth vs s = Inr (JArray (vs @ [v]), r3)"
  by (subst read_elements.simps) (simp add: assms(2) assms(1) [simplified])

definition reads_back :: "nat \<Rightarrow> nat \<Rightarrow> jvalue \<Rightarrow> bool" where
  "reads_back d l v \<longleftrightarrow> (\<forall>rest. stops rest \<longrightarrow> read_value d (write_value l v @ rest) = Inr (clean v, rest))"

lemma stops_break: "stops (break l @ r)" and stops_comma: "stops (CHR '','' # r)"
  by (simp_all add: stops_def break_def)

definition member_text :: "nat \<Rightarrow> string \<times> jvalue \<Rightarrow> string" where
  "member_text l m = json_quote (fst m) @ '': '' @ write_value (l + 1) (snd m)"

lemma member_read:
  assumes "utf8_valid (fst m)" "writable (d + 1) (snd m)" "reads_back (d + 1) (l + 1) (snd m)" "stops rest"
  shows "\<exists>r s2 r2. space (break (l + 1) @ member_text l m @ rest) = quotation # r \<and> read_string r = Inr (fst m, s2) \<and>
    space s2 = CHR '':'' # r2 \<and> read_value (d + 1) (space r2) = Inr (clean (snd m), rest)"
proof -
  obtain c t where v: "write_value (l + 1) (snd m) = c # t" "\<not> is_json_space c"
    using write_head [OF assms(2)] by blast
  have "space (CHR '' '' # c # t @ rest) = c # t @ rest" using v(2) by (simp add: space_def is_json_space_def byte_val_def)
  then have "read_value (d + 1) (space (CHR '' '' # c # t @ rest)) = Inr (clean (snd m), rest)"
    using assms(3,4) v(1) unfolding reads_back_def by auto
  moreover have "space (break (l + 1) @ member_text l m @ rest) =
      quotation # json_body (fst m) @ quotation # '': '' @ c # t @ rest"
    by (simp add: member_text_def json_quote_def v(1) space_break bracket_not_space del: add_Suc_right One_nat_def)
  moreover have "read_string (json_body (fst m) @ quotation # '': '' @ c # t @ rest) = Inr (fst m, '': '' @ c # t @ rest)"
    using json_body_read [of "fst m"] assms(1) by simp
  moreover have "space ('': '' @ c # t @ rest) = CHR '':'' # CHR '' '' # c # t @ rest"
    by (simp add: space_stays bracket_not_space)
  ultimately show ?thesis by blast
qed

lemma members_read:
  assumes "ms \<noteq> []" "\<forall>m \<in> set ms. utf8_valid (fst m) \<and> writable (d + 1) (snd m) \<and> reads_back (d + 1) (l + 1) (snd m)"
    "distinct (map fst (acc @ ms))"
  shows "read_members d acc (break (l + 1) @ join_str ('','' @ break (l + 1)) (map (member_text l) ms) @ break l @ CHR ''}'' # rest) =
    Inr (JObject (acc @ map (\<lambda>m. (fst m, clean (snd m))) ms), rest)"
  using assms
proof (induction ms arbitrary: acc)
  case (Cons m ms)
  have m: "utf8_valid (fst m)" "writable (d + 1) (snd m)" "reads_back (d + 1) (l + 1) (snd m)" using Cons(3) by auto
  have new: "fst m \<notin> set (map fst acc)" using Cons(4) by auto
  show ?case
  proof (cases "ms = []")
    case True
    let ?r = "break l @ CHR ''}'' # rest"
    obtain r s2 r2 where r: "space (break (l + 1) @ member_text l m @ ?r) = quotation # r"
      "read_string r = Inr (fst m, s2)" "space s2 = CHR '':'' # r2" "read_value (d + 1) (space r2) = Inr (clean (snd m), ?r)"
      using member_read [OF m stops_break] by blast
    show ?thesis using read_members_last [OF r(1,2) new r(3,4)] True
      by (simp add: space_break bracket_not_space)
  next
    case False
    let ?t = "break (l + 1) @ join_str ('','' @ break (l + 1)) (map (member_text l) ms) @ break l @ CHR ''}'' # rest"
    obtain r s2 r2 where r: "space (break (l + 1) @ member_text l m @ CHR '','' # ?t) = quotation # r"
      "read_string r = Inr (fst m, s2)" "space s2 = CHR '':'' # r2" "read_value (d + 1) (space r2) = Inr (clean (snd m), CHR '','' # ?t)"
      using member_read [OF m stops_comma] by blast
    have "read_members d acc (break (l + 1) @ member_text l m @ CHR '','' # ?t) = read_members d (acc @ [(fst m, clean (snd m))]) ?t"
      by (rule read_members_next [OF r(1,2) new r(3,4)]) (simp add: space_stays bracket_not_space)
    also have "\<dots> = Inr (JObject ((acc @ [(fst m, clean (snd m))]) @ map (\<lambda>m. (fst m, clean (snd m))) ms), rest)"
      using Cons.IH [OF False, of "acc @ [(fst m, clean (snd m))]"] Cons(3,4) by simp
    finally show ?thesis using False by (simp add: join_str_Cons)
  qed
qed simp

lemma element_read:
  assumes "writable (d + 1) v" "reads_back (d + 1) (l + 1) v" "stops rest"
  shows "read_value (d + 1) (space (break (l + 1) @ write_value (l + 1) v @ rest)) = Inr (clean v, rest)"
proof -
  obtain c t where v: "write_value (l + 1) v = c # t" "\<not> is_json_space c"
    using write_head [OF assms(1)] by blast
  then have "space (break (l + 1) @ write_value (l + 1) v @ rest) = write_value (l + 1) v @ rest"
    by (simp add: space_break del: add_Suc_right One_nat_def)
  then show ?thesis using assms(2,3) by (simp add: reads_back_def)
qed

lemma elements_read:
  assumes "vs \<noteq> []" "\<forall>v \<in> set vs. writable (d + 1) v \<and> reads_back (d + 1) (l + 1) v"
  shows "read_elements d acc (break (l + 1) @ join_str ('','' @ break (l + 1)) (map (write_value (l + 1)) vs) @ break l @ CHR '']'' # rest) =
    Inr (JArray (acc @ map clean vs), rest)"
  using assms
proof (induction vs arbitrary: acc)
  case (Cons v vs)
  have v: "writable (d + 1) v" "reads_back (d + 1) (l + 1) v" using Cons(3) by auto
  show ?case
  proof (cases "vs = []")
    case True
    show ?thesis using read_elements_last [OF element_read [OF v stops_break]] True
      by (simp add: space_break bracket_not_space)
  next
    case False
    let ?t = "break (l + 1) @ join_str ('','' @ break (l + 1)) (map (write_value (l + 1)) vs) @ break l @ CHR '']'' # rest"
    have "read_elements d acc (break (l + 1) @ write_value (l + 1) v @ CHR '','' # ?t) = read_elements d (acc @ [clean v]) ?t"
      by (rule read_elements_next [OF element_read [OF v stops_comma]]) (simp add: space_stays bracket_not_space)
    also have "\<dots> = Inr (JArray ((acc @ [clean v]) @ map clean vs), rest)"
      using Cons.IH [OF False, of "acc @ [clean v]"] Cons(3) by simp
    finally show ?thesis using False by (simp add: join_str_Cons)
  qed
qed simp

section \<open>Values are read back\<close>

lemma write_members:
  "ms \<noteq> [] \<Longrightarrow> write_value l (JObject ms) =
     CHR ''{'' # break (l + 1) @ join_str ('','' @ break (l + 1)) (map (member_text l) ms) @ break l @ ''}''"
  by (simp add: member_text_def [abs_def])

lemma literal_read:
  assumes "n \<in> set literals" "d \<le> maxDepth"
  shows "read_value d (n @ rest) = Inr (JLiteral n, rest)"
  using assms
  by (subst read_value.simps) (auto simp: literals_def has_prefix_def is_digit_def byte_val_def quotation_chr)

lemma write_reads_back: "writable d v \<Longrightarrow> reads_back d l v"
proof (induction v arbitrary: d l)
  case (JObject ms)
  have d: "\<not> maxDepth < d" using JObject.prems by simp
  have ms: "\<forall>m \<in> set ms. utf8_valid (fst m) \<and> writable (d + 1) (snd m) \<and> reads_back (d + 1) (l + 1) (snd m)"
    "distinct (map fst ms)"
    using JObject by (auto simp: list_all_iff snds.simps)
  show ?case
  proof (cases "ms = []")
    case True
    then show ?thesis using d unfolding reads_back_def
      by (auto simp: read_value.simps [of d "CHR ''{'' # _"] space_stays bracket_not_space)
  next
    case False
    have "read_value d (write_value l (JObject ms) @ rest) = Inr (clean (JObject ms), rest)" for rest
    proof -
      let ?r = "break (l + 1) @ join_str ('','' @ break (l + 1)) (map (member_text l) ms) @ break l @ CHR ''}'' # rest"
      have "\<exists>t. space ?r = quotation # t"
      proof -
        obtain m ms' where m: "ms = m # ms'" using False by (cases ms) auto
        then have "\<exists>t. join_str ('','' @ break (l + 1)) (map (member_text l) ms) = quotation # t"
          by (cases ms') (auto simp: member_text_def json_quote_def join_str_Cons)
        then show ?thesis by (auto simp: space_break bracket_not_space simp del: add_Suc_right One_nat_def)
      qed
      then have "read_value d (CHR ''{'' # ?r) = read_members d [] ?r"
        using d by (subst read_value.simps) (auto simp: quotation_chr)
      then show ?thesis
        using members_read [OF False ms(1), of "[]" rest] ms(2) unfolding write_members [OF False] by simp
    qed
    then show ?thesis unfolding reads_back_def by blast
  qed
next
  case (JArray vs)
  have d: "\<not> maxDepth < d" using JArray.prems by simp
  have vs: "\<forall>v \<in> set vs. writable (d + 1) v \<and> reads_back (d + 1) (l + 1) v"
    using JArray by (auto simp: list_all_iff)
  show ?case
  proof (cases "vs = []")
    case True
    then show ?thesis using d unfolding reads_back_def
      by (auto simp: read_value.simps [of d "CHR ''['' # _"] space_stays bracket_not_space)
  next
    case False
    have "read_value d (write_value l (JArray vs) @ rest) = Inr (clean (JArray vs), rest)" for rest
    proof -
      let ?r = "break (l + 1) @ join_str ('','' @ break (l + 1)) (map (write_value (l + 1)) vs) @ break l @ CHR '']'' # rest"
      have "\<exists>c t. space ?r = c # t \<and> c \<noteq> CHR '']''"
      proof -
        obtain v vs' where v: "vs = v # vs'" using False by (cases vs) auto
        then obtain c t where "write_value (l + 1) v = c # t" "\<not> is_json_space c" "c \<noteq> CHR '']''"
          using write_head [of "d + 1" v "l + 1"] vs by auto
        moreover have "\<exists>t. join_str ('','' @ break (l + 1)) (map (write_value (l + 1)) vs) = write_value (l + 1) v @ t"
          using v by (cases vs') (auto simp: join_str_Cons)
        ultimately show ?thesis by (auto simp: space_break simp del: add_Suc_right One_nat_def)
      qed
      then have "read_value d (CHR ''['' # ?r) = read_elements d [] ?r"
        using d by (subst read_value.simps) (auto simp: quotation_chr)
      then show ?thesis using elements_read [OF False vs, of "[]" rest] False by simp
    qed
    then show ?thesis unfolding reads_back_def by blast
  qed
next
  case (JString s)
  have "read_value d (json_quote s @ rest) = Inr (clean (JString s), rest)" for rest
    using JString json_body_read [of s rest]
    by (subst read_value.simps) (simp add: json_quote_def quotation_chr)
  then show ?case by (simp add: reads_back_def)
next
  case (JNumber n)
  then obtain c m where n: "n = c # m" "is_digit c" using decimal_head [of n] by auto
  have "c \<noteq> CHR ''{'' \<and> c \<noteq> CHR ''['' \<and> c \<noteq> quotation"
    using n(2) by (auto simp: is_digit_def byte_val_def quotation_chr)
  then have "read_value d (n @ rest) = rbind (read_number (n @ rest)) (\<lambda>(n, q). Inr (JNumber n, q))" for rest
    using n JNumber by (subst read_value.simps) simp
  then show ?case using JNumber read_number_decimal by (simp add: reads_back_def)
next
  case (JLiteral n)
  then show ?case using literal_read by (simp add: reads_back_def)
qed

lemma readJSON_write:
  assumes "writable 1 v" "utf8_valid (write_value 0 v)"
  shows "readJSON (write_value 0 v @ [CHR 0x0A]) = Inr (clean v)"
proof -
  obtain c t where "write_value 0 v = c # t" "\<not> is_json_space c" using write_head [OF assms(1)] by blast
  then have "space (write_value 0 v @ [CHR 0x0A]) = write_value 0 v @ [CHR 0x0A]" by (simp add: space_stays)
  moreover have "read_value 1 (write_value 0 v @ [CHR 0x0A]) = Inr (clean v, [CHR 0x0A])"
    using write_reads_back [OF assms(1), of 0] by (simp add: reads_back_def stops_def)
  moreover have "utf8_valid (write_value 0 v @ [CHR 0x0A])"
    using assms(2) by (simp add: utf8_valid_append byte_val_def)
  ultimately show ?thesis by (simp add: readJSON_def space_def is_json_space_def byte_val_def)
qed

end
