(* ===== verification/ChangeRecord.thy ===== *)
theory ChangeRecord
  imports ChangeId JsonRound Regex
begin

text \<open>
  \<^verbatim>\<open>change/record.go\<close>: a change's record, its strict reading, the rules \<^verbatim>\<open>Check\<close> holds it to,
  its writing, and the titles made for it.
\<close>

section \<open>The record\<close>

definition Schema :: string where "Schema = ''valley-change-record/v1''"
definition Ready :: string where "Ready = ''ready''"
definition Draft :: string where "Draft = ''draft''"
definition Withdrawn :: string where "Withdrawn = ''withdrawn''"
definition MaxSeq :: int where "MaxSeq = 100000"
definition MaxVersions :: int where "MaxVersions = 1000"
definition MaxVersionTitle :: nat where "MaxVersionTitle = 200"
definition HeadPrefix :: string where "HeadPrefix = ''git-sha1:''"

record Version =
  vn_N :: int
  vn_Head :: string
  vn_Title :: string
  vn_Branch :: string
  vn_Uploader :: string

record Record =
  cr_Schema :: string
  cr_ChangeID :: string
  cr_Target :: string
  cr_Owner :: string
  cr_State :: string
  cr_Seq :: int
  cr_Versions :: "Version list"
  cr_Active :: int

text \<open>The version \<^verbatim>\<open>Active\<close> names, and the newest: a record that parsed always has both.\<close>

definition ActiveVersion :: "Record \<Rightarrow> Version" where
  "ActiveVersion r = cr_Versions r ! nat (cr_Active r - 1)"

definition LastVersion :: "Record \<Rightarrow> Version" where
  "LastVersion r = last (cr_Versions r)"

definition re_principalName :: rexp where
  "re_principalName = Seq cls_alnum (Many cls_name_rest)"

definition ValidPrincipal :: "string \<Rightarrow> bool" where
  "ValidPrincipal s = matches re_principalName s"

definition ValidHead :: "string \<Rightarrow> bool" where
  "ValidHead s \<longleftrightarrow>
     (if length s \<noteq> length HeadPrefix + 40 \<or> take (length HeadPrefix) s \<noteq> HeadPrefix then False
      else list_all is_lower_hex (drop (length HeadPrefix) s))"

definition ValidTitle :: "string \<Rightarrow> bool" where
  "ValidTitle s \<longleftrightarrow>
     (if length s < 1 \<or> length s > MaxVersionTitle \<or> \<not> utf8_valid s then False
      else \<not> list_ex is_control_rune (runes s))"

section \<open>The rules\<close>

datatype version_rule = BadN nat | BadHead nat | BadTitle nat | BadBranch nat | BadUploader nat

datatype record_rule =
    BadSchema
  | BadChangeID
  | BadTarget
  | BadOwner
  | BadState
  | BadSeq
  | NoVersion
  | ManyVersions
  | BadActive
  | BadVersion version_rule

definition check_version :: "nat \<Rightarrow> Version \<Rightarrow> (record_rule, unit) result" where
  "check_version i v =
     (if vn_N v \<noteq> int i + 1 then Inl (BadVersion (BadN i))
      else if \<not> ValidHead (vn_Head v) then Inl (BadVersion (BadHead i))
      else if \<not> ValidTitle (vn_Title v) then Inl (BadVersion (BadTitle i))
      else if vn_Branch v \<noteq> [] \<and> (\<not> ValidBranch (vn_Branch v) \<or> \<not> utf8_valid (vn_Branch v))
      then Inl (BadVersion (BadBranch i))
      else if \<not> ValidPrincipal (vn_Uploader v) then Inl (BadVersion (BadUploader i))
      else Inr ())"

definition check_record :: "Record \<Rightarrow> (record_rule, unit) result" where
  "check_record r =
     (if cr_Schema r \<noteq> Schema then Inl BadSchema
      else if \<not> ValidID (cr_ChangeID r) then Inl BadChangeID
      else if \<not> ValidBranch (cr_Target r) \<or> \<not> utf8_valid (cr_Target r) then Inl BadTarget
      else if \<not> ValidPrincipal (cr_Owner r) then Inl BadOwner
      else if cr_State r \<noteq> Ready \<and> cr_State r \<noteq> Draft \<and> cr_State r \<noteq> Withdrawn then Inl BadState
      else if cr_Seq r < 1 \<or> cr_Seq r > MaxSeq then Inl BadSeq
      else if length (cr_Versions r) = 0 then Inl NoVersion
      else if int (length (cr_Versions r)) > MaxVersions then Inl ManyVersions
      else if cr_Active r < 1 \<or> cr_Active r > int (length (cr_Versions r)) then Inl BadActive
      else check_all (\<lambda>(i, v). check_version i v) (enumerate 0 (cr_Versions r)))"

section \<open>Reading\<close>

datatype jkind = KObject | KArray | KString | KNumber | KLiteral

fun kind_of :: "jvalue \<Rightarrow> jkind" where
  "kind_of (JObject _) = KObject"
| "kind_of (JArray _) = KArray"
| "kind_of (JString _) = KString"
| "kind_of (JNumber _) = KNumber"
| "kind_of (JLiteral _) = KLiteral"

text \<open>
  The place in a file a refusal names: the file's own object, or an entry of one of its lists by
  its index.
\<close>

datatype place = Whole | VersionAt nat | LayerAt nat | PublishedAt nat | RequestAt nat

datatype record_error =
    Unread json_error
  | NotObject place jkind
  | UnknownField place string
  | NoField place string
  | NotString place string jkind
  | NotInteger place string jkind
  | OutOfRange place string string
  | VersionsNotArray jkind
  | VersionsTooMany nat
  | RuleBroken record_rule

fun fieldsOf :: "jvalue \<Rightarrow> place \<Rightarrow> string list \<Rightarrow> (record_error, string \<rightharpoonup> jvalue) result" where
  "fieldsOf (JObject ms) at names =
     (case find (\<lambda>key. key \<notin> set names) (map fst ms) of
        Some key \<Rightarrow> Inl (UnknownField at key)
      | None \<Rightarrow>
          (case find (\<lambda>n. n \<notin> set (map fst ms)) names of
             Some n \<Rightarrow> Inl (NoField at n)
           | None \<Rightarrow> Inr (map_of ms)))"
| "fieldsOf v at names = Inl (NotObject at (kind_of v))"

fun stringOf :: "jvalue option \<Rightarrow> place \<Rightarrow> string \<Rightarrow> (record_error, string) result" where
  "stringOf (Some (JString s)) at name = Inr s"
| "stringOf (Some v) at name = Inl (NotString at name (kind_of v))"
| "stringOf None at name = Inl (NoField at name)"

fun integerOf :: "jvalue option \<Rightarrow> place \<Rightarrow> string \<Rightarrow> int \<Rightarrow> (record_error, int) result" where
  "integerOf (Some (JNumber n)) at name mx =
     (if \<not> list_all is_digit n then Inl (NotInteger at name KNumber)
      else if decimal n > 2 ^ 63 - 1 \<or> int (decimal n) < 1 \<or> int (decimal n) > mx then Inl (OutOfRange at name n)
      else Inr (int (decimal n)))"
| "integerOf (Some v) at name mx = Inl (NotInteger at name (kind_of v))"
| "integerOf None at name mx = Inl (NoField at name)"

definition read_version :: "nat \<Rightarrow> jvalue \<Rightarrow> (record_error, Version) result" where
  "read_version i item =
     rbind (fieldsOf item (VersionAt i) [''n'', ''head'', ''title'', ''branch'', ''uploader'']) (\<lambda>vo.
     rbind (integerOf (vo ''n'') (VersionAt i) ''n'' MaxVersions) (\<lambda>n.
     rbind (stringOf (vo ''head'') (VersionAt i) ''head'') (\<lambda>head.
     rbind (stringOf (vo ''title'') (VersionAt i) ''title'') (\<lambda>title.
     rbind (stringOf (vo ''branch'') (VersionAt i) ''branch'') (\<lambda>branch.
     rbind (stringOf (vo ''uploader'') (VersionAt i) ''uploader'') (\<lambda>uploader.
       Inr \<lparr>vn_N = n, vn_Head = head, vn_Title = title, vn_Branch = branch, vn_Uploader = uploader\<rparr>))))))"

fun read_versions :: "jvalue option \<Rightarrow> (record_error, Version list) result" where
  "read_versions (Some (JArray items)) =
     (if int (length items) > MaxVersions then Inl (VersionsTooMany (length items))
      else map_result (\<lambda>(i, item). read_version i item) (enumerate 0 items))"
| "read_versions (Some v) = Inl (VersionsNotArray (kind_of v))"
| "read_versions None = Inl (NoField Whole ''versions'')"

definition ParseRecord :: "string \<Rightarrow> (record_error, Record) result" where
  "ParseRecord data =
     rbind (rmap_err Unread (readJSON data)) (\<lambda>v.
     rbind (fieldsOf v Whole [''schema'', ''change_id'', ''target'', ''owner'', ''state'', ''seq'', ''versions'', ''active'']) (\<lambda>ob.
     rbind (stringOf (ob ''schema'') Whole ''schema'') (\<lambda>schema.
     rbind (stringOf (ob ''change_id'') Whole ''change_id'') (\<lambda>change_id.
     rbind (stringOf (ob ''target'') Whole ''target'') (\<lambda>target.
     rbind (stringOf (ob ''owner'') Whole ''owner'') (\<lambda>owner.
     rbind (stringOf (ob ''state'') Whole ''state'') (\<lambda>state.
     rbind (integerOf (ob ''seq'') Whole ''seq'' MaxSeq) (\<lambda>seq.
     rbind (integerOf (ob ''active'') Whole ''active'' MaxVersions) (\<lambda>active.
     rbind (read_versions (ob ''versions'')) (\<lambda>versions.
       let r = \<lparr>cr_Schema = schema, cr_ChangeID = change_id, cr_Target = target, cr_Owner = owner,
                cr_State = state, cr_Seq = seq, cr_Versions = versions, cr_Active = active\<rparr>
       in rbind (rmap_err RuleBroken (check_record r)) (\<lambda>_. Inr r)))))))))))"

section \<open>Writing\<close>

text \<open>The record as the encoder's values, in the order of the struct's fields.\<close>

definition json_int :: "int \<Rightarrow> jvalue" where
  "json_int n = JNumber (if n < 0 then CHR ''-'' # itoa (nat (- n)) else itoa (nat n))"

definition version_value :: "Version \<Rightarrow> jvalue" where
  "version_value v =
     JObject [(''n'', json_int (vn_N v)), (''head'', JString (vn_Head v)), (''title'', JString (vn_Title v)),
       (''branch'', JString (vn_Branch v)), (''uploader'', JString (vn_Uploader v))]"

definition record_value :: "Record \<Rightarrow> jvalue" where
  "record_value r =
     JObject [(''schema'', JString (cr_Schema r)), (''change_id'', JString (cr_ChangeID r)),
       (''target'', JString (cr_Target r)), (''owner'', JString (cr_Owner r)), (''state'', JString (cr_State r)),
       (''seq'', json_int (cr_Seq r)), (''versions'', JArray (map version_value (cr_Versions r))),
       (''active'', json_int (cr_Active r))]"

definition EncodeRecord :: "Record \<Rightarrow> (record_rule, string) result" where
  "EncodeRecord r = rbind (check_record r) (\<lambda>_. Inr (write_value 0 (record_value r) @ [CHR 0x0A]))"

section \<open>Titles\<close>

text \<open>
  \<^verbatim>\<open>strings.ToValidUTF8\<close>: each run of bytes that are part of no rune becomes one U+FFFD. The
  flag says that the piece before was such a byte.
\<close>

fun to_valid :: "bool \<Rightarrow> string list \<Rightarrow> string list" where
  "to_valid bad [] = []"
| "to_valid bad (w # ws) =
     (if is_rune w then w # to_valid False ws
      else if bad then to_valid True ws
      else replacement # to_valid True ws)"

fun title_loop :: "string \<Rightarrow> string list \<Rightarrow> string" where
  "title_loop b [] = b"
| "title_loop b (w # ws) =
     (let w = (if is_control_rune (rune_of w) then '' '' else w)
      in if length b + length w > MaxVersionTitle then b else title_loop (b @ w) ws)"

definition TitleOf :: "string \<Rightarrow> string" where
  "TitleOf subject =
     (let t = trim_space (title_loop [] (to_valid False (chunks subject)))
      in if t \<noteq> [] then t else ''(no subject)'')"

end
