(* ===== verification/RecordRound.thy ===== *)
theory RecordRound
  imports ChangeRecord
begin

text \<open>
  What a record that reads is, that what is written reads back as the same record, and that a
  title made for a version is one a record may hold.
\<close>

section \<open>The rules\<close>

definition version_ok :: "nat \<Rightarrow> Version \<Rightarrow> bool" where
  "version_ok i v \<longleftrightarrow> vn_N v = int i + 1 \<and> ValidHead (vn_Head v) \<and> ValidTitle (vn_Title v) \<and>
     (vn_Branch v = [] \<or> ValidBranch (vn_Branch v) \<and> utf8_valid (vn_Branch v)) \<and> ValidPrincipal (vn_Uploader v)"

definition record_ok :: "Record \<Rightarrow> bool" where
  "record_ok r \<longleftrightarrow> cr_Schema r = Schema \<and> ValidID (cr_ChangeID r) \<and> ValidBranch (cr_Target r) \<and>
     utf8_valid (cr_Target r) \<and> ValidPrincipal (cr_Owner r) \<and> cr_State r \<in> {Ready, Draft, Withdrawn} \<and>
     1 \<le> cr_Seq r \<and> cr_Seq r \<le> MaxSeq \<and> cr_Versions r \<noteq> [] \<and> int (length (cr_Versions r)) \<le> MaxVersions \<and>
     1 \<le> cr_Active r \<and> cr_Active r \<le> int (length (cr_Versions r)) \<and>
     (\<forall>i < length (cr_Versions r). version_ok i (cr_Versions r ! i))"

lemma check_version_iff: "check_version i v = Inr () \<longleftrightarrow> version_ok i v"
  by (auto simp: check_version_def version_ok_def)

lemma enumerate_all: "(\<forall>(i, v) \<in> set (enumerate 0 vs). P i v) \<longleftrightarrow> (\<forall>i < length vs. P i (vs ! i))"
proof
  assume a: "\<forall>(i, v) \<in> set (enumerate 0 vs). P i v"
  have "(i, vs ! i) \<in> set (enumerate 0 vs)" if "i < length vs" for i
    using that by (simp add: in_set_enumerate_eq)
  then show "\<forall>i < length vs. P i (vs ! i)" using a by blast
qed (auto simp: in_set_enumerate_eq)

lemma check_record_iff: "check_record r = Inr () \<longleftrightarrow> record_ok r"
proof -
  have "check_all (\<lambda>(i, v). check_version i v) (enumerate 0 vs) = Inr () \<longleftrightarrow> (\<forall>i < length vs. version_ok i (vs ! i))" for vs
    using enumerate_all [of vs version_ok] by (auto simp: result_simps check_version_iff)
  then show ?thesis by (auto simp: check_record_def record_ok_def not_less)
qed

lemma parsed_ok: "ParseRecord s = Inr r \<Longrightarrow> record_ok r"
  by (auto simp: ParseRecord_def result_simps check_record_iff Let_def)

lemma active_indexed: "record_ok r \<Longrightarrow> nat (cr_Active r - 1) < length (cr_Versions r)"
  by (auto simp: record_ok_def)

section \<open>Valid text\<close>

lemma ascii_utf8: "list_all (\<lambda>c. byte_val c < 128) s \<Longrightarrow> utf8_valid s"
  by (rule utf8_valid_all_ascii) (simp add: list_all_iff)

lemma principal_utf8: "ValidPrincipal s \<Longrightarrow> utf8_valid s"
proof -
  assume "ValidPrincipal s"
  then obtain c t where s: "s = c # t" "in_class [(CHR ''a'', CHR ''z''), (CHR ''A'', CHR ''Z''), (CHR ''0'', CHR ''9'')] c"
    "\<forall>c \<in> set t. in_class [(CHR ''a'', CHR ''z''), (CHR ''A'', CHR ''Z''), (CHR ''0'', CHR ''9''),
       (CHR ''.'', CHR ''.''), (CHR ''_'', CHR ''_''), (CHR ''-'', CHR ''-'')] c"
    by (auto simp: ValidPrincipal_def re_principalName_def matches_iff simp del: in_class_simps)
  have "byte_val c < 128" if "lo \<le> c" "c \<le> hi" "byte_val hi < 128" for lo hi c
    using that(2,3) by (auto simp: less_eq_char_def byte_val_def)
  then show ?thesis
    unfolding s(1) using s(2,3) by (intro utf8_valid_all_ascii) (fastforce simp: byte_val_def)
qed

lemma head_utf8: "ValidHead s \<Longrightarrow> utf8_valid s"
proof -
  assume h: "ValidHead s"
  then have "s = HeadPrefix @ drop (length HeadPrefix) s" "list_all is_lower_hex (drop (length HeadPrefix) s)"
    unfolding ValidHead_def by (metis append_take_drop_id, metis)
  moreover have "list_all (\<lambda>c. byte_val c < 128) HeadPrefix" by (simp add: HeadPrefix_def byte_val_def)
  moreover have "list_all (\<lambda>c. byte_val c < 128) t" if "list_all is_lower_hex t" for t
    using that by (rule list.pred_mono_strong) (auto simp: is_lower_hex_def)
  ultimately show ?thesis using ascii_utf8 by (metis list_all_append)
qed

lemma id_utf8: "ValidID s \<Longrightarrow> utf8_valid s"
  by (intro utf8_valid_all_ascii) (auto simp: ValidID_def dest!: id_text_mem)

lemma title_utf8: "ValidTitle s \<Longrightarrow> utf8_valid s"
  by (auto simp: ValidTitle_def split: if_splits)

lemma name_utf8: "utf8_valid Schema" "utf8_valid Ready" "utf8_valid Draft" "utf8_valid Withdrawn"
  by (intro ascii_utf8, simp add: Schema_def Ready_def Draft_def Withdrawn_def byte_val_def)+

section \<open>What is written is valid text\<close>

lemma json_ascii_utf8: "byte_val c < 128 \<Longrightarrow> utf8_valid (json_ascii c)"
proof (rule utf8_valid_all_ascii)
  have "byte_val (hex_digit n) < 128" if "n < 16" for n using that by (auto simp: hex_digit_def)
  then show "byte_val c < 128 \<Longrightarrow> \<forall>d \<in> set (json_ascii c). byte_val d < 128"
    by (auto simp: json_ascii_def Let_def)
qed

lemma json_piece_utf8: "is_rune w \<or> (\<exists>c. w = [c]) \<Longrightarrow> utf8_valid (json_piece w)"
proof -
  assume w: "is_rune w \<or> (\<exists>c. w = [c])"
  have "length w \<noteq> 1 \<Longrightarrow> utf8_valid w" using w utf8_valid_rune [of w "[]"] by auto
  moreover have "utf8_valid (backslash # ''u2028'')" "utf8_valid (backslash # ''u2029'')" "utf8_valid (backslash # ''ufffd'')"
    by (intro ascii_utf8, simp add: byte_val_def backslash_def)+
  ultimately show ?thesis using json_ascii_utf8 by (auto simp: json_piece_def)
qed

lemma json_quote_utf8: "utf8_valid (json_quote s @ t) \<longleftrightarrow> utf8_valid t"
proof -
  have "utf8_valid (concat (map json_piece ws) @ t) \<longleftrightarrow> utf8_valid t"
    if "\<forall>w \<in> set ws. is_rune w \<or> (\<exists>c. w = [c])" for ws t
    using that by (induction ws) (simp_all add: utf8_valid_append json_piece_utf8)
  then show ?thesis using chunks_shape by (simp add: json_quote_def json_body_def)
qed

lemma join_utf8:
  assumes "\<forall>w \<in> set ws. \<forall>t. utf8_valid (w @ t) \<longleftrightarrow> utf8_valid t" "utf8_valid sep"
  shows "utf8_valid (join_str sep ws @ t) \<longleftrightarrow> utf8_valid t"
  using assms(1)
proof (induction ws)
  case (Cons w ws)
  then show ?case by (cases "ws = []") (auto simp: join_str_Cons utf8_valid_append [OF assms(2)])
qed simp

lemma break_utf8: "utf8_valid (break l)"
  by (rule utf8_valid_all_ascii) (auto simp: break_def byte_val_def)

lemma sep_utf8: "utf8_valid (CHR '','' # break l)"
  using break_utf8 by (simp add: byte_val_def)

lemma write_utf8: "writable d v \<Longrightarrow> utf8_valid (write_value l v @ t) \<longleftrightarrow> utf8_valid t"
proof (induction v arbitrary: d l t)
  case (JObject ms)
  have m: "\<forall>m \<in> set ms. utf8_valid (fst m) \<and> (\<forall>t. utf8_valid (write_value (l + 1) (snd m) @ t) \<longleftrightarrow> utf8_valid t)"
    using JObject by (auto simp: list_all_iff snds.simps)
  have ws: "\<forall>w \<in> set (map (member_text l) ms). \<forall>t. utf8_valid (w @ t) \<longleftrightarrow> utf8_valid t"
    using m by (auto simp: member_text_def json_quote_utf8 byte_val_def)
  show ?case
  proof (cases "ms = []")
    case False
    then show ?thesis
      unfolding write_members [OF False]
      using join_utf8 [OF ws sep_utf8, of "l + 1"] by (simp add: utf8_valid_append [OF break_utf8] byte_val_def)
  qed (simp add: byte_val_def)
next
  case (JArray vs)
  have ws: "\<forall>w \<in> set (map (write_value (l + 1)) vs). \<forall>t. utf8_valid (w @ t) \<longleftrightarrow> utf8_valid t"
    using JArray by (auto simp: list_all_iff)
  show ?case
  proof (cases "vs = []")
    case False
    then show ?thesis
      using join_utf8 [OF ws sep_utf8, of "l + 1"] by (simp add: utf8_valid_append [OF break_utf8] byte_val_def)
  qed (simp add: byte_val_def)
next
  case (JNumber n)
  then have "\<forall>c \<in> set n. byte_val c < 128" by (auto simp: canonical_decimal_def is_digit_def)
  then show ?case using utf8_valid_append [OF utf8_valid_all_ascii] by simp
next
  case (JLiteral n)
  then have "utf8_valid n" by (intro ascii_utf8) (auto simp: literals_def byte_val_def)
  then show ?case by (simp add: utf8_valid_append)
qed (simp add: json_quote_utf8)

section \<open>A record is read back\<close>

lemma json_int_pos: "1 \<le> n \<Longrightarrow> json_int n = JNumber (itoa (nat n))"
  by (simp add: json_int_def)

lemma integer_back:
  assumes "1 \<le> n" "n \<le> mx" "mx \<le> MaxSeq"
  shows "integerOf (Some (json_int n)) at name mx = Inr n"
  using assms by (simp add: json_int_pos itoa_digits list_all_iff MaxSeq_def)

lemma fields_back: "map fst ms = names \<Longrightarrow> fieldsOf (JObject ms) at names = Inr (map_of ms)"
  by (auto simp: find_None_iff split: option.splits dest!: find_SomeD)

lemma version_back: "version_ok i v \<Longrightarrow> int i < MaxVersions \<Longrightarrow> read_version i (version_value v) = Inr v"
  using integer_back [of "vn_N v" MaxVersions "VersionAt i" "''n''"]
  by (simp add: read_version_def version_value_def fields_back version_ok_def MaxSeq_def MaxVersions_def)

lemma map_result_enumerate:
  "(\<And>i. i < length xs \<Longrightarrow> f (n + i) (g (xs ! i)) = Inr (xs ! i)) \<Longrightarrow>
   map_result (\<lambda>(i, x). f i x) (enumerate n (map g xs)) = Inr xs"
proof (induction xs arbitrary: n)
  case (Cons x xs)
  have "f n (g x) = Inr x" using Cons.prems [of 0] by simp
  moreover have "f (Suc n + i) (g (xs ! i)) = Inr (xs ! i)" if "i < length xs" for i
    using Cons.prems [of "Suc i"] that by simp
  ultimately show ?case using Cons.IH [of "Suc n"] by simp
qed simp

lemma versions_back:
  assumes "record_ok r"
  shows "read_versions (Some (JArray (map version_value (cr_Versions r)))) = Inr (cr_Versions r)"
proof -
  have "int i < MaxVersions" if "i < length (cr_Versions r)" for i using assms that by (simp add: record_ok_def)
  then have "map_result (\<lambda>(i, item). read_version i item) (enumerate 0 (map version_value (cr_Versions r))) = Inr (cr_Versions r)"
    using assms version_back by (intro map_result_enumerate) (simp add: record_ok_def)
  then show ?thesis using assms by (simp add: record_ok_def not_less)
qed

lemma version_writable: "version_ok i v \<Longrightarrow> writable 3 (version_value v)"
  by (auto simp: version_ok_def version_value_def json_int_pos itoa_canonical maxDepth_def head_utf8 title_utf8 principal_utf8)
    (simp_all add: byte_val_def)

lemma record_writable: "record_ok r \<Longrightarrow> writable 1 (record_value r)"
proof -
  assume r: "record_ok r"
  have "list_all (writable (Suc (Suc (Suc 0)))) (map version_value (cr_Versions r))"
    using r version_writable [unfolded numeral_3_eq_3] by (auto simp: record_ok_def list_all_length)
  moreover have "utf8_valid (cr_State r)" using r name_utf8 by (auto simp: record_ok_def)
  moreover have "utf8_valid w" if "w \<in> {''schema'', ''change_id'', ''target'', ''owner'', ''state'', ''seq'', ''versions'', ''active''}" for w
    using that by (intro ascii_utf8) (auto simp: byte_val_def)
  ultimately show ?thesis using r
    by (simp add: record_ok_def record_value_def json_int_pos itoa_canonical maxDepth_def name_utf8 id_utf8 principal_utf8)
qed

lemma clean_int [simp]: "clean (json_int n) = json_int n"
  by (simp add: json_int_def)

lemma record_clean: "record_ok r \<Longrightarrow> clean (record_value r) = record_value r"
proof -
  assume r: "record_ok r"
  have "clean (version_value v) = version_value v" if v: "v \<in> set (cr_Versions r)" for v
  proof -
    obtain i where "i < length (cr_Versions r)" "v = cr_Versions r ! i" using v by (auto simp: in_set_conv_nth)
    then have "version_ok i v" using r by (simp add: record_ok_def)
    then show ?thesis by (auto simp: version_ok_def version_value_def head_utf8 title_utf8 principal_utf8)
  qed
  moreover have "utf8_valid (cr_State r)" using r name_utf8 by (auto simp: record_ok_def)
  ultimately show ?thesis using r
    by (simp add: record_ok_def record_value_def name_utf8 id_utf8 principal_utf8)
qed

lemma record_back:
  assumes "record_ok r"
  shows "ParseRecord (write_value 0 (record_value r) @ [CHR 0x0A]) = Inr r"
proof -
  have w: "writable 1 (record_value r)" by (rule record_writable [OF assms])
  have "utf8_valid (write_value 0 (record_value r))" using write_utf8 [OF w, of 0 "[]"] by simp
  then have j: "readJSON (write_value 0 (record_value r) @ [CHR 0x0A]) = Inr (record_value r)"
    using readJSON_write [OF w] record_clean [OF assms] by simp
  have n: "integerOf (Some (json_int (cr_Seq r))) Whole ''seq'' MaxSeq = Inr (cr_Seq r)"
    "integerOf (Some (json_int (cr_Active r))) Whole ''active'' MaxVersions = Inr (cr_Active r)"
    using assms by (intro integer_back; simp add: record_ok_def MaxVersions_def MaxSeq_def)+
  have e: "\<lparr>cr_Schema = cr_Schema r, cr_ChangeID = cr_ChangeID r, cr_Target = cr_Target r, cr_Owner = cr_Owner r,
      cr_State = cr_State r, cr_Seq = cr_Seq r, cr_Versions = cr_Versions r, cr_Active = cr_Active r\<rparr> = r"
    by (cases r) simp
  have c: "check_record r = Inr ()" using assms check_record_iff by blast
  show ?thesis
    unfolding ParseRecord_def j rmap_err.simps rbind.simps
    using n versions_back [OF assms]
    by (simp add: record_value_def fields_back c e Let_def del: read_versions.simps fieldsOf.simps)
qed

text \<open>
  A record that keeps every rule is written as bytes the strict reader reads back as the same
  record, and whatever the reader accepts keeps every rule, so it can be written again.
\<close>

theorem EncodeRecord_read:
  "check_record r = Inr () \<longleftrightarrow> (\<exists>s. EncodeRecord r = Inr s \<and> ParseRecord s = Inr r)"
  using record_back parsed_ok by (auto simp: EncodeRecord_def check_record_iff result_simps)

section \<open>Titles\<close>

lemma to_valid_runes: "list_all is_rune (to_valid bad ws)"
proof -
  have "is_rune replacement"
    by (simp add: is_rune_def replacement_def utf8_len_def second_lo_def second_hi_def byte_in_def byte_val_def)
  then show ?thesis by (induction bad ws rule: to_valid.induct) auto
qed

definition plain_runes :: "string list \<Rightarrow> bool" where
  "plain_runes ws \<longleftrightarrow> list_all (\<lambda>w. is_rune w \<and> \<not> is_control_rune (rune_of w)) ws"

lemma title_loop_runes:
  "list_all is_rune ws \<Longrightarrow> plain_runes vs \<Longrightarrow> length (concat vs) \<le> MaxVersionTitle \<Longrightarrow>
   \<exists>vs'. title_loop (concat vs) ws = concat vs' \<and> plain_runes vs' \<and> length (concat vs') \<le> MaxVersionTitle"
proof (induction ws arbitrary: vs)
  case (Cons w ws)
  let ?w = "if is_control_rune (rune_of w) then '' '' else w"
  have w: "plain_runes (vs @ [?w])"
    using Cons.prems(1,2) by (auto simp: plain_runes_def rune_of_def is_control_rune_def byte_val_def)
  show ?case
  proof (cases "length (concat vs) + length ?w > MaxVersionTitle")
    case True
    then show ?thesis using Cons.prems by (auto simp: Let_def)
  next
    case False
    then show ?thesis using Cons.IH [OF _ w] Cons.prems(1) by (simp add: Let_def)
  qed
qed auto

lemma chunks_concat: "list_all is_rune ws \<Longrightarrow> chunks (concat ws) = ws"
  by (induction ws) (simp_all add: chunks_rune chunks.simps [of "[]"])

lemma title_ok: "ValidTitle (TitleOf s)"
proof -
  obtain vs where vs: "title_loop [] (to_valid False (chunks s)) = concat vs" "plain_runes vs"
    "length (concat vs) \<le> MaxVersionTitle"
    using title_loop_runes [OF to_valid_runes, of "[]"] by (auto simp: plain_runes_def)
  define ts where "ts = trim_right_list space_chunk (dropWhile space_chunk vs)"
  have r: "list_all is_rune vs" using vs(2) by (simp add: plain_runes_def list_all_iff)
  have t: "trim_space (concat vs) = concat ts" unfolding trim_space_def chunks_concat [OF r] ts_def ..
  have sub: "set ts \<subseteq> set vs" unfolding ts_def trim_right_list_def by (auto dest!: set_dropWhileD)
  have "list_all is_rune ts" using r sub by (auto simp: list_all_iff)
  then have ch: "chunks (concat ts) = ts" by (rule chunks_concat)
  have "utf8_valid (concat ts)" "\<not> list_ex is_control_rune (runes (concat ts))"
    using vs(2) sub by (auto simp: utf8_valid_def runes_def ch plain_runes_def list_all_iff list_ex_iff)
  moreover have "length (concat ts) \<le> MaxVersionTitle" using length_trim_space [of "concat vs"] vs(3) t by simp
  moreover have "ValidTitle ''(no subject)''"
    by (simp add: ValidTitle_def MaxVersionTitle_def byte_val_def runes_def chunks_ascii rune_of_def is_control_rune_def)
  ultimately show ?thesis using t vs(1)
    by (cases "concat ts = []") (simp_all add: TitleOf_def Let_def ValidTitle_def Suc_le_eq)
qed

text \<open>
  Whatever the subject of a commit holds, the title made of it is one a record may hold: 1 to
  200 bytes of UTF-8 free of control characters.
\<close>

theorem TitleOf_valid: "ValidTitle (TitleOf s)"
  by (rule title_ok)

end
