(* ===== verification/HookRepo.thy ===== *)
theory HookRepo
  imports KnotCommit KnotLayout
begin

text \<open>
  \<^verbatim>\<open>valleyhook/repo.go\<close>, and the readers of one-file commits in \<^verbatim>\<open>valleyhook/record.go\<close>: how the
  pre-receive hook reads pushed objects within fixed bounds. What git holds is a parameter, a
  function from an object ID to the type and the content of the object; git's process, its
  pipes and the deadline are left out.
\<close>

section \<open>Reading objects within a budget\<close>

type_synonym object_store = "string \<Rightarrow> (string \<times> string) option"

record budget =
  bg_depth :: nat
  bg_entriesInTree :: nat
  bg_entries :: nat
  bg_treeSize :: nat
  bg_fileSize :: nat
  bg_bytes :: nat

definition attestationBudget :: budget where
  "attestationBudget =
     \<lparr>bg_depth = 4, bg_entriesInTree = 64, bg_entries = 256, bg_treeSize = 16 * 1024, bg_fileSize = 64 * 1024,
      bg_bytes = 1024 * 1024\<rparr>"

datatype object_error = NotBrought | PointsAt string | PastSize nat | PastBytes

text \<open>\<^verbatim>\<open>objectStream.read\<close>: the content, and what the walk has spent after it.\<close>

definition read_object ::
  "object_store \<Rightarrow> budget \<Rightarrow> nat \<Rightarrow> string \<Rightarrow> string \<Rightarrow> nat \<Rightarrow> (object_error, string \<times> nat) result" where
  "read_object objs b spent oid kind mx =
     (case objs oid of
        None \<Rightarrow> Inl NotBrought
      | Some (got, body) \<Rightarrow>
          if got \<noteq> kind then Inl (PointsAt got)
          else if length body > mx then Inl (PastSize (length body))
          else if spent + length body > bg_bytes b then Inl PastBytes
          else Inr (body, spent + length body))"

section \<open>Tree entries\<close>

definition gitModes :: "string list" where
  "gitModes = [''100644'', ''100755'', ''120000'', ''40000'', ''160000'']"

datatype entry_error = NotAnEntry | EmptyName | DotName string | SlashName string | BadMode string string

definition treeEntry :: "string \<Rightarrow> nat \<Rightarrow> (entry_error, string \<times> string \<times> string \<times> string) result" where
  "treeEntry body hashSize =
     (case (index_byte body (CHR '' ''), index_byte body (CHR 0x00)) of
        (Some sp, Some nul) \<Rightarrow>
          if nul < sp \<or> length body < nul + 1 + hashSize then Inl NotAnEntry
          else
            let mode = take sp body; name = take (nul - (sp + 1)) (drop (sp + 1) body)
            in if name = [] then Inl EmptyName
               else if name = ''.'' \<or> name = ''..'' then Inl (DotName name)
               else if list_ex (\<lambda>c. c = CHR ''/'' \<or> c = CHR 0x00) name then Inl (SlashName name)
               else if mode \<notin> set gitModes then Inl (BadMode name mode)
               else
                 Inr (mode, name, hex_encode (take hashSize (drop (nul + 1) body)), drop (nul + 1 + hashSize) body)
      | _ \<Rightarrow> Inl NotAnEntry)"

lemma treeEntry_shorter: "treeEntry body h = Inr (mode, name, oid, rest) \<Longrightarrow> length rest < length body"
  by (auto simp: treeEntry_def Let_def index_byte_Some split: option.splits if_splits)

lemma treeEntry_child: "treeEntry body h = Inr (mode, name, oid, rest) \<Longrightarrow> length oid = 2 * h"
  by (auto simp: treeEntry_def Let_def length_hex_encode split: option.splits if_splits)

section \<open>Commits of one file\<close>

record oneFile =
  of_name :: string
  of_commit :: nat
  of_tree :: nat
  of_blob :: nat

definition recordLayout :: oneFile where
  "recordLayout = \<lparr>of_name = ''record.json'', of_commit = 4 * 1024, of_tree = 1024, of_blob = 64 * 1024\<rparr>"

definition reportLayout :: oneFile where
  "reportLayout = \<lparr>of_name = ''report.json'', of_commit = 4 * 1024, of_tree = 1024, of_blob = 64 * 1024\<rparr>"

record fileCommit =
  fc_parents :: "string list"
  fc_file :: string

definition isHexID :: "string \<Rightarrow> nat \<Rightarrow> bool" where
  "isHexID s n \<longleftrightarrow> (if length s \<noteq> 2 * n then False else list_all is_lower_hex s)"

datatype links_error = NoTreeLine | ParentNoID | ParentLate

fun link_parents :: "nat \<Rightarrow> string list \<Rightarrow> string list \<Rightarrow> (links_error, string list) result" where
  "link_parents hashSize ps [] = Inr ps"
| "link_parents hashSize ps (l # ls) =
     (if has_prefix l ''parent '' then
        (let p = trim_prefix l ''parent ''
         in if \<not> isHexID p hashSize then Inl ParentNoID else link_parents hashSize (ps @ [p]) ls)
      else if list_ex (\<lambda>line. has_prefix line ''parent '') (l # ls) then Inl ParentLate
      else Inr ps)"

definition commitLinks :: "string \<Rightarrow> nat \<Rightarrow> (links_error, string \<times> string list) result" where
  "commitLinks body hashSize =
     (let header = (case cut_str body [CHR 0x0A, CHR 0x0A] of None \<Rightarrow> body | Some (h, _) \<Rightarrow> h)
      in case split_byte (CHR 0x0A) header of
           [] \<Rightarrow> Inl NoTreeLine
         | l # ls \<Rightarrow>
             (case cut_prefix l ''tree '' of
                None \<Rightarrow> Inl NoTreeLine
              | Some tree \<Rightarrow>
                  if \<not> isHexID tree hashSize then Inl NoTreeLine
                  else rbind (link_parents hashSize [] ls) (\<lambda>ps. Inr (tree, ps))))"

datatype file_error =
    CommitUnread object_error
  | BadLinks links_error
  | TreeUnread object_error
  | TreeEmpty
  | TreeEntryBad entry_error
  | MoreEntries
  | OtherFile string string
  | FileUnread object_error

definition readFileCommit :: "object_store \<Rightarrow> budget \<Rightarrow> string \<Rightarrow> oneFile \<Rightarrow> (file_error, fileCommit) result" where
  "readFileCommit objs b oid l =
     (let hashSize = length oid div 2 in
      rbind (rmap_err CommitUnread (read_object objs b 0 oid ''commit'' (of_commit l))) (\<lambda>(body, spent).
      rbind (rmap_err BadLinks (commitLinks body hashSize)) (\<lambda>(tree, parents).
      rbind (rmap_err TreeUnread (read_object objs b spent tree ''tree'' (of_tree l))) (\<lambda>(entries, spent).
        if entries = [] then Inl TreeEmpty
        else
          rbind (rmap_err TreeEntryBad (treeEntry entries hashSize)) (\<lambda>(mode, name, blob, rest).
            if rest \<noteq> [] then Inl MoreEntries
            else if name \<noteq> of_name l \<or> mode \<noteq> ''100644'' then Inl (OtherFile name mode)
            else
              rbind (rmap_err FileUnread (read_object objs b spent blob ''blob'' (of_blob l))) (\<lambda>(data, spent).
                Inr \<lparr>fc_parents = parents, fc_file = data\<rparr>))))))"

text \<open>\<^verbatim>\<open>readOneFile\<close>: the record or report commit an ID names, in a stream of its own.\<close>

definition readOneFile :: "object_store \<Rightarrow> string \<Rightarrow> oneFile \<Rightarrow> (file_error, fileCommit) result" where
  "readOneFile objs oid l = readFileCommit objs attestationBudget oid l"

section \<open>Walks\<close>

datatype walk_error =
    ObjectUnread string object_error
  | TreeTooWide
  | WalkTooLong
  | EntryBad string entry_error
  | TooDeep string
  | ModeRefused string string
  | NoNotes

record 'v walk_state =
  ws_spent :: nat
  ws_entries :: nat
  ws_found :: 'v

type_synonym 'v visit = "'v walk_state \<Rightarrow> string \<Rightarrow> string \<Rightarrow> string \<Rightarrow> (walk_error, 'v walk_state) result"

definition entry_at :: "string \<Rightarrow> string \<Rightarrow> string" where
  "entry_at path name = (if path \<noteq> [] then path @ ''/'' @ name else name)"

text \<open>
  A tree and the entries left of it. Nesting is bounded by the budget's depth and each entry is
  cut off the body, so the walk always ends.
\<close>

function walk_tree ::
  "object_store \<Rightarrow> budget \<Rightarrow> 'v visit \<Rightarrow> nat \<Rightarrow> string \<Rightarrow> string \<Rightarrow> nat \<Rightarrow> 'v walk_state \<Rightarrow> (walk_error, 'v walk_state) result"
  and walk_entries ::
  "object_store \<Rightarrow> budget \<Rightarrow> 'v visit \<Rightarrow> nat \<Rightarrow> string \<Rightarrow> string \<Rightarrow> nat \<Rightarrow> nat \<Rightarrow> 'v walk_state \<Rightarrow>
     (walk_error, 'v walk_state) result"
  where
  "walk_tree objs b visit h oid path depth st =
     rbind (rmap_err (ObjectUnread path) (read_object objs b (ws_spent st) oid ''tree'' (bg_treeSize b))) (\<lambda>(body, spent).
       walk_entries objs b visit h body path depth 0 (st\<lparr>ws_spent := spent\<rparr>))"
| "walk_entries objs b visit h body path depth inTree st =
     (if body = [] then Inr st
      else if inTree + 1 > bg_entriesInTree b then Inl TreeTooWide
      else if ws_entries st + 1 > bg_entries b then Inl WalkTooLong
      else
        rbind (rmap_err (EntryBad path) (treeEntry body h)) (\<lambda>(mode, name, child, rest).
          let at = entry_at path name
          in if mode = ''40000'' \<and> depth + 1 > bg_depth b then Inl (TooDeep at)
             else
               rbind (visit (st\<lparr>ws_entries := ws_entries st + 1\<rparr>) at mode child) (\<lambda>st1.
               rbind (if mode = ''40000'' then walk_tree objs b visit h child at (depth + 1) st1 else Inr st1) (\<lambda>st2.
                 walk_entries objs b visit h rest path depth (inTree + 1) st2))))"
  by pat_completeness auto
termination
  by (relation "inv_image (less_than <*lex*> less_than <*lex*> less_than)
    (\<lambda>x. case x of Inl (objs, b, visit, h, oid, path, depth, st) \<Rightarrow> (bg_depth b + 1 - depth, 1, 0)
      | Inr (objs, b, visit, h, body, path, depth, inTree, st) \<Rightarrow> (bg_depth b + 1 - depth, 0, length body))")
    (auto simp: rmap_err_eq_Inr dest!: treeEntry_shorter)

declare walk_tree.simps [simp del] walk_entries.simps [simp del]

definition visit_note :: "object_store \<Rightarrow> budget \<Rightarrow> (string \<times> string) list visit" where
  "visit_note objs b st at mode child =
     (if mode = ''40000'' then Inr st
      else if mode = ''100644'' then
        rbind (rmap_err (ObjectUnread at) (read_object objs b (ws_spent st) child ''blob'' (bg_fileSize b))) (\<lambda>(n, spent).
          Inr (st\<lparr>ws_spent := spent, ws_found := AList.update at n (ws_found st)\<rparr>))
      else Inl (ModeRefused at mode))"

definition walk_start :: "'v \<Rightarrow> 'v walk_state" where
  "walk_start v = \<lparr>ws_spent = 0, ws_entries = 0, ws_found = v\<rparr>"

definition walkNotes :: "object_store \<Rightarrow> string \<Rightarrow> (walk_error, (string \<times> string) list) result" where
  "walkNotes objs oid =
     rbind (walk_tree objs attestationBudget (visit_note objs attestationBudget) (length oid div 2) oid [] 1 (walk_start []))
       (\<lambda>st. if length (ws_found st) = 0 then Inl NoNotes else Inr (ws_found st))"

text \<open>
  The plan graph's reading, \<^verbatim>\<open>streamGraph\<close> of \<^verbatim>\<open>knots.go\<close>: a commit, and every entry below a tree. The
  bytes spent are passed along, as one stream reads everything a push's check asks for.
\<close>

definition graphBudget :: budget where
  "graphBudget =
     \<lparr>bg_depth = 3, bg_entriesInTree = MaxComments, bg_entries = 5 + 2 * MaxKnots + MaxComments, bg_treeSize = 2 * 1024 * 1024,
      bg_fileSize = MaxKnotSize, bg_bytes = 64 * 1024 * 1024\<rparr>"

definition MaxCommitSize :: nat where "MaxCommitSize = 16 * 1024"

datatype graph_read_error = CommitAbsent object_error | CommitBad commit_error | ListingBad walk_error

definition stream_commit :: "object_store \<Rightarrow> nat \<Rightarrow> string \<Rightarrow> (graph_read_error, Commit \<times> nat) result" where
  "stream_commit objs spent oid =
     rbind (rmap_err CommitAbsent (read_object objs graphBudget spent oid ''commit'' MaxCommitSize)) (\<lambda>(body, spent).
     rbind (rmap_err CommitBad (ParseCommit body (length oid div 2))) (\<lambda>c. Inr (c, spent)))"

definition visit_entry :: "Entry list visit" where
  "visit_entry st at mode child = Inr (st\<lparr>ws_found := ws_found st @ [\<lparr>en_Path = at, en_Mode = mode, en_OID = child\<rparr>]\<rparr>)"

definition stream_tree :: "object_store \<Rightarrow> nat \<Rightarrow> string \<Rightarrow> (graph_read_error, Entry list \<times> nat) result" where
  "stream_tree objs spent oid =
     rbind (rmap_err ListingBad
       (walk_tree objs graphBudget visit_entry (length oid div 2) oid [] 1 ((walk_start [])\<lparr>ws_spent := spent\<rparr>)))
       (\<lambda>st. Inr (ws_found st, ws_spent st))"

definition stream_blob :: "object_store \<Rightarrow> nat \<Rightarrow> string \<Rightarrow> nat \<Rightarrow> (object_error, string \<times> nat) result" where
  "stream_blob objs spent oid mx = read_object objs graphBudget spent oid ''blob'' mx"

section \<open>The bounds hold\<close>

text \<open>What every reading keeps: it visits and spends no more than its budget.\<close>

definition within :: "budget \<Rightarrow> 'v walk_state \<Rightarrow> bool" where
  "within b st \<longleftrightarrow> ws_entries st \<le> bg_entries b \<and> ws_spent st \<le> bg_bytes b"

lemma read_object_within: "read_object objs b spent oid kind mx = Inr (body, spent') \<Longrightarrow>
    spent' = spent + length body \<and> spent' \<le> bg_bytes b \<and> length body \<le> mx \<and> objs oid = Some (kind, body)"
  by (auto simp: read_object_def split: option.splits if_splits)

text \<open>An invariant of the visits is an invariant of the walk.\<close>

lemma walk_keeps:
  fixes P :: "'v walk_state \<Rightarrow> bool"
  assumes read: "\<And>st spent. P st \<Longrightarrow> ws_spent st \<le> spent \<Longrightarrow> spent \<le> bg_bytes b \<Longrightarrow> P (st\<lparr>ws_spent := spent\<rparr>)"
    and seen: "\<And>st st' at mode child. P st \<Longrightarrow> ws_entries st < bg_entries b \<Longrightarrow> length child = 2 * h \<Longrightarrow>
      visit (st\<lparr>ws_entries := ws_entries st + 1\<rparr>) at mode child = Inr st' \<Longrightarrow> P st'"
  shows "walk_tree objs b visit h oid path depth st = Inr st' \<Longrightarrow> P st \<Longrightarrow> P st'"
    and "walk_entries objs b visit h body path depth inTree st = Inr st' \<Longrightarrow> P st \<Longrightarrow> P st'"
  using read seen
proof (induction objs b visit h oid path depth st and objs b visit h body path depth inTree st
    arbitrary: st' and st' rule: walk_tree_walk_entries.induct)
  case (1 objs b visit h oid path depth st)
  then obtain body spent where r: "read_object objs b (ws_spent st) oid ''tree'' (bg_treeSize b) = Inr (body, spent)"
    and w: "walk_entries objs b visit h body path depth 0 (st\<lparr>ws_spent := spent\<rparr>) = Inr st'"
    unfolding walk_tree.simps [of objs b visit h oid path depth st] by (auto simp: result_simps)
  have "P (st\<lparr>ws_spent := spent\<rparr>)" using 1(4) [OF 1(3)] read_object_within [OF r] by simp
  then show ?case using 1(1) [OF _ refl w] r 1(4,5) by (simp add: result_simps)
next
  case (2 objs b visit h body path depth inTree st)
  show ?case
  proof (cases "body = []")
    case True
    then show ?thesis using 2(3,4) by (simp add: walk_entries.simps)
  next
    case False
    note step = walk_entries.simps [of objs b visit h body path depth inTree st]
    obtain mode name child rest where
      e: "\<not> inTree + 1 > bg_entriesInTree b" "\<not> ws_entries st + 1 > bg_entries b"
      "treeEntry body h = Inr (mode, name, child, rest)"
      using 2(3) False unfolding step by (cases "treeEntry body h") (auto split: if_splits)
    let ?at = "entry_at path name"
    have d: "\<not> (mode = ''40000'' \<and> depth + 1 > bg_depth b)"
      using 2(3) False e unfolding step by (auto simp: Let_def split: if_splits)
    then have "rbind (visit (st\<lparr>ws_entries := ws_entries st + 1\<rparr>) ?at mode child) (\<lambda>st1.
        rbind (if mode = ''40000'' then walk_tree objs b visit h child ?at (depth + 1) st1 else Inr st1) (\<lambda>st2.
          walk_entries objs b visit h rest path depth (inTree + 1) st2)) = Inr st'"
      using 2(3) False e unfolding step by (simp only: if_False rmap_err.simps rbind.simps prod.case Let_def)
    then obtain st1 st2 where v: "visit (st\<lparr>ws_entries := ws_entries st + 1\<rparr>) ?at mode child = Inr st1"
      and w: "(if mode = ''40000'' then walk_tree objs b visit h child ?at (depth + 1) st1 else Inr st1) = Inr st2"
        "walk_entries objs b visit h rest path depth (inTree + 1) st2 = Inr st'"
      unfolding rbind_eq_Inr by blast
    have re: "rmap_err (EntryBad path) (treeEntry body h) = Inr (mode, name, child, rest)" by (simp add: e(3))
    have p1: "P st1" using 2(6) [OF 2(4) _ treeEntry_child [OF e(3)] v] e(2) by simp
    have "P st2"
    proof (cases "mode = ''40000''")
      case True
      then have "walk_tree objs b visit h child ?at (depth + 1) st1 = Inr st2" using w(1) by simp
      then show ?thesis
        by (rule 2(1) [OF False e(1,2) re refl refl refl refl d v True _ p1 2(5,6)])
    next
      case False
      then show ?thesis using w(1) p1 by simp
    qed
    then show ?thesis
      by (rule 2(2) [OF False e(1,2) re refl refl refl refl d v w(1,2) _ 2(5,6)])
  qed
qed

text \<open>A listing of the plan graph names an object for every entry, and is within the graph's bounds.\<close>

definition listing_ok :: "nat \<Rightarrow> Entry list walk_state \<Rightarrow> bool" where
  "listing_ok h st \<longleftrightarrow> ws_spent st \<le> bg_bytes graphBudget \<and> ws_entries st \<le> bg_entries graphBudget \<and>
     length (ws_found st) \<le> ws_entries st \<and> list_all (\<lambda>e. length (en_OID e) = 2 * h) (ws_found st)"

lemma stream_tree_listing:
  assumes "stream_tree objs spent oid = Inr (entries, spent')" "spent \<le> bg_bytes graphBudget"
  shows "length entries \<le> bg_entries graphBudget \<and> spent' \<le> bg_bytes graphBudget \<and>
    list_all (\<lambda>e. length (en_OID e) = 2 * (length oid div 2)) entries"
proof -
  obtain st where st: "walk_tree objs graphBudget visit_entry (length oid div 2) oid [] 1 ((walk_start [])\<lparr>ws_spent := spent\<rparr>) = Inr st"
    "entries = ws_found st" "spent' = ws_spent st"
    using assms(1) by (auto simp: stream_tree_def result_simps)
  have "listing_ok (length oid div 2) st"
  proof (rule walk_keeps(1) [OF _ _ st(1)])
    show "listing_ok (length oid div 2) ((walk_start [])\<lparr>ws_spent := spent\<rparr>)"
      using assms(2) by (simp add: listing_ok_def walk_start_def)
  qed (auto simp: listing_ok_def visit_entry_def)
  then show ?thesis using st by (auto simp: listing_ok_def)
qed

definition notes_bounded :: "(string \<times> string) list walk_state \<Rightarrow> bool" where
  "notes_bounded st \<longleftrightarrow> within attestationBudget st \<and> distinct (map fst (ws_found st)) \<and>
     length (ws_found st) \<le> ws_entries st \<and> sum_list (map (length \<circ> snd) (ws_found st)) \<le> ws_spent st \<and>
     list_all (\<lambda>n. length (snd n) \<le> bg_fileSize attestationBudget) (ws_found st)"

lemma update_bounds:
  "length (AList.update k v xs) \<le> length xs + 1"
  "sum_list (map (length \<circ> snd) (AList.update k v xs)) \<le> sum_list (map (length \<circ> snd) xs) + length v"
  "list_all (\<lambda>n. length (snd n) \<le> m) xs \<Longrightarrow> length v \<le> m \<Longrightarrow> list_all (\<lambda>n. length (snd n) \<le> m) (AList.update k v xs)"
  by (induction xs) auto

lemma visit_note_bounded:
  assumes "notes_bounded st" "ws_entries st < bg_entries attestationBudget"
    "visit_note objs attestationBudget (st\<lparr>ws_entries := ws_entries st + 1\<rparr>) at mode child = Inr st'"
  shows "notes_bounded st'"
proof (cases "mode = ''40000''")
  case True
  then show ?thesis using assms by (auto simp: visit_note_def notes_bounded_def within_def)
next
  case False
  then obtain n spent where r: "read_object objs attestationBudget (ws_spent st) child ''blob'' (bg_fileSize attestationBudget) = Inr (n, spent)"
    and st': "st' = st\<lparr>ws_entries := ws_entries st + 1, ws_spent := spent, ws_found := AList.update at n (ws_found st)\<rparr>"
    using assms(3) by (auto simp: visit_note_def result_simps split: if_splits)
  then show ?thesis
    using assms(1,2) read_object_within [OF r] update_bounds [where k = at and v = n and xs = "ws_found st"]
    by (auto simp: notes_bounded_def within_def distinct_update)
qed

lemma notes_found:
  assumes "walkNotes objs oid = Inr found"
  shows "found \<noteq> [] \<and> distinct (map fst found) \<and> length found \<le> 256 \<and>
    sum_list (map (length \<circ> snd) found) \<le> 1024 * 1024 \<and> list_all (\<lambda>n. length (snd n) \<le> 64 * 1024) found"
proof -
  obtain st :: "(string \<times> string) list walk_state" where
    w: "walk_tree objs attestationBudget (visit_note objs attestationBudget) (length oid div 2) oid [] 1 (walk_start []) = Inr st"
    and found: "found = ws_found st" "found \<noteq> []"
    using assms by (auto simp: walkNotes_def result_simps split: if_splits)
  have "notes_bounded st"
  proof (rule walk_keeps(1) [where P = notes_bounded, OF _ _ w])
    show "notes_bounded (walk_start [])" by (simp add: notes_bounded_def within_def walk_start_def)
    show "notes_bounded (st\<lparr>ws_spent := spent\<rparr>)"
      if "notes_bounded st" "ws_spent st \<le> spent" "spent \<le> bg_bytes attestationBudget" for st spent
      using that by (auto simp: notes_bounded_def within_def)
  qed (rule visit_note_bounded)
  then show ?thesis using found by (auto simp: notes_bounded_def within_def attestationBudget_def)
qed

text \<open>A tree of one note, whose IDs are of one byte.\<close>

definition sample_store :: object_store where
  "sample_store oid =
     (if oid = ''74'' then Some (''tree'', ''100644 a'' @ [CHR 0x00] @ ''b'')
      else if oid = ''62'' then Some (''blob'', ''note'') else None)"

lemma sample_walk: "walkNotes sample_store ''74'' = Inr [(''a'', ''note'')]"
proof -
  have d: "hex_digit 6 = CHR ''6''" "hex_digit 2 = CHR ''2''" by code_simp+
  have e: "treeEntry (''100644 a'' @ [CHR 0x00] @ ''b'') 1 = Inr (''100644'', ''a'', ''62'', [])"
    by (simp add: treeEntry_def gitModes_def d byte_val_def)
  have t: "read_object sample_store attestationBudget 0 ''74'' ''tree'' (16 * 1024) = Inr (''100644 a'' @ [CHR 0x00] @ ''b'', 10)"
    by (simp add: read_object_def sample_store_def attestationBudget_def)
  have n: "read_object sample_store attestationBudget 10 ''62'' ''blob'' (64 * 1024) = Inr (''note'', 14)"
    by (simp add: read_object_def sample_store_def attestationBudget_def)
  note simps = attestationBudget_def visit_note_def entry_at_def
  show ?thesis
    using e t n
    by (simp add: walkNotes_def walk_start_def walk_tree.simps walk_entries.simps simps)
qed

end
