(* ===== verification/HookReads.thy ===== *)
theory HookReads
  imports HookRepo
begin

text \<open>
  What the hook asks of git while it walks a pushed attestation, whether or not the walk succeeds:
  the \<^verbatim>\<open>requests\<close> field of \<^verbatim>\<open>objectStream\<close> (\<^verbatim>\<open>valleyhook/repo.go\<close>). Every read asks for an object's type and
  size first and for its content only once those are within the bounds.
\<close>

section \<open>Reads with their requests\<close>

datatype ask_request = AskInfo string | AskContents string

type_synonym ('e, 'a) asked = "ask_request list \<times> ('e, 'a) result"

definition abind :: "('e, 'a) asked \<Rightarrow> ('a \<Rightarrow> ('e, 'b) asked) \<Rightarrow> ('e, 'b) asked" where
  "abind m f =
     (case m of
        (qs, Inl e) \<Rightarrow> (qs, Inl e)
      | (qs, Inr x) \<Rightarrow> let (qs', r) = f x in (qs @ qs', r))"

definition quietly :: "('e, 'a) result \<Rightarrow> ('e, 'a) asked" where
  "quietly r = ([], r)"

definition amap_err :: "('e \<Rightarrow> 'f) \<Rightarrow> ('e, 'a) asked \<Rightarrow> ('f, 'a) asked" where
  "amap_err f m = (fst m, rmap_err f (snd m))"

lemma abind_cong [fundef_cong]:
  "m = n \<Longrightarrow> (\<And>x. snd n = Inr x \<Longrightarrow> f x = g x) \<Longrightarrow> abind m f = abind n g"
  by (auto simp: abind_def split: prod.splits sum.splits)

lemma abind_quiet: "abind (quietly (Inr x)) f = f x" "abind (quietly (Inl e)) f = quietly (Inl e)"
  by (simp_all add: abind_def quietly_def)

lemma snd_abind: "snd (abind m f) = rbind (snd m) (\<lambda>x. snd (f x))"
  by (cases m; cases "snd m") (auto simp: abind_def split: prod.splits)

lemma snd_amap_err [simp]: "snd (amap_err f m) = rmap_err f (snd m)"
  by (simp add: amap_err_def)

lemma snd_quietly [simp]: "snd (quietly r) = r"
  by (simp add: quietly_def)

text \<open>\<^verbatim>\<open>objectStream.read\<close>, with what it asks.\<close>

definition ask_object ::
  "object_store \<Rightarrow> budget \<Rightarrow> nat \<Rightarrow> string \<Rightarrow> string \<Rightarrow> nat \<Rightarrow> (object_error, string \<times> nat) asked" where
  "ask_object objs b spent oid kind mx =
     (case read_object objs b spent oid kind mx of
        Inl e \<Rightarrow> ([AskInfo oid], Inl e)
      | Inr x \<Rightarrow> ([AskInfo oid, AskContents oid], Inr x))"

lemma snd_ask_object [simp]: "snd (ask_object objs b spent oid kind mx) = read_object objs b spent oid kind mx"
  by (simp add: ask_object_def split: sum.splits)

section \<open>The walk with its requests\<close>

type_synonym 'v ask_visit = "'v walk_state \<Rightarrow> string \<Rightarrow> string \<Rightarrow> string \<Rightarrow> (walk_error, 'v walk_state) asked"

function ask_tree ::
  "object_store \<Rightarrow> budget \<Rightarrow> 'v ask_visit \<Rightarrow> nat \<Rightarrow> string \<Rightarrow> string \<Rightarrow> nat \<Rightarrow> 'v walk_state \<Rightarrow> (walk_error, 'v walk_state) asked"
  and ask_entries ::
  "object_store \<Rightarrow> budget \<Rightarrow> 'v ask_visit \<Rightarrow> nat \<Rightarrow> string \<Rightarrow> string \<Rightarrow> nat \<Rightarrow> nat \<Rightarrow> 'v walk_state \<Rightarrow>
     (walk_error, 'v walk_state) asked"
  where
  "ask_tree objs b visit h oid path depth st =
     abind (amap_err (ObjectUnread path) (ask_object objs b (ws_spent st) oid ''tree'' (bg_treeSize b))) (\<lambda>(body, spent).
       ask_entries objs b visit h body path depth 0 (st\<lparr>ws_spent := spent\<rparr>))"
| "ask_entries objs b visit h body path depth inTree st =
     (if body = [] then quietly (Inr st)
      else if inTree + 1 > bg_entriesInTree b then quietly (Inl TreeTooWide)
      else if ws_entries st + 1 > bg_entries b then quietly (Inl WalkTooLong)
      else
        abind (quietly (rmap_err (EntryBad path) (treeEntry body h))) (\<lambda>(mode, name, child, rest).
          let at = entry_at path name
          in if mode = ''40000'' \<and> depth + 1 > bg_depth b then quietly (Inl (TooDeep at))
             else
               abind (visit (st\<lparr>ws_entries := ws_entries st + 1\<rparr>) at mode child) (\<lambda>st1.
               abind (if mode = ''40000'' then ask_tree objs b visit h child at (depth + 1) st1 else quietly (Inr st1)) (\<lambda>st2.
                 ask_entries objs b visit h rest path depth (inTree + 1) st2))))"
  by pat_completeness auto
termination
  by (relation "inv_image (less_than <*lex*> less_than <*lex*> less_than)
    (\<lambda>x. case x of Inl (objs, b, visit, h, oid, path, depth, st) \<Rightarrow> (bg_depth b + 1 - depth, 1, 0)
      | Inr (objs, b, visit, h, body, path, depth, inTree, st) \<Rightarrow> (bg_depth b + 1 - depth, 0, length body))")
    (auto simp: rmap_err_eq_Inr dest!: treeEntry_shorter)

declare ask_tree.simps [simp del] ask_entries.simps [simp del]

definition ask_note :: "object_store \<Rightarrow> budget \<Rightarrow> (string \<times> string) list ask_visit" where
  "ask_note objs b st at mode child =
     (if mode = ''40000'' then quietly (Inr st)
      else if mode = ''100644'' then
        abind (amap_err (ObjectUnread at) (ask_object objs b (ws_spent st) child ''blob'' (bg_fileSize b))) (\<lambda>(n, spent).
          quietly (Inr (st\<lparr>ws_spent := spent, ws_found := AList.update at n (ws_found st)\<rparr>)))
      else quietly (Inl (ModeRefused at mode)))"

definition askNotes :: "object_store \<Rightarrow> string \<Rightarrow> (walk_error, (string \<times> string) list) asked" where
  "askNotes objs oid =
     abind (ask_tree objs attestationBudget (ask_note objs attestationBudget) (length oid div 2) oid [] 1 (walk_start []))
       (\<lambda>st. if length (ws_found st) = 0 then quietly (Inl NoNotes) else quietly (Inr (ws_found st)))"

section \<open>It is the walk\<close>

lemma rbind_cong2: "m = n \<Longrightarrow> (\<And>x. n = Inr x \<Longrightarrow> f x = g x) \<Longrightarrow> rbind m f = rbind n g"
  by (cases n) auto

lemma snd_ask_note [simp]: "snd (ask_note objs b st at mode child) = visit_note objs b st at mode child"
  by (auto simp: ask_note_def visit_note_def snd_abind intro!: rbind_cong2 split: prod.splits)

lemma ask_is_walk:
  "snd (ask_tree objs b av h oid path depth st) = walk_tree objs b (\<lambda>s a m c. snd (av s a m c)) h oid path depth st"
  "snd (ask_entries objs b av h body path depth inTree st) =
     walk_entries objs b (\<lambda>s a m c. snd (av s a m c)) h body path depth inTree st"
proof (induction objs b av h oid path depth st and objs b av h body path depth inTree st
    rule: ask_tree_ask_entries.induct)
  case (1 objs b av h oid path depth st)
  show ?case
    unfolding ask_tree.simps [of objs b av h oid path depth st] walk_tree.simps [of objs b _ h oid path depth st]
    by (auto simp: snd_abind result_simps split: prod.splits intro!: rbind_cong2 1)
next
  case (2 objs b av h body path depth inTree st)
  note A = ask_entries.simps [of objs b av h body path depth inTree st]
    and W = walk_entries.simps [of objs b "\<lambda>s a m c. snd (av s a m c)" h body path depth inTree st]
  show ?case
  proof (cases "body = [] \<or> inTree + 1 > bg_entriesInTree b \<or> ws_entries st + 1 > bg_entries b")
    case True
    then show ?thesis unfolding A W by auto
  next
    case False
    then have c: "body \<noteq> []" "\<not> inTree + 1 > bg_entriesInTree b" "\<not> ws_entries st + 1 > bg_entries b" by auto
    show ?thesis
    proof (cases "treeEntry body h")
      case (Inl e)
      then show ?thesis unfolding A W using c by (simp add: snd_abind)
    next
      case (Inr x)
      obtain mode name child rest where x: "x = (mode, name, child, rest)" by (cases x)
      have q: "snd (quietly (rmap_err (EntryBad path) (treeEntry body h))) = Inr (mode, name, child, rest)"
        using Inr x by simp
      let ?at = "entry_at path name"
      show ?thesis
      proof (cases "mode = ''40000'' \<and> depth + 1 > bg_depth b")
        case True
        then show ?thesis unfolding A W using c Inr x by (simp add: snd_abind)
      next
        case d: False
        have t: "snd (if mode = ''40000'' then ask_tree objs b av h child ?at (depth + 1) st1 else quietly (Inr st1)) =
            (if mode = ''40000'' then walk_tree objs b (\<lambda>s a m c. snd (av s a m c)) h child ?at (depth + 1) st1 else Inr st1)"
          if "snd (av (st\<lparr>ws_entries := ws_entries st + 1\<rparr>) ?at mode child) = Inr st1" for st1
          using 2(1) [OF c q refl refl refl refl d that] by simp
        have r: "snd (ask_entries objs b av h rest path depth (inTree + 1) st2) =
            walk_entries objs b (\<lambda>s a m c. snd (av s a m c)) h rest path depth (inTree + 1) st2"
          if "snd (av (st\<lparr>ws_entries := ws_entries st + 1\<rparr>) ?at mode child) = Inr st1"
            "snd (if mode = ''40000'' then ask_tree objs b av h child ?at (depth + 1) st1 else quietly (Inr st1)) = Inr st2"
          for st1 st2
          using 2(2) [OF c q refl refl refl refl d that] .
        show ?thesis
          unfolding A W using c Inr x d
          by (simp only: if_False snd_abind snd_quietly rmap_err.simps rbind.simps prod.case Let_def)
            (rule rbind_cong2 [OF refl], rule rbind_cong2 [OF t], assumption, rule r, assumption, simp only: t)
      qed
    qed
  qed
qed

lemma ask_walks: "snd (askNotes objs oid) = walkNotes objs oid"
proof -
  have v: "(\<lambda>s a m c. snd (ask_note objs attestationBudget s a m c)) = visit_note objs attestationBudget"
    by (intro ext) simp
  show ?thesis
    unfolding askNotes_def walkNotes_def snd_abind ask_is_walk v by (intro rbind_cong2 refl) simp
qed

section \<open>What is asked for is bounded\<close>

text \<open>
  The bytes of the contents asked for, the number of contents asked for, and that each is a tree or
  a plain file within its own bound.
\<close>

definition asked_size :: "object_store \<Rightarrow> ask_request \<Rightarrow> nat" where
  "asked_size objs q =
     (case q of
        AskInfo _ \<Rightarrow> 0
      | AskContents oid \<Rightarrow> (case objs oid of None \<Rightarrow> 0 | Some (_, body) \<Rightarrow> length body))"

definition asked_bytes :: "object_store \<Rightarrow> ask_request list \<Rightarrow> nat" where
  "asked_bytes objs qs = sum_list (map (asked_size objs) qs)"

fun asked_fits :: "object_store \<Rightarrow> budget \<Rightarrow> ask_request \<Rightarrow> bool" where
  "asked_fits objs b (AskInfo _) = True"
| "asked_fits objs b (AskContents oid) =
     (case objs oid of
        None \<Rightarrow> False
      | Some (kind, body) \<Rightarrow>
          kind = ''tree'' \<and> length body \<le> bg_treeSize b \<or> kind = ''blob'' \<and> length body \<le> bg_fileSize b)"

fun is_info :: "ask_request \<Rightarrow> bool" where
  "is_info (AskInfo _) = True"
| "is_info (AskContents _) = False"

definition infos :: "ask_request list \<Rightarrow> nat" where "infos qs = length (filter is_info qs)"
definition contents :: "ask_request list \<Rightarrow> nat" where "contents qs = length (filter (Not \<circ> is_info) qs)"

lemma asked_nil [simp]: "asked_bytes objs [] = 0" "infos [] = 0" "contents [] = 0"
  by (simp_all add: asked_bytes_def infos_def contents_def)

lemma asked_append [simp]:
  "asked_bytes objs (qs @ qs') = asked_bytes objs qs + asked_bytes objs qs'"
  "infos (qs @ qs') = infos qs + infos qs'" "contents (qs @ qs') = contents qs + contents qs'"
  by (simp_all add: asked_bytes_def infos_def contents_def)

text \<open>
  What a step keeps: whatever it asked for on top of what was spent before is within the budget,
  each object of its own bound, and each object was asked about for an entry counted; when it goes
  on, the counts say exactly what was spent.
\<close>

definition asked_ok :: "object_store \<Rightarrow> budget \<Rightarrow> nat \<Rightarrow> 'v walk_state \<Rightarrow> (walk_error, 'v walk_state) asked \<Rightarrow> bool" where
  "asked_ok objs b extra st m \<longleftrightarrow>
     (let (qs, r) = m in
        ws_spent st + asked_bytes objs qs \<le> bg_bytes b \<and> list_all (asked_fits objs b) qs \<and>
        contents qs \<le> infos qs \<and> ws_entries st + infos qs \<le> bg_entries b + extra \<and>
        (case r of
           Inl _ \<Rightarrow> True
         | Inr st' \<Rightarrow> ws_spent st' = ws_spent st + asked_bytes objs qs \<and> ws_entries st' \<le> bg_entries b \<and>
             ws_entries st + infos qs \<le> ws_entries st' + extra))"

lemma ask_object_ok:
  assumes "ask_object objs b spent oid kind mx = (qs, r)" "spent \<le> bg_bytes b"
    "kind = ''tree'' \<and> mx = bg_treeSize b \<or> kind = ''blob'' \<and> mx = bg_fileSize b"
  shows "spent + asked_bytes objs qs \<le> bg_bytes b \<and> list_all (asked_fits objs b) qs \<and> contents qs \<le> infos qs \<and> infos qs = 1 \<and>
    (\<forall>body spent'. r = Inr (body, spent') \<longrightarrow> spent' = spent + asked_bytes objs qs)"
  using assms read_object_within [of objs b spent oid kind mx]
  by (auto simp: ask_object_def asked_bytes_def asked_size_def infos_def contents_def split: sum.splits)


definition ask_visit_ok :: "object_store \<Rightarrow> budget \<Rightarrow> 'v ask_visit \<Rightarrow> bool" where
  "ask_visit_ok objs b av \<longleftrightarrow>
     (\<forall>st at mode child qs r. ws_spent st \<le> bg_bytes b \<longrightarrow> av st at mode child = (qs, r) \<longrightarrow>
        ws_spent st + asked_bytes objs qs \<le> bg_bytes b \<and> list_all (asked_fits objs b) qs \<and> contents qs \<le> infos qs \<and>
        infos qs \<le> (if mode = ''40000'' then 0 else 1) \<and>
        (\<forall>st'. r = Inr st' \<longrightarrow> ws_spent st' = ws_spent st + asked_bytes objs qs \<and> ws_entries st' = ws_entries st))"

lemma ask_note_ok: "ask_visit_ok objs b (ask_note objs b)"
  unfolding ask_visit_ok_def
proof (intro allI impI)
  fix st :: "(string \<times> string) list walk_state" and at mode child qs r
  assume spent: "ws_spent st \<le> bg_bytes b" and a: "ask_note objs b st at mode child = (qs, r)"
  show "ws_spent st + asked_bytes objs qs \<le> bg_bytes b \<and> list_all (asked_fits objs b) qs \<and> contents qs \<le> infos qs \<and>
      infos qs \<le> (if mode = ''40000'' then 0 else 1) \<and>
      (\<forall>st'. r = Inr st' \<longrightarrow> ws_spent st' = ws_spent st + asked_bytes objs qs \<and> ws_entries st' = ws_entries st)"
  proof (cases "mode = ''100644''")
    case False
    then show ?thesis using a spent by (auto simp: ask_note_def quietly_def split: if_splits)
  next
    case True
    obtain qs' r' where o: "ask_object objs b (ws_spent st) child ''blob'' (bg_fileSize b) = (qs', r')" by fastforce
    note k = ask_object_ok [OF o spent]
    show ?thesis
      using a k True unfolding ask_note_def
      by (cases r') (auto simp: o amap_err_def abind_def quietly_def)
  qed
qed

lemma asked_ok_quiet:
  assumes "ws_spent st \<le> bg_bytes b" "ws_entries st \<le> bg_entries b"
  shows "asked_ok objs b extra st (quietly (Inr st))" "asked_ok objs b extra st (quietly (Inl e))"
  using assms by (simp_all add: asked_ok_def quietly_def)

lemma asked_ok_bind:
  assumes "asked_ok objs b x st m" "\<And>st'. snd m = Inr st' \<Longrightarrow> ws_spent st' \<le> bg_bytes b \<Longrightarrow> ws_entries st' \<le> bg_entries b \<Longrightarrow>
      asked_ok objs b y st' (f st')"
  shows "asked_ok objs b (x + y) st (abind m f)"
proof (cases m)
  case (Pair qs r)
  show ?thesis
  proof (cases r)
    case (Inl e)
    then show ?thesis using assms(1) Pair by (auto simp: asked_ok_def abind_def)
  next
    case (Inr st')
    have "asked_ok objs b y st' (f st')" using assms(1) assms(2) [of st'] Pair Inr by (auto simp: asked_ok_def)
    then show ?thesis
      using assms(1) Pair Inr by (cases "f st'") (auto simp: asked_ok_def abind_def Let_def split: sum.splits)
  qed
qed

lemma asked_ok_step:
  assumes "asked_ok objs b y st1 m" "ws_spent st1 = ws_spent st + asked_bytes objs qs" "list_all (asked_fits objs b) qs"
    "contents qs \<le> infos qs" "ws_entries st1 = ws_entries st + n" "infos qs + y \<le> n + extra"
  shows "asked_ok objs b extra st (qs @ fst m, snd m)"
  using assms by (cases m; cases "snd m") (auto simp: asked_ok_def)

lemma abind_Inr: "m = (qs, Inr x) \<Longrightarrow> abind m f = (qs @ fst (f x), snd (f x))"
  by (simp add: abind_def split: prod.splits)

text \<open>The walk of a tree asks about its own object too, beyond its entries'.\<close>

lemma ask_bounded:
  "ask_visit_ok objs b av \<Longrightarrow> ws_spent st \<le> bg_bytes b \<Longrightarrow> ws_entries st \<le> bg_entries b \<Longrightarrow>
     asked_ok objs b 1 st (ask_tree objs b av h oid path depth st)"
  "ask_visit_ok objs b av \<Longrightarrow> ws_spent st \<le> bg_bytes b \<Longrightarrow> ws_entries st \<le> bg_entries b \<Longrightarrow>
     asked_ok objs b 0 st (ask_entries objs b av h body path depth inTree st)"
proof (induction objs b av h oid path depth st and objs b av h body path depth inTree st
    rule: ask_tree_ask_entries.induct)
  case (1 objs b av h oid path depth st)
  obtain qs r where o: "ask_object objs b (ws_spent st) oid ''tree'' (bg_treeSize b) = (qs, r)" by fastforce
  note k = ask_object_ok [OF o 1(3)]
  show ?case
  proof (cases r)
    case (Inl e)
    then show ?thesis
      using k 1(4) unfolding ask_tree.simps [of objs b av h oid path depth st]
      by (auto simp: o amap_err_def abind_def asked_ok_def)
  next
    case (Inr x)
    obtain body spent where x: "x = (body, spent)" by (cases x)
    have s: "spent = ws_spent st + asked_bytes objs qs" "infos qs = 1" using k Inr x by auto
    have "asked_ok objs b 0 (st\<lparr>ws_spent := spent\<rparr>) (ask_entries objs b av h body path depth 0 (st\<lparr>ws_spent := spent\<rparr>))"
    proof (rule 1(1) [OF _ refl 1(2)])
      show "snd (amap_err (ObjectUnread path) (ask_object objs b (ws_spent st) oid ''tree'' (bg_treeSize b))) = Inr (body, spent)"
        using o Inr x by (simp add: amap_err_def)
      show "ws_spent (st\<lparr>ws_spent := spent\<rparr>) \<le> bg_bytes b" using k s by simp
      show "ws_entries (st\<lparr>ws_spent := spent\<rparr>) \<le> bg_entries b" using 1(4) by simp
    qed
    then have "asked_ok objs b 1 st (qs @ fst (ask_entries objs b av h body path depth 0 (st\<lparr>ws_spent := spent\<rparr>)),
        snd (ask_entries objs b av h body path depth 0 (st\<lparr>ws_spent := spent\<rparr>)))"
      by (rule asked_ok_step [where n = 0]) (use k s in simp_all)
    moreover have "amap_err (ObjectUnread path) (ask_object objs b (ws_spent st) oid ''tree'' (bg_treeSize b)) = (qs, Inr (body, spent))"
      using o Inr x by (simp add: amap_err_def)
    ultimately show ?thesis unfolding ask_tree.simps [of objs b av h oid path depth st] by (simp add: abind_Inr)
  qed
next
  case (2 objs b av h body path depth inTree st)
  note A = ask_entries.simps [of objs b av h body path depth inTree st]
  show ?case
  proof (cases "body = [] \<or> inTree + 1 > bg_entriesInTree b \<or> ws_entries st + 1 > bg_entries b")
    case True
    then show ?thesis unfolding A using asked_ok_quiet [OF 2(4,5)] by auto
  next
    case False
    then have c: "body \<noteq> []" "\<not> inTree + 1 > bg_entriesInTree b" "\<not> ws_entries st + 1 > bg_entries b" by auto
    show ?thesis
    proof (cases "treeEntry body h")
      case (Inl e)
      then show ?thesis unfolding A using c asked_ok_quiet(2) [OF 2(4,5), of objs 0 "EntryBad path e"]
        by (simp add: abind_def quietly_def)
    next
      case (Inr x)
      obtain mode name child rest where x: "x = (mode, name, child, rest)" by (cases x)
      have q: "snd (quietly (rmap_err (EntryBad path) (treeEntry body h))) = Inr (mode, name, child, rest)"
        using Inr x by simp
      let ?at = "entry_at path name"
      let ?st = "st\<lparr>ws_entries := ws_entries st + 1\<rparr>"
      let ?below = "\<lambda>st1. if mode = ''40000'' then ask_tree objs b av h child ?at (depth + 1) st1 else quietly (Inr st1)"
      let ?rest = "\<lambda>st2. ask_entries objs b av h rest path depth (inTree + 1) st2"
      show ?thesis
      proof (cases "mode = ''40000'' \<and> depth + 1 > bg_depth b")
        case True
        then show ?thesis unfolding A using c Inr x asked_ok_quiet(2) [OF 2(4,5), of objs 0]
          by (simp add: abind_def quietly_def)
      next
        case d: False
        have A': "ask_entries objs b av h body path depth inTree st = abind (av ?st ?at mode child) (\<lambda>st1. abind (?below st1) ?rest)"
          unfolding A using c d by (simp only: Inr x rmap_err.simps abind_quiet if_False prod.case Let_def)
        obtain qs r where v: "av ?st ?at mode child = (qs, r)" by fastforce
        have vk: "ws_spent st + asked_bytes objs qs \<le> bg_bytes b" "list_all (asked_fits objs b) qs" "contents qs \<le> infos qs"
          "infos qs \<le> (if mode = ''40000'' then 0 else 1)"
          "\<And>st'. r = Inr st' \<Longrightarrow> ws_spent st' = ws_spent st + asked_bytes objs qs \<and> ws_entries st' = ws_entries st + 1"
          using 2(3) [unfolded ask_visit_ok_def, rule_format, OF _ v] 2(4) by simp_all
        show ?thesis
        proof (cases r)
          case (Inl e)
          have e: "abind (av ?st ?at mode child) (\<lambda>st1. abind (?below st1) ?rest) = (qs, Inl e)"
            by (simp only: v Inl abind_def prod.case sum.case)
          have "infos qs \<le> 1" using vk(4) by (simp split: if_splits)
          then show ?thesis using vk(1-3) c(3) unfolding A' e asked_ok_def by simp
        next
          case st1: (Inr st1)
          have s1: "ws_spent st1 \<le> bg_bytes b" "ws_entries st1 \<le> bg_entries b" using vk(1) vk(5) [OF st1] c(3) by simp_all
          have v1: "snd (av ?st ?at mode child) = Inr st1" using v st1 by simp
          have below: "asked_ok objs b (if mode = ''40000'' then 1 else 0) st1 (?below st1)"
            using 2(1) [OF c q refl refl refl refl d v1 _ 2(3) s1] asked_ok_quiet(1) [OF s1, of objs 0] by (cases "mode = ''40000''") simp_all
          have "asked_ok objs b ((if mode = ''40000'' then 1 else 0) + 0) st1 (abind (?below st1) ?rest)"
            by (rule asked_ok_bind [OF below], rule 2(2) [OF c q refl refl refl refl d v1 _ 2(3)])
          then have "asked_ok objs b 0 st (qs @ fst (abind (?below st1) ?rest), snd (abind (?below st1) ?rest))"
            by (rule asked_ok_step [where n = 1]) (use vk(2-4) vk(5) [OF st1] in \<open>simp_all split: if_splits\<close>)
          then show ?thesis unfolding A' abind_Inr [OF v [unfolded st1]] .
        qed
      qed
    qed
  qed
qed


lemma asked_bounds:
  "asked_ok objs attestationBudget 1 (walk_start ([] :: (string \<times> string) list)) (qs, r) \<Longrightarrow>
     asked_bytes objs qs \<le> 1024 * 1024 \<and> list_all (asked_fits objs attestationBudget) qs \<and> infos qs \<le> 257 \<and> contents qs \<le> 257"
  by (auto simp: asked_ok_def walk_start_def attestationBudget_def)

lemma asked_notes:
  "asked_bytes objs (fst (askNotes objs oid)) \<le> 1024 * 1024 \<and>
    list_all (asked_fits objs attestationBudget) (fst (askNotes objs oid)) \<and>
    infos (fst (askNotes objs oid)) \<le> 257 \<and> contents (fst (askNotes objs oid)) \<le> 257"
proof -
  let ?w = "ask_tree objs attestationBudget (ask_note objs attestationBudget) (length oid div 2) oid [] 1 (walk_start [])"
  have "asked_ok objs attestationBudget 1 (walk_start []) ?w"
    by (rule ask_bounded(1) [OF ask_note_ok]) (simp_all add: walk_start_def)
  then have w: "asked_ok objs attestationBudget 1 (walk_start []) (fst ?w, snd ?w)" by simp
  have "fst (askNotes objs oid) = fst ?w"
    unfolding askNotes_def by (cases ?w; cases "snd ?w") (auto simp: abind_def quietly_def)
  then show ?thesis using asked_bounds [OF w] by simp
qed

text \<open>What is found, where anything is.\<close>

definition found_bounded :: "('e, (string \<times> string) list) result \<Rightarrow> bool" where
  "found_bounded r \<longleftrightarrow>
     (case r of
        Inl _ \<Rightarrow> True
      | Inr found \<Rightarrow> found \<noteq> [] \<and> distinct (map fst found) \<and> length found \<le> 256 \<and>
          sum_list (map (length \<circ> snd) found) \<le> 1024 * 1024 \<and> list_all (\<lambda>n. length (snd n) \<le> 64 * 1024) found)"

text \<open>
  C23: whatever tree is pushed as an attestation, and whether the walk of it succeeds or stops at a
  bound, the objects whose content the hook asks git for hold at most 1 MiB in all, trees and notes
  together, each a tree of at most 16 KiB or a note of at most 64 KiB; it asks about at most 257
  objects, the pushed tree and one for each of at most 256 entries; and the notes it returns, under
  distinct paths, are within the same bounds.
\<close>

theorem walkNotes_bounded:
  "snd (askNotes objs oid) = walkNotes objs oid \<and>
    asked_bytes objs (fst (askNotes objs oid)) \<le> 1024 * 1024 \<and>
    list_all (asked_fits objs attestationBudget) (fst (askNotes objs oid)) \<and>
    infos (fst (askNotes objs oid)) \<le> 257 \<and> contents (fst (askNotes objs oid)) \<le> 257 \<and>
    found_bounded (walkNotes objs oid)"
proof -
  have "found_bounded (walkNotes objs oid)"
    using notes_found [of objs oid] by (simp add: found_bounded_def split: sum.splits)
  then show ?thesis using ask_walks asked_notes by blast
qed

text \<open>The requests of the sample walk: the tree, then its note.\<close>

lemma sample_requests: "fst (askNotes sample_store ''74'') = [AskInfo ''74'', AskContents ''74'', AskInfo ''62'', AskContents ''62'']"
proof -
  have d: "hex_digit 6 = CHR ''6''" "hex_digit 2 = CHR ''2''" by code_simp+
  have e: "treeEntry (''100644 a'' @ [CHR 0x00] @ ''b'') 1 = Inr (''100644'', ''a'', ''62'', [])"
    by (simp add: treeEntry_def gitModes_def d byte_val_def)
  have t: "read_object sample_store attestationBudget 0 ''74'' ''tree'' (16 * 1024) = Inr (''100644 a'' @ [CHR 0x00] @ ''b'', 10)"
    by (simp add: read_object_def sample_store_def attestationBudget_def)
  have n: "read_object sample_store attestationBudget 10 ''62'' ''blob'' (64 * 1024) = Inr (''note'', 14)"
    by (simp add: read_object_def sample_store_def attestationBudget_def)
  show ?thesis
    using e t n
    by (simp add: askNotes_def walk_start_def ask_tree.simps ask_entries.simps attestationBudget_def ask_note_def entry_at_def
        ask_object_def abind_def quietly_def amap_err_def)
qed

end
