(* ===== verification/HookRecord.thy ===== *)
theory HookRecord
  imports HookRepo RecordRound KnotGraph
begin

text \<open>
  \<^verbatim>\<open>valleyhook/record.go\<close> and \<^verbatim>\<open>valleyhook/grants.go\<close>: which writes of a change record a push may
  make. The repository the hook asks is a record of functions, as it is an interface in the
  code.
\<close>

section \<open>Grants\<close>

type_synonym grants = "string \<Rightarrow> string \<Rightarrow> bool"

definition grantApprove :: string where "grantApprove = ''approve''"
definition grantRequest :: string where "grantRequest = ''request''"
definition grantRestack :: string where "grantRestack = ''restack''"

definition holds_grant :: "grants \<Rightarrow> string \<Rightarrow> string \<Rightarrow> bool" where
  "holds_grant g who grant \<longleftrightarrow>
     (if grant = grantApprove \<and> g who grantRequest then True else g who grant)"

section \<open>The repository\<close>

text \<open>
  What a decision needs to know: the notes under a tree, record and report commits, whether a
  change has a record, the kind of an object, how many records there are, which refs are
  symbolic, and a reading of the plan graph: its commits, trees and files, and whether the
  reading has taken longer than the hook spends on it.
\<close>

record graphReader =
  gr_commit :: "string \<Rightarrow> Commit option"
  gr_tree :: "string \<Rightarrow> Entry list option"
  gr_blob :: Reader
  gr_overdue :: bool

record repository =
  rp_symbolic :: "string list \<Rightarrow> (string \<Rightarrow> bool) option"
  rp_notes :: "string \<Rightarrow> (walk_error, (string \<times> string) list) result"
  rp_record :: "string \<Rightarrow> (file_error, fileCommit) result"
  rp_report :: "string \<Rightarrow> (file_error, fileCommit) result"
  rp_hasRecord :: "string \<Rightarrow> bool option"
  rp_kind :: "string \<Rightarrow> string option"
  rp_records :: "nat option"
  rp_graph :: "graphReader option"

record update =
  up_old :: string
  up_new :: string
  up_ref :: string

text \<open>\<^verbatim>\<open>isZero\<close>: the ID git gives for a ref that is not there.\<close>

definition isZero :: "string \<Rightarrow> bool" where
  "isZero oid \<longleftrightarrow> oid \<noteq> [] \<and> list_all (\<lambda>c. c = CHR ''0'') oid"

datatype verb = VWrite | VCreate | VUpdate | VDelete

definition recordTarget :: string where "recordTarget = ''main''"
definition maxRecords :: nat where "maxRecords = 2000"
definition maxRecordUpdates :: nat where "maxRecordUpdates = 32"

section \<open>What refuses a write of a record\<close>

datatype record_refusal =
    RecordRef
  | RecordUnnamed
  | DeleteUngranted
  | TooManyRecords
  | CommitUnreadable file_error
  | CreateParents nat
  | HeadUnknown
  | HeadNotCommit string
  | FileUnreadable record_error
  | OtherChange
  | OtherTarget
  | CreateVersions nat
  | HeadNotNamed
  | UploaderNotPusher
  | OwnerNotPusher
  | SeqNotNext
  | ActiveNotNew
  | StateNotReady
  | OldCommitUnreadable file_error
  | OldFileUnreadable record_error
  | NotOwnerNorApprover
  | RestackNotReady
  | RestackChangesState
  | SameState
  | WithdrawnToDraft
  | OwnerChanged
  | ActiveChanged
  | VersionsChanged
  | VersionCount nat
  | VersionChanged nat
  | SameHead
  | UpdateParents
  | RestackBranch
  | RestackTitle

definition sameChange :: "Record \<Rightarrow> string \<Rightarrow> string \<Rightarrow> (record_refusal, unit) result" where
  "sameChange r target cid =
     (if cr_ChangeID r \<noteq> cid then Inl OtherChange
      else if cr_Target r \<noteq> target then Inl OtherTarget
      else Inr ())"

definition isCommit :: "repository \<Rightarrow> string \<Rightarrow> (record_refusal, unit) result" where
  "isCommit repo h =
     (case rp_kind repo h of
        None \<Rightarrow> Inl HeadUnknown
      | Some kind \<Rightarrow> if kind \<noteq> ''commit'' then Inl (HeadNotCommit kind) else Inr ())"

definition checkCreate :: "repository \<Rightarrow> string \<Rightarrow> string \<Rightarrow> string \<Rightarrow> string \<Rightarrow> (record_refusal, unit) result" where
  "checkCreate repo who target cid commit =
     rbind (rmap_err CommitUnreadable (rp_record repo commit)) (\<lambda>rc.
       case fc_parents rc of
         [h] \<Rightarrow>
           rbind (isCommit repo h) (\<lambda>_.
           rbind (rmap_err FileUnreadable (ParseRecord (fc_file rc))) (\<lambda>r.
           rbind (sameChange r target cid) (\<lambda>_.
             let v = cr_Versions r ! 0
             in if length (cr_Versions r) \<noteq> 1 then Inl (CreateVersions (length (cr_Versions r)))
                else if vn_Head v \<noteq> HeadPrefix @ h then Inl HeadNotNamed
                else if vn_Uploader v \<noteq> who then Inl UploaderNotPusher
                else if cr_Owner r \<noteq> who then Inl OwnerNotPusher
                else if cr_Seq r \<noteq> 1 then Inl SeqNotNext
                else if cr_Active r \<noteq> 1 then Inl ActiveNotNew
                else if cr_State r \<noteq> Ready then Inl StateNotReady
                else Inr ())))
       | ps \<Rightarrow> Inl (CreateParents (length ps)))"

definition checkStateChange :: "Record \<Rightarrow> Record \<Rightarrow> (record_refusal, unit) result" where
  "checkStateChange before after =
     (if cr_State after = cr_State before then Inl SameState
      else if cr_State before = Withdrawn \<and> cr_State after = Draft then Inl WithdrawnToDraft
      else if cr_Seq after \<noteq> cr_Seq before + 1 then Inl SeqNotNext
      else if cr_Owner after \<noteq> cr_Owner before then Inl OwnerChanged
      else if cr_Active after \<noteq> cr_Active before then Inl ActiveChanged
      else if cr_Versions after \<noteq> cr_Versions before then Inl VersionsChanged
      else Inr ())"

definition checkNewVersion :: "string \<Rightarrow> Record \<Rightarrow> Record \<Rightarrow> string \<Rightarrow> (record_refusal, unit) result" where
  "checkNewVersion who before after h =
     (if length (cr_Versions after) \<noteq> length (cr_Versions before) + 1 then Inl (VersionCount (length (cr_Versions after)))
      else
        rbind (check_all (\<lambda>(i, v). if cr_Versions after ! i \<noteq> v then Inl (VersionChanged i) else Inr ())
            (enumerate 0 (cr_Versions before))) (\<lambda>_.
          let v = LastVersion after
          in if vn_Head v \<noteq> HeadPrefix @ h then Inl HeadNotNamed
             else if vn_Head v = vn_Head (ActiveVersion before) then Inl SameHead
             else if vn_Uploader v \<noteq> who then Inl UploaderNotPusher
             else if cr_Active after \<noteq> vn_N v then Inl ActiveNotNew
             else if cr_State after \<noteq> Ready then Inl StateNotReady
             else if cr_Seq after \<noteq> cr_Seq before + 1 then Inl SeqNotNext
             else if cr_Owner after \<noteq> cr_Owner before then Inl OwnerChanged
             else Inr ()))"

definition checkRestack :: "Record \<Rightarrow> Record \<Rightarrow> (record_refusal, unit) result" where
  "checkRestack before after =
     (let was = ActiveVersion before; v = LastVersion after
      in if vn_Branch v \<noteq> vn_Branch was then Inl RestackBranch
         else if vn_Title v \<noteq> vn_Title was then Inl RestackTitle
         else Inr ())"

definition checkUpdate ::
  "repository \<Rightarrow> grants \<Rightarrow> string \<Rightarrow> string \<Rightarrow> string \<Rightarrow> string \<Rightarrow> string \<Rightarrow> (record_refusal, unit) result" where
  "checkUpdate repo g who target cid old commit =
     rbind (rmap_err OldCommitUnreadable (rp_record repo old)) (\<lambda>prev.
     rbind (rmap_err OldFileUnreadable (ParseRecord (fc_file prev))) (\<lambda>before.
     rbind
       (if who \<noteq> cr_Owner before \<and> \<not> holds_grant g who grantApprove then
          (if \<not> holds_grant g who grantRestack then Inl NotOwnerNorApprover
           else if cr_State before \<noteq> Ready then Inl RestackNotReady
           else Inr True)
        else Inr False) (\<lambda>restack.
     rbind (rmap_err CommitUnreadable (rp_record repo commit)) (\<lambda>rc.
     rbind (rmap_err FileUnreadable (ParseRecord (fc_file rc))) (\<lambda>after.
     rbind (sameChange after target cid) (\<lambda>_.
       case fc_parents rc of
         [p] \<Rightarrow>
           if p \<noteq> old then Inl UpdateParents
           else if restack then Inl RestackChangesState
           else checkStateChange before after
       | [p, h] \<Rightarrow>
           if p \<noteq> old then Inl UpdateParents
           else
             rbind (isCommit repo h) (\<lambda>_.
             rbind (checkNewVersion who before after h) (\<lambda>_.
               if \<not> restack then Inr () else checkRestack before after))
       | _ \<Rightarrow> Inl UpdateParents))))))"

definition checkRecord ::
  "repository \<Rightarrow> grants \<Rightarrow> nat \<Rightarrow> nat \<Rightarrow> string \<Rightarrow> update \<Rightarrow> verb \<times> (record_refusal, unit) result" where
  "checkRecord repo g existing creates who u =
     (case ParseRef (up_ref u) of
        None \<Rightarrow> (VWrite, Inl RecordRef)
      | Some (target, cid) \<Rightarrow>
          if target \<noteq> recordTarget then (VWrite, Inl RecordRef)
          else if who = [] then (VWrite, Inl RecordUnnamed)
          else if isZero (up_new u) then
            (VDelete, if \<not> holds_grant g who grantApprove then Inl DeleteUngranted else Inr ())
          else if isZero (up_old u) then
            (VCreate,
             if existing + creates > maxRecords then Inl TooManyRecords
             else checkCreate repo who target cid (up_new u))
          else (VUpdate, checkUpdate repo g who target cid (up_old u) (up_new u)))"

section \<open>The table of transitions\<close>

text \<open>
  What a write may do, stated over the records alone: the rows of the table \<^verbatim>\<open>checkRecord\<close> is
  documented with.
\<close>

definition row_create :: "string \<Rightarrow> string \<Rightarrow> Record \<Rightarrow> bool" where
  "row_create who h r \<longleftrightarrow>
     (\<exists>v. cr_Versions r = [v] \<and> vn_Head v = HeadPrefix @ h \<and> vn_Uploader v = who) \<and>
     cr_Owner r = who \<and> cr_Seq r = 1 \<and> cr_Active r = 1 \<and> cr_State r = Ready"

definition row_state :: "Record \<Rightarrow> Record \<Rightarrow> bool" where
  "row_state before after \<longleftrightarrow>
     (cr_State before, cr_State after) \<in> {(Ready, Draft), (Draft, Ready), (Withdrawn, Ready), (Ready, Withdrawn), (Draft, Withdrawn)} \<and>
     cr_Versions after = cr_Versions before \<and> cr_Active after = cr_Active before \<and>
     cr_Owner after = cr_Owner before \<and> cr_Seq after = cr_Seq before + 1"

definition row_version :: "string \<Rightarrow> string \<Rightarrow> Record \<Rightarrow> Record \<Rightarrow> bool" where
  "row_version who h before after \<longleftrightarrow>
     (\<exists>v. cr_Versions after = cr_Versions before @ [v] \<and> vn_Head v = HeadPrefix @ h \<and>
        vn_Head v \<noteq> vn_Head (ActiveVersion before) \<and> vn_Uploader v = who) \<and>
     cr_Active after = int (length (cr_Versions after)) \<and> cr_State after = Ready \<and>
     cr_Owner after = cr_Owner before \<and> cr_Seq after = cr_Seq before + 1"

definition row_restack :: "Record \<Rightarrow> Record \<Rightarrow> bool" where
  "row_restack before after \<longleftrightarrow>
     cr_State before = Ready \<and> vn_Branch (ActiveVersion after) = vn_Branch (ActiveVersion before) \<and>
     vn_Title (ActiveVersion after) = vn_Title (ActiveVersion before)"

definition of_change :: "string \<Rightarrow> string \<Rightarrow> Record \<Rightarrow> bool" where
  "of_change target cid r \<longleftrightarrow> cr_ChangeID r = cid \<and> cr_Target r = target"

text \<open>A record commit: its parents and the record its file reads as.\<close>

definition record_at :: "repository \<Rightarrow> string \<Rightarrow> string list \<Rightarrow> Record \<Rightarrow> bool" where
  "record_at repo commit ps r \<longleftrightarrow>
     (\<exists>rc. rp_record repo commit = Inr rc \<and> fc_parents rc = ps \<and> ParseRecord (fc_file rc) = Inr r)"

lemma record_at_unique: "record_at repo c ps r \<Longrightarrow> record_at repo c qs q \<Longrightarrow> ps = qs \<and> r = q"
  by (auto simp: record_at_def)

lemma record_at_ok: "record_at repo c ps r \<Longrightarrow> record_ok r"
  by (auto simp: record_at_def dest: parsed_ok)

lemma sameChange_iff: "sameChange r target cid = Inr () \<longleftrightarrow> of_change target cid r"
  by (auto simp: sameChange_def of_change_def)

lemma isCommit_iff: "isCommit repo h = Inr () \<longleftrightarrow> rp_kind repo h = Some ''commit''"
  by (auto simp: isCommit_def split: option.splits if_splits)

lemma create_iff:
  "checkCreate repo who target cid commit = Inr () \<longleftrightarrow>
     (\<exists>h r. record_at repo commit [h] r \<and> rp_kind repo h = Some ''commit'' \<and> of_change target cid r \<and>
        row_create who h r)"
proof -
  have ps: "(case ps of [h] \<Rightarrow> A h | qs \<Rightarrow> Inl (CreateParents (length qs))) = Inr () \<longleftrightarrow> (\<exists>h. ps = [h] \<and> A h = Inr ())"
    for ps and A :: "string \<Rightarrow> (record_refusal, unit) result"
    by (auto split: list.splits)
  have one: "length vs = 1 \<and> P (vs ! 0) \<longleftrightarrow> (\<exists>v. vs = [v] \<and> P v)" for vs :: "Version list" and P
    by (cases vs) auto
  have row: "(let v = cr_Versions r ! 0
      in if length (cr_Versions r) \<noteq> 1 then Inl (CreateVersions (length (cr_Versions r)))
         else if vn_Head v \<noteq> HeadPrefix @ h then Inl HeadNotNamed
         else if vn_Uploader v \<noteq> who then Inl UploaderNotPusher
         else if cr_Owner r \<noteq> who then Inl OwnerNotPusher
         else if cr_Seq r \<noteq> 1 then Inl SeqNotNext
         else if cr_Active r \<noteq> 1 then Inl ActiveNotNew
         else if cr_State r \<noteq> Ready then Inl StateNotReady
         else Inr ()) = Inr () \<longleftrightarrow> row_create who h r" for h r
    unfolding row_create_def
    using one [of "cr_Versions r" "\<lambda>v. vn_Head v = HeadPrefix @ h \<and> vn_Uploader v = who"] by (auto simp: Let_def)
  show ?thesis
    unfolding checkCreate_def rbind_eq_Inr ps row rmap_err_eq_Inr record_at_def
    by (simp add: sameChange_iff isCommit_iff) blast
qed

lemma state_iff:
  assumes "record_ok before" "record_ok after"
  shows "checkStateChange before after = Inr () \<longleftrightarrow> row_state before after"
proof -
  have "cr_State before \<in> {Ready, Draft, Withdrawn}" "cr_State after \<in> {Ready, Draft, Withdrawn}"
    using assms by (auto simp: record_ok_def)
  moreover have "Ready \<noteq> Draft" "Ready \<noteq> Withdrawn" "Draft \<noteq> Withdrawn"
    by (simp_all add: Ready_def Draft_def Withdrawn_def)
  ultimately show ?thesis by (auto simp: checkStateChange_def row_state_def)
qed

lemma versions_kept:
  "length ys = length xs + 1 \<Longrightarrow>
   check_all (\<lambda>(i, v). if ys ! i \<noteq> v then Inl (VersionChanged i) else Inr ()) (enumerate 0 xs) = Inr () \<longleftrightarrow> ys = xs @ [last ys]"
proof -
  assume l: "length ys = length xs + 1"
  have "check_all (\<lambda>(i, v). if ys ! i \<noteq> v then Inl (VersionChanged i) else Inr ()) (enumerate 0 xs) = Inr () \<longleftrightarrow>
      (\<forall>i < length xs. ys ! i = xs ! i)"
    using enumerate_all [of xs "\<lambda>i v. ys ! i = v"] by (auto simp: result_simps split: if_splits)
  also have "\<dots> \<longleftrightarrow> butlast ys = xs"
    using l by (auto simp: list_eq_iff_nth_eq nth_butlast)
  also have "\<dots> \<longleftrightarrow> ys = xs @ [last ys]"
    using l by (cases ys rule: rev_cases) auto
  finally show ?thesis .
qed

lemma new_version_iff:
  assumes "record_ok after"
  shows "checkNewVersion who before after h = Inr () \<longleftrightarrow> row_version who h before after"
proof (cases "\<exists>v. cr_Versions after = cr_Versions before @ [v]")
  case True
  then obtain v where v: "cr_Versions after = cr_Versions before @ [v]" by blast
  then have "vn_N v = int (length (cr_Versions before)) + 1"
    using assms by (auto simp: record_ok_def version_ok_def nth_append dest!: spec [of _ "length (cr_Versions before)"])
  moreover have "check_all (\<lambda>(i, v). if cr_Versions after ! i \<noteq> v then Inl (VersionChanged i) else Inr ())
      (enumerate 0 (cr_Versions before)) = Inr ()"
    using versions_kept [of "cr_Versions after" "cr_Versions before"] v by simp
  ultimately show ?thesis
    using v by (auto simp: checkNewVersion_def row_version_def LastVersion_def Let_def)
next
  case False
  then have "checkNewVersion who before after h \<noteq> Inr ()"
    using versions_kept [of "cr_Versions after" "cr_Versions before"]
    by (auto simp: checkNewVersion_def result_simps split: if_splits)
  then show ?thesis using False by (auto simp: row_version_def)
qed

lemma restack_iff:
  assumes "row_version who h before after" "cr_State before = Ready"
  shows "checkRestack before after = Inr () \<longleftrightarrow> row_restack before after"
proof -
  have "ActiveVersion after = LastVersion after"
    using assms(1) by (auto simp: row_version_def ActiveVersion_def LastVersion_def nth_append)
  then show ?thesis using assms(2) by (auto simp: checkRestack_def row_restack_def Let_def)
qed

definition may_write :: "grants \<Rightarrow> string \<Rightarrow> Record \<Rightarrow> bool" where
  "may_write g who before \<longleftrightarrow> who = cr_Owner before \<or> holds_grant g who grantApprove"

lemma update_iff:
  "checkUpdate repo g who target cid old commit = Inr () \<longleftrightarrow>
     (\<exists>ps before qs after. record_at repo old ps before \<and> record_at repo commit qs after \<and> of_change target cid after \<and>
        (qs = [old] \<and> may_write g who before \<and> row_state before after \<or>
         (\<exists>h. qs = [old, h] \<and> rp_kind repo h = Some ''commit'' \<and> row_version who h before after \<and>
            (may_write g who before \<or> holds_grant g who grantRestack \<and> row_restack before after))))"
proof -
  have r: "(if who \<noteq> cr_Owner before \<and> \<not> holds_grant g who grantApprove then
          (if \<not> holds_grant g who grantRestack then Inl NotOwnerNorApprover
           else if cr_State before \<noteq> Ready then Inl RestackNotReady else Inr True)
        else Inr False) = Inr restack \<longleftrightarrow>
      (if may_write g who before then \<not> restack
       else restack \<and> holds_grant g who grantRestack \<and> cr_State before = Ready)" for before restack
    by (auto simp: may_write_def)
  have rr: "row_restack before after \<Longrightarrow> cr_State before = Ready" for before after by (simp add: row_restack_def)
  have sw: "(case ps of [p] \<Rightarrow> if p \<noteq> old then Inl UpdateParents else A
      | [p, h] \<Rightarrow> if p \<noteq> old then Inl UpdateParents else B h | _ \<Rightarrow> Inl UpdateParents) = Inr () \<longleftrightarrow>
      ps = [old] \<and> A = Inr () \<or> (\<exists>h. ps = [old, h] \<and> B h = Inr ())"
    for ps and A :: "(record_refusal, unit) result" and B
    by (auto split: list.splits)
  show ?thesis (is "?l \<longleftrightarrow> ?r")
  proof
    assume ?l
    then obtain prev before restack rc after where
      p: "rp_record repo old = Inr prev" "ParseRecord (fc_file prev) = Inr before"
        "rp_record repo commit = Inr rc" "ParseRecord (fc_file rc) = Inr after" "of_change target cid after"
      and m: "if may_write g who before then \<not> restack
        else restack \<and> holds_grant g who grantRestack \<and> cr_State before = Ready"
      and w: "fc_parents rc = [old] \<and> (if restack then Inl RestackChangesState else checkStateChange before after) = Inr () \<or>
        (\<exists>h. fc_parents rc = [old, h] \<and> rbind (isCommit repo h) (\<lambda>_. rbind (checkNewVersion who before after h)
          (\<lambda>_. if \<not> restack then Inr () else checkRestack before after)) = Inr ())"
      unfolding checkUpdate_def sw rbind_eq_Inr rmap_err_eq_Inr r sameChange_iff by (auto simp: sameChange_iff)
    have ok: "record_ok before" "record_ok after" using p(2,4) parsed_ok by blast+
    have at: "record_at repo old (fc_parents prev) before" "record_at repo commit (fc_parents rc) after"
      using p by (auto simp: record_at_def)
    show ?r
      using w
    proof
      assume a: "fc_parents rc = [old] \<and> (if restack then Inl RestackChangesState else checkStateChange before after) = Inr ()"
      then have "row_state before after" "may_write g who before"
        using state_iff [OF ok] m by (auto split: if_splits)
      then show ?r using at p(5) a by metis
    next
      assume "\<exists>h. fc_parents rc = [old, h] \<and> rbind (isCommit repo h) (\<lambda>_. rbind (checkNewVersion who before after h)
          (\<lambda>_. if \<not> restack then Inr () else checkRestack before after)) = Inr ()"
      then obtain h where h: "fc_parents rc = [old, h]" "rp_kind repo h = Some ''commit''" "row_version who h before after"
        "\<not> restack \<or> checkRestack before after = Inr ()"
        using new_version_iff [OF ok(2)] by (auto simp: result_simps isCommit_iff split: if_splits)
      then have "may_write g who before \<or> holds_grant g who grantRestack \<and> row_restack before after"
        using m restack_iff [OF h(3)] by (auto split: if_splits)
      then show ?r using at p(5) h by metis
    qed
  next
    assume ?r
    then obtain prev before rc after where
      p: "rp_record repo old = Inr prev" "ParseRecord (fc_file prev) = Inr before"
        "rp_record repo commit = Inr rc" "ParseRecord (fc_file rc) = Inr after" "of_change target cid after"
      and w: "fc_parents rc = [old] \<and> may_write g who before \<and> row_state before after \<or>
         (\<exists>h. fc_parents rc = [old, h] \<and> rp_kind repo h = Some ''commit'' \<and> row_version who h before after \<and>
            (may_write g who before \<or> holds_grant g who grantRestack \<and> row_restack before after))"
      by (auto simp: record_at_def)
    have ok: "record_ok before" "record_ok after" using p(2,4) parsed_ok by blast+
    have s: "sameChange after target cid = Inr ()" using p(5) sameChange_iff by blast
    show ?l
      using w
    proof
      assume a: "fc_parents rc = [old] \<and> may_write g who before \<and> row_state before after"
      then show ?l using p s state_iff [OF ok] by (auto simp: checkUpdate_def may_write_def)
    next
      assume "\<exists>h. fc_parents rc = [old, h] \<and> rp_kind repo h = Some ''commit'' \<and> row_version who h before after \<and>
            (may_write g who before \<or> holds_grant g who grantRestack \<and> row_restack before after)"
      then obtain h where h: "fc_parents rc = [old, h]" "isCommit repo h = Inr ()" "checkNewVersion who before after h = Inr ()"
        "may_write g who before \<or> holds_grant g who grantRestack \<and> cr_State before = Ready \<and> checkRestack before after = Inr ()"
        using new_version_iff [OF ok(2)] restack_iff rr isCommit_iff by metis
      then show ?l using p s by (auto simp: checkUpdate_def may_write_def)
    qed
  qed
qed

end
