(* ===== verification/RecordHistory.thy ===== *)
theory RecordHistory
  imports HookRecord
begin

text \<open>
  A change record as a state machine: the writes the hook admits to one record ref, one after
  another, and what holds in every state they reach. Objects are named by their content, so
  one repository answers for every write; the principals, the grants and the counts may differ
  from write to write.
\<close>

section \<open>The steps\<close>

text \<open>
  A record ref is there or not. While it is, each write adds a record, and the principal that pushed
  it, to the life it is in; a delete ends that life, and a create after it begins another. Kept are
  the lives so far, the last of them the current one while the ref is there; for each delete the
  grants then and who pushed it; and the commit the ref names. Git moves a ref only from the commit
  it names, so an update or a delete the hook admits is one from that commit.
\<close>

type_synonym life = "(string \<times> Record) list"

inductive record_reach ::
  "repository \<Rightarrow> string \<Rightarrow> life list \<Rightarrow> (grants \<times> string) list \<Rightarrow> string option \<Rightarrow> bool" for repo ref where
  absent: "record_reach repo ref [] [] None"
| created: "record_reach repo ref lives ends None \<Longrightarrow>
    checkRecord repo g existing creates who \<lparr>up_old = old, up_new = c, up_ref = ref\<rparr> = (VCreate, Inr ()) \<Longrightarrow>
    record_at repo c ps r \<Longrightarrow> record_reach repo ref (lives @ [[(who, r)]]) ends (Some c)"
| updated: "record_reach repo ref (lives @ [life]) ends (Some old) \<Longrightarrow>
    checkRecord repo g existing creates who \<lparr>up_old = old, up_new = c, up_ref = ref\<rparr> = (VUpdate, Inr ()) \<Longrightarrow>
    record_at repo c ps r \<Longrightarrow> record_reach repo ref (lives @ [life @ [(who, r)]]) ends (Some c)"
| deleted: "record_reach repo ref lives ends (Some old) \<Longrightarrow>
    checkRecord repo g existing creates who \<lparr>up_old = old, up_new = c, up_ref = ref\<rparr> = (VDelete, Inr ()) \<Longrightarrow>
    record_reach repo ref lives (ends @ [(g, who)]) None"

inductive_cases record_reachE: "record_reach repo ref lives ends cur"

lemma record_delete_iff:
  "checkRecord repo g existing creates who u = (VDelete, Inr ()) \<longleftrightarrow>
     (\<exists>cid. up_ref u = Ref recordTarget cid \<and> ValidBranch recordTarget \<and> ValidID cid \<and> who \<noteq> [] \<and> isZero (up_new u) \<and>
        holds_grant g who grantApprove)"
proof -
  have "checkRecord repo g existing creates who u = (VDelete, Inr ()) \<longleftrightarrow>
     (\<exists>cid. ParseRef (up_ref u) = Some (recordTarget, cid) \<and> who \<noteq> [] \<and> isZero (up_new u) \<and> holds_grant g who grantApprove)"
    by (auto simp: checkRecord_def split: option.splits if_splits)
  then show ?thesis unfolding ParseRef_exact by auto
qed

lemma record_create_iff:
  "checkRecord repo g existing creates who u = (VCreate, Inr ()) \<longleftrightarrow>
     (\<exists>cid h r. up_ref u = Ref recordTarget cid \<and> ValidBranch recordTarget \<and> ValidID cid \<and> who \<noteq> [] \<and> \<not> isZero (up_new u) \<and> isZero (up_old u) \<and>
        existing + creates \<le> maxRecords \<and> record_at repo (up_new u) [h] r \<and> rp_kind repo h = Some ''commit'' \<and>
        of_change recordTarget cid r \<and> row_create who h r)"
proof -
  have "checkRecord repo g existing creates who u = (VCreate, Inr ()) \<longleftrightarrow>
     (\<exists>cid. ParseRef (up_ref u) = Some (recordTarget, cid) \<and> who \<noteq> [] \<and> \<not> isZero (up_new u) \<and> isZero (up_old u) \<and>
        existing + creates \<le> maxRecords \<and> checkCreate repo who recordTarget cid (up_new u) = Inr ())"
    by (auto simp: checkRecord_def split: option.splits if_splits)
  then show ?thesis unfolding create_iff ParseRef_exact by auto
qed

definition update_row :: "repository \<Rightarrow> grants \<Rightarrow> string \<Rightarrow> string list \<Rightarrow> Record \<Rightarrow> string list \<Rightarrow> Record \<Rightarrow> bool" where
  "update_row repo g who old before ps after \<longleftrightarrow>
     ps = old \<and> may_write g who before \<and> row_state before after \<or>
     (\<exists>h. ps = old @ [h] \<and> rp_kind repo h = Some ''commit'' \<and> row_version who h before after \<and>
        (may_write g who before \<or> holds_grant g who grantRestack \<and> row_restack before after))"

lemma record_update_iff:
  "checkRecord repo g existing creates who u = (VUpdate, Inr ()) \<longleftrightarrow>
     (\<exists>cid ps before qs after. up_ref u = Ref recordTarget cid \<and> ValidBranch recordTarget \<and> ValidID cid \<and> who \<noteq> [] \<and>
        \<not> isZero (up_new u) \<and> \<not> isZero (up_old u) \<and>
        record_at repo (up_old u) ps before \<and> record_at repo (up_new u) qs after \<and> of_change recordTarget cid after \<and>
        update_row repo g who [up_old u] before qs after)"
proof -
  have "checkRecord repo g existing creates who u = (VUpdate, Inr ()) \<longleftrightarrow>
     (\<exists>cid. ParseRef (up_ref u) = Some (recordTarget, cid) \<and> who \<noteq> [] \<and>
        \<not> isZero (up_new u) \<and> \<not> isZero (up_old u) \<and>
        checkUpdate repo g who recordTarget cid (up_old u) (up_new u) = Inr ())"
    by (auto simp: checkRecord_def split: option.splits if_splits)
  then show ?thesis unfolding update_iff update_row_def ParseRef_exact by auto
qed

text \<open>
  C21: a push may update a change record exactly by a row of the documented table: the owner or a
  holder of the approve grant changes the state or adds one version; a holder of the restack
  grant alone adds one version to a ready change, on its branch and under its title; the
  record commit's parents are the record replaced and the head of the version added.
\<close>

theorem checkRecord_update_iff:
  "checkRecord repo g existing creates who u = (VUpdate, Inr ()) \<longleftrightarrow>
     (\<exists>cid ps before qs after. up_ref u = Ref recordTarget cid \<and> ValidBranch recordTarget \<and> ValidID cid \<and> who \<noteq> [] \<and>
        \<not> isZero (up_new u) \<and> \<not> isZero (up_old u) \<and>
        record_at repo (up_old u) ps before \<and> record_at repo (up_new u) qs after \<and> of_change recordTarget cid after \<and>
        update_row repo g who [up_old u] before qs after)"
  by (rule record_update_iff)

section \<open>What every step keeps\<close>

lemma update_row_keeps:
  "update_row repo g who old before ps after \<Longrightarrow>
     cr_Owner after = cr_Owner before \<and> cr_Seq after = cr_Seq before + 1 \<and>
     prefix (cr_Versions before) (cr_Versions after)"
  by (auto simp: update_row_def row_state_def row_version_def)

lemma update_row_added:
  "update_row repo g who old before ps after \<Longrightarrow>
     cr_Versions after = cr_Versions before \<or> (\<exists>v. cr_Versions after = cr_Versions before @ [v] \<and> vn_Uploader v = who)"
  by (auto simp: update_row_def row_state_def row_version_def)

text \<open>The version a record adds is the pusher's: each version's uploader pushed a record that ends with it.\<close>

definition record_hist :: "string \<Rightarrow> (string \<times> Record) list \<Rightarrow> bool" where
  "record_hist cid hist \<longleftrightarrow> hist \<noteq> [] \<and>
     (\<forall>i < length hist. record_ok (snd (hist ! i)) \<and> of_change recordTarget cid (snd (hist ! i)) \<and>
        cr_Seq (snd (hist ! i)) = int i + 1 \<and> cr_Owner (snd (hist ! i)) = fst (hist ! 0)) \<and>
     (\<forall>i j. i \<le> j \<longrightarrow> j < length hist \<longrightarrow> prefix (cr_Versions (snd (hist ! i))) (cr_Versions (snd (hist ! j)))) \<and>
     (\<forall>v \<in> set (cr_Versions (snd (last hist))). \<exists>i < length hist.
        vn_Uploader v = fst (hist ! i) \<and> LastVersion (snd (hist ! i)) = v)"

lemma record_hist_snoc:
  assumes h: "record_hist cid hist" and last: "snd (last hist) = before"
    and after: "record_ok after" "of_change recordTarget cid after" "update_row repo g who old before ps after"
  shows "record_hist cid (hist @ [(who, after)])"
proof -
  have ne: "hist \<noteq> []" using h by (simp add: record_hist_def)
  then have before: "before = snd (hist ! (length hist - 1))" using last by (simp add: last_conv_nth)
  have len: "int (length hist - 1) + 1 = int (length hist)" using ne by (cases hist) auto
  have seq: "cr_Seq before = int (length hist)" and owner: "cr_Owner before = fst (hist ! 0)"
    using h ne len unfolding before by (auto simp: record_hist_def)
  have keeps: "cr_Owner after = cr_Owner before" "cr_Seq after = cr_Seq before + 1"
    "prefix (cr_Versions before) (cr_Versions after)"
    using update_row_keeps [OF after(3)] by auto
  have nth: "(hist @ [(who, after)]) ! i = (if i < length hist then hist ! i else (who, after))"
    if "i < length (hist @ [(who, after)])" for i
    using that by (auto simp: nth_append)
  have pre: "prefix (cr_Versions (snd (hist ! i))) (cr_Versions before)" if "i < length hist" for i
    using h that ne unfolding before by (auto simp: record_hist_def)
  show ?thesis
    unfolding record_hist_def
  proof (intro conjI allI impI ballI)
    fix i assume i: "i < length (hist @ [(who, after)])"
    let ?r = "snd ((hist @ [(who, after)]) ! i)"
    show "record_ok ?r" "of_change recordTarget cid ?r" "cr_Seq ?r = int i + 1"
      "cr_Owner ?r = fst ((hist @ [(who, after)]) ! 0)"
      using h i after(1,2) keeps seq owner ne by (auto simp: nth record_hist_def nth_append less_Suc_eq)
  next
    fix i j assume ij: "i \<le> j" "j < length (hist @ [(who, after)])"
    show "prefix (cr_Versions (snd ((hist @ [(who, after)]) ! i))) (cr_Versions (snd ((hist @ [(who, after)]) ! j)))"
    proof (cases "j < length hist")
      case True
      then show ?thesis using h ij by (simp add: record_hist_def nth_append)
    next
      case False
      then have j: "(hist @ [(who, after)]) ! j = (who, after)" using nth [OF ij(2)] by simp
      show ?thesis
        using j keeps(3) pre [of i] ij False by (auto simp: nth_append intro: prefix_order.trans)
    qed
  next
    fix v assume v: "v \<in> set (cr_Versions (snd (last (hist @ [(who, after)]))))"
    show "\<exists>i < length (hist @ [(who, after)]). vn_Uploader v = fst ((hist @ [(who, after)]) ! i) \<and>
        LastVersion (snd ((hist @ [(who, after)]) ! i)) = v"
    proof (cases "v \<in> set (cr_Versions before)")
      case True
      then obtain i where "i < length hist" "vn_Uploader v = fst (hist ! i)" "LastVersion (snd (hist ! i)) = v"
        using h last unfolding record_hist_def by blast
      then show ?thesis by (intro exI [of _ i]) (simp add: nth_append)
    next
      case False
      then have "cr_Versions after = cr_Versions before @ [v] \<and> vn_Uploader v = who"
        using v update_row_added [OF after(3)] by auto
      then show ?thesis by (intro exI [of _ "length hist"]) (simp add: LastVersion_def)
    qed
  qed simp
qed

text \<open>One life: a change under its ID, as one create and the updates after it make it.\<close>

definition life_ok :: "string \<Rightarrow> life \<Rightarrow> bool" where
  "life_ok ref life \<longleftrightarrow>
     (\<exists>cid. ref = Ref recordTarget cid \<and> ValidID cid \<and> record_hist cid life \<and> int (length life) \<le> MaxSeq)"

text \<open>The ref names the last record of the last life while it is there.\<close>

definition ref_names :: "repository \<Rightarrow> life list \<Rightarrow> string option \<Rightarrow> bool" where
  "ref_names repo lives cur \<longleftrightarrow>
     (case cur of None \<Rightarrow> True | Some c \<Rightarrow> lives \<noteq> [] \<and> (\<exists>ps. record_at repo c ps (snd (last (last lives)))))"

lemma record_hist_length:
  assumes "record_hist cid hist"
  shows "int (length hist) \<le> MaxSeq"
proof -
  have ne: "hist \<noteq> []" using assms by (simp add: record_hist_def)
  have "int (length hist - 1) + 1 = int (length hist)" using ne by (cases hist) auto
  with ne have "record_ok (snd (hist ! (length hist - 1)))" "cr_Seq (snd (hist ! (length hist - 1))) = int (length hist)"
    using assms by (auto simp: record_hist_def)
  then show ?thesis by (auto simp: record_ok_def)
qed

lemma created_life:
  assumes "checkRecord repo g existing creates who \<lparr>up_old = old, up_new = c, up_ref = ref\<rparr> = (VCreate, Inr ())"
    "record_at repo c ps r"
  shows "life_ok ref [(who, r)]"
proof -
  obtain cid h r' where ref: "ref = Ref recordTarget cid" "ValidID cid" "of_change recordTarget cid r'"
    and c: "record_at repo c [h] r'" and row: "row_create who h r'"
    using assms(1) by (auto simp: record_create_iff)
  have r: "r' = r" using record_at_unique [OF c assms(2)] by simp
  have "record_hist cid [(who, r)]"
    using ref(3) row record_at_ok [OF c] unfolding r
    by (auto simp: record_hist_def row_create_def LastVersion_def)
  then show ?thesis using ref(1,2) record_hist_length unfolding life_ok_def by blast
qed

lemma updated_life:
  assumes "life_ok ref life" "record_at repo old qs (snd (last life))"
    "checkRecord repo g existing creates who \<lparr>up_old = old, up_new = c, up_ref = ref\<rparr> = (VUpdate, Inr ())"
    "record_at repo c ps r"
  shows "life_ok ref (life @ [(who, r)])"
proof -
  obtain cid where hist: "ref = Ref recordTarget cid" "ValidID cid" "record_hist cid life"
    using assms(1) by (auto simp: life_ok_def)
  obtain cid' ps' before qs' after where u: "ref = Ref recordTarget cid'" "ValidID cid'" "record_at repo old ps' before"
    "record_at repo c qs' after" "of_change recordTarget cid' after" "update_row repo g who [old] before qs' after"
    using assms(3) by (auto simp: record_update_iff)
  have "cid' = cid" using Ref_inj [OF u(2) hist(2)] hist(1) u(1) by metis
  moreover have "before = snd (last life)" "after = r"
    using record_at_unique [OF u(3) assms(2)] record_at_unique [OF u(4) assms(4)] by blast+
  ultimately have same: "cid' = cid" "before = snd (last life)" "after = r" by blast+
  have "record_hist cid (life @ [(who, r)])"
    using record_hist_snoc [OF hist(3) same(2) [symmetric] record_at_ok [OF u(4)]] u(5,6) unfolding same by blast
  then show ?thesis using hist(1,2) record_hist_length unfolding life_ok_def by blast
qed

lemma reached_lives:
  "record_reach repo ref lives ends cur \<Longrightarrow>
     list_all (life_ok ref) lives \<and> list_all (\<lambda>(g, who). holds_grant g who grantApprove) ends \<and>
     length lives = length ends + (if cur = None then 0 else 1) \<and> ref_names repo lives cur"
proof (induction rule: record_reach.induct)
  case absent
  then show ?case by (simp add: ref_names_def)
next
  case (created lives ends g existing creates who old c ps r)
  then show ?case using created_life [OF created(2,3)] created(3) by (auto simp: ref_names_def)
next
  case (updated lives life ends old g existing creates who c ps r)
  obtain qs where "record_at repo old qs (snd (last life))" "life_ok ref life"
    using updated.IH by (auto simp: ref_names_def)
  then have "life_ok ref (life @ [(who, r)])" using updated_life [OF _ _ updated(2,3)] by blast
  then show ?case using updated.IH updated(3) by (auto simp: ref_names_def)
next
  case (deleted lives ends old g existing creates who c)
  then show ?case by (auto simp: record_delete_iff ref_names_def)
qed

text \<open>
  C11: whatever creates, updates and deletes the hook has admitted to a record ref, the records it
  has named fall into lives, each begun by a create and each but the current one ended by a delete,
  which only a holder of the approve grant can push. Within one life the records are those of one
  change and one owner, its creator; their numbers count 1, 2, 3 without a gap and never pass
  \<open>MaxSeq\<close>; no version is ever changed or lost; and each version was added by the principal it names
  as its uploader. A life after a delete begins anew, and may be another owner's.
\<close>

theorem record_history_invariant:
  assumes "record_reach repo ref lives ends cur"
  shows "list_all (life_ok ref) lives \<and> list_all (\<lambda>(g, who). holds_grant g who grantApprove) ends \<and>
    length lives = length ends + (if cur = None then 0 else 1) \<and> ref_names repo lives cur"
  by (rule reached_lives [OF assms])

text \<open>
  C12: a principal that neither owns the change nor holds the approve grant can only add a version
  of its own to it, and only while the change is ready: the branch, the title, the state, the
  owner and every version before stay as they were.
\<close>

theorem restack_only_adds:
  assumes "checkRecord repo g existing creates who u = (VUpdate, Inr ())"
    "record_at repo (up_old u) ps before" "record_at repo (up_new u) qs after"
    "who \<noteq> cr_Owner before" "\<not> holds_grant g who grantApprove"
  shows "holds_grant g who grantRestack \<and> cr_State before = Ready \<and> cr_State after = Ready \<and>
    cr_Owner after = cr_Owner before \<and>
    (\<exists>v. cr_Versions after = cr_Versions before @ [v] \<and> vn_Uploader v = who \<and>
       vn_Branch v = vn_Branch (ActiveVersion before) \<and> vn_Title v = vn_Title (ActiveVersion before))"
proof -
  have "update_row repo g who [up_old u] before qs after"
    using assms(1) record_at_unique [OF assms(2)] record_at_unique [OF assms(3)] unfolding record_update_iff by metis
  then obtain h where r: "row_version who h before after" "holds_grant g who grantRestack" "row_restack before after"
    using assms(4,5) by (auto simp: update_row_def may_write_def)
  moreover have "ActiveVersion after = last (cr_Versions after)"
    using r(1) by (auto simp: row_version_def ActiveVersion_def nth_append)
  ultimately show ?thesis by (auto simp: row_version_def row_restack_def)
qed

section \<open>A change created and restacked\<close>

definition zeros :: string where "zeros = replicate 40 (CHR ''0'')"

definition head_a :: string where "head_a = replicate 40 (CHR ''a'')"
definition head_b :: string where "head_b = replicate 40 (CHR ''b'')"

definition sample_version :: "int \<Rightarrow> string \<Rightarrow> string \<Rightarrow> Version" where
  "sample_version n h who =
     \<lparr>vn_N = n, vn_Head = HeadPrefix @ h, vn_Title = ''t'', vn_Branch = ''b'', vn_Uploader = who\<rparr>"

definition sample_record :: "int \<Rightarrow> Version list \<Rightarrow> Record" where
  "sample_record n vs =
     \<lparr>cr_Schema = Schema, cr_ChangeID = replicate 32 (CHR ''k''), cr_Target = recordTarget, cr_Owner = ''alice'',
      cr_State = Ready, cr_Seq = n, cr_Versions = vs, cr_Active = n\<rparr>"

definition first_record :: Record where
  "first_record = sample_record 1 [sample_version 1 head_a ''alice'']"

definition second_record :: Record where
  "second_record = sample_record 2 [sample_version 1 head_a ''alice'', sample_version 2 head_b ''bob'']"

definition sample_file :: "Record \<Rightarrow> string" where
  "sample_file r = write_value 0 (record_value r) @ [CHR 0x0A]"

definition sample_repo :: repository where
  "sample_repo =
     \<lparr>rp_symbolic = (\<lambda>_. None), rp_notes = (\<lambda>_. Inl NoNotes),
      rp_record = (\<lambda>c. if c = ''c1'' then Inr \<lparr>fc_parents = [head_a], fc_file = sample_file first_record\<rparr>
        else if c = ''c2'' then Inr \<lparr>fc_parents = [''c1'', head_b], fc_file = sample_file second_record\<rparr>
        else Inl TreeEmpty),
      rp_report = (\<lambda>_. Inl TreeEmpty), rp_hasRecord = (\<lambda>_. None), rp_kind = (\<lambda>_. Some ''commit''), rp_records = Some 0,
      rp_graph = None\<rparr>"

definition sample_grants :: grants where
  "sample_grants who grant \<longleftrightarrow> who = ''bob'' \<and> grant = grantRestack"

definition sample_ref :: string where
  "sample_ref = Ref recordTarget (replicate 32 (CHR ''k''))"

lemma sample_parts:
  "ValidID (replicate 32 (CHR ''k''))" "ValidBranch recordTarget" "utf8_valid recordTarget"
  "ValidPrincipal ''alice''" "ValidPrincipal ''bob''" "ValidHead (HeadPrefix @ head_a)" "ValidHead (HeadPrefix @ head_b)"
  "ValidTitle ''t''" "ValidBranch ''b''" "utf8_valid ''b''"
proof -
  show "ValidID (replicate 32 (CHR ''k''))" by (simp add: ValidID_def IDLength_def isIDText_def byte_val_def list_all_iff)
  show "ValidBranch recordTarget" "ValidBranch ''b''"
    by (simp_all add: ValidBranch_def recordTarget_def has_suffix_def byte_val_def suffix_to_prefix)
  show "utf8_valid recordTarget" "utf8_valid ''b''" by (simp_all add: recordTarget_def byte_val_def)
  show "ValidPrincipal ''alice''" "ValidPrincipal ''bob''" by code_simp+
  show "ValidHead (HeadPrefix @ head_a)" "ValidHead (HeadPrefix @ head_b)"
    by (simp_all add: ValidHead_def head_a_def head_b_def is_lower_hex_def byte_val_def list_all_iff)
  show "ValidTitle ''t''"
    by (simp add: ValidTitle_def MaxVersionTitle_def byte_val_def runes_def chunks_ascii rune_of_def is_control_rune_def)
qed

lemma sample_ok: "record_ok first_record" "record_ok second_record"
  using sample_parts
  by (auto simp: first_record_def second_record_def sample_record_def sample_version_def record_ok_def version_ok_def
      MaxSeq_def MaxVersions_def less_Suc_eq)

lemma sample_at: "record_at sample_repo ''c1'' [head_a] first_record" "record_at sample_repo ''c2'' [''c1'', head_b] second_record"
  using sample_ok [THEN record_back] by (simp_all add: record_at_def sample_repo_def sample_file_def)

lemma sample_created:
  "checkRecord sample_repo sample_grants 0 1 ''alice'' \<lparr>up_old = zeros, up_new = ''c1'', up_ref = sample_ref\<rparr> = (VCreate, Inr ())"
  unfolding record_create_iff
proof -
  have "row_create ''alice'' head_a first_record" "of_change recordTarget (replicate 32 (CHR ''k'')) first_record"
    by (simp_all add: row_create_def of_change_def first_record_def sample_record_def sample_version_def)
  moreover have "isZero zeros" by (simp add: zeros_def isZero_def list_all_iff)
  moreover have "rp_kind sample_repo head_a = Some ''commit''" by (simp add: sample_repo_def)
  ultimately show "\<exists>cid h r. up_ref \<lparr>up_old = zeros, up_new = ''c1'', up_ref = sample_ref\<rparr> = Ref recordTarget cid \<and>
      ValidBranch recordTarget \<and> ValidID cid \<and> ''alice'' \<noteq> [] \<and>
      \<not> isZero (up_new \<lparr>up_old = zeros, up_new = ''c1'', up_ref = sample_ref\<rparr>) \<and>
      isZero (up_old \<lparr>up_old = zeros, up_new = ''c1'', up_ref = sample_ref\<rparr>) \<and> 0 + 1 \<le> maxRecords \<and>
      record_at sample_repo (up_new \<lparr>up_old = zeros, up_new = ''c1'', up_ref = sample_ref\<rparr>) [h] r \<and>
      rp_kind sample_repo h = Some ''commit'' \<and> of_change recordTarget cid r \<and> row_create ''alice'' h r"
    by - (rule exI [of _ "replicate 32 (CHR ''k'')"], rule exI [of _ head_a], rule exI [of _ first_record],
        use sample_parts(1,2) sample_at(1) in \<open>simp add: sample_ref_def isZero_def maxRecords_def\<close>)
qed

lemma sample_restacked:
  "checkRecord sample_repo sample_grants 0 0 ''bob'' \<lparr>up_old = ''c1'', up_new = ''c2'', up_ref = sample_ref\<rparr> = (VUpdate, Inr ())"
proof -
  have "head_a \<noteq> head_b" by (simp add: head_a_def head_b_def)
  then have "row_version ''bob'' head_b first_record second_record \<and> row_restack first_record second_record"
    by (simp add: row_version_def row_restack_def first_record_def second_record_def sample_record_def sample_version_def
        ActiveVersion_def)
  then have "update_row sample_repo sample_grants ''bob'' [''c1''] first_record [''c1'', head_b] second_record"
    by (simp add: update_row_def sample_repo_def holds_grant_def sample_grants_def grantRestack_def grantApprove_def grantRequest_def)
  then show ?thesis
    unfolding record_update_iff
    by - (rule exI [of _ "replicate 32 (CHR ''k'')"], rule exI [of _ "[head_a]"], rule exI [of _ first_record],
        rule exI [of _ "[''c1'', head_b]"], rule exI [of _ second_record],
        use sample_parts sample_at in \<open>simp add: sample_ref_def isZero_def of_change_def second_record_def sample_record_def\<close>)
qed

definition approve_grants :: grants where
  "approve_grants who grant \<longleftrightarrow> who = ''carol'' \<and> grant = grantApprove"

lemma sample_deleted:
  "checkRecord sample_repo approve_grants 0 0 ''carol'' \<lparr>up_old = ''c2'', up_new = zeros, up_ref = sample_ref\<rparr> = (VDelete, Inr ())"
  unfolding record_delete_iff
  by (rule exI [of _ "replicate 32 (CHR ''k'')"])
    (use sample_parts(1,2) in \<open>simp add: sample_ref_def zeros_def isZero_def list_all_iff holds_grant_def approve_grants_def\<close>)

text \<open>Created by alice, restacked by bob, deleted by carol, and created once more.\<close>

lemma sample_reached:
  "record_reach sample_repo sample_ref [[(''alice'', first_record), (''bob'', second_record)]] [] (Some ''c2'')"
  "record_reach sample_repo sample_ref [[(''alice'', first_record), (''bob'', second_record)], [(''alice'', first_record)]]
     [(approve_grants, ''carol'')] (Some ''c1'')"
proof -
  note create = record_reach.created [OF _ sample_created sample_at(1)]
  have "record_reach sample_repo sample_ref ([] @ [[(''alice'', first_record)]]) [] (Some ''c1'')"
    by (rule create [OF record_reach.absent])
  from record_reach.updated [OF this sample_restacked sample_at(2)]
  show r: "record_reach sample_repo sample_ref [[(''alice'', first_record), (''bob'', second_record)]] [] (Some ''c2'')" by simp
  show "record_reach sample_repo sample_ref [[(''alice'', first_record), (''bob'', second_record)], [(''alice'', first_record)]]
     [(approve_grants, ''carol'')] (Some ''c1'')"
    using create [OF record_reach.deleted [OF r sample_deleted]] by simp
qed

lemma record_history_invariant_witness:
  "life_ok sample_ref [(''alice'', first_record), (''bob'', second_record)] \<and> life_ok sample_ref [(''alice'', first_record)] \<and>
    holds_grant approve_grants ''carol'' grantApprove"
  using record_history_invariant [OF sample_reached(2)] by simp

lemma restack_only_adds_witness:
  "holds_grant sample_grants ''bob'' grantRestack \<and> cr_State first_record = Ready \<and> cr_State second_record = Ready \<and>
    cr_Owner second_record = cr_Owner first_record \<and>
    (\<exists>v. cr_Versions second_record = cr_Versions first_record @ [v] \<and> vn_Uploader v = ''bob'' \<and>
       vn_Branch v = vn_Branch (ActiveVersion first_record) \<and> vn_Title v = vn_Title (ActiveVersion first_record))"
proof (rule restack_only_adds [OF sample_restacked])
  show "record_at sample_repo (up_old \<lparr>up_old = ''c1'', up_new = ''c2'', up_ref = sample_ref\<rparr>) [head_a] first_record"
    "record_at sample_repo (up_new \<lparr>up_old = ''c1'', up_new = ''c2'', up_ref = sample_ref\<rparr>) [''c1'', head_b] second_record"
    using sample_at by simp_all
qed (simp_all add: first_record_def sample_record_def holds_grant_def sample_grants_def grantRestack_def grantApprove_def grantRequest_def)

end
