(* ===== verification/ChangeReport.thy ===== *)
theory ChangeReport
  imports ChangeRecord
begin

text \<open>
  \<^verbatim>\<open>change/report.go\<close>: the restack report, what the host's restacker observed when it tried to
  rebase a change: its ref, its strict reading, the rules \<^verbatim>\<open>Check\<close> holds it to, and its writing.
\<close>

section \<open>The report's ref\<close>

definition RestackSchema :: string where "RestackSchema = ''valley-restack-report/v1''"
definition RestackPrefix :: string where "RestackPrefix = ''refs/the-valley/restack/''"

definition RestackRef :: "string \<Rightarrow> string \<Rightarrow> string" where
  "RestackRef target cid = RestackPrefix @ target @ ''/'' @ cid"

definition ParseRestackRef :: "string \<Rightarrow> (string \<times> string) option" where
  "ParseRestackRef ref =
     (case cut_prefix ref RestackPrefix of
        None \<Rightarrow> None
      | Some rest \<Rightarrow>
          (case last_slash rest of
             None \<Rightarrow> None
           | Some slash \<Rightarrow>
               let target = take slash rest; cid = drop (slash + 1) rest
               in if \<not> ValidBranch target \<or> \<not> ValidID cid then None else Some (target, cid)))"

section \<open>The report\<close>

definition RestackConflict :: string where "RestackConflict = ''conflict''"
definition RestackBlocked :: string where "RestackBlocked = ''blocked''"
definition RestackPartial :: string where "RestackPartial = ''partial''"
definition RestackComplete :: string where "RestackComplete = ''complete''"
definition RestackSuperseded :: string where "RestackSuperseded = ''superseded''"

definition MaxRestackLayers :: nat where "MaxRestackLayers = 64"
definition MaxConflictPaths :: nat where "MaxConflictPaths = 100"
definition MaxConflictPath :: nat where "MaxConflictPath = 1024"
definition MaxBlockingRequest :: nat where "MaxBlockingRequest = 64"
definition MaxRequestRef :: nat where "MaxRequestRef = 256"
definition MaxRefusal :: nat where "MaxRefusal = 2048"
definition MaxOperation :: nat where "MaxOperation = 64"
definition MaxReportUpdates :: nat where "MaxReportUpdates = 64"

record RestackPublished =
  pb_Head :: string
  pb_Version :: "int option"
  pb_Record :: "string option"

record RestackLayer =
  ly_ChangeID :: string
  ly_Record :: string
  ly_Version :: int
  ly_Head :: string
  ly_Branch :: string
  ly_BranchTip :: "string option"
  ly_Published :: "RestackPublished option"

record RestackRequest =
  rq_Ref :: string
  rq_Tip :: string

record RestackReport =
  rr_Schema :: string
  rr_ChangeID :: string
  rr_Target :: string
  rr_TargetTip :: string
  rr_Operation :: string
  rr_Result :: string
  rr_Layers :: "RestackLayer list"
  rr_Failing :: "string option"
  rr_Conflicts :: "string list"
  rr_Requests :: "RestackRequest list"
  rr_Refusal :: "string option"

definition Layer :: "RestackReport \<Rightarrow> string \<Rightarrow> RestackLayer option" where
  "Layer r cid = find (\<lambda>l. ly_ChangeID l = cid) (rr_Layers r)"

section \<open>The rules\<close>

definition re_operationName :: rexp where
  "re_operationName =
     Seq cls_alnum
       (Many (Cls [(CHR ''a'', CHR ''z''), (CHR ''A'', CHR ''Z''), (CHR ''0'', CHR ''9''), (CHR ''.'', CHR ''.''),
          (CHR ''_'', CHR ''_''), (CHR '':'', CHR '':''), (CHR ''-'', CHR ''-'')]))"

definition validResult :: "string \<Rightarrow> bool" where
  "validResult s \<longleftrightarrow> s \<in> set [RestackConflict, RestackBlocked, RestackPartial, RestackComplete, RestackSuperseded]"

definition validText :: "string \<Rightarrow> nat \<Rightarrow> bool" where
  "validText s mx \<longleftrightarrow>
     (if length s < 1 \<or> length s > mx \<or> \<not> utf8_valid s then False else \<not> list_ex is_control_rune (runes s))"

datatype layer_rule =
    LayerID
  | LayerTwice
  | LayerRecord
  | LayerVersion
  | LayerHead
  | LayerBranch
  | LayerTip
  | TipWithoutBranch
  | PublishedWithoutBranch
  | PublishedHead
  | PublishedHalf
  | PublishedVersion
  | PublishedRecord

datatype request_rule = RequestRef | RequestTwice | RequestTip

datatype report_rule =
    ReportSchema
  | ReportChangeID
  | ReportTarget
  | ReportTargetTip
  | ReportOperation
  | ReportResult
  | NoLayer
  | ManyLayers
  | ManyConflicts
  | ManyRequests
  | ReportRefusal
  | BadLayer nat layer_rule
  | BadConflictPath nat
  | BadRequest nat request_rule
  | ChangeNotLayered
  | FailingNotLayered
  | ConflictNamesNone
  | NothingPublished
  | NotAllPublished

definition opt_all :: "('a \<Rightarrow> bool) \<Rightarrow> 'a option \<Rightarrow> bool" where
  "opt_all P v = (case v of None \<Rightarrow> True | Some x \<Rightarrow> P x)"

definition check_report_head :: "RestackReport \<Rightarrow> (report_rule, unit) result" where
  "check_report_head r =
     (if rr_Schema r \<noteq> RestackSchema then Inl ReportSchema
      else if \<not> ValidID (rr_ChangeID r) then Inl ReportChangeID
      else if \<not> ValidBranch (rr_Target r) \<or> \<not> utf8_valid (rr_Target r) then Inl ReportTarget
      else if \<not> ValidHead (rr_TargetTip r) then Inl ReportTargetTip
      else if \<not> matches re_operationName (rr_Operation r) \<or> length (rr_Operation r) > MaxOperation
      then Inl ReportOperation
      else if \<not> validResult (rr_Result r) then Inl ReportResult
      else if length (rr_Layers r) = 0 then Inl NoLayer
      else if length (rr_Layers r) > MaxRestackLayers then Inl ManyLayers
      else if length (rr_Conflicts r) > MaxConflictPaths then Inl ManyConflicts
      else if length (rr_Requests r) > MaxBlockingRequest then Inl ManyRequests
      else if \<not> opt_all (\<lambda>t. validText t MaxRefusal) (rr_Refusal r) then Inl ReportRefusal
      else Inr ())"

definition check_layer :: "string list \<Rightarrow> RestackLayer \<Rightarrow> (layer_rule, unit) result" where
  "check_layer seen l =
     (if \<not> ValidID (ly_ChangeID l) then Inl LayerID
      else if ly_ChangeID l \<in> set seen then Inl LayerTwice
      else if \<not> ValidHead (ly_Record l) then Inl LayerRecord
      else if ly_Version l < 1 \<or> ly_Version l > MaxVersions then Inl LayerVersion
      else if \<not> ValidHead (ly_Head l) then Inl LayerHead
      else if ly_Branch l \<noteq> [] \<and> (\<not> ValidBranch (ly_Branch l) \<or> \<not> utf8_valid (ly_Branch l)) then Inl LayerBranch
      else if \<not> opt_all ValidHead (ly_BranchTip l) then Inl LayerTip
      else if ly_Branch l = [] \<and> ly_BranchTip l \<noteq> None then Inl TipWithoutBranch
      else if ly_Branch l = [] \<and> ly_Published l \<noteq> None then Inl PublishedWithoutBranch
      else Inr ())"

definition check_published :: "RestackPublished \<Rightarrow> (layer_rule, unit) result" where
  "check_published p =
     (if \<not> ValidHead (pb_Head p) then Inl PublishedHead
      else if (pb_Version p = None) \<noteq> (pb_Record p = None) then Inl PublishedHalf
      else if \<not> opt_all (\<lambda>n. 1 \<le> n \<and> n \<le> MaxVersions) (pb_Version p) then Inl PublishedVersion
      else if \<not> opt_all ValidHead (pb_Record p) then Inl PublishedRecord
      else Inr ())"

text \<open>
  The loop over the layers: the changes seen, whether any layer published, and whether each
  published a version.
\<close>

fun check_layers ::
  "nat \<Rightarrow> string list \<Rightarrow> bool \<Rightarrow> bool \<Rightarrow> RestackLayer list \<Rightarrow> (report_rule, string list \<times> bool \<times> bool) result" where
  "check_layers i seen published versioned [] = Inr (seen, published, versioned)"
| "check_layers i seen published versioned (l # ls) =
     rbind (rmap_err (BadLayer i) (check_layer seen l)) (\<lambda>_.
       case ly_Published l of
         None \<Rightarrow> check_layers (i + 1) (ly_ChangeID l # seen) published False ls
       | Some p \<Rightarrow>
           rbind (rmap_err (BadLayer i) (check_published p)) (\<lambda>_.
             check_layers (i + 1) (ly_ChangeID l # seen) True (versioned \<and> pb_Version p \<noteq> None) ls))"

definition request_prefix :: "string \<Rightarrow> string" where
  "request_prefix target = ''refs/the-valley/integration-requests/'' @ target @ ''/''"

definition request_on :: "string \<Rightarrow> string \<Rightarrow> bool" where
  "request_on target ref \<longleftrightarrow>
     (case cut_prefix ref (request_prefix target) of None \<Rightarrow> False | Some name \<Rightarrow> ValidBranch name)"

fun check_requests :: "string \<Rightarrow> nat \<Rightarrow> string list \<Rightarrow> RestackRequest list \<Rightarrow> (report_rule, unit) result" where
  "check_requests target i seen [] = Inr ()"
| "check_requests target i seen (q # qs) =
     (if \<not> request_on target (rq_Ref q) \<or> length (rq_Ref q) > MaxRequestRef then Inl (BadRequest i RequestRef)
      else if rq_Ref q \<in> set seen then Inl (BadRequest i RequestTwice)
      else if \<not> ValidHead (rq_Tip q) then Inl (BadRequest i RequestTip)
      else check_requests target (i + 1) (rq_Ref q # seen) qs)"

definition check_report :: "RestackReport \<Rightarrow> (report_rule, unit) result" where
  "check_report r =
     rbind (check_report_head r) (\<lambda>_.
     rbind (check_layers 0 [] False True (rr_Layers r)) (\<lambda>(seen, published, versioned).
     rbind (check_all (\<lambda>(i, path). if \<not> validText path MaxConflictPath then Inl (BadConflictPath i) else Inr ())
       (enumerate 0 (rr_Conflicts r))) (\<lambda>_.
     rbind (check_requests (rr_Target r) 0 [] (rr_Requests r)) (\<lambda>_.
       if rr_ChangeID r \<notin> set seen then Inl ChangeNotLayered
       else if \<not> opt_all (\<lambda>f. f \<in> set seen) (rr_Failing r) then Inl FailingNotLayered
       else if rr_Result r = RestackConflict \<and> rr_Failing r = None then Inl ConflictNamesNone
       else if (rr_Result r = RestackConflict \<or> rr_Result r = RestackBlocked) \<and> published then Inl NothingPublished
       else if rr_Result r = RestackComplete \<and> \<not> versioned then Inl NotAllPublished
       else Inr ()))))"

section \<open>Reading\<close>

datatype report_error =
    ReportField record_error
  | NotStringOrNull place string jkind
  | NotAList string jkind
  | ListTooLong string nat
  | ReportRule report_rule

abbreviation json_null :: jvalue where "json_null \<equiv> JLiteral ''null''"

fun optionalString :: "jvalue option \<Rightarrow> place \<Rightarrow> string \<Rightarrow> (report_error, string option) result" where
  "optionalString (Some v) at name =
     (if v = json_null then Inr None
      else
        (case stringOf (Some v) at name of
           Inl _ \<Rightarrow> Inl (NotStringOrNull at name (kind_of v))
         | Inr s \<Rightarrow> Inr (Some s)))"
| "optionalString None at name = Inl (ReportField (NoField at name))"

fun list_of :: "jvalue option \<Rightarrow> string \<Rightarrow> nat \<Rightarrow> (report_error, jvalue list) result" where
  "list_of (Some (JArray items)) name mx = (if length items > mx then Inl (ListTooLong name (length items)) else Inr items)"
| "list_of (Some v) name mx = Inl (NotAList name (kind_of v))"
| "list_of None name mx = Inl (ReportField (NoField Whole name))"

definition stringsOf :: "jvalue option \<Rightarrow> string \<Rightarrow> nat \<Rightarrow> (report_error, string list) result" where
  "stringsOf v name mx =
     rbind (list_of v name mx) (\<lambda>items. map_result (\<lambda>item. rmap_err ReportField (stringOf (Some item) Whole name)) items)"

definition request_of :: "nat \<Rightarrow> jvalue \<Rightarrow> (report_error, RestackRequest) result" where
  "request_of i item =
     rmap_err ReportField
       (rbind (fieldsOf item (RequestAt i) [''ref'', ''tip'']) (\<lambda>qo.
        rbind (stringOf (qo ''ref'') (RequestAt i) ''ref'') (\<lambda>ref.
        rbind (stringOf (qo ''tip'') (RequestAt i) ''tip'') (\<lambda>tip.
          Inr \<lparr>rq_Ref = ref, rq_Tip = tip\<rparr>))))"

definition requestsOf :: "jvalue option \<Rightarrow> (report_error, RestackRequest list) result" where
  "requestsOf v =
     rbind (list_of v ''blocking_requests'' MaxBlockingRequest)
       (\<lambda>items. map_result (\<lambda>(i, item). request_of i item) (enumerate 0 items))"

fun version_of :: "jvalue option \<Rightarrow> place \<Rightarrow> (report_error, int option) result" where
  "version_of v at =
     (if v = Some json_null then Inr None
      else rbind (rmap_err ReportField (integerOf v at ''version'' MaxVersions)) (\<lambda>n. Inr (Some n)))"

fun published_of :: "nat \<Rightarrow> jvalue option \<Rightarrow> (report_error, RestackPublished option) result" where
  "published_of i None = Inl (ReportField (NoField (LayerAt i) ''published''))"
| "published_of i (Some p) =
     (if p = json_null then Inr None
      else
        rbind (rmap_err ReportField (fieldsOf p (PublishedAt i) [''head'', ''version'', ''record''])) (\<lambda>po.
        rbind (rmap_err ReportField (stringOf (po ''head'') (PublishedAt i) ''head'')) (\<lambda>head.
        rbind (version_of (po ''version'') (PublishedAt i)) (\<lambda>version.
        rbind (optionalString (po ''record'') (PublishedAt i) ''record'') (\<lambda>rec.
          Inr (Some \<lparr>pb_Head = head, pb_Version = version, pb_Record = rec\<rparr>))))))"

definition layerOf :: "nat \<Rightarrow> jvalue \<Rightarrow> (report_error, RestackLayer) result" where
  "layerOf i v =
     rbind (rmap_err ReportField (fieldsOf v (LayerAt i)
       [''change_id'', ''record'', ''version'', ''head'', ''branch'', ''branch_tip'', ''published''])) (\<lambda>lo.
     rbind (rmap_err ReportField (stringOf (lo ''change_id'') (LayerAt i) ''change_id'')) (\<lambda>cid.
     rbind (rmap_err ReportField (stringOf (lo ''record'') (LayerAt i) ''record'')) (\<lambda>rec.
     rbind (rmap_err ReportField (stringOf (lo ''head'') (LayerAt i) ''head'')) (\<lambda>head.
     rbind (rmap_err ReportField (stringOf (lo ''branch'') (LayerAt i) ''branch'')) (\<lambda>branch.
     rbind (rmap_err ReportField (integerOf (lo ''version'') (LayerAt i) ''version'' MaxVersions)) (\<lambda>version.
     rbind (optionalString (lo ''branch_tip'') (LayerAt i) ''branch_tip'') (\<lambda>tip.
     rbind (published_of i (lo ''published'')) (\<lambda>published.
       Inr \<lparr>ly_ChangeID = cid, ly_Record = rec, ly_Version = version, ly_Head = head, ly_Branch = branch,
            ly_BranchTip = tip, ly_Published = published\<rparr>))))))))"

definition ParseRestackReport :: "string \<Rightarrow> (report_error, RestackReport) result" where
  "ParseRestackReport data =
     rbind (rmap_err (ReportField \<circ> Unread) (readJSON data)) (\<lambda>v.
     rbind (rmap_err ReportField (fieldsOf v Whole
       [''schema'', ''change_id'', ''target'', ''target_tip'', ''operation'', ''result'', ''layers'',
        ''failing_layer'', ''conflict_paths'', ''blocking_requests'', ''refusal''])) (\<lambda>ob.
     rbind (rmap_err ReportField (stringOf (ob ''schema'') Whole ''schema'')) (\<lambda>schema.
     rbind (rmap_err ReportField (stringOf (ob ''change_id'') Whole ''change_id'')) (\<lambda>change_id.
     rbind (rmap_err ReportField (stringOf (ob ''target'') Whole ''target'')) (\<lambda>target.
     rbind (rmap_err ReportField (stringOf (ob ''target_tip'') Whole ''target_tip'')) (\<lambda>target_tip.
     rbind (rmap_err ReportField (stringOf (ob ''operation'') Whole ''operation'')) (\<lambda>operation.
     rbind (rmap_err ReportField (stringOf (ob ''result'') Whole ''result'')) (\<lambda>res.
     rbind (optionalString (ob ''failing_layer'') Whole ''failing_layer'') (\<lambda>failing.
     rbind (optionalString (ob ''refusal'') Whole ''refusal'') (\<lambda>refusal.
     rbind (stringsOf (ob ''conflict_paths'') ''conflict_paths'' MaxConflictPaths) (\<lambda>conflicts.
     rbind (requestsOf (ob ''blocking_requests'')) (\<lambda>requests.
     rbind (list_of (ob ''layers'') ''layers'' MaxRestackLayers) (\<lambda>items.
     rbind (map_result (\<lambda>(i, item). layerOf i item) (enumerate 0 items)) (\<lambda>layers.
       let r = \<lparr>rr_Schema = schema, rr_ChangeID = change_id, rr_Target = target, rr_TargetTip = target_tip,
                rr_Operation = operation, rr_Result = res, rr_Layers = layers, rr_Failing = failing,
                rr_Conflicts = conflicts, rr_Requests = requests, rr_Refusal = refusal\<rparr>
       in rbind (rmap_err ReportRule (check_report r)) (\<lambda>_. Inr r)))))))))))))))"

section \<open>Writing\<close>

definition opt_value :: "('a \<Rightarrow> jvalue) \<Rightarrow> 'a option \<Rightarrow> jvalue" where
  "opt_value f v = (case v of None \<Rightarrow> json_null | Some x \<Rightarrow> f x)"

definition published_value :: "RestackPublished \<Rightarrow> jvalue" where
  "published_value p =
     JObject [(''head'', JString (pb_Head p)), (''version'', opt_value json_int (pb_Version p)),
       (''record'', opt_value JString (pb_Record p))]"

definition layer_value :: "RestackLayer \<Rightarrow> jvalue" where
  "layer_value l =
     JObject [(''change_id'', JString (ly_ChangeID l)), (''record'', JString (ly_Record l)),
       (''version'', json_int (ly_Version l)), (''head'', JString (ly_Head l)), (''branch'', JString (ly_Branch l)),
       (''branch_tip'', opt_value JString (ly_BranchTip l)),
       (''published'', opt_value published_value (ly_Published l))]"

definition request_value :: "RestackRequest \<Rightarrow> jvalue" where
  "request_value q = JObject [(''ref'', JString (rq_Ref q)), (''tip'', JString (rq_Tip q))]"

definition report_value :: "RestackReport \<Rightarrow> jvalue" where
  "report_value r =
     JObject [(''schema'', JString (rr_Schema r)), (''change_id'', JString (rr_ChangeID r)),
       (''target'', JString (rr_Target r)), (''target_tip'', JString (rr_TargetTip r)),
       (''operation'', JString (rr_Operation r)), (''result'', JString (rr_Result r)),
       (''layers'', JArray (map layer_value (rr_Layers r))),
       (''failing_layer'', opt_value JString (rr_Failing r)),
       (''conflict_paths'', JArray (map JString (rr_Conflicts r))),
       (''blocking_requests'', JArray (map request_value (rr_Requests r))),
       (''refusal'', opt_value JString (rr_Refusal r))]"

text \<open>A nil list of conflicts or requests is written as an empty one: both are the empty list here.\<close>

definition EncodeRestackReport :: "RestackReport \<Rightarrow> (report_rule, string) result" where
  "EncodeRestackReport r = rbind (check_report r) (\<lambda>_. Inr (write_value 0 (report_value r) @ [CHR 0x0A]))"

end
