(* ===== verification/ReportRound.thy ===== *)
theory ReportRound
  imports ChangeReport RecordRound
begin

text \<open>
  What a restack report that reads is, stated over its fields, and that a report is read back
  as it was written.
\<close>

section \<open>The rules\<close>

definition published_ok :: "RestackPublished \<Rightarrow> bool" where
  "published_ok p \<longleftrightarrow> ValidHead (pb_Head p) \<and>
     (pb_Version p = None \<and> pb_Record p = None \<or>
      (\<exists>n rec. pb_Version p = Some n \<and> pb_Record p = Some rec \<and> 1 \<le> n \<and> n \<le> MaxVersions \<and> ValidHead rec))"

definition layer_ok :: "RestackLayer \<Rightarrow> bool" where
  "layer_ok l \<longleftrightarrow> ValidID (ly_ChangeID l) \<and> ValidHead (ly_Record l) \<and> 1 \<le> ly_Version l \<and> ly_Version l \<le> MaxVersions \<and>
     ValidHead (ly_Head l) \<and>
     (ly_Branch l = [] \<and> ly_BranchTip l = None \<and> ly_Published l = None \<or>
      ly_Branch l \<noteq> [] \<and> ValidBranch (ly_Branch l) \<and> utf8_valid (ly_Branch l) \<and>
        opt_all ValidHead (ly_BranchTip l) \<and> opt_all published_ok (ly_Published l))"

definition request_ok :: "string \<Rightarrow> RestackRequest \<Rightarrow> bool" where
  "request_ok target q \<longleftrightarrow> request_on target (rq_Ref q) \<and> length (rq_Ref q) \<le> MaxRequestRef \<and> ValidHead (rq_Tip q)"

definition published_version :: "RestackLayer \<Rightarrow> bool" where
  "published_version l \<longleftrightarrow> (case ly_Published l of None \<Rightarrow> False | Some p \<Rightarrow> pb_Version p \<noteq> None)"

text \<open>What the result says of the layers.\<close>

definition result_ok :: "RestackReport \<Rightarrow> bool" where
  "result_ok r \<longleftrightarrow>
     (rr_Result r = RestackConflict \<longrightarrow> rr_Failing r \<noteq> None) \<and>
     (rr_Result r \<in> {RestackConflict, RestackBlocked} \<longrightarrow> list_all (\<lambda>l. ly_Published l = None) (rr_Layers r)) \<and>
     (rr_Result r = RestackComplete \<longrightarrow> list_all published_version (rr_Layers r))"

definition report_ok :: "RestackReport \<Rightarrow> bool" where
  "report_ok r \<longleftrightarrow> check_report_head r = Inr () \<and>
     list_all layer_ok (rr_Layers r) \<and> distinct (map ly_ChangeID (rr_Layers r)) \<and>
     list_all (\<lambda>p. validText p MaxConflictPath) (rr_Conflicts r) \<and>
     list_all (request_ok (rr_Target r)) (rr_Requests r) \<and> distinct (map rq_Ref (rr_Requests r)) \<and>
     rr_ChangeID r \<in> set (map ly_ChangeID (rr_Layers r)) \<and>
     opt_all (\<lambda>f. f \<in> set (map ly_ChangeID (rr_Layers r))) (rr_Failing r) \<and> result_ok r"

lemma opt_all_simps [simp]: "opt_all P None" "opt_all P (Some x) \<longleftrightarrow> P x"
  by (simp_all add: opt_all_def)

lemma check_published_iff: "check_published p = Inr () \<longleftrightarrow> published_ok p"
  by (cases "pb_Version p"; cases "pb_Record p") (auto simp: check_published_def published_ok_def)

lemma check_layer_iff:
  "check_layer seen l = Inr () \<and> opt_all published_ok (ly_Published l) \<longleftrightarrow> layer_ok l \<and> ly_ChangeID l \<notin> set seen"
  by (cases "ly_Branch l = []"; cases "ly_Published l") (auto simp: check_layer_def layer_ok_def)

lemma check_layers_iff:
  "check_layers i seen pub ver ls = Inr (seen', pub', ver') \<longleftrightarrow>
     list_all layer_ok ls \<and> distinct (map ly_ChangeID ls) \<and> set (map ly_ChangeID ls) \<inter> set seen = {} \<and>
     seen' = rev (map ly_ChangeID ls) @ seen \<and>
     pub' = (pub \<or> \<not> list_all (\<lambda>l. ly_Published l = None) ls) \<and> ver' = (ver \<and> list_all published_version ls)"
proof (induction ls arbitrary: i seen pub ver)
  case (Cons l ls)
  show ?case
  proof (cases "ly_Published l")
    case None
    then have "check_layers i seen pub ver (l # ls) = Inr (seen', pub', ver') \<longleftrightarrow>
        check_layer seen l = Inr () \<and> check_layers (i + 1) (ly_ChangeID l # seen) pub False ls = Inr (seen', pub', ver')"
      by (simp add: result_simps)
    then show ?thesis
      using check_layer_iff [of seen l] None by (auto simp: Cons.IH published_version_def)
  next
    case (Some p)
    then have "check_layers i seen pub ver (l # ls) = Inr (seen', pub', ver') \<longleftrightarrow>
        (check_layer seen l = Inr () \<and> opt_all published_ok (ly_Published l)) \<and>
        check_layers (i + 1) (ly_ChangeID l # seen) True (ver \<and> pb_Version p \<noteq> None) ls = Inr (seen', pub', ver')"
      by (simp add: result_simps check_published_iff)
    then show ?thesis
      using check_layer_iff [of seen l] Some by (auto simp: Cons.IH published_version_def)
  qed
qed auto

lemma check_requests_iff:
  "check_requests target i seen qs = Inr () \<longleftrightarrow>
     list_all (request_ok target) qs \<and> distinct (map rq_Ref qs) \<and> set (map rq_Ref qs) \<inter> set seen = {}"
  by (induction qs arbitrary: i seen) (auto simp: request_ok_def)

lemma conflicts_iff:
  "check_all (\<lambda>(i, path). if \<not> validText path mx then Inl (BadConflictPath i) else Inr ()) (enumerate n ps) = Inr () \<longleftrightarrow>
     list_all (\<lambda>p. validText p mx) ps"
  by (induction ps arbitrary: n) (auto simp: result_simps)

lemma check_report_iff: "check_report r = Inr () \<longleftrightarrow> report_ok r"
proof -
  have no: "RestackConflict \<noteq> RestackComplete" "RestackConflict \<noteq> RestackBlocked" "RestackBlocked \<noteq> RestackComplete"
    by (simp_all add: RestackConflict_def RestackComplete_def RestackBlocked_def)
  have step: "check_report r = Inr () \<longleftrightarrow> check_report_head r = Inr () \<and>
      (\<exists>seen pub ver. check_layers 0 [] False True (rr_Layers r) = Inr (seen, pub, ver) \<and>
        list_all (\<lambda>p. validText p MaxConflictPath) (rr_Conflicts r) \<and>
        check_requests (rr_Target r) 0 [] (rr_Requests r) = Inr () \<and>
        rr_ChangeID r \<in> set seen \<and> opt_all (\<lambda>f. f \<in> set seen) (rr_Failing r) \<and>
        (rr_Result r = RestackConflict \<longrightarrow> rr_Failing r \<noteq> None) \<and>
        (rr_Result r \<in> {RestackConflict, RestackBlocked} \<longrightarrow> \<not> pub) \<and> (rr_Result r = RestackComplete \<longrightarrow> ver))"
    unfolding check_report_def
    by (cases "check_layers 0 [] False True (rr_Layers r)") (auto simp: rbind_eq_Inr conflicts_iff split: if_splits)
  show ?thesis
    unfolding step check_layers_iff check_requests_iff report_ok_def result_ok_def by auto
qed

section \<open>A report is read back\<close>

lemma operation_utf8: "matches re_operationName s \<Longrightarrow> utf8_valid s"
proof -
  assume "matches re_operationName s"
  then obtain c t where s: "s = c # t" "in_class [(CHR ''a'', CHR ''z''), (CHR ''A'', CHR ''Z''), (CHR ''0'', CHR ''9'')] c"
    "\<forall>c \<in> set t. in_class [(CHR ''a'', CHR ''z''), (CHR ''A'', CHR ''Z''), (CHR ''0'', CHR ''9''),
       (CHR ''.'', CHR ''.''), (CHR ''_'', CHR ''_''), (CHR '':'', CHR '':''), (CHR ''-'', CHR ''-'')] c"
    by (auto simp: re_operationName_def matches_iff simp del: in_class_simps)
  have "byte_val c < 128" if "lo \<le> c" "c \<le> hi" "byte_val hi < 128" for lo hi c
    using that(2,3) by (auto simp: less_eq_char_def byte_val_def)
  then show ?thesis
    unfolding s(1) using s(2,3) by (intro utf8_valid_all_ascii) (fastforce simp: byte_val_def)
qed

lemma head_ok:
  assumes "check_report_head r = Inr ()"
  shows "utf8_valid (rr_Schema r)" "ValidID (rr_ChangeID r)" "utf8_valid (rr_Target r)" "ValidHead (rr_TargetTip r)"
    "utf8_valid (rr_Operation r)" "utf8_valid (rr_Result r)" "length (rr_Layers r) \<le> MaxRestackLayers"
    "length (rr_Conflicts r) \<le> MaxConflictPaths" "length (rr_Requests r) \<le> MaxBlockingRequest"
    "opt_all utf8_valid (rr_Refusal r)"
proof -
  have res: "utf8_valid s" if "validResult s" for s
    using that by (intro ascii_utf8) (auto simp: validResult_def RestackConflict_def RestackBlocked_def RestackPartial_def
      RestackComplete_def RestackSuperseded_def byte_val_def)
  have schema: "utf8_valid RestackSchema" by (intro ascii_utf8) (simp add: RestackSchema_def byte_val_def)
  show "utf8_valid (rr_Schema r)" "ValidID (rr_ChangeID r)" "utf8_valid (rr_Target r)" "ValidHead (rr_TargetTip r)"
    "utf8_valid (rr_Operation r)" "utf8_valid (rr_Result r)" "length (rr_Layers r) \<le> MaxRestackLayers"
    "length (rr_Conflicts r) \<le> MaxConflictPaths" "length (rr_Requests r) \<le> MaxBlockingRequest"
    using assms schema by (auto simp: check_report_head_def operation_utf8 res split: if_splits)
  show "opt_all utf8_valid (rr_Refusal r)"
    using assms by (cases "rr_Refusal r") (auto simp: check_report_head_def validText_def split: if_splits)
qed

lemma optional_back: "optionalString (Some (opt_value JString v)) at name = Inr v"
  by (cases v) (simp_all add: opt_value_def)

lemma published_back:
  assumes "opt_all published_ok p"
  shows "published_of i (Some (opt_value published_value p)) = Inr p"
proof (cases p)
  case (Some q)
  have q: "published_ok q" using assms Some by simp
  have "version_of (Some (opt_value json_int (pb_Version q))) (PublishedAt i) = Inr (pb_Version q)"
  proof (cases "pb_Version q")
    case v: (Some n)
    then have "1 \<le> n" "n \<le> MaxVersions" using q by (auto simp: published_ok_def)
    then have "integerOf (Some (json_int n)) (PublishedAt i) ''version'' MaxVersions = Inr n" "json_int n \<noteq> json_null"
      by (rule integer_back, auto simp: MaxVersions_def MaxSeq_def json_int_def)
    then show ?thesis using v by (simp add: opt_value_def)
  qed (simp add: opt_value_def)
  moreover have "\<lparr>pb_Head = pb_Head q, pb_Version = pb_Version q, pb_Record = pb_Record q\<rparr> = q" by (cases q) simp
  ultimately show ?thesis
    using Some by (simp add: opt_value_def published_value_def fields_back optional_back [unfolded opt_value_def]
      del: fieldsOf.simps version_of.simps optionalString.simps)
qed (simp add: opt_value_def)

lemma layer_back: "layer_ok l \<Longrightarrow> layerOf i (layer_value l) = Inr l"
proof -
  assume l: "layer_ok l"
  have n: "integerOf (Some (json_int (ly_Version l))) (LayerAt i) ''version'' MaxVersions = Inr (ly_Version l)"
    using l by (intro integer_back) (auto simp: layer_ok_def MaxVersions_def MaxSeq_def)
  have p: "published_of i (Some (opt_value published_value (ly_Published l))) = Inr (ly_Published l)"
    using l by (intro published_back) (auto simp: layer_ok_def)
  have e: "\<lparr>ly_ChangeID = ly_ChangeID l, ly_Record = ly_Record l, ly_Version = ly_Version l, ly_Head = ly_Head l,
      ly_Branch = ly_Branch l, ly_BranchTip = ly_BranchTip l, ly_Published = ly_Published l\<rparr> = l"
    by (cases l) simp
  show ?thesis
    by (simp add: layerOf_def layer_value_def fields_back n p optional_back e
      del: fieldsOf.simps published_of.simps optionalString.simps)
qed

lemma request_back: "request_of i (request_value q) = Inr q"
  by (simp add: request_of_def request_value_def fields_back del: fieldsOf.simps)

lemma strings_back: "length ps \<le> mx \<Longrightarrow> stringsOf (Some (JArray (map JString ps))) name mx = Inr ps"
proof -
  have "map_result (\<lambda>item. rmap_err ReportField (stringOf (Some item) Whole name)) (map JString ps) = Inr ps"
    by (induction ps) simp_all
  then show "length ps \<le> mx \<Longrightarrow> ?thesis" by (simp add: stringsOf_def not_less)
qed

lemma opt_writable: "(\<And>x. v = Some x \<Longrightarrow> writable d (f x)) \<Longrightarrow> d \<le> maxDepth \<Longrightarrow> writable d (opt_value f v)"
  by (cases v) (simp_all add: opt_value_def literals_def)

lemma ascii_names:
  "utf8_valid ''schema''" "utf8_valid ''change_id''" "utf8_valid ''target''" "utf8_valid ''target_tip''"
  "utf8_valid ''operation''" "utf8_valid ''result''" "utf8_valid ''layers''" "utf8_valid ''failing_layer''"
  "utf8_valid ''conflict_paths''" "utf8_valid ''blocking_requests''" "utf8_valid ''refusal''" "utf8_valid ''record''"
  "utf8_valid ''version''" "utf8_valid ''head''" "utf8_valid ''branch''" "utf8_valid ''branch_tip''"
  "utf8_valid ''published''" "utf8_valid ''ref''" "utf8_valid ''tip''"
  by (intro ascii_utf8, simp add: byte_val_def)+

lemma published_writable: "published_ok p \<Longrightarrow> writable 4 (published_value p)"
  by (auto simp: published_ok_def published_value_def maxDepth_def ascii_names head_utf8 opt_value_def literals_def
    json_int_pos itoa_canonical)

lemma layer_writable: "layer_ok l \<Longrightarrow> writable 3 (layer_value l)"
proof -
  assume l: "layer_ok l"
  have "writable 4 (opt_value published_value (ly_Published l))"
    using l published_writable by (intro opt_writable) (auto simp: layer_ok_def maxDepth_def)
  moreover have "writable 4 (opt_value JString (ly_BranchTip l))"
    using l by (intro opt_writable) (auto simp: layer_ok_def maxDepth_def head_utf8)
  moreover have "utf8_valid (ly_Branch l)" using l by (auto simp: layer_ok_def)
  ultimately show ?thesis
    using l by (auto simp: layer_ok_def layer_value_def maxDepth_def ascii_names head_utf8 id_utf8 json_int_pos itoa_canonical)
qed

lemma request_writable: "writable 3 (request_value q)"
  by (simp add: request_ok_def request_value_def maxDepth_def ascii_names head_utf8)

text \<open>
  The ref of a blocking request need not be valid UTF-8 by the rules: a branch name may hold any
  byte past 0x7F. Such a report is written with U+FFFD in the name. So the round trip is for a
  report whose refs are text.
\<close>

definition requests_text :: "RestackReport \<Rightarrow> bool" where
  "requests_text r \<longleftrightarrow> list_all (\<lambda>q. utf8_valid (rq_Ref q)) (rr_Requests r)"

lemma failing_utf8: "report_ok r \<Longrightarrow> opt_all utf8_valid (rr_Failing r)"
  by (cases "rr_Failing r") (auto simp: report_ok_def layer_ok_def list_all_iff id_utf8)

lemma report_writable:
  assumes ok: "report_ok r"
  shows "writable 1 (report_value r)"
proof -
  have h: "check_report_head r = Inr ()" using ok by (simp add: report_ok_def)
  have d: "(3::nat) = Suc (Suc (Suc 0))" "(2::nat) = Suc (Suc 0)" by simp_all
  have "list_all (writable 3) (map layer_value (rr_Layers r))"
    using ok layer_writable by (auto simp: report_ok_def list_all_iff)
  moreover have "list_all (writable 3) (map request_value (rr_Requests r))"
    using request_writable by (auto simp: list_all_iff)
  moreover have "list_all (writable 3) (map JString (rr_Conflicts r))"
    using ok by (auto simp: report_ok_def list_all_iff validText_def maxDepth_def split: if_splits)
  moreover have "writable 2 (opt_value JString (rr_Failing r))" "writable 2 (opt_value JString (rr_Refusal r))"
    by (auto intro!: opt_writable simp: maxDepth_def)
  ultimately show ?thesis
    using head_ok(1-6) [OF h]
    by (simp add: report_value_def maxDepth_def ascii_names id_utf8 head_utf8 flip: d)
qed

lemma opt_clean: "(\<And>x. v = Some x \<Longrightarrow> clean (f x) = f x) \<Longrightarrow> clean (opt_value f v) = opt_value f v"
  by (cases v) (simp_all add: opt_value_def)

lemma published_clean: "published_ok p \<Longrightarrow> clean (published_value p) = published_value p"
  by (auto simp: published_ok_def published_value_def head_utf8 opt_value_def)

lemma layer_clean: "layer_ok l \<Longrightarrow> clean (layer_value l) = layer_value l"
proof -
  assume l: "layer_ok l"
  have "clean (opt_value published_value (ly_Published l)) = opt_value published_value (ly_Published l)"
    using l published_clean by (intro opt_clean) (auto simp: layer_ok_def)
  moreover have "clean (opt_value JString (ly_BranchTip l)) = opt_value JString (ly_BranchTip l)"
    using l by (intro opt_clean) (auto simp: layer_ok_def head_utf8)
  ultimately show ?thesis
    using l by (auto simp: layer_ok_def layer_value_def head_utf8 id_utf8)
qed

definition clean_request :: "RestackRequest \<Rightarrow> RestackRequest" where
  "clean_request q = q\<lparr>rq_Ref := clean_text (rq_Ref q)\<rparr>"

lemma request_clean: "ValidHead (rq_Tip q) \<Longrightarrow> clean (request_value q) = request_value (clean_request q)"
  by (simp add: request_value_def clean_request_def head_utf8)

lemma report_cleaned:
  assumes ok: "report_ok r"
  shows "clean (report_value r) = report_value (r\<lparr>rr_Requests := map clean_request (rr_Requests r)\<rparr>)"
proof -
  have h: "check_report_head r = Inr ()" using ok by (simp add: report_ok_def)
  have "map (clean \<circ> layer_value) (rr_Layers r) = map layer_value (rr_Layers r)"
    using ok layer_clean by (simp add: report_ok_def list_all_iff)
  moreover have "map (clean \<circ> request_value) (rr_Requests r) = map (request_value \<circ> clean_request) (rr_Requests r)"
    using ok request_clean by (simp add: report_ok_def request_ok_def list_all_iff)
  moreover have "map (clean \<circ> JString) (rr_Conflicts r) = map JString (rr_Conflicts r)"
    using ok by (auto simp: report_ok_def list_all_iff validText_def split: if_splits)
  moreover have "clean (opt_value JString (rr_Failing r)) = opt_value JString (rr_Failing r)"
    "clean (opt_value JString (rr_Refusal r)) = opt_value JString (rr_Refusal r)"
    using failing_utf8 [OF ok] head_ok(10) [OF h] by (auto intro!: opt_clean)
  ultimately show ?thesis
    using head_ok(1-6) [OF h] by (simp add: report_value_def id_utf8 head_utf8)
qed

lemma clean_text_utf8: "utf8_valid (clean_text s)"
proof -
  have "is_rune replacement"
    using ascii_is_rune by (simp add: is_rune_def replacement_def utf8_len_def byte_in_def byte_val_def second_lo_def second_hi_def)
  then have "utf8_valid (concat (map (\<lambda>w. if is_rune w then w else replacement) ws))" for ws
    by (induction ws) (simp_all add: utf8_valid_rune)
  then show ?thesis by (simp add: clean_text_def)
qed

text \<open>What is read back of a written report: the report with its requests' refs as they were written.\<close>

lemma report_read:
  assumes ok: "report_ok r"
  defines "r' \<equiv> r\<lparr>rr_Requests := map clean_request (rr_Requests r)\<rparr>"
  shows "ParseRestackReport (write_value 0 (report_value r) @ [CHR 0x0A]) =
    rbind (rmap_err ReportRule (check_report r')) (\<lambda>_. Inr r')"
proof -
  have w: "writable 1 (report_value r)" by (rule report_writable [OF ok])
  have "utf8_valid (write_value 0 (report_value r))" using write_utf8 [OF w, of 0 "[]"] by simp
  then have j: "readJSON (write_value 0 (report_value r) @ [CHR 0x0A]) = Inr (report_value r')"
    using readJSON_write [OF w] report_cleaned [OF ok] by (simp add: r'_def)
  have h: "check_report_head r = Inr ()" using ok by (simp add: report_ok_def)
  have len: "length (rr_Layers r') \<le> MaxRestackLayers" "length (rr_Conflicts r') \<le> MaxConflictPaths"
    "length (rr_Requests r') \<le> MaxBlockingRequest"
    using head_ok(7-9) [OF h] by (simp_all add: r'_def)
  have layers: "map_result (\<lambda>(i, item). layerOf i item) (enumerate 0 (map layer_value (rr_Layers r'))) = Inr (rr_Layers r')"
    using ok by (intro map_result_enumerate layer_back) (auto simp: r'_def report_ok_def list_all_length)
  have "map_result (\<lambda>(i, item). request_of i item) (enumerate 0 (map request_value (rr_Requests r'))) = Inr (rr_Requests r')"
    by (intro map_result_enumerate request_back)
  then have requests: "requestsOf (Some (JArray (map request_value (rr_Requests r')))) = Inr (rr_Requests r')"
    using len(3) by (simp add: requestsOf_def not_less)
  have e: "\<lparr>rr_Schema = rr_Schema q, rr_ChangeID = rr_ChangeID q, rr_Target = rr_Target q, rr_TargetTip = rr_TargetTip q,
      rr_Operation = rr_Operation q, rr_Result = rr_Result q, rr_Layers = rr_Layers q, rr_Failing = rr_Failing q,
      rr_Conflicts = rr_Conflicts q, rr_Requests = rr_Requests q, rr_Refusal = rr_Refusal q\<rparr> = q" for q :: RestackReport
    by (cases q) simp
  show ?thesis
    unfolding ParseRestackReport_def j rmap_err.simps rbind.simps
    using len
    by (simp add: report_value_def fields_back optional_back strings_back requests layers e Let_def not_less
      del: fieldsOf.simps optionalString.simps)
qed

lemma parsed_report_ok: "ParseRestackReport s = Inr r \<Longrightarrow> report_ok r"
  by (auto simp: ParseRestackReport_def result_simps check_report_iff Let_def)

lemma read_back_iff:
  "(\<exists>s. EncodeRestackReport r = Inr s \<and> ParseRestackReport s = Inr r) \<longleftrightarrow> check_report r = Inr () \<and> requests_text r"
proof (cases "report_ok r")
  case True
  then have c: "check_report r = Inr ()" by (simp add: check_report_iff)
  let ?r = "r\<lparr>rr_Requests := map clean_request (rr_Requests r)\<rparr>"
  have "requests_text r \<longleftrightarrow> ?r = r"
  proof
    assume "?r = r"
    then have "map clean_request (rr_Requests r) = rr_Requests r" by (metis RestackReport.select_convs(10) RestackReport.surjective RestackReport.update_convs(10))
    then have "rq_Ref q = clean_text (rq_Ref q)" if "q \<in> set (rr_Requests r)" for q
      using that by (metis RestackRequest.select_convs(1) RestackRequest.surjective RestackRequest.update_convs(1) clean_request_def map_eq_conv map_ident)
    then show "requests_text r" using clean_text_utf8 by (auto simp: requests_text_def list_all_iff) metis
  next
    assume "requests_text r"
    then have "map clean_request (rr_Requests r) = rr_Requests r"
      by (simp add: requests_text_def clean_request_def list_all_iff map_idI)
    then show "?r = r" by simp
  qed
  then show ?thesis
    using c report_read [OF True] by (auto simp: EncodeRestackReport_def result_simps)
next
  case False
  then show ?thesis using parsed_report_ok check_report_iff by blast
qed

text \<open>
  C22: a report is written as bytes the strict reader reads back as the same report exactly when
  it keeps every rule and the refs of its blocking requests are valid UTF-8; a report the reader
  accepts keeps every rule.
\<close>

theorem EncodeRestackReport_read:
  "(\<exists>s. EncodeRestackReport r = Inr s \<and> ParseRestackReport s = Inr r) \<longleftrightarrow> check_report r = Inr () \<and> requests_text r"
  by (rule read_back_iff)

section \<open>A report that is not read back\<close>

definition odd_report :: RestackReport where
  "odd_report =
     (let h = HeadPrefix @ replicate 40 (CHR ''a''); cid = replicate 32 (CHR ''k'')
      in \<lparr>rr_Schema = RestackSchema, rr_ChangeID = cid, rr_Target = ''main'', rr_TargetTip = h, rr_Operation = ''1'',
         rr_Result = RestackBlocked,
         rr_Layers = [\<lparr>ly_ChangeID = cid, ly_Record = h, ly_Version = 1, ly_Head = h, ly_Branch = [],
            ly_BranchTip = None, ly_Published = None\<rparr>],
         rr_Failing = None, rr_Conflicts = [],
         rr_Requests = [\<lparr>rq_Ref = request_prefix ''main'' @ [CHR 0xFF], rq_Tip = h\<rparr>], rr_Refusal = None\<rparr>)"

lemma odd_checked: "check_report odd_report = Inr ()"
  by code_simp

lemma odd_not_text: "\<not> requests_text odd_report"
  by code_simp

text \<open>
  The rules let through a report that is written and does not read back as itself: the ref of
  its blocking request holds a byte that is part of no rune.
\<close>

theorem report_not_read_back:
  "check_report odd_report = Inr () \<and>
   \<not> (\<exists>s. EncodeRestackReport odd_report = Inr s \<and> ParseRestackReport s = Inr odd_report)"
  using odd_checked odd_not_text unfolding read_back_iff by simp

end
