(* ===== verification/RefPatterns.thy ===== *)
theory RefPatterns
  imports GoBytes
begin

text \<open>
  The declared ref patterns of \<^verbatim>\<open>valleyhook/policy.go\<close>: the matcher as the code has it, a loop
  that returns to the last star, and what it decides.
\<close>

section \<open>Declared patterns\<close>

text \<open>What is left to the loop after the last star, which its termination rests on.\<close>

definition star_left :: "(string \<times> string) option \<Rightarrow> nat" where
  "star_left ls = (case ls of None \<Rightarrow> 0 | Some (q, _) \<Rightarrow> length q)"

definition resume_left :: "(string \<times> string) option \<Rightarrow> nat" where
  "resume_left ls = (case ls of None \<Rightarrow> 0 | Some (_, t) \<Rightarrow> length t)"

text \<open>
  \<^verbatim>\<open>match\<close>: the two positions are the rests of the pattern and of the ref; the third argument
  is what the code keeps of the last star, the rest of the pattern after it and the rest of the
  ref it resumes from.
\<close>

function match_loop :: "string \<Rightarrow> string \<Rightarrow> (string \<times> string) option \<Rightarrow> bool" where
  "match_loop p [] last_star = list_all (\<lambda>c. c = CHR ''*'') p"
| "match_loop p (c # r) last_star =
     (if p \<noteq> [] \<and> hd p = CHR ''*'' then match_loop (tl p) (c # r) (Some (tl p, c # r))
      else if p \<noteq> [] \<and> hd p = c then match_loop (tl p) r last_star
      else
        (case last_star of
           Some (q, resume) \<Rightarrow> match_loop q (tl resume) (Some (q, tl resume))
         | None \<Rightarrow> False))"
  by pat_completeness auto

termination
proof (relation "inv_image (less_than <*lex*> less_than <*lex*> less_than)
    (\<lambda>(p, r, ls). (max (length p) (star_left ls), max (length r) (resume_left ls), length r))")
  fix p :: string and c r ls
  assume "p \<noteq> [] \<and> hd p = CHR ''*''"
  then show "((tl p, c # r, Some (tl p, c # r)), p, c # r, ls)
      \<in> inv_image (less_than <*lex*> less_than <*lex*> less_than)
        (\<lambda>(p, r, ls). (max (length p) (star_left ls), max (length r) (resume_left ls), length r))"
    by (cases p) (auto simp: star_left_def)
next
  fix p :: string and c r ls
  assume "p \<noteq> [] \<and> hd p = c"
  then show "((tl p, r, ls), p, c # r, ls)
      \<in> inv_image (less_than <*lex*> less_than <*lex*> less_than)
        (\<lambda>(p, r, ls). (max (length p) (star_left ls), max (length r) (resume_left ls), length r))"
    by (cases p) (auto simp: max_def)
next
  fix p :: string and c r ls q t and x :: "string \<times> string"
  assume "ls = Some x" "(q, t) = x"
  then show "((q, tl t, Some (q, tl t)), p, c # r, ls)
      \<in> inv_image (less_than <*lex*> less_than <*lex*> less_than)
        (\<lambda>(p, r, ls). (max (length p) (star_left ls), max (length r) (resume_left ls), length r))"
    by (cases t) (auto simp: star_left_def resume_left_def max_def)
qed (rule wf_inv_image, intro wf_lex_prod wf_less_than)

declare match_loop.simps(2) [simp del]

lemma match_loop_step:
  "match_loop (CHR ''*'' # p) (c # r) ls = match_loop p (c # r) (Some (p, c # r))"
  "c \<noteq> CHR ''*'' \<Longrightarrow> match_loop (c # p) (c # r) ls = match_loop p r ls"
  "p = [] \<or> hd p \<noteq> CHR ''*'' \<and> hd p \<noteq> c \<Longrightarrow> match_loop p (c # r) (Some (q, t)) = match_loop q (tl t) (Some (q, tl t))"
  "p = [] \<or> hd p \<noteq> CHR ''*'' \<and> hd p \<noteq> c \<Longrightarrow> \<not> match_loop p (c # r) None"
  by (subst match_loop.simps; auto)+

definition match_ref :: "string \<Rightarrow> string \<Rightarrow> bool" where
  "match_ref pattern ref = match_loop pattern ref None"

text \<open>What a pattern means: a star any run of bytes, every other byte itself.\<close>

fun star_means :: "string \<Rightarrow> string \<Rightarrow> bool" where
  "star_means [] s \<longleftrightarrow> s = []"
| "star_means (p # ps) s \<longleftrightarrow>
     (if p = CHR ''*'' then list_ex (\<lambda>i. star_means ps (drop i s)) [0..<length s + 1]
      else s \<noteq> [] \<and> hd s = p \<and> star_means ps (tl s))"

lemma star_means_star: "star_means (CHR ''*'' # ps) s \<longleftrightarrow> (\<exists>u t. s = u @ t \<and> star_means ps t)"
proof
  assume "star_means (CHR ''*'' # ps) s"
  then have "\<exists>i. star_means ps (drop i s)" unfolding star_means.simps list_ex_iff by (metis (full_types))
  then show "\<exists>u t. s = u @ t \<and> star_means ps t" by (metis append_take_drop_id)
next
  assume "\<exists>u t. s = u @ t \<and> star_means ps t"
  then obtain u t where "s = u @ t" "star_means ps t" by blast
  then show "star_means (CHR ''*'' # ps) s" by (force simp: list_ex_iff intro: bexI [of _ "length u"])
qed

lemma star_means_plain: "CHR ''*'' \<notin> set u \<Longrightarrow> star_means (u @ ps) s \<longleftrightarrow> (\<exists>t. s = u @ t \<and> star_means ps t)"
proof (induction u arbitrary: s)
  case (Cons c u)
  then show ?case by (cases s) auto
qed simp

lemma star_means_Nil: "star_means p [] \<longleftrightarrow> list_all (\<lambda>c. c = CHR ''*'') p"
  by (induction p) auto

text \<open>
  What the loop has left to find: a match from where it stands, or, with a star behind it, a
  match of what follows that star at a later place. Before each step the pattern passed since
  the star is what the ref held there.
\<close>

definition behind_star :: "string \<Rightarrow> string \<Rightarrow> (string \<times> string) option \<Rightarrow> bool" where
  "behind_star p r ls \<longleftrightarrow>
     (case ls of None \<Rightarrow> True | Some (q, t) \<Rightarrow> \<exists>u. CHR ''*'' \<notin> set u \<and> q = u @ p \<and> t = u @ r)"

definition later_match :: "(string \<times> string) option \<Rightarrow> bool" where
  "later_match ls \<longleftrightarrow> (case ls of None \<Rightarrow> False | Some (q, t) \<Rightarrow> t \<noteq> [] \<and> star_means (CHR ''*'' # q) (tl t))"

lemma star_means_step: "star_means (CHR ''*'' # q) s \<longleftrightarrow> star_means q s \<or> s \<noteq> [] \<and> star_means (CHR ''*'' # q) (tl s)"
  unfolding star_means_star by (cases s) (auto simp: Cons_eq_append_conv)

lemma later_match_here:
  assumes "behind_star p r ls" "later_match ls"
  obtains a y where "r = a @ y" "a \<noteq> []" "star_means p y"
proof -
  obtain q t where ls: "ls = Some (q, t)" using assms(2) by (auto simp: later_match_def split: option.splits)
  obtain u where u: "q = u @ p" "t = u @ r" "CHR ''*'' \<notin> set u" using assms(1) ls by (auto simp: behind_star_def)
  obtain v w where "t \<noteq> []" "tl t = v @ w" "star_means q w"
    using assms(2) ls unfolding later_match_def star_means_star by auto
  note q = u this
  obtain y where y: "w = u @ y" "star_means p y" using q star_means_plain [of u p w] by auto
  have t: "t = (hd t # v @ u) @ y" using q(4,5) y(1) by (cases t) auto
  have "length (hd t # v @ u) > length u" by simp
  moreover have "drop (length u) (u @ r) = drop (length u) ((hd t # v @ u) @ y)" using t q(2) by metis
  ultimately have "r = drop (length u) (hd t # v @ u) @ y" "drop (length u) (hd t # v @ u) \<noteq> []"
    unfolding drop_append by simp_all
  then show ?thesis using that y(2) by blast
qed

lemma match_loop_iff:
  "behind_star p r ls \<Longrightarrow> match_loop p r ls \<longleftrightarrow> star_means p r \<or> later_match ls"
proof (induction p r ls rule: match_loop.induct)
  case (1 p ls)
  have "\<not> later_match ls"
  proof
    assume "later_match ls"
    then obtain a y :: string where "[] = a @ y" "a \<noteq> []" using later_match_here [OF 1] by blast
    then show False by simp
  qed
  then show ?case by (simp add: star_means_Nil)
next
  case (2 p c r ls)
  consider (star) ps where "p = CHR ''*'' # ps" | (same) ps where "p = c # ps" "c \<noteq> CHR ''*''"
    | (differs) "p = [] \<or> hd p \<noteq> CHR ''*'' \<and> hd p \<noteq> c"
    by (cases p) auto
  then show ?case
  proof cases
    case star
    have "match_loop p (c # r) ls \<longleftrightarrow> star_means ps (c # r) \<or> star_means (CHR ''*'' # ps) r"
      using 2(1) star by (simp add: match_loop_step behind_star_def later_match_def del: star_means.simps)
    then have m: "match_loop p (c # r) ls \<longleftrightarrow> star_means p (c # r)"
      unfolding star using star_means_step [of ps "c # r"] by (simp del: star_means.simps)
    have "star_means p (c # r)" if l: "later_match ls"
    proof -
      obtain a y where "c # r = a @ y" "star_means p y" using later_match_here [OF 2(4) l] by metis
      then show ?thesis unfolding star star_means_star by (metis append.assoc)
    qed
    then show ?thesis using m by blast
  next
    case same
    have "behind_star ps r ls"
    proof (cases ls)
      case (Some x)
      obtain q t where x: "x = (q, t)" by (cases x)
      obtain u where "CHR ''*'' \<notin> set u" "q = u @ p" "t = u @ c # r"
        using 2(4) Some x by (auto simp: behind_star_def)
      then have "CHR ''*'' \<notin> set (u @ [c])" "q = (u @ [c]) @ ps" "t = (u @ [c]) @ r" using same by auto
      then show ?thesis unfolding behind_star_def Some x option.case prod.case by blast
    qed (simp add: behind_star_def)
    then show ?thesis using 2(2) same by (simp add: match_loop_step)
  next
    case differs
    then have no: "\<not> star_means p (c # r)" by (cases p) auto
    show ?thesis
    proof (cases ls)
      case None
      then show ?thesis using match_loop_step(4) [OF differs] no by (simp add: later_match_def)
    next
      case (Some x)
      obtain q t where x: "x = (q, t)" by (cases x)
      have t: "t \<noteq> []" using 2(4) Some x by (auto simp: behind_star_def)
      have "match_loop p (c # r) ls \<longleftrightarrow> match_loop q (tl t) (Some (q, tl t))"
        unfolding Some x by (rule match_loop_step(3) [OF differs])
      also have "\<dots> \<longleftrightarrow> star_means q (tl t) \<or> later_match (Some (q, tl t))"
      proof (rule 2(3))
        show "\<not> (p \<noteq> [] \<and> hd p = CHR ''*'')" "\<not> (p \<noteq> [] \<and> hd p = c)" "ls = Some x" "(q, t) = x"
          using differs Some x by auto
      qed (simp add: behind_star_def)
      also have "\<dots> \<longleftrightarrow> later_match ls"
        using t Some x star_means_step [of q "tl t"] by (simp add: later_match_def del: star_means.simps)
      finally show ?thesis using no by simp
    qed
  qed
qed

lemma match_iff: "match_ref pattern ref \<longleftrightarrow> star_means pattern ref"
  by (simp add: match_ref_def match_loop_iff behind_star_def later_match_def)

text \<open>
  C34: the hook's matcher, which only ever returns to the last star, finds a match whenever there
  is one: a declared pattern matches a ref exactly when the ref is the pattern with each star
  replaced by some run of bytes, path separators included.
\<close>

theorem match_means: "match_ref pattern ref \<longleftrightarrow> star_means pattern ref"
  by (rule match_iff)

end
