(* ===== verification/HookPolicy.thy ===== *)
theory HookPolicy
  imports HookRecord ReportRound Note KnotHistory RefPatterns
begin

text \<open>
  \<^verbatim>\<open>valleyhook/policy.go\<close>, \<^verbatim>\<open>attestation.go\<close>, \<^verbatim>\<open>report.go\<close> and \<^verbatim>\<open>knots.go\<close>: the decision about one
  write of a push. The Ed25519 check is a parameter, as in the notes' own theory. A refusal is
  kept as the rule it is for; its sentence is left out.
\<close>

section \<open>The declared policy\<close>

record refGrant =
  rg_Refs :: "string list"
  rg_Writers :: "string list"

record pushPolicy =
  pp_Refs :: "string list"
  pp_Writers :: "string list"
  pp_Grants :: "(string \<times> refGrant) list"

record policy =
  po_push :: pushPolicy
  po_grants :: grants
  po_verifiers :: "VerifierKey list"
  po_repo :: repository
  po_symrefs :: "string \<Rightarrow> bool"
  po_creates :: nat
  po_existing :: nat

definition protects :: "pushPolicy \<Rightarrow> string \<Rightarrow> bool" where
  "protects pp ref \<longleftrightarrow> list_ex (\<lambda>pattern. match_ref pattern ref) (pp_Refs pp)"

text \<open>The loop of \<^verbatim>\<open>openedTo\<close>: the grants that open the ref, and the principals, each once.\<close>

fun add_new :: "string list \<Rightarrow> string list \<Rightarrow> string list" where
  "add_new who [] = who"
| "add_new who (w # ws) = add_new (if w \<in> set who then who else who @ [w]) ws"

fun opened_loop :: "string \<Rightarrow> (string \<times> refGrant) list \<Rightarrow> string list \<Rightarrow> string list \<Rightarrow> string list \<times> string list" where
  "opened_loop ref [] names who = (names, who)"
| "opened_loop ref ((name, g) # gs) names who =
     (if list_ex (\<lambda>pattern. match_ref pattern ref) (rg_Refs g)
      then opened_loop ref gs (names @ [name]) (add_new who (rg_Writers g))
      else opened_loop ref gs names who)"

definition openedTo :: "pushPolicy \<Rightarrow> string \<Rightarrow> string list \<times> string list" where
  "openedTo pp ref = opened_loop ref (sort_key fst (pp_Grants pp)) [] []"

section \<open>Namespaces\<close>

definition replacePrefix :: string where "replacePrefix = ''refs/replace/''"
definition notesPrefix :: string where "notesPrefix = ''refs/notes/''"
definition valleyPrefix :: string where "valleyPrefix = ''refs/the-valley/''"
definition attestationPrefix :: string where "attestationPrefix = ''refs/the-valley/attestations/''"
definition requestPrefix :: string where "requestPrefix = ''refs/the-valley/integration-requests/''"
definition branchPrefix :: string where "branchPrefix = ''refs/heads/''"
definition knotsRef :: string where "knotsRef = ''refs/the-valley/knots''"

definition lookupPrefixes :: "string list" where
  "lookupPrefixes = [''refs/'', ''refs/tags/'', ''refs/heads/'', ''refs/remotes/'']"

definition lookalike :: "string \<Rightarrow> string option" where
  "lookalike ref = find (\<lambda>pre. has_prefix ref (pre @ ''refs/'')) lookupPrefixes"

definition namespace :: "string \<Rightarrow> string" where
  "namespace ref =
     (let parts = split_byte (CHR ''/'') ref;
          n = (if length parts > 1 \<and> parts ! 1 = ''the-valley'' then 3 else 2)
      in if length parts \<le> n then ref else join_str ''/'' (take n parts) @ ''/'')"

section \<open>Attestations\<close>

datatype note_refusal = DoesNotOpen note_error | NoStatement statement_error | OtherTree string | NotSignedBy string

datatype attestation_refusal =
    AttestationName
  | NoVerifiers
  | NotesUnread walk_error
  | NoteRefused string note_refusal
  | HeldUnread walk_error
  | NoteDropped string
  | NoteChanged string
  | NothingAdded

text \<open>
  \<^verbatim>\<open>attestationName\<close>: the two groups of the name, the digest of 64 lower-case hex digits and the
  key hash of 8.
\<close>

definition attestationName :: "string \<Rightarrow> (string \<times> string) option" where
  "attestationName ref =
     (case cut_prefix ref attestationPrefix of
        None \<Rightarrow> None
      | Some rest \<Rightarrow>
          (case cut_byte rest (CHR ''/'') of
             None \<Rightarrow> None
           | Some (digest, keyHash) \<Rightarrow>
               if length digest = 64 \<and> list_all is_lower_hex digest \<and> length keyHash = 8 \<and> list_all is_lower_hex keyHash
               then Some (digest, keyHash) else None))"

type_synonym checker = "string \<Rightarrow> string \<Rightarrow> string \<Rightarrow> bool"

definition checkNote :: "checker \<Rightarrow> policy \<Rightarrow> string \<Rightarrow> string \<Rightarrow> string \<Rightarrow> (note_refusal, unit) result" where
  "checkNote ver p n digest keyHash =
     rbind (rmap_err DoesNotOpen (Open ver n (po_verifiers p))) (\<lambda>(tx, checked).
     rbind (rmap_err NoStatement (StatementSubject tx)) (\<lambda>subject.
       if sb_Digest subject \<noteq> digest then Inl (OtherTree (sb_Digest subject))
       else if list_ex (\<lambda>c. ck_Verified c \<and> hex8 (si_Hash (ck_Signature c)) = keyHash) checked then Inr ()
       else Inl (NotSignedBy keyHash)))"

definition attestationNotes :: "checker \<Rightarrow> policy \<Rightarrow> string \<Rightarrow> string \<Rightarrow> (attestation_refusal, (string \<times> string) list) result" where
  "attestationNotes ver p ref oid =
     (case attestationName ref of
        None \<Rightarrow> Inl AttestationName
      | Some (digest, keyHash) \<Rightarrow>
          if po_verifiers p = [] then Inl NoVerifiers
          else
            rbind (rmap_err NotesUnread (rp_notes (po_repo p) oid)) (\<lambda>notes.
            rbind (check_all (\<lambda>(path, n). rmap_err (NoteRefused path) (checkNote ver p n digest keyHash)) (sort_key fst notes))
              (\<lambda>_. Inr notes)))"

definition checkAttestation :: "checker \<Rightarrow> policy \<Rightarrow> string \<Rightarrow> string \<Rightarrow> (attestation_refusal, unit) result" where
  "checkAttestation ver p ref oid = rbind (attestationNotes ver p ref oid) (\<lambda>_. Inr ())"

definition checkAttestationUpdate :: "checker \<Rightarrow> policy \<Rightarrow> string \<Rightarrow> string \<Rightarrow> string \<Rightarrow> (attestation_refusal, unit) result" where
  "checkAttestationUpdate ver p ref old oid =
     rbind (attestationNotes ver p ref oid) (\<lambda>notes.
     rbind (rmap_err HeldUnread (rp_notes (po_repo p) old)) (\<lambda>held.
     rbind
       (check_all
          (\<lambda>(path, n).
             case map_of notes path of
               None \<Rightarrow> Inl (NoteDropped path)
             | Some kept \<Rightarrow> if kept \<noteq> n then Inl (NoteChanged path) else Inr ())
          (sort_key fst held)) (\<lambda>_.
       if length notes = length held then Inl NothingAdded else Inr ())))"

section \<open>Restack reports\<close>

datatype report_refusal =
    RestackUngranted
  | ReportRef
  | ReportDelete
  | RecordUnknown
  | NoSuchRecord
  | ReportUnread file_error
  | ReportParents nat
  | ReportNotOnTip
  | ReportFile report_error
  | ReportOtherChange
  | ReportOtherTarget

definition checkReport :: "policy \<Rightarrow> string \<Rightarrow> update \<Rightarrow> verb \<times> (report_refusal, unit) result" where
  "checkReport p who u =
     (if who = [] \<or> \<not> holds_grant (po_grants p) who grantRestack then (VWrite, Inl RestackUngranted)
      else
        (case ParseRestackRef (up_ref u) of
           None \<Rightarrow> (VWrite, Inl ReportRef)
         | Some (target, cid) \<Rightarrow>
             if target \<noteq> recordTarget then (VWrite, Inl ReportRef)
             else if isZero (up_new u) then (VDelete, Inl ReportDelete)
             else
               (let verb = (if isZero (up_old u) then VCreate else VUpdate)
                in (verb,
                  (case rp_hasRecord (po_repo p) cid of
                     None \<Rightarrow> Inl RecordUnknown
                   | Some held \<Rightarrow>
                       if \<not> held then Inl NoSuchRecord
                       else
                         rbind (rmap_err ReportUnread (rp_report (po_repo p) (up_new u))) (\<lambda>rc.
                           if verb = VCreate \<and> length (fc_parents rc) \<noteq> 0 then Inl (ReportParents (length (fc_parents rc)))
                           else if verb = VUpdate \<and> (length (fc_parents rc) \<noteq> 1 \<or> fc_parents rc ! 0 \<noteq> up_old u)
                           then Inl ReportNotOnTip
                           else
                             rbind (rmap_err ReportFile (ParseRestackReport (fc_file rc))) (\<lambda>r.
                               if rr_ChangeID r \<noteq> cid then Inl ReportOtherChange
                               else if rr_Target r \<noteq> target then Inl ReportOtherTarget
                               else Inr ())))))))"

section \<open>The plan graph\<close>

datatype graph_refusal =
    GraphUnnamed
  | GraphDelete
  | GraphUnread
  | TipUnread
  | GraphParents nat
  | GraphNotOnTip
  | GraphCommitter string
  | TreeUnlisted
  | GraphRefused refusal
  | OldTipUnread
  | OldTreeUnlisted
  | OldGraphRefused refusal
  | GraphUnended
  | GraphLate

definition or_else :: "'e \<Rightarrow> 'a option \<Rightarrow> ('e, 'a) result" where
  "or_else e v = (case v of None \<Rightarrow> Inl e | Some x \<Rightarrow> Inr x)"

lemma or_else_iff [result_simps]: "or_else e v = Inr x \<longleftrightarrow> v = Some x"
  by (simp add: or_else_def split: option.split)

text \<open>The graph a commit holds, before the push.\<close>

definition old_index :: "graphReader \<Rightarrow> string \<Rightarrow> (graph_refusal, Index option) result" where
  "old_index gr old =
     rbind (or_else OldTipUnread (gr_commit gr old)) (\<lambda>c.
     rbind (or_else OldTreeUnlisted (gr_tree gr (ct_Tree c))) (\<lambda>entries.
     rbind (rmap_err OldGraphRefused (Layout entries)) (\<lambda>idx. Inr (Some idx))))"

definition may_edit :: "policy \<Rightarrow> string \<Rightarrow> string \<Rightarrow> bool" where
  "may_edit p who author \<longleftrightarrow> holds_grant (po_grants p) who grantApprove"

definition checkGraph :: "policy \<Rightarrow> string \<Rightarrow> update \<Rightarrow> verb \<times> (graph_refusal, unit) result" where
  "checkGraph p who u =
     (if who = [] then (VWrite, Inl GraphUnnamed)
      else if isZero (up_new u) then (VDelete, Inl GraphDelete)
      else
        (let verb = (if isZero (up_old u) then VCreate else VUpdate)
         in (verb,
           rbind (or_else GraphUnread (rp_graph (po_repo p))) (\<lambda>gr.
           rbind (or_else TipUnread (gr_commit gr (up_new u))) (\<lambda>c.
             if verb = VCreate \<and> length (ct_Parents c) \<noteq> 0 then Inl (GraphParents (length (ct_Parents c)))
             else if verb = VUpdate \<and> (length (ct_Parents c) \<noteq> 1 \<or> ct_Parents c ! 0 \<noteq> up_old u) then Inl GraphNotOnTip
             else if ct_Committer c \<noteq> who then Inl (GraphCommitter (ct_Committer c))
             else
               rbind (or_else TreeUnlisted (gr_tree gr (ct_Tree c))) (\<lambda>entries.
               rbind (rmap_err GraphRefused (Layout entries)) (\<lambda>after.
               rbind (if verb = VUpdate then old_index gr (up_old u) else Inr None) (\<lambda>before.
               rbind
                 (case Check (push_of before after (gr_blob gr) who (Some (may_edit p who))) of
                    None \<Rightarrow> Inl GraphUnended
                  | Some r \<Rightarrow> rmap_err GraphRefused r) (\<lambda>_.
                 if gr_overdue gr then Inl GraphLate else Inr ())))))))))"

section \<open>The decision\<close>

datatype policy_refusal =
    ReplaceClosed
  | NotesClosed
  | ValleyClosed string
  | Lookalike string string
  | Symbolic
  | EvidenceKept
  | AttestationRefused attestation_refusal
  | RequestUngranted
  | RecordRefused record_refusal
  | ReportRefused report_refusal
  | PlanRefused graph_refusal
  | NotOpened string "string list" "string list"
  | Protected

type_synonym verdict = "(verb \<times> policy_refusal) option"

fun refused_by :: "('e \<Rightarrow> policy_refusal) \<Rightarrow> verb \<times> ('e, unit) result \<Rightarrow> verdict" where
  "refused_by f (verb, Inl e) = Some (verb, f e)"
| "refused_by f (verb, Inr _) = None"

text \<open>The refs in the valley's own namespace that a push may write at all.\<close>

definition valley_closed :: "string \<Rightarrow> bool" where
  "valley_closed ref \<longleftrightarrow> has_prefix ref valleyPrefix \<and> \<not> has_prefix ref attestationPrefix \<and>
     \<not> has_prefix ref requestPrefix \<and> \<not> has_prefix ref RefPrefix \<and> \<not> has_prefix ref RestackPrefix \<and> ref \<noteq> knotsRef"

definition decide_attestation :: "checker \<Rightarrow> policy \<Rightarrow> update \<Rightarrow> verdict" where
  "decide_attestation ver p u =
     (if isZero (up_new u) then Some (VDelete, EvidenceKept)
      else if isZero (up_old u) then
        refused_by AttestationRefused (VCreate, checkAttestation ver p (up_ref u) (up_new u))
      else refused_by AttestationRefused (VUpdate, checkAttestationUpdate ver p (up_ref u) (up_old u) (up_new u)))"

definition decide_opened :: "policy \<Rightarrow> string \<Rightarrow> string \<Rightarrow> verdict" where
  "decide_opened p who ref =
     (let (names, opened) = openedTo (po_push p) ref
      in if who = [] \<or> who \<notin> set opened then Some (VWrite, NotOpened (namespace ref) names opened) else None)"

text \<open>The third rule: what the ref's namespace asks of the write.\<close>

definition decide_namespace :: "checker \<Rightarrow> policy \<Rightarrow> string \<Rightarrow> update \<Rightarrow> verdict" where
  "decide_namespace ver p who u =
     (let ref = up_ref u
      in if has_prefix ref branchPrefix then None
         else if has_prefix ref attestationPrefix then decide_attestation ver p u
         else if has_prefix ref requestPrefix then
           (if who = [] \<or> \<not> holds_grant (po_grants p) who grantApprove then Some (VWrite, RequestUngranted) else None)
         else if has_prefix ref RefPrefix then
           refused_by RecordRefused (checkRecord (po_repo p) (po_grants p) (po_existing p) (po_creates p) who u)
         else if has_prefix ref RestackPrefix then refused_by ReportRefused (checkReport p who u)
         else if ref = knotsRef then refused_by PlanRefused (checkGraph p who u)
         else decide_opened p who ref)"

definition decide :: "checker \<Rightarrow> policy \<Rightarrow> string \<Rightarrow> update \<Rightarrow> verdict" where
  "decide ver p who u =
     (let ref = up_ref u
      in if has_prefix ref replacePrefix then Some (VWrite, ReplaceClosed)
         else if has_prefix ref notesPrefix then Some (VWrite, NotesClosed)
         else if valley_closed ref then Some (VWrite, ValleyClosed (namespace ref))
         else if lookalike ref \<noteq> None \<and> \<not> isZero (up_new u) then
           Some (if isZero (up_old u) then VCreate else VUpdate,
             Lookalike (the (lookalike ref)) (trim_prefix ref (the (lookalike ref))))
         else if po_symrefs p ref then Some (VWrite, Symbolic)
         else
           (case decide_namespace ver p who u of
              Some refusal \<Rightarrow> Some refusal
            | None \<Rightarrow>
                if protects (po_push p) ref \<and> (who = [] \<or> who \<notin> set (pp_Writers (po_push p))) then Some (VWrite, Protected)
                else None))"

section \<open>What is allowed\<close>

text \<open>The grants that open a ref, and what each namespace asks, as predicates of their own.\<close>

definition opens_to :: "pushPolicy \<Rightarrow> string \<Rightarrow> string \<Rightarrow> bool" where
  "opens_to pp ref who \<longleftrightarrow>
     (\<exists>(name, g) \<in> set (pp_Grants pp). who \<in> set (rg_Writers g) \<and> (\<exists>pattern \<in> set (rg_Refs g). star_means pattern ref))"

lemma set_add_new: "set (add_new who ws) = set who \<union> set ws"
  by (induction ws arbitrary: who) auto

lemma opened_loop_mem:
  "w \<in> set (snd (opened_loop ref gs names who)) \<longleftrightarrow> w \<in> set who \<or>
     (\<exists>x \<in> set gs. w \<in> set (rg_Writers (snd x)) \<and> (\<exists>pattern \<in> set (rg_Refs (snd x)). star_means pattern ref))"
proof (induction ref gs names who rule: opened_loop.induct)
  case (2 ref name g gs names who)
  have l: "list_ex (\<lambda>pattern. match_ref pattern ref) (rg_Refs g) \<longleftrightarrow> (\<exists>pattern \<in> set (rg_Refs g). star_means pattern ref)"
    by (simp add: list_ex_iff match_iff)
  show ?case
  proof (cases "list_ex (\<lambda>pattern. match_ref pattern ref) (rg_Refs g)")
    case True
    then show ?thesis using 2(1) [OF True] True [unfolded l] by (simp add: set_add_new disj_assoc)
  next
    case False
    then show ?thesis using 2(2) [OF False] False [unfolded l] by simp
  qed
qed simp

lemma openedTo_iff: "who \<in> set (snd (openedTo pp ref)) \<longleftrightarrow> opens_to pp ref who"
  unfolding openedTo_def opened_loop_mem opens_to_def by (auto simp: split_def)

lemma decide_opened_iff: "decide_opened p who ref = None \<longleftrightarrow> who \<noteq> [] \<and> opens_to (po_push p) ref who"
  using openedTo_iff [of who "po_push p" ref] by (auto simp: decide_opened_def split: prod.splits)

lemma refused_by_iff: "refused_by f r = None \<longleftrightarrow> snd r = Inr ()"
  by (cases "(f, r)" rule: refused_by.cases) auto

end
