(* ===== verification/HookDecision.thy ===== *)
theory HookDecision
  imports HookPolicy RecordHistory
begin

text \<open>
  What the hook's decision lets through: the rules each namespace keeps, stated over what the
  pushed objects hold, and that the decision is exactly their conjunction.
\<close>

section \<open>Attestations\<close>

text \<open>A note that is evidence about a tree, signed under a key hash by a key the host accepts.\<close>

definition evidence_note :: "checker \<Rightarrow> VerifierKey list \<Rightarrow> string \<Rightarrow> string \<Rightarrow> string \<Rightarrow> bool" where
  "evidence_note ver known digest keyHash n \<longleftrightarrow>
     (\<exists>tx checked subject. Open ver n known = Inr (tx, checked) \<and> StatementSubject tx = Inr subject \<and>
        sb_Digest subject = digest \<and> (\<exists>c \<in> set checked. ck_Verified c \<and> hex8 (si_Hash (ck_Signature c)) = keyHash))"

definition attestation_name :: "string \<Rightarrow> string \<Rightarrow> bool" where
  "attestation_name digest keyHash \<longleftrightarrow>
     length digest = 64 \<and> list_all is_lower_hex digest \<and> length keyHash = 8 \<and> list_all is_lower_hex keyHash"

definition notes_about :: "checker \<Rightarrow> policy \<Rightarrow> string \<Rightarrow> string \<Rightarrow> (string \<times> string) list \<Rightarrow> bool" where
  "notes_about ver p digest keyHash notes \<longleftrightarrow>
     po_verifiers p \<noteq> [] \<and> (\<forall>(path, n) \<in> set notes. evidence_note ver (po_verifiers p) digest keyHash n)"

lemma slash_not_hex: "list_all is_lower_hex d \<Longrightarrow> CHR ''/'' \<notin> set d"
  by (auto simp: list_all_iff is_lower_hex_def byte_val_def)

lemma attestationName_iff:
  "attestationName ref = Some (digest, keyHash) \<longleftrightarrow>
     ref = attestationPrefix @ digest @ ''/'' @ keyHash \<and> attestation_name digest keyHash"
proof
  assume "attestationName ref = Some (digest, keyHash)"
  then show "ref = attestationPrefix @ digest @ ''/'' @ keyHash \<and> attestation_name digest keyHash"
    by (auto simp: attestationName_def attestation_name_def cut_prefix_Some cut_byte_Some split: option.splits if_splits)
next
  assume a: "ref = attestationPrefix @ digest @ ''/'' @ keyHash \<and> attestation_name digest keyHash"
  then have "cut_byte (digest @ CHR ''/'' # keyHash) (CHR ''/'') = Some (digest, keyHash)"
    using slash_not_hex [of digest] by (simp add: attestation_name_def cut_byte_Some)
  then show "attestationName ref = Some (digest, keyHash)"
    using a by (simp add: attestationName_def attestation_name_def)
qed

lemma checkNote_iff: "checkNote ver p n digest keyHash = Inr () \<longleftrightarrow> evidence_note ver (po_verifiers p) digest keyHash n"
  by (auto simp: checkNote_def evidence_note_def result_simps list_ex_iff split: if_splits)

lemma attestationNotes_iff:
  "attestationNotes ver p ref oid = Inr notes \<longleftrightarrow>
     (\<exists>digest keyHash. ref = attestationPrefix @ digest @ ''/'' @ keyHash \<and> attestation_name digest keyHash \<and>
        rp_notes (po_repo p) oid = Inr notes \<and> notes_about ver p digest keyHash notes)"
proof -
  have "attestationNotes ver p ref oid = Inr notes \<longleftrightarrow>
      (\<exists>digest keyHash. attestationName ref = Some (digest, keyHash) \<and> rp_notes (po_repo p) oid = Inr notes \<and>
        notes_about ver p digest keyHash notes)"
    by (auto simp: attestationNotes_def notes_about_def result_simps checkNote_iff split: option.splits)
  then show ?thesis unfolding attestationName_iff by blast
qed

text \<open>Every note the ref held is there as it was, and there is at least one more.\<close>

definition notes_grow :: "(string \<times> string) list \<Rightarrow> (string \<times> string) list \<Rightarrow> bool" where
  "notes_grow held notes \<longleftrightarrow> (\<forall>(path, n) \<in> set held. map_of notes path = Some n) \<and> length notes \<noteq> length held"

lemma checkAttestationUpdate_iff:
  "checkAttestationUpdate ver p ref old oid = Inr () \<longleftrightarrow>
     (\<exists>notes held. attestationNotes ver p ref oid = Inr notes \<and> rp_notes (po_repo p) old = Inr held \<and> notes_grow held notes)"
proof -
  have "check_all (\<lambda>(path, n). case map_of nts path of None \<Rightarrow> Inl (NoteDropped path)
          | Some kept \<Rightarrow> if kept \<noteq> n then Inl (NoteChanged path) else Inr ()) (sort_key fst held) = Inr () \<longleftrightarrow>
      (\<forall>(path, n) \<in> set held. map_of nts path = Some n)" for nts held :: "(string \<times> string) list"
    by (fastforce simp: result_simps split: option.splits if_splits)
  then show ?thesis by (auto simp: checkAttestationUpdate_def notes_grow_def result_simps)
qed

lemma notes_grow_more:
  assumes "notes_grow held notes" "distinct (map fst held)" "distinct (map fst notes)"
  shows "set held \<subset> set notes"
proof -
  have sub: "set held \<subseteq> set notes" using assms(1) by (auto simp: notes_grow_def dest: map_of_SomeD)
  have "card (set held) = length held" "card (set notes) = length notes"
    using assms(2,3) by (simp_all add: distinct_card distinct_map)
  then show ?thesis using sub assms(1) by (auto simp: notes_grow_def)
qed

definition evidence_write :: "checker \<Rightarrow> policy \<Rightarrow> update \<Rightarrow> bool" where
  "evidence_write ver p u \<longleftrightarrow> \<not> isZero (up_new u) \<and>
     (\<exists>digest keyHash nts. up_ref u = attestationPrefix @ digest @ ''/'' @ keyHash \<and> attestation_name digest keyHash \<and>
        rp_notes (po_repo p) (up_new u) = Inr nts \<and> notes_about ver p digest keyHash nts \<and>
        (isZero (up_old u) \<or> (\<exists>held. rp_notes (po_repo p) (up_old u) = Inr held \<and> notes_grow held nts)))"

lemma decide_attestation_iff: "decide_attestation ver p u = None \<longleftrightarrow> evidence_write ver p u"
proof -
  have "checkAttestation ver p (up_ref u) (up_new u) = Inr () \<longleftrightarrow> (\<exists>nts. attestationNotes ver p (up_ref u) (up_new u) = Inr nts)"
    by (auto simp: checkAttestation_def result_simps)
  then show ?thesis
    unfolding decide_attestation_def evidence_write_def
    by (cases "isZero (up_new u)"; cases "isZero (up_old u)")
      (auto simp: refused_by_iff checkAttestationUpdate_iff attestationNotes_iff)
qed

section \<open>Records, reports and the plan graph\<close>

definition record_write :: "policy \<Rightarrow> string \<Rightarrow> update \<Rightarrow> bool" where
  "record_write p who u \<longleftrightarrow> who \<noteq> [] \<and>
     (\<exists>cid. up_ref u = Ref recordTarget cid \<and> ValidBranch recordTarget \<and> ValidID cid \<and>
        (if isZero (up_new u) then holds_grant (po_grants p) who grantApprove
         else if isZero (up_old u) then
           po_existing p + po_creates p \<le> maxRecords \<and>
           (\<exists>h r. record_at (po_repo p) (up_new u) [h] r \<and> rp_kind (po_repo p) h = Some ''commit'' \<and>
              of_change recordTarget cid r \<and> row_create who h r)
         else
           (\<exists>ps before qs after. record_at (po_repo p) (up_old u) ps before \<and> record_at (po_repo p) (up_new u) qs after \<and>
              of_change recordTarget cid after \<and> update_row (po_repo p) (po_grants p) who [up_old u] before qs after)))"

lemma checkRecord_verb:
  "checkRecord repo g existing creates who u = (v, Inr ()) \<Longrightarrow>
     v = (if isZero (up_new u) then VDelete else if isZero (up_old u) then VCreate else VUpdate)"
  by (auto simp: checkRecord_def split: option.splits if_splits)

lemma record_write_iff:
  "snd (checkRecord (po_repo p) (po_grants p) (po_existing p) (po_creates p) who u) = Inr () \<longleftrightarrow> record_write p who u"
proof -
  let ?c = "checkRecord (po_repo p) (po_grants p) (po_existing p) (po_creates p) who u"
  have "snd ?c = Inr () \<longleftrightarrow> ?c = (if isZero (up_new u) then VDelete else if isZero (up_old u) then VCreate else VUpdate, Inr ())"
    using checkRecord_verb [of "po_repo p" "po_grants p" "po_existing p" "po_creates p" who u "fst ?c"]
    by (cases ?c) (simp split del: if_split, blast)
  moreover have "?c = (VDelete, Inr ()) \<longleftrightarrow> isZero (up_new u) \<and> who \<noteq> [] \<and> holds_grant (po_grants p) who grantApprove \<and>
      (\<exists>cid. ParseRef (up_ref u) = Some (recordTarget, cid))"
    by (auto simp: checkRecord_def split: option.splits if_splits)
  ultimately have del: "isZero (up_new u) \<Longrightarrow> ?thesis"
    and create: "\<not> isZero (up_new u) \<Longrightarrow> isZero (up_old u) \<Longrightarrow> snd ?c = Inr () \<longleftrightarrow> ?c = (VCreate, Inr ())"
    and upd: "\<not> isZero (up_new u) \<Longrightarrow> \<not> isZero (up_old u) \<Longrightarrow> snd ?c = Inr () \<longleftrightarrow> ?c = (VUpdate, Inr ())"
    by (auto simp: record_write_def ParseRef_exact)
  show ?thesis
  proof (cases "isZero (up_new u)")
    case new: False
    show ?thesis
    proof (cases "isZero (up_old u)")
      case True
      show ?thesis
        unfolding create [OF new True] record_create_iff record_write_def using new True by (simp only: if_False if_True) blast
    next
      case False
      show ?thesis
        unfolding upd [OF new False] record_update_iff record_write_def using new False by (simp only: if_False) blast
    qed
  qed (rule del)
qed

text \<open>A write that follows on what it replaces: none for the first, the one replaced for the others.\<close>

definition follows_on :: "update \<Rightarrow> string list \<Rightarrow> bool" where
  "follows_on u ps \<longleftrightarrow> ps = (if isZero (up_old u) then [] else [up_old u])"

lemma one_parent: "length ps = 1 \<and> ps ! 0 = x \<longleftrightarrow> ps = [x]"
  by (cases ps) auto

definition report_write :: "policy \<Rightarrow> string \<Rightarrow> update \<Rightarrow> bool" where
  "report_write p who u \<longleftrightarrow> who \<noteq> [] \<and> holds_grant (po_grants p) who grantRestack \<and> \<not> isZero (up_new u) \<and>
     (\<exists>cid rc r. ParseRestackRef (up_ref u) = Some (recordTarget, cid) \<and> rp_hasRecord (po_repo p) cid = Some True \<and>
        rp_report (po_repo p) (up_new u) = Inr rc \<and> follows_on u (fc_parents rc) \<and>
        ParseRestackReport (fc_file rc) = Inr r \<and> rr_ChangeID r = cid \<and> rr_Target r = recordTarget)"

lemma report_write_iff: "snd (checkReport p who u) = Inr () \<longleftrightarrow> report_write p who u"
proof -
  have verb: "(v = VCreate \<longrightarrow> length ps = 0) \<and> (v = VUpdate \<longrightarrow> length ps = 1 \<and> ps ! 0 = up_old u) \<longleftrightarrow> follows_on u ps"
    if "v = (if isZero (up_old u) then VCreate else VUpdate)" for v ps
    using that one_parent [of ps "up_old u"] by (auto simp: follows_on_def)
  show ?thesis
  proof (cases "who = [] \<or> \<not> holds_grant (po_grants p) who grantRestack \<or> isZero (up_new u)")
    case True
    then show ?thesis by (auto simp: checkReport_def report_write_def split: option.splits)
  next
    case False
    define v where "v = (if isZero (up_old u) then VCreate else VUpdate)"
    have "snd (checkReport p who u) = Inr () \<longleftrightarrow>
        (\<exists>cid rc r. ParseRestackRef (up_ref u) = Some (recordTarget, cid) \<and> rp_hasRecord (po_repo p) cid = Some True \<and>
          rp_report (po_repo p) (up_new u) = Inr rc \<and>
          ((v = VCreate \<longrightarrow> length (fc_parents rc) = 0) \<and>
           (v = VUpdate \<longrightarrow> length (fc_parents rc) = 1 \<and> fc_parents rc ! 0 = up_old u)) \<and>
          ParseRestackReport (fc_file rc) = Inr r \<and> rr_ChangeID r = cid \<and> rr_Target r = recordTarget)"
      using False unfolding checkReport_def v_def [symmetric]
      by (auto simp: result_simps Let_def split: option.splits if_splits)
    then show ?thesis using False unfolding verb [OF v_def] report_write_def by blast
  qed
qed

definition graph_write :: "policy \<Rightarrow> string \<Rightarrow> update \<Rightarrow> bool" where
  "graph_write p who u \<longleftrightarrow> who \<noteq> [] \<and> \<not> isZero (up_new u) \<and>
     (\<exists>gr c entries after before. rp_graph (po_repo p) = Some gr \<and> \<not> gr_overdue gr \<and>
        gr_commit gr (up_new u) = Some c \<and> follows_on u (ct_Parents c) \<and> ct_Committer c = who \<and>
        gr_tree gr (ct_Tree c) = Some entries \<and> Layout entries = Inr after \<and>
        (if isZero (up_old u) then before = None else old_index gr (up_old u) = Inr before) \<and>
        Check (push_of before after (gr_blob gr) who (Some (may_edit p who))) = Some (Inr ()))"

lemma graph_write_iff: "snd (checkGraph p who u) = Inr () \<longleftrightarrow> graph_write p who u"
proof (cases "who = [] \<or> isZero (up_new u)")
  case True
  then show ?thesis by (auto simp: checkGraph_def graph_write_def)
next
  case False
  define v where "v = (if isZero (up_old u) then VCreate else VUpdate)"
  have verb: "(v = VCreate \<longrightarrow> length ps = 0) \<and> (v = VUpdate \<longrightarrow> length ps = 1 \<and> ps ! 0 = up_old u) \<longleftrightarrow> follows_on u ps" for ps
    using one_parent [of ps "up_old u"] by (auto simp: follows_on_def v_def)
  have old: "(if v = VUpdate then old_index gr (up_old u) else Inr None) = Inr before \<longleftrightarrow>
      (if isZero (up_old u) then before = None else old_index gr (up_old u) = Inr before)" for gr before
    by (auto simp: v_def)
  have check: "(case c of None \<Rightarrow> Inl GraphUnended | Some r \<Rightarrow> rmap_err GraphRefused r) = Inr x \<longleftrightarrow> c = Some (Inr x)" for c and x :: unit
    by (auto simp: result_simps split: option.splits)
  have guard: "(if a1 then Inl e1 else if a2 then Inl e2 else if a3 then Inl e3 else r) = Inr () \<longleftrightarrow>
      \<not> a1 \<and> \<not> a2 \<and> \<not> a3 \<and> r = Inr ()" for a1 a2 a3 and e1 e2 e3 :: graph_refusal and r
    by auto
  have "snd (checkGraph p who u) = Inr () \<longleftrightarrow>
      (\<exists>gr c. rp_graph (po_repo p) = Some gr \<and> gr_commit gr (up_new u) = Some c \<and>
        ((v = VCreate \<longrightarrow> length (ct_Parents c) = 0) \<and>
         (v = VUpdate \<longrightarrow> length (ct_Parents c) = 1 \<and> ct_Parents c ! 0 = up_old u)) \<and> ct_Committer c = who \<and>
        (\<exists>entries after before. gr_tree gr (ct_Tree c) = Some entries \<and> Layout entries = Inr after \<and>
           (if v = VUpdate then old_index gr (up_old u) else Inr None) = Inr before \<and>
           Check (push_of before after (gr_blob gr) who (Some (may_edit p who))) = Some (Inr ()) \<and> \<not> gr_overdue gr))"
    using False unfolding checkGraph_def v_def [symmetric] Let_def
    by (simp add: rbind_eq_Inr or_else_iff rmap_err_eq_Inr guard check if_Inl_eq_Inr del: split_paired_Ex)
  then show ?thesis unfolding verb old graph_write_def using False by blast
qed

section \<open>The decision\<close>

text \<open>The refs no push may write, whatever anything declares.\<close>

definition closed_ref :: "string \<Rightarrow> bool" where
  "closed_ref ref \<longleftrightarrow> prefix ''refs/replace/'' ref \<or> prefix ''refs/notes/'' ref \<or>
     prefix ''refs/the-valley/'' ref \<and> ref \<noteq> ''refs/the-valley/knots'' \<and>
     \<not> (\<exists>kind \<in> {''attestations/'', ''integration-requests/'', ''changes/'', ''restack/''}. prefix (''refs/the-valley/'' @ kind) ref)"

text \<open>A ref named like another: what git looks up in place of a missing \<open>refs/...\<close>.\<close>

definition named_like_another :: "string \<Rightarrow> bool" where
  "named_like_another ref \<longleftrightarrow>
     (\<exists>pre \<in> {''refs/'', ''refs/tags/'', ''refs/heads/'', ''refs/remotes/''}. prefix (pre @ ''refs/'') ref)"

definition namespace_rule :: "checker \<Rightarrow> policy \<Rightarrow> string \<Rightarrow> update \<Rightarrow> bool" where
  "namespace_rule ver p who u \<longleftrightarrow>
     (let ref = up_ref u
      in if prefix ''refs/heads/'' ref then True
         else if prefix ''refs/the-valley/attestations/'' ref then evidence_write ver p u
         else if prefix ''refs/the-valley/integration-requests/'' ref then
           who \<noteq> [] \<and> holds_grant (po_grants p) who grantApprove
         else if prefix ''refs/the-valley/changes/'' ref then record_write p who u
         else if prefix ''refs/the-valley/restack/'' ref then report_write p who u
         else if ref = ''refs/the-valley/knots'' then graph_write p who u
         else who \<noteq> [] \<and> opens_to (po_push p) ref who)"

definition protected_ref :: "policy \<Rightarrow> string \<Rightarrow> bool" where
  "protected_ref p ref \<longleftrightarrow> (\<exists>pattern \<in> set (pp_Refs (po_push p)). star_means pattern ref)"

definition protection_met :: "policy \<Rightarrow> string \<Rightarrow> string \<Rightarrow> bool" where
  "protection_met p who ref \<longleftrightarrow> (protected_ref p ref \<longrightarrow> who \<noteq> [] \<and> who \<in> set (pp_Writers (po_push p)))"

definition name_free :: "update \<Rightarrow> bool" where
  "name_free u \<longleftrightarrow> isZero (up_new u) \<or> \<not> named_like_another (up_ref u)"

definition write_allowed :: "checker \<Rightarrow> policy \<Rightarrow> string \<Rightarrow> update \<Rightarrow> bool" where
  "write_allowed ver p who u \<longleftrightarrow> \<not> closed_ref (up_ref u) \<and> name_free u \<and>
     \<not> po_symrefs p (up_ref u) \<and> namespace_rule ver p who u \<and> protection_met p who (up_ref u)"

lemmas hook_prefixes = replacePrefix_def notesPrefix_def valleyPrefix_def attestationPrefix_def requestPrefix_def
  branchPrefix_def knotsRef_def RefPrefix_def RestackPrefix_def

lemma closed_ref_iff:
  "has_prefix ref replacePrefix \<or> has_prefix ref notesPrefix \<or> valley_closed ref \<longleftrightarrow> closed_ref ref"
  by (auto simp: closed_ref_def valley_closed_def has_prefix_def hook_prefixes)

lemma lookalike_iff: "lookalike ref \<noteq> None \<longleftrightarrow> named_like_another ref"
  by (auto simp: lookalike_def named_like_another_def lookupPrefixes_def has_prefix_def)

lemma protects_iff: "protects (po_push p) ref \<longleftrightarrow> protected_ref p ref"
  by (simp add: protects_def protected_ref_def list_ex_iff match_iff)

lemma namespace_iff: "decide_namespace ver p who u = None \<longleftrightarrow> namespace_rule ver p who u"
  unfolding decide_namespace_def namespace_rule_def Let_def hook_prefixes has_prefix_def
  by (simp add: refused_by_iff record_write_iff report_write_iff graph_write_iff decide_attestation_iff decide_opened_iff)

lemma decided: "decide ver p who u = None \<longleftrightarrow> write_allowed ver p who u"
proof (cases "closed_ref (up_ref u)")
  case True
  then show ?thesis using closed_ref_iff [of "up_ref u"] by (auto simp: decide_def write_allowed_def name_free_def Let_def)
next
  case False
  then have "decide ver p who u = None \<longleftrightarrow>
      \<not> (lookalike (up_ref u) \<noteq> None \<and> \<not> isZero (up_new u)) \<and> \<not> po_symrefs p (up_ref u) \<and>
      decide_namespace ver p who u = None \<and>
      \<not> (protects (po_push p) (up_ref u) \<and> (who = [] \<or> who \<notin> set (pp_Writers (po_push p))))"
    using closed_ref_iff [of "up_ref u"] by (auto simp: decide_def Let_def split: option.split)
  then show ?thesis
    unfolding lookalike_iff protects_iff namespace_iff using False by (auto simp: write_allowed_def name_free_def protection_met_def)
qed

text \<open>
  C2: the hook lets a principal make a write exactly when every rule that applies to the ref
  allows it: the ref is not one no push may write, it is not created or updated under the name of
  another ref, it is not symbolic, its namespace's own rule holds of what the pushed objects are,
  and a protected ref has one of its declared writers. Protection only ever adds a requirement.
\<close>

theorem decide_iff:
  "decide ver p who u = None \<longleftrightarrow>
     \<not> closed_ref (up_ref u) \<and> name_free u \<and>
     \<not> po_symrefs p (up_ref u) \<and> namespace_rule ver p who u \<and> protection_met p who (up_ref u)"
  unfolding decided write_allowed_def by (rule refl)

end
