(* ===== verification/HookHistory.thy ===== *)
theory HookHistory
  imports HookDecision
begin

text \<open>
  Two refs as state machines: an attestation ref and the plan graph's ref, under the writes the
  hook's decision admits, one after another. Objects are named by their content, so one
  repository answers for every write; the principals, the grants and everything declared may
  differ from write to write.
\<close>

section \<open>Evidence\<close>

text \<open>The trees an attestation ref has pointed at.\<close>

inductive evidence_reach :: "checker \<Rightarrow> repository \<Rightarrow> VerifierKey list \<Rightarrow> string \<Rightarrow> string list \<Rightarrow> bool"
  for ver repo known ref where
  created: "has_prefix ref attestationPrefix \<Longrightarrow> po_repo p = repo \<Longrightarrow> po_verifiers p = known \<Longrightarrow> isZero old \<Longrightarrow>
    decide ver p who \<lparr>up_old = old, up_new = c, up_ref = ref\<rparr> = None \<Longrightarrow> evidence_reach ver repo known ref [c]"
| updated: "evidence_reach ver repo known ref hist \<Longrightarrow> po_repo p = repo \<Longrightarrow> po_verifiers p = known \<Longrightarrow>
    decide ver p who \<lparr>up_old = last hist, up_new = c, up_ref = ref\<rparr> = None \<Longrightarrow> evidence_reach ver repo known ref (hist @ [c])"

inductive_cases evidence_reachE: "evidence_reach ver repo known ref hist"

definition notes_of :: "repository \<Rightarrow> string \<Rightarrow> (string \<times> string) list" where
  "notes_of repo c = (case rp_notes repo c of Inl _ \<Rightarrow> [] | Inr nts \<Rightarrow> nts)"

text \<open>What a reading of notes gives: a map, each path once.\<close>

definition notes_mapped :: "repository \<Rightarrow> bool" where
  "notes_mapped repo \<longleftrightarrow> (\<forall>c. distinct (map fst (notes_of repo c)))"

definition evidence_hist :: "checker \<Rightarrow> repository \<Rightarrow> VerifierKey list \<Rightarrow> string \<Rightarrow> string \<Rightarrow> string list \<Rightarrow> bool" where
  "evidence_hist ver repo known digest keyHash hist \<longleftrightarrow> hist \<noteq> [] \<and>
     (\<forall>c \<in> set hist. \<not> isZero c \<and> (\<exists>nts. rp_notes repo c = Inr nts) \<and>
        (\<forall>(path, n) \<in> set (notes_of repo c). evidence_note ver known digest keyHash n)) \<and>
     (\<forall>i j. i < j \<longrightarrow> j < length hist \<longrightarrow> set (notes_of repo (hist ! i)) \<subset> set (notes_of repo (hist ! j)))"

lemma attestation_ref_rule:
  assumes "has_prefix (up_ref u) attestationPrefix"
  shows "decide ver p who u = None \<longrightarrow> evidence_write ver p u"
proof -
  have "\<not> prefix ''refs/heads/'' (up_ref u)" "prefix ''refs/the-valley/attestations/'' (up_ref u)"
    using assms by (auto simp: has_prefix_def attestationPrefix_def elim!: prefixE)
  then show ?thesis by (simp add: decided write_allowed_def namespace_rule_def)
qed

lemma attestation_name_unique:
  assumes "digest @ ''/'' @ keyHash = digest' @ ''/'' @ keyHash'" "attestation_name digest keyHash" "attestation_name digest' keyHash'"
  shows "digest' = digest \<and> keyHash' = keyHash"
  using assms by (auto simp: attestation_name_def append_eq_append_conv)

lemma evidence_snoc:
  assumes h: "evidence_hist ver repo known digest keyHash hist" and m: "notes_mapped repo"
    and old: "rp_notes repo (last hist) = Inr held" and new: "rp_notes repo c = Inr nts" "\<not> isZero c"
    and ev: "\<forall>(path, n) \<in> set nts. evidence_note ver known digest keyHash n" and grow: "notes_grow held nts"
  shows "evidence_hist ver repo known digest keyHash (hist @ [c])"
proof -
  have ne: "hist \<noteq> []" using h by (simp add: evidence_hist_def)
  have nts: "notes_of repo (last hist) = held" "notes_of repo c = nts" using old new by (simp_all add: notes_of_def)
  have "distinct (map fst held)" "distinct (map fst nts)" using m nts by (auto simp: notes_mapped_def)
  then have more: "set (notes_of repo (last hist)) \<subset> set (notes_of repo c)"
    using notes_grow_more [OF grow] nts by simp
  have last: "last hist = hist ! (length hist - 1)" using ne by (rule last_conv_nth)
  have all: "set (notes_of repo (hist ! i)) \<subset> set (notes_of repo c)" if i: "i < length hist" for i
  proof (cases "i = length hist - 1")
    case True
    then show ?thesis using more last by simp
  next
    case False
    then have "set (notes_of repo (hist ! i)) \<subset> set (notes_of repo (last hist))"
      using h i last by (simp add: evidence_hist_def)
    then show ?thesis using more by blast
  qed
  have "set (notes_of repo ((hist @ [c]) ! i)) \<subset> set (notes_of repo ((hist @ [c]) ! j))"
    if "i < j" "j < length (hist @ [c])" for i j
  proof (cases "j = length hist")
    case True
    then show ?thesis using all [of i] that(1) by (simp add: nth_append)
  next
    case False
    then show ?thesis using h that by (simp add: evidence_hist_def nth_append)
  qed
  then show ?thesis
    using h new ev nts(2) ne by (auto simp: evidence_hist_def)
qed

lemma evidence_kept:
  assumes "evidence_reach ver repo known ref hist" and m: "notes_mapped repo"
  shows "has_prefix ref attestationPrefix \<and> (\<exists>digest keyHash. ref = attestationPrefix @ digest @ ''/'' @ keyHash \<and>
    attestation_name digest keyHash \<and> evidence_hist ver repo known digest keyHash hist)"
  using assms(1)
proof (induction rule: evidence_reach.induct)
  case (created p old who c)
  have "evidence_write ver p \<lparr>up_old = old, up_new = c, up_ref = ref\<rparr>"
    using attestation_ref_rule [of "\<lparr>up_old = old, up_new = c, up_ref = ref\<rparr>" ver p who] created(1,5) by simp
  then obtain digest keyHash nts where w: "\<not> isZero c" "ref = attestationPrefix @ digest @ ''/'' @ keyHash"
    "attestation_name digest keyHash" "rp_notes repo c = Inr nts" "notes_about ver p digest keyHash nts"
    using created(2) by (auto simp: evidence_write_def)
  then have "evidence_hist ver repo known digest keyHash [c]"
    using created(3) by (auto simp: evidence_hist_def notes_about_def notes_of_def)
  then show ?case using created(1) w(2,3) by blast
next
  case (updated hist p who c)
  obtain digest keyHash where h: "ref = attestationPrefix @ digest @ ''/'' @ keyHash" "attestation_name digest keyHash"
    "evidence_hist ver repo known digest keyHash hist" "has_prefix ref attestationPrefix"
    using updated(5) by blast
  have z: "\<not> isZero (last hist)" using h(3) by (auto simp: evidence_hist_def)
  have "evidence_write ver p \<lparr>up_old = last hist, up_new = c, up_ref = ref\<rparr>"
    using attestation_ref_rule [of "\<lparr>up_old = last hist, up_new = c, up_ref = ref\<rparr>" ver p who] h(4) updated(4) by simp
  then obtain d k nts held where w: "\<not> isZero c" "ref = attestationPrefix @ d @ ''/'' @ k"
    "attestation_name d k" "rp_notes repo c = Inr nts" "notes_about ver p d k nts" "rp_notes repo (last hist) = Inr held"
    "notes_grow held nts"
    using updated(2) z by (auto simp: evidence_write_def)
  have "d = digest \<and> k = keyHash" using attestation_name_unique [OF _ h(2) w(3)] h(1) w(2) by simp
  then have "\<forall>(path, n) \<in> set nts. evidence_note ver known digest keyHash n"
    using w(5) updated(3) by (auto simp: notes_about_def)
  then have "evidence_hist ver repo known digest keyHash (hist @ [c])"
    by (rule evidence_snoc [OF h(3) m w(6,4,1) _ w(7)])
  then show ?case using h(1,2,4) by blast
qed

text \<open>
  C4: whatever the hook admits at an attestation ref, the evidence there only grows: every tree
  the ref has pointed at holds notes about the digest its name gives, each opening under the
  host's keys with a verified signature under the key hash its name gives, and each later tree
  holds every note of the ones before it at the same path with the same bytes, and more.
\<close>

theorem evidence_only_grows:
  assumes "evidence_reach ver repo known ref hist" "notes_mapped repo"
  shows "\<exists>digest keyHash. ref = attestationPrefix @ digest @ ''/'' @ keyHash \<and> attestation_name digest keyHash \<and>
    evidence_hist ver repo known digest keyHash hist"
  using evidence_kept [OF assms] by blast

text \<open>The hook's own walk gives each path once.\<close>

lemma walked_notes_mapped: "rp_notes repo = walkNotes objs \<Longrightarrow> notes_mapped repo"
  by (auto simp: notes_mapped_def notes_of_def split: sum.splits dest: notes_found)

section \<open>The plan graph\<close>

text \<open>
  The tips the plan graph's ref has had, under admitted writes: each push reads the same objects,
  within a time of its own.
\<close>

inductive graph_step :: "graphReader \<Rightarrow> string \<Rightarrow> string \<Rightarrow> bool" for gr where
  pushed_on: "rp_graph (po_repo p) = Some (gr\<lparr>gr_overdue := late\<rparr>) \<Longrightarrow> \<not> isZero old \<Longrightarrow>
    decide ver p who \<lparr>up_old = old, up_new = c, up_ref = knotsRef\<rparr> = None \<Longrightarrow> graph_step gr old c"

inductive graph_reach :: "graphReader \<Rightarrow> string \<Rightarrow> bool" for gr where
  created: "rp_graph (po_repo p) = Some (gr\<lparr>gr_overdue := late\<rparr>) \<Longrightarrow> isZero old \<Longrightarrow>
    decide ver p who \<lparr>up_old = old, up_new = c, up_ref = knotsRef\<rparr> = None \<Longrightarrow> graph_reach gr c"
| updated: "graph_reach gr old \<Longrightarrow> graph_step gr old c \<Longrightarrow> graph_reach gr c"

inductive_simps graph_step_iff: "graph_step gr old c"

definition listed :: "graphReader \<Rightarrow> string \<Rightarrow> Entry list option" where
  "listed gr c = (case gr_commit gr c of None \<Rightarrow> None | Some ct \<Rightarrow> gr_tree gr (ct_Tree ct))"

definition graph_at :: "graphReader \<Rightarrow> string \<Rightarrow> Index option" where
  "graph_at gr c =
     (case listed gr c of
        None \<Rightarrow> None
      | Some entries \<Rightarrow> (case Layout entries of Inl _ \<Rightarrow> None | Inr idx \<Rightarrow> Some idx))"

text \<open>A listing names an object for every entry, as the hook's walk does.\<close>

definition trees_named :: "graphReader \<Rightarrow> bool" where
  "trees_named gr \<longleftrightarrow> (\<forall>oid entries. gr_tree gr oid = Some entries \<longrightarrow> named_objects entries)"

lemma walked_trees_named:
  assumes "stream_tree objs spent oid = Inr (entries, spent')" "spent \<le> bg_bytes graphBudget" "2 \<le> length oid"
  shows "named_objects entries"
  using stream_tree_listing [OF assms(1,2)] assms(3) by (auto simp: named_objects_def list_all_iff)

lemma knots_ref_rule: "decide ver p who \<lparr>up_old = old, up_new = c, up_ref = knotsRef\<rparr> = None \<Longrightarrow>
    graph_write p who \<lparr>up_old = old, up_new = c, up_ref = knotsRef\<rparr>"
  by (simp add: decided write_allowed_def namespace_rule_def knotsRef_def)

lemma graph_step_pushes:
  assumes "graph_step gr old c" "trees_named gr"
  shows "\<exists>es es'. listed gr old = Some es \<and> listed gr c = Some es' \<and> push_step (gr_blob gr) es es'"
  using assms(1)
proof cases
  case (pushed_on p late ver who)
  then have w: "graph_write p who \<lparr>up_old = old, up_new = c, up_ref = knotsRef\<rparr>" by (blast intro: knots_ref_rule)
  then obtain ct es' new before where new: "gr_commit gr c = Some ct" "gr_tree gr (ct_Tree ct) = Some es'"
    "Layout es' = Inr new" "old_index (gr\<lparr>gr_overdue := late\<rparr>) old = Inr before"
    "Check (push_of before new (gr_blob gr) who (Some (may_edit p who))) = Some (Inr ())"
    using pushed_on by (auto simp: graph_write_def)
  obtain co es idx where old: "gr_commit gr old = Some co" "gr_tree gr (ct_Tree co) = Some es" "Layout es = Inr idx"
    "before = Some idx"
    using new(4) by (auto simp: old_index_def result_simps)
  have "push_step (gr_blob gr) es es'"
    using push_step.written [OF old(3) new(3)] new(2,5) old(4) assms(2) by (auto simp: trees_named_def)
  then show ?thesis using old(1,2) new(1,2) by (auto simp: listed_def)
qed

lemma graph_reach_pushed:
  assumes "graph_reach gr c" "trees_named gr"
  shows "\<exists>es. listed gr c = Some es \<and> pushed (gr_blob gr) es"
  using assms(1)
proof (induction rule: graph_reach.induct)
  case (created p late old ver who c)
  then have "graph_write p who \<lparr>up_old = old, up_new = c, up_ref = knotsRef\<rparr>" by (blast intro: knots_ref_rule)
  then obtain ct es new where new: "gr_commit gr c = Some ct" "gr_tree gr (ct_Tree ct) = Some es" "Layout es = Inr new"
    "Check (push_of None new (gr_blob gr) who (Some (may_edit p who))) = Some (Inr ())"
    using created(1,2) by (auto simp: graph_write_def)
  then have "pushed (gr_blob gr) es" using pushed.first assms(2) by (auto simp: trees_named_def)
  then show ?case using new(1,2) by (auto simp: listed_def)
next
  case (updated old c)
  then show ?case using graph_step_pushes [OF updated(2) assms(2)] pushed.more by fastforce
qed

lemma graph_steps_push:
  assumes "(graph_step gr)\<^sup>*\<^sup>* c c'" "trees_named gr" "listed gr c = Some es"
  shows "\<exists>es'. listed gr c' = Some es' \<and> (push_step (gr_blob gr))\<^sup>*\<^sup>* es es'"
  using assms(1)
proof (induction rule: rtranclp_induct)
  case base
  then show ?case using assms(3) by blast
next
  case (step mid c')
  then show ?case using graph_step_pushes [OF step.hyps(2) assms(2)] by (fastforce intro: rtranclp.rtrancl_into_rtrancl)
qed

lemma graph_reach_steps: "(graph_step gr)\<^sup>*\<^sup>* c c' \<Longrightarrow> graph_reach gr c \<Longrightarrow> graph_reach gr c'"
  by (induction rule: rtranclp_induct) (auto intro: graph_reach.updated)

text \<open>
  C3: the plan graph a project's pushes build through the hook is valid after every one of them:
  a whole check of it passes, every knot and comment in it keeps the rules and no edge of either
  kind leads from a knot back to it; and whatever pushes come later, each knot is still in its
  file with its id, type, creation date and creator, and each comment under its author's name.
\<close>

theorem hook_keeps_graph:
  assumes "graph_reach gr c" "(graph_step gr)\<^sup>*\<^sup>* c c'" "trees_named gr"
  shows "case (graph_at gr c, graph_at gr c') of
    (Some old, Some new) \<Rightarrow> Validate new (gr_blob gr) = Some (Inr ()) \<and> valid_graph new (gr_blob gr) \<and>
      nothing_lost (gr_blob gr) old new
  | _ \<Rightarrow> False"
proof -
  obtain es where es: "listed gr c = Some es" "pushed (gr_blob gr) es" using graph_reach_pushed [OF assms(1,3)] by blast
  obtain es' where es': "listed gr c' = Some es'" "(push_step (gr_blob gr))\<^sup>*\<^sup>* es es'"
    using graph_steps_push [OF assms(2,3) es(1)] by blast
  obtain es'' where "listed gr c' = Some es''" "pushed (gr_blob gr) es''"
    using graph_reach_pushed [OF graph_reach_steps [OF assms(2,1)] assms(3)] by blast
  then have "pushed (gr_blob gr) es'" using es'(1) by simp
  then obtain new where new: "Layout es' = Inr new" "valid_graph new (gr_blob gr)" using pushed_invariant by blast
  then have "Validate new (gr_blob gr) = Some (Inr ())" using whole_graph_passes [OF new(1)] by blast
  moreover obtain old where "Layout es = Inr old" using pushed_invariant [OF es(2)] by blast
  ultimately show ?thesis
    using history_nothing_lost [OF es(2) es'(2)] new es(1) es'(1) by (simp add: graph_at_def)
qed

end
