(* ===== verification/HookPush.thy ===== *)
theory HookPush
  imports HookDecision
begin

text \<open>
  \<^verbatim>\<open>valleyhook/main.go\<close> and the readers of \<^verbatim>\<open>grants.go\<close> and \<^verbatim>\<open>attestation.go\<close>: the pre-receive hook over
  the whole of a push. The files it reads, the decoding of the declared policy (another module)
  and the further hook it may run are parameters; the parsing of its command line is left out,
  and what it says on standard error is kept as the reason for the status.
\<close>

section \<open>Lines and fields\<close>

definition maxToken :: nat where "maxToken = 64 * 1024"

text \<open>
  \<^verbatim>\<open>bufio.Scanner\<close> over lines: a carriage return before the line's end is dropped, and a line that
  does not fit the buffer ends the scan with an error, the flag here.
\<close>

definition drop_cr :: "string \<Rightarrow> string" where
  "drop_cr l = (if l \<noteq> [] \<and> last l = CHR 0x0D then butlast l else l)"

fun scan_pieces :: "string list \<Rightarrow> string list \<times> bool" where
  "scan_pieces [] = ([], True)"
| "scan_pieces [l] =
     (if maxToken \<le> length l then ([], False) else if l = [] then ([], True) else ([drop_cr l], True))"
| "scan_pieces (l # ls) =
     (if maxToken \<le> length l then ([], False)
      else (drop_cr l # fst (scan_pieces ls), snd (scan_pieces ls)))"

definition scan_lines :: "string \<Rightarrow> string list \<times> bool" where
  "scan_lines data = scan_pieces (split_byte (CHR 0x0A) data)"

section \<open>Files\<close>

datatype host_file = Missing | Unreadable | Content string

datatype file_refusal = FileUnreadable | FileTooLong | BadGrantLine nat | BadKey nat key_line_error

fun grant_lines :: "grants \<Rightarrow> nat \<Rightarrow> string list \<Rightarrow> (file_refusal, grants) result" where
  "grant_lines g n [] = Inr g"
| "grant_lines g n (l # ls) =
     (let line = trim_space l
      in if line = [] \<or> has_prefix line ''#'' then grant_lines g (n + 1) ls
         else
           (case go_fields line of
              [grant, who] \<Rightarrow> grant_lines (g(who := (g who)(grant := True))) (n + 1) ls
            | _ \<Rightarrow> Inl (BadGrantLine n)))"

fun read_grants :: "grants \<Rightarrow> host_file \<Rightarrow> (file_refusal, grants) result" where
  "read_grants g Missing = Inr g"
| "read_grants g Unreadable = Inl FileUnreadable"
| "read_grants g (Content data) =
     rbind (grant_lines g 1 (fst (scan_lines data))) (\<lambda>g'. if snd (scan_lines data) then Inr g' else Inl FileTooLong)"

fun readVerifiers :: "host_file \<Rightarrow> (file_refusal, VerifierKey list) result" where
  "readVerifiers Missing = Inr []"
| "readVerifiers Unreadable = Inl FileUnreadable"
| "readVerifiers (Content data) = rmap_err (\<lambda>(n, e). BadKey n e) (ParseVerifierKeys data)"

fun read_all_grants :: "grants \<Rightarrow> host_file list \<Rightarrow> (file_refusal, grants) result" where
  "read_all_grants g [] = Inr g"
| "read_all_grants g (f # fs) = rbind (read_grants g f) (\<lambda>g'. read_all_grants g' fs)"

fun read_all_keys :: "host_file list \<Rightarrow> (file_refusal, VerifierKey list) result" where
  "read_all_keys [] = Inr []"
| "read_all_keys (f # fs) = rbind (readVerifiers f) (\<lambda>ks. rbind (read_all_keys fs) (\<lambda>rest. Inr (ks @ rest)))"

section \<open>The updates\<close>

definition maxUpdates :: nat where "maxUpdates = 1000"

datatype push_refusal =
    PolicyUnread
  | GrantsUnread file_refusal
  | KeysUnread file_refusal
  | TooManyUpdates
  | NotAnUpdate string
  | InputTooLong
  | ManyRecordUpdates nat
  | ManyReportUpdates nat
  | RecordsUncounted
  | SymbolicUnread
  | WritesRefused "(update \<times> verb \<times> policy_refusal) list"

fun read_updates :: "string list \<Rightarrow> bool \<Rightarrow> update list \<Rightarrow> string \<Rightarrow> (push_refusal, update list \<times> string) result" where
  "read_updates [] whole us input = (if \<not> whole then Inl InputTooLong else Inr (us, input))"
| "read_updates (l # ls) whole us input =
     (if trim_space l = [] then read_updates ls whole us input
      else if length us = maxUpdates then Inl TooManyUpdates
      else
        (case go_fields l of
           [old, new, ref] \<Rightarrow>
             read_updates ls whole (us @ [\<lparr>up_old = old, up_new = new, up_ref = ref\<rparr>]) (input @ l @ [CHR 0x0A])
         | _ \<Rightarrow> Inl (NotAnUpdate l)))"

definition writes_record :: "update \<Rightarrow> bool" where
  "writes_record u \<longleftrightarrow> has_prefix (up_ref u) RefPrefix"

definition creates_record :: "update \<Rightarrow> bool" where
  "creates_record u \<longleftrightarrow> writes_record u \<and> isZero (up_old u) \<and> \<not> isZero (up_new u)"

definition writes_report :: "update \<Rightarrow> bool" where
  "writes_report u \<longleftrightarrow> has_prefix (up_ref u) RestackPrefix"

section \<open>The hook\<close>

text \<open>The policy with what is counted and read once for the whole push.\<close>

definition for_push :: "policy \<Rightarrow> nat \<Rightarrow> nat \<Rightarrow> (string \<Rightarrow> bool) \<Rightarrow> policy" where
  "for_push p creates existing symrefs = p\<lparr>po_creates := creates, po_existing := existing, po_symrefs := symrefs\<rparr>"

definition refusals :: "checker \<Rightarrow> policy \<Rightarrow> string \<Rightarrow> update list \<Rightarrow> (update \<times> verb \<times> policy_refusal) list" where
  "refusals ver p who us =
     concat (map (\<lambda>u. case decide ver p who u of None \<Rightarrow> [] | Some (verb, why) \<Rightarrow> [(u, verb, why)]) us)"

definition judge_push :: "checker \<Rightarrow> policy \<Rightarrow> string \<Rightarrow> string \<Rightarrow> (push_refusal, string) result" where
  "judge_push ver p who stdin =
     rbind (read_updates (fst (scan_lines stdin)) (snd (scan_lines stdin)) [] []) (\<lambda>(us, input).
       let records = length (filter writes_record us);
           creates = length (filter creates_record us);
           reports = length (filter writes_report us)
       in if records > maxRecordUpdates then Inl (ManyRecordUpdates records)
          else if reports > MaxReportUpdates then Inl (ManyReportUpdates reports)
          else
            rbind (if creates > 0 then or_else RecordsUncounted (rp_records (po_repo p)) else Inr (po_existing p)) (\<lambda>existing.
            rbind (or_else SymbolicUnread (rp_symbolic (po_repo p) (map up_ref us))) (\<lambda>symrefs.
              let refused = refusals ver (for_push p creates existing symrefs) who us
              in if refused \<noteq> [] then Inl (WritesRefused refused) else Inr input)))"

record hook_args =
  ha_project :: string
  ha_policy :: string
  ha_principal :: string
  ha_then :: string
  ha_grants :: "string list"
  ha_keys :: "string list"

text \<open>The machine the hook runs on: its files, the policy decoder, and what running a hook exits with.\<close>

record machine =
  ma_file :: "string \<Rightarrow> host_file"
  ma_decode :: "string \<Rightarrow> pushPolicy option"
  ma_run :: "string \<Rightarrow> string \<Rightarrow> int option"

definition readPolicy :: "machine \<Rightarrow> string \<Rightarrow> (push_refusal, pushPolicy) result" where
  "readPolicy m path =
     (case ma_file m path of
        Content data \<Rightarrow> or_else PolicyUnread (ma_decode m data)
      | _ \<Rightarrow> Inl PolicyUnread)"

definition read_setup :: "machine \<Rightarrow> repository \<Rightarrow> hook_args \<Rightarrow> (push_refusal, policy) result" where
  "read_setup m repo args =
     rbind (readPolicy m (ha_policy args)) (\<lambda>push.
     rbind (rmap_err GrantsUnread (read_all_grants (\<lambda>_ _. False) (map (ma_file m) (ha_grants args)))) (\<lambda>g.
     rbind (rmap_err KeysUnread (read_all_keys (map (ma_file m) (ha_keys args)))) (\<lambda>keys.
       Inr \<lparr>po_push = push, po_grants = g, po_verifiers = keys, po_repo = repo, po_symrefs = (\<lambda>_. False),
            po_creates = 0, po_existing = 0\<rparr>)))"

definition runThen :: "machine \<Rightarrow> string \<Rightarrow> string \<Rightarrow> int" where
  "runThen m path input = (case ma_run m path input of Some status \<Rightarrow> status | None \<Rightarrow> 1)"

definition preReceive :: "checker \<Rightarrow> machine \<Rightarrow> repository \<Rightarrow> hook_args \<Rightarrow> string \<Rightarrow> int" where
  "preReceive ver m repo args stdin =
     (if ha_project args = [] \<or> ha_policy args = [] then 2
      else
        (case rbind (read_setup m repo args) (\<lambda>p. judge_push ver p (ha_principal args) stdin) of
           Inl _ \<Rightarrow> 1
         | Inr input \<Rightarrow> if ha_then args \<noteq> [] then runThen m (ha_then args) input else 0))"

section \<open>What is read\<close>

definition is_update :: "string \<Rightarrow> update \<Rightarrow> bool" where
  "is_update l u \<longleftrightarrow> go_fields l = [up_old u, up_new u, up_ref u]"

definition kept_lines :: "string list \<Rightarrow> string list" where
  "kept_lines ls = filter (\<lambda>l. trim_space l \<noteq> []) ls"

lemma read_updates_iff:
  "read_updates ls whole us input = Inr (us', input') \<longleftrightarrow>
     whole \<and> (\<exists>vs. us' = us @ vs \<and> list_all2 is_update (kept_lines ls) vs \<and> (vs = [] \<or> length us' \<le> maxUpdates)) \<and>
     input' = input @ concat (map (\<lambda>l. l @ [CHR 0x0A]) (kept_lines ls))"
  if "length us \<le> maxUpdates"
  using that
proof (induction ls arbitrary: us input)
  case (Cons l ls)
  show ?case
  proof (cases "trim_space l = []")
    case True
    then show ?thesis using Cons by (simp add: kept_lines_def)
  next
    case False
    show ?thesis
    proof (cases "length us = maxUpdates")
      case True
      then show ?thesis using False by (auto simp: kept_lines_def list_all2_Cons1)
    next
      case room: False
      show ?thesis
      proof (cases "\<exists>u. is_update l u")
        case True
        then obtain u :: update where u: "go_fields l = [up_old u, up_new u, up_ref u]" unfolding is_update_def by blast
        have only: "is_update l v \<longleftrightarrow> v = u" for v by (cases u; cases v) (auto simp: is_update_def u)
        have e: "\<lparr>up_old = up_old u, up_new = up_new u, up_ref = up_ref u\<rparr> = u" by (cases u) simp
        have "read_updates (l # ls) whole us input =
            read_updates ls whole (us @ [\<lparr>up_old = up_old u, up_new = up_new u, up_ref = up_ref u\<rparr>]) (input @ l @ [CHR 0x0A])"
          using False room u by simp
        then have "read_updates (l # ls) whole us input = read_updates ls whole (us @ [u]) (input @ l @ [CHR 0x0A])"
          unfolding e .
        moreover have "length (us @ [u]) \<le> maxUpdates" using Cons.prems room by simp
        ultimately show ?thesis
          using Cons.IH [of "us @ [u]" "input @ l @ [CHR 0x0A]"] False
          by (auto simp: kept_lines_def list_all2_Cons1 only)
      next
        case none: False
        then have "read_updates (l # ls) whole us input = Inl (NotAnUpdate l)"
          using False room by (auto simp: is_update_def split: list.splits) (metis update.select_convs(1,2,3))
        then show ?thesis using False none by (auto simp: kept_lines_def list_all2_Cons1)
      qed
    qed
  qed
qed (auto simp: kept_lines_def)

lemma refusals_iff: "refusals ver p who us = [] \<longleftrightarrow> list_all (write_allowed ver p who) us"
proof -
  have "(case decide ver p who u of None \<Rightarrow> [] | Some (verb, why) \<Rightarrow> [(u, verb, why)]) = [] \<longleftrightarrow> write_allowed ver p who u" for u
    unfolding decided [symmetric] by (cases "decide ver p who u") auto
  then show ?thesis by (induction us) (simp_all add: refusals_def)
qed

text \<open>What the hook asks of a push as a whole, with the bounds on what it may update.\<close>

definition push_judged :: "checker \<Rightarrow> policy \<Rightarrow> string \<Rightarrow> update list \<Rightarrow> bool" where
  "push_judged ver p who us \<longleftrightarrow>
     length (filter writes_record us) \<le> maxRecordUpdates \<and>
     length (filter writes_report us) \<le> MaxReportUpdates \<and>
     (\<exists>existing symrefs.
        (if filter creates_record us = [] then existing = po_existing p else rp_records (po_repo p) = Some existing) \<and>
        rp_symbolic (po_repo p) (map up_ref us) = Some symrefs \<and>
        list_all (write_allowed ver (for_push p (length (filter creates_record us)) existing symrefs) who) us)"

definition push_allowed :: "checker \<Rightarrow> policy \<Rightarrow> string \<Rightarrow> update list \<Rightarrow> bool" where
  "push_allowed ver p who us \<longleftrightarrow> length us \<le> maxUpdates \<and> push_judged ver p who us"

lemma judge_push_iff:
  "judge_push ver p who stdin = Inr input \<longleftrightarrow>
     snd (scan_lines stdin) \<and> (\<exists>us. list_all2 is_update (kept_lines (fst (scan_lines stdin))) us \<and> push_allowed ver p who us) \<and>
     input = concat (map (\<lambda>l. l @ [CHR 0x0A]) (kept_lines (fst (scan_lines stdin))))"
proof -
  define ls where "ls = kept_lines (fst (scan_lines stdin))"
  have read: "read_updates (fst (scan_lines stdin)) (snd (scan_lines stdin)) [] [] = Inr (us, inp) \<longleftrightarrow>
      snd (scan_lines stdin) \<and> list_all2 is_update ls us \<and> length us \<le> maxUpdates \<and>
      inp = concat (map (\<lambda>l. l @ [CHR 0x0A]) ls)" for us inp
    using read_updates_iff [of "[]" "fst (scan_lines stdin)" "snd (scan_lines stdin)" "[]" us inp] by (auto simp: ls_def)
  have if_le: "(if m > k then Inl e else r) = Inr x \<longleftrightarrow> m \<le> k \<and> r = Inr x" for m k :: nat and e :: push_refusal and r x
    by auto
  have existing: "(if length cs > 0 then or_else RecordsUncounted (rp_records (po_repo p)) else Inr (po_existing p)) = Inr existing \<longleftrightarrow>
      (if cs = [] then existing = po_existing p else rp_records (po_repo p) = Some existing)" for cs :: "update list" and existing
    by (auto simp: or_else_iff)
  have judged: "(let records = length (filter writes_record us); creates = length (filter creates_record us);
          reports = length (filter writes_report us)
        in if records > maxRecordUpdates then Inl (ManyRecordUpdates records)
           else if reports > MaxReportUpdates then Inl (ManyReportUpdates reports)
           else
             rbind (if creates > 0 then or_else RecordsUncounted (rp_records (po_repo p)) else Inr (po_existing p)) (\<lambda>existing.
             rbind (or_else SymbolicUnread (rp_symbolic (po_repo p) (map up_ref us))) (\<lambda>symrefs.
               let refused = refusals ver (for_push p creates existing symrefs) who us
               in if refused \<noteq> [] then Inl (WritesRefused refused) else Inr inp))) = Inr x \<longleftrightarrow>
      push_judged ver p who us \<and> x = inp" for us inp x
    unfolding Let_def if_le rbind_eq_Inr existing or_else_iff if_Inl_eq_Inr not_not refusals_iff push_judged_def by auto
  show ?thesis
    unfolding judge_push_def rbind_eq_Inr split_paired_Ex prod.case judged read push_allowed_def ls_def [symmetric] by blast
qed

definition then_accepts :: "machine \<Rightarrow> hook_args \<Rightarrow> string \<Rightarrow> bool" where
  "then_accepts m args input \<longleftrightarrow> ha_then args = [] \<or> ma_run m (ha_then args) input = Some 0"

text \<open>
  C1: the hook accepts a push exactly when its policy, grants and keys are read, every line on its
  input is an update, the push is within the bounds on refs, change records and restack reports,
  every one of its writes is allowed, and the further hook, if there is one, exits with 0. One
  refused write refuses the whole push, and whatever cannot be read refuses it too.
\<close>

theorem preReceive_accepts:
  "preReceive ver m repo args stdin = 0 \<longleftrightarrow>
     ha_project args \<noteq> [] \<and> ha_policy args \<noteq> [] \<and> snd (scan_lines stdin) \<and>
     (\<exists>p us. read_setup m repo args = Inr p \<and> list_all2 is_update (kept_lines (fst (scan_lines stdin))) us \<and>
        push_allowed ver p (ha_principal args) us) \<and>
     then_accepts m args (concat (map (\<lambda>l. l @ [CHR 0x0A]) (kept_lines (fst (scan_lines stdin)))))"
proof -
  have "(case r of Inl _ \<Rightarrow> 1 | Inr input \<Rightarrow> if ha_then args \<noteq> [] then runThen m (ha_then args) input else 0) = 0 \<longleftrightarrow>
      (\<exists>input. r = Inr input \<and> then_accepts m args input)" for r :: "(push_refusal, string) result"
    by (cases r) (auto simp: then_accepts_def runThen_def split: option.splits)
  then show ?thesis
    unfolding preReceive_def by (auto simp: rbind_eq_Inr judge_push_iff)
qed

end
