(* ===== verification/HookWitness.thy ===== *)
theory HookWitness
  imports HookHistory HookPush KnotWitness NoteRound
begin

text \<open>
  The histories of the hook's refs, applied to sample pushes: the sample graph's two, and an
  attestation ref that takes one note and then another.
\<close>

section \<open>The plan graph\<close>

definition sample_commit :: "string \<Rightarrow> string list \<Rightarrow> string \<Rightarrow> Commit" where
  "sample_commit tree ps who = \<lparr>ct_Tree = tree, ct_Parents = ps, ct_Committer = who, ct_Time = 0, ct_Op = ''op''\<rparr>"

definition sample_graph :: graphReader where
  "sample_graph =
     \<lparr>gr_commit = (\<lambda>c. if c = ''c1'' then Some (sample_commit ''t1'' [] ''ada'')
         else if c = ''c2'' then Some (sample_commit ''t2'' [''c1''] ''bob'') else None),
      gr_tree = (\<lambda>t. if t = ''t1'' then Some sample1 else if t = ''t2'' then Some sample2 else None),
      gr_blob = sample_read, gr_overdue = False\<rparr>"

text \<open>A project that declares nothing, on a host that grants nothing.\<close>

definition bare_policy :: "repository \<Rightarrow> VerifierKey list \<Rightarrow> policy" where
  "bare_policy repo known =
     \<lparr>po_push = \<lparr>pp_Refs = [], pp_Writers = [], pp_Grants = []\<rparr>, po_grants = (\<lambda>_ _. False), po_verifiers = known,
      po_repo = repo, po_symrefs = (\<lambda>_. False), po_creates = 0, po_existing = 0\<rparr>"

definition graph_repo :: repository where
  "graph_repo = sample_repo\<lparr>rp_graph := Some sample_graph\<rparr>"

lemma bare_policy_simps [simp]:
  "po_repo (bare_policy repo known) = repo" "po_verifiers (bare_policy repo known) = known"
  "may_edit (bare_policy repo known) who = (\<lambda>_. False)" "protection_met (bare_policy repo known) who ref"
  "po_symrefs (bare_policy repo known) ref \<longleftrightarrow> False"
  by (auto simp: bare_policy_def may_edit_def holds_grant_def protection_met_def protected_ref_def)

lemma knots_ref_allowed:
  "graph_write (bare_policy repo known) who \<lparr>up_old = old, up_new = c, up_ref = knotsRef\<rparr> \<Longrightarrow>
   decide ver (bare_policy repo known) who \<lparr>up_old = old, up_new = c, up_ref = knotsRef\<rparr> = None"
  by (simp add: decided write_allowed_def name_free_def closed_ref_def named_like_another_def namespace_rule_def knotsRef_def)

lemma sample_graph_first: "graph_reach sample_graph ''c1''"
proof (rule graph_reach.created)
  show "rp_graph (po_repo (bare_policy graph_repo [])) = Some (sample_graph\<lparr>gr_overdue := False\<rparr>)"
    by (simp add: graph_repo_def sample_graph_def)
  show "isZero zeros" by (simp add: zeros_def isZero_def list_all_iff)
  then have "graph_write (bare_policy graph_repo []) ''ada'' \<lparr>up_old = zeros, up_new = ''c1'', up_ref = knotsRef\<rparr>"
    using sample_layout(1) sample_pushes(1) [unfolded sample_push_of]
    by (simp add: graph_write_def graph_repo_def sample_graph_def sample_commit_def follows_on_def isZero_def)
  then show "decide (\<lambda>_ _ _. False) (bare_policy graph_repo []) ''ada'' \<lparr>up_old = zeros, up_new = ''c1'', up_ref = knotsRef\<rparr> = None"
    by (rule knots_ref_allowed)
qed

lemma sample_graph_second: "graph_step sample_graph ''c1'' ''c2''"
proof (rule graph_step.pushed_on)
  show "rp_graph (po_repo (bare_policy graph_repo [])) = Some (sample_graph\<lparr>gr_overdue := False\<rparr>)"
    by (simp add: graph_repo_def sample_graph_def)
  have "old_index sample_graph ''c1'' = Inr (Some index1)"
    using sample_layout(1) by (simp add: old_index_def sample_graph_def sample_commit_def or_else_def)
  then have "graph_write (bare_policy graph_repo []) ''bob'' \<lparr>up_old = ''c1'', up_new = ''c2'', up_ref = knotsRef\<rparr>"
    using sample_layout(2) sample_pushes(2) [unfolded sample_push_of]
    by (simp add: graph_write_def graph_repo_def sample_commit_def follows_on_def isZero_def)
      (simp add: sample_graph_def sample_commit_def)
  then show "decide (\<lambda>_ _ _. False) (bare_policy graph_repo []) ''bob'' \<lparr>up_old = ''c1'', up_new = ''c2'', up_ref = knotsRef\<rparr> = None"
    by (rule knots_ref_allowed)
qed (simp add: isZero_def)

lemma sample_trees_named: "trees_named sample_graph"
  using sample_named by (simp add: trees_named_def sample_graph_def)

theorem hook_keeps_graph_witness:
  "Validate index2 sample_read = Some (Inr ()) \<and> valid_graph index2 sample_read \<and> nothing_lost sample_read index1 index2"
proof -
  have "graph_at sample_graph ''c1'' = Some index1" "graph_at sample_graph ''c2'' = Some index2" "gr_blob sample_graph = sample_read"
    by (simp_all add: graph_at_def listed_def sample_graph_def sample_commit_def sample_layout)
  then show ?thesis
    using hook_keeps_graph [OF sample_graph_first r_into_rtranclp [of "graph_step sample_graph", OF sample_graph_second] sample_trees_named]
    by simp
qed

section \<open>Evidence\<close>

text \<open>A key, a statement about a tree, and a note of it signed by the key: 64 zero bytes under the key hash 0.\<close>

definition sample_digest :: string where "sample_digest = replicate 64 (CHR ''a'')"
definition sample_keyHash :: string where "sample_keyHash = replicate 8 (CHR ''0'')"

definition sample_host_key :: VerifierKey where
  "sample_host_key = \<lparr>vk_Name = ''host'', vk_Hash = 0, vk_Pub = ''k''\<rparr>"

definition sample_statement :: string where
  "sample_statement =
     StatementType @ [newline] @ ''subject.primary gitoid'' @ [newline] @ ''subject.digest.gitoid '' @ sample_digest @ [newline]"

definition sample_sig_line :: string where
  "sample_sig_line = Mark @ ''host '' @ replicate 91 (CHR ''A'') @ ''=''"

definition sample_note :: string where
  "sample_note = sample_statement @ [newline] @ sample_sig_line @ [newline]"

definition any_sig :: checker where "any_sig pub tx s \<longleftrightarrow> pub = ''k'' \<and> tx = sample_statement"

lemma sample_opens: "Open any_sig sample_note [sample_host_key] = Inr (sample_statement,
    [\<lparr>ck_Signature = \<lparr>si_Name = ''host'', si_Hash = 0, si_Sig = replicate 64 (CHR 0x00), si_Line = sample_sig_line\<rparr>,
       ck_Known = True, ck_Verified = True\<rparr>])"
  by code_simp

lemma sample_subject: "StatementSubject sample_statement = Inr \<lparr>sb_Scheme = ''gitoid'', sb_Digest = sample_digest\<rparr>"
  by code_simp

lemma sample_hash: "hex8 0 = sample_keyHash"
  by code_simp

lemma sample_evidence: "evidence_note any_sig [sample_host_key] sample_digest sample_keyHash sample_note"
  unfolding evidence_note_def sample_opens by (simp add: sample_subject sample_hash)

definition evidence_repo :: repository where
  "evidence_repo =
     sample_repo\<lparr>rp_notes := (\<lambda>c. if c = ''a1'' then Inr [(''n1'', sample_note)]
       else if c = ''a2'' then Inr [(''n1'', sample_note), (''n2'', sample_note)] else Inl NoNotes)\<rparr>"

definition evidence_ref :: string where
  "evidence_ref = attestationPrefix @ sample_digest @ ''/'' @ sample_keyHash"

lemma evidence_allowed:
  assumes "evidence_write ver (bare_policy repo known) \<lparr>up_old = old, up_new = c, up_ref = evidence_ref\<rparr>"
  shows "decide ver (bare_policy repo known) who \<lparr>up_old = old, up_new = c, up_ref = evidence_ref\<rparr> = None"
  using assms
  by (simp add: decided write_allowed_def name_free_def closed_ref_def named_like_another_def namespace_rule_def evidence_ref_def
      attestationPrefix_def)

lemma sample_evidence_name: "attestation_name sample_digest sample_keyHash"
  by (simp add: attestation_name_def sample_digest_def sample_keyHash_def list_all_iff is_lower_hex_def byte_val_def)

lemma sample_evidence_reach:
  "evidence_reach any_sig evidence_repo [sample_host_key] evidence_ref [''a1'', ''a2'']"
proof -
  let ?p = "bare_policy evidence_repo [sample_host_key]"
  have pre: "has_prefix evidence_ref attestationPrefix" by (simp add: evidence_ref_def)
  have z: "isZero zeros" by (simp add: zeros_def isZero_def list_all_iff)
  have about: "notes_about any_sig ?p sample_digest sample_keyHash nts" if "\<forall>x \<in> set nts. snd x = sample_note" for nts
    using that sample_evidence by (auto simp: notes_about_def)
  have "evidence_write any_sig ?p \<lparr>up_old = zeros, up_new = ''a1'', up_ref = evidence_ref\<rparr>"
    unfolding evidence_write_def using z sample_evidence_name about
    by (intro conjI exI [of _ sample_digest] exI [of _ sample_keyHash] exI [of _ "[(''n1'', sample_note)]"])
      (simp_all add: evidence_ref_def evidence_repo_def isZero_def)
  then have "evidence_reach any_sig evidence_repo [sample_host_key] evidence_ref [''a1'']"
    using evidence_reach.created [OF pre _ _ z evidence_allowed] by simp
  moreover have "evidence_write any_sig ?p \<lparr>up_old = ''a1'', up_new = ''a2'', up_ref = evidence_ref\<rparr>"
    unfolding evidence_write_def using sample_evidence_name about
    by (intro conjI exI [of _ sample_digest] exI [of _ sample_keyHash]
        exI [of _ "[(''n1'', sample_note), (''n2'', sample_note)]"])
      (simp_all add: evidence_ref_def evidence_repo_def isZero_def notes_grow_def)
  ultimately show ?thesis
    using evidence_reach.updated [OF _ _ _ evidence_allowed, of any_sig evidence_repo "[sample_host_key]" "[''a1'']" ] by simp
qed

theorem evidence_only_grows_witness:
  "\<exists>digest keyHash. evidence_ref = attestationPrefix @ digest @ ''/'' @ keyHash \<and> attestation_name digest keyHash \<and>
    evidence_hist any_sig evidence_repo [sample_host_key] digest keyHash [''a1'', ''a2'']"
proof (rule evidence_only_grows [OF sample_evidence_reach])
  show "notes_mapped evidence_repo"
    by (auto simp: notes_mapped_def notes_of_def evidence_repo_def)
qed

end
