(* ===== verification/Landing.thy ===== *)
theory Landing
  imports ChangeId Sha256 "HOL-Library.Multiset"
begin

text \<open>
  \<^verbatim>\<open>change/landing.go\<close> and \<^verbatim>\<open>change/evidence.go\<close>: the record that one head landed, the paths and
  the fingerprint of evidence, and the choice of the note each check is judged by.
\<close>

section \<open>Landing records\<close>

definition LandingPrefix :: string where "LandingPrefix = ''refs/the-valley/integration-landings/''"
definition LandingFile :: string where "LandingFile = ''landing''"

definition LandingRef :: "string \<Rightarrow> string \<Rightarrow> string" where
  "LandingRef target head = LandingPrefix @ target @ ''/'' @ head"

record Landing =
  ln_Landed :: string
  ln_Request :: string
  ln_Head :: string

definition FormatLanding :: "Landing \<Rightarrow> string" where
  "FormatLanding l =
     ''landed '' @ ln_Landed l @ CHR 0x0A # ''request '' @ ln_Request l @ CHR 0x0A # ''head '' @ ln_Head l @ [CHR 0x0A]"

definition isObjectID :: "string \<Rightarrow> bool" where
  "isObjectID s \<longleftrightarrow>
     (if length s \<noteq> 40 \<and> length s \<noteq> 64 then False
      else \<not> list_ex (\<lambda>c. (byte_val c < byte_val CHR ''0'' \<or> byte_val c > byte_val CHR ''9'') \<and>
             (byte_val c < byte_val CHR ''a'' \<or> byte_val c > byte_val CHR ''f'')) s)"

datatype landing_error =
    LandingLines
  | LandingLine nat string
  | LandingIDs

text \<open>A value on a line of the file: not empty, and no rune of it a space or a control character.\<close>

definition landing_value :: "nat \<Rightarrow> string \<Rightarrow> string \<Rightarrow> (landing_error, string) result" where
  "landing_value i key line =
     (case cut_prefix line (key @ '' '') of
        None \<Rightarrow> Inl (LandingLine i key)
      | Some v \<Rightarrow>
          if v = [] \<or> list_ex (\<lambda>r. r \<le> 32 \<or> r = 127) (runes v) then Inl (LandingLine i key) else Inr v)"

definition ParseLanding :: "string \<Rightarrow> (landing_error, Landing) result" where
  "ParseLanding data =
     (let lines = split_byte (CHR 0x0A) data
      in if length lines \<noteq> 4 \<or> lines ! 3 \<noteq> [] then Inl LandingLines
         else
           rbind (landing_value 1 ''landed'' (lines ! 0)) (\<lambda>landed.
           rbind (landing_value 2 ''request'' (lines ! 1)) (\<lambda>request.
           rbind (landing_value 3 ''head'' (lines ! 2)) (\<lambda>head.
             if \<not> isObjectID landed \<or> \<not> isObjectID head then Inl LandingIDs
             else Inr \<lparr>ln_Landed = landed, ln_Request = request, ln_Head = head\<rparr>))))"

section \<open>Evidence\<close>

definition AttestationRefs :: string where "AttestationRefs = ''refs/the-valley/attestations/''"
definition TransferDir :: string where "TransferDir = ''transfer.d''"
definition TransferNote :: string where "TransferNote = ''transfer.note''"

text \<open>\<^verbatim>\<open>commit[:2]\<close> and its fellows panic on a commit of fewer than four bytes.\<close>

definition TransferPath :: "string \<Rightarrow> string option" where
  "TransferPath commit =
     (if length commit < 4 then None
      else Some (TransferDir @ ''/'' @ take 2 commit @ ''/'' @ take 2 (drop 2 commit) @ ''/'' @ drop 4 commit @ ''.note''))"

definition EvidenceFingerprint :: "string list \<Rightarrow> string" where
  "EvidenceFingerprint attestations =
     take 16 (hex_encode (sha256 (concat (map (\<lambda>line. line @ [CHR 0x0A]) (sort attestations)))))"

text \<open>The loop of \<^verbatim>\<open>SelectNotes\<close>; a check and what a note verifies as are functions, as in the code.\<close>

fun select_notes :: "('n \<Rightarrow> string) \<Rightarrow> ('n \<Rightarrow> bool) \<Rightarrow> (string \<rightharpoonup> 'n) \<Rightarrow> 'n list \<Rightarrow> (string \<rightharpoonup> 'n)" where
  "select_notes check verifies picked [] = picked"
| "select_notes check verifies picked (n # ns) =
     (case picked (check n) of
        Some old \<Rightarrow>
          if verifies old then select_notes check verifies picked ns
          else select_notes check verifies (picked(check n \<mapsto> n)) ns
      | None \<Rightarrow> select_notes check verifies (picked(check n \<mapsto> n)) ns)"

definition SelectNotes :: "'n list \<Rightarrow> ('n \<Rightarrow> string) \<Rightarrow> ('n \<Rightarrow> bool) \<Rightarrow> (string \<rightharpoonup> 'n)" where
  "SelectNotes ns check verifies = select_notes check verifies Map.empty ns"

section \<open>What is read of a landing record is what was written\<close>

lemma isObjectID_iff: "isObjectID s \<longleftrightarrow> (length s = 40 \<or> length s = 64) \<and> (\<forall>c \<in> set s. is_lower_hex c)"
  by (auto simp: isObjectID_def list_ex_iff is_lower_hex_def byte_val_def not_less)

definition request_word :: "string \<Rightarrow> bool" where
  "request_word v \<longleftrightarrow> v \<noteq> [] \<and> \<not> list_ex (\<lambda>r. r \<le> 32 \<or> r = 127) (runes v)"

definition landing_ok :: "Landing \<Rightarrow> bool" where
  "landing_ok l \<longleftrightarrow> isObjectID (ln_Landed l) \<and> isObjectID (ln_Head l) \<and> request_word (ln_Request l)"

lemma ascii_in_runes: "c \<in> set s \<Longrightarrow> byte_val c < 128 \<Longrightarrow> byte_val c \<in> set (runes s)"
proof -
  assume c: "c \<in> set s" "byte_val c < 128"
  then obtain w where w: "w \<in> set (chunks s)" "c \<in> set w"
    using concat_chunks [of s] by (metis UN_E set_concat)
  have "w = [c]"
    using chunk_cases [OF w(1)] w(2) c(2) rune_not_ascii [of w c]
    by (cases w rule: remdups_adj.cases) (auto simp: not_less)
  then have "rune_of w = byte_val c" using c(2) by (simp add: rune_of_def)
  then show ?thesis using w(1) by (force simp: runes_def)
qed

lemma request_no_newline: "request_word v \<Longrightarrow> CHR 0x0A \<notin> set v"
  using ascii_in_runes [of "CHR 0x0A" v] by (fastforce simp: request_word_def list_ex_iff byte_val_def)

lemma hex_word: "isObjectID s \<Longrightarrow> request_word s"
proof -
  assume o: "isObjectID s"
  then have a: "\<forall>c \<in> set s. byte_val c < 128 \<and> 48 \<le> byte_val c \<and> byte_val c \<le> 102"
    by (auto simp: isObjectID_iff is_lower_hex_def)
  then have "runes s = map byte_val s" by (simp add: runes_def chunks_all_ascii rune_of_def)
  then show ?thesis using a o by (fastforce simp: request_word_def list_ex_iff isObjectID_iff)
qed

lemma landing_value_iff: "landing_value i key line = Inr v \<longleftrightarrow> line = key @ '' '' @ v \<and> request_word v"
proof (cases "cut_prefix line (key @ '' '')")
  case None
  moreover have "line \<noteq> key @ '' '' @ v" using cut_prefix_append [of "key @ '' ''" v] None
    by (metis append_assoc option.distinct(1))
  ultimately show ?thesis by (simp add: landing_value_def)
next
  case (Some w)
  then have e: "line = (key @ '' '') @ w" by simp
  show ?thesis unfolding landing_value_def Some by (auto simp: e request_word_def)
qed

lemma four_lines:
  "length (split_byte c data) = 4 \<and> split_byte c data ! 3 = [] \<and> P (split_byte c data ! 0) (split_byte c data ! 1) (split_byte c data ! 2) \<longleftrightarrow>
   (\<exists>x y z. data = x @ c # y @ c # z @ [c] \<and> c \<notin> set x \<and> c \<notin> set y \<and> c \<notin> set z \<and> P x y z)" (is "?l \<longleftrightarrow> ?r")
proof
  assume l: ?l
  then obtain x y z where e: "split_byte c data = [x, y, z, []]"
    by (auto simp: eval_nat_numeral length_Suc_conv)
  then have "data = x @ c # y @ c # z @ [c]"
    using join_split_byte [of c data] by simp
  moreover have "c \<notin> set x \<and> c \<notin> set y \<and> c \<notin> set z"
    using split_byte_no_sep [of _ c data] e by auto
  ultimately show ?r using l e by auto
next
  assume ?r
  then show ?l by (auto simp: split_byte_append)
qed

lemma parse_landing: "ParseLanding data = Inr l \<longleftrightarrow> landing_ok l \<and> data = FormatLanding l"
proof -
  let ?P = "\<lambda>x y z. x = ''landed '' @ ln_Landed l \<and> y = ''request '' @ ln_Request l \<and> z = ''head '' @ ln_Head l \<and> landing_ok l"
  have r: "(l = \<lparr>ln_Landed = a, ln_Request = b, ln_Head = c\<rparr>) \<longleftrightarrow> ln_Landed l = a \<and> ln_Request l = b \<and> ln_Head l = c" for a b c
    by (cases l) auto
  have "ParseLanding data = Inr l \<longleftrightarrow>
      length (split_byte (CHR 0x0A) data) = 4 \<and> split_byte (CHR 0x0A) data ! 3 = [] \<and>
      ?P (split_byte (CHR 0x0A) data ! 0) (split_byte (CHR 0x0A) data ! 1) (split_byte (CHR 0x0A) data ! 2)"
    by (auto simp: ParseLanding_def Let_def rbind_eq_Inr landing_value_iff landing_ok_def r hex_word eq_commute [of _ l])
  also have "\<dots> \<longleftrightarrow> landing_ok l \<and> data = FormatLanding l"
  proof -
    have n: "landing_ok l \<Longrightarrow> CHR 0x0A \<notin> set (ln_Landed l) \<union> set (ln_Request l) \<union> set (ln_Head l)"
      using request_no_newline hex_word by (auto simp: landing_ok_def)
    show ?thesis
      unfolding four_lines [of "CHR 0x0A" data ?P] FormatLanding_def using n by auto
  qed
  finally show ?thesis .
qed

interpretation ld: strict_codec FormatLanding ParseLanding landing_ok
  by unfold_locales (auto simp: parse_landing)

text \<open>
  A landing file is read exactly when it is what the writer writes of a record whose commits
  are full lowercase object IDs and whose request name is a word: so what is read is what was
  recorded, and no two files record the same landing.
\<close>

theorem ParseLanding_iff: "ParseLanding data = Inr l \<longleftrightarrow> landing_ok l \<and> FormatLanding l = data"
  by (rule ld.accepted_iff)

section \<open>Evidence has one path and one fingerprint\<close>

lemma TransferPath_inj:
  assumes "TransferPath a = Some p" "TransferPath b = Some p"
  shows "a = b"
proof -
  have s: "take 2 a = take 2 b \<and> take 2 (drop 2 a) = take 2 (drop 2 b) \<and> drop 4 a = drop 4 b"
    using assms by (auto simp: TransferPath_def split: if_splits)
  have "c = take 2 c @ take 2 (drop 2 c) @ drop 4 c" for c :: string
    by (metis add_2_eq_Suc' append_take_drop_id drop_drop numeral_2_eq_2 numeral_Bit0)
  then show ?thesis using s by metis
qed

lemma fingerprint_order: "mset xs = mset ys \<Longrightarrow> EvidenceFingerprint xs = EvidenceFingerprint ys"
  by (simp add: EvidenceFingerprint_def properties_for_sort [of "sort ys" xs])

section \<open>The note a check is judged by\<close>

definition judged_by :: "('n \<Rightarrow> bool) \<Rightarrow> 'n list \<Rightarrow> 'n option" where
  "judged_by verifies ns =
     (case find verifies ns of
        Some n \<Rightarrow> Some n
      | None \<Rightarrow> if ns = [] then None else Some (last ns))"

lemma select_notes_eq:
  "select_notes check verifies picked ns name =
     (case picked name of
        Some old \<Rightarrow> judged_by verifies (old # filter (\<lambda>n. check n = name) ns)
      | None \<Rightarrow> judged_by verifies (filter (\<lambda>n. check n = name) ns))"
  by (induction ns arbitrary: picked) (auto simp: judged_by_def split: option.splits)

text \<open>
  C30: each check is judged by the first of its notes that verifies, whatever comes after it,
  and by the last of its notes where none verifies; a check with no note is judged by none.
\<close>

theorem SelectNotes_eq:
  "SelectNotes ns check verifies name = judged_by verifies (filter (\<lambda>n. check n = name) ns)"
  by (simp add: SelectNotes_def select_notes_eq)

end
