(* ===== verification/SignerProjects.thy ===== *)
theory SignerProjects
  imports Note
begin

text \<open>
  \<^verbatim>\<open>note/signerprojects.go\<close>: the file that says, for the signers it names, in which projects their
  evidence counts.
\<close>

type_synonym SignerProjects = "string \<rightharpoonup> string set"

datatype projects_error =
    WordByte char
  | WordName name_error
  | NamedTwice string

text \<open>The words of a line: what stands between its spaces and is not empty.\<close>

definition line_words :: "string \<Rightarrow> string list" where
  "line_words line = filter (\<lambda>w. w \<noteq> []) (split_byte (CHR '' '') line)"

definition checkWord :: "string \<Rightarrow> (projects_error, unit) result" where
  "checkWord w =
     (case find (\<lambda>c. byte_val c \<le> byte_val CHR '' '' \<or> byte_val c > byte_val CHR ''~'') w of
        Some c \<Rightarrow> Inl (WordByte c)
      | None \<Rightarrow> Inr ())"

fun projects_lines :: "SignerProjects \<Rightarrow> nat \<Rightarrow> string list \<Rightarrow> (nat \<times> projects_error, SignerProjects) result" where
  "projects_lines s i [] = Inr s"
| "projects_lines s i (line # ls) =
     (case line_words line of
        [] \<Rightarrow> projects_lines s (i + 1) ls
      | name # projects \<Rightarrow>
          if has_prefix name ''#'' then projects_lines s (i + 1) ls
          else
            rbind (rmap_err (Pair i) (check_all checkWord (name # projects))) (\<lambda>_.
            rbind (rmap_err (\<lambda>e. (i, WordName e)) (CheckName name)) (\<lambda>_.
              if s name \<noteq> None then Inl (i, NamedTwice name)
              else projects_lines (s(name \<mapsto> set projects)) (i + 1) ls)))"

definition ParseSignerProjects :: "string \<Rightarrow> (nat \<times> projects_error, SignerProjects) result" where
  "ParseSignerProjects data = projects_lines Map.empty 1 (split_byte (CHR 0x0A) data)"

definition Counts :: "SignerProjects \<Rightarrow> string \<Rightarrow> string \<Rightarrow> bool" where
  "Counts s name project \<longleftrightarrow> (case s name of None \<Rightarrow> True | Some projects \<Rightarrow> project \<in> projects)"

definition Restricts :: "SignerProjects \<Rightarrow> string \<Rightarrow> bool" where
  "Restricts s name \<longleftrightarrow> s name \<noteq> None"

section \<open>The lines that name a signer\<close>

definition signer_line :: "string \<Rightarrow> (string \<times> string list) option" where
  "signer_line line =
     (case line_words line of
        [] \<Rightarrow> None
      | name # projects \<Rightarrow> if has_prefix name ''#'' then None else Some (name, projects))"

definition signer_lines :: "string \<Rightarrow> (string \<times> string list) list" where
  "signer_lines data = List.map_filter signer_line (split_byte (CHR 0x0A) data)"

definition printable_word :: "string \<Rightarrow> bool" where
  "printable_word w \<longleftrightarrow> list_all (\<lambda>c. 32 < byte_val c \<and> byte_val c \<le> 126) w"

definition entry_ok :: "string \<times> string list \<Rightarrow> bool" where
  "entry_ok e \<longleftrightarrow> printable_word (fst e) \<and> CHR ''+'' \<notin> set (fst e) \<and> list_all printable_word (snd e)"

lemma checkWord_iff: "checkWord w = Inr () \<longleftrightarrow> printable_word w"
proof -
  have b: "byte_val CHR '' '' = 32" "byte_val CHR ''~'' = 126" by (simp_all add: byte_val_def)
  show ?thesis
    unfolding checkWord_def printable_word_def list_all_iff b
    by (auto simp: find_None_iff not_less not_le split: option.splits dest: find_SomeD)
qed

lemma signer_line_nonempty: "signer_line line = Some (name, ps) \<Longrightarrow> name \<noteq> []"
proof -
  assume "signer_line line = Some (name, ps)"
  then have "name \<in> set (line_words line)" by (auto simp: signer_line_def split: list.splits if_splits)
  then show "name \<noteq> []" by (auto simp: line_words_def)
qed

lemma printable_name: "printable_word name \<Longrightarrow> name \<noteq> [] \<Longrightarrow> CheckName name = Inr () \<longleftrightarrow> CHR ''+'' \<notin> set name"
proof -
  assume p: "printable_word name" "name \<noteq> []"
  then have a: "\<forall>c \<in> set name. byte_val c < 128" by (auto simp: printable_word_def list_all_iff)
  have r: "runes name = map byte_val name" using a by (auto simp: runes_def chunks_all_ascii rune_of_def)
  have "\<forall>n \<in> set (map byte_val name). \<not> is_space_rune n \<and> \<not> is_control_rune n"
    using p by (auto simp: printable_word_def list_all_iff is_space_rune_def is_control_rune_def)
  then show ?thesis
    using p utf8_valid_all_ascii [OF a] r by (auto simp: CheckName_def list_ex_iff)
qed

lemma lines_iff:
  "projects_lines s i ls = Inr t \<longleftrightarrow>
     (let es = List.map_filter signer_line ls
      in list_all entry_ok es \<and> distinct (map fst es) \<and> (\<forall>e \<in> set es. s (fst e) = None) \<and>
         t = s ++ map_of (map (\<lambda>e. (fst e, set (snd e))) es))"
proof (induction ls arbitrary: s i)
  case (Cons line ls)
  show ?case
  proof (cases "signer_line line")
    case None
    then have "projects_lines s i (line # ls) = projects_lines s (i + 1) ls"
      by (auto simp: signer_line_def split: list.splits if_splits)
    then show ?thesis using Cons None by (simp add: map_filter_simps)
  next
    case (Some e)
    obtain name ps where e: "e = (name, ps)" by (cases e) auto
    have w: "line_words line = name # ps" "\<not> has_prefix name ''#''"
      using Some e by (auto simp: signer_line_def split: list.splits if_splits)
    have c: "check_all checkWord (name # ps) = Inr () \<longleftrightarrow> printable_word name \<and> list_all printable_word ps"
      by (auto simp: check_all_ok checkWord_iff list_all_iff rbind_eq_Inr simp del: check_all.simps)
    let ?es = "List.map_filter signer_line ls"
    have "projects_lines s i (line # ls) = Inr t \<longleftrightarrow>
        entry_ok e \<and> s name = None \<and> projects_lines (s(name \<mapsto> set ps)) (i + 1) ls = Inr t"
      using w c printable_name [of name] signer_line_nonempty [OF Some [unfolded e]]
      by (auto simp: rbind_eq_Inr rmap_err_eq_Inr entry_ok_def e simp del: check_all.simps)
    also have "\<dots> \<longleftrightarrow> list_all entry_ok (e # ?es) \<and> distinct (map fst (e # ?es)) \<and> (\<forall>e \<in> set (e # ?es). s (fst e) = None) \<and>
         t = s ++ map_of (map (\<lambda>e. (fst e, set (snd e))) (e # ?es))"
    proof -
      have m: "name \<notin> fst ` set ?es \<Longrightarrow> s(name \<mapsto> set ps) ++ map_of (map (\<lambda>e. (fst e, set (snd e))) ?es) =
          s ++ map_of (map (\<lambda>e. (fst e, set (snd e))) (e # ?es))"
        by (rule ext) (force simp: map_add_def e image_iff split: option.split dest: map_of_SomeD)
      show ?thesis unfolding Cons.IH Let_def using m by (auto simp: e image_iff)
    qed
    finally show ?thesis using Some by (simp add: map_filter_simps)
  qed
qed (auto simp: map_filter_simps)

text \<open>
  C33: the file is read exactly when every line that names a signer is of printable words, the
  name holds no plus and is on one line only; and then it restricts the signers it names and no
  other, each to the projects on its line.
\<close>

theorem ParseSignerProjects_iff:
  "ParseSignerProjects data = Inr s \<longleftrightarrow>
     list_all entry_ok (signer_lines data) \<and> distinct (map fst (signer_lines data)) \<and>
     s = map_of (map (\<lambda>e. (fst e, set (snd e))) (signer_lines data))"
  unfolding ParseSignerProjects_def lines_iff signer_lines_def by (simp add: Let_def)

lemma unnamed_counts: "\<not> Restricts s name \<Longrightarrow> Counts s name project"
  by (simp add: Restricts_def Counts_def split: option.split)

end
