(* ===== verification/Telemetry.thy ===== *)
theory Telemetry
  imports GoJson "HOL-Library.Multiset"
begin

text \<open>
  \<^verbatim>\<open>telemetry/protocol.go\<close>, and the text a reader is shown (\<^verbatim>\<open>Sanitize\<close>, \<^verbatim>\<open>clip\<close>) of
  \<^verbatim>\<open>telemetry/record.go\<close>: the closed grammar of the telemetry command, the request it reads as,
  its writing back as a command, what the collector holds a request to, and the cursors that say
  how far a reader has read. The JSON line a request travels in is left out.
\<close>

section \<open>Names and numbers\<close>

definition CommandName :: string where "CommandName = ''valley-telemetry''"
definition OpSources :: string where "OpSources = ''sources''"
definition OpSnapshot :: string where "OpSnapshot = ''snapshot''"
definition OpRead :: string where "OpRead = ''read''"
definition OpFollow :: string where "OpFollow = ''follow''"
definition OpReport :: string where "OpReport = ''report''"
definition GrantObserve :: string where "GrantObserve = ''observe''"
definition GrantReport :: string where "GrantReport = ''report''"

definition DefaultReadLimit :: int where "DefaultReadLimit = 200"
definition MaxReadLimit :: int where "MaxReadLimit = 1000"
definition DefaultFollowSeconds :: int where "DefaultFollowSeconds = 60"
definition MaxFollowSeconds :: int where "MaxFollowSeconds = 300"
definition MaxCommandBytes :: nat where "MaxCommandBytes = 4096"

definition lower_digit :: "char \<Rightarrow> bool" where
  "lower_digit c \<longleftrightarrow> 97 \<le> byte_val c \<and> byte_val c \<le> 122 \<or> is_digit c"

definition source_byte :: "char \<Rightarrow> bool" where
  "source_byte c \<longleftrightarrow> lower_digit c \<or> c \<in> {CHR ''.'', CHR ''_'', CHR ''@'', CHR ''-''}"

definition alnum :: "char \<Rightarrow> bool" where
  "alnum c \<longleftrightarrow> lower_digit c \<or> 65 \<le> byte_val c \<and> byte_val c \<le> 90"

text \<open>The expressions \<^verbatim>\<open>sourceRE\<close>, \<^verbatim>\<open>principalRE\<close> and \<^verbatim>\<open>cursorRE\<close>, each anchored at both ends.\<close>

definition ValidSource :: "string \<Rightarrow> bool" where
  "ValidSource s \<longleftrightarrow> s \<noteq> [] \<and> lower_digit (hd s) \<and> length (tl s) \<le> 95 \<and> list_all source_byte (tl s)"

definition ValidObserver :: "string \<Rightarrow> bool" where
  "ValidObserver s \<longleftrightarrow> s \<noteq> [] \<and> alnum (hd s) \<and> length (tl s) \<le> 127 \<and>
     list_all (\<lambda>c. alnum c \<or> c \<in> {CHR ''.'', CHR ''_'', CHR ''-''}) (tl s)"

definition re_cursor :: "string \<Rightarrow> bool" where
  "re_cursor p \<longleftrightarrow>
     (case cut_byte p (CHR ''='') of
        None \<Rightarrow> False
      | Some (name, rest) \<Rightarrow>
          1 \<le> length name \<and> length name \<le> 96 \<and> list_all source_byte name \<and>
          (case cut_byte rest (CHR '':'') of
             None \<Rightarrow> False
           | Some (epoch, sq) \<Rightarrow>
               length epoch = 16 \<and> list_all is_lower_hex epoch \<and>
               1 \<le> length sq \<and> length sq \<le> 18 \<and> list_all is_digit sq))"

definition IsCommand :: "string \<Rightarrow> bool" where
  "IsCommand cmd \<longleftrightarrow> has_prefix cmd CommandName"

text \<open>\<^verbatim>\<open>strconv.Atoi\<close>: an optional sign and digits, within 64 bits.\<close>

definition go_atoi :: "string \<Rightarrow> int option" where
  "go_atoi s =
     (let neg = has_prefix s ''-''; ds = (if neg \<or> has_prefix s ''+'' then tl s else s);
          n = (if neg then - int (decimal ds) else int (decimal ds))
      in if ds = [] \<or> \<not> list_all is_digit ds \<or> n < - (2 ^ 63) \<or> n > 2 ^ 63 - 1 then None else Some n)"

definition go_itoa :: "int \<Rightarrow> string" where
  "go_itoa n = (if n < 0 then CHR ''-'' # itoa (nat (- n)) else itoa (nat n))"

section \<open>Cursors\<close>

text \<open>A cursor's positions, in the order they were read; \<^verbatim>\<open>String\<close> writes them by name.\<close>

type_synonym Position = "string \<times> nat"
type_synonym Cursor = "(string \<times> Position) list"

datatype command_error =
    CommandTooLong
  | CommandCharacter
  | CommandUsage
  | NotOperation string
  | NotFlag string
  | FlagUnknown string string
  | FlagTwice string
  | LogsValue
  | FlagValue string
  | NotSource string
  | NotCursor string
  | CursorStreams
  | CursorTwice string
  | NotNumber string string

text \<open>
  \<^verbatim>\<open>ParseInt\<close> of at most eighteen digits does not fail, so its error is no branch here.
\<close>

definition cursor_part :: "string \<Rightarrow> (string \<times> Position) option" where
  "cursor_part p =
     (if \<not> re_cursor p then None
      else
        case cut_byte p (CHR ''='') of
          None \<Rightarrow> None
        | Some (name, rest) \<Rightarrow>
            (case cut_byte rest (CHR '':'') of
               None \<Rightarrow> None
             | Some (epoch, sq) \<Rightarrow> Some (name, (epoch, decimal sq))))"

fun cursor_parts :: "Cursor \<Rightarrow> string list \<Rightarrow> (command_error, Cursor) result" where
  "cursor_parts c [] = Inr c"
| "cursor_parts c (p # ps) =
     (case cursor_part p of
        None \<Rightarrow> Inl (NotCursor p)
      | Some (name, pos) \<Rightarrow>
          if name \<in> set (map fst c) then Inl (CursorTwice name)
          else cursor_parts (c @ [(name, pos)]) ps)"

definition ParseCursor :: "string \<Rightarrow> (command_error, Cursor) result" where
  "ParseCursor s =
     (if s = [] then Inr []
      else
        let parts = split_byte (CHR '','') s
        in if length parts > 64 then Inl CursorStreams else cursor_parts [] parts)"

definition position_text :: "string \<times> Position \<Rightarrow> string" where
  "position_text e = (case e of (name, (epoch, n)) \<Rightarrow> name @ ''='' @ epoch @ '':'' @ itoa n)"

definition CursorString :: "Cursor \<Rightarrow> string" where
  "CursorString c = join_str '','' (map position_text (sort_key fst c))"

section \<open>Requests\<close>

record Request =
  rq_V :: int
  rq_Principal :: string
  rq_Op :: string
  rq_Source :: string
  rq_Cursor :: string
  rq_Limit :: int
  rq_Seconds :: int
  rq_Logs :: bool

definition Grant :: "Request \<Rightarrow> string" where
  "Grant r = (if rq_Op r = OpReport then GrantReport else GrantObserve)"

definition opFlags :: "string \<Rightarrow> string list option" where
  "opFlags op =
     (if op = OpSources then Some []
      else if op = OpSnapshot then Some []
      else if op = OpRead then Some [''source'', ''since'', ''limit'', ''logs'']
      else if op = OpFollow then Some [''source'', ''since'', ''seconds'', ''logs'']
      else if op = OpReport then Some []
      else None)"

definition positive_number :: "string \<Rightarrow> int option" where
  "positive_number value =
     (case go_atoi value of
        None \<Rightarrow> None
      | Some n \<Rightarrow> if n < 1 \<or> n > 1000000 \<or> go_itoa n \<noteq> value then None else Some n)"

text \<open>One flag that takes a value, as the \<^verbatim>\<open>switch\<close> over its name stores it.\<close>

definition store_flag :: "Request \<Rightarrow> string \<Rightarrow> string \<Rightarrow> (command_error, Request) result" where
  "store_flag r name value =
     (if name = ''source'' then
        (if \<not> ValidSource value then Inl (NotSource value) else Inr (r\<lparr>rq_Source := value\<rparr>))
      else if name = ''since'' then rbind (ParseCursor value) (\<lambda>_. Inr (r\<lparr>rq_Cursor := value\<rparr>))
      else if name = ''limit'' then
        (case positive_number value of None \<Rightarrow> Inl (NotNumber name value) | Some n \<Rightarrow> Inr (r\<lparr>rq_Limit := n\<rparr>))
      else if name = ''seconds'' then
        (case positive_number value of None \<Rightarrow> Inl (NotNumber name value) | Some n \<Rightarrow> Inr (r\<lparr>rq_Seconds := n\<rparr>))
      else Inr r)"

definition cut_flag :: "string \<Rightarrow> string \<times> string \<times> bool" where
  "cut_flag w =
     (case cut_byte (drop 2 w) (CHR ''='') of
        None \<Rightarrow> (drop 2 w, [], False)
      | Some (name, value) \<Rightarrow> (name, value, True))"

fun parse_flags :: "string \<Rightarrow> string list \<Rightarrow> string list \<Rightarrow> Request \<Rightarrow> string list \<Rightarrow> (command_error, Request) result" where
  "parse_flags op allowed seen r [] = Inr r"
| "parse_flags op allowed seen r (w # ws) =
     (if \<not> has_prefix w ''--'' then Inl (NotFlag w)
      else
        case cut_flag w of
          (name, value, hasValue) \<Rightarrow>
            if name \<notin> set allowed then Inl (FlagUnknown op name)
            else if name \<in> set seen then Inl (FlagTwice name)
            else if name = ''logs'' then
              (if hasValue then Inl LogsValue else parse_flags op allowed (name # seen) (r\<lparr>rq_Logs := True\<rparr>) ws)
            else if \<not> hasValue \<or> value = [] then Inl (FlagValue name)
            else rbind (store_flag r name value) (\<lambda>r'. parse_flags op allowed (name # seen) r' ws))"

definition request0 :: Request where
  "request0 = \<lparr>rq_V = 1, rq_Principal = [], rq_Op = [], rq_Source = [], rq_Cursor = [], rq_Limit = 0,
     rq_Seconds = 0, rq_Logs = False\<rparr>"

definition ParseCommand :: "string \<Rightarrow> (command_error, Request) result" where
  "ParseCommand cmd =
     (if length cmd > MaxCommandBytes then Inl CommandTooLong
      else if list_ex (\<lambda>c. byte_val c < 0x21 \<and> c \<noteq> CHR '' '' \<or> byte_val c > 0x7e) cmd then Inl CommandCharacter
      else
        case split_byte (CHR '' '') cmd of
          w # op # ws \<Rightarrow>
            if w \<noteq> CommandName then Inl CommandUsage
            else
              (case opFlags op of
                 None \<Rightarrow> Inl (NotOperation op)
               | Some allowed \<Rightarrow> parse_flags op allowed [] (request0\<lparr>rq_Op := op\<rparr>) ws)
        | _ \<Rightarrow> Inl CommandUsage)"

definition flag_words :: "Request \<Rightarrow> string list" where
  "flag_words r =
     (if rq_Source r \<noteq> [] then [''--source='' @ rq_Source r] else []) @
     (if rq_Cursor r \<noteq> [] then [''--since='' @ rq_Cursor r] else []) @
     (if rq_Limit r > 0 then [''--limit='' @ go_itoa (rq_Limit r)] else []) @
     (if rq_Seconds r > 0 then [''--seconds='' @ go_itoa (rq_Seconds r)] else []) @
     (if rq_Logs r then [''--logs''] else [])"

definition Command :: "Request \<Rightarrow> string" where
  "Command r = join_str '' '' ([CommandName, rq_Op r] @ flag_words r)"

datatype request_error =
    RequestVersion int
  | RequestNobody
  | RequestCommand command_error
  | RequestNotAsked

definition clamp :: "Request \<Rightarrow> Request" where
  "clamp r =
     (let r = r\<lparr>rq_Limit := min (if rq_Limit r \<le> 0 then DefaultReadLimit else rq_Limit r) MaxReadLimit\<rparr>
      in r\<lparr>rq_Seconds := min (if rq_Seconds r \<le> 0 then DefaultFollowSeconds else rq_Seconds r) MaxFollowSeconds\<rparr>)"

definition CheckRequest :: "Request \<Rightarrow> (request_error, Request) result" where
  "CheckRequest r =
     (if rq_V r \<noteq> 1 then Inl (RequestVersion (rq_V r))
      else if \<not> ValidObserver (rq_Principal r) then Inl RequestNobody
      else
        rbind (rmap_err RequestCommand (ParseCommand (Command r))) (\<lambda>parsed.
          if parsed\<lparr>rq_Principal := rq_Principal r\<rparr> \<noteq> r then Inl RequestNotAsked else Inr (clamp r)))"

section \<open>Text that is safe to show\<close>

text \<open>\<^verbatim>\<open>%02x\<close> of a rune: at least two hex digits.\<close>

fun hex_nat :: "nat \<Rightarrow> string" where
  "hex_nat n = (if n < 16 then [hex_digit n] else hex_nat (n div 16) @ [hex_digit (n mod 16)])"

declare hex_nat.simps [simp del]

definition hex02 :: "nat \<Rightarrow> string" where
  "hex02 n = (if n < 16 then CHR ''0'' # hex_nat n else hex_nat n)"

definition sanitize_chunk :: "string \<Rightarrow> string" where
  "sanitize_chunk w =
     (let r = rune_of w
      in if r = 65533 \<and> length w \<le> 1 then backslash # ''ufffd''
         else if r = 10 \<or> r = 9 then utf8_encode r
         else if r < 0x20 \<or> r = 0x7f \<or> r \<ge> 0x80 \<and> r < 0xa0 \<or> r = 0x2028 \<or> r = 0x2029 then backslash # CHR ''x'' # hex02 r
         else w)"

definition Sanitize :: "string \<Rightarrow> string" where
  "Sanitize s = concat (map sanitize_chunk (chunks s))"

text \<open>\<^verbatim>\<open>clip\<close>: what an error quotes back, the ellipsis being one rune of three bytes.\<close>

definition clip :: "string \<Rightarrow> string" where
  "clip s = (if length s > 40 then take 40 s @ [CHR 0xE2, CHR 0x80, CHR 0xA6] else s)"

section \<open>Numbers and cursors are plain text\<close>

lemma digit_not_sign: "is_digit c \<Longrightarrow> c \<noteq> CHR ''-'' \<and> c \<noteq> CHR ''+''"
  by (auto simp: is_digit_def byte_val_def)

lemma atoi_itoa: "m < 2 ^ 63 \<Longrightarrow> go_atoi (itoa m) = Some (int m)"
proof -
  assume m: "m < 2 ^ 63"
  obtain c cs where e: "itoa m = c # cs" by (metis itoa_nonempty neq_Nil_conv)
  have d: "is_digit c" using itoa_digits [of m] e by auto
  then have "\<not> has_prefix (itoa m) ''-''" "\<not> has_prefix (itoa m) ''+''"
    using digit_not_sign [OF d] e by (auto simp: has_prefix_def)
  then show ?thesis using m itoa_digits [of m] by (simp add: go_atoi_def list_all_iff)
qed

lemma positive_number_iff: "positive_number v = Some n \<longleftrightarrow> 1 \<le> n \<and> n \<le> 1000000 \<and> v = go_itoa n"
proof -
  have "go_atoi (go_itoa n) = Some n" if "1 \<le> n" "n \<le> 1000000"
    using atoi_itoa [of "nat n"] that by (simp add: go_itoa_def)
  then show ?thesis by (auto simp: positive_number_def split: option.splits if_splits)
qed

text \<open>A byte a command may hold that is no space.\<close>

definition plain :: "char \<Rightarrow> bool" where
  "plain c \<longleftrightarrow> 0x21 \<le> byte_val c \<and> byte_val c \<le> 0x7e"

lemma source_byte_plain: "source_byte c \<Longrightarrow> plain c"
  by (auto simp: source_byte_def lower_digit_def plain_def is_digit_def) (auto simp: byte_val_def)

lemma hex_plain: "is_lower_hex c \<Longrightarrow> plain c"
  by (auto simp: is_lower_hex_def plain_def)

lemma digit_plain: "is_digit c \<Longrightarrow> plain c"
  by (auto simp: is_digit_def plain_def)

lemma ValidSource_plain: "ValidSource s \<Longrightarrow> list_all plain s"
proof (cases s)
  case (Cons c t)
  assume "ValidSource s"
  then have "source_byte c" "list_all source_byte t" using Cons by (auto simp: ValidSource_def source_byte_def)
  then show ?thesis using Cons source_byte_plain by (auto simp: list_all_iff)
qed simp

lemma re_cursor_plain:
  assumes "re_cursor p"
  shows "list_all plain p"
proof -
  obtain name rest epoch sq where e: "cut_byte p (CHR ''='') = Some (name, rest)" "cut_byte rest (CHR '':'') = Some (epoch, sq)"
    "list_all source_byte name" "list_all is_lower_hex epoch" "list_all is_digit sq"
    using assms by (auto simp: re_cursor_def simp del: cut_byte_None split: option.splits)
  then have "p = name @ CHR ''='' # epoch @ CHR '':'' # sq" by (simp add: cut_byte_Some)
  then show ?thesis
    using e(3-5) source_byte_plain hex_plain digit_plain
    by (auto simp: list_all_iff) (simp_all add: plain_def byte_val_def)
qed

lemma cursor_parts_plain: "cursor_parts c ps = Inr d \<Longrightarrow> p \<in> set ps \<Longrightarrow> re_cursor p"
  by (induction c ps rule: cursor_parts.induct) (auto simp: cursor_part_def split: option.splits if_splits)

lemma ParseCursor_plain:
  assumes "ParseCursor s = Inr c"
  shows "list_all plain s"
proof -
  have "list_all plain (join_str [CHR '',''] ps)" if "\<forall>p \<in> set ps. list_all plain p" for ps
    using that
  proof (induction ps)
    case (Cons q qs)
    then show ?case by (cases qs) (auto simp: plain_def byte_val_def)
  qed simp
  moreover have "\<forall>p \<in> set (split_byte (CHR '','') s). list_all plain p" if "s \<noteq> []"
    using assms that cursor_parts_plain re_cursor_plain by (auto simp: ParseCursor_def Let_def split: if_splits)
  ultimately show ?thesis by (cases "s = []") (simp, metis join_split_byte)
qed

section \<open>The requests a command asks for\<close>

definition flag_ok :: "string list \<Rightarrow> string list \<Rightarrow> string \<Rightarrow> bool \<Rightarrow> bool \<Rightarrow> bool" where
  "flag_ok allowed seen name given ok \<longleftrightarrow> (given \<longrightarrow> name \<in> set allowed \<and> name \<in> set seen \<and> ok)"

definition fits :: "string \<Rightarrow> string list \<Rightarrow> string list \<Rightarrow> Request \<Rightarrow> bool" where
  "fits op allowed seen r \<longleftrightarrow>
     rq_V r = 1 \<and> rq_Principal r = [] \<and> rq_Op r = op \<and>
     flag_ok allowed seen ''source'' (rq_Source r \<noteq> []) (ValidSource (rq_Source r)) \<and>
     flag_ok allowed seen ''since'' (rq_Cursor r \<noteq> []) (\<exists>c. ParseCursor (rq_Cursor r) = Inr c) \<and>
     flag_ok allowed seen ''limit'' (rq_Limit r \<noteq> 0) (1 \<le> rq_Limit r \<and> rq_Limit r \<le> 1000000) \<and>
     flag_ok allowed seen ''seconds'' (rq_Seconds r \<noteq> 0) (1 \<le> rq_Seconds r \<and> rq_Seconds r \<le> 1000000) \<and>
     flag_ok allowed seen ''logs'' (rq_Logs r) True"

lemma cut_flag_value: "CHR ''='' \<notin> set name \<Longrightarrow> cut_flag (''--'' @ name @ CHR ''='' # value) = (name, value, True)"
proof -
  assume "CHR ''='' \<notin> set name"
  then have "cut_byte (name @ CHR ''='' # value) (CHR ''='') = Some (name, value)" by (simp add: cut_byte_Some)
  then show ?thesis by (simp add: cut_flag_def)
qed

lemma cut_flag_inv: "cut_flag w = (name, value, True) \<Longrightarrow> has_prefix w ''--'' \<Longrightarrow> w = ''--'' @ name @ CHR ''='' # value"
  by (auto simp: cut_flag_def has_prefix_iff cut_byte_Some split: option.splits)

lemma cut_flag_bare: "cut_flag w = (name, value, False) \<Longrightarrow> has_prefix w ''--'' \<Longrightarrow> w = ''--'' @ name"
  by (auto simp: cut_flag_def has_prefix_iff split: option.splits)

lemma parse_value_flag:
  assumes "CHR ''='' \<notin> set name" "name \<in> set allowed" "name \<notin> set seen" "name \<noteq> ''logs''" "value \<noteq> []"
    "store_flag r name value = Inr r'"
  shows "parse_flags op allowed seen r ((''--'' @ name @ CHR ''='' # value) # ws) = parse_flags op allowed (name # seen) r' ws"
  using assms cut_flag_value [of name "value"] by (simp add: has_prefix_def)

lemma opt_flag:
  assumes "b \<Longrightarrow> name \<in> set allowed \<and> value \<noteq> [] \<and> store_flag r name value = Inr r'" "\<not> b \<Longrightarrow> r' = r"
    "CHR ''='' \<notin> set name" "name \<notin> set seen" "name \<noteq> ''logs''"
  shows "parse_flags op allowed seen r ((if b then [''--'' @ name @ CHR ''='' # value] else []) @ ws) =
    parse_flags op allowed (if b then name # seen else seen) r' ws"
proof (cases b)
  case True
  then show ?thesis using parse_value_flag [of name allowed seen "value" r r' op ws] assms by simp
qed (use assms in simp)

lemma opt_logs:
  assumes "b \<Longrightarrow> ''logs'' \<in> set allowed" "''logs'' \<notin> set seen"
  shows "parse_flags op allowed seen r (if b then [''--logs''] else []) = Inr (if b then r\<lparr>rq_Logs := True\<rparr> else r)"
  using assms by (auto simp: has_prefix_def cut_flag_def cut_byte_def)

lemma parse_flag_words:
  assumes "fits op allowed seen r"
  shows "parse_flags op allowed [] (request0\<lparr>rq_Op := op\<rparr>) (flag_words r) = Inr r"
proof -
  let ?r0 = "request0\<lparr>rq_Op := op\<rparr>"
  let ?r1 = "?r0\<lparr>rq_Source := rq_Source r\<rparr>"
  let ?r2 = "?r1\<lparr>rq_Cursor := rq_Cursor r\<rparr>"
  let ?r3 = "?r2\<lparr>rq_Limit := rq_Limit r\<rparr>"
  let ?r4 = "?r3\<lparr>rq_Seconds := rq_Seconds r\<rparr>"
  let ?s1 = "if rq_Source r \<noteq> [] then [''source''] else []"
  let ?s2 = "if rq_Cursor r \<noteq> [] then ''since'' # ?s1 else ?s1"
  let ?s3 = "if rq_Limit r > 0 then ''limit'' # ?s2 else ?s2"
  let ?s4 = "if rq_Seconds r > 0 then ''seconds'' # ?s3 else ?s3"
  let ?E = "if rq_Logs r then [''--logs''] else []"
  let ?D = "(if rq_Seconds r > 0 then [''--'' @ ''seconds'' @ CHR ''='' # go_itoa (rq_Seconds r)] else []) @ ?E"
  let ?C = "(if rq_Limit r > 0 then [''--'' @ ''limit'' @ CHR ''='' # go_itoa (rq_Limit r)] else []) @ ?D"
  let ?B = "(if rq_Cursor r \<noteq> [] then [''--'' @ ''since'' @ CHR ''='' # rq_Cursor r] else []) @ ?C"
  let ?A = "(if rq_Source r \<noteq> [] then [''--'' @ ''source'' @ CHR ''='' # rq_Source r] else []) @ ?B"
  note f = assms [unfolded fits_def flag_ok_def]
  have a: "parse_flags op allowed [] ?r0 ?A = parse_flags op allowed ?s1 ?r1 ?B"
    by (rule opt_flag) (use f in \<open>auto simp: store_flag_def request0_def\<close>)
  have b: "\<dots> = parse_flags op allowed ?s2 ?r2 ?C"
    by (rule opt_flag) (use f in \<open>auto simp: store_flag_def request0_def\<close>)
  have c: "\<dots> = parse_flags op allowed ?s3 ?r3 ?D"
    by (rule opt_flag) (use f positive_number_iff [of "go_itoa (rq_Limit r)" "rq_Limit r"] in
        \<open>auto simp: store_flag_def request0_def go_itoa_def\<close>)
  have d: "\<dots> = parse_flags op allowed ?s4 ?r4 ?E"
    by (rule opt_flag) (use f positive_number_iff [of "go_itoa (rq_Seconds r)" "rq_Seconds r"] in
        \<open>auto simp: store_flag_def request0_def go_itoa_def\<close>)
  have e: "\<dots> = Inr (if rq_Logs r then ?r4\<lparr>rq_Logs := True\<rparr> else ?r4)"
    by (rule opt_logs) (use f in auto)
  have r: "(if rq_Logs r then ?r4\<lparr>rq_Logs := True\<rparr> else ?r4) = r"
    using f by (cases r) (auto simp: request0_def)
  have w: "flag_words r = ?A" by (simp add: flag_words_def)
  show ?thesis unfolding w a b c d e r ..
qed

definition flag_names :: "string list" where
  "flag_names = [''source'', ''since'', ''limit'', ''seconds'', ''logs'']"

lemma flag_seen: "flag_ok allowed seen name given ok \<Longrightarrow> flag_ok allowed (n # seen) name given ok"
  by (auto simp: flag_ok_def)

lemma fits_seen: "fits op allowed seen r \<Longrightarrow> fits op allowed (n # seen) r"
  by (auto simp: fits_def intro: flag_seen)

lemma store_flag_fits:
  assumes "store_flag r name v = Inr r'" "fits op allowed seen r" "name \<in> set allowed" "name \<notin> set seen"
    "name \<in> set flag_names" "name \<noteq> ''logs''" "v \<noteq> []"
  shows "fits op allowed (name # seen) r' \<and>
    mset (flag_words r') = mset (flag_words r) + {#''--'' @ name @ CHR ''='' # v#}"
proof -
  note f = assms(2) [unfolded fits_def flag_ok_def]
  consider "name = ''source''" | "name = ''since''" | "name = ''limit''" | "name = ''seconds''"
    using assms(5,6) by (auto simp: flag_names_def)
  then show ?thesis
  proof cases
    case 1
    then have r: "r' = r\<lparr>rq_Source := v\<rparr>" "ValidSource v" "rq_Source r = []"
      using assms(1,4) f by (auto simp: store_flag_def split: if_splits)
    then show ?thesis using 1 assms(3,7) f by (auto simp: fits_def flag_ok_def flag_words_def)
  next
    case 2
    then have r: "r' = r\<lparr>rq_Cursor := v\<rparr>" "\<exists>c. ParseCursor v = Inr c" "rq_Cursor r = []"
      using assms(1,4) f by (auto simp: store_flag_def rbind_eq_Inr)
    then show ?thesis using 2 assms(3,7) f by (auto simp: fits_def flag_ok_def flag_words_def)
  next
    case 3
    then obtain n where r: "r' = r\<lparr>rq_Limit := n\<rparr>" "positive_number v = Some n" "rq_Limit r = 0"
      using assms(1,4) f by (auto simp: store_flag_def split: option.splits)
    then show ?thesis using 3 assms(3) f by (auto simp: fits_def flag_ok_def flag_words_def positive_number_iff)
  next
    case 4
    then obtain n where r: "r' = r\<lparr>rq_Seconds := n\<rparr>" "positive_number v = Some n" "rq_Seconds r = 0"
      using assms(1,4) f by (auto simp: store_flag_def split: option.splits)
    then show ?thesis using 4 assms(3) f by (auto simp: fits_def flag_ok_def flag_words_def positive_number_iff)
  qed
qed

lemma logs_fits:
  assumes "fits op allowed seen r" "''logs'' \<in> set allowed" "''logs'' \<notin> set seen"
  shows "fits op allowed (''logs'' # seen) (r\<lparr>rq_Logs := True\<rparr>) \<and>
    mset (flag_words (r\<lparr>rq_Logs := True\<rparr>)) = mset (flag_words r) + {#''--logs''#}"
  using assms by (auto simp: fits_def flag_ok_def flag_words_def)

lemma parse_flags_fits:
  assumes "parse_flags op allowed seen r ws = Inr r'" "fits op allowed seen r" "set allowed \<subseteq> set flag_names"
  shows "(\<exists>seen'. fits op allowed seen' r') \<and> mset (flag_words r') = mset (flag_words r) + mset ws"
  using assms(1,2)
proof (induction ws arbitrary: seen r)
  case (Cons w ws)
  obtain name v b where c: "cut_flag w = (name, v, b)" by (cases "cut_flag w") auto
  have g: "has_prefix w ''--''" "name \<in> set allowed" "name \<notin> set seen"
    using Cons.prems(1) c by (auto split: if_splits)
  show ?case
  proof (cases "name = ''logs''")
    case True
    then have "parse_flags op allowed (name # seen) (r\<lparr>rq_Logs := True\<rparr>) ws = Inr r'" "\<not> b"
      using Cons.prems(1) c g by (auto split: if_splits)
    then show ?thesis
      using Cons.IH [of "name # seen"] logs_fits [OF Cons.prems(2)] g True cut_flag_bare [of w name v] c by auto
  next
    case False
    then obtain r1 where r1: "b" "v \<noteq> []" "store_flag r name v = Inr r1" "parse_flags op allowed (name # seen) r1 ws = Inr r'"
      using Cons.prems(1) c g by (auto simp: rbind_eq_Inr split: if_splits)
    have "name \<in> set flag_names" using assms(3) g(2) by blast
    from store_flag_fits [OF r1(3) Cons.prems(2) g(2,3) this False r1(2)] Cons.IH [OF r1(4)]
    show ?thesis using cut_flag_inv [of w name v] c r1(1) g(1) by auto
  qed
qed auto

lemma opFlags_names: "opFlags op = Some allowed \<Longrightarrow> set allowed \<subseteq> set flag_names"
  by (auto simp: opFlags_def flag_names_def split: if_splits)

definition request_ok :: "Request \<Rightarrow> bool" where
  "request_ok r \<longleftrightarrow> (\<exists>allowed seen. opFlags (rq_Op r) = Some allowed \<and> fits (rq_Op r) allowed seen r)"

lemma length_join: "ws \<noteq> [] \<Longrightarrow> length (join_str '' '' ws) + 1 = sum_list (map length ws) + length ws"
proof (induction ws)
  case (Cons w ws)
  then show ?case by (cases ws) auto
qed simp

lemma length_join_mset: "mset us = mset vs \<Longrightarrow> length (join_str '' '' us) = length (join_str '' '' vs)"
proof (cases "us = []")
  case False
  assume m: "mset us = mset vs"
  then have "vs \<noteq> []" "length us = length vs" using False by (auto dest: mset_eq_length)
  moreover have "sum_list (map length us) = sum_list (map length vs)"
    using m by (metis mset_map sum_mset_sum_list)
  ultimately show ?thesis using length_join [OF False] length_join [of vs] by simp
qed auto

lemma asked_ok:
  assumes "ParseCommand cmd = Inr r"
  shows "request_ok r \<and> length (Command r) \<le> MaxCommandBytes"
proof -
  obtain op ws allowed where s: "length cmd \<le> MaxCommandBytes" "split_byte (CHR '' '') cmd = CommandName # op # ws"
    "opFlags op = Some allowed" "parse_flags op allowed [] (request0\<lparr>rq_Op := op\<rparr>) ws = Inr r"
    using assms by (auto simp: ParseCommand_def split: if_splits list.splits option.splits)
  have "fits op allowed [] (request0\<lparr>rq_Op := op\<rparr>)" by (simp add: fits_def flag_ok_def request0_def)
  from parse_flags_fits [OF s(4) this opFlags_names [OF s(3)]]
  obtain seen where f: "fits op allowed seen r" "mset (flag_words r) = mset ws"
    by (auto simp: flag_words_def request0_def)
  then have op: "rq_Op r = op" by (simp add: fits_def)
  have "cmd = join_str '' '' ([CommandName, op] @ ws)" using join_split_byte [of "CHR '' ''" cmd] s(2) by simp
  moreover have "mset ([CommandName, rq_Op r] @ flag_words r) = mset ([CommandName, op] @ ws)" using f(2) op by simp
  ultimately have "length (Command r) = length cmd" unfolding Command_def by (metis length_join_mset)
  then show ?thesis using s(1,3) f(1) op by (auto simp: request_ok_def)
qed

lemma words_plain:
  assumes "fits op allowed seen r" "opFlags op = Some allowed"
  shows "\<forall>w \<in> set ([CommandName, op] @ flag_words r). list_all plain w"
proof -
  note f = assms(1) [unfolded fits_def flag_ok_def]
  have o: "op \<in> {OpSources, OpSnapshot, OpRead, OpFollow, OpReport}"
    using assms(2) by (auto simp: opFlags_def split: if_splits)
  have w: "list_all plain CommandName" "list_all plain op"
    using o by (auto simp: CommandName_def OpSources_def OpSnapshot_def OpRead_def OpFollow_def OpReport_def plain_def byte_val_def)
  have n: "list_all plain (go_itoa n)" if "0 \<le> n" for n
    using that itoa_digits digit_plain by (auto simp: go_itoa_def list_all_iff)
  have v: "rq_Source r \<noteq> [] \<longrightarrow> list_all plain (rq_Source r)" "rq_Cursor r \<noteq> [] \<longrightarrow> list_all plain (rq_Cursor r)"
    using f ValidSource_plain ParseCursor_plain by blast+
  show ?thesis
    using w v n [of "rq_Limit r"] n [of "rq_Seconds r"]
    by (auto simp: flag_words_def plain_def byte_val_def)
qed

lemma plain_words:
  assumes "\<forall>w \<in> set ws. list_all plain w" "ws \<noteq> []"
  shows "split_byte (CHR '' '') (join_str '' '' ws) = ws"
    and "\<not> list_ex (\<lambda>c. byte_val c < 0x21 \<and> c \<noteq> CHR '' '' \<or> byte_val c > 0x7e) (join_str '' '' ws)"
proof -
  have "CHR '' '' \<notin> set w" if "list_all plain w" for w
    using that by (auto simp: list_all_iff plain_def byte_val_def)
  then show "split_byte (CHR '' '') (join_str '' '' ws) = ws" using assms by (intro split_join_byte) auto
  have "\<forall>c \<in> set (join_str '' '' ws). plain c \<or> c = CHR '' ''"
    using assms(1)
  proof (induction ws)
    case (Cons w ws)
    then show ?case by (cases ws) (auto simp: list_all_iff)
  qed simp
  then show "\<not> list_ex (\<lambda>c. byte_val c < 0x21 \<and> c \<noteq> CHR '' '' \<or> byte_val c > 0x7e) (join_str '' '' ws)"
    by (fastforce simp: list_ex_iff plain_def byte_val_def)
qed

lemma command_parses:
  assumes "request_ok r" "length (Command r) \<le> MaxCommandBytes"
  shows "ParseCommand (Command r) = Inr r"
proof -
  obtain allowed seen where a: "opFlags (rq_Op r) = Some allowed" "fits (rq_Op r) allowed seen r"
    using assms(1) by (auto simp: request_ok_def)
  show ?thesis
    using assms(2) plain_words [OF words_plain [OF a(2,1)]] parse_flag_words [OF a(2)] a(1)
    by (simp add: ParseCommand_def Command_def)
qed

section \<open>What the collector takes\<close>

definition asked_by_a_command :: "Request \<Rightarrow> bool" where
  "asked_by_a_command r \<longleftrightarrow> (\<exists>cmd. ParseCommand cmd = Inr r)"

text \<open>
  C31: a request is read back from the command it is written as exactly when some command asks
  for it, in whatever order that command gave its flags.
\<close>

theorem Command_parses_iff: "ParseCommand (Command r) = Inr r \<longleftrightarrow> asked_by_a_command r"
  using asked_ok command_parses unfolding asked_by_a_command_def by blast

text \<open>
  The collector takes a request exactly when a command asks for it and it names a principal, and
  holds what it takes to the limits.
\<close>

lemma CheckRequest_iff:
  "CheckRequest r = Inr r' \<longleftrightarrow>
     ValidObserver (rq_Principal r) \<and> asked_by_a_command (r\<lparr>rq_Principal := []\<rparr>) \<and> r' = clamp r"
proof -
  have c: "Command (r\<lparr>rq_Principal := p\<rparr>) = Command r" for p
    by (simp add: Command_def flag_words_def)
  have v: "rq_V q = 1 \<and> rq_Principal q = []" if "ParseCommand cmd = Inr q" for cmd q
    using asked_ok [OF that] by (auto simp: request_ok_def fits_def)
  have e: "q\<lparr>rq_Principal := rq_Principal r\<rparr> = r \<longleftrightarrow> q = r\<lparr>rq_Principal := []\<rparr>" if "rq_Principal q = []" for q
    using that by (cases q; cases r) auto
  show ?thesis
  proof
    assume "CheckRequest r = Inr r'"
    then obtain q where q: "ValidObserver (rq_Principal r)" "ParseCommand (Command r) = Inr q"
      "q\<lparr>rq_Principal := rq_Principal r\<rparr> = r" "r' = clamp r"
      by (auto simp: CheckRequest_def result_simps split: if_splits)
    then show "ValidObserver (rq_Principal r) \<and> asked_by_a_command (r\<lparr>rq_Principal := []\<rparr>) \<and> r' = clamp r"
      using v [OF q(2)] e [of q] by (auto simp: asked_by_a_command_def)
  next
    assume a: "ValidObserver (rq_Principal r) \<and> asked_by_a_command (r\<lparr>rq_Principal := []\<rparr>) \<and> r' = clamp r"
    then obtain cmd where cmd: "ParseCommand cmd = Inr (r\<lparr>rq_Principal := []\<rparr>)" by (auto simp: asked_by_a_command_def)
    have "ParseCommand (Command (r\<lparr>rq_Principal := []\<rparr>)) = Inr (r\<lparr>rq_Principal := []\<rparr>)"
      using asked_ok [OF cmd] command_parses by blast
    then show "CheckRequest r = Inr r'"
      using a v [OF cmd] c by (simp add: CheckRequest_def)
  qed
qed

lemma clamp_bounds:
  "1 \<le> rq_Limit (clamp r) \<and> rq_Limit (clamp r) \<le> MaxReadLimit \<and> 1 \<le> rq_Seconds (clamp r) \<and> rq_Seconds (clamp r) \<le> MaxFollowSeconds"
  by (simp add: clamp_def Let_def DefaultReadLimit_def MaxReadLimit_def DefaultFollowSeconds_def MaxFollowSeconds_def)

section \<open>Nothing shown moves a terminal\<close>

definition shown_rune :: "nat \<Rightarrow> bool" where
  "shown_rune r \<longleftrightarrow> (is_control_rune r \<longrightarrow> r = 10 \<or> r = 9) \<and> r \<noteq> 0x2028 \<and> r \<noteq> 0x2029"

definition safe_text :: "string \<Rightarrow> bool" where
  "safe_text t \<longleftrightarrow> utf8_valid t \<and> list_all shown_rune (runes t)"

lemma safe_append: "safe_text s \<Longrightarrow> safe_text t \<Longrightarrow> safe_text (s @ t)"
  by (simp add: safe_text_def utf8_valid_append runes_def chunks_append)

lemma safe_ascii: "list_all (\<lambda>c. 32 \<le> byte_val c \<and> byte_val c < 127) s \<Longrightarrow> safe_text s"
proof (induction s)
  case (Cons c s)
  then have "safe_text [c]"
    by (simp add: safe_text_def runes_def chunks_ascii rune_of_def shown_rune_def is_control_rune_def)
  from safe_append [OF this, of s] Cons show ?case by simp
qed (simp add: safe_text_def runes_def)

lemma hex_digit_shown: "n < 16 \<Longrightarrow> 32 \<le> byte_val (hex_digit n) \<and> byte_val (hex_digit n) < 127"
  by (simp add: hex_digit_def)

lemma hex_nat_shown: "list_all (\<lambda>c. 32 \<le> byte_val c \<and> byte_val c < 127) (hex_nat n)"
proof (induction n rule: hex_nat.induct)
  case (1 n)
  then show ?case using hex_digit_shown by (subst hex_nat.simps) auto
qed

lemma sanitize_chunk_safe: "is_rune w \<or> (\<exists>c. w = [c]) \<Longrightarrow> safe_text (sanitize_chunk w)"
proof -
  assume w: "is_rune w \<or> (\<exists>c. w = [c])"
  have bs: "safe_text (backslash # ''ufffd'')" "safe_text (backslash # CHR ''x'' # hex02 n)" for n
    using hex_nat_shown [of n]
    by (intro safe_ascii; simp add: backslash_def hex02_def byte_val_def)+
  have nl: "safe_text (utf8_encode r)" if "r = 10 \<or> r = 9" for r
    using that by (auto simp: utf8_encode_def safe_text_def runes_def chunks_ascii rune_of_def shown_rune_def)
  show ?thesis
  proof (cases "is_rune w")
    case True
    then have "chunks w = [w]" using chunks_rune [of w "[]"] by simp
    then have "safe_text w" if "shown_rune (rune_of w)"
      using that True by (simp add: safe_text_def utf8_valid_def runes_def)
    then show ?thesis
      using bs nl by (auto simp: sanitize_chunk_def Let_def shown_rune_def is_control_rune_def)
  next
    case False
    then show ?thesis using w bs(1) by (auto simp: sanitize_chunk_def rune_of_def)
  qed
qed

text \<open>
  C32: whatever bytes a log holds, what is shown of it is valid UTF-8 with no control character
  but newlines and tabs and no line or paragraph separator, so it cannot move a terminal's
  cursor or end a quoted field.
\<close>

theorem Sanitize_safe: "safe_text (Sanitize s)"
proof -
  have "safe_text (concat (map sanitize_chunk ws))" if "set ws \<subseteq> set (chunks s)" for ws
    using that
  proof (induction ws)
    case (Cons w ws)
    then show ?case using sanitize_chunk_safe [of w] chunk_cases [of w s] by (auto intro: safe_append)
  qed (simp add: safe_text_def runes_def)
  then show ?thesis by (simp add: Sanitize_def)
qed

end
