(* ===== verification/HookShell.thy ===== *)
theory HookShell
  imports HookPush Telemetry
begin

text \<open>
  \<^verbatim>\<open>valleyhook/shell.go\<close>: the git user's login shell. What a session's command becomes: a refused or
  held push, a telemetry request relayed to the collector, or \<^verbatim>\<open>git-shell\<close> in an environment of the
  shell's own making. The files it reads, whether the hold file exists, where \<^verbatim>\<open>git-shell\<close> is and
  what the collector answers are parameters; the parsing of its own flags is left out.
\<close>

section \<open>The environment\<close>

text \<open>\<^verbatim>\<open>os.Getenv\<close>: the first entry of the name, or nothing.\<close>

definition env_name :: "string \<Rightarrow> string" where
  "env_name kv = (case cut_byte kv (CHR ''='') of None \<Rightarrow> kv | Some (name, _) \<Rightarrow> name)"

definition getenv :: "string list \<Rightarrow> string \<Rightarrow> string" where
  "getenv env name =
     (case find (\<lambda>kv. has_prefix kv (name @ ''='')) env of
        None \<Rightarrow> []
      | Some kv \<Rightarrow> drop (length name + 1) kv)"

definition sessionEnvironment :: "string list \<Rightarrow> string list" where
  "sessionEnvironment inherited =
     filter (\<lambda>kv. \<not> (has_prefix (env_name kv) ''GIT_'' \<or> env_name kv = ''VALLEY_PRINCIPAL'')) inherited"

section \<open>Who authenticated\<close>

fun key_field :: "string list \<Rightarrow> string" where
  "key_field (f # g # fs) =
     (if has_prefix f ''ssh-'' \<or> has_prefix f ''ecdsa-'' \<or> has_prefix f ''sk-'' then g else key_field (g # fs))"
| "key_field _ = []"

definition keyBlob :: "string \<Rightarrow> string" where
  "keyBlob line = key_field (go_fields line)"

fun auth_lines :: "string \<Rightarrow> string list \<Rightarrow> string" where
  "auth_lines found [] = found"
| "auth_lines found (l # ls) =
     (case go_fields l of
        m # _ # key # _ \<Rightarrow>
          if m \<noteq> ''publickey'' then auth_lines found ls
          else if found \<noteq> [] \<and> found \<noteq> key then []
          else auth_lines key ls
      | _ \<Rightarrow> auth_lines found ls)"

definition authenticatedKey :: "(string \<Rightarrow> host_file) \<Rightarrow> string \<Rightarrow> string" where
  "authenticatedKey file path =
     (if path = [] then []
      else
        case file path of
          Content data \<Rightarrow> auth_lines [] (split_byte (CHR 0x0A) (take (64 * 1024) data))
        | _ \<Rightarrow> [])"

text \<open>
  \<^verbatim>\<open>tagged.FindStringSubmatch\<close>: the leftmost match is at the first place the option opens, when a
  quote closes it.
\<close>

definition tag_opens :: string where "tag_opens = ''environment='' @ [CHR 0x22] @ ''VALLEY_PRINCIPAL=''"

definition tagged :: "string \<Rightarrow> string option" where
  "tagged line =
     (case index_str line tag_opens of
        None \<Rightarrow> None
      | Some i \<Rightarrow> map_option fst (cut_byte (drop (i + length tag_opens) line) (CHR 0x22)))"

text \<open>The loop over one file's lines: the first entry naming the key decides.\<close>

fun entry_lines :: "string \<Rightarrow> string list \<Rightarrow> string option" where
  "entry_lines key [] = None"
| "entry_lines key (l # ls) =
     (if keyBlob l \<noteq> key then entry_lines key ls
      else case tagged l of Some m \<Rightarrow> Some m | None \<Rightarrow> Some [])"

fun principal_files :: "(string \<Rightarrow> host_file) \<Rightarrow> string \<Rightarrow> string list \<Rightarrow> string" where
  "principal_files file key [] = []"
| "principal_files file key (path # paths) =
     (case file path of
        Content data \<Rightarrow>
          (case entry_lines key (split_byte (CHR 0x0A) data) of
             Some who \<Rightarrow> who
           | None \<Rightarrow> principal_files file key paths)
      | _ \<Rightarrow> principal_files file key paths)"

definition authenticatedPrincipal :: "(string \<Rightarrow> host_file) \<Rightarrow> string \<Rightarrow> string list \<Rightarrow> string" where
  "authenticatedPrincipal file authFile keyFiles =
     (let key = authenticatedKey file authFile
      in if key = [] then [] else principal_files file key keyFiles)"

section \<open>Pushes\<close>

definition isPush :: "string \<Rightarrow> bool" where
  "isPush command =
     (let command =
        (if length command > 3 \<and> has_prefix command ''git'' \<and>
            byte_val (command ! 3) \<in> set [32, 9, 10, 13, 11, 12]
         then ''git-'' @ drop 4 command else command)
      in has_prefix command ''git-receive-pack'')"

definition hasConverged :: "(string \<Rightarrow> host_file) \<Rightarrow> string \<Rightarrow> string \<Rightarrow> bool" where
  "hasConverged file path expect =
     (case file path of
        Content data \<Rightarrow>
          trim_space
            (case cut_byte (take 256 data) (CHR 0x0A) of
               None \<Rightarrow> take 256 data
             | Some (line, _) \<Rightarrow> line @ [CHR 0x0A]) = expect
      | _ \<Rightarrow> False)"

section \<open>Telemetry\<close>

definition MaxReportBytes :: nat where "MaxReportBytes = 2 ^ 20"

text \<open>The request as \<^verbatim>\<open>json.Marshal\<close> writes it: a member for each field that is not left out when empty.\<close>

definition html_piece :: "string \<Rightarrow> string" where
  "html_piece w =
     (if w = ''<'' then backslash # ''u003c''
      else if w = ''>'' then backslash # ''u003e''
      else if w = ''&'' then backslash # ''u0026''
      else json_piece w)"

definition marshal_string :: "string \<Rightarrow> string" where
  "marshal_string s = quotation # concat (map html_piece (chunks s)) @ [quotation]"

definition json_member :: "string \<Rightarrow> string \<Rightarrow> string" where
  "json_member name text = json_quote name @ '':'' @ text"

definition request_json :: "Request \<Rightarrow> string" where
  "request_json r =
     CHR 0x7B # join_str '',''
       ([json_member ''v'' (go_itoa (rq_V r)), json_member ''principal'' (marshal_string (rq_Principal r)),
         json_member ''op'' (marshal_string (rq_Op r))] @
        (if rq_Source r \<noteq> [] then [json_member ''source'' (marshal_string (rq_Source r))] else []) @
        (if rq_Cursor r \<noteq> [] then [json_member ''cursor'' (marshal_string (rq_Cursor r))] else []) @
        (if rq_Limit r \<noteq> 0 then [json_member ''limit'' (go_itoa (rq_Limit r))] else []) @
        (if rq_Seconds r \<noteq> 0 then [json_member ''seconds'' (go_itoa (rq_Seconds r))] else []) @
        (if rq_Logs r then [json_member ''logs'' ''true''] else [])) @ [CHR 0x7D]"

text \<open>\<^verbatim>\<open>lastBytes\<close> after everything written through it.\<close>

definition lastBytes :: "string \<Rightarrow> string" where
  "lastBytes b = drop (length b - 512) b"

definition end_line :: string where
  "end_line = json_quote ''kind'' @ '':'' @ json_quote ''end''"

record shell_args =
  sh_converged :: string
  sh_expect :: string
  sh_hold :: string
  sh_keys :: "string list"
  sh_socket :: string
  sh_grants :: string
  sh_rest :: "string list"

text \<open>
  The host: its files, whether a path is not known to be absent, where \<^verbatim>\<open>git-shell\<close> is, and what
  the collector at a socket answers a line and what follows it, with whether the answer was read
  whole.
\<close>

record host =
  ho_file :: "string \<Rightarrow> host_file"
  ho_there :: "string \<Rightarrow> bool"
  ho_gitShell :: "string option"
  ho_collector :: "string \<Rightarrow> string \<Rightarrow> string \<Rightarrow> (string \<times> bool) option"

datatype refusal =
    BadFlags
  | Held
  | Paused
  | NoGitShell
  | NoTelemetry
  | NobodyObserves
  | BadCommand command_error
  | GrantsUnreadable file_refusal
  | NotGranted
  | NoCollector

datatype session =
    Refused int refusal
  | Relayed string string int
  | GitShell string "string list" "string list"

definition relay_status :: "string \<Rightarrow> bool \<Rightarrow> int" where
  "relay_status answer whole =
     (if \<not> whole then 1 else if index_str (lastBytes answer) end_line = None then 1 else 0)"

definition telemetryCommand :: "host \<Rightarrow> string \<Rightarrow> string \<Rightarrow> string \<Rightarrow> string \<Rightarrow> string \<Rightarrow> session" where
  "telemetryCommand h cmd who socket grantsFile stdin =
     (if socket = [] \<or> grantsFile = [] then Refused 1 NoTelemetry
      else if who = [] then Refused 1 NobodyObserves
      else
        case ParseCommand cmd of
          Inl e \<Rightarrow> Refused 2 (BadCommand e)
        | Inr q \<Rightarrow>
            let req = q\<lparr>rq_Principal := who\<rparr>
            in case read_grants (\<lambda>_ _. False) (ho_file h grantsFile) of
                 Inl e \<Rightarrow> Refused 1 (GrantsUnreadable e)
               | Inr g \<Rightarrow>
                   if \<not> g who (Grant req) then Refused 1 NotGranted
                   else
                     let line = request_json req @ [CHR 0x0A];
                         report = (if rq_Op req = OpReport then take (MaxReportBytes + 1) stdin else [])
                     in case ho_collector h socket line report of
                          None \<Rightarrow> Refused 1 NoCollector
                        | Some (answer, whole) \<Rightarrow> Relayed line answer (relay_status answer whole))"

section \<open>The shell\<close>

definition the_command :: "string list \<Rightarrow> string option" where
  "the_command rest = (case rest of [c, cmd] \<Rightarrow> if c = ''-c'' then Some cmd else None | _ \<Rightarrow> None)"

definition push_stopped :: "host \<Rightarrow> shell_args \<Rightarrow> refusal option" where
  "push_stopped h a =
     (if sh_hold a \<noteq> [] \<and> ho_there h (sh_hold a) then Some Held
      else if \<not> hasConverged (ho_file h) (sh_converged a) (sh_expect a) then Some Paused
      else None)"

definition run_git_shell :: "host \<Rightarrow> shell_args \<Rightarrow> string list \<Rightarrow> session" where
  "run_git_shell h a env =
     (let who = authenticatedPrincipal (ho_file h) (getenv env ''SSH_USER_AUTH'') (sh_keys a);
          env = sessionEnvironment env @ (if who \<noteq> [] then [''VALLEY_PRINCIPAL='' @ who] else [])
      in case ho_gitShell h of
           None \<Rightarrow> Refused 1 NoGitShell
         | Some path \<Rightarrow> GitShell path (''git-shell'' # sh_rest a) env)"

definition shell :: "host \<Rightarrow> shell_args \<Rightarrow> string list \<Rightarrow> string \<Rightarrow> session" where
  "shell h a env stdin =
     (if sh_converged a = [] \<or> sh_expect a = [] then Refused 2 BadFlags
      else
        case the_command (sh_rest a) of
          Some cmd \<Rightarrow>
            if IsCommand cmd then
              telemetryCommand h cmd (authenticatedPrincipal (ho_file h) (getenv env ''SSH_USER_AUTH'') (sh_keys a))
                (sh_socket a) (sh_grants a) stdin
            else if isPush cmd then
              (case push_stopped h a of Some why \<Rightarrow> Refused 1 why | None \<Rightarrow> run_git_shell h a env)
            else run_git_shell h a env
        | None \<Rightarrow> run_git_shell h a env)"

section \<open>What a session gets\<close>

lemma env_name_prefix: "has_prefix kv (name @ ''='') \<Longrightarrow> CHR ''='' \<notin> set name \<Longrightarrow> env_name kv = name"
proof -
  assume p: "has_prefix kv (name @ ''='')" "CHR ''='' \<notin> set name"
  then obtain r where "kv = name @ CHR ''='' # r" by (auto simp: has_prefix_iff)
  then have "cut_byte kv (CHR ''='') = Some (name, r)" using p(2) by (simp add: cut_byte_Some)
  then show ?thesis by (simp add: env_name_def)
qed

lemma env_name_set: "CHR ''='' \<notin> set name \<Longrightarrow> env_name (name @ CHR ''='' # v) = name"
  by (rule env_name_prefix) (simp_all add: has_prefix_iff)

definition made_environment :: "string list \<Rightarrow> string \<Rightarrow> string list" where
  "made_environment env who =
     sessionEnvironment env @ (if who \<noteq> [] then [''VALLEY_PRINCIPAL='' @ who] else [])"

lemma no_principal_kept: "kv \<in> set (sessionEnvironment env) \<Longrightarrow> \<not> has_prefix kv (''VALLEY_PRINCIPAL'' @ ''='')"
  using env_name_prefix [of kv "''VALLEY_PRINCIPAL''"] by (auto simp: sessionEnvironment_def)

lemma made_environment_principal: "getenv (made_environment env who) ''VALLEY_PRINCIPAL'' = who"
proof -
  have n: "find (\<lambda>kv. has_prefix kv (''VALLEY_PRINCIPAL'' @ ''='')) (sessionEnvironment env) = None"
    using no_principal_kept by (simp add: find_None_iff)
  have a: "find P (xs @ ys) = (case find P xs of Some x \<Rightarrow> Some x | None \<Rightarrow> find P ys)" for P and xs ys :: "string list"
    by (induction xs) auto
  show ?thesis unfolding getenv_def made_environment_def a n by (auto simp: has_prefix_def)
qed

definition git_variable :: "string \<Rightarrow> bool" where
  "git_variable kv \<longleftrightarrow> has_prefix (env_name kv) ''GIT_''"

lemma made_environment_git: "\<not> list_ex git_variable (made_environment env who)"
proof -
  have "env_name (''VALLEY_PRINCIPAL='' @ who) = ''VALLEY_PRINCIPAL''"
    using env_name_set [of "''VALLEY_PRINCIPAL''" who] by simp
  then show ?thesis
    by (auto simp: made_environment_def sessionEnvironment_def list_ex_iff git_variable_def has_prefix_def)
qed

text \<open>The rest of the environment is the session's own, in its order.\<close>

definition kept_variable :: "string \<Rightarrow> bool" where
  "kept_variable kv \<longleftrightarrow> \<not> git_variable kv \<and> env_name kv \<noteq> ''VALLEY_PRINCIPAL''"

lemma sessionEnvironment_kept: "sessionEnvironment env = filter kept_variable env"
  unfolding sessionEnvironment_def by (rule filter_cong) (auto simp: kept_variable_def git_variable_def)

section \<open>Who the key names\<close>

text \<open>
  The key a session authenticated with: the one key every public key line of sshd's file names.
\<close>

definition line_key :: "string \<Rightarrow> string option" where
  "line_key l = (case go_fields l of m # _ # key # _ \<Rightarrow> if m = ''publickey'' then Some key else None | _ \<Rightarrow> None)"

definition key_lines :: "string list \<Rightarrow> string list" where
  "key_lines ls = List.map_filter line_key ls"

lemma auth_lines_step:
  "auth_lines found (l # ls) =
     (case line_key l of
        None \<Rightarrow> auth_lines found ls
      | Some key \<Rightarrow> if found \<noteq> [] \<and> found \<noteq> key then [] else auth_lines key ls)"
  by (simp add: line_key_def split: list.split)

lemma fields_nonempty: "f \<in> set (fields_loop cur ws) \<Longrightarrow> [] \<notin> set ws \<Longrightarrow> f \<noteq> []"
  by (induction cur ws rule: fields_loop.induct) (auto split: if_splits)

lemma chunks_nonempty: "[] \<notin> set (chunks s)"
  using chunk_cases [of "[]" s] by (auto simp: is_rune_def)

lemma line_key_nonempty: "line_key l = Some key \<Longrightarrow> key \<noteq> []"
  using fields_nonempty [OF _ chunks_nonempty [of l], of key "[]"]
  by (auto simp: line_key_def go_fields_def split: list.splits if_splits)

lemma auth_lines_eq:
  "auth_lines found ls =
     (if found = [] then
        (case key_lines ls of [] \<Rightarrow> [] | k # ks \<Rightarrow> if list_all (\<lambda>j. j = k) ks then k else [])
      else if list_all (\<lambda>j. j = found) (key_lines ls) then found else [])"
proof (induction ls arbitrary: found)
  case (Cons l ls)
  show ?case
  proof (cases "line_key l")
    case None
    then show ?thesis using Cons by (simp add: auth_lines_step key_lines_def map_filter_simps del: auth_lines.simps(2))
  next
    case (Some key)
    then show ?thesis
      using Cons line_key_nonempty [OF Some] by (auto simp: auth_lines_step key_lines_def map_filter_simps simp del: auth_lines.simps(2))
  qed
qed (simp add: key_lines_def map_filter_simps)

section \<open>A session is safe\<close>

definition open_for_push :: "host \<Rightarrow> shell_args \<Rightarrow> bool" where
  "open_for_push h a \<longleftrightarrow>
     (sh_hold a = [] \<or> \<not> ho_there h (sh_hold a)) \<and> hasConverged (ho_file h) (sh_converged a) (sh_expect a)"

definition acting :: "host \<Rightarrow> shell_args \<Rightarrow> string list \<Rightarrow> string" where
  "acting h a env = authenticatedPrincipal (ho_file h) (getenv env ''SSH_USER_AUTH'') (sh_keys a)"

definition may_run_git :: "host \<Rightarrow> shell_args \<Rightarrow> bool" where
  "may_run_git h a \<longleftrightarrow>
     (case the_command (sh_rest a) of
        None \<Rightarrow> True
      | Some cmd \<Rightarrow> \<not> IsCommand cmd \<and> (isPush cmd \<longrightarrow> open_for_push h a))"

definition granted :: "host \<Rightarrow> shell_args \<Rightarrow> string \<Rightarrow> string \<Rightarrow> bool" where
  "granted h a who grant \<longleftrightarrow> (\<exists>g. read_grants (\<lambda>_ _. False) (ho_file h (sh_grants a)) = Inr g \<and> g who grant)"

fun session_safe :: "host \<Rightarrow> shell_args \<Rightarrow> string list \<Rightarrow> session \<Rightarrow> bool" where
  "session_safe h a env (GitShell path argv env') \<longleftrightarrow>
     may_run_git h a \<and> argv = ''git-shell'' # sh_rest a \<and> \<not> list_ex git_variable env' \<and>
     getenv env' ''VALLEY_PRINCIPAL'' = acting h a env"
| "session_safe h a env (Relayed line answer status) \<longleftrightarrow>
     (\<exists>cmd q. the_command (sh_rest a) = Some cmd \<and> ParseCommand cmd = Inr q \<and> acting h a env \<noteq> [] \<and>
        granted h a (acting h a env) (Grant q) \<and>
        line = request_json (q\<lparr>rq_Principal := acting h a env\<rparr>) @ [CHR 0x0A])"
| "session_safe h a env (Refused status why) \<longleftrightarrow> status \<noteq> 0"

lemma grant_of_principal: "Grant (q\<lparr>rq_Principal := who\<rparr>) = Grant q"
  by (simp add: Grant_def)

lemma telemetry_safe:
  assumes "the_command (sh_rest a) = Some cmd"
  shows "session_safe h a env (telemetryCommand h cmd (acting h a env) (sh_socket a) (sh_grants a) stdin)"
  using assms by (auto simp: telemetryCommand_def Let_def granted_def grant_of_principal split: sum.splits option.splits)

lemma git_shell_safe: "may_run_git h a \<Longrightarrow> session_safe h a env (run_git_shell h a env)"
  unfolding run_git_shell_def Let_def made_environment_def [symmetric] acting_def [symmetric]
  by (simp add: made_environment_git made_environment_principal split: option.split)

lemma push_open: "push_stopped h a = None \<longleftrightarrow> open_for_push h a"
  by (auto simp: push_stopped_def open_for_push_def)

text \<open>
  C6: whatever a session arrives with, \<^verbatim>\<open>git-shell\<close> runs with no \<^verbatim>\<open>GIT_\<close> variable and with the
  principal of the authenticated key as the only principal the hook can read, a push only while
  the host has converged and nothing holds it, and the collector is sent one request a command
  asks for, in the name of that principal and under a grant it holds.
\<close>

theorem shell_safe: "session_safe h a env (shell h a env stdin)"
proof -
  have "session_safe h a env (Refused 1 why)" "session_safe h a env (Refused 2 why)" for why by simp_all
  then show ?thesis
    using telemetry_safe [of a _ h env stdin] git_shell_safe [of h a env] push_open [of h a]
    unfolding shell_def acting_def [symmetric]
    by (auto simp: may_run_git_def split: option.split)
qed

end
