(* ===== verification/JsonSize.thy ===== *)
theory JsonSize
  imports ChangeRecord
begin

text \<open>
  How long what is written of a value is: it does not depend on which plain strings the value
  holds, only on how long they are.
\<close>

text \<open>A string of bytes that are written as they are.\<close>

definition unescaped :: "string \<Rightarrow> bool" where
  "unescaped s \<longleftrightarrow> list_all (\<lambda>c. 32 \<le> byte_val c \<and> byte_val c < 128 \<and> byte_val c \<noteq> 34 \<and> byte_val c \<noteq> 92) s"

lemma json_body_unescaped: "unescaped s \<Longrightarrow> json_body s = s"
proof (induction s)
  case (Cons c s)
  then have "json_ascii c = [c]" by (auto simp: unescaped_def json_ascii_def Let_def)
  then show ?case using Cons by (simp add: unescaped_def json_body_def chunks_ascii json_piece_def)
qed (simp add: json_body_def)

lemma length_json_quote: "unescaped s \<Longrightarrow> length (json_quote s) = length s + 2"
  by (simp add: json_quote_def json_body_unescaped)

lemma length_join_str: "length (join_str sep ws) = sum_list (map length ws) + (length ws - 1) * length sep"
proof (induction ws)
  case (Cons w ws)
  then show ?case by (cases ws) (auto simp: algebra_simps)
qed simp

lemma join_str_length_cong: "map length us = map length vs \<Longrightarrow> length (join_str sep us) = length (join_str sep vs)"
  by (simp add: length_join_str) (metis length_map)

end
