(* ===== verification/JsonMore.thy ===== *)
theory JsonMore
  imports ChangeRecord
begin

text \<open>
  The strict JSON reader (\<^verbatim>\<open>change/json.go\<close>) reads no further than its value: what follows an object
  does not change what is read of it, so white space after a record does not change the record.
\<close>

section \<open>What follows is left\<close>

lemma drop_while_more: "dropWhile P s = c # r \<Longrightarrow> dropWhile P (s @ t) = c # r @ t"
  by (induction s) (auto split: if_splits)

lemma space_more: "space s = c # r \<Longrightarrow> space (s @ t) = c # r @ t"
  by (simp add: space_def drop_while_more)

lemma hex4_more: "hex4 s = Some (v, r) \<Longrightarrow> hex4 (s @ t) = Some (v, r @ t)"
  by (cases s rule: hex4.cases) (auto split: option.splits)

lemma read_hex4_more: "read_hex4 s = Inr (v, r) \<Longrightarrow> read_hex4 (s @ t) = Inr (v, r @ t)"
  by (auto simp: read_hex4_def hex4_more split: option.splits)

lemma read_escaped_rune_more:
  assumes "read_escaped_rune s = Inr (w, q)"
  shows "read_escaped_rune (s @ t) = Inr (w, q @ t)"
proof -
  obtain rn r where r: "read_hex4 s = Inr (rn, r)" using assms by (auto simp: read_escaped_rune_def result_simps)
  show ?thesis
  proof (cases "is_surrogate rn")
    case True
    then have l: "length r \<ge> 2" "\<not> (rn \<ge> 0xDC00 \<or> length r < 2 \<or> r ! 0 \<noteq> backslash \<or> r ! 1 \<noteq> CHR ''u'')"
      using assms by (auto simp: read_escaped_rune_def r split: if_splits)
    then obtain low r2 where "read_hex4 (drop 2 r) = Inr (low, r2)"
      using assms True by (auto simp: read_escaped_rune_def r result_simps split: if_splits)
    then show ?thesis
      using assms True l read_hex4_more [OF r, of t] read_hex4_more [of "drop 2 r" low r2 t]
      by (auto simp: read_escaped_rune_def r nth_append split: if_splits)
  next
    case False
    then show ?thesis using assms read_hex4_more [OF r, of t] by (auto simp: read_escaped_rune_def r)
  qed
qed

lemma if_more: "(if b then Inr (x, s) else f s) = Inr (w, q) \<Longrightarrow> (\<And>w q. f s = Inr (w, q) \<Longrightarrow> f' = Inr (w, q @ t)) \<Longrightarrow>
    (if b then Inr (x, s @ t) else f') = Inr (w, q @ t)"
  by (auto split: if_splits)

lemma read_escape_more: "read_escape e s = Inr (w, q) \<Longrightarrow> read_escape e (s @ t) = Inr (w, q @ t)"
  unfolding read_escape_def
  by (erule if_more [where f = "\<lambda>_. _"])+ (simp add: read_escaped_rune_more split: if_splits)

lemma read_string_more: "read_string s = Inr (w, q) \<Longrightarrow> read_string (s @ t) = Inr (w, q @ t)"
proof (induction s arbitrary: w q rule: read_string.induct)
  case (1 s)
  note step = read_string.simps [of s]
  show ?case
  proof (cases s)
    case Nil
    then show ?thesis using 1(3) by (simp add: read_string.simps [of "[]"])
  next
    case (Cons c r)
    note more = read_string.simps [of "s @ t"]
    show ?thesis
    proof (cases "c = quotation \<or> byte_val c < 32 \<or> c \<noteq> backslash")
      case True
      then show ?thesis
        using 1(3) 1(1) [OF Cons] Cons unfolding more step
        by (auto simp: result_simps split: if_splits)
    next
      case False
      then obtain e r1 where r: "r = e # r1" using 1(3) Cons unfolding step by (cases r) (auto split: if_splits)
      obtain v r2 u p where e: "read_escape e r1 = Inr (v, r2)" "read_string r2 = Inr (u, p)" "w = v @ u" "q = p"
        using 1(3) Cons r False unfolding step by (auto simp: result_simps)
      have "read_string (r2 @ t) = Inr (u, p @ t)" using 1(2) [OF Cons _ _ _ r e(1) refl e(2)] False by auto
      then show ?thesis using e Cons r False unfolding more by (simp add: read_escape_more)
    qed
  qed
qed

lemma digits_more: "read_digits s = (ds, r) \<Longrightarrow> r \<noteq> [] \<Longrightarrow> read_digits (s @ t) = (ds, r @ t)"
proof -
  assume a: "read_digits s = (ds, r)" "r \<noteq> []"
  then obtain c r' where "dropWhile is_digit s = c # r'" by (cases r) (auto simp: read_digits_def)
  then have "\<exists>x \<in> set s. \<not> is_digit x" by (metis dropWhile_eq_Nil_conv list.distinct(1))
  then show ?thesis using a by (auto simp: read_digits_def takeWhile_append1 dropWhile_append1)
qed

lemma read_whole_more: "read_whole s = Inr (w, q) \<Longrightarrow> q \<noteq> [] \<Longrightarrow> read_whole (s @ t) = Inr (w, q @ t)"
  using digits_more [of s w q t] by (cases s) (auto simp: read_whole_def split: if_splits)

lemma read_fraction_more: "read_fraction s = Inr (w, q) \<Longrightarrow> q \<noteq> [] \<Longrightarrow> read_fraction (s @ t) = Inr (w, q @ t)"
  using digits_more [of "tl s" "tl w" q t]
  by (cases s) (auto simp: read_fraction_def split: if_splits prod.splits)

lemma read_exponent_more: "read_exponent s = Inr (w, q) \<Longrightarrow> q \<noteq> [] \<Longrightarrow> read_exponent (s @ t) = Inr (w, q @ t)"
proof (cases s)
  case (Cons c r)
  assume a: "read_exponent s = Inr (w, q)" "q \<noteq> []"
  show ?thesis
  proof (cases "c = CHR ''e'' \<or> c = CHR ''E''")
    case False
    then show ?thesis using a(1) Cons by (auto simp: read_exponent_def)
  next
    case True
    define sign where "sign = (if r \<noteq> [] \<and> (hd r = CHR ''+'' \<or> hd r = CHR ''-'') then [hd r] else [])"
    obtain ds r2 where d: "read_digits (drop (length sign) r) = (ds, r2)" "ds \<noteq> []" "w = c # sign @ ds" "q = r2"
      using a True Cons by (auto simp: read_exponent_def Let_def sign_def split: prod.splits if_splits)
    have r: "r \<noteq> []" using d(1,2) by (auto simp: read_digits_def)
    then have "sign = (if r @ t \<noteq> [] \<and> (hd (r @ t) = CHR ''+'' \<or> hd (r @ t) = CHR ''-'') then [hd (r @ t)] else [])"
      by (simp add: sign_def)
    moreover have "drop (length sign) (r @ t) = drop (length sign) r @ t" using r by (cases r) (auto simp: sign_def)
    moreover have "read_digits (drop (length sign) r @ t) = (ds, r2 @ t)" using digits_more d a(2) by blast
    ultimately show ?thesis using True Cons d(2-4) by (simp add: read_exponent_def Let_def)
  qed
qed (simp add: read_exponent_def)

lemma read_number_more: "read_number s = Inr (n, q) \<Longrightarrow> q \<noteq> [] \<Longrightarrow> read_number (s @ t) = Inr (n, q @ t)"
proof -
  assume a: "read_number s = Inr (n, q)" "q \<noteq> []"
  define sign where "sign = (if s \<noteq> [] \<and> hd s = CHR ''-'' then [hd s] else [])"
  obtain w r1 f r2 e where r: "read_whole (drop (length sign) s) = Inr (w, r1)" "read_fraction r1 = Inr (f, r2)"
    "read_exponent r2 = Inr (e, q)" "n = sign @ w @ f @ e"
    using a(1) by (auto simp: read_number_def Let_def sign_def [symmetric] result_simps)
  have ne: "r2 \<noteq> []" "r1 \<noteq> []" "s \<noteq> []"
    using a(2) read_exponent_length [OF r(3)] read_fraction_length [OF r(2)] read_whole_length [OF r(1)] by auto
  have s: "sign = (if s @ t \<noteq> [] \<and> hd (s @ t) = CHR ''-'' then [hd (s @ t)] else [])" using ne(3) by (simp add: sign_def)
  have d: "drop (length sign) (s @ t) = drop (length sign) s @ t" using ne(3) by (cases s) (auto simp: sign_def)
  show ?thesis
    unfolding read_number_def Let_def s [symmetric] d
    using read_whole_more [OF r(1) ne(2), of t] read_fraction_more [OF r(2) ne(1), of t] read_exponent_more [OF r(3) a(2), of t] r(4)
    by simp
qed

section \<open>Values\<close>

lemma literal_more: "find (has_prefix s) literals = Some l \<Longrightarrow> find (has_prefix (s @ t)) literals = Some l"
  by (cases s) (auto simp: literals_def has_prefix_def split: if_splits)

lemma no_value [simp]: "read_value d [] \<noteq> Inr x"
  by (simp add: read_value.simps [of d "[]"])

text \<open>A value at the very end of the text may be a number that goes on; any other value is what it is.\<close>

lemma value_more:
  "read_value d s = Inr (v, q) \<Longrightarrow> q \<noteq> [] \<or> (\<forall>n. v \<noteq> JNumber n) \<Longrightarrow> read_value d (s @ t) = Inr (v, q @ t)"
  "read_members d ms s = Inr (v, q) \<Longrightarrow> read_members d ms (s @ t) = Inr (v, q @ t)"
  "read_elements d vs s = Inr (v, q) \<Longrightarrow> read_elements d vs (s @ t) = Inr (v, q @ t)"
proof (induction d s and d ms s and d vs s arbitrary: v q and v q and v q
    rule: read_value_read_members_read_elements.induct)
  case (1 depth s)
  note step = read_value.simps [of depth s]
  obtain c r where Cons: "s = c # r" using 1(3) unfolding step by (cases s) (auto split: if_splits)
  then have st: "s @ t = c # r @ t" by simp
  note more = read_value.simps [of depth "c # r @ t"]
  have d: "\<not> depth > maxDepth" using 1(3) unfolding step by auto
  have v: "(if c = CHR ''{'' then
        (if space r \<noteq> [] \<and> hd (space r) = CHR ''}'' then Inr (JObject [], tl (space r)) else read_members depth [] r)
      else if c = CHR ''['' then
        (if space r \<noteq> [] \<and> hd (space r) = CHR '']'' then Inr (JArray [], tl (space r)) else read_elements depth [] r)
      else if c = quotation then rbind (read_string r) (\<lambda>(t, q). Inr (JString t, q))
      else if c = CHR ''-'' \<or> is_digit c then rbind (read_number s) (\<lambda>(n, q). Inr (JNumber n, q))
      else (case find (has_prefix s) literals of
          Some l \<Rightarrow> Inr (JLiteral l, drop (length l) s)
        | None \<Rightarrow> jfail AValue s)) = Inr (v, q)"
    using 1(3) d Cons unfolding step by simp
  consider (obj) "c = CHR ''{''" | (arr) "c = CHR ''[''" | (str) "c = quotation" | (num) "c = CHR ''-'' \<or> is_digit c" "c \<noteq> CHR ''{''" "c \<noteq> CHR ''[''" "c \<noteq> quotation"
    | (lits) "c \<noteq> CHR ''{''" "c \<noteq> CHR ''[''" "c \<noteq> quotation" "\<not> (c = CHR ''-'' \<or> is_digit c)" by blast
  then show ?case
  proof cases
    case obj
    show ?thesis
    proof (cases "space r \<noteq> [] \<and> hd (space r) = CHR ''}''")
      case True
      then obtain x where x: "space r = CHR ''}'' # x" by (cases "space r") auto
      then show ?thesis using v obj d space_more [OF x, of t] unfolding st more by simp
    next
      case False
      then have ms: "read_members depth [] r = Inr (v, q)" using v obj False by simp
      then obtain x where "space r = quotation # x" by (rule read_members_Inr)
      then show ?thesis
        using obj d False 1(1) [OF d Cons _ _ ms] space_more [of r quotation x t] unfolding st more by simp
    qed
  next
    case arr
    show ?thesis
    proof (cases "space r \<noteq> [] \<and> hd (space r) = CHR '']''")
      case True
      then obtain x where x: "space r = CHR '']'' # x" by (cases "space r") auto
      then show ?thesis using v arr d space_more [OF x, of t] unfolding st more by simp
    next
      case False
      then have es: "read_elements depth [] r = Inr (v, q)" using v arr False by simp
      obtain w s3 where "read_value (depth + 1) (space r) = Inr (w, s3)" using es by (rule read_elements_Inr)
      then obtain y x where "space r = y # x" by (cases "space r") simp_all
      then show ?thesis
        using arr d False 1(2) [OF d Cons _ _ _ es] space_more [of r y x t] unfolding st more by simp
    qed
  next
    case str
    have "quotation \<noteq> CHR ''{''" "quotation \<noteq> CHR ''[''" by code_simp+
    then have "rbind (read_string r) (\<lambda>(t, q). Inr (JString t, q)) = Inr (v, q)" using v str by simp
    then obtain u where u: "read_string r = Inr (u, q)" "v = JString u" by (auto simp: result_simps)
    show ?thesis
      using d str \<open>quotation \<noteq> CHR ''{''\<close> \<open>quotation \<noteq> CHR ''[''\<close> read_string_more [OF u(1), of t] u(2) unfolding st more by simp
  next
    case num
    then have "rbind (read_number s) (\<lambda>(n, q). Inr (JNumber n, q)) = Inr (v, q)" using v by simp
    then obtain n where n: "read_number s = Inr (n, q)" "v = JNumber n" by (auto simp: result_simps)
    then have "read_number (c # r @ t) = Inr (n, q @ t)" using read_number_more [of s n q t] 1(4) st by simp
    then show ?thesis using num d n(2) unfolding st more by simp
  next
    case lits
    then obtain l where l: "find (has_prefix s) literals = Some l" "v = JLiteral l" "q = drop (length l) s"
      using v by (auto split: option.splits)
    then have "drop (length l) (s @ t) = q @ t" using literals_nonempty [OF l(1)] by (auto simp: prefix_def)
    then show ?thesis using lits d l literal_more [OF l(1), of t] unfolding st more by simp
  qed
next
  case (2 depth ms s)
  from 2(3) show ?case
  proof (rule read_members_Inr)
    fix r key s2 r2 w s3 c3 r3
    assume r: "space s = quotation # r" "read_string r = Inr (key, s2)" "key \<notin> set (map fst ms)"
      "space s2 = CHR '':'' # r2" "read_value (depth + 1) (space r2) = Inr (w, s3)" "space s3 = c3 # r3"
      and q: "c3 = CHR '','' \<and> length r3 < length s \<and> read_members depth (ms @ [(key, w)]) r3 = Inr (v, q) \<or>
        c3 = CHR ''}'' \<and> (v, q) = (JObject (ms @ [(key, w)]), r3)"
    have s3: "s3 \<noteq> []" using r(6) by (auto simp: space_def)
    obtain c2 x2 where x2: "space r2 = c2 # x2" using r(5) by (cases "space r2") simp_all
    have "read_value (depth + 1) (space r2 @ t) = Inr (w, s3 @ t)"
      using 2(1) [OF r(1) _ r(2) refl r(3) r(4) _ r(5)] s3 by simp
    then have w: "read_value (depth + 1) (space (r2 @ t)) = Inr (w, s3 @ t)"
      unfolding space_more [OF x2, of t] x2 by simp
    note steps = space_more [OF r(1), of t] read_string_more [OF r(2), of t] space_more [OF r(4), of t] w [simplified] space_more [OF r(6), of t]
    show "read_members depth ms (s @ t) = Inr (v, q @ t)"
      using q
    proof (elim disjE conjE)
      assume "c3 = CHR '','' " "length r3 < length s" "read_members depth (ms @ [(key, w)]) r3 = Inr (v, q)"
      moreover from this have "read_members depth (ms @ [(key, w)]) (r3 @ t) = Inr (v, q @ t)"
        using 2(2) [OF r(1) _ r(2) refl r(3) r(4) _ r(5) refl r(6)] by simp
      ultimately show ?thesis using r(3) unfolding read_members.simps [of depth ms "s @ t"] by (simp add: steps)
    next
      assume "c3 = CHR ''}''" "(v, q) = (JObject (ms @ [(key, w)]), r3)"
      then show ?thesis using r(3) unfolding read_members.simps [of depth ms "s @ t"] by (simp add: steps)
    qed
  qed
next
  case (3 depth vs s)
  from 3(3) show ?case
  proof (rule read_elements_Inr)
    fix w s3 c3 r3
    assume r: "read_value (depth + 1) (space s) = Inr (w, s3)" "space s3 = c3 # r3"
      and q: "c3 = CHR '','' \<and> length r3 < length s \<and> read_elements depth (vs @ [w]) r3 = Inr (v, q) \<or>
        c3 = CHR '']'' \<and> (v, q) = (JArray (vs @ [w]), r3)"
    have s3: "s3 \<noteq> []" using r(2) by (auto simp: space_def)
    obtain c2 x2 where x2: "space s = c2 # x2" using r(1) by (cases "space s") simp_all
    have "read_value (depth + 1) (space s @ t) = Inr (w, s3 @ t)" using 3(1) [OF r(1)] s3 by simp
    then have w: "read_value (depth + 1) (space (s @ t)) = Inr (w, s3 @ t)"
      unfolding space_more [OF x2, of t] x2 by simp
    show "read_elements depth vs (s @ t) = Inr (v, q @ t)"
      using q
    proof (elim disjE conjE)
      assume "c3 = CHR '','' " "length r3 < length s" "read_elements depth (vs @ [w]) r3 = Inr (v, q)"
      moreover from this have "read_elements depth (vs @ [w]) (r3 @ t) = Inr (v, q @ t)"
        using 3(2) [OF r(1) refl r(2)] by simp
      ultimately show ?thesis unfolding read_elements.simps [of depth vs "s @ t"] by (simp add: w [simplified] space_more [OF r(2), of t])
    next
      assume "c3 = CHR '']''" "(v, q) = (JArray (vs @ [w]), r3)"
      then show ?thesis unfolding read_elements.simps [of depth vs "s @ t"] by (simp add: w [simplified] space_more [OF r(2), of t])
    qed
  qed
qed


section \<open>Records with white space after them\<close>

lemma space_all: "space s = [] \<longleftrightarrow> list_all is_json_space s"
  by (auto simp: space_def list_all_iff dropWhile_eq_Nil_conv)

lemma newlines_utf8: "utf8_valid (replicate n (CHR 0x0A))"
proof (induction n)
  case (Suc n)
  have "utf8_valid [CHR 0x0A]" by (simp add: byte_val_def)
  then show ?case using utf8_valid_append [of "[CHR 0x0A]" "replicate n (CHR 0x0A)"] Suc by simp
qed simp

lemma readJSON_more:
  assumes "readJSON s = Inr (JObject ob)"
  shows "readJSON (s @ replicate n (CHR 0x0A)) = Inr (JObject ob)"
proof -
  let ?w = "replicate n (CHR 0x0A)"
  obtain r where r: "utf8_valid s" "read_value 1 (space s) = Inr (JObject ob, r)" "space r = []"
    using assms by (auto simp: readJSON_def result_simps split: if_splits)
  have "utf8_valid (s @ ?w)" using r(1) newlines_utf8 by (simp add: utf8_valid_append)
  moreover obtain c x where c: "space s = c # x" using r(2) by (cases "space s") simp_all
  have "read_value 1 (space (s @ ?w)) = Inr (JObject ob, r @ ?w)"
    using value_more(1) [OF r(2), of ?w] unfolding space_more [OF c] c by simp
  moreover have "space (r @ ?w) = []" using r(3) by (auto simp: space_all list_all_iff is_json_space_def byte_val_def)
  ultimately show ?thesis by (simp add: readJSON_def)
qed

lemma ParseRecord_more:
  assumes "ParseRecord s = Inr r"
  shows "ParseRecord (s @ replicate n (CHR 0x0A)) = Inr r"
proof -
  obtain v where v: "readJSON s = Inr v" using assms by (auto simp: ParseRecord_def result_simps)
  have "\<exists>ob. v = JObject ob" using assms v by (cases v) (auto simp: ParseRecord_def)
  then have "readJSON (s @ replicate n (CHR 0x0A)) = Inr v" using readJSON_more v by blast
  then show ?thesis using assms v by (simp add: ParseRecord_def)
qed

text \<open>What git prints of a file, less its trailing newlines, with one put back, reads as the file does.\<close>

lemma printed_record:
  assumes "ParseRecord (trim_right (\<lambda>c. c = CHR 0x0A) s @ [CHR 0x0A]) = Inr r" "ParseRecord s = Inr r'"
  shows "r = r'"
proof -
  obtain n where n: "s = trim_right (\<lambda>c. c = CHR 0x0A) s @ replicate n (CHR 0x0A)"
  proof -
    have t: "trim_right (\<lambda>c. c = CHR 0x0A) s = rev (dropWhile (\<lambda>c. c = CHR 0x0A) (rev s))" by (simp add: trim_right_def)
    have "takeWhile (\<lambda>c. c = CHR 0x0A) (rev s) = replicate (length (takeWhile (\<lambda>c. c = CHR 0x0A) (rev s))) (CHR 0x0A)"
      by (rule replicate_eqI) (auto dest: set_takeWhileD)
    moreover have "rev s = takeWhile (\<lambda>c. c = CHR 0x0A) (rev s) @ dropWhile (\<lambda>c. c = CHR 0x0A) (rev s)" by simp
    ultimately show thesis using that t by (metis rev_append rev_rev_ident rev_replicate)
  qed
  show ?thesis
  proof (cases n)
    case 0
    then have "trim_right (\<lambda>c. c = CHR 0x0A) s = s" using n by simp
    then show ?thesis using ParseRecord_more [OF assms(2), of 1] assms(1) by simp
  next
    case (Suc k)
    then have "s = (trim_right (\<lambda>c. c = CHR 0x0A) s @ [CHR 0x0A]) @ replicate k (CHR 0x0A)" using n by simp
    then show ?thesis using ParseRecord_more [OF assms(1), of k] assms(2) by simp
  qed
qed

end
