(* ===== verification/RebaseOrigin.thy ===== *)
theory RebaseOrigin
  imports ChangeReport Landing
begin

text \<open>
  \<^verbatim>\<open>rebase/origin.go\<close>, \<^verbatim>\<open>rebase/outcome.go\<close> and the reading of reports in \<^verbatim>\<open>rebase/report.go\<close>: what
  a listing of origin's refs says, the integrator's outcome records, and whether a restack report
  is current. The commands git runs, and what they print, are parameters.
\<close>

section \<open>Object IDs\<close>

definition isHex :: "string \<Rightarrow> nat \<Rightarrow> bool" where
  "isHex s n \<longleftrightarrow>
     (if length s \<noteq> n then False
      else \<not> list_ex (\<lambda>c. (byte_val c < byte_val CHR ''0'' \<or> byte_val c > byte_val CHR ''9'') \<and>
             (byte_val c < byte_val CHR ''a'' \<or> byte_val c > byte_val CHR ''f'')) s)"

definition IsObjectID :: "string \<Rightarrow> bool" where
  "IsObjectID s \<longleftrightarrow> isHex s 40 \<or> isHex s 64"

lemma isHex_iff: "isHex s n \<longleftrightarrow> length s = n \<and> list_all is_lower_hex s"
  by (auto simp: isHex_def list_ex_iff list_all_iff is_lower_hex_def byte_val_def not_less)

section \<open>Listings of origin\<close>

definition Target :: string where "Target = ''main''"

text \<open>A listing's refs in the order they were first named; a ref named again has its last ID.\<close>

type_synonym Origin = "(string \<times> string) list"

definition origin_ref :: "Origin \<Rightarrow> string \<Rightarrow> string" where
  "origin_ref o1 ref = (case map_of o1 ref of None \<Rightarrow> [] | Some oid \<Rightarrow> oid)"

fun list_lines :: "Origin \<Rightarrow> string list \<Rightarrow> Origin" where
  "list_lines o1 [] = o1"
| "list_lines o1 (line # ls) =
     (case cut_byte line (CHR 0x09) of
        None \<Rightarrow> list_lines o1 ls
      | Some (oid, ref) \<Rightarrow> list_lines (if ref \<noteq> [] then AList.update ref oid o1 else o1) ls)"

text \<open>\<^verbatim>\<open>ListOrigin\<close>, of what \<^verbatim>\<open>ls-remote\<close> printed, or nothing where git failed.\<close>

definition ListOrigin :: "string option \<Rightarrow> Origin option" where
  "ListOrigin out = map_option (\<lambda>s. list_lines [] (split_byte (CHR 0x0A) s)) out"

definition Changes :: "Origin \<Rightarrow> string list" where
  "Changes o1 =
     sort (List.map_filter
       (\<lambda>(ref, _). case ParseRef ref of
          None \<Rightarrow> None
        | Some (target, cid) \<Rightarrow> if target = Target then Some cid else None) o1)"

definition OriginHandle :: "Origin \<Rightarrow> string \<Rightarrow> string" where
  "OriginHandle o1 cid = Handle cid (Changes o1 @ [cid])"

definition HeadOf :: "Version \<Rightarrow> string" where
  "HeadOf v = trim_prefix (vn_Head v) HeadPrefix"

definition ChangeName :: "string \<Rightarrow> string" where
  "ChangeName branch = map (\<lambda>c. if c = CHR ''/'' then CHR ''-'' else c) branch"

definition RequestNames :: "string \<Rightarrow> Version \<Rightarrow> string list" where
  "RequestNames cid v =
     (if vn_Branch v \<noteq> [] then [ChangeName (vn_Branch v)] else []) @ [RequestName cid]"

definition IntegrationRequests :: string where
  "IntegrationRequests = ''refs/the-valley/integration-requests/'' @ Target @ ''/''"

definition OutcomePrefix :: string where
  "OutcomePrefix = ''refs/the-valley/integration-outcomes/'' @ Target @ ''/''"

definition TargetLandings :: string where
  "TargetLandings = LandingPrefix @ Target @ ''/''"

section \<open>Outcomes\<close>

record Outcome =
  oc_Head :: string
  oc_Tip :: string
  oc_Evidence :: string
  oc_Decision :: string
  oc_FailedAt :: string

definition trim_newlines :: "string \<Rightarrow> string" where
  "trim_newlines s = trim_right (\<lambda>c. c = CHR 0x0A) s"

text \<open>\<^verbatim>\<open>strings.FieldsFunc\<close> at spaces and tabs.\<close>

fun blank_fields :: "string \<Rightarrow> string \<Rightarrow> string list" where
  "blank_fields cur [] = (if cur = [] then [] else [cur])"
| "blank_fields cur (c # s) =
     (if c = CHR '' '' \<or> c = CHR 0x09 then (if cur = [] then blank_fields [] s else cur # blank_fields [] s)
      else blank_fields (cur @ [c]) s)"

definition field_at :: "string list \<Rightarrow> nat \<Rightarrow> string" where
  "field_at fs i = (if i < length fs then fs ! i else [])"

definition settled :: "string list" where
  "settled = [''land'', ''stale'', ''reject'', ''refused-not-ready'', ''refused-merge'', ''voided-withdrawn'']"

definition ParseOutcome :: "string \<Rightarrow> Outcome" where
  "ParseOutcome rec =
     (let line = trim_newlines rec;
          fs = blank_fields [] line;
          failedAt = field_at fs 4;
          d = (if CHR 0x0A \<in> set line \<or> CHR 0x00 \<in> set line \<or> length fs > 5 \<or> \<not> IsObjectID (field_at fs 0) \<or>
                  \<not> IsObjectID (field_at fs 1) \<or> \<not> isHex (field_at fs 2) 16
               then ''unknown'' else field_at fs 3);
          d' = (if d \<in> set settled then (if failedAt \<noteq> [] then ''unknown'' else d)
                else if d = ''failed'' then (if failedAt = [] then ''unknown'' else d)
                else ''unknown'')
      in \<lparr>oc_Head = field_at fs 0, oc_Tip = field_at fs 1, oc_Evidence = field_at fs 2, oc_Decision = d',
          oc_FailedAt = (if d' \<noteq> ''failed'' then [] else failedAt)\<rparr>)"

section \<open>Reports\<close>

definition origin_holds :: "Origin \<Rightarrow> string \<Rightarrow> string option \<Rightarrow> bool" where
  "origin_holds o1 ref want =
     (case want of
        None \<Rightarrow> map_of o1 ref = None
      | Some w \<Rightarrow> map_of o1 ref = Some (trim_prefix w HeadPrefix))"

definition layer_current :: "Origin \<Rightarrow> RestackLayer \<Rightarrow> bool" where
  "layer_current o1 l =
     (let (recd, tip) =
        (case ly_Published l of
           None \<Rightarrow> (ly_Record l, ly_BranchTip l)
         | Some p \<Rightarrow> ((case pb_Record p of None \<Rightarrow> ly_Record l | Some c \<Rightarrow> c), Some (pb_Head p)))
      in if \<not> origin_holds o1 (Ref Target (ly_ChangeID l)) (Some recd) then False
         else if ly_Branch l \<noteq> [] \<and> \<not> origin_holds o1 (''refs/heads/'' @ ly_Branch l) tip then False
         else True)"

definition OriginCurrent :: "Origin \<Rightarrow> RestackReport \<Rightarrow> bool" where
  "OriginCurrent o1 r =
     (if rr_Target r \<noteq> Target \<or> \<not> origin_holds o1 (''refs/heads/'' @ Target) (Some (rr_TargetTip r)) then False
      else if list_ex (\<lambda>q. \<not> origin_holds o1 (rq_Ref q) (Some (rq_Tip q))) (rr_Requests r) then False
      else list_all (layer_current o1) (rr_Layers r))"

section \<open>A report is current while nothing it observed has moved\<close>

text \<open>What a report says each ref it observed held, or was left holding.\<close>

definition layer_observed :: "RestackLayer \<Rightarrow> (string \<times> string option) list" where
  "layer_observed l =
     (Ref Target (ly_ChangeID l),
        Some (case ly_Published l of Some p \<Rightarrow> (case pb_Record p of Some c \<Rightarrow> c | None \<Rightarrow> ly_Record l) | None \<Rightarrow> ly_Record l)) #
     (if ly_Branch l = [] then []
      else [(''refs/heads/'' @ ly_Branch l, case ly_Published l of Some p \<Rightarrow> Some (pb_Head p) | None \<Rightarrow> ly_BranchTip l)])"

definition observed :: "RestackReport \<Rightarrow> (string \<times> string option) list" where
  "observed r =
     (''refs/heads/'' @ Target, Some (rr_TargetTip r)) # map (\<lambda>q. (rq_Ref q, Some (rq_Tip q))) (rr_Requests r) @
     concat (map layer_observed (rr_Layers r))"

lemma layer_current_iff: "layer_current o1 l \<longleftrightarrow> list_all (\<lambda>(ref, want). origin_holds o1 ref want) (layer_observed l)"
  by (auto simp: layer_current_def layer_observed_def split: option.splits)

lemma OriginCurrent_iff:
  "OriginCurrent o1 r \<longleftrightarrow> rr_Target r = Target \<and> list_all (\<lambda>(ref, want). origin_holds o1 ref want) (observed r)"
  by (auto simp: OriginCurrent_def observed_def layer_current_iff list_all_iff list_ex_iff)

section \<open>Only what the integrator writes is a decision\<close>

definition outcome_line :: "string \<Rightarrow> string \<Rightarrow> string \<Rightarrow> string \<Rightarrow> string \<Rightarrow> string" where
  "outcome_line head tip evidence decision at =
     join_str '' '' ([head, tip, evidence, decision] @ (if at = [] then [] else [at]))"

definition outcome_ok :: "Outcome \<Rightarrow> bool" where
  "outcome_ok m \<longleftrightarrow> IsObjectID (oc_Head m) \<and> IsObjectID (oc_Tip m) \<and> isHex (oc_Evidence m) 16 \<and>
     (oc_Decision m \<in> set settled \<and> oc_FailedAt m = [] \<or>
      oc_Decision m = ''failed'' \<and> oc_FailedAt m \<noteq> [])"

lemma settled_known: "''unknown'' \<notin> set settled" "''failed'' \<notin> set settled"
  by (simp_all add: settled_def)

lemma outcome_known: "oc_Decision (ParseOutcome s) \<noteq> ''unknown'' \<longleftrightarrow> outcome_ok (ParseOutcome s)"
proof -
  have "\<not> outcome_ok m" if "oc_Decision m = ''unknown''" for m
    using that by (auto simp: outcome_ok_def settled_def)
  moreover have "outcome_ok (ParseOutcome s)" if "oc_Decision (ParseOutcome s) \<noteq> ''unknown''"
    using that settled_known unfolding ParseOutcome_def Let_def outcome_ok_def by (auto split: if_splits)
  ultimately show ?thesis by blast
qed

lemma blank_fields_word:
  "CHR '' '' \<notin> set w \<Longrightarrow> CHR 0x09 \<notin> set w \<Longrightarrow> blank_fields cur w = (if cur @ w = [] then [] else [cur @ w])"
  by (induction w arbitrary: cur) auto

lemma blank_fields_space:
  "CHR '' '' \<notin> set w \<Longrightarrow> CHR 0x09 \<notin> set w \<Longrightarrow> cur @ w \<noteq> [] \<Longrightarrow>
   blank_fields cur (w @ CHR '' '' # s) = (cur @ w) # blank_fields [] s"
  by (induction w arbitrary: cur) auto

definition field_word :: "string \<Rightarrow> bool" where
  "field_word w \<longleftrightarrow> w \<noteq> [] \<and> set w \<inter> {CHR '' '', CHR 0x09, CHR 0x0A, CHR 0x00} = {}"

lemma blank_fields_join: "list_all field_word ws \<Longrightarrow> blank_fields [] (join_str '' '' ws) = ws"
proof (induction ws)
  case (Cons w ws)
  then have w: "w \<noteq> []" "CHR '' '' \<notin> set w" "CHR 0x09 \<notin> set w" by (auto simp: field_word_def)
  show ?case
  proof (cases ws)
    case Nil
    then show ?thesis using w by (simp add: blank_fields_word)
  next
    case (Cons v vs)
    then show ?thesis
      using w Cons.IH Cons.prems blank_fields_space [of w "[]" "join_str '' '' ws"] by (simp add: join_str_Cons)
  qed
qed simp

lemma hex_field: "isHex s n \<Longrightarrow> 0 < n \<Longrightarrow> field_word s"
  by (auto simp: isHex_iff field_word_def list_all_iff is_lower_hex_def byte_val_def)

lemma id_field: "IsObjectID s \<Longrightarrow> field_word s"
  using hex_field by (auto simp: IsObjectID_def)

lemma trim_newlines_line: "CHR 0x0A \<notin> set l \<Longrightarrow> trim_newlines (l @ [CHR 0x0A]) = l"
proof -
  assume "CHR 0x0A \<notin> set l"
  then have "l = [] \<or> last l \<noteq> CHR 0x0A" using last_in_set [of l] by metis
  then show ?thesis using trim_right_id [of l "\<lambda>c. c = CHR 0x0A"] by (simp add: trim_newlines_def trim_right_def)
qed

lemma field_words_line:
  "list_all field_word ws \<Longrightarrow> CHR 0x0A \<notin> set (join_str '' '' ws) \<and> CHR 0x00 \<notin> set (join_str '' '' ws)"
proof (induction ws)
  case (Cons w ws)
  then show ?case by (cases ws) (auto simp: field_word_def)
qed simp

lemma ParseOutcome_line:
  assumes "outcome_ok m" "oc_FailedAt m = [] \<or> field_word (oc_FailedAt m)"
  shows "ParseOutcome (outcome_line (oc_Head m) (oc_Tip m) (oc_Evidence m) (oc_Decision m) (oc_FailedAt m) @ [CHR 0x0A]) = m"
proof -
  define ws where "ws = [oc_Head m, oc_Tip m, oc_Evidence m, oc_Decision m] @ (if oc_FailedAt m = [] then [] else [oc_FailedAt m])"
  have d: "field_word (oc_Decision m)"
    using assms(1) by (auto simp: outcome_ok_def settled_def field_word_def)
  have ok: "list_all field_word ws"
    using assms d id_field hex_field [of _ 16] by (auto simp: outcome_ok_def ws_def)
  note l = field_words_line [OF ok]
  have f: "field_at ws 0 = oc_Head m" "field_at ws 1 = oc_Tip m" "field_at ws 2 = oc_Evidence m"
    "field_at ws 3 = oc_Decision m" "field_at ws 4 = oc_FailedAt m" "length ws \<le> 5"
    by (auto simp: ws_def field_at_def)
  have t: "trim_newlines (join_str '' '' ws @ [CHR 0x0A]) = join_str '' '' ws" using trim_newlines_line l by blast
  show ?thesis
    unfolding outcome_line_def ws_def [symmetric] ParseOutcome_def Let_def t blank_fields_join [OF ok] f(1-5)
    using l f(6) assms(1) settled_known by (cases m) (auto simp: outcome_ok_def)
qed

end
