(* ===== verification/RebaseRecord.thy ===== *)
theory RebaseRecord
  imports RebaseOrigin
begin

text \<open>
  \<^verbatim>\<open>rebase/record.go\<close> and the checks of \<^verbatim>\<open>rebase/pending.go\<close>: adding a version to a change's
  record, by its owner or under the restack grant, what a push became, and what a kept write has
  to agree with itself about. What git prints is a record of functions.
\<close>

section \<open>Git\<close>

text \<open>
  Each field is what one git command of the code answers: a listing of origin for the patterns
  given, whether a fetch brought the objects, the file of a record commit, the commit an ID names,
  ancestry, the merge bases with whether git exited zero, the merges of a range, a commit object,
  the trailers of a message, a subject; and what each of the three commands that write answers: the
  ID of a blob for its content, of a tree for its text, and of a commit for its tree, its parents
  and its message.
\<close>

record git =
  gt_list :: "string list \<Rightarrow> string option"
  gt_fetch :: "string list \<Rightarrow> bool"
  gt_record :: "string \<Rightarrow> string option"
  gt_commit :: "string \<Rightarrow> string option"
  gt_ancestor :: "string \<Rightarrow> string \<Rightarrow> bool"
  gt_bases :: "string \<Rightarrow> string \<Rightarrow> string \<times> bool"
  gt_merges :: "string \<Rightarrow> string \<Rightarrow> string option"
  gt_raw :: "string \<Rightarrow> string option"
  gt_trailers :: "string \<Rightarrow> string option"
  gt_subject :: "string \<Rightarrow> string option"
  gt_blob :: "string \<Rightarrow> string option"
  gt_tree :: "string \<Rightarrow> string option"
  gt_make :: "string \<Rightarrow> string list \<Rightarrow> string \<Rightarrow> string option"

datatype head_error =
    NoHistory
  | ManyBases nat
  | BasePanic
  | RangeUnread
  | MergeInRange string
  | MergePanic
  | CommitUnread
  | TwoHeaders
  | BadHeader string
  | TrailersUnread
  | TwoTrailers
  | BadTrailer string
  | IDsDisagree string string

datatype version_error =
    NotPrincipal
  | NotBranch
  | NotID
  | NotObjectIDs
  | OriginUnread
  | NoTarget
  | NotFetched
  | NoRecordFile
  | RecordUnread record_error
  | NoRecord
  | NotReady string
  | OtherHead int string
  | NoBranchNamed int
  | BranchMissing
  | BranchElsewhere string
  | NotOnBranch
  | HeadRefused head_error
  | SubjectUnread
  | AtHead int
  | VersionsFull nat
  | UpdatesFull int
  | RecordBroken record_rule
  | RecordLong nat
  | BlobNotWritten
  | TreeNotWritten
  | NotWritten

section \<open>Reading and writing records\<close>

definition MaxRecordBlob :: nat where "MaxRecordBlob = 64 * 1024"

definition tree_text :: "string \<Rightarrow> string \<Rightarrow> string" where
  "tree_text blob fname = ''100644 blob '' @ blob @ CHR 0x09 # fname @ [CHR 0x0A]"

definition writeOneFile :: "git \<Rightarrow> string \<Rightarrow> string \<Rightarrow> string \<Rightarrow> string list \<Rightarrow> (version_error, string) result" where
  "writeOneFile g fname data message parents =
     (case gt_blob g data of
        None \<Rightarrow> Inl BlobNotWritten
      | Some blob \<Rightarrow>
          (case gt_tree g (tree_text blob fname) of
             None \<Rightarrow> Inl TreeNotWritten
           | Some tree \<Rightarrow>
               (case gt_make g tree parents (message @ [CHR 0x0A]) of None \<Rightarrow> Inl NotWritten | Some c \<Rightarrow> Inr c)))"

definition WriteRecord :: "git \<Rightarrow> Record \<Rightarrow> string \<Rightarrow> string list \<Rightarrow> (version_error, string) result" where
  "WriteRecord g r message parents =
     rbind (rmap_err RecordBroken (EncodeRecord r)) (\<lambda>data.
       if length data > MaxRecordBlob then Inl (RecordLong (length data))
       else writeOneFile g ''record.json'' data message parents)"

definition ReadRecord :: "git \<Rightarrow> string \<Rightarrow> (version_error, Record) result" where
  "ReadRecord g commit =
     (case gt_record g commit of
        None \<Rightarrow> Inl NoRecordFile
      | Some data \<Rightarrow> rmap_err RecordUnread (ParseRecord (data @ [CHR 0x0A])))"

definition readBefore :: "git \<Rightarrow> string \<Rightarrow> (version_error, Record option) result" where
  "readBefore g old =
     (if old = [] then Inr None
      else if \<not> gt_fetch g [old] then Inl NotFetched
      else rbind (ReadRecord g old) (\<lambda>r. Inr (Some r)))"

section \<open>What became of a push\<close>

datatype Push = Unpushed | PushRefused | Pushed | PushUnknown

text \<open>\<^verbatim>\<open>strings.SplitN\<close> into three at tabs.\<close>

definition split3 :: "string \<Rightarrow> (string \<times> string \<times> string) option" where
  "split3 line =
     (case cut_byte line (CHR 0x09) of
        None \<Rightarrow> None
      | Some (a, rest) \<Rightarrow>
          (case cut_byte rest (CHR 0x09) of None \<Rightarrow> None | Some (b, c) \<Rightarrow> Some (a, b, c)))"

definition before_paren :: "string \<Rightarrow> string" where
  "before_paren s = (case cut_str s '' ('' of None \<Rightarrow> s | Some (summary, _) \<Rightarrow> summary)"

definition after_colon :: "string \<Rightarrow> string" where
  "after_colon s = (case cut_byte s (CHR '':'') of None \<Rightarrow> [] | Some (_, to) \<Rightarrow> to)"

text \<open>The loop over the lines: the refs refused so far, or nothing once the push is unknown.\<close>

fun push_lines :: "(string \<times> string) list \<Rightarrow> string list \<Rightarrow> (string \<times> string) list option" where
  "push_lines refused [] = Some refused"
| "push_lines refused (line # ls) =
     (case split3 line of
        None \<Rightarrow> push_lines refused ls
      | Some (flag, refspec, rest) \<Rightarrow>
          if length flag \<noteq> 1 then push_lines refused ls
          else if flag = ''!'' \<and> before_paren rest \<in> {''[rejected]'', ''[remote rejected]''} then
            push_lines (refused @ [(after_colon refspec, rest)]) ls
          else if index_str '' +-*='' flag = None then None
          else push_lines refused ls)"

definition readPush :: "string \<Rightarrow> Push \<times> (string \<times> string) list" where
  "readPush out =
     (case push_lines [] (split_byte (CHR 0x0A) out) of
        None \<Rightarrow> (PushUnknown, [])
      | Some refused \<Rightarrow> if length refused > 0 then (PushRefused, refused) else (PushUnknown, []))"

section \<open>Heads a version may record\<close>

text \<open>
  Git that exits zero and prints no merge base, or prints merges without a field, makes the code
  index an empty slice: those are its panics.
\<close>

definition CheckRange :: "git \<Rightarrow> string \<Rightarrow> string \<Rightarrow> (head_error, unit) result" where
  "CheckRange g tip head =
     (let (out, ok) = gt_bases g tip head; bases = go_fields out
      in if \<not> ok \<and> length bases = 0 then Inl NoHistory
         else if length bases > 1 then Inl (ManyBases (length bases))
         else
           case bases of
             [] \<Rightarrow> Inl BasePanic
           | b # _ \<Rightarrow>
               (case gt_merges g b head of
                  None \<Rightarrow> Inl RangeUnread
                | Some merges \<Rightarrow>
                    if merges \<noteq> [] then (case go_fields merges of [] \<Rightarrow> Inl MergePanic | first # _ \<Rightarrow> Inl (MergeInRange first))
                    else Inr ()))"

text \<open>The header block and the message: what is before and after the first blank line.\<close>

definition cut_message :: "string \<Rightarrow> string \<times> string" where
  "cut_message raw = (case cut_str raw [CHR 0x0A, CHR 0x0A] of None \<Rightarrow> (raw, []) | Some (h, m) \<Rightarrow> (h, m))"

definition header_ids :: "string \<Rightarrow> string list" where
  "header_ids headers = List.map_filter (\<lambda>line. cut_prefix line ''change-id '') (split_byte (CHR 0x0A) headers)"

definition lower :: "char \<Rightarrow> char" where
  "lower c = (if 65 \<le> byte_val c \<and> byte_val c \<le> 90 then char_of (byte_val c + 32) else c)"

text \<open>
  \<^verbatim>\<open>strings.EqualFold\<close> with \<^verbatim>\<open>Change-Id\<close>: no letter of it folds to a rune outside ASCII.
\<close>

definition is_change_id :: "string \<Rightarrow> bool" where
  "is_change_id key \<longleftrightarrow> map lower key = ''change-id''"

definition trailer_ids :: "string \<Rightarrow> string list" where
  "trailer_ids parsed =
     List.map_filter
       (\<lambda>line. case cut_byte line (CHR '':'') of
          None \<Rightarrow> None
        | Some (key, v) \<Rightarrow> if is_change_id (trim_space key) then Some (trim_space v) else None)
       (split_byte (CHR 0x0A) parsed)"

definition one_id :: "head_error \<Rightarrow> (string \<Rightarrow> head_error) \<Rightarrow> string list \<Rightarrow> (head_error, string) result" where
  "one_id many bad found =
     (if length found > 1 then Inl many
      else case found of
        [] \<Rightarrow> Inr []
      | v # _ \<Rightarrow> if \<not> ValidID v then Inl (bad v) else Inr v)"

definition HeadIDs :: "git \<Rightarrow> string \<Rightarrow> (head_error, string \<times> string) result" where
  "HeadIDs g head =
     (case gt_raw g head of
        None \<Rightarrow> Inl CommitUnread
      | Some raw \<Rightarrow>
          let (headers, message) = cut_message raw
          in rbind (one_id TwoHeaders BadHeader (header_ids headers)) (\<lambda>hdr.
               case gt_trailers g message of
                 None \<Rightarrow> Inl TrailersUnread
               | Some parsed \<Rightarrow>
                   rbind (one_id TwoTrailers BadTrailer (trailer_ids parsed)) (\<lambda>trailer. Inr (hdr, trailer))))"

definition checkHead :: "git \<Rightarrow> string \<Rightarrow> string \<Rightarrow> (head_error, unit) result" where
  "checkHead g tip head =
     rbind (CheckRange g tip head) (\<lambda>_.
     rbind (HeadIDs g head) (\<lambda>(hdr, trailer).
       if hdr \<noteq> [] \<and> trailer \<noteq> [] \<and> hdr \<noteq> trailer then Inl (IDsDisagree hdr trailer) else Inr ()))"

section \<open>The next version\<close>

definition CheckActive :: "Record option \<Rightarrow> string \<Rightarrow> (version_error, Record) result" where
  "CheckActive before ifActive =
     (case before of
        None \<Rightarrow> Inl NoRecord
      | Some r \<Rightarrow>
          if cr_State r \<noteq> Ready then Inl (NotReady (cr_State r))
          else if HeadOf (ActiveVersion r) \<noteq> ifActive then Inl (OtherHead (cr_Active r) (HeadOf (ActiveVersion r)))
          else Inr r)"

definition NextRecord :: "Record \<Rightarrow> Version \<Rightarrow> (version_error, Record) result" where
  "NextRecord before v =
     (let active = ActiveVersion before
      in if vn_Head active = vn_Head v \<and> cr_State before = Ready then Inl (AtHead (vn_N active))
         else if vn_Head active \<noteq> vn_Head v \<and> int (length (cr_Versions before)) \<ge> MaxVersions then
           Inl (VersionsFull (length (cr_Versions before)))
         else if cr_Seq before \<ge> MaxSeq then Inl (UpdatesFull (cr_Seq before))
         else
           let n = vn_N (LastVersion before) + 1
           in Inr (before\<lparr>cr_Versions := cr_Versions before @ [v\<lparr>vn_N := n\<rparr>], cr_Active := n, cr_State := Ready,
                   cr_Seq := cr_Seq before + 1\<rparr>))"

definition short :: "string \<Rightarrow> string" where
  "short oid = (if length oid > 7 then take 7 oid else oid)"

definition ReadyMessage :: "string \<Rightarrow> string \<Rightarrow> int \<Rightarrow> string \<Rightarrow> string" where
  "ReadyMessage handle cid n head =
     ''valley ready: '' @ handle @ '' v'' @ itoa (nat n) @ [CHR 0x0A, CHR 0x0A] @
     ''Change '' @ cid @ '', version '' @ itoa (nat n) @ '', at '' @ head @ ''.''"

record PendingVersion =
  pv_ID :: string
  pv_Handle :: string
  pv_Ref :: string
  pv_Old :: string
  pv_Commit :: string
  pv_Record :: Record
  pv_Version :: int
  pv_Head :: string
  pv_Branch :: string
  pv_restack :: bool

record Append =
  ap_ID :: string
  ap_Branch :: string
  ap_Head :: string
  ap_IfActive :: string
  ap_Principal :: string

definition atHead :: "Origin \<Rightarrow> string \<Rightarrow> string \<Rightarrow> (version_error, unit) result" where
  "atHead o1 branch head =
     (let at = origin_ref o1 (''refs/heads/'' @ branch)
      in if at = [] then Inl BranchMissing
         else if at \<noteq> head then Inl (BranchElsewhere at)
         else Inr ())"

text \<open>\<^verbatim>\<open>PendingVersion.write\<close>, for a change's ID, handle and ref and the commit read.\<close>

definition write_version ::
  "git \<Rightarrow> bool \<Rightarrow> string \<Rightarrow> string \<Rightarrow> string \<Rightarrow> string \<Rightarrow> Record \<Rightarrow> string \<Rightarrow> string \<Rightarrow> string \<Rightarrow> string \<Rightarrow>
   (version_error, PendingVersion) result" where
  "write_version g restack cid handle ref old before head title branch who =
     rbind (NextRecord before \<lparr>vn_N = 0, vn_Head = HeadPrefix @ head, vn_Title = title, vn_Branch = branch, vn_Uploader = who\<rparr>)
       (\<lambda>after.
     rbind (WriteRecord g after (ReadyMessage handle cid (cr_Active after) head) [old, head]) (\<lambda>commit.
       Inr \<lparr>pv_ID = cid, pv_Handle = handle, pv_Ref = ref, pv_Old = old, pv_Commit = commit, pv_Record = after,
            pv_Version = cr_Active after, pv_Head = head, pv_Branch = branch, pv_restack = restack\<rparr>))"

definition record_patterns :: "string list" where
  "record_patterns = [RefPrefix @ Target @ ''/*'']"

text \<open>The branch a version is added on: the one given, or under the restack grant the active version's.\<close>

definition restack_branch :: "git \<Rightarrow> Origin \<Rightarrow> string \<Rightarrow> Append \<Rightarrow> (version_error, Record \<times> string) result" where
  "restack_branch g o1 old a =
     rbind (readBefore g old) (\<lambda>before.
     rbind (CheckActive before (ap_IfActive a)) (\<lambda>r.
       let active = ActiveVersion r
       in if vn_Branch active = [] then Inl (NoBranchNamed (vn_N active))
          else rbind (atHead o1 (vn_Branch active) (ap_Head a)) (\<lambda>_. Inr (r, vn_Branch active))))"

definition version_head :: "git \<Rightarrow> string \<Rightarrow> string \<Rightarrow> string \<Rightarrow> (version_error, string) result" where
  "version_head g tip remote want =
     (if \<not> gt_fetch g [tip, remote] then Inl NotFetched
      else
        case gt_commit g want of
          None \<Rightarrow> Inl NotOnBranch
        | Some head \<Rightarrow>
            if remote = [] \<or> \<not> gt_ancestor g head remote then Inl NotOnBranch
            else rbind (rmap_err HeadRefused (checkHead g tip head)) (\<lambda>_. Inr head))"

definition buildVersion :: "git \<Rightarrow> Append \<Rightarrow> bool \<Rightarrow> (version_error, PendingVersion) result" where
  "buildVersion g a restack =
     (if \<not> ValidPrincipal (ap_Principal a) then Inl NotPrincipal
      else if \<not> restack \<and> \<not> ValidBranch (ap_Branch a) then Inl NotBranch
      else if \<not> ValidID (ap_ID a) then Inl NotID
      else if \<not> IsObjectID (ap_Head a) \<or> \<not> IsObjectID (ap_IfActive a) then Inl NotObjectIDs
      else
        let branches = (if restack then ''refs/heads/*'' else ''refs/heads/'' @ ap_Branch a)
        in case ListOrigin (gt_list g ([''refs/heads/'' @ Target, branches] @ record_patterns)) of
             None \<Rightarrow> Inl OriginUnread
           | Some o1 \<Rightarrow>
               let tip = origin_ref o1 (''refs/heads/'' @ Target); ref = Ref Target (ap_ID a); old = origin_ref o1 ref;
                   handle = OriginHandle o1 (ap_ID a)
               in if tip = [] then Inl NoTarget
                  else if restack then
                    rbind (restack_branch g o1 old a) (\<lambda>(r, branch).
                    rbind (version_head g tip (origin_ref o1 (''refs/heads/'' @ branch)) (ap_Head a)) (\<lambda>head.
                      write_version g True (ap_ID a) handle ref old r head (vn_Title (ActiveVersion r)) branch (ap_Principal a)))
                  else
                    rbind (version_head g tip (origin_ref o1 (''refs/heads/'' @ ap_Branch a)) (ap_Head a)) (\<lambda>head.
                    rbind (readBefore g old) (\<lambda>before.
                    rbind (CheckActive before (ap_IfActive a)) (\<lambda>r.
                      case gt_subject g head of
                        None \<Rightarrow> Inl SubjectUnread
                      | Some subject \<Rightarrow>
                          write_version g False (ap_ID a) handle ref old r head (TitleOf subject) (ap_Branch a) (ap_Principal a)))))"

text \<open>What a restack's push looks at first: its branch, once more.\<close>

definition push_allowed_at :: "git \<Rightarrow> PendingVersion \<Rightarrow> (version_error, unit) result" where
  "push_allowed_at g p =
     (if pv_restack p then
        (case ListOrigin (gt_list g [''refs/heads/'' @ pv_Branch p]) of
           None \<Rightarrow> Inl OriginUnread
         | Some o1 \<Rightarrow> atHead o1 (pv_Branch p) (pv_Head p))
      else Inr ())"

end
