(* ===== verification/RebaseHistory.thy ===== *)
theory RebaseHistory
  imports RebaseOrigin "HOL-Library.Word"
begin

text \<open>
  \<^verbatim>\<open>rebase/history.go\<close>: main's history, read once, and the walk that finds every commit one commit
  reaches, with its set of places kept as words of 64 bits.
\<close>

unbundle bit_operations_syntax

section \<open>Sets of places\<close>

definition test_place :: "64 word list \<Rightarrow> nat \<Rightarrow> bool" where
  "test_place s p \<longleftrightarrow> (s ! (p div 64)) AND push_bit (p mod 64) 1 \<noteq> 0"

definition set_place :: "64 word list \<Rightarrow> nat \<Rightarrow> 64 word list" where
  "set_place s p = s[p div 64 := (s ! (p div 64)) OR push_bit (p mod 64) 1]"

definition in_set :: "64 word list \<Rightarrow> nat \<Rightarrow> bool" where
  "in_set s p \<longleftrightarrow> p div 64 < length s"

lemma and_one_bit: "(w :: 64 word) AND push_bit i 1 \<noteq> 0 \<longleftrightarrow> bit w i" if "i < 64"
proof -
  have "w AND push_bit i 1 = (if bit w i then push_bit i 1 else 0)"
    by (rule bit_word_eqI) (use that in \<open>auto simp: bit_simps\<close>)
  moreover have "bit (push_bit i (1 :: 64 word)) i" using that by (simp add: bit_simps)
  then have "push_bit i (1 :: 64 word) \<noteq> 0" by (metis bit_0_eq bot_apply bot_bool_def)
  ultimately show ?thesis by (simp del: push_bit_of_1)
qed

lemma test_place_bit: "test_place s p \<longleftrightarrow> bit (s ! (p div 64)) (p mod 64)"
  unfolding test_place_def by (rule and_one_bit) simp

lemma test_set_place: "in_set s p \<Longrightarrow> test_place (set_place s p) q \<longleftrightarrow> q = p \<or> test_place s q"
proof -
  assume p: "in_set s p"
  show ?thesis
  proof (cases "q div 64 = p div 64")
    case True
    then have "q = p \<longleftrightarrow> q mod 64 = p mod 64" by (metis div_mult_mod_eq)
    then show ?thesis
      using p True by (auto simp: test_place_bit set_place_def in_set_def bit_simps)
  next
    case False
    then have "q \<noteq> p" by auto
    then show ?thesis using False by (simp add: test_place_bit set_place_def)
  qed
qed

lemma in_set_place [simp]: "in_set (set_place s p) q \<longleftrightarrow> in_set s q" "length (set_place s p) = length s"
  by (simp_all add: in_set_def set_place_def)

section \<open>The history\<close>

record history =
  hy_index :: "string \<rightharpoonup> nat"
  hy_parents :: "nat list list"

text \<open>\<^verbatim>\<open>BlankLine\<close> is the slice of no fields, which panics.\<close>

datatype history_error = ListingUnread | ParentOutside string | BlankLine

definition line_commit :: "string \<Rightarrow> string" where
  "line_commit line = (case cut_byte line (CHR '' '') of None \<Rightarrow> line | Some (c, _) \<Rightarrow> c)"

fun index_lines :: "(string \<rightharpoonup> nat) \<Rightarrow> nat \<Rightarrow> string list \<Rightarrow> (history_error, string \<rightharpoonup> nat) result" where
  "index_lines ix i [] = Inr ix"
| "index_lines ix i (line # ls) =
     (if line_commit line = [] then Inl ListingUnread else index_lines (ix(line_commit line \<mapsto> i)) (i + 1) ls)"

definition parents_line :: "(string \<rightharpoonup> nat) \<Rightarrow> string \<Rightarrow> (history_error, nat list) result" where
  "parents_line ix line =
     (case go_fields line of
        [] \<Rightarrow> Inl BlankLine
      | _ # ps \<Rightarrow> map_result (\<lambda>p. case ix p of None \<Rightarrow> Inl (ParentOutside p) | Some j \<Rightarrow> Inr j) ps)"

definition readHistory :: "string \<Rightarrow> (history_error, history) result" where
  "readHistory out =
     (let lines = split_byte (CHR 0x0A) out
      in rbind (index_lines Map.empty 0 lines) (\<lambda>ix.
         rbind (map_result (parents_line ix) lines) (\<lambda>ps. Inr \<lparr>hy_index = ix, hy_parents = ps\<rparr>)))"

definition has_commit :: "history \<Rightarrow> string \<Rightarrow> bool" where
  "has_commit h c \<longleftrightarrow> hy_index h c \<noteq> None"

section \<open>The walk\<close>

text \<open>
  One popped place's parents, in order: a place not in the set is put in it and on the stack,
  whose top is the list's head. A place outside the set is where the code would panic.
\<close>

fun push_parents :: "64 word list \<Rightarrow> nat list \<Rightarrow> nat list \<Rightarrow> (64 word list \<times> nat list) option" where
  "push_parents s stack [] = Some (s, stack)"
| "push_parents s stack (p # ps) =
     (if \<not> in_set s p then None
      else if test_place s p then push_parents s stack ps
      else push_parents (set_place s p) (p # stack) ps)"

definition places :: "64 word list \<Rightarrow> nat set" where
  "places s = {p. in_set s p \<and> test_place s p}"

lemma in_set_less: "in_set s p \<longleftrightarrow> p < 64 * length s"
  by (auto simp: in_set_def div_less_iff_less_mult mult.commute less_mult_imp_div_less)

lemma places_le: "places s \<subseteq> {..<64 * length s}"
  by (auto simp: places_def in_set_less)

lemma finite_places [simp]: "finite (places s)"
  using places_le finite_subset by blast

lemma places_set: "in_set s p \<Longrightarrow> places (set_place s p) = insert p (places s)"
  by (auto simp: places_def test_set_place)

lemma push_parents_props:
  assumes "push_parents s stack ps = Some (s', stack')"
  shows "places s' = places s \<union> set ps \<and> length s' = length s \<and>
    (\<exists>new. stack' = new @ stack \<and> set new = set ps - places s \<and> distinct new)"
  using assms
proof (induction s stack ps arbitrary: s' stack' rule: push_parents.induct)
  case (2 s stack p ps)
  have inb: "in_set s p" using 2(3) by (auto split: if_splits)
  show ?case
  proof (cases "test_place s p")
    case True
    then have "p \<in> places s" using inb by (simp add: places_def)
    then show ?thesis using 2(1) [OF _ True] 2(3) inb True by auto
  next
    case False
    then have np: "p \<notin> places s" by (simp add: places_def)
    have "push_parents (set_place s p) (p # stack) ps = Some (s', stack')" using 2(3) inb False by simp
    from 2(2) [OF _ False this] inb obtain new where n: "places s' = places (set_place s p) \<union> set ps" "length s' = length s"
      "stack' = new @ p # stack" "set new = set ps - places (set_place s p)" "distinct new"
      by auto
    have "stack' = (new @ [p]) @ stack" "set (new @ [p]) = set (p # ps) - places s" "distinct (new @ [p])"
      using n np places_set [OF inb] by auto
    then show ?thesis using n places_set [OF inb] by auto
  qed
qed auto

function reach_loop :: "nat list list \<Rightarrow> 64 word list \<Rightarrow> nat list \<Rightarrow> 64 word list option" where
  "reach_loop parents s [] = Some s"
| "reach_loop parents s (k # stack) =
     (if k \<ge> length parents then None
      else
        case push_parents s stack (parents ! k) of
          None \<Rightarrow> None
        | Some (s', stack') \<Rightarrow> reach_loop parents s' stack')"
  by pat_completeness auto
termination
proof (relation "measure (\<lambda>(parents, s, stack). 2 * (64 * length s - card (places s)) + length stack)", goal_cases)
  case (2 parents s k stack r s' stack')
  then have pp: "push_parents s stack (parents ! k) = Some (s', stack')" by simp
  obtain new where n: "places s' = places s \<union> set (parents ! k)" "length s' = length s" "stack' = new @ stack"
    "set new = set (parents ! k) - places s" "distinct new"
    using push_parents_props [OF pp] by blast
  have "places s' = places s \<union> set new" "places s \<inter> set new = {}" using n(1,4) by auto
  then have "card (places s') = card (places s) + length new"
    using n(5) by (simp add: card_Un_disjoint distinct_card)
  moreover have "card (places s') \<le> 64 * length s'" using card_mono [OF _ places_le [of s']] by simp
  ultimately show ?case using n(2,3) by simp
qed simp

definition empty_set :: "nat \<Rightarrow> 64 word list" where
  "empty_set n = replicate ((n + 63) div 64) 0"

text \<open>
  \<^verbatim>\<open>reaches\<close>, with what it keeps: for each place walked from, the set found.
\<close>

definition reaches ::
  "history \<Rightarrow> (nat \<rightharpoonup> 64 word list) \<Rightarrow> string \<Rightarrow> string \<Rightarrow> (bool \<times> (nat \<rightharpoonup> 64 word list)) option" where
  "reaches h below from to =
     (let i = (case hy_index h from of None \<Rightarrow> 0 | Some i \<Rightarrow> i);
          j = (case hy_index h to of None \<Rightarrow> 0 | Some j \<Rightarrow> j)
      in case below i of
           Some s \<Rightarrow> if in_set s j then Some (test_place s j, below) else None
         | None \<Rightarrow>
             (let e = empty_set (length (hy_parents h))
              in if \<not> in_set e i then None
                 else
                   case reach_loop (hy_parents h) (set_place e i) [i] of
                     None \<Rightarrow> None
                   | Some s \<Rightarrow> if in_set s j then Some (test_place s j, below(i \<mapsto> s)) else None))"

section \<open>What the walk finds\<close>

definition parent_places :: "nat list list \<Rightarrow> (nat \<times> nat) set" where
  "parent_places parents = {(k, p). k < length parents \<and> p \<in> set (parents ! k)}"

definition places_ok :: "nat list list \<Rightarrow> bool" where
  "places_ok parents \<longleftrightarrow> list_all (list_all (\<lambda>p. p < length parents)) parents"

lemma push_parents_total: "\<forall>p \<in> set ps. in_set s p \<Longrightarrow> \<exists>r. push_parents s stack ps = Some r"
  by (induction s stack ps rule: push_parents.induct) auto

text \<open>The loop's invariant: what is on the stack is in the set, and what is not has its parents in it.\<close>

lemma reach_loop_finds:
  assumes "places_ok parents" "length parents \<le> 64 * length s" "set stack \<subseteq> places s" "places s \<subseteq> {..<length parents}"
    "\<forall>k \<in> places s - set stack. set (parents ! k) \<subseteq> places s"
  shows "\<exists>s'. reach_loop parents s stack = Some s' \<and> length s' = length s \<and> places s' = (parent_places parents)\<^sup>* `` places s"
  using assms
proof (induction parents s stack rule: reach_loop.induct)
  case (1 parents s)
  have "(parent_places parents)\<^sup>* `` places s \<subseteq> places s"
    using 1(5) by (auto simp: parent_places_def elim!: rtrancl_induct)
  then show ?case by auto
next
  case (2 parents s k stack)
  have k: "k < length parents" "k \<in> places s" using 2(4,5) by auto
  have ps: "\<forall>p \<in> set (parents ! k). p < length parents" using 2(2) k(1) nth_mem [OF k(1)] by (auto simp: places_ok_def list_all_iff)
  obtain s' stack' where pp: "push_parents s stack (parents ! k) = Some (s', stack')"
    using push_parents_total [of "parents ! k" s stack] ps 2(3) by (force simp: in_set_less)
  obtain new where n: "places s' = places s \<union> set (parents ! k)" "length s' = length s" "stack' = new @ stack"
    "set new = set (parents ! k) - places s"
    using push_parents_props [OF pp] by blast
  have closed: "\<forall>j \<in> places s' - set stack'. set (parents ! j) \<subseteq> places s'"
    using 2(6) n by auto
  have "\<exists>s''. reach_loop parents s' stack' = Some s'' \<and> length s'' = length s' \<and> places s'' = (parent_places parents)\<^sup>* `` places s'"
    using k 2(2-5) n ps closed by (intro 2(1) [OF _ pp refl]) auto
  moreover have "(parent_places parents)\<^sup>* `` places s' = (parent_places parents)\<^sup>* `` places s"
  proof -
    have "set (parents ! k) \<subseteq> (parent_places parents)\<^sup>* `` places s"
      using k by (auto simp: parent_places_def intro!: r_into_rtrancl)
    then show ?thesis unfolding n(1) by (auto intro: rtrancl_trans)
  qed
  ultimately show ?case using k(1) pp n(2) by auto
qed

section \<open>The places are the commits listed\<close>

definition commit_lines :: "string \<Rightarrow> string list" where
  "commit_lines out = split_byte (CHR 0x0A) out"

text \<open>The parents the listing gives: the fields of a commit's line after the first.\<close>

definition commit_parents :: "string \<Rightarrow> (string \<times> string) set" where
  "commit_parents out = {(line_commit line, p) | line p. line \<in> set (commit_lines out) \<and> p \<in> set (tl (go_fields line))}"

definition listed_once :: "string \<Rightarrow> bool" where
  "listed_once out \<longleftrightarrow> distinct (map line_commit (commit_lines out))"

lemma index_lines_iff:
  assumes "index_lines ix0 i0 ls = Inr ix" "distinct (map line_commit ls)" "\<forall>l \<in> set ls. ix0 (line_commit l) = None"
  shows "ix c = Some i \<longleftrightarrow> ix0 c = Some i \<or> (i0 \<le> i \<and> i < i0 + length ls \<and> line_commit (ls ! (i - i0)) = c)"
  using assms
proof (induction ls arbitrary: ix0 i0)
  case (Cons l ls)
  have "index_lines (ix0(line_commit l \<mapsto> i0)) (i0 + 1) ls = Inr ix"
    using Cons.prems(1) by (auto split: if_splits)
  from Cons.IH [OF this] Cons.prems(2,3)
  have e: "ix c = Some i \<longleftrightarrow> (ix0(line_commit l \<mapsto> i0)) c = Some i \<or>
      (i0 + 1 \<le> i \<and> i < i0 + 1 + length ls \<and> line_commit (ls ! (i - (i0 + 1))) = c)"
    by (force simp: image_iff)
  have "ix0 (line_commit l) = None" using Cons.prems(3) by simp
  moreover have "i - i0 = Suc (i - (i0 + 1))" if "i0 + 1 \<le> i" using that by simp
  then have "(i0 + 1 \<le> i \<and> i < i0 + 1 + length ls \<and> line_commit (ls ! (i - (i0 + 1))) = c) \<longleftrightarrow>
      (i0 + 1 \<le> i \<and> i < i0 + length (l # ls) \<and> line_commit ((l # ls) ! (i - i0)) = c)"
    by (cases "i0 + 1 \<le> i") auto
  moreover have "(i0 \<le> i \<and> i < i0 + length (l # ls) \<and> line_commit ((l # ls) ! (i - i0)) = c) \<longleftrightarrow>
      (i = i0 \<and> line_commit l = c) \<or>
      (i0 + 1 \<le> i \<and> i < i0 + length (l # ls) \<and> line_commit ((l # ls) ! (i - i0)) = c)"
    by (cases "i = i0") auto
  ultimately show ?case unfolding e by (auto split: if_splits)
qed auto

lemma history_parts:
  assumes "readHistory out = Inr h" "listed_once out"
  shows "length (hy_parents h) = length (commit_lines out)"
    and "hy_index h c = Some i \<longleftrightarrow> i < length (commit_lines out) \<and> line_commit (commit_lines out ! i) = c"
    and "i < length (commit_lines out) \<Longrightarrow>
      map (hy_index h) (tl (go_fields (commit_lines out ! i))) = map Some (hy_parents h ! i)"
proof -
  obtain ix ps where h: "index_lines Map.empty 0 (commit_lines out) = Inr ix" "map_result (parents_line ix) (commit_lines out) = Inr ps"
    "h = \<lparr>hy_index = ix, hy_parents = ps\<rparr>"
    using assms(1) by (auto simp: readHistory_def commit_lines_def Let_def rbind_eq_Inr)
  show "length (hy_parents h) = length (commit_lines out)" using h map_result_length by auto
  show "hy_index h c = Some i \<longleftrightarrow> i < length (commit_lines out) \<and> line_commit (commit_lines out ! i) = c"
    using index_lines_iff [OF h(1), of c i] assms(2) h(3) by (simp add: listed_once_def)
  assume i: "i < length (commit_lines out)"
  have "map ix fs = map Some js"
    if "map_result (\<lambda>p. case ix p of None \<Rightarrow> Inl (ParentOutside p) | Some j \<Rightarrow> Inr j) fs = Inr js" for fs js
    using that by (induction fs arbitrary: js) (auto simp: rbind_eq_Inr split: option.splits)
  then show "map (hy_index h) (tl (go_fields (commit_lines out ! i))) = map Some (hy_parents h ! i)"
    using map_result_nth [OF h(2) i] h(3) by (simp add: parents_line_def split: list.splits)
qed

lemma history_places_ok:
  assumes "readHistory out = Inr h" "listed_once out"
  shows "places_ok (hy_parents h)"
proof -
  note p = history_parts [OF assms]
  have "q < length (hy_parents h)" if "i < length (hy_parents h)" "q \<in> set (hy_parents h ! i)" for i q
  proof -
    have "Some q \<in> set (map (hy_index h) (tl (go_fields (commit_lines out ! i))))"
      using that p(1) p(3) [of i] by simp
    then obtain c where "hy_index h c = Some q" by (metis (no_types, lifting) in_set_conv_nth length_map nth_map)
    then show ?thesis using p(1,2) by simp
  qed
  then show ?thesis by (auto simp: places_ok_def list_all_length list_all_iff)
qed

lemma places_commits:
  assumes "readHistory out = Inr h" "listed_once out" "hy_index h a = Some i"
  shows "(a, b) \<in> (commit_parents out)\<^sup>* \<longleftrightarrow> (\<exists>j. hy_index h b = Some j \<and> (i, j) \<in> (parent_places (hy_parents h))\<^sup>*)"
proof -
  note p = history_parts [OF assms(1,2)]
  have parent_step: "(c, d) \<in> commit_parents out \<longleftrightarrow> (\<exists>l. hy_index h d = Some l \<and> (k, l) \<in> parent_places (hy_parents h))"
    if k: "hy_index h c = Some k" for c d k
  proof -
    have kl: "k < length (commit_lines out)" "line_commit (commit_lines out ! k) = c" using k p(2) by auto
    have u: "line = commit_lines out ! k" if mem: "line \<in> set (commit_lines out)" and lc: "line_commit line = c" for line
    proof -
      obtain m where m: "m < length (commit_lines out)" "line = commit_lines out ! m" using mem by (auto simp: in_set_conv_nth)
      then have "hy_index h c = Some m" using p(2) lc by auto
      then show ?thesis using k m by simp
    qed
    have "(c, d) \<in> commit_parents out \<longleftrightarrow> d \<in> set (tl (go_fields (commit_lines out ! k)))"
      using u kl by (auto simp: commit_parents_def)
    also have "\<dots> \<longleftrightarrow> (\<exists>l. hy_index h d = Some l \<and> l \<in> set (hy_parents h ! k))"
    proof -
      have m: "set (map (hy_index h) (tl (go_fields (commit_lines out ! k)))) = Some ` set (hy_parents h ! k)"
        using p(3) [OF kl(1)] by simp
      have inj: "e = d" if "hy_index h e = Some l" "hy_index h d = Some l" for e l using that p(2) by auto
      show ?thesis
      proof
        assume "d \<in> set (tl (go_fields (commit_lines out ! k)))"
        then have "hy_index h d \<in> Some ` set (hy_parents h ! k)" using m by auto
        then show "\<exists>l. hy_index h d = Some l \<and> l \<in> set (hy_parents h ! k)" by auto
      next
        assume "\<exists>l. hy_index h d = Some l \<and> l \<in> set (hy_parents h ! k)"
        then obtain l where l: "hy_index h d = Some l" "Some l \<in> set (map (hy_index h) (tl (go_fields (commit_lines out ! k))))"
          using m by auto
        have "Some l \<in> hy_index h ` set (tl (go_fields (commit_lines out ! k)))" using l(2) unfolding set_map .
        then obtain e where e: "Some l = hy_index h e" "e \<in> set (tl (go_fields (commit_lines out ! k)))" by (rule imageE)
        show "d \<in> set (tl (go_fields (commit_lines out ! k)))" using inj [OF e(1) [symmetric] l(1)] e(2) by simp
      qed
    qed
    finally show ?thesis using kl p(1) by (simp add: parent_places_def)
  qed
  show ?thesis
  proof
    assume "(a, b) \<in> (commit_parents out)\<^sup>*"
    then show "\<exists>j. hy_index h b = Some j \<and> (i, j) \<in> (parent_places (hy_parents h))\<^sup>*"
    proof (induction rule: rtrancl_induct)
      case base
      then show ?case using assms(3) by blast
    next
      case (step c d)
      then obtain k where k: "hy_index h c = Some k" "(i, k) \<in> (parent_places (hy_parents h))\<^sup>*" by blast
      with parent_step [OF k(1)] step(2) show ?case by (meson rtrancl_into_rtrancl)
    qed
  next
    have backwards: "(a, b) \<in> (commit_parents out)\<^sup>*" if "(i, j) \<in> (parent_places (hy_parents h))\<^sup>*" "hy_index h b = Some j" for j b
      using that
    proof (induction arbitrary: b rule: rtrancl_induct)
      case base
      then show ?case using assms(3) p(2) by auto
    next
      case (step k j)
      have k: "k < length (commit_lines out)" using step(2) p(1) by (simp add: parent_places_def)
      then have c: "hy_index h (line_commit (commit_lines out ! k)) = Some k" using p(2) by simp
      then have "(line_commit (commit_lines out ! k), b) \<in> commit_parents out"
        using parent_step [OF c] step(2,4) by blast
      then show ?case using step(3) [OF c] by (rule rtrancl_into_rtrancl [rotated])
    qed
    assume "\<exists>j. hy_index h b = Some j \<and> (i, j) \<in> (parent_places (hy_parents h))\<^sup>*"
    then show "(a, b) \<in> (commit_parents out)\<^sup>*" using backwards by blast
  qed
qed

section \<open>The answers\<close>

text \<open>What is kept: for each place walked from, a set as long as the listing needs, of all it reaches.\<close>

definition good_below :: "history \<Rightarrow> (nat \<rightharpoonup> 64 word list) \<Rightarrow> bool" where
  "good_below h below \<longleftrightarrow>
     (\<forall>i s. below i = Some s \<longrightarrow>
        length (hy_parents h) \<le> 64 * length s \<and> places s = (parent_places (hy_parents h))\<^sup>* `` {i})"

lemma good_below_empty: "good_below h Map.empty"
  by (simp add: good_below_def)

lemma empty_set_places [simp]: "places (empty_set n) = {}"
  by (auto simp: places_def empty_set_def test_place_bit in_set_def)

lemma empty_set_holds: "n \<le> 64 * length (empty_set n)"
  by (simp add: empty_set_def)

lemma walk_finds:
  assumes "places_ok (hy_parents h)" "i < length (hy_parents h)"
  defines "e \<equiv> empty_set (length (hy_parents h))"
  shows "in_set e i \<and> (\<exists>s. reach_loop (hy_parents h) (set_place e i) [i] = Some s \<and>
    length (hy_parents h) \<le> 64 * length s \<and> places s = (parent_places (hy_parents h))\<^sup>* `` {i})"
proof -
  have l: "length (hy_parents h) \<le> 64 * length e" unfolding e_def by (rule empty_set_holds)
  then have i: "in_set e i" using assms(2) by (simp add: in_set_less)
  have p: "places (set_place e i) = {i}" using places_set [OF i] by (simp add: e_def)
  have "\<exists>s. reach_loop (hy_parents h) (set_place e i) [i] = Some s \<and> length s = length (set_place e i) \<and>
      places s = (parent_places (hy_parents h))\<^sup>* `` places (set_place e i)"
    by (rule reach_loop_finds) (use assms(1,2) l p in auto)
  then show ?thesis using i l p by auto
qed

lemma reaches_finds:
  assumes h: "readHistory out = Inr h" "listed_once out"
    and c: "has_commit h a" "has_commit h b" and g: "good_below h below"
  shows "\<exists>below'. reaches h below a b = Some ((a, b) \<in> (commit_parents out)\<^sup>*, below') \<and> good_below h below'"
proof -
  obtain i j where ij: "hy_index h a = Some i" "hy_index h b = Some j" using c by (auto simp: has_commit_def)
  note p = history_parts [OF h]
  have l: "i < length (hy_parents h)" "j < length (hy_parents h)" using ij p(1,2) by auto
  have answer: "in_set s j \<and> (test_place s j \<longleftrightarrow> (a, b) \<in> (commit_parents out)\<^sup>*)"
    if "length (hy_parents h) \<le> 64 * length s" "places s = (parent_places (hy_parents h))\<^sup>* `` {i}" for s
  proof -
    have n: "in_set s j" using that(1) l(2) by (simp add: in_set_less)
    then have "test_place s j \<longleftrightarrow> j \<in> places s" by (simp add: places_def)
    then show ?thesis using n that(2) places_commits [OF h ij(1), of b] ij(2) by simp
  qed
  show ?thesis
  proof (cases "below i")
    case None
    obtain s where s: "in_set (empty_set (length (hy_parents h))) i"
      "reach_loop (hy_parents h) (set_place (empty_set (length (hy_parents h))) i) [i] = Some s"
      "length (hy_parents h) \<le> 64 * length s" "places s = (parent_places (hy_parents h))\<^sup>* `` {i}"
      using walk_finds [OF history_places_ok [OF h] l(1)] by blast
    have "good_below h (below(i \<mapsto> s))" using g s(3,4) by (simp add: good_below_def)
    then show ?thesis using answer [OF s(3,4)] s(1,2) ij None by (simp add: reaches_def Let_def)
  next
    case (Some s)
    then have "length (hy_parents h) \<le> 64 * length s" "places s = (parent_places (hy_parents h))\<^sup>* `` {i}"
      using g by (simp_all add: good_below_def)
    from answer [OF this] show ?thesis using Some ij g by (simp add: reaches_def Let_def)
  qed
qed

text \<open>
  C38: main's history, read once, answers what git would. Where the listing read gives each
  commit once, \<^verbatim>\<open>reaches\<close> always answers, for two commits main reaches, and the answer is whether
  the second is the first or an ancestor of it by the parents listed; and what it keeps for later
  questions stays right, whatever was asked before.
\<close>

theorem reaches_iff:
  assumes "readHistory out = Inr h" "listed_once out" "has_commit h a" "has_commit h b" "good_below h below"
  shows "\<exists>below'. reaches h below a b = Some ((a, b) \<in> (commit_parents out)\<^sup>*, below') \<and> good_below h below'"
  using assms by (rule reaches_finds)

text \<open>A merge of two commits with one parent.\<close>

definition merge_listing :: string where
  "merge_listing = ''m l r'' @ [CHR 0x0A] @ ''l o'' @ [CHR 0x0A] @ ''r o'' @ [CHR 0x0A] @ ''o''"

definition merge_history :: history where
  "merge_history = \<lparr>hy_index = [''m'' \<mapsto> 0, ''l'' \<mapsto> 1, ''r'' \<mapsto> Suc (Suc 0), ''o'' \<mapsto> Suc (Suc (Suc 0))], hy_parents = [[1, 2], [3], [3], []]\<rparr>"

lemma merge_lines: "commit_lines merge_listing = [''m l r'', ''l o'', ''r o'', ''o'']"
  by code_simp

lemma merge_index: "index_lines Map.empty 0 (commit_lines merge_listing) = Inr (hy_index merge_history)"
  by (simp add: merge_lines merge_history_def line_commit_def cut_byte_def)

lemma merge_fields: "go_fields ''m l r'' = [''m'', ''l'', ''r'']"
  by (simp add: go_fields_def chunks_ascii byte_val_def space_chunk_ascii)

lemma merge_fields_one: "go_fields ''l o'' = [''l'', ''o'']" "go_fields ''r o'' = [''r'', ''o'']" "go_fields ''o'' = [''o'']"
  by (simp_all add: go_fields_def chunks_ascii byte_val_def space_chunk_ascii)

lemma merge_parents:
  "map_result (parents_line (hy_index merge_history)) (commit_lines merge_listing) = Inr (hy_parents merge_history)"
  by (simp add: merge_lines parents_line_def merge_fields merge_fields_one merge_history_def)

lemma merge_history_read: "readHistory merge_listing = Inr merge_history"
  using merge_index merge_parents by (simp add: readHistory_def Let_def flip: commit_lines_def)

lemma reaches_iff_witness:
  "\<exists>below'. reaches merge_history Map.empty ''m'' ''o'' =
     Some ((''m'', ''o'') \<in> (commit_parents merge_listing)\<^sup>*, below') \<and> good_below merge_history below'"
  by (rule reaches_iff [OF merge_history_read _ _ _ good_below_empty])
    (simp_all add: listed_once_def merge_lines line_commit_def cut_byte_def has_commit_def merge_history_def)

end
