(* ===== verification/WrittenCommit.thy ===== *)
theory WrittenCommit
  imports HookRepo KnotRound
begin

text \<open>
  The objects git makes of one file and a commit that holds it, as git documents them, and that the
  hook's reader of one-file commits (\<^verbatim>\<open>valleyhook/record.go\<close>) reads them back within its bounds.
\<close>

section \<open>The objects\<close>

definition object_name :: "string \<Rightarrow> bool" where
  "object_name oid \<longleftrightarrow> length oid = 40 \<and> list_all is_lower_hex oid"

text \<open>A tree of one plain file.\<close>

definition file_tree :: "string \<Rightarrow> string \<Rightarrow> string" where
  "file_tree fname blob = ''100644 '' @ fname @ CHR 0x00 # hex_decode blob"

definition tree_header :: "string \<Rightarrow> string" where
  "tree_header tree = ''tree '' @ tree"

definition parent_header :: "string \<Rightarrow> string" where
  "parent_header p = ''parent '' @ p"

text \<open>
  A commit: its tree, its parents, the lines after them (an author, a committer and what else git
  adds), a blank line and the message.
\<close>

definition commit_headers :: "string \<Rightarrow> string list \<Rightarrow> string list \<Rightarrow> string list" where
  "commit_headers tree ps idents = tree_header tree # map parent_header ps @ idents"

definition commit_text :: "string \<Rightarrow> string list \<Rightarrow> string list \<Rightarrow> string \<Rightarrow> string" where
  "commit_text tree ps idents message =
     join_str [CHR 0x0A] (commit_headers tree ps idents) @ CHR 0x0A # CHR 0x0A # message"

definition ident_line :: "string \<Rightarrow> bool" where
  "ident_line l \<longleftrightarrow> l \<noteq> [] \<and> CHR 0x0A \<notin> set l \<and> \<not> has_prefix l ''parent ''"

section \<open>They are read back\<close>

lemma cut_lines:
  "ls \<noteq> [] \<Longrightarrow> \<forall>l \<in> set ls. l \<noteq> [] \<and> c \<notin> set l \<Longrightarrow>
     cut_str (join_str [c] ls @ c # c # m) [c, c] = Some (join_str [c] ls, m)"
proof -
  have "index_str (join_str [c] ls @ c # c # m) [c, c] = Some (length (join_str [c] ls))"
    if "ls \<noteq> []" "\<forall>l \<in> set ls. l \<noteq> [] \<and> c \<notin> set l"
    using that
  proof (induction ls)
    case (Cons l ls)
    note skip = index_str_skip [of c l _ "[c]"]
    show ?case
    proof (cases ls)
      case Nil
      then show ?thesis using skip [of "c # c # m"] Cons.prems by simp
    next
      case (Cons k ks)
      then have i: "index_str (join_str [c] ls @ c # c # m) [c, c] = Some (length (join_str [c] ls))"
        using Cons.IH Cons.prems by simp
      obtain x xs where x: "join_str [c] ls = x # xs" "x \<noteq> c"
        using Cons.prems Cons by (cases k; cases ks; auto)
      have "index_str (c # join_str [c] ls @ c # c # m) [c, c] =
          map_option Suc (index_str (join_str [c] ls @ c # c # m) [c, c])"
        using x(2) unfolding x(1) by (simp add: map_option_case)
      then show ?thesis
        using skip [of "c # join_str [c] ls @ c # c # m"] i Cons Cons.prems by (simp add: join_str_Cons)
    qed
  qed simp
  then show "ls \<noteq> [] \<Longrightarrow> \<forall>l \<in> set ls. l \<noteq> [] \<and> c \<notin> set l \<Longrightarrow>
     cut_str (join_str [c] ls @ c # c # m) [c, c] = Some (join_str [c] ls, m)"
    by (simp add: cut_str_def)
qed

lemma hex_clean: "list_all is_lower_hex s \<Longrightarrow> CHR 0x0A \<notin> set s \<and> CHR '' '' \<notin> set s \<and> CHR 0x00 \<notin> set s"
  by (auto simp: list_all_iff is_lower_hex_def byte_val_def)

lemma object_hex: "object_name oid \<longleftrightarrow> isHexID oid 20"
  by (auto simp: object_name_def isHexID_def)

lemma tree_header: "cut_prefix (tree_header tree) ''tree '' = Some tree"
  by (simp add: tree_header_def)

lemma headers_clean:
  assumes "object_name tree" "list_all object_name ps" "list_all ident_line idents"
  shows "\<forall>l \<in> set (commit_headers tree ps idents). l \<noteq> [] \<and> CHR 0x0A \<notin> set l"
  using assms hex_clean
  by (auto simp: commit_headers_def tree_header_def parent_header_def ident_line_def object_name_def list_all_iff)

lemma link_parents_read:
  "list_all object_name ps \<Longrightarrow> list_all ident_line idents \<Longrightarrow>
     link_parents 20 qs (map parent_header ps @ idents) = Inr (qs @ ps)"
proof (induction ps arbitrary: qs)
  case Nil
  then show ?case by (cases idents) (auto simp: ident_line_def list_ex_iff list_all_iff)
next
  case (Cons p ps)
  then show ?case by (simp add: parent_header_def has_prefix_def trim_prefix_def object_hex Let_def)
qed

lemma commitLinks_read:
  assumes "object_name tree" "list_all object_name ps" "list_all ident_line idents"
  shows "commitLinks (commit_text tree ps idents message) 20 = Inr (tree, ps)"
proof -
  note clean = headers_clean [OF assms]
  have ne: "commit_headers tree ps idents \<noteq> []" by (simp add: commit_headers_def)
  have cut: "cut_str (commit_text tree ps idents message) [CHR 0x0A, CHR 0x0A] =
      Some (join_str [CHR 0x0A] (commit_headers tree ps idents), message)"
    unfolding commit_text_def by (rule cut_lines [OF ne clean])
  have split: "split_byte (CHR 0x0A) (join_str [CHR 0x0A] (commit_headers tree ps idents)) = commit_headers tree ps idents"
    by (rule split_join_byte [OF ne]) (use clean in blast)
  show ?thesis
    unfolding commitLinks_def cut
    using split link_parents_read [OF assms(2,3), of "[]"] assms(1) tree_header
    by (simp add: commit_headers_def Let_def object_hex del: cut_prefix_Some)
qed

definition plain_name :: "string \<Rightarrow> bool" where
  "plain_name fname \<longleftrightarrow> fname \<noteq> [] \<and> fname \<noteq> ''.'' \<and> fname \<noteq> ''..'' \<and> CHR ''/'' \<notin> set fname \<and> CHR 0x00 \<notin> set fname"

lemma drop_after: "length pre = n \<Longrightarrow> drop n (pre @ t) = t"
  by simp

lemma treeEntry_read:
  assumes "plain_name fname" "object_name blob"
  shows "treeEntry (file_tree fname blob) 20 = Inr (''100644'', fname, blob, [])"
proof -
  have l: "length (hex_decode blob) = 20" using assms(2) by (simp add: length_hex_decode object_name_def)
  have sp: "index_byte (file_tree fname blob) (CHR '' '') = Some 6"
    using index_byte_append [of "CHR '' ''" "''100644''" "fname @ CHR 0x00 # hex_decode blob"] by (simp add: file_tree_def)
  have "CHR 0x00 \<notin> set (''100644 '' @ fname)" using assms(1) by (simp add: plain_name_def)
  from index_byte_append [OF this, of "hex_decode blob"]
  have nul: "index_byte (file_tree fname blob) (CHR 0x00) = Some (7 + length fname)"
    by (simp add: file_tree_def)
  have "hex_encode (hex_decode blob) = blob"
    using assms(2) by (intro hex_encode_decode) (auto simp: object_name_def list_all_iff)
  note enc = this
  have parts: "file_tree fname blob = (''100644 '' @ fname @ [CHR 0x00]) @ hex_decode blob" by (simp add: file_tree_def)
  have d: "drop (7 + length fname + 1) (file_tree fname blob) = hex_decode blob"
    unfolding parts by (rule drop_after) simp
  have "take 6 (file_tree fname blob) = ''100644''"
    "take (7 + length fname - (6 + 1)) (drop (6 + 1) (file_tree fname blob)) = fname"
    "drop (7 + length fname + 1 + 20) (file_tree fname blob) = []"
    "length (file_tree fname blob) = 28 + length fname"
    using l by (simp_all add: file_tree_def)
  then show ?thesis
    using assms(1) l d enc
    by (auto simp: treeEntry_def sp nul Let_def plain_name_def gitModes_def list_ex_iff)
qed

lemma written_read:
  assumes c: "objs c = Some (''commit'', commit_text tree ps idents message)" "object_name c"
    and t: "objs tree = Some (''tree'', file_tree (of_name l) blob)" "object_name tree"
    and b: "objs blob = Some (''blob'', data)" "object_name blob"
    and ps: "list_all object_name ps" "list_all ident_line idents" "plain_name (of_name l)"
    and sizes: "length (commit_text tree ps idents message) \<le> of_commit l" "length (of_name l) + 28 \<le> of_tree l" "length data \<le> of_blob l"
    and all: "of_commit l + of_tree l + of_blob l \<le> 1024 * 1024"
  shows "readOneFile objs c l = Inr \<lparr>fc_parents = ps, fc_file = data\<rparr>"
proof -
  have h: "length c div 2 = 20" using c(2) by (simp add: object_name_def)
  have lt: "length (file_tree (of_name l) blob) = length (of_name l) + 28" "file_tree (of_name l) blob \<noteq> []"
    using b(2) by (simp_all add: file_tree_def length_hex_decode object_name_def)
  let ?n = "length (commit_text tree ps idents message)"
  have r1: "read_object objs attestationBudget 0 c ''commit'' (of_commit l) = Inr (commit_text tree ps idents message, ?n)"
    using c sizes all by (simp add: read_object_def attestationBudget_def)
  have r2: "read_object objs attestationBudget ?n tree ''tree'' (of_tree l) =
      Inr (file_tree (of_name l) blob, ?n + length (file_tree (of_name l) blob))"
    using t sizes all lt by (simp add: read_object_def attestationBudget_def)
  have r3: "read_object objs attestationBudget (?n + length (file_tree (of_name l) blob)) blob ''blob'' (of_blob l) =
      Inr (data, ?n + length (file_tree (of_name l) blob) + length data)"
    using b sizes all lt by (simp add: read_object_def attestationBudget_def)
  show ?thesis
    unfolding readOneFile_def readFileCommit_def h
    by (simp add: Let_def r1 commitLinks_read [OF t(2) ps(1,2)] r2 lt(2) treeEntry_read [OF ps(3) b(2)] r3)
qed

lemma join_str_length: "ls \<noteq> [] \<Longrightarrow> length (join_str [c] ls) + 1 = sum_list (map (\<lambda>l. length l + 1) ls)"
  by (induction ls rule: induct_list012) auto

lemma commit_length:
  assumes "object_name tree" "list_all object_name ps"
  shows "length (commit_text tree ps idents message) =
    47 + 48 * length ps + sum_list (map (\<lambda>l. length l + 1) idents) + length message"
proof -
  have "sum_list (map (\<lambda>l. length l + 1) (map parent_header ps)) = 48 * length ps"
    using assms(2) by (induction ps) (auto simp: parent_header_def object_name_def)
  then have "sum_list (map (\<lambda>l. length l + 1) (commit_headers tree ps idents)) =
      46 + 48 * length ps + sum_list (map (\<lambda>l. length l + 1) idents)"
    using assms(1) by (simp add: commit_headers_def tree_header_def object_name_def)
  then show ?thesis
    using join_str_length [of "commit_headers tree ps idents" "CHR 0x0A"] by (simp add: commit_text_def) (simp add: commit_headers_def)
qed

end
