(* ===== verification/RestackWrite.thy ===== *)
theory RestackWrite
  imports RebaseRecord HookDecision JsonSize JsonMore WrittenCommit
begin

text \<open>
  What the engine writes and what the push hook admits, together: a version \<^verbatim>\<open>buildVersion\<close>
  (\<^verbatim>\<open>rebase/record.go\<close>) adds is a row of the hook's table of transitions (\<^verbatim>\<open>valleyhook/record.go\<close>), in
  a commit within the bounds the hook reads by, so the hook's whole decision on the push allows it.
\<close>

section \<open>The next record\<close>

lemma last_number: "record_ok r \<Longrightarrow> vn_N (LastVersion r) = int (length (cr_Versions r))"
  by (cases "cr_Versions r" rule: rev_cases)
    (auto simp: record_ok_def version_ok_def LastVersion_def nth_append dest: spec [of _ "length _"])

lemma NextRecord_row:
  assumes "NextRecord before v = Inr after" "record_ok before" "cr_State before = Ready"
  shows "cr_Versions after = cr_Versions before @ [v\<lparr>vn_N := int (length (cr_Versions before)) + 1\<rparr>] \<and>
    vn_Head v \<noteq> vn_Head (ActiveVersion before) \<and> cr_Active after = int (length (cr_Versions after)) \<and>
    cr_State after = Ready \<and> cr_Owner after = cr_Owner before \<and> cr_Seq after = cr_Seq before + 1 \<and>
    cr_ChangeID after = cr_ChangeID before \<and> cr_Target after = cr_Target before"
  using assms last_number [OF assms(2)] by (auto simp: NextRecord_def Let_def split: if_splits)

lemma next_active:
  assumes "cr_Active r = int (length (cr_Versions r))" "cr_Versions r = vs @ [v]"
  shows "ActiveVersion r = v"
  using assms by (simp add: ActiveVersion_def nth_append)

text \<open>The three objects a record is written as, and that its file is within the bound on a record.\<close>

definition wrote_record :: "git \<Rightarrow> Record \<Rightarrow> string \<Rightarrow> string list \<Rightarrow> string \<Rightarrow> bool" where
  "wrote_record g r message parents c \<longleftrightarrow>
     (\<exists>data blob tree. ParseRecord data = Inr r \<and> length data \<le> MaxRecordBlob \<and> gt_blob g data = Some blob \<and>
        gt_tree g (tree_text blob ''record.json'') = Some tree \<and> gt_make g tree parents (message @ [CHR 0x0A]) = Some c)"

lemma WriteRecord_wrote:
  assumes "WriteRecord g r message parents = Inr c"
  shows "record_ok r \<and> wrote_record g r message parents c"
proof -
  obtain data where d: "EncodeRecord r = Inr data" "length data \<le> MaxRecordBlob"
    "writeOneFile g ''record.json'' data message parents = Inr c"
    using assms by (auto simp: WriteRecord_def result_simps split: if_splits)
  then have ok: "record_ok r" "ParseRecord data = Inr r"
    using record_back by (auto simp: EncodeRecord_def check_record_iff result_simps)
  moreover obtain blob tree where "gt_blob g data = Some blob" "gt_tree g (tree_text blob ''record.json'') = Some tree"
    "gt_make g tree parents (message @ [CHR 0x0A]) = Some c"
    using d(3) by (auto simp: writeOneFile_def split: option.splits)
  ultimately show ?thesis using d(2) unfolding wrote_record_def by blast
qed

lemma CheckActive_iff:
  "CheckActive before ifActive = Inr r \<longleftrightarrow> before = Some r \<and> cr_State r = Ready \<and> HeadOf (ActiveVersion r) = ifActive"
  by (auto simp: CheckActive_def split: option.splits if_splits)

lemma write_version_parts:
  assumes "write_version g restack cid handle ref old before head title branch who = Inr p"
    "record_ok before" "cr_State before = Ready"
  shows "row_version who head before (pv_Record p) \<and> record_ok (pv_Record p) \<and>
    cr_ChangeID (pv_Record p) = cr_ChangeID before \<and> cr_Target (pv_Record p) = cr_Target before \<and>
    ActiveVersion (pv_Record p) = LastVersion (pv_Record p) \<and>
    vn_Branch (ActiveVersion (pv_Record p)) = branch \<and> vn_Title (ActiveVersion (pv_Record p)) = title \<and>
    vn_Head (ActiveVersion (pv_Record p)) = HeadPrefix @ head \<and>
    cr_Active (pv_Record p) = int (length (cr_Versions (pv_Record p))) \<and>
    pv_ID p = cid \<and> pv_Handle p = handle \<and> pv_Ref p = ref \<and> pv_Old p = old \<and> pv_Head p = head \<and>
    pv_Branch p = branch \<and> pv_Version p = cr_Active (pv_Record p) \<and> pv_restack p = restack \<and>
    wrote_record g (pv_Record p) (ReadyMessage handle cid (cr_Active (pv_Record p)) head) [old, head] (pv_Commit p)"
proof -
  let ?v = "\<lparr>vn_N = 0, vn_Head = HeadPrefix @ head, vn_Title = title, vn_Branch = branch, vn_Uploader = who\<rparr>"
  obtain after commit where a: "NextRecord before ?v = Inr after"
    "WriteRecord g after (ReadyMessage handle cid (cr_Active after) head) [old, head] = Inr commit"
    and p: "p = \<lparr>pv_ID = cid, pv_Handle = handle, pv_Ref = ref, pv_Old = old, pv_Commit = commit, pv_Record = after,
      pv_Version = cr_Active after, pv_Head = head, pv_Branch = branch, pv_restack = restack\<rparr>"
    using assms(1) by (auto simp: write_version_def rbind_eq_Inr)
  note row = NextRecord_row [OF a(1) assms(2,3)]
  have v: "ActiveVersion after = ?v\<lparr>vn_N := int (length (cr_Versions before)) + 1\<rparr>"
    by (rule next_active) (use row in auto)
  have l: "LastVersion after = ActiveVersion after" using row v by (simp add: LastVersion_def)
  show ?thesis using row v l WriteRecord_wrote [OF a(2)] p by (auto simp: row_version_def)
qed

section \<open>The hook admits what the engine writes\<close>

text \<open>
  What git documents of the commands that write: the objects they make, of what they were given and,
  in a commit, the lines of its author and committer. Those lines' length is the one thing about a
  commit that is not the engine's; the hook takes 4 KiB in all, and they are taken to leave 1 KiB.
  A parent given twice is kept once, so commits are spoken of for distinct parents only.
\<close>

definition ident_size :: "string list \<Rightarrow> nat" where
  "ident_size idents = sum_list (map (\<lambda>l. length l + 1) idents)"

definition git_writes :: "git \<Rightarrow> object_store \<Rightarrow> bool" where
  "git_writes g objs \<longleftrightarrow>
     (\<forall>data b. gt_blob g data = Some b \<longrightarrow> object_name b \<and> objs b = Some (''blob'', data)) \<and>
     (\<forall>b t. object_name b \<longrightarrow> gt_tree g (tree_text b ''record.json'') = Some t \<longrightarrow>
        object_name t \<and> objs t = Some (''tree'', file_tree ''record.json'' b)) \<and>
     (\<forall>t ps message c. gt_make g t ps message = Some c \<longrightarrow> object_name t \<longrightarrow> list_all object_name ps \<longrightarrow> distinct ps \<longrightarrow>
        object_name c \<and> \<not> isZero c \<and>
        (\<exists>idents. list_all ident_line idents \<and> ident_size idents \<le> 3 * 1024 \<and>
           objs c = Some (''commit'', commit_text t ps idents message)))"

text \<open>
  What the hook's repository is: the objects there with what the push brings, read by the hook's own
  reader; what the engine is shown of a record is the file less its trailing newlines; a commit ID
  names a commit; and a record ref listed on origin is one that writes the hook admitted have led to.
\<close>

definition hook_sees :: "git \<Rightarrow> object_store \<Rightarrow> repository \<Rightarrow> bool" where
  "hook_sees g objs repo \<longleftrightarrow>
     (\<forall>c. rp_record repo c = readOneFile objs c recordLayout) \<and>
     (\<forall>c. rp_kind repo c = map_option fst (objs c)) \<and>
     (\<forall>c data rc. gt_record g c = Some data \<longrightarrow> rp_record repo c = Inr rc \<longrightarrow> data = trim_newlines (fc_file rc)) \<and>
     (\<forall>h c. gt_commit g h = Some c \<longrightarrow> object_name c \<and> (\<exists>body. objs c = Some (''commit'', body))) \<and>
     (\<forall>patterns o1 cid. ListOrigin (gt_list g patterns) = Some o1 \<longrightarrow> origin_ref o1 (Ref Target cid) \<noteq> [] \<longrightarrow>
        object_name (origin_ref o1 (Ref Target cid)) \<and> \<not> isZero (origin_ref o1 (Ref Target cid)) \<and>
        (\<exists>lives ends. record_reach repo (Ref Target cid) lives ends (Some (origin_ref o1 (Ref Target cid)))))"

definition may_add :: "grants \<Rightarrow> bool \<Rightarrow> string \<Rightarrow> Record \<Rightarrow> bool" where
  "may_add gr restack who r \<longleftrightarrow>
     (if restack then holds_grant gr who grantRestack else who = cr_Owner r \<or> holds_grant gr who grantApprove)"

lemma built_parts:
  assumes "buildVersion g a restack = Inr p"
  shows "\<exists>patterns o1 r head branch title handle.
    ListOrigin (gt_list g patterns) = Some o1 \<and> ValidID (ap_ID a) \<and> ValidPrincipal (ap_Principal a) \<and>
    readBefore g (origin_ref o1 (Ref Target (ap_ID a))) = Inr (Some r) \<and> cr_State r = Ready \<and>
    gt_commit g (ap_Head a) = Some head \<and>
    (if restack then branch = vn_Branch (ActiveVersion r) \<and> branch \<noteq> [] \<and> title = vn_Title (ActiveVersion r) else ValidBranch branch) \<and>
    handle = OriginHandle o1 (ap_ID a) \<and>
    write_version g restack (ap_ID a) handle (Ref Target (ap_ID a)) (origin_ref o1 (Ref Target (ap_ID a))) r head title branch
      (ap_Principal a) = Inr p"
proof -
  have h: "gt_commit g want = Some head" if "version_head g tip remote want = Inr head" for tip remote want head
    using that by (auto simp: version_head_def result_simps split: if_splits option.splits)
  show ?thesis
  proof (cases restack)
    case True
    then show ?thesis
      using assms h
      by (auto simp: buildVersion_def Let_def rbind_eq_Inr restack_branch_def CheckActive_iff split: if_splits option.splits;
        blast)
  next
    case False
    then show ?thesis
      using assms h
      by (auto simp: buildVersion_def Let_def rbind_eq_Inr CheckActive_iff split: if_splits option.splits; blast)
  qed
qed

lemma readBefore_record: "readBefore g old = Inr (Some r) \<Longrightarrow> ReadRecord g old = Inr r"
  by (auto simp: readBefore_def result_simps split: if_splits)

lemma target_ok: "ValidBranch Target"
  by (simp add: Target_def ValidBranch_def has_suffix_def suffix_def byte_val_def)

lemma target_record: "recordTarget = Target" "''main'' = recordTarget"
  by (simp_all add: recordTarget_def Target_def)

text \<open>A record ref that is listed names a record of its change, the one the engine reads.\<close>

lemma listed_record:
  assumes "hook_sees g objs repo" "ListOrigin (gt_list g patterns) = Some o1"
    "readBefore g (origin_ref o1 (Ref Target cid)) = Inr (Some r)" "ValidID cid"
  shows "object_name (origin_ref o1 (Ref Target cid)) \<and> \<not> isZero (origin_ref o1 (Ref Target cid)) \<and> of_change Target cid r \<and>
    (\<exists>ps. record_at repo (origin_ref o1 (Ref Target cid)) ps r)"
proof -
  let ?old = "origin_ref o1 (Ref Target cid)"
  have ne: "?old \<noteq> []" using assms(3) by (auto simp: readBefore_def)
  obtain lives ends where l: "object_name ?old" "\<not> isZero ?old" "record_reach repo (Ref Target cid) lives ends (Some ?old)"
    using assms(1,2) ne unfolding hook_sees_def by blast
  obtain ps where lives: "list_all (life_ok (Ref Target cid)) lives" "lives \<noteq> []"
    and at: "record_at repo ?old ps (snd (last (last lives)))"
    using reached_lives [OF l(3)] by (auto simp: ref_names_def)
  have "life_ok (Ref Target cid) (last lives)" using lives by (simp add: list_all_iff)
  then obtain k where k: "Ref Target cid = Ref recordTarget k" "ValidID k" "record_hist k (last lives)" by (auto simp: life_ok_def)
  have "k = cid" using Ref_inj [OF k(2) assms(4)] k(1) by (metis target_record(1))
  then have of: "of_change Target cid (snd (last (last lives)))"
    using k(3) unfolding record_hist_def target_record(1) by (auto simp: last_conv_nth)
  obtain data where d: "gt_record g ?old = Some data" "ParseRecord (data @ [CHR 0x0A]) = Inr r"
    using readBefore_record [OF assms(3)] by (auto simp: ReadRecord_def result_simps split: option.splits)
  obtain rc where rc: "rp_record repo ?old = Inr rc" "ParseRecord (fc_file rc) = Inr (snd (last (last lives)))"
    using at by (auto simp: record_at_def)
  have "data = trim_newlines (fc_file rc)" using assms(1) d(1) rc(1) unfolding hook_sees_def by blast
  then have "r = snd (last (last lives))" using printed_record [of "fc_file rc"] d(2) rc(2) by (simp add: trim_newlines_def)
  then show ?thesis using l(1,2) of at by blast
qed

lemma ready_message_length:
  assumes "length handle \<le> 32" "length cid = 32" "length head = 40" "0 \<le> n" "n \<le> MaxVersions"
  shows "length (ReadyMessage handle cid n head) \<le> 200"
proof -
  have "nat n < 10 ^ 4" using assms(4,5) by (simp add: MaxVersions_def)
  then have "length (itoa (nat n)) \<le> 4" by (rule length_itoa) simp
  then show ?thesis using assms by (simp add: ReadyMessage_def)
qed

text \<open>The hook reads what the engine wrote: the bounds leave room for it.\<close>

lemma wrote_read:
  assumes g: "git_writes g objs" and sees: "hook_sees g objs repo"
    and w: "wrote_record g r message parents c"
    and ps: "list_all object_name parents" "distinct parents" "length parents \<le> 2" "length message \<le> 200"
  shows "record_at repo c parents r \<and> \<not> isZero c"
proof -
  obtain data blob tree where d: "ParseRecord data = Inr r" "length data \<le> MaxRecordBlob" "gt_blob g data = Some blob"
    "gt_tree g (tree_text blob ''record.json'') = Some tree" "gt_make g tree parents (message @ [CHR 0x0A]) = Some c"
    using w unfolding wrote_record_def by blast
  have b: "object_name blob" "objs blob = Some (''blob'', data)" using g d(3) unfolding git_writes_def by blast+
  have t: "object_name tree" "objs tree = Some (''tree'', file_tree ''record.json'' blob)"
    using g d(4) b(1) unfolding git_writes_def by blast+
  obtain idents where i: "object_name c" "\<not> isZero c" "list_all ident_line idents" "ident_size idents \<le> 3 * 1024"
    "objs c = Some (''commit'', commit_text tree parents idents (message @ [CHR 0x0A]))"
    using g d(5) t(1) ps(1,2) unfolding git_writes_def by blast
  have size: "length (commit_text tree parents idents (message @ [CHR 0x0A])) \<le> 4 * 1024"
    using i(4) ps(3,4) unfolding commit_length [OF t(1) ps(1)] ident_size_def by simp
  have l: "of_name recordLayout = ''record.json''" "of_commit recordLayout = 4 * 1024" "of_tree recordLayout = 1024"
    "of_blob recordLayout = 64 * 1024"
    by (simp_all add: recordLayout_def)
  have "readOneFile objs c recordLayout = Inr \<lparr>fc_parents = parents, fc_file = data\<rparr>"
  proof (rule written_read [OF i(5,1) _ t(1) b(2,1) ps(1) i(3)])
    show "objs tree = Some (''tree'', file_tree (of_name recordLayout) blob)" using t(2) l(1) by simp
    show "length data \<le> of_blob recordLayout" using d(2) l(4) by (simp add: MaxRecordBlob_def)
    show "length (commit_text tree parents idents (message @ [CHR 0x0A])) \<le> of_commit recordLayout" using size l(2) by simp
  qed (simp_all add: l plain_name_def)
  then have "rp_record repo c = Inr \<lparr>fc_parents = parents, fc_file = data\<rparr>" using sees unfolding hook_sees_def by simp
  then show ?thesis using d(1) i(2) by (simp add: record_at_def)
qed

lemma Handle_length: "length (Handle cid among) \<le> length cid"
  by (simp add: Handle_def Let_def)

lemma principal_named: "ValidPrincipal who \<Longrightarrow> who \<noteq> []"
  by (auto simp: ValidPrincipal_def re_principalName_def)

text \<open>The write is one the record's namespace allows.\<close>

lemma build_written:
  assumes build: "buildVersion g a restack = Inr p" and g: "git_writes g objs" and sees: "hook_sees g objs (po_repo pol)"
    and may: "may_add (po_grants pol) restack (ap_Principal a) (pv_Record p)" and other: "pv_Head p \<noteq> pv_Old p"
  shows "record_write pol (ap_Principal a) \<lparr>up_old = pv_Old p, up_new = pv_Commit p, up_ref = pv_Ref p\<rparr> \<and>
    pv_Ref p = Ref recordTarget (ap_ID a) \<and> ValidID (ap_ID a)"
proof -
  obtain patterns o1 r head branch title handle where b:
    "ListOrigin (gt_list g patterns) = Some o1" "ValidID (ap_ID a)" "ValidPrincipal (ap_Principal a)"
    "readBefore g (origin_ref o1 (Ref Target (ap_ID a))) = Inr (Some r)" "cr_State r = Ready"
    "gt_commit g (ap_Head a) = Some head"
    "if restack then branch = vn_Branch (ActiveVersion r) \<and> branch \<noteq> [] \<and> title = vn_Title (ActiveVersion r) else ValidBranch branch"
    "handle = OriginHandle o1 (ap_ID a)"
    "write_version g restack (ap_ID a) handle (Ref Target (ap_ID a)) (origin_ref o1 (Ref Target (ap_ID a))) r head title branch
      (ap_Principal a) = Inr p"
    using built_parts [OF build] by metis
  let ?old = "origin_ref o1 (Ref Target (ap_ID a))"
  note old = listed_record [OF sees b(1,4,2)]
  then obtain ps where at: "record_at (po_repo pol) ?old ps r" by blast
  note w = write_version_parts [OF b(9) record_at_ok [OF at] b(5)]
  have head: "object_name head" "rp_kind (po_repo pol) head = Some ''commit''"
    using sees b(6) unfolding hook_sees_def by fastforce+
  have "0 \<le> cr_Active (pv_Record p) \<and> cr_Active (pv_Record p) \<le> MaxVersions"
    using w by (auto simp: record_ok_def)
  moreover have "length (ap_ID a) = 32" using b(2) by (simp add: ValidID_def IDLength_def)
  moreover have "length handle \<le> 32"
    using Handle_length [of "ap_ID a"] \<open>length (ap_ID a) = 32\<close> unfolding b(8) OriginHandle_def by metis
  ultimately have m: "length (ReadyMessage handle (ap_ID a) (cr_Active (pv_Record p)) head) \<le> 200"
    using ready_message_length head(1) by (simp add: object_name_def)
  have "record_at (po_repo pol) (pv_Commit p) [?old, head] (pv_Record p) \<and> \<not> isZero (pv_Commit p)"
    by (rule wrote_read [OF g sees, of _ "ReadyMessage handle (ap_ID a) (cr_Active (pv_Record p)) head"])
      (use w old head other m in auto)
  then have at': "record_at (po_repo pol) (pv_Commit p) [?old, head] (pv_Record p)" and zero': "\<not> isZero (pv_Commit p)" by blast+
  have row: "update_row (po_repo pol) (po_grants pol) (ap_Principal a) [?old] r [?old, head] (pv_Record p)"
    using w head(2) may b(5,7)
    by (auto simp: update_row_def may_add_def may_write_def row_restack_def row_version_def split: if_splits)
  have "of_change Target (ap_ID a) (pv_Record p)" using old w by (simp add: of_change_def)
  then have row': "\<exists>ps before qs after. record_at (po_repo pol) ?old ps before \<and> record_at (po_repo pol) (pv_Commit p) qs after \<and>
      of_change Target (ap_ID a) after \<and> update_row (po_repo pol) (po_grants pol) (ap_Principal a) [?old] before qs after"
    using at at' row by blast
  have parts: "pv_Ref p = Ref Target (ap_ID a)" "pv_Old p = ?old" using w by blast+
  have "record_write pol (ap_Principal a) \<lparr>up_old = pv_Old p, up_new = pv_Commit p, up_ref = pv_Ref p\<rparr>"
    unfolding record_write_def target_record(1) parts
    by (intro conjI exI [of _ "ap_ID a"]) (use row' b(2) principal_named [OF b(3)] old zero' target_ok in simp_all)
  then show ?thesis using parts(1) b(2) by (simp add: target_record(1))
qed

lemma record_ref_open:
  assumes "record_write pol who u" "up_ref u = Ref recordTarget cid"
  shows "\<not> closed_ref (up_ref u) \<and> name_free u \<and> namespace_rule ver pol who u"
proof -
  have r: "up_ref u = ''refs/the-valley/changes/main/'' @ cid"
    using assms(2) by (simp add: Ref_def RefPrefix_def recordTarget_def)
  have "\<not> closed_ref (up_ref u)"
    unfolding r closed_ref_def by auto
  moreover have "name_free u" unfolding name_free_def named_like_another_def r by auto
  moreover have "namespace_rule ver pol who u" using assms(1) unfolding namespace_rule_def Let_def r by auto
  ultimately show ?thesis by blast
qed


section \<open>The sample change restacked\<close>

definition sample_cid :: string where "sample_cid = replicate 32 (CHR ''k'')"

definition oid_of :: "char \<Rightarrow> string" where "oid_of c = replicate 40 c"

lemma oid_of_eq [simp]: "oid_of a = oid_of b \<longleftrightarrow> a = b" "oid_of a \<noteq> []"
  by (simp_all add: oid_of_def)

lemma oid_of_heads: "head_a = oid_of (CHR ''a'')" "head_b = oid_of (CHR ''b'')"
  by (simp_all add: head_a_def head_b_def oid_of_def)

lemma oid_of_name: "is_lower_hex c \<Longrightarrow> object_name (oid_of c)"
  by (simp add: object_name_def oid_of_def list_all_iff)

lemma oid_of_zero: "c \<noteq> CHR ''0'' \<Longrightarrow> \<not> isZero (oid_of c)"
  by (simp add: isZero_def oid_of_def list_all_iff)

definition sample_listing :: string where
  "sample_listing =
     oid_of (CHR ''3'') @ CHR 0x09 # ''refs/heads/main'' @ CHR 0x0A # head_b @ CHR 0x09 # ''refs/heads/b'' @ CHR 0x0A #
     oid_of (CHR ''c'') @ CHR 0x09 # Ref Target sample_cid"

definition sample_origin :: Origin where
  "sample_origin =
     [(''refs/heads/main'', oid_of (CHR ''3'')), (''refs/heads/b'', head_b), (Ref Target sample_cid, oid_of (CHR ''c''))]"

definition sample_message :: string where
  "sample_message = ReadyMessage (OriginHandle sample_origin sample_cid) sample_cid 2 head_b"

definition sample_git :: git where
  "sample_git =
     \<lparr>gt_list = (\<lambda>_. Some sample_listing), gt_fetch = (\<lambda>_. True),
      gt_record = (\<lambda>c. if c = oid_of (CHR ''c'') then Some (write_value 0 (record_value first_record)) else None),
      gt_commit = (\<lambda>h. if h = head_b then Some head_b else None), gt_ancestor = (\<lambda>_ _. True),
      gt_bases = (\<lambda>_ _. (''base'', True)), gt_merges = (\<lambda>_ _. Some []),
      gt_raw = (\<lambda>_. Some []), gt_trailers = (\<lambda>_. Some []), gt_subject = (\<lambda>_. None),
      gt_blob = (\<lambda>data. if data = sample_file second_record then Some (oid_of (CHR ''2'')) else None),
      gt_tree = (\<lambda>t. if t = tree_text (oid_of (CHR ''2'')) ''record.json'' then Some (oid_of (CHR ''f'')) else None),
      gt_make = (\<lambda>t ps message.
        if t = oid_of (CHR ''f'') \<and> ps = [oid_of (CHR ''c''), head_b] \<and> message = sample_message @ [CHR 0x0A]
        then Some (oid_of (CHR ''d'')) else None)\<rparr>"

definition sample_idents :: "string list" where
  "sample_idents = [''author bob <bob@example.org> 0 +0000'', ''committer bob <bob@example.org> 0 +0000'']"

definition sample_objs :: object_store where
  "sample_objs =
     map_of
       [(oid_of (CHR ''a''), (''commit'', [])), (oid_of (CHR ''b''), (''commit'', [])),
        (oid_of (CHR ''c''), (''commit'', commit_text (oid_of (CHR ''e'')) [oid_of (CHR ''a'')] sample_idents ''first'')),
        (oid_of (CHR ''d''),
          (''commit'', commit_text (oid_of (CHR ''f'')) [oid_of (CHR ''c''), head_b] sample_idents (sample_message @ [CHR 0x0A]))),
        (oid_of (CHR ''e''), (''tree'', file_tree ''record.json'' (oid_of (CHR ''1'')))),
        (oid_of (CHR ''f''), (''tree'', file_tree ''record.json'' (oid_of (CHR ''2'')))),
        (oid_of (CHR ''1''), (''blob'', sample_file first_record)),
        (oid_of (CHR ''2''), (''blob'', sample_file second_record))]"

definition stored_repo :: repository where
  "stored_repo =
     sample_repo\<lparr>rp_record := \<lambda>c. readOneFile sample_objs c recordLayout, rp_kind := \<lambda>c. map_option fst (sample_objs c)\<rparr>"

definition stored_policy :: policy where
  "stored_policy =
     \<lparr>po_push = \<lparr>pp_Refs = [], pp_Writers = [], pp_Grants = []\<rparr>, po_grants = sample_grants, po_verifiers = [],
      po_repo = stored_repo, po_symrefs = (\<lambda>_. False), po_creates = 0, po_existing = 1\<rparr>"

definition sample_append :: Append where
  "sample_append = \<lparr>ap_ID = sample_cid, ap_Branch = [], ap_Head = head_b, ap_IfActive = head_a, ap_Principal = ''bob''\<rparr>"

definition sample_pending :: PendingVersion where
  "sample_pending =
     \<lparr>pv_ID = sample_cid, pv_Handle = OriginHandle sample_origin sample_cid, pv_Ref = Ref Target sample_cid,
      pv_Old = oid_of (CHR ''c''), pv_Commit = oid_of (CHR ''d''), pv_Record = second_record, pv_Version = 2, pv_Head = head_b,
      pv_Branch = ''b'', pv_restack = True\<rparr>"

subsection \<open>What the engine builds\<close>

lemma sample_listed: "ListOrigin (gt_list sample_git patterns) = Some sample_origin"
proof -
  have "ListOrigin (Some sample_listing) = Some sample_origin" by code_simp
  then show ?thesis by (simp add: sample_git_def)
qed

lemma sample_read: "ReadRecord sample_git c = Inr r \<longleftrightarrow> c = oid_of (CHR ''c'') \<and> r = first_record"
  using record_back [OF sample_ok(1)] by (auto simp: ReadRecord_def sample_git_def result_simps)

lemma sample_size: "length (sample_file second_record) \<le> 1000" "length (sample_file first_record) \<le> 1000"
proof -
  have u: "unescaped (HeadPrefix @ head_a)" "unescaped (HeadPrefix @ head_b)" "unescaped sample_cid" "unescaped Schema"
    by (simp_all add: unescaped_def HeadPrefix_def head_a_def head_b_def sample_cid_def Schema_def list_all_iff byte_val_def)
  have l: "length (json_quote (HeadPrefix @ head_a)) = 51" "length (json_quote (HeadPrefix @ head_b)) = 51"
    "length (json_quote sample_cid) = 34" "length (json_quote Schema) = 25"
    using u by (simp_all add: length_json_quote) (simp_all add: HeadPrefix_def head_a_def head_b_def sample_cid_def Schema_def)
  have w: "length (json_quote s) = length s + 2"
    if "s \<in> set [''n'', ''head'', ''title'', ''branch'', ''uploader'', ''schema'', ''change_id'', ''target'', ''owner'', ''state'',
      ''seq'', ''versions'', ''active'', ''t'', ''b'', ''alice'', ''bob'', ''main'', ''ready'']" for s
    using that by (intro length_json_quote) (auto simp: unescaped_def byte_val_def)
  show "length (sample_file second_record) \<le> 1000" "length (sample_file first_record) \<le> 1000"
    using l w
    by (simp_all add: sample_file_def first_record_def second_record_def sample_record_def sample_version_def record_value_def version_value_def
        json_int_def itoa.simps break_def recordTarget_def Ready_def sample_cid_def)
qed

lemma sample_ids: "IsObjectID head_a" "IsObjectID head_b"
  by (simp_all add: IsObjectID_def isHex_iff head_a_def head_b_def is_lower_hex_def byte_val_def list_all_iff)

lemma sample_refs:
  "origin_ref sample_origin (''refs/heads/'' @ Target) = oid_of (CHR ''3'')" "origin_ref sample_origin (''refs/heads/b'') = head_b"
  "origin_ref sample_origin (Ref Target sample_cid) = oid_of (CHR ''c'')"
  by (simp_all add: origin_ref_def sample_origin_def Target_def Ref_def RefPrefix_def)

lemma sample_first:
  "cr_State first_record = Ready" "ActiveVersion first_record = sample_version 1 head_a ''alice''"
  "HeadOf (ActiveVersion first_record) = head_a"
  by (simp_all add: first_record_def sample_record_def ActiveVersion_def sample_version_def HeadOf_def trim_prefix_def)

lemma sample_next:
  "NextRecord first_record \<lparr>vn_N = 0, vn_Head = HeadPrefix @ head_b, vn_Title = ''t'', vn_Branch = ''b'', vn_Uploader = ''bob''\<rparr>
   = Inr second_record"
  by (simp add: NextRecord_def Let_def first_record_def second_record_def sample_record_def sample_version_def ActiveVersion_def
      LastVersion_def MaxVersions_def MaxSeq_def head_a_def head_b_def)

lemma sample_written: "WriteRecord sample_git second_record sample_message [oid_of (CHR ''c''), head_b] = Inr (oid_of (CHR ''d''))"
proof -
  have "EncodeRecord second_record = Inr (sample_file second_record)"
    using sample_ok(2) by (simp add: EncodeRecord_def sample_file_def check_record_iff [THEN iffD2])
  then show ?thesis using sample_size(1) by (simp add: WriteRecord_def writeOneFile_def sample_git_def MaxRecordBlob_def)
qed

lemma sample_head: "version_head sample_git tip head_b head_b = Inr head_b"
proof -
  have "checkHead sample_git tip head_b = Inr ()"
    by (simp add: checkHead_def CheckRange_def HeadIDs_def sample_git_def go_fields_def chunks_ascii byte_val_def
        space_chunk_ascii cut_message_def cut_str_def one_id_def header_ids_def trailer_ids_def map_filter_simps cut_prefix_def cut_byte_def)
  then show ?thesis by (simp add: version_head_def sample_git_def head_b_def)
qed

lemma sample_built: "buildVersion sample_git sample_append True = Inr sample_pending"
proof -
  have before: "readBefore sample_git (oid_of (CHR ''c'')) = Inr (Some first_record)"
    using sample_read [THEN iffD2, of "oid_of (CHR ''c'')" first_record] by (simp add: readBefore_def) (simp add: sample_git_def)
  have branch: "vn_Branch (sample_version 1 head_a ''alice'') = ''b''" "vn_Title (sample_version 1 head_a ''alice'') = ''t''"
    by (simp_all add: sample_version_def)
  have "atHead sample_origin ''b'' head_b = Inr ()"
    using sample_refs(2) by (simp add: atHead_def head_b_def)
  then have "restack_branch sample_git sample_origin (oid_of (CHR ''c'')) sample_append = Inr (first_record, ''b'')"
    using before sample_first branch by (simp add: restack_branch_def CheckActive_def sample_append_def)
  then show ?thesis
    using sample_listed sample_refs sample_ids sample_parts(1,5) sample_head sample_next sample_written sample_first(2) branch
    by (simp add: buildVersion_def Let_def sample_append_def sample_cid_def [symmetric] write_version_def sample_pending_def
        second_record_def [THEN arg_cong, of cr_Active] sample_record_def sample_message_def)
qed

subsection \<open>What the hook reads\<close>

lemma sample_obj:
  "sample_objs (oid_of (CHR ''a'')) = Some (''commit'', [])" "sample_objs (oid_of (CHR ''b'')) = Some (''commit'', [])"
  "sample_objs (oid_of (CHR ''c'')) =
     Some (''commit'', commit_text (oid_of (CHR ''e'')) [oid_of (CHR ''a'')] sample_idents ''first'')"
  "sample_objs (oid_of (CHR ''d'')) =
     Some (''commit'', commit_text (oid_of (CHR ''f'')) [oid_of (CHR ''c''), head_b] sample_idents (sample_message @ [CHR 0x0A]))"
  "sample_objs (oid_of (CHR ''e'')) = Some (''tree'', file_tree ''record.json'' (oid_of (CHR ''1'')))"
  "sample_objs (oid_of (CHR ''f'')) = Some (''tree'', file_tree ''record.json'' (oid_of (CHR ''2'')))"
  "sample_objs (oid_of (CHR ''1'')) = Some (''blob'', sample_file first_record)"
  "sample_objs (oid_of (CHR ''2'')) = Some (''blob'', sample_file second_record)"
  by (simp_all add: sample_objs_def)

lemma sample_names:
  "object_name (oid_of (CHR ''a''))" "object_name (oid_of (CHR ''b''))" "object_name (oid_of (CHR ''c''))" "object_name (oid_of (CHR ''d''))"
  "object_name (oid_of (CHR ''e''))" "object_name (oid_of (CHR ''f''))" "object_name (oid_of (CHR ''1''))" "object_name (oid_of (CHR ''2''))"
  by (simp_all add: oid_of_name is_lower_hex_def byte_val_def)

lemma sample_ident: "list_all ident_line sample_idents" "ident_size sample_idents \<le> 100"
  by (simp_all add: sample_idents_def ident_line_def ident_size_def has_prefix_def)

lemma stored_first:
  "rp_record stored_repo (oid_of (CHR ''c'')) = Inr \<lparr>fc_parents = [head_a], fc_file = sample_file first_record\<rparr>"
proof -
  have "readOneFile sample_objs (oid_of (CHR ''c'')) recordLayout =
      Inr \<lparr>fc_parents = [oid_of (CHR ''a'')], fc_file = sample_file first_record\<rparr>"
  proof (rule written_read [OF sample_obj(3) sample_names(3) _ sample_names(5) sample_obj(7) sample_names(7) _ sample_ident(1)])
    show "length (commit_text (oid_of (CHR ''e'')) [oid_of (CHR ''a'')] sample_idents ''first'') \<le> of_commit recordLayout"
      using sample_ident(2) commit_length [OF sample_names(5), of "[oid_of (CHR ''a'')]" sample_idents "''first''"] sample_names(1)
      by (simp add: ident_size_def recordLayout_def)
  qed (use sample_obj(5) sample_names(1) sample_size(2) in \<open>simp_all add: recordLayout_def plain_name_def\<close>)
  then show ?thesis by (simp add: stored_repo_def oid_of_heads)
qed

lemma stored_at: "record_at stored_repo (oid_of (CHR ''c'')) [head_a] first_record"
  using stored_first record_back [OF sample_ok(1)] by (simp add: record_at_def sample_file_def)

lemma stored_kind: "rp_kind stored_repo oid = map_option fst (sample_objs oid)"
  by (simp add: stored_repo_def)

lemma stored_created:
  "checkRecord stored_repo sample_grants 0 1 ''alice'' \<lparr>up_old = zeros, up_new = oid_of (CHR ''c''), up_ref = sample_ref\<rparr>
   = (VCreate, Inr ())"
  unfolding record_create_iff
proof -
  have "row_create ''alice'' head_a first_record" "of_change recordTarget (replicate 32 (CHR ''k'')) first_record"
    by (simp_all add: row_create_def of_change_def first_record_def sample_record_def sample_version_def)
  moreover have "isZero zeros" by (simp add: zeros_def isZero_def list_all_iff)
  moreover have "rp_kind stored_repo head_a = Some ''commit''" by (simp add: stored_kind oid_of_heads sample_obj)
  moreover have "\<not> isZero (oid_of (CHR ''c''))" by (simp add: oid_of_zero)
  ultimately show "\<exists>cid h r. up_ref \<lparr>up_old = zeros, up_new = oid_of (CHR ''c''), up_ref = sample_ref\<rparr> = Ref recordTarget cid \<and>
      ValidBranch recordTarget \<and> ValidID cid \<and> ''alice'' \<noteq> [] \<and>
      \<not> isZero (up_new \<lparr>up_old = zeros, up_new = oid_of (CHR ''c''), up_ref = sample_ref\<rparr>) \<and>
      isZero (up_old \<lparr>up_old = zeros, up_new = oid_of (CHR ''c''), up_ref = sample_ref\<rparr>) \<and> 0 + 1 \<le> maxRecords \<and>
      record_at stored_repo (up_new \<lparr>up_old = zeros, up_new = oid_of (CHR ''c''), up_ref = sample_ref\<rparr>) [h] r \<and>
      rp_kind stored_repo h = Some ''commit'' \<and> of_change recordTarget cid r \<and> row_create ''alice'' h r"
    by - (rule exI [of _ "replicate 32 (CHR ''k'')"], rule exI [of _ head_a], rule exI [of _ first_record],
        use sample_parts(1,2) stored_at in \<open>simp add: sample_ref_def maxRecords_def\<close>)
qed

lemma stored_reached:
  "record_reach stored_repo (Ref Target sample_cid) [[(''alice'', first_record)]] [] (Some (oid_of (CHR ''c'')))"
proof -
  have "record_reach stored_repo sample_ref ([] @ [[(''alice'', first_record)]]) [] (Some (oid_of (CHR ''c'')))"
    by (rule record_reach.created [OF record_reach.absent stored_created stored_at])
  then show ?thesis by (simp add: sample_ref_def sample_cid_def target_record(1))
qed

lemma sample_origin_record:
  "origin_ref sample_origin (Ref Target cid) \<noteq> [] \<Longrightarrow> cid = sample_cid \<and> origin_ref sample_origin (Ref Target cid) = oid_of (CHR ''c'')"
  by (auto simp: origin_ref_def sample_origin_def Ref_def RefPrefix_def split: if_splits)

lemma sample_trimmed: "trim_newlines (sample_file first_record) = write_value 0 (record_value first_record)"
proof -
  have "last (write_value 0 (record_value first_record)) \<noteq> CHR 0x0A" by (simp add: record_value_def)
  then have "trim_right (\<lambda>c. c = CHR 0x0A) (write_value 0 (record_value first_record)) = write_value 0 (record_value first_record)"
    by (intro trim_right_id) simp
  then show ?thesis by (simp add: sample_file_def trim_newlines_def trim_right_def)
qed

lemma sample_sees: "hook_sees sample_git sample_objs stored_repo"
proof -
  have rd: "data = trim_newlines (fc_file rc)" if "gt_record sample_git c = Some data" "rp_record stored_repo c = Inr rc" for c data rc
    using that stored_first sample_trimmed by (auto simp: sample_git_def split: if_splits)
  have cm: "object_name c \<and> (\<exists>body. sample_objs c = Some (''commit'', body))" if "gt_commit sample_git h = Some c" for h c
    using that sample_obj(2) sample_names(2) by (auto simp: sample_git_def oid_of_heads split: if_splits)
  have ls: "object_name (origin_ref o1 (Ref Target cid)) \<and> \<not> isZero (origin_ref o1 (Ref Target cid)) \<and>
      (\<exists>lives ends. record_reach stored_repo (Ref Target cid) lives ends (Some (origin_ref o1 (Ref Target cid))))"
    if "ListOrigin (gt_list sample_git patterns) = Some o1" "origin_ref o1 (Ref Target cid) \<noteq> []" for patterns o1 cid
  proof -
    have "o1 = sample_origin" using that(1) sample_listed [of patterns] by simp
    then have "cid = sample_cid" "origin_ref o1 (Ref Target cid) = oid_of (CHR ''c'')" using sample_origin_record that(2) by blast+
    moreover have "\<not> isZero (oid_of (CHR ''c''))" by (simp add: oid_of_zero)
    ultimately show ?thesis using stored_reached sample_names(3) by auto
  qed
  show ?thesis
    unfolding hook_sees_def using rd cm ls stored_kind by (simp add: stored_repo_def)
qed

lemma sample_writes: "git_writes sample_git sample_objs"
proof -
  have inj: "tree_text b f = tree_text b' f \<Longrightarrow> b = b'" for b b' f by (simp add: tree_text_def)
  have bl: "object_name b \<and> sample_objs b = Some (''blob'', data)" if "gt_blob sample_git data = Some b" for data b
    using that sample_obj(8) sample_names(8) by (auto simp: sample_git_def split: if_splits)
  have tr: "object_name t \<and> sample_objs t = Some (''tree'', file_tree ''record.json'' b)"
    if "gt_tree sample_git (tree_text b ''record.json'') = Some t" for b t
    using that inj [of b "''record.json''" "oid_of (CHR ''2'')"] sample_obj(6) sample_names(6)
    by (auto simp: sample_git_def split: if_splits)
  have mk: "object_name c \<and> \<not> isZero c \<and> (\<exists>idents. list_all ident_line idents \<and> ident_size idents \<le> 3 * 1024 \<and>
      sample_objs c = Some (''commit'', commit_text t ps idents message))"
    if "gt_make sample_git t ps message = Some c" for t ps message c
    using that sample_obj(4) sample_names(4) sample_ident oid_of_zero [of "CHR ''d''"]
    by (auto simp: sample_git_def intro!: exI [of _ sample_idents] split: if_splits)
  show ?thesis unfolding git_writes_def using bl tr mk by blast
qed


end
