(* ===== verification/RestackPlan.thy ===== *)
theory RestackPlan
  imports RestackWrite
begin

text \<open>
  \<^verbatim>\<open>restack/plan.go\<close>: how a request is related to a family, whether its outcome lets the family
  proceed, and how close a record is to the restacker's own limits, which are below the hook's.
  The commits a request would bring are git's answer.
\<close>

section \<open>Requests and families\<close>

record RequestFiled =
  rf_Name :: string
  rf_Head :: string

record Members =
  mb_Names :: "string set"
  mb_Heads :: "string list"

text \<open>What a family's layer is here: the record is there for a change, whose ID is not empty.\<close>

record FamilyLayer =
  fl_ID :: string
  fl_Branch :: string
  fl_Head :: string
  fl_Record :: Record

definition add_head :: "string list \<Rightarrow> string \<Rightarrow> string list" where
  "add_head heads h = (if h \<noteq> [] \<and> h \<notin> set heads then heads @ [h] else heads)"

definition add_version :: "Members \<Rightarrow> Version \<Rightarrow> Members" where
  "add_version m v =
     m\<lparr>mb_Names := mb_Names m \<union> (if vn_Branch v \<noteq> [] then {ChangeName (vn_Branch v)} else {}),
       mb_Heads := add_head (mb_Heads m) (HeadOf v)\<rparr>"

definition add_layer :: "Members \<Rightarrow> FamilyLayer \<Rightarrow> Members" where
  "add_layer m l =
     (if fl_ID l = [] then
        m\<lparr>mb_Names := mb_Names m \<union> {ChangeName (fl_Branch l)}, mb_Heads := add_head (mb_Heads m) (fl_Head l)\<rparr>
      else
        foldl add_version
          (m\<lparr>mb_Names := mb_Names m \<union> {RequestName (fl_ID l)}, mb_Heads := add_head (mb_Heads m) (fl_Head l)\<rparr>)
          (cr_Versions (fl_Record l)))"

definition membersOf :: "FamilyLayer list \<Rightarrow> Members" where
  "membersOf ls = foldl add_layer \<lparr>mb_Names = {}, mb_Heads = []\<rparr> ls"

datatype relation = ByName | ByHead | ByRange

definition Relate ::
  "RequestFiled \<Rightarrow> Members \<Rightarrow> (string \<Rightarrow> ('e, string \<Rightarrow> bool) result) \<Rightarrow> ('e, relation list) result" where
  "Relate r m incoming =
     (let by = (if rf_Name r \<in> mb_Names m then [ByName] else []) @
               (if list_ex (\<lambda>h. h = rf_Head r) (mb_Heads m) then [ByHead] else [])
      in if length by > 0 then Inr by
         else rbind (incoming (rf_Head r)) (\<lambda>commits. if list_ex commits (mb_Heads m) then Inr [ByRange] else Inr []))"

section \<open>Outcomes\<close>

datatype currency =
    NoOutcome
  | OutcomeUnread
  | AboutHead
  | JudgedOnTip
  | JudgedOnEvidence
  | CurrentStale
  | CurrentReject
  | CurrentFailed
  | CurrentFiled
  | CurrentRefused string

text \<open>Whether the outcome is current, whether it releases the family, and why.\<close>

definition Currency :: "Outcome \<Rightarrow> bool \<Rightarrow> string \<Rightarrow> string \<Rightarrow> string \<Rightarrow> bool \<times> bool \<times> currency" where
  "Currency oc found head tip evidence =
     (if \<not> found then (False, False, NoOutcome)
      else if oc_Decision oc = ''unknown'' then (False, False, OutcomeUnread)
      else if oc_Head oc \<noteq> head then (False, False, AboutHead)
      else if oc_Tip oc \<noteq> tip then (False, False, JudgedOnTip)
      else if oc_Evidence oc \<noteq> evidence then (False, False, JudgedOnEvidence)
      else if oc_Decision oc = ''stale'' then (True, True, CurrentStale)
      else if oc_Decision oc = ''reject'' then (True, True, CurrentReject)
      else if oc_Decision oc = ''failed'' then (True, False, CurrentFailed)
      else if oc_Decision oc = ''land'' \<or> oc_Decision oc = ''voided-withdrawn'' then (True, False, CurrentFiled)
      else (True, False, CurrentRefused (oc_Decision oc)))"

section \<open>Capacity\<close>

definition plan_maxVersions :: int where "plan_maxVersions = 900"
definition plan_maxSeq :: int where "plan_maxSeq = 99000"
definition plan_maxBytes :: int where "plan_maxBytes = 48 * 1024"
definition MaxInt :: int where "MaxInt = 2 ^ 63 - 1"

text \<open>\<^verbatim>\<open>strconv.Atoi\<close> with its two errors apart: a number out of range is the closest that fits.\<close>

datatype atoi_result = AtoiSyntax | AtoiRange int | AtoiInt int

definition atoi_of :: "string \<Rightarrow> atoi_result" where
  "atoi_of s =
     (let neg = has_prefix s ''-''; ds = (if neg \<or> has_prefix s ''+'' then tl s else s);
          n = (if neg then - int (decimal ds) else int (decimal ds))
      in if ds = [] \<or> \<not> list_all is_digit ds then AtoiSyntax
         else if n < - (2 ^ 63) then AtoiRange (- (2 ^ 63))
         else if n > MaxInt then AtoiRange MaxInt
         else AtoiInt n)"

datatype cap_error = NoCap | BadCap string

definition CapOf :: "string \<Rightarrow> (cap_error, int) result" where
  "CapOf stated =
     (if stated = [] then Inl NoCap
      else
        case atoi_of stated of
          AtoiRange n \<Rightarrow> if n > 0 then Inr MaxInt else Inl (BadCap stated)
        | AtoiSyntax \<Rightarrow> Inl (BadCap stated)
        | AtoiInt n \<Rightarrow> if n < 1 then Inl (BadCap stated) else Inr n)"

datatype over = OverUploads | OverVersions | OverSeq | OverBytes

record Capacity =
  cp_Uploads :: int
  cp_Cap :: int
  cp_Versions :: int
  cp_MaxVersions :: int
  cp_Seq :: int
  cp_MaxSeq :: int
  cp_Bytes :: int
  cp_MaxBytes :: int
  cp_Over :: "over list"

definition CapacityOf :: "Record \<Rightarrow> string \<Rightarrow> int \<Rightarrow> int \<Rightarrow> Capacity" where
  "CapacityOf r who cap sz =
     (let uploads = 1 + int (length (filter (\<lambda>v. vn_Uploader v = who) (cr_Versions r)));
          versions = int (length (cr_Versions r)) + 1;
          sq = cr_Seq r + 1
      in \<lparr>cp_Uploads = uploads, cp_Cap = cap, cp_Versions = versions, cp_MaxVersions = plan_maxVersions,
          cp_Seq = sq, cp_MaxSeq = plan_maxSeq, cp_Bytes = sz, cp_MaxBytes = plan_maxBytes,
          cp_Over = (if uploads > cap then [OverUploads] else []) @
            (if versions > plan_maxVersions then [OverVersions] else []) @
            (if sq > plan_maxSeq then [OverSeq] else []) @
            (if sz > plan_maxBytes then [OverBytes] else [])\<rparr>)"

definition restacked_version :: "Record \<Rightarrow> string \<Rightarrow> string \<Rightarrow> Version" where
  "restacked_version r who head =
     \<lparr>vn_N = 0, vn_Head = HeadPrefix @ head, vn_Title = vn_Title (ActiveVersion r), vn_Branch = vn_Branch (ActiveVersion r),
      vn_Uploader = who\<rparr>"

definition nextSize :: "Record \<Rightarrow> string \<Rightarrow> int" where
  "nextSize r who =
     (let stand = replicate (length (HeadOf (ActiveVersion r))) (CHR ''0'')
      in case NextRecord r (restacked_version r who stand) of
           Inl _ \<Rightarrow> 0
         | Inr next \<Rightarrow> (case EncodeRecord next of Inl _ \<Rightarrow> 0 | Inr b \<Rightarrow> int (length b)))"

section \<open>What releases a family\<close>

lemma Currency_releases:
  "fst (snd (Currency oc found head tip evidence)) \<longleftrightarrow>
     found \<and> oc_Head oc = head \<and> oc_Tip oc = tip \<and> oc_Evidence oc = evidence \<and> oc_Decision oc \<in> {''stale'', ''reject''}"
  by (auto simp: Currency_def)

lemma Relate_none:
  "Relate r m incoming = Inr [] \<longleftrightarrow>
     rf_Name r \<notin> mb_Names m \<and> rf_Head r \<notin> set (mb_Heads m) \<and>
     (\<exists>commits. incoming (rf_Head r) = Inr commits \<and> (\<forall>h \<in> set (mb_Heads m). \<not> commits h))"
  by (auto simp: Relate_def Let_def result_simps list_ex_iff split: if_splits)

lemma add_head_set: "set (add_head hs h) = set hs \<union> (if h = [] then {} else {h})"
  by (auto simp: add_head_def)

lemma add_versions_members:
  "mb_Names (foldl add_version m vs) = mb_Names m \<union> {ChangeName (vn_Branch v) | v. v \<in> set vs \<and> vn_Branch v \<noteq> []} \<and>
   set (mb_Heads (foldl add_version m vs)) = set (mb_Heads m) \<union> (HeadOf ` set vs - {[]})"
  by (induction vs arbitrary: m) (auto simp: add_version_def add_head_set)

text \<open>A request that names a change, or asks for any head a change has had, is related to its family.\<close>

lemma add_layer_mono: "mb_Names m \<subseteq> mb_Names (add_layer m l) \<and> set (mb_Heads m) \<subseteq> set (mb_Heads (add_layer m l))"
  using add_versions_members by (auto simp: add_layer_def add_head_set)

lemma members_mono: "mb_Names m \<subseteq> mb_Names (foldl add_layer m ls) \<and> set (mb_Heads m) \<subseteq> set (mb_Heads (foldl add_layer m ls))"
  using add_layer_mono by (induction ls arbitrary: m) (simp, force)

lemma membersOf_change:
  assumes "l \<in> set ls" "fl_ID l \<noteq> []" "v \<in> set (cr_Versions (fl_Record l))" "HeadOf v \<noteq> []"
  shows "RequestName (fl_ID l) \<in> mb_Names (membersOf ls) \<and> HeadOf v \<in> set (mb_Heads (membersOf ls)) \<and>
    (vn_Branch v \<noteq> [] \<longrightarrow> ChangeName (vn_Branch v) \<in> mb_Names (membersOf ls))"
proof -
  have "RequestName (fl_ID l) \<in> mb_Names (foldl add_layer m ls) \<and> HeadOf v \<in> set (mb_Heads (foldl add_layer m ls)) \<and>
    (vn_Branch v \<noteq> [] \<longrightarrow> ChangeName (vn_Branch v) \<in> mb_Names (foldl add_layer m ls))" for m
    using assms(1)
  proof (induction ls arbitrary: m)
    case (Cons k ls)
    show ?case
    proof (cases "l = k")
      case True
      have "RequestName (fl_ID l) \<in> mb_Names (add_layer m l) \<and> HeadOf v \<in> set (mb_Heads (add_layer m l)) \<and>
        (vn_Branch v \<noteq> [] \<longrightarrow> ChangeName (vn_Branch v) \<in> mb_Names (add_layer m l))"
        using assms(2-4) add_versions_members by (auto simp: add_layer_def)
      then show ?thesis using members_mono [of "add_layer m l" ls] True by auto
    next
      case False
      then show ?thesis using Cons by simp
    qed
  qed simp
  then show ?thesis by (simp add: membersOf_def)
qed

section \<open>What is counted is what is written\<close>

lemma next_ok:
  assumes "record_ok r" "cr_State r = Ready" "NextRecord r v = Inr after"
    "version_ok (length (cr_Versions r)) (v\<lparr>vn_N := int (length (cr_Versions r)) + 1\<rparr>)"
    "int (length (cr_Versions r)) < MaxVersions" "cr_Seq r < MaxSeq"
  shows "record_ok after"
proof -
  note row = NextRecord_row [OF assms(3,1,2)]
  have "cr_Schema after = cr_Schema r" using assms(3) by (auto simp: NextRecord_def Let_def split: if_splits)
  moreover have "\<forall>i < length (cr_Versions after). version_ok i (cr_Versions after ! i)"
    using row assms(1,4) by (auto simp: record_ok_def nth_append less_Suc_eq)
  ultimately show ?thesis using row assms(1,2,5,6) by (auto simp: record_ok_def)
qed

lemma version_size:
  assumes "length (json_quote (vn_Head v)) = length (json_quote (vn_Head w))" "vn_N v = vn_N w" "vn_Title v = vn_Title w"
    "vn_Branch v = vn_Branch w" "vn_Uploader v = vn_Uploader w"
  shows "length (write_value l (version_value v)) = length (write_value l (version_value w))"
  using assms by (simp add: version_value_def)

lemma record_size:
  assumes "map (\<lambda>v. length (write_value 2 (version_value v))) (cr_Versions r) = map (\<lambda>v. length (write_value 2 (version_value v))) (cr_Versions s)"
    "cr_Schema r = cr_Schema s" "cr_ChangeID r = cr_ChangeID s" "cr_Target r = cr_Target s" "cr_Owner r = cr_Owner s"
    "cr_State r = cr_State s" "cr_Seq r = cr_Seq s" "cr_Active r = cr_Active s"
  shows "length (write_value 0 (record_value r)) = length (write_value 0 (record_value s))"
proof -
  have e: "(cr_Versions r = []) = (cr_Versions s = [])" using assms(1) by (metis map_is_Nil_conv)
  have "length (join_str sep (map (write_value 2 \<circ> version_value) (cr_Versions r))) =
    length (join_str sep (map (write_value 2 \<circ> version_value) (cr_Versions s)))" for sep
    using assms(1) by (intro join_str_length_cong) (simp add: comp_def)
  then have "length (write_value 1 (JArray (map version_value (cr_Versions r)))) =
    length (write_value 1 (JArray (map version_value (cr_Versions s))))"
    using e by (simp add: numeral_2_eq_2)
  then show ?thesis using assms(2-8) by (simp add: record_value_def)
qed

definition restackable :: "Record \<Rightarrow> string \<Rightarrow> string \<Rightarrow> bool" where
  "restackable r who head \<longleftrightarrow> record_ok r \<and> cr_State r = Ready \<and> ValidPrincipal who \<and> ValidHead (HeadPrefix @ head) \<and>
     head \<noteq> HeadOf (ActiveVersion r) \<and> \<not> isZero (HeadOf (ActiveVersion r))"

lemma active_ok:
  assumes "record_ok r"
  shows "version_ok (nat (cr_Active r - 1)) (ActiveVersion r)"
  using assms by (auto simp: record_ok_def ActiveVersion_def)

lemma valid_head_iff: "ValidHead (HeadPrefix @ h) \<longleftrightarrow> length h = 40 \<and> list_all is_lower_hex h"
  by (auto simp: ValidHead_def)

lemma active_head:
  assumes "record_ok r"
  shows "vn_Head (ActiveVersion r) = HeadPrefix @ HeadOf (ActiveVersion r)" "ValidHead (HeadPrefix @ HeadOf (ActiveVersion r))"
proof -
  have v: "ValidHead (vn_Head (ActiveVersion r))" using active_ok [OF assms] by (simp add: version_ok_def)
  then obtain t where t: "vn_Head (ActiveVersion r) = HeadPrefix @ t"
    by (metis ValidHead_def append_take_drop_id)
  then show "vn_Head (ActiveVersion r) = HeadPrefix @ HeadOf (ActiveVersion r)" by (simp add: HeadOf_def trim_prefix_def)
  then show "ValidHead (HeadPrefix @ HeadOf (ActiveVersion r))" using v by simp
qed

lemma restack_next:
  assumes "record_ok r" "cr_State r = Ready" "ValidPrincipal who" "ValidHead (HeadPrefix @ h)" "h \<noteq> HeadOf (ActiveVersion r)"
    "int (length (cr_Versions r)) < MaxVersions" "cr_Seq r < MaxSeq"
  shows "\<exists>after. NextRecord r (restacked_version r who h) = Inr after \<and> record_ok after"
proof -
  have ne: "vn_Head (ActiveVersion r) \<noteq> HeadPrefix @ h" using active_head [OF assms(1)] assms(5) by simp
  then obtain after where a: "NextRecord r (restacked_version r who h) = Inr after"
    using assms(6,7) by (auto simp: NextRecord_def Let_def restacked_version_def)
  have "version_ok (length (cr_Versions r)) ((restacked_version r who h)\<lparr>vn_N := int (length (cr_Versions r)) + 1\<rparr>)"
    using active_ok [OF assms(1)] assms(3,4) by (auto simp: version_ok_def restacked_version_def)
  from next_ok [OF assms(1,2) a this assms(6,7)] a show ?thesis by blast
qed

lemma head_quote: "ValidHead (HeadPrefix @ h) \<Longrightarrow> length (json_quote (HeadPrefix @ h)) = 51"
proof -
  assume v: "ValidHead (HeadPrefix @ h)"
  then have h: "length h = 40" "unescaped h"
    by (auto simp: unescaped_def valid_head_iff list_all_iff is_lower_hex_def)
  have "unescaped HeadPrefix" by (simp add: unescaped_def HeadPrefix_def byte_val_def)
  then have "unescaped (HeadPrefix @ h)" using h by (simp add: unescaped_def)
  then show ?thesis using h by (simp add: length_json_quote) (simp add: HeadPrefix_def)
qed

lemma restacked_size:
  assumes "record_ok r" "cr_State r = Ready" "ValidHead (HeadPrefix @ h)" "ValidHead (HeadPrefix @ k)"
    "NextRecord r (restacked_version r who h) = Inr a" "NextRecord r (restacked_version r who k) = Inr b"
  shows "length (write_value 0 (record_value a)) = length (write_value 0 (record_value b))"
proof (rule record_size)
  note ra = NextRecord_row [OF assms(5,1,2)] and rb = NextRecord_row [OF assms(6,1,2)]
  have "length (write_value 2 (version_value ((restacked_version r who h)\<lparr>vn_N := n\<rparr>))) =
    length (write_value 2 (version_value ((restacked_version r who k)\<lparr>vn_N := n\<rparr>)))" for n
    by (rule version_size) (simp_all add: restacked_version_def head_quote assms(3,4))
  then show "map (\<lambda>v. length (write_value 2 (version_value v))) (cr_Versions a) =
    map (\<lambda>v. length (write_value 2 (version_value v))) (cr_Versions b)"
    using ra rb by simp
  show "cr_Schema a = cr_Schema b" using assms(5,6) by (auto simp: NextRecord_def Let_def split: if_splits)
qed (use NextRecord_row [OF assms(5,1,2)] NextRecord_row [OF assms(6,1,2)] in auto)

lemma encoded: "record_ok r \<Longrightarrow> EncodeRecord r = Inr (write_value 0 (record_value r) @ [CHR 0x0A])"
  by (simp add: EncodeRecord_def check_record_iff [THEN iffD2])

lemma nextSize_exact:
  assumes "restackable r who head" "int (length (cr_Versions r)) < MaxVersions" "cr_Seq r < MaxSeq"
  shows "\<exists>after data. NextRecord r (restacked_version r who head) = Inr after \<and> record_ok after \<and>
    EncodeRecord after = Inr data \<and> nextSize r who = int (length data)"
proof -
  note a = assms(1) [unfolded restackable_def]
  define stand where "stand = replicate (length (HeadOf (ActiveVersion r))) (CHR ''0'')"
  have l: "length (HeadOf (ActiveVersion r)) = 40" using active_head(2) a by (auto simp: valid_head_iff)
  have s: "ValidHead (HeadPrefix @ stand)"
    using l by (simp add: valid_head_iff stand_def list_all_iff is_lower_hex_def byte_val_def)
  have z: "stand \<noteq> HeadOf (ActiveVersion r)"
  proof
    assume "stand = HeadOf (ActiveVersion r)"
    moreover have "isZero stand" using l by (simp add: isZero_def stand_def list_all_iff)
    ultimately show False using a by simp
  qed
  obtain after where n: "NextRecord r (restacked_version r who head) = Inr after" "record_ok after"
    using restack_next [of r who head] a assms(2,3) by blast
  obtain nx where m: "NextRecord r (restacked_version r who stand) = Inr nx" "record_ok nx"
    using restack_next [of r who stand] a s z assms(2,3) by blast
  have "length (write_value 0 (record_value nx)) = length (write_value 0 (record_value after))"
    using restacked_size [OF _ _ s _ m(1) n(1)] a by blast
  then have "nextSize r who = int (length (write_value 0 (record_value after) @ [CHR 0x0A]))"
    using m by (simp add: nextSize_def Let_def stand_def [symmetric] encoded)
  then show ?thesis using n encoded [OF n(2)] by blast
qed

text \<open>
  When the planner finds no limit of a ready change passed, the engine can add the rebased
  head, whatever it turns out to be; the record it writes is exactly as long as was counted; and
  it leaves the record within the restacker's limits, short of the hook's.
\<close>

theorem capacity_room:
  assumes "restackable r who head" "cp_Over (CapacityOf r who cap (nextSize r who)) = []"
  shows "\<exists>after data. NextRecord r (restacked_version r who head) = Inr after \<and> EncodeRecord after = Inr data \<and>
    int (length data) = nextSize r who \<and> int (length data) \<le> plan_maxBytes \<and> length data < MaxRecordBlob \<and>
    int (length (filter (\<lambda>v. vn_Uploader v = who) (cr_Versions after))) \<le> cap \<and>
    int (length (cr_Versions after)) < MaxVersions \<and> cr_Seq after < MaxSeq"
proof -
  have c: "1 + int (length (filter (\<lambda>v. vn_Uploader v = who) (cr_Versions r))) \<le> cap"
    "int (length (cr_Versions r)) + 1 \<le> 900" "cr_Seq r + 1 \<le> 99000" "nextSize r who \<le> 48 * 1024"
    using assms(2) by (auto simp: CapacityOf_def Let_def plan_maxVersions_def plan_maxSeq_def plan_maxBytes_def split: if_splits)
  obtain after data where a: "NextRecord r (restacked_version r who head) = Inr after" "EncodeRecord after = Inr data"
    "nextSize r who = int (length data)"
    using nextSize_exact [OF assms(1)] c by (auto simp: MaxVersions_def MaxSeq_def)
  have "record_ok r" "cr_State r = Ready" using assms(1) by (auto simp: restackable_def)
  note row = NextRecord_row [OF a(1) this]
  then show ?thesis
    using a c by (auto simp: plan_maxBytes_def MaxRecordBlob_def MaxVersions_def MaxSeq_def restacked_version_def)
qed

lemma sample_restackable: "restackable first_record ''bob'' head_b"
  using sample_ok(1) sample_parts sample_first
  by (auto simp: restackable_def head_a_def head_b_def isZero_def list_all_iff)

lemma capacity_room_witness:
  "\<exists>after data. NextRecord first_record (restacked_version first_record ''bob'' head_b) = Inr after \<and> EncodeRecord after = Inr data \<and>
    int (length data) = nextSize first_record ''bob'' \<and> int (length data) \<le> plan_maxBytes \<and> length data < MaxRecordBlob \<and>
    int (length (filter (\<lambda>v. vn_Uploader v = ''bob'') (cr_Versions after))) \<le> 1 \<and>
    int (length (cr_Versions after)) < MaxVersions \<and> cr_Seq after < MaxSeq"
proof (rule capacity_room [OF sample_restackable])
  have v: "restacked_version first_record ''bob'' head_b =
      \<lparr>vn_N = 0, vn_Head = HeadPrefix @ head_b, vn_Title = ''t'', vn_Branch = ''b'', vn_Uploader = ''bob''\<rparr>"
    using sample_first(2) by (simp add: restacked_version_def sample_version_def)
  have "nextSize first_record ''bob'' = int (length (sample_file second_record))"
    using nextSize_exact [OF sample_restackable] sample_next [folded v] encoded [OF sample_ok(2)]
    by (auto simp: first_record_def sample_record_def MaxVersions_def MaxSeq_def sample_file_def)
  then have "nextSize first_record ''bob'' \<le> 48 * 1024" using sample_size by simp
  then show "cp_Over (CapacityOf first_record ''bob'' 1 (nextSize first_record ''bob'')) = []"
    by (simp add: CapacityOf_def Let_def plan_maxVersions_def plan_maxSeq_def plan_maxBytes_def)
      (simp add: first_record_def sample_record_def sample_version_def)
qed

end
