(* ===== verification/IntegratorRecords.thy ===== *)
theory IntegratorRecords
  imports RebaseRecord RecordRound Verdict Telemetry
begin

text \<open>
  \<^verbatim>\<open>integrator/records.go\<close>: what the change records say about a request. Records never make a
  request land; they only refuse it. What git answers is a record of functions, read at one moment.
\<close>

section \<open>Git\<close>

text \<open>
  A listing of the record refs and of the attestation refs, what a ref of exactly that name holds
  (nothing when git fails), \<^verbatim>\<open>cat-file\<close> for sizes and for contents, the commits and the first merge
  in a range, all merge bases with whether git exited zero, ancestry, and whether a deletion
  leased on a value was made.
\<close>

record repo =
  rp_records :: "string option"
  rp_attested :: "string option"
  rp_resolve :: "string \<Rightarrow> string option option"
  rp_check :: "string list \<Rightarrow> string option"
  rp_batch :: "string list \<Rightarrow> string option"
  rp_range :: "string \<Rightarrow> string \<Rightarrow> string option"
  rp_merges :: "string \<Rightarrow> string \<Rightarrow> string option"
  rp_bases :: "string \<Rightarrow> string \<Rightarrow> string \<times> bool"
  rp_ancestor :: "string \<Rightarrow> string \<Rightarrow> bool"
  rp_delete :: "string \<Rightarrow> string \<Rightarrow> bool"

record request =
  rt_ref :: string
  rt_change :: string
  rt_target :: string
  rt_head :: string

definition refusedNotReady :: string where "refusedNotReady = ''refused-not-ready''"
definition refusedMerge :: string where "refusedMerge = ''refused-merge''"
definition voidedWithdrawn :: string where "voidedWithdrawn = ''voided-withdrawn''"

definition MaxRecords :: nat where "MaxRecords = 2000"
definition recordLimit :: nat where "recordLimit = 2 * MaxRecords"
definition MaxRecordCommit :: nat where "MaxRecordCommit = 4 * 1024"
definition MaxRecordTree :: nat where "MaxRecordTree = 1024"

section \<open>Reading records\<close>

text \<open>Why a record does not read: the commit, its tree or its file is missing, of another type or too long.\<close>

datatype record_why =
    ObjectMissing nat
  | ObjectKind nat string
  | ObjectLong nat string
  | NotRecordRef
  | RecordText record_error
  | OtherChange string string
  | NoSuchRecord
  | RefUnread
  | StoreUnread

datatype git_failure =
    ListingFailed
  | TooManyRecords
  | CheckFailed
  | CheckLines nat
  | BatchFailed
  | BatchShort
  | BatchAnswer string
  | BatchPanic
  | RangeFailed
  | MergeFailed

fun within_steps :: "((nat \<times> string \<times> nat) \<times> string) list \<Rightarrow> string \<Rightarrow> (record_why, string) result" where
  "within_steps [] blob = Inr blob"
| "within_steps (((k, kind, mx), line) # ls) blob =
     (let fs = go_fields line
      in if length fs \<noteq> 3 then Inl (ObjectMissing k)
         else if fs ! 1 \<noteq> kind then Inl (ObjectKind k (fs ! 1))
         else
           case go_atoi (fs ! 2) of
             None \<Rightarrow> Inl (ObjectLong k (fs ! 2))
           | Some sz \<Rightarrow> if sz > int mx then Inl (ObjectLong k (fs ! 2)) else within_steps ls (fs ! 0))"

definition withinBounds :: "string list \<Rightarrow> (record_why, string) result" where
  "withinBounds lines =
     within_steps
       (zip [(0, ''commit'', MaxRecordCommit), (1, ''tree'', MaxRecordTree), (2, ''blob'', MaxRecordBlob)] lines) []"

text \<open>The contents \<^verbatim>\<open>cat-file --batch\<close> prints: a header line, that many bytes, and one byte more.\<close>

fun read_blobs :: "nat \<Rightarrow> string \<Rightarrow> (git_failure, string list) result" where
  "read_blobs 0 s = Inr []"
| "read_blobs (Suc n) s =
     (case cut_byte s (CHR 0x0A) of
        None \<Rightarrow> Inl BatchShort
      | Some (header, rest) \<Rightarrow>
          (let fs = go_fields (header @ [CHR 0x0A])
           in if length fs \<noteq> 3 then Inl (BatchAnswer header)
              else
                case go_atoi (fs ! 2) of
                  None \<Rightarrow> Inl (BatchAnswer header)
                | Some sz \<Rightarrow>
                    if sz < 0 then Inl BatchPanic
                    else if length rest < nat sz + 1 then Inl BatchShort
                    else rbind (read_blobs n (drop (nat sz + 1) rest)) (\<lambda>bs. Inr (take (nat sz) rest # bs))))"

definition git_blobs :: "repo \<Rightarrow> string list \<Rightarrow> (git_failure, string list) result" where
  "git_blobs g oids =
     (if oids = [] then Inr []
      else case rp_batch g oids of None \<Rightarrow> Inl BatchFailed | Some out \<Rightarrow> read_blobs (length oids) out)"

definition named_record :: "string \<Rightarrow> string \<Rightarrow> (record_why, Record) result" where
  "named_record ref data =
     (case ParseRef ref of
        None \<Rightarrow> Inl NotRecordRef
      | Some (target, cid) \<Rightarrow>
          rbind (rmap_err RecordText (ParseRecord data)) (\<lambda>r.
            if cr_ChangeID r \<noteq> cid \<or> cr_Target r \<noteq> target then Inl (OtherChange (cr_ChangeID r) (cr_Target r)) else Inr r))"

fun record_answers ::
  "string list \<Rightarrow> (record_why, string) result list \<Rightarrow> string list \<Rightarrow> (record_why, Record) result list" where
  "record_answers (ref # refs) (Inl why # bs) cs = Inl why # record_answers refs bs cs"
| "record_answers (ref # refs) (Inr blob # bs) (c # cs) = named_record ref c # record_answers refs bs cs"
| "record_answers refs bs cs = []"

definition queries :: "string list \<Rightarrow> string list" where
  "queries commits = concat (map (\<lambda>c. [c, c @ ''^{tree}'', c @ '':record.json'']) commits)"

definition blobs_of :: "('e, 'a) result list \<Rightarrow> 'a list" where
  "blobs_of rs = List.map_filter (case_sum (\<lambda>_. None) Some) rs"

definition records :: "repo \<Rightarrow> (string \<times> string) list \<Rightarrow> (git_failure, (record_why, Record) result list) result" where
  "records g rcs =
     (if rcs = [] then Inr []
      else
        case rp_check g (queries (map snd rcs)) of
          None \<Rightarrow> Inl CheckFailed
        | Some checked \<Rightarrow>
            (let lines = split_byte (CHR 0x0A) (trim_newlines checked);
                 bounded = map (\<lambda>i. withinBounds (take 3 (drop (3 * i) lines))) [0..<length rcs]
             in if length lines \<noteq> 3 * length rcs then Inl (CheckLines (length lines))
                else rbind (git_blobs g (blobs_of bounded)) (\<lambda>contents. Inr (record_answers (map fst rcs) bounded contents))))"

section \<open>The index\<close>

record recordIndex =
  ri_byHead :: "string \<Rightarrow> (string \<times> Record) list"
  ri_byRef :: "string \<rightharpoonup> Record"
  ri_unreadable :: "(string \<times> string \<times> record_why) list"

definition record_refs :: "string \<Rightarrow> (string \<times> string) list" where
  "record_refs out = List.map_filter (\<lambda>line. cut_byte line (CHR '' '')) (split_byte (CHR 0x0A) (trim_space out))"

fun add_versions :: "string \<Rightarrow> Record \<Rightarrow> Version list \<Rightarrow> (string \<Rightarrow> (string \<times> Record) list) \<Rightarrow> string \<Rightarrow> (string \<times> Record) list" where
  "add_versions ref r [] m = m"
| "add_versions ref r (v # vs) m = add_versions ref r vs (m(HeadOf v := m (HeadOf v) @ [(ref, r)]))"

fun add_record :: "recordIndex \<Rightarrow> (string \<times> string) \<times> (record_why, Record) result \<Rightarrow> recordIndex" where
  "add_record idx ((ref, commit), Inl why) = idx\<lparr>ri_unreadable := ri_unreadable idx @ [(ref, commit, why)]\<rparr>"
| "add_record idx ((ref, commit), Inr r) =
     idx\<lparr>ri_byRef := (ri_byRef idx)(ref \<mapsto> r), ri_byHead := add_versions ref r (cr_Versions r) (ri_byHead idx)\<rparr>"

definition no_records :: recordIndex where
  "no_records = \<lparr>ri_byHead = (\<lambda>_. []), ri_byRef = Map.empty, ri_unreadable = []\<rparr>"

text \<open>Every record ref with what it holds, and the index built of them.\<close>

definition read_listed :: "repo \<Rightarrow> (git_failure, ((string \<times> string) \<times> (record_why, Record) result) list) result" where
  "read_listed g =
     (case rp_records g of
        None \<Rightarrow> Inl ListingFailed
      | Some out \<Rightarrow>
          (let rcs = record_refs out
           in if length rcs > recordLimit then Inl TooManyRecords
              else rbind (records g rcs) (\<lambda>answers. Inr (zip rcs answers))))"

definition readRecords :: "repo \<Rightarrow> (git_failure, recordIndex) result" where
  "readRecords g = rbind (read_listed g) (\<lambda>listed. Inr (foldl add_record no_records listed))"

definition readRecord :: "repo \<Rightarrow> string \<Rightarrow> (record_why, Record) result" where
  "readRecord g ref =
     (case rp_resolve g ref of
        None \<Rightarrow> Inl RefUnread
      | Some None \<Rightarrow> Inl NoSuchRecord
      | Some (Some oid) \<Rightarrow> (case records g [(ref, oid)] of Inr [answer] \<Rightarrow> answer | _ \<Rightarrow> Inl StoreUnread))"

section \<open>Refusals\<close>

definition versionAt :: "Record \<Rightarrow> string \<Rightarrow> Version option" where
  "versionAt r oid = find (\<lambda>v. vn_Head v = HeadPrefix @ oid) (cr_Versions r)"

text \<open>The head comes first, whatever the tip holds.\<close>

definition introduced :: "repo \<Rightarrow> request \<Rightarrow> string \<Rightarrow> (git_failure, string list) result" where
  "introduced g r tip =
     (case rp_range g (rt_head r) tip of
        None \<Rightarrow> Inl RangeFailed
      | Some out \<Rightarrow>
          (let commits = go_fields (trim_space out)
           in Inr (if commits = [] \<or> hd commits \<noteq> rt_head r then rt_head r # commits else commits)))"

datatype refusal_why =
    NoRecordOf string
  | RecordBad string record_why
  | ChangeNotReady string string
  | NoVersionOf string
  | BringsVersion string int string string
  | HoldsMerge string

fun held_by :: "string \<Rightarrow> (string \<times> Record) list \<Rightarrow> refusal_why option" where
  "held_by c [] = None"
| "held_by c ((ref, rec) # ns) =
     (case versionAt rec c of
        None \<Rightarrow> held_by c ns
      | Some v \<Rightarrow>
          if cr_State rec = Ready then held_by c ns
          else Some (BringsVersion c (vn_N v) (cr_ChangeID rec) (cr_State rec)))"

fun held_commits :: "recordIndex \<Rightarrow> string list \<Rightarrow> refusal_why option" where
  "held_commits idx [] = None"
| "held_commits idx (c # cs) = (case held_by c (ri_byHead idx c) of None \<Rightarrow> held_commits idx cs | Some why \<Rightarrow> Some why)"

definition target_name :: "request \<Rightarrow> string" where
  "target_name r = trim_prefix (rt_target r) ''refs/heads/''"

text \<open>The first rule, for a request named for a change.\<close>

definition own_refusal :: "repo \<Rightarrow> request \<Rightarrow> refusal_why option" where
  "own_refusal g r =
     (case RequestID (rt_change r) of
        None \<Rightarrow> None
      | Some cid \<Rightarrow>
          (case readRecord g (Ref (target_name r) cid) of
             Inl NoSuchRecord \<Rightarrow> Some (NoRecordOf cid)
           | Inl why \<Rightarrow> Some (RecordBad cid why)
           | Inr rec \<Rightarrow>
               if cr_State rec \<noteq> Ready then Some (ChangeNotReady cid (cr_State rec))
               else if versionAt rec (rt_head r) = None then Some (NoVersionOf cid)
               else None))"

definition recordRefusal ::
  "repo \<Rightarrow> request \<Rightarrow> recordIndex \<Rightarrow> string \<Rightarrow> (git_failure, (string \<times> refusal_why) option) result" where
  "recordRefusal g r idx tip =
     (case own_refusal g r of
        Some why \<Rightarrow> Inr (Some (refusedNotReady, why))
      | None \<Rightarrow>
          rbind (introduced g r tip) (\<lambda>commits.
            case held_commits idx commits of
              Some why \<Rightarrow> Inr (Some (refusedNotReady, why))
            | None \<Rightarrow> Inr None))"

definition finalRefusal :: "repo \<Rightarrow> request \<Rightarrow> string \<Rightarrow> (git_failure, (string \<times> refusal_why) option) result" where
  "finalRefusal g r tip = rbind (readRecords g) (\<lambda>idx. recordRefusal g r idx tip)"

definition mergeRefusal :: "repo \<Rightarrow> request \<Rightarrow> string \<Rightarrow> (git_failure, (string \<times> refusal_why) option) result" where
  "mergeRefusal g r tip =
     (case rp_merges g (rt_head r) tip of
        None \<Rightarrow> Inl MergeFailed
      | Some out \<Rightarrow> if trim_space out \<noteq> [] then Inr (Some (refusedMerge, HoldsMerge (trim_space out))) else Inr None)"

section \<open>Records that do not read\<close>

definition may_name :: "repo \<Rightarrow> request \<Rightarrow> string \<Rightarrow> string \<Rightarrow> bool" where
  "may_name g r tip commit =
     (let (raw, ok) = rp_bases g commit (rt_head r); out = trim_space raw
      in (\<not> ok \<and> out \<noteq> []) \<or> (ok \<and> list_ex (\<lambda>base. \<not> rp_ancestor g base tip) (go_fields out)))"

definition uncheckable :: "repo \<Rightarrow> request \<Rightarrow> recordIndex \<Rightarrow> string \<Rightarrow> (string \<times> string \<times> record_why) list" where
  "uncheckable g r idx tip = filter (\<lambda>(ref, commit, why). may_name g r tip commit) (ri_unreadable idx)"

section \<open>Voiding\<close>

text \<open>The first of the records named that is withdrawn, or nothing.\<close>

definition withdrawnFor :: "request \<Rightarrow> recordIndex \<Rightarrow> string option" where
  "withdrawnFor r idx =
     (let by_head = map_option fst (find (\<lambda>(ref, rec). cr_State rec = Withdrawn) (ri_byHead idx (rt_head r)))
      in case RequestID (rt_change r) of
           None \<Rightarrow> by_head
         | Some cid \<Rightarrow>
             (let ref = Ref (target_name r) cid
              in case ri_byRef idx ref of
                   None \<Rightarrow> by_head
                 | Some rec \<Rightarrow> if cr_State rec = Withdrawn then Some ref else by_head))"

definition evidenceState :: "repo \<Rightarrow> string option" where
  "evidenceState g =
     (case rp_attested g of
        None \<Rightarrow> None
      | Some out \<Rightarrow>
          (let s = trim_suffix out [CHR 0x0A]
           in Some (EvidenceFingerprint (if s \<noteq> [] then split_byte (CHR 0x0A) s else []))))"

text \<open>A voided request, with the outcome its deletion is recorded under; nothing when it stays.\<close>

definition void :: "repo \<Rightarrow> request \<Rightarrow> string \<Rightarrow> string option" where
  "void g r ref =
     (case readRecord g ref of
        Inl _ \<Rightarrow> None
      | Inr rec \<Rightarrow>
          if cr_State rec \<noteq> Withdrawn then None
          else if RequestID (rt_change r) \<noteq> Some (cr_ChangeID rec) \<and> versionAt rec (rt_head r) = None then None
          else
            case rp_resolve g (rt_target r) of
              Some (Some tip) \<Rightarrow>
                (case evidenceState g of
                   None \<Rightarrow> None
                 | Some evidence \<Rightarrow>
                     if \<not> rp_delete g (rt_ref r) (rt_head r) then None
                     else Some (join_str '' '' [rt_head r, tip, evidence, voidedWithdrawn]))
            | _ \<Rightarrow> None)"

text \<open>The requests left to judge; each is looked at in a moment of its own.\<close>

fun void_loop :: "(nat \<Rightarrow> repo) \<Rightarrow> nat \<Rightarrow> request list \<Rightarrow> recordIndex \<Rightarrow> request list" where
  "void_loop at i [] idx = []"
| "void_loop at i (r # rs) idx =
     (case withdrawnFor r idx of
        None \<Rightarrow> r # void_loop at (i + 1) rs idx
      | Some ref \<Rightarrow>
          if void (at i) r ref = None then r # void_loop at (i + 1) rs idx else void_loop at (i + 1) rs idx)"

definition voidWithdrawn :: "(nat \<Rightarrow> repo) \<Rightarrow> request list \<Rightarrow> recordIndex \<Rightarrow> request list" where
  "voidWithdrawn at rs idx = void_loop at 0 rs idx"

section \<open>What the index holds\<close>

lemma named_record_ok: "named_record ref data = Inr r \<Longrightarrow> record_ok r \<and> ParseRef ref = Some (cr_Target r, cr_ChangeID r)"
  using RecordRound.parsed_ok by (auto simp: named_record_def result_simps split: option.splits if_splits)

lemma record_answers_ok: "Inr r \<in> set (record_answers refs bs cs) \<Longrightarrow> record_ok r"
  by (induction refs bs cs rule: record_answers.induct) (auto dest: named_record_ok sym)

lemma records_ok: "records g rcs = Inr answers \<Longrightarrow> Inr r \<in> set answers \<Longrightarrow> record_ok r"
  by (auto simp: records_def Let_def result_simps record_answers_ok split: if_splits option.splits)

lemma readRecord_ok: "readRecord g ref = Inr r \<Longrightarrow> record_ok r"
  using records_ok by (fastforce simp: readRecord_def split: option.splits sum.splits list.splits)

text \<open>The records that read, with the refs they were read at.\<close>

definition readable :: "((string \<times> string) \<times> (record_why, Record) result) list \<Rightarrow> (string \<times> Record) list" where
  "readable listed = List.map_filter (\<lambda>((ref, commit), answer). case answer of Inl _ \<Rightarrow> None | Inr r \<Rightarrow> Some (ref, r)) listed"

lemma readable_simps [simp]:
  "readable [] = []"
  "readable (((ref, commit), Inl why) # ls) = readable ls"
  "readable (((ref, commit), Inr r) # ls) = (ref, r) # readable ls"
  by (simp_all add: readable_def map_filter_simps)

lemma readable_mem: "(ref, r) \<in> set (readable ls) \<Longrightarrow> \<exists>commit. ((ref, commit), Inr r) \<in> set ls"
proof (induction ls)
  case (Cons l ls)
  obtain ref' commit answer where l: "l = ((ref', commit), answer)" by (metis surj_pair)
  show ?case using Cons by (cases answer) (auto simp: l)
qed simp

lemma add_versions_mem:
  "(ref', r') \<in> set (add_versions ref r vs m h) \<longleftrightarrow>
     (ref', r') \<in> set (m h) \<or> ref' = ref \<and> r' = r \<and> (\<exists>v \<in> set vs. HeadOf v = h)"
  by (induction vs arbitrary: m) auto

lemma index_mem:
  "(ref, r) \<in> set (ri_byHead (foldl add_record idx ls) h) \<longleftrightarrow>
     (ref, r) \<in> set (ri_byHead idx h) \<or> (ref, r) \<in> set (readable ls) \<and> (\<exists>v \<in> set (cr_Versions r). HeadOf v = h)"
proof (induction ls arbitrary: idx)
  case (Cons l ls)
  obtain ref' commit answer where l: "l = ((ref', commit), answer)" by (metis surj_pair)
  show ?case using Cons by (cases answer) (auto simp: l add_versions_mem)
qed simp

lemma versionAt_iff:
  assumes "record_ok r"
  shows "versionAt r h \<noteq> None \<longleftrightarrow> (\<exists>v \<in> set (cr_Versions r). HeadOf v = h)"
proof -
  have "vn_Head v = HeadPrefix @ h \<longleftrightarrow> HeadOf v = h" if v: "v \<in> set (cr_Versions r)" for v
  proof -
    have "ValidHead (vn_Head v)"
      using assms v by (auto simp: record_ok_def version_ok_def in_set_conv_nth)
    then obtain t where "vn_Head v = HeadPrefix @ t" by (metis ValidHead_def append_take_drop_id)
    then show ?thesis by (simp add: HeadOf_def trim_prefix_def)
  qed
  then show ?thesis by (auto simp: versionAt_def find_None_iff)
qed

lemma held_by_iff: "held_by c ns = None \<longleftrightarrow> list_all (\<lambda>(ref, r). versionAt r c = None \<or> cr_State r = Ready) ns"
  by (induction c ns rule: held_by.induct) (auto split: option.splits)

lemma held_commits_iff: "held_commits idx cs = None \<longleftrightarrow> list_all (\<lambda>c. held_by c (ri_byHead idx c) = None) cs"
  by (induction idx cs rule: held_commits.induct) (auto split: option.splits)

section \<open>What a request has to satisfy\<close>

text \<open>A request named for a change asks for a version of it, and its record, as it is now, is ready.\<close>

definition own_ready :: "repo \<Rightarrow> request \<Rightarrow> bool" where
  "own_ready g r \<longleftrightarrow>
     (case RequestID (rt_change r) of
        None \<Rightarrow> True
      | Some cid \<Rightarrow>
          (case readRecord g (Ref (target_name r) cid) of
             Inl _ \<Rightarrow> False
           | Inr rec \<Rightarrow> cr_State rec = Ready \<and> list_ex (\<lambda>v. HeadOf v = rt_head r) (cr_Versions rec)))"

text \<open>No commit is a version of a change that is a draft or withdrawn.\<close>

definition all_ready :: "(string \<times> Record) list \<Rightarrow> string list \<Rightarrow> bool" where
  "all_ready entries commits \<longleftrightarrow>
     list_all (\<lambda>(ref, rec). cr_State rec = Ready \<or> list_all (\<lambda>v. HeadOf v \<notin> set commits) (cr_Versions rec)) entries"

lemma own_refusal_iff: "own_refusal g r = None \<longleftrightarrow> own_ready g r"
proof (cases "RequestID (rt_change r)")
  case (Some cid)
  show ?thesis
  proof (cases "readRecord g (Ref (target_name r) cid)")
    case (Inl why)
    then show ?thesis using Some by (cases why) (auto simp: own_refusal_def own_ready_def)
  next
    case (Inr rec)
    then show ?thesis
      using Some versionAt_iff [OF readRecord_ok [OF Inr], of "rt_head r"]
      by (auto simp: own_refusal_def own_ready_def list_ex_iff)
  qed
qed (simp add: own_refusal_def own_ready_def)

lemma listed_ok: "read_listed g = Inr listed \<Longrightarrow> (ref, r) \<in> set (readable listed) \<Longrightarrow> record_ok r"
  by (auto simp: read_listed_def Let_def result_simps split: option.splits if_splits
      dest!: readable_mem set_zip_rightD intro: records_ok)

lemma held_ready:
  assumes "read_listed g = Inr listed"
  shows "held_commits (foldl add_record no_records listed) commits = None \<longleftrightarrow> all_ready (readable listed) commits"
proof -
  have "(case e of (ref, r) \<Rightarrow> versionAt r c = None \<or> cr_State r = Ready) \<longleftrightarrow> cr_State (snd e) = Ready"
    if "e \<in> set (ri_byHead (foldl add_record no_records listed) c)" for e c
  proof -
    obtain ref r where e: "e = (ref, r)" by (cases e)
    then have "(ref, r) \<in> set (readable listed)" "\<exists>v \<in> set (cr_Versions r). HeadOf v = c"
      using that index_mem [of ref r no_records listed c] by (auto simp: no_records_def)
    then show ?thesis using versionAt_iff [OF listed_ok [OF assms], of ref r c] e by auto
  qed
  then have "held_commits (foldl add_record no_records listed) commits = None \<longleftrightarrow>
      (\<forall>c \<in> set commits. \<forall>e \<in> set (ri_byHead (foldl add_record no_records listed) c). cr_State (snd e) = Ready)"
    by (auto simp: held_commits_iff held_by_iff list_all_iff)
  also have "\<dots> \<longleftrightarrow> all_ready (readable listed) commits"
    using index_mem [of _ _ no_records listed] by (fastforce simp: all_ready_def list_all_iff no_records_def)
  finally show ?thesis .
qed

lemma introduced_head: "introduced g r tip = Inr commits \<Longrightarrow> rt_head r \<in> set commits"
proof -
  assume i: "introduced g r tip = Inr commits"
  then have "commits \<noteq> [] \<and> hd commits = rt_head r" by (auto simp: introduced_def Let_def split: option.splits if_splits)
  then show "rt_head r \<in> set commits" using hd_in_set by metis
qed

lemma finalRefusal_none:
  "finalRefusal g r tip = Inr None \<longleftrightarrow>
     own_ready g r \<and> (\<exists>listed commits. read_listed g = Inr listed \<and> introduced g r tip = Inr commits \<and>
       all_ready (readable listed) commits)"
proof -
  have "recordRefusal g r (foldl add_record no_records listed) tip = Inr None \<longleftrightarrow>
      own_ready g r \<and> (\<exists>commits. introduced g r tip = Inr commits \<and> all_ready (readable listed) commits)"
    if "read_listed g = Inr listed" for listed
    using held_ready [OF that] own_refusal_iff [of g r]
    by (auto simp: recordRefusal_def result_simps split: option.splits)
  then show ?thesis by (auto simp: finalRefusal_def readRecords_def result_simps)
qed

text \<open>
  Just before it lands a request the integrator reads every record again, and refuses nothing
  exactly when it can read them; a request named for a change asks for one of its versions, and
  the change is ready now; and of all the commits the request brings, its head first, none is a
  version of a change that is not ready, by any record that reads.
\<close>

theorem finalRefusal_iff:
  "finalRefusal g r tip = Inr None \<longleftrightarrow>
     own_ready g r \<and> (\<exists>listed commits. read_listed g = Inr listed \<and> introduced g r tip = Inr commits \<and>
       all_ready (readable listed) commits)"
  by (rule finalRefusal_none)

section \<open>What is voided\<close>

lemma void_withdrawn:
  assumes "void g r ref = Some outcome"
  shows "\<exists>rec. readRecord g ref = Inr rec \<and> cr_State rec = Withdrawn \<and>
    (RequestID (rt_change r) = Some (cr_ChangeID rec) \<or> (\<exists>v \<in> set (cr_Versions rec). HeadOf v = rt_head r))"
proof -
  obtain rec where rec: "readRecord g ref = Inr rec" "cr_State rec = Withdrawn"
    "RequestID (rt_change r) = Some (cr_ChangeID rec) \<or> versionAt rec (rt_head r) \<noteq> None"
    using assms by (auto simp: void_def split: sum.splits if_splits)
  then show ?thesis using versionAt_iff [OF readRecord_ok [OF rec(1)], of "rt_head r"] by blast
qed

lemma void_loop_keeps: "set (void_loop at i rs idx) \<subseteq> set rs"
  by (induction at i rs idx rule: void_loop.induct) (auto split: option.splits if_splits)

end
