(* ===== verification/IntegratorPass.thy ===== *)
theory IntegratorPass
  imports IntegratorRecords HookRepo
begin

text \<open>
  \<^verbatim>\<open>integrator/refs.go\<close>, \<^verbatim>\<open>integrator/inputs.go\<close> and the writing of evidence in
  \<^verbatim>\<open>integrator/transfer.go\<close>: one request's way through a pass, and the one ref transaction that
  lands it. Other writers move refs while a pass works, so the pass reads git at a sequence of
  moments, and each try of the transaction has its own.
\<close>

section \<open>Moments\<close>

text \<open>
  Beside the questions of records: the blob an ID names, a tree's listing, sizes of blobs, a tree
  made of a listing, a blob's ID, a commit's committer date, a commit made of a tree, a date and a
  message. \<^verbatim>\<open>mo_refs\<close> is what the refs hold when the transaction is applied, \<^verbatim>\<open>mo_apply\<close> what they
  hold after \<^verbatim>\<open>update-ref --stdin\<close> made it of that text, or nothing when it failed, and \<^verbatim>\<open>mo_after\<close>
  a reading of a ref after that.
\<close>

type_synonym refs = "string \<rightharpoonup> string"

record moment = repo +
  mo_blob :: "string \<Rightarrow> string option"
  mo_list :: "string \<Rightarrow> string option"
  mo_sizes :: "string list \<Rightarrow> string option"
  mo_mktree :: "string \<Rightarrow> string option"
  mo_hash :: "string \<Rightarrow> string option"
  mo_date :: "string \<Rightarrow> string option"
  mo_commit :: "string \<Rightarrow> string \<Rightarrow> string \<Rightarrow> string option"
  mo_refs :: refs
  mo_apply :: "string \<Rightarrow> refs option"
  mo_after :: "string \<Rightarrow> string option option"

section \<open>Requests\<close>

definition requestPrefix :: string where "requestPrefix = ''refs/the-valley/integration-requests''"
definition outcomePrefix :: string where "outcomePrefix = ''refs/the-valley/integration-outcomes''"
definition inputsPrefix :: string where "inputsPrefix = ''refs/the-valley/integration-inputs''"
definition landingTries :: nat where "landingTries = 3"

text \<open>The requests of a listing, and the refs that name none.\<close>

fun request_lines :: "string list \<Rightarrow> request list \<times> string list" where
  "request_lines [] = ([], [])"
| "request_lines (line # ls) =
     (let (found, malformed) = request_lines ls
      in case cut_byte line (CHR '' '') of
           None \<Rightarrow> (found, malformed)
         | Some (ref, head) \<Rightarrow>
             (case cut_byte (trim_prefix ref (requestPrefix @ ''/'')) (CHR ''/'') of
                None \<Rightarrow> (found, ref # malformed)
              | Some (target, chg) \<Rightarrow>
                  if CHR ''/'' \<in> set chg \<or> target = [] \<or> chg = [] then (found, ref # malformed)
                  else
                    (\<lparr>rt_ref = ref, rt_change = chg, rt_target = ''refs/heads/'' @ target, rt_head = head\<rparr> # found,
                     malformed)))"

definition requests :: "string option \<Rightarrow> (request list \<times> string list) option" where
  "requests out =
     map_option (\<lambda>s. let (found, malformed) = request_lines (split_byte (CHR 0x0A) (trim_space s))
                     in (sort_key rt_ref found, sort malformed)) out"

definition memoRef :: "request \<Rightarrow> string" where
  "memoRef r = outcomePrefix @ ''/'' @ trim_prefix (rt_ref r) (requestPrefix @ ''/'')"

definition inputsRef :: "request \<Rightarrow> string" where
  "inputsRef r = inputsPrefix @ ''/'' @ trim_prefix (rt_ref r) (requestPrefix @ ''/'')"

section \<open>What was answered before\<close>

definition readMemo :: "'a moment_scheme \<Rightarrow> request \<Rightarrow> string option" where
  "readMemo m r =
     (case rp_resolve m (memoRef r) of
        None \<Rightarrow> None
      | Some None \<Rightarrow> Some []
      | Some (Some oid) \<Rightarrow> (case mo_blob m oid of None \<Rightarrow> Some [] | Some data \<Rightarrow> Some (trim_space data)))"

definition readInputs :: "'a moment_scheme \<Rightarrow> request \<Rightarrow> string" where
  "readInputs m r =
     (case rp_resolve m (memoRef r) of
        Some (Some outcome) \<Rightarrow>
          (case rp_resolve m (inputsRef r) of
             Some (Some oid) \<Rightarrow>
               (case mo_blob m oid of
                  None \<Rightarrow> []
                | Some data \<Rightarrow>
                    (case cut_byte (trim_space data) (CHR '' '') of
                       None \<Rightarrow> []
                     | Some (digest, bound) \<Rightarrow> if bound \<noteq> outcome \<or> digest = [] then [] else digest))
           | _ \<Rightarrow> [])
      | _ \<Rightarrow> [])"

definition unreadInputs :: string where "unreadInputs = ''unread''"
definition failedMemo :: string where "failedMemo = ''failed''"

text \<open>Ten minutes, in nanoseconds.\<close>

definition retryAfter :: int where "retryAfter = 10 * 60 * 10 ^ 9"

text \<open>The time now, as text too, and \<^verbatim>\<open>time.Parse\<close> of such texts.\<close>

record clock =
  ck_now :: int
  ck_text :: string
  ck_parse :: "string \<Rightarrow> int option"

definition answered :: "clock \<Rightarrow> string \<Rightarrow> string \<Rightarrow> string \<Rightarrow> string \<Rightarrow> bool" where
  "answered ck prev memo lastInputs inputs =
     (case cut_prefix prev (memo @ '' '') of
        None \<Rightarrow> False
      | Some rest \<Rightarrow>
          if lastInputs \<noteq> inputs then False
          else if rest \<in> {refusedNotReady, refusedMerge, voidedWithdrawn} then False
          else
            case cut_prefix rest (failedMemo @ '' '') of
              None \<Rightarrow> inputs \<noteq> unreadInputs
            | Some at \<Rightarrow>
                (case ck_parse ck at of None \<Rightarrow> False | Some t \<Rightarrow> time_sub (ck_now ck) t < retryAfter))"

section \<open>Refusing before judging\<close>

definition refuse :: "repo \<Rightarrow> request \<Rightarrow> recordIndex \<Rightarrow> string \<Rightarrow> (git_failure, string) result" where
  "refuse g r idx tip =
     rbind (recordRefusal g r idx tip) (\<lambda>held.
       case held of
         Some (outcome, why) \<Rightarrow> Inr outcome
       | None \<Rightarrow>
           rbind (mergeRefusal g r tip) (\<lambda>merge. case merge of Some (outcome, why) \<Rightarrow> Inr outcome | None \<Rightarrow> Inr []))"

section \<open>Evidence a landing stores\<close>

text \<open>The note set of a landing: for each ref, blobs by their path.\<close>

type_synonym landedEvidence = "(string \<times> (string \<times> string) list) list"

definition statementNote :: string where "statementNote = ''statement.note''"

definition attestationRef :: "string \<Rightarrow> string \<Rightarrow> string" where
  "attestationRef digest keyHash = AttestationRefs @ digest @ ''/'' @ keyHash"

definition add_note :: "landedEvidence \<Rightarrow> string \<Rightarrow> string \<Rightarrow> string \<Rightarrow> landedEvidence" where
  "add_note e ref path blob =
     AList.update ref (AList.update path blob (case map_of e ref of None \<Rightarrow> [] | Some bs \<Rightarrow> bs)) e"

record landing =
  lg_commit :: string
  lg_digest :: string
  lg_notes :: "string \<rightharpoonup> string"
  lg_direct :: "string \<rightharpoonup> string"

definition writeBlob :: "'a moment_scheme \<Rightarrow> string \<Rightarrow> string option" where
  "writeBlob m content = map_option trim_space (mo_hash m content)"

text \<open>
  The loop over the verdict's checks; signing a note is the \<^verbatim>\<open>attest\<close> command. A commit too short
  for a path, where \<^verbatim>\<open>TransferPath\<close> panics, makes no note set.
\<close>

fun countersign_checks ::
  "'a moment_scheme \<Rightarrow> (string \<Rightarrow> string option) \<Rightarrow> landing \<Rightarrow> string \<Rightarrow> string \<Rightarrow> CheckVerdict list \<Rightarrow> landedEvidence \<Rightarrow>
     landedEvidence option" where
  "countersign_checks m sign l original landed [] e = Some e"
| "countersign_checks m sign l original landed (cv # cvs) e =
     (let (ns, ref) = (if cv_Direct cv then (lg_direct l, landed) else (lg_notes l, original))
      in case ns (cv_Name cv) of
           None \<Rightarrow> countersign_checks m sign l original landed cvs e
         | Some n \<Rightarrow>
             if \<not> cv_Transferred cv then countersign_checks m sign l original landed cvs e
             else
               (case sign n of
                  None \<Rightarrow> None
                | Some signed' \<Rightarrow>
                    (case writeBlob m signed' of
                       None \<Rightarrow> None
                     | Some blob \<Rightarrow>
                         countersign_checks m sign l original landed cvs
                           (add_note e ref (cv_Name cv @ ''/'' @ statementNote) blob))))"

definition countersign ::
  "'a moment_scheme \<Rightarrow> (string \<Rightarrow> string option) \<Rightarrow> string \<Rightarrow> Change \<Rightarrow> Verdict_rec \<Rightarrow> landing \<Rightarrow> string \<Rightarrow> landedEvidence option" where
  "countersign m sign keyHash ch v l transfer =
     (let landed = attestationRef (lg_digest l) keyHash
      in case countersign_checks m sign l (attestationRef (ch_Attested ch) keyHash) landed (vd_Checks v) [] of
           None \<Rightarrow> None
         | Some e \<Rightarrow>
             (case TransferPath (lg_commit l) of
                None \<Rightarrow> None
              | Some path \<Rightarrow> map_option (add_note e landed path) (writeBlob m transfer)))"

section \<open>Trees of notes\<close>

text \<open>The notes a listing of a tree names, by path.\<close>

definition list_note :: "string \<Rightarrow> (string \<times> string) option" where
  "list_note entry =
     (case cut_byte entry (CHR 0x09) of
        None \<Rightarrow> None
      | Some (meta, path) \<Rightarrow>
          (let fs = go_fields meta in if length fs = 3 \<and> fs ! 1 = ''blob'' then Some (path, fs ! 2) else None))"

definition readNotes :: "'a moment_scheme \<Rightarrow> string \<Rightarrow> (string \<times> string) list option" where
  "readNotes m tree =
     map_option (\<lambda>out. foldl (\<lambda>bs (path, oid). AList.update path oid bs) []
       (List.map_filter list_note (split_byte (CHR 0x00) out))) (mo_list m tree)"

fun size_lines :: "(string \<rightharpoonup> int) \<Rightarrow> string list \<Rightarrow> (string \<rightharpoonup> int) option" where
  "size_lines sizes [] = Some sizes"
| "size_lines sizes (line # ls) =
     (let fs = go_fields line
      in if length fs \<noteq> 3 \<or> fs ! 1 \<noteq> ''blob'' then None
         else case go_atoi (fs ! 2) of None \<Rightarrow> None | Some n \<Rightarrow> size_lines (sizes(fs ! 0 \<mapsto> n)) ls)"

definition blobSizes :: "'a moment_scheme \<Rightarrow> (string \<times> string) list \<Rightarrow> (string \<rightharpoonup> int) option" where
  "blobSizes m blobs =
     (let ids = remdups (map snd blobs); unknown = map_of (map (\<lambda>i. (i, - 1)) ids)
      in if ids = [] then Some unknown
         else
           case mo_sizes m ids of
             None \<Rightarrow> None
           | Some out \<Rightarrow>
               (case size_lines unknown (split_byte (CHR 0x0A) (trim_space out)) of
                  None \<Rightarrow> None
                | Some sizes \<Rightarrow> if list_ex (\<lambda>i. the (sizes i) < 0) ids then None else Some sizes))"

text \<open>\<^verbatim>\<open>hookReadable\<close>: what the hook's walk would read, entry by entry.\<close>

datatype unreadable_tree = Deeper string | NoteLong string | TreeWide string | TreeLong string | ManyEntries | ManyBytes

type_synonym entries = "(string \<times> (string \<times> bool) list) list"

fun add_path :: "string \<Rightarrow> string list \<Rightarrow> entries \<Rightarrow> entries" where
  "add_path dir [] es = es"
| "add_path dir (name # names) es =
     add_path (trim_prefix (dir @ ''/'' @ name) ''/'') names
       (AList.update dir
         (AList.update name (names \<noteq> []) (case map_of es dir of None \<Rightarrow> [] | Some ns \<Rightarrow> ns)) es)"

definition size_at :: "(string \<rightharpoonup> int) \<Rightarrow> string option \<Rightarrow> int" where
  "size_at sizes blob = (case blob of None \<Rightarrow> 0 | Some i \<Rightarrow> (case sizes i of None \<Rightarrow> 0 | Some n \<Rightarrow> n))"

fun readable_paths ::
  "(string \<rightharpoonup> string) \<Rightarrow> (string \<rightharpoonup> int) \<Rightarrow> string list \<Rightarrow> int \<Rightarrow> entries \<Rightarrow> (unreadable_tree, int \<times> entries) result" where
  "readable_paths blobs sizes [] spent es = Inr (spent, es)"
| "readable_paths blobs sizes (path # paths) spent es =
     (let segments = split_byte (CHR ''/'') path; sz = size_at sizes (blobs path)
      in if length segments > bg_depth attestationBudget then Inl (Deeper path)
         else if sz > int (bg_fileSize attestationBudget) then Inl (NoteLong path)
         else readable_paths blobs sizes paths (spent + sz) (add_path [] segments es))"

definition tree_bytes :: "nat \<Rightarrow> (string \<times> bool) list \<Rightarrow> nat" where
  "tree_bytes hashSize names =
     sum_list (map (\<lambda>(name, tree). length (if tree then ''40000'' else ''100644'') + 1 + length name + 1 + hashSize) names)"

fun readable_dirs :: "nat \<Rightarrow> entries \<Rightarrow> string list \<Rightarrow> nat \<Rightarrow> int \<Rightarrow> (unreadable_tree, nat \<times> int) result" where
  "readable_dirs hashSize es [] spent bytes = Inr (spent, bytes)"
| "readable_dirs hashSize es (dir # dirs) spent bytes =
     (let names = (case map_of es dir of None \<Rightarrow> [] | Some ns \<Rightarrow> ns); sz = tree_bytes hashSize names
      in if length names > bg_entriesInTree attestationBudget then Inl (TreeWide dir)
         else if sz > bg_treeSize attestationBudget then Inl (TreeLong dir)
         else readable_dirs hashSize es dirs (spent + length names) (bytes + int sz))"

definition hookReadable :: "(string \<times> string) list \<Rightarrow> (string \<rightharpoonup> int) \<Rightarrow> nat \<Rightarrow> (unreadable_tree, unit) result" where
  "hookReadable blobs sizes hashSize =
     rbind (readable_paths (map_of blobs) sizes (sort (map fst blobs)) 0 []) (\<lambda>(bytes, es).
     rbind (readable_dirs hashSize es (sort (map fst es)) 0 bytes) (\<lambda>(spent, bytes).
       if spent > bg_entries attestationBudget then Inl ManyEntries
       else if bytes > int (bg_bytes attestationBudget) then Inl ManyBytes
       else Inr ()))"

text \<open>\<^verbatim>\<open>writeTree\<close>: a tree for each directory, its paths without their first segment.\<close>

definition paths_under :: "string \<Rightarrow> (string \<times> string) list \<Rightarrow> (string \<times> string) list" where
  "paths_under dir blobs =
     List.map_filter
       (\<lambda>(path, blob). case cut_byte path (CHR ''/'') of
          None \<Rightarrow> None
        | Some (d, rest) \<Rightarrow> if d = dir then Some (rest, blob) else None) blobs"

definition dirs_under :: "(string \<times> string) list \<Rightarrow> string list" where
  "dirs_under blobs = sorted_set (map fst (List.map_filter (\<lambda>(path, blob). cut_byte path (CHR ''/'')) blobs))"

definition path_total :: "(string \<times> string) list \<Rightarrow> nat" where
  "path_total blobs = sum_list (map (length \<circ> fst) blobs)"

lemma path_total_simps [simp]: "path_total [] = 0" "path_total ((p, b) # bs) = length p + path_total bs"
  by (simp_all add: path_total_def)

lemma paths_under_Cons:
  "paths_under dir ((path, blob) # bs) =
     (case cut_byte path (CHR ''/'') of
        None \<Rightarrow> paths_under dir bs
      | Some (d, rest) \<Rightarrow> if d = dir then (rest, blob) # paths_under dir bs else paths_under dir bs)"
  by (simp add: paths_under_def map_filter_simps split: option.splits prod.splits del: cut_byte_None)

lemma paths_under_le: "path_total (paths_under dir bs) \<le> path_total bs"
proof (induction bs)
  case (Cons e bs)
  obtain path blob where e: "e = (path, blob)" by (cases e)
  show ?case
  proof (cases "cut_byte path (CHR ''/'')")
    case (Some c)
    obtain d rest where c: "c = (d, rest)" by (cases c)
    then have "length path = length d + 1 + length rest" using Some by (auto simp: cut_byte_Some)
    then show ?thesis using Cons Some by (simp add: e c paths_under_Cons)
  qed (use Cons in \<open>simp add: e paths_under_Cons del: cut_byte_None\<close>)
qed (simp add: paths_under_def map_filter_simps)

lemma paths_under_less: "dir \<in> set (dirs_under bs) \<Longrightarrow> path_total (paths_under dir bs) < path_total bs"
proof (induction bs)
  case (Cons e bs)
  obtain path blob where e: "e = (path, blob)" by (cases e)
  show ?case
  proof (cases "cut_byte path (CHR ''/'')")
    case None
    then have "dir \<in> set (dirs_under bs)" using Cons(2) by (simp add: dirs_under_def e map_filter_simps del: cut_byte_None)
    then show ?thesis using Cons(1) None by (simp add: e paths_under_Cons del: cut_byte_None)
  next
    case (Some c)
    obtain d rest where c: "c = (d, rest)" by (cases c)
    then have p: "path = d @ CHR ''/'' # rest" using Some by (simp add: cut_byte_Some)
    show ?thesis
    proof (cases "d = dir")
      case True
      then show ?thesis using paths_under_le [of dir bs] Some p by (simp add: e c paths_under_Cons)
    next
      case False
      then have "dir \<in> set (dirs_under bs)" using Cons(2) Some by (simp add: dirs_under_def e c map_filter_simps)
      then show ?thesis using Cons(1) False Some by (simp add: e c paths_under_Cons)
    qed
  qed
qed (simp add: dirs_under_def map_filter_simps)

definition tree_listing :: "(string \<times> string) list \<Rightarrow> (string \<times> string) list \<Rightarrow> string" where
  "tree_listing here trees =
     join_str [CHR 0x0A]
       (sort (map (\<lambda>(name, blob). ''100644 blob '' @ blob @ CHR 0x09 # name) here @
              map (\<lambda>(name, oid). ''040000 tree '' @ oid @ CHR 0x09 # name) trees)) @ [CHR 0x0A]"

lemma map_result_cong [fundef_cong]:
  "xs = ys \<Longrightarrow> (\<And>x. x \<in> set ys \<Longrightarrow> f x = g x) \<Longrightarrow> map_result f xs = map_result g ys"
  by (induction xs arbitrary: ys) (auto intro!: rbind_cong)

function writeTree :: "(string \<Rightarrow> string option) \<Rightarrow> (string \<times> string) list \<Rightarrow> string option" where
  "writeTree mk blobs =
     (case map_result (\<lambda>dir. case writeTree mk (paths_under dir blobs) of None \<Rightarrow> Inl () | Some oid \<Rightarrow> Inr (dir, oid))
             (dirs_under blobs) of
        Inl _ \<Rightarrow> None
      | Inr trees \<Rightarrow>
          map_option trim_space (mk (tree_listing (filter (\<lambda>(path, blob). CHR ''/'' \<notin> set path) blobs) trees)))"
  by pat_completeness auto
termination
  by (relation "measure (\<lambda>(mk, blobs). path_total blobs)") (auto intro: paths_under_less)

declare writeTree.simps [simp del]

section \<open>The transaction\<close>

record refUpdate =
  ru_ref :: string
  ru_new :: string
  ru_old :: string

record transaction =
  tx_updates :: "refUpdate list"
  tx_evidence :: "string list"
  tx_landing :: string
  tx_requestNow :: string

datatype prepare_error = RefsUnread | NotesUnread | NotesUnsized | NotReadable unreadable_tree | TreeUnwritten | RecordUnwritten

definition read_ref :: "'a moment_scheme \<Rightarrow> string \<Rightarrow> string \<Rightarrow> (prepare_error, string) result" where
  "read_ref m zero ref =
     (case rp_resolve m ref of None \<Rightarrow> Inl RefsUnread | Some None \<Rightarrow> Inr zero | Some (Some oid) \<Rightarrow> Inr oid)"

definition or_error :: "'e \<Rightarrow> 'a option \<Rightarrow> ('e, 'a) result" where
  "or_error e x = (case x of None \<Rightarrow> Inl e | Some y \<Rightarrow> Inr y)"

definition evidence_update ::
  "'a moment_scheme \<Rightarrow> string \<Rightarrow> string \<times> (string \<times> string) list \<Rightarrow> (prepare_error, refUpdate) result" where
  "evidence_update m zero entry =
     (let (ref, added) = entry
      in case rp_resolve m ref of
           None \<Rightarrow> Inl RefsUnread
         | Some found \<Rightarrow>
             rbind (case found of None \<Rightarrow> Inr [] | Some old \<Rightarrow> or_error NotesUnread (readNotes m old)) (\<lambda>stored.
               let blobs = foldl (\<lambda>bs (path, blob). AList.update path blob bs) stored added
               in rbind (or_error NotesUnsized (blobSizes m blobs)) (\<lambda>sizes.
                  rbind (rmap_err NotReadable (hookReadable blobs sizes (length zero div 2))) (\<lambda>_.
                  rbind (or_error TreeUnwritten (writeTree (mo_mktree m) blobs)) (\<lambda>top.
                    Inr \<lparr>ru_ref = ref, ru_new = top, ru_old = (case found of None \<Rightarrow> zero | Some old \<Rightarrow> old)\<rparr>)))))"

definition evidenceUpdates :: "'a moment_scheme \<Rightarrow> landedEvidence \<Rightarrow> string \<Rightarrow> (prepare_error, refUpdate list) result" where
  "evidenceUpdates m e zero = map_result (evidence_update m zero) (sort_key fst e)"

definition landingRecord :: "'a moment_scheme \<Rightarrow> request \<Rightarrow> string \<Rightarrow> string option" where
  "landingRecord m r commit =
     (case writeBlob m (FormatLanding \<lparr>ln_Landed = commit, ln_Request = rt_change r, ln_Head = rt_head r\<rparr>) of
        None \<Rightarrow> None
      | Some blob \<Rightarrow>
          (case writeTree (mo_mktree m) [(LandingFile, blob)] of
             None \<Rightarrow> None
           | Some tree \<Rightarrow>
               (case mo_date m commit of
                  None \<Rightarrow> None
                | Some date \<Rightarrow>
                    map_option trim_space (mo_commit m tree (trim_space date) (rt_change r @ '' landed as '' @ commit)))))"

definition prepareLanding ::
  "'a moment_scheme \<Rightarrow> string \<Rightarrow> request \<Rightarrow> string \<Rightarrow> string \<Rightarrow> landedEvidence \<Rightarrow> string \<Rightarrow> (prepare_error, transaction) result" where
  "prepareLanding m target r tip commit e memo =
     (let zero = replicate (length tip) (CHR ''0''); landing = LandingRef (target_name r) (rt_head r)
      in rbind (evidenceUpdates m e zero) (\<lambda>evidence.
         rbind (or_error RecordUnwritten (landingRecord m r commit)) (\<lambda>rec.
         rbind (read_ref m zero landing) (\<lambda>oldLanding.
         rbind (or_error RecordUnwritten (writeBlob m (memo @ '' land'' @ [CHR 0x0A]))) (\<lambda>outcome.
         rbind (read_ref m zero (memoRef r)) (\<lambda>oldMemo.
           let updates = \<lparr>ru_ref = target, ru_new = commit, ru_old = tip\<rparr> # evidence @
                 [\<lparr>ru_ref = landing, ru_new = rec, ru_old = oldLanding\<rparr>,
                  \<lparr>ru_ref = memoRef r, ru_new = outcome, ru_old = oldMemo\<rparr>];
               tx = \<lparr>tx_updates = updates, tx_evidence = map ru_ref evidence, tx_landing = landing, tx_requestNow = []\<rparr>
           in case rp_resolve m (rt_ref r) of
                None \<Rightarrow> Inl RefsUnread
              | Some None \<Rightarrow> Inr tx
              | Some (Some now) \<Rightarrow>
                  if now = rt_head r
                  then Inr (tx\<lparr>tx_updates := updates @ [\<lparr>ru_ref = rt_ref r, ru_new = [], ru_old = rt_head r\<rparr>]\<rparr>)
                  else Inr (tx\<lparr>tx_requestNow := now\<rparr>)))))))"

definition update_line :: "refUpdate \<Rightarrow> string" where
  "update_line u =
     (if ru_new u = [] then ''delete '' @ ru_ref u @ '' '' @ ru_old u @ [CHR 0x0A]
      else ''update '' @ ru_ref u @ '' '' @ ru_new u @ '' '' @ ru_old u @ [CHR 0x0A])"

definition transaction_text :: "refUpdate list \<Rightarrow> string" where
  "transaction_text us =
     ''start'' @ [CHR 0x0A] @ concat (map update_line us) @ ''prepare'' @ [CHR 0x0A] @ ''commit'' @ [CHR 0x0A]"

definition apply_updates :: "'a moment_scheme \<Rightarrow> refUpdate list \<Rightarrow> refs option" where
  "apply_updates m us = mo_apply m (transaction_text us)"

datatype land_error = NotComposed | FinalUnread git_failure | NotPrepared prepare_error | TargetMoved | TriesSpent

text \<open>The tries, counted up to \<^verbatim>\<open>landingTries\<close>: the first transaction that is made, and the refs it leaves.\<close>

function land_loop ::
  "(nat \<Rightarrow> 'a moment_scheme) \<Rightarrow> string \<Rightarrow> request \<Rightarrow> string \<Rightarrow> string \<Rightarrow> landedEvidence \<Rightarrow> string \<Rightarrow> nat \<Rightarrow>
     (land_error, nat \<times> transaction \<times> refs) result" where
  "land_loop at target r tip commit e memo k =
     (case prepareLanding (at k) target r tip commit e memo of
        Inl err \<Rightarrow> Inl (NotPrepared err)
      | Inr tx \<Rightarrow>
          (case apply_updates (at k) (tx_updates tx) of
             Some after \<Rightarrow> Inr (k, tx, after)
           | None \<Rightarrow>
               if mo_after (at k) target \<noteq> None \<and> mo_after (at k) target \<noteq> Some (Some tip) then Inl TargetMoved
               else if k \<ge> landingTries then Inl TriesSpent
               else land_loop at target r tip commit e memo (k + 1)))"
  by pat_completeness auto
termination
  by (relation "measure (\<lambda>(at, target, r, tip, commit, e, memo, k). landingTries - k)") auto

declare land_loop.simps [simp del]

datatype landed = LandRefused string | LandDone nat transaction refs

text \<open>
  \<^verbatim>\<open>land\<close>: composing the transfer statement and countersigning come first, then the last reading of
  the records at moment 0, then the tries, from 1.
\<close>

definition land ::
  "(nat \<Rightarrow> moment) \<Rightarrow> (string \<Rightarrow> string option) \<Rightarrow> string \<Rightarrow> string option \<Rightarrow> Change \<Rightarrow> Verdict_rec \<Rightarrow>
     request \<Rightarrow> string \<Rightarrow> landing \<Rightarrow> string \<Rightarrow> (land_error, landed) result" where
  "land at sign keyHash transfer ch v r tip l memo =
     (case transfer of
        None \<Rightarrow> Inl NotComposed
      | Some t \<Rightarrow>
          (case countersign (at 0) sign keyHash ch v l t of
             None \<Rightarrow> Inl NotComposed
           | Some e \<Rightarrow>
               (case finalRefusal (repo.truncate (at 0)) r tip of
                  Inl err \<Rightarrow> Inl (FinalUnread err)
                | Inr (Some (outcome, why)) \<Rightarrow> Inr (LandRefused outcome)
                | Inr None \<Rightarrow>
                    (case land_loop at (ch_Target ch) r tip (lg_commit l) e memo 1 of
                       Inl err \<Rightarrow> Inl err
                     | Inr (k, tx, after) \<Rightarrow> Inr (LandDone k tx after)))))"

section \<open>One request in a pass\<close>

datatype pass_error =
    TargetUnread
  | NoTargetRef
  | EvidenceUnread
  | MemoUnread
  | RefusalUnread git_failure
  | InputsUnread
  | NotJudged
  | NotLanded land_error

text \<open>
  What a pass does with a request: an error before it took it up; nothing, as the answer stands; a
  failure recorded; an outcome said before, or recorded with the inputs; or a landing.
\<close>

datatype handled =
    Unhandled pass_error
  | Stands
  | FailedWith pass_error string
  | SaidBefore string
  | Answer string string
  | LandedBy nat transaction refs

fun outcome_text :: "Outcome \<Rightarrow> string" where
  "outcome_text Land = ''land''"
| "outcome_text Stale = ''stale''"
| "outcome_text Reject = ''reject''"

text \<open>What a pass knows: its clock, its inputs and whether they all read, and how notes are signed.\<close>

record pass_env =
  pe_clock :: clock
  pe_inputs :: string
  pe_inputsRead :: bool
  pe_sign :: "string \<Rightarrow> string option"
  pe_keyHash :: string

text \<open>
  \<^verbatim>\<open>act\<close>. What \<^verbatim>\<open>materialize\<close> gathers (the applied delta, the policy, evidence and closures) and
  the transfer statement composed of the verdict are parameters: they come from other programs.
\<close>

definition act ::
  "(nat \<Rightarrow> moment) \<Rightarrow> pass_env \<Rightarrow> (Change \<times> Snapshot \<times> landing) option \<Rightarrow> (Verdict_rec \<Rightarrow> string option) \<Rightarrow>
     request \<Rightarrow> string \<Rightarrow> string \<Rightarrow> (pass_error, string \<times> (nat \<times> transaction \<times> refs) option) result" where
  "act at env gathered compose r tip memo =
     (case gathered of
        None \<Rightarrow> Inl NotJudged
      | Some (ch, snap, l) \<Rightarrow>
          (let v = Decide ch snap
           in if vd_Outcome v = Land then
                (case land at (pe_sign env) (pe_keyHash env) (compose v) ch v r tip l memo of
                   Inl err \<Rightarrow> Inl (NotLanded err)
                 | Inr (LandRefused outcome) \<Rightarrow> Inr (outcome, None)
                 | Inr (LandDone k tx after) \<Rightarrow> Inr (outcome_text Land, Some (k, tx, after)))
              else Inr (outcome_text (vd_Outcome v), None)))"

definition failed_answer :: "pass_env \<Rightarrow> string \<Rightarrow> string" where
  "failed_answer env memo = memo @ '' '' @ failedMemo @ '' '' @ ck_text (pe_clock env)"

definition handle ::
  "moment \<Rightarrow> (nat \<Rightarrow> moment) \<Rightarrow> pass_env \<Rightarrow> (Change \<times> Snapshot \<times> landing) option \<Rightarrow> (Verdict_rec \<Rightarrow> string option) \<Rightarrow>
     request \<Rightarrow> recordIndex \<Rightarrow> handled" where
  "handle m at env gathered compose r idx =
     (case rp_resolve m (rt_target r) of
        None \<Rightarrow> Unhandled TargetUnread
      | Some None \<Rightarrow> Unhandled NoTargetRef
      | Some (Some tip) \<Rightarrow>
          (case evidenceState (repo.truncate m) of
             None \<Rightarrow> Unhandled EvidenceUnread
           | Some evidence \<Rightarrow>
               (let memo = join_str '' '' [rt_head r, tip, evidence]
                in case readMemo m r of
                     None \<Rightarrow> Unhandled MemoUnread
                   | Some prev \<Rightarrow>
                       (let lastInputs = readInputs m r
                        in if answered (pe_clock env) prev memo lastInputs (pe_inputs env) then Stands
                           else
                             (case rbind (rmap_err RefusalUnread (refuse (repo.truncate m) r idx tip)) (\<lambda>outcome.
                                     if outcome \<noteq> [] then Inr (outcome, None)
                                     else if \<not> pe_inputsRead env then Inl InputsUnread
                                     else act at env gathered compose r tip memo) of
                                Inl err \<Rightarrow> FailedWith err (failed_answer env memo)
                              | Inr (outcome, Some (k, tx, after)) \<Rightarrow> LandedBy k tx after
                              | Inr (outcome, None) \<Rightarrow>
                                  if prev = memo @ '' '' @ outcome \<and> lastInputs = pe_inputs env then SaidBefore outcome
                                  else Answer (memo @ '' '' @ outcome) (pe_inputs env))))))"

section \<open>The transaction git makes\<close>

text \<open>
  What \<^verbatim>\<open>git update-ref --stdin\<close> documents of a transaction it makes: every ref held its old value,
  where zeros stand for no ref, and each ref named holds its new value after it, or is gone, and
  no other ref moved. Names and IDs hold no blanks, so a text says which updates it stands for.
\<close>

definition clean_word :: "string \<Rightarrow> bool" where
  "clean_word w \<longleftrightarrow> CHR '' '' \<notin> set w \<and> CHR 0x0A \<notin> set w"

definition clean_update :: "refUpdate \<Rightarrow> bool" where
  "clean_update u \<longleftrightarrow> clean_word (ru_ref u) \<and> clean_word (ru_new u) \<and> clean_word (ru_old u)"

definition held :: "refs \<Rightarrow> refUpdate \<Rightarrow> bool" where
  "held rs u \<longleftrightarrow> rs (ru_ref u) = (if list_all (\<lambda>c. c = CHR ''0'') (ru_old u) then None else Some (ru_old u))"

definition moved :: "refUpdate list \<Rightarrow> refs \<Rightarrow> refs" where
  "moved us rs ref =
     (case find (\<lambda>u. ru_ref u = ref) us of
        None \<Rightarrow> rs ref
      | Some u \<Rightarrow> if ru_new u = [] then None else Some (ru_new u))"

definition update_ref_ok :: "'a moment_scheme \<Rightarrow> bool" where
  "update_ref_ok m \<longleftrightarrow>
     (\<forall>us after. list_all clean_update us \<longrightarrow> mo_apply m (transaction_text us) = Some after \<longrightarrow>
        list_all (held (mo_refs m)) us \<and> after = moved us (mo_refs m))"

text \<open>And what it writes is named by an ID.\<close>

definition prints_ids :: "'a moment_scheme \<Rightarrow> bool" where
  "prints_ids m \<longleftrightarrow>
     (\<forall>c out. mo_hash m c = Some out \<longrightarrow> trim_space out \<noteq> []) \<and>
     (\<forall>t d msg out. mo_commit m t d msg = Some out \<longrightarrow> trim_space out \<noteq> []) \<and>
     (\<forall>t out. mo_mktree m t = Some out \<longrightarrow> trim_space out \<noteq> [])"

lemma moved_at:
  "distinct (map ru_ref us) \<Longrightarrow> u \<in> set us \<Longrightarrow> moved us rs (ru_ref u) = (if ru_new u = [] then None else Some (ru_new u))"
proof (induction us)
  case (Cons x us)
  show ?case
  proof (cases "x = u")
    case False
    then have "u \<in> set us" "ru_ref x \<noteq> ru_ref u" using Cons(2,3) by (auto simp: image_iff)
    then show ?thesis using Cons by (simp add: moved_def)
  qed (simp add: moved_def)
qed simp

lemma moved_other: "ref \<notin> set (map ru_ref us) \<Longrightarrow> moved us rs ref = rs ref"
proof -
  assume "ref \<notin> set (map ru_ref us)"
  then have "find (\<lambda>u. ru_ref u = ref) us = None" by (auto simp: find_None_iff)
  then show ?thesis by (simp add: moved_def)
qed

section \<open>The refs of a landing\<close>

lemma add_note_refs: "ref \<in> fst ` set (add_note e r p b) \<longleftrightarrow> ref = r \<or> ref \<in> fst ` set e"
  by (auto simp: add_note_def dom_update)

lemma add_note_distinct: "distinct (map fst e) \<Longrightarrow> distinct (map fst (add_note e r p b))"
  by (simp add: add_note_def distinct_update)

definition evidence_ok :: "landedEvidence \<Rightarrow> bool" where
  "evidence_ok e \<longleftrightarrow> distinct (map fst e) \<and> (\<forall>ref \<in> fst ` set e. has_prefix ref AttestationRefs)"

lemma evidence_add: "evidence_ok e \<Longrightarrow> evidence_ok (add_note e (attestationRef d h) p b)"
  unfolding evidence_ok_def attestationRef_def using add_note_refs add_note_distinct has_prefix_append by metis

lemma countersign_checks_ok:
  "countersign_checks m sign l (attestationRef a h) (attestationRef d h) cvs e = Some e' \<Longrightarrow> evidence_ok e \<Longrightarrow> evidence_ok e'"
  by (induction m sign l "attestationRef a h" "attestationRef d h" cvs e rule: countersign_checks.induct)
    (auto simp: evidence_add Let_def split: option.splits if_splits)

lemma countersign_ok: "countersign m sign h ch v l t = Some e \<Longrightarrow> evidence_ok e"
  by (auto simp: countersign_def Let_def split: option.splits
      intro!: evidence_add elim!: countersign_checks_ok simp: evidence_ok_def [of "[]"])

lemma evidence_update_ref: "evidence_update m zero (ref, added) = Inr u \<Longrightarrow> ru_ref u = ref"
  by (auto simp: evidence_update_def Let_def result_simps split: option.splits)

lemma evidenceUpdates_refs:
  "evidenceUpdates m e zero = Inr us \<Longrightarrow> map ru_ref us = map fst (sort_key fst e)"
proof -
  assume u: "evidenceUpdates m e zero = Inr us"
  have "map_result (evidence_update m zero) xs = Inr us \<Longrightarrow> map ru_ref us = map fst xs" for xs us
    by (induction xs arbitrary: us) (auto simp: result_simps dest: evidence_update_ref)
  then show ?thesis using u unfolding evidenceUpdates_def by blast
qed

text \<open>A request as a listing gives it.\<close>

definition request_ok :: "request \<Rightarrow> bool" where
  "request_ok r \<longleftrightarrow>
     has_prefix (rt_ref r) (requestPrefix @ ''/'') \<and> has_prefix (rt_target r) ''refs/heads/''"

text \<open>
  What a landing made at a moment is. The target moved from the tip to the commit; the landing
  record and the outcome record hold what was built for this head; the request is gone if it named
  the head, and else is as it was; and no ref moved beside these and the evidence refs.
\<close>

definition landing_made :: "moment \<Rightarrow> request \<Rightarrow> string \<Rightarrow> string \<Rightarrow> string \<Rightarrow> transaction \<Rightarrow> refs \<Rightarrow> bool" where
  "landing_made m r tip commit memo tx after \<longleftrightarrow>
     mo_refs m (rt_target r) = Some tip \<and> after (rt_target r) = Some commit \<and>
     after (tx_landing tx) = landingRecord m r commit \<and> after (tx_landing tx) \<noteq> None \<and>
     after (memoRef r) = writeBlob m (memo @ '' land'' @ [CHR 0x0A]) \<and> after (memoRef r) \<noteq> None \<and>
     (mo_refs m (rt_ref r) = Some (rt_head r) \<and> after (rt_ref r) = None \<or> after (rt_ref r) = mo_refs m (rt_ref r)) \<and>
     (\<forall>ref. ref \<notin> {rt_target r, tx_landing tx, memoRef r, rt_ref r} \<union> set (tx_evidence tx) \<longrightarrow> after ref = mo_refs m ref)"

lemma prefixes_apart:
  "has_prefix a ''refs/heads/'' \<Longrightarrow> has_prefix b ''refs/the-valley/'' \<Longrightarrow> a \<noteq> b"
  by (auto simp: has_prefix_iff)

lemma kind_prefixes:
  "has_prefix a AttestationRefs \<Longrightarrow> has_prefix a ''refs/the-valley/''"
  "has_prefix a (requestPrefix @ ''/'') \<Longrightarrow> has_prefix a ''refs/the-valley/''"
  "has_prefix (memoRef r) ''refs/the-valley/''" "has_prefix (LandingRef t h) ''refs/the-valley/''"
  by (auto simp: has_prefix_iff AttestationRefs_def requestPrefix_def memoRef_def outcomePrefix_def LandingRef_def LandingPrefix_def)

lemma kinds_apart:
  "has_prefix a AttestationRefs \<Longrightarrow> a \<noteq> memoRef r" "has_prefix a AttestationRefs \<Longrightarrow> a \<noteq> LandingRef t h"
  "has_prefix a AttestationRefs \<Longrightarrow> \<not> has_prefix a (requestPrefix @ ''/'')"
  "memoRef r \<noteq> LandingRef t h" "\<not> has_prefix (memoRef r) (requestPrefix @ ''/'')"
  "\<not> has_prefix (LandingRef t h) (requestPrefix @ ''/'')"
  by (auto simp: has_prefix_iff AttestationRefs_def requestPrefix_def memoRef_def outcomePrefix_def LandingRef_def LandingPrefix_def)

section \<open>What a landing leaves\<close>

definition landing_updates :: "request \<Rightarrow> string \<Rightarrow> string \<Rightarrow> refUpdate list \<Rightarrow> string \<Rightarrow> string \<Rightarrow> string \<Rightarrow> string \<Rightarrow> refUpdate list" where
  "landing_updates r tip commit evidence rec oldLanding outcome oldMemo =
     \<lparr>ru_ref = rt_target r, ru_new = commit, ru_old = tip\<rparr> # evidence @
     [\<lparr>ru_ref = LandingRef (target_name r) (rt_head r), ru_new = rec, ru_old = oldLanding\<rparr>,
      \<lparr>ru_ref = memoRef r, ru_new = outcome, ru_old = oldMemo\<rparr>]"

definition request_gone :: "request \<Rightarrow> refUpdate list" where
  "request_gone r = [\<lparr>ru_ref = rt_ref r, ru_new = [], ru_old = rt_head r\<rparr>]"

lemma prepared_parts:
  assumes "prepareLanding m (rt_target r) r tip commit e memo = Inr tx"
  obtains evidence rec oldLanding outcome oldMemo gone where
    "evidenceUpdates m e (replicate (length tip) (CHR ''0'')) = Inr evidence" "landingRecord m r commit = Some rec"
    "writeBlob m (memo @ '' land'' @ [CHR 0x0A]) = Some outcome"
    "tx_updates tx = landing_updates r tip commit evidence rec oldLanding outcome oldMemo @ gone"
    "gone = [] \<or> gone = request_gone r"
    "tx_evidence tx = map ru_ref evidence" "tx_landing tx = LandingRef (target_name r) (rt_head r)"
proof -
  obtain evidence rec oldLanding outcome oldMemo now where
    p: "evidenceUpdates m e (replicate (length tip) (CHR ''0'')) = Inr evidence" "landingRecord m r commit = Some rec"
    "writeBlob m (memo @ '' land'' @ [CHR 0x0A]) = Some outcome" "rp_resolve m (rt_ref r) = Some now"
    "Inr tx = (case now of
       None \<Rightarrow> Inr \<lparr>tx_updates = landing_updates r tip commit evidence rec oldLanding outcome oldMemo,
         tx_evidence = map ru_ref evidence, tx_landing = LandingRef (target_name r) (rt_head r), tx_requestNow = []\<rparr>
     | Some now \<Rightarrow> if now = rt_head r
         then Inr \<lparr>tx_updates = landing_updates r tip commit evidence rec oldLanding outcome oldMemo @ request_gone r,
           tx_evidence = map ru_ref evidence, tx_landing = LandingRef (target_name r) (rt_head r), tx_requestNow = []\<rparr>
         else Inr \<lparr>tx_updates = landing_updates r tip commit evidence rec oldLanding outcome oldMemo,
           tx_evidence = map ru_ref evidence, tx_landing = LandingRef (target_name r) (rt_head r), tx_requestNow = now\<rparr>)"
    using assms
    by (fastforce simp: prepareLanding_def Let_def result_simps or_error_def landing_updates_def request_gone_def
        split: option.splits if_splits)
  then show thesis
    by (cases now) (auto intro!: that [OF p(1,2,3)] split: if_splits)
qed

lemma landing_refs_distinct:
  assumes "evidence_ok e" "evidenceUpdates m e zero = Inr evidence" "request_ok r"
  shows "distinct (map ru_ref (landing_updates r tip commit evidence rec oldLanding outcome oldMemo @ request_gone r))"
proof -
  have ev: "map ru_ref evidence = map fst (sort_key fst e)" by (rule evidenceUpdates_refs [OF assms(2)])
  then have d: "distinct (map ru_ref evidence)" and k: "\<forall>ref \<in> set (map ru_ref evidence). has_prefix ref AttestationRefs"
    using assms(1) by (auto simp: evidence_ok_def distinct_map inj_on_def)
  have t: "has_prefix (rt_target r) ''refs/heads/''" and q: "has_prefix (rt_ref r) (requestPrefix @ ''/'')"
    using assms(3) by (auto simp: request_ok_def)
  have "rt_target r \<notin> set (map ru_ref evidence)" using k prefixes_apart [OF t] kind_prefixes(1) by blast
  moreover have "rt_target r \<noteq> memoRef r" "rt_target r \<noteq> LandingRef (target_name r) (rt_head r)" "rt_target r \<noteq> rt_ref r"
    using prefixes_apart [OF t] kind_prefixes q by blast+
  moreover have "rt_ref r \<noteq> memoRef r" "rt_ref r \<noteq> LandingRef (target_name r) (rt_head r)" using q kinds_apart(5,6) by metis+
  moreover have "memoRef r \<notin> set (map ru_ref evidence)" "LandingRef (target_name r) (rt_head r) \<notin> set (map ru_ref evidence)"
    "rt_ref r \<notin> set (map ru_ref evidence)"
    using k q kinds_apart(1-3) by blast+
  ultimately show ?thesis using d kinds_apart(4) [of r] kinds_apart(4) [of r, symmetric] by (auto simp: landing_updates_def request_gone_def)
qed

lemma prepared_landing:
  fixes m :: moment
  assumes p: "prepareLanding m (rt_target r) r tip commit e memo = Inr tx" and a: "apply_updates m (tx_updates tx) = Some after"
    and g: "update_ref_ok m" "prints_ids m" "list_all clean_update (tx_updates tx)"
    and r: "request_ok r" "evidence_ok e" and c: "commit \<noteq> []" "\<not> list_all (\<lambda>c. c = CHR ''0'') tip"
  shows "landing_made m r tip commit memo tx after"
proof -
  obtain evidence rec oldLanding outcome oldMemo gone where
    q: "evidenceUpdates m e (replicate (length tip) (CHR ''0'')) = Inr evidence" "landingRecord m r commit = Some rec"
    "writeBlob m (memo @ '' land'' @ [CHR 0x0A]) = Some outcome"
    "tx_updates tx = landing_updates r tip commit evidence rec oldLanding outcome oldMemo @ gone"
    "gone = [] \<or> gone = request_gone r"
    "tx_evidence tx = map ru_ref evidence" "tx_landing tx = LandingRef (target_name r) (rt_head r)"
    using prepared_parts [OF p] .
  have t: "list_all (held (mo_refs m)) (tx_updates tx)" "after = moved (tx_updates tx) (mo_refs m)"
    using a g(1,3) by (auto simp: update_ref_ok_def apply_updates_def)
  have d: "distinct (map ru_ref (tx_updates tx))"
    using landing_refs_distinct [OF r(2) q(1) r(1), of tip commit rec oldLanding outcome oldMemo] q(4,5)
    by (elim disjE) simp_all
  note at = moved_at [OF d, of _ "mo_refs m", folded t(2)]
  have n: "rec \<noteq> []" "outcome \<noteq> []"
    using q(2,3) g(2) by (auto simp: prints_ids_def landingRecord_def writeBlob_def split: option.splits)
  have us: "\<lparr>ru_ref = rt_target r, ru_new = commit, ru_old = tip\<rparr> \<in> set (tx_updates tx)"
    "\<lparr>ru_ref = LandingRef (target_name r) (rt_head r), ru_new = rec, ru_old = oldLanding\<rparr> \<in> set (tx_updates tx)"
    "\<lparr>ru_ref = memoRef r, ru_new = outcome, ru_old = oldMemo\<rparr> \<in> set (tx_updates tx)"
    by (simp_all add: q(4) landing_updates_def)
  have target: "mo_refs m (rt_target r) = Some tip" "after (rt_target r) = Some commit"
    using t(1) [unfolded list_all_iff, rule_format, OF us(1)] at [OF us(1)] c by (simp_all add: held_def)
  have rest: "after ref = mo_refs m ref"
    if "ref \<notin> {rt_target r, tx_landing tx, memoRef r} \<union> set (tx_evidence tx)" "gone = [] \<or> ref \<noteq> rt_ref r" for ref
    unfolding t(2) by (rule moved_other) (use that q(4-7) in \<open>auto simp: landing_updates_def request_gone_def\<close>)
  have request: "mo_refs m (rt_ref r) = Some (rt_head r) \<and> after (rt_ref r) = None \<or> after (rt_ref r) = mo_refs m (rt_ref r)"
  proof (cases "gone = []")
    case True
    have "rt_ref r \<notin> {rt_target r, tx_landing tx, memoRef r} \<union> set (tx_evidence tx)"
      using landing_refs_distinct [OF r(2) q(1) r(1)] q(6,7) by (auto simp: landing_updates_def request_gone_def)
    then show ?thesis using rest True by blast
  next
    case False
    then have u: "\<lparr>ru_ref = rt_ref r, ru_new = [], ru_old = rt_head r\<rparr> \<in> set (tx_updates tx)"
      using q(4,5) by (simp add: request_gone_def)
    then have "after (rt_ref r) = None" "held (mo_refs m) \<lparr>ru_ref = rt_ref r, ru_new = [], ru_old = rt_head r\<rparr>"
      using at [OF u] t(1) by (auto simp: list_all_iff)
    then show ?thesis by (auto simp: held_def split: if_splits)
  qed
  show ?thesis
    unfolding landing_made_def using target at [OF us(2)] at [OF us(3)] n q(2,3,7) request rest by auto
qed

lemma land_loop_made:
  "land_loop at target r tip commit e memo k = Inr (k', tx, after) \<Longrightarrow> k \<le> landingTries \<Longrightarrow>
   prepareLanding (at k') target r tip commit e memo = Inr tx \<and> apply_updates (at k') (tx_updates tx) = Some after \<and>
   k \<le> k' \<and> k' \<le> landingTries"
proof (induction at target r tip commit e memo k rule: land_loop.induct)
  case (1 at target r tip commit e memo k)
  obtain tx1 where p: "prepareLanding (at k) target r tip commit e memo = Inr tx1"
    using 1(2) by (cases "prepareLanding (at k) target r tip commit e memo") (auto simp: land_loop.simps [of at target r tip commit e memo k])
  show ?case
  proof (cases "apply_updates (at k) (tx_updates tx1)")
    case (Some after1)
    then show ?thesis using 1(2,3) p by (simp add: land_loop.simps [of at target r tip commit e memo k])
  next
    case None
    then have "\<not> (mo_after (at k) target \<noteq> None \<and> mo_after (at k) target \<noteq> Some (Some tip))" "\<not> k \<ge> landingTries"
      "land_loop at target r tip commit e memo (k + 1) = Inr (k', tx, after)"
      using 1(2) p by (auto simp: land_loop.simps [of at target r tip commit e memo k] split: if_splits)
    then show ?thesis using 1(1) [OF p None] by auto
  qed
qed

text \<open>What the verdict is about is what the request asks for.\<close>

definition gathered_ok :: "request \<Rightarrow> Change \<times> Snapshot \<times> landing \<Rightarrow> bool" where
  "gathered_ok r got \<longleftrightarrow> ch_Target (fst got) = rt_target r \<and> lg_commit (snd (snd got)) \<noteq> []"

definition tip_at :: "'a moment_scheme \<Rightarrow> request \<Rightarrow> string \<Rightarrow> bool" where
  "tip_at m r tip \<longleftrightarrow> rp_resolve m (rt_target r) = Some (Some tip)"

text \<open>The value an outcome record is written after: the head, the tip and the evidence.\<close>

definition memo_of :: "moment \<Rightarrow> request \<Rightarrow> string \<Rightarrow> string" where
  "memo_of m r tip = join_str '' '' [rt_head r, tip, the (evidenceState (repo.truncate m))]"

text \<open>
  What the last reading of the records says, of the records themselves: a request named for a change
  asks for a version of it, and the change is ready; and no commit the request brings is a version of
  a change that is not ready.
\<close>

definition records_ready :: "repo \<Rightarrow> request \<Rightarrow> string \<Rightarrow> bool" where
  "records_ready g r tip \<longleftrightarrow>
     own_ready g r \<and> (\<exists>listed commits. read_listed g = Inr listed \<and> introduced g r tip = Inr commits \<and>
       all_ready (readable listed) commits)"

definition brings_no_merge :: "repo \<Rightarrow> request \<Rightarrow> string \<Rightarrow> bool" where
  "brings_no_merge g r tip \<longleftrightarrow> (\<exists>out. rp_merges g (rt_head r) tip = Some out \<and> trim_space out = [])"

text \<open>Everything that holds of a request a pass lands.\<close>

definition landed_rightly ::
  "moment \<Rightarrow> (nat \<Rightarrow> moment) \<Rightarrow> Change \<times> Snapshot \<times> landing \<Rightarrow> request \<Rightarrow> nat \<Rightarrow> transaction \<Rightarrow> refs \<Rightarrow> string \<Rightarrow> bool" where
  "landed_rightly m at got r k tx after tip \<longleftrightarrow>
     tip_at m r tip \<and> brings_no_merge (repo.truncate m) r tip \<and>
     vd_Outcome (Decide (fst got) (fst (snd got))) = Land \<and>
     records_ready (repo.truncate (at 0)) r tip \<and> 1 \<le> k \<and> k \<le> landingTries \<and>
     landing_made (at k) r tip (lg_commit (snd (snd got))) (memo_of m r tip) tx after"

text \<open>The tip read is an object, not the zeros that stand for none.\<close>

definition real_tip :: "moment \<Rightarrow> request \<Rightarrow> bool" where
  "real_tip m r \<longleftrightarrow>
     (case rp_resolve m (rt_target r) of Some (Some tip) \<Rightarrow> list_ex (\<lambda>c. c \<noteq> CHR ''0'') tip | _ \<Rightarrow> True)"

lemma land_done:
  assumes "land at sign keyHash transfer ch v r tip l memo = Inr (LandDone k tx after)"
  obtains e where "evidence_ok e" "finalRefusal (repo.truncate (at 0)) r tip = Inr None"
    "land_loop at (ch_Target ch) r tip (lg_commit l) e memo 1 = Inr (k, tx, after)"
  using assms
  by (auto simp: land_def split: option.splits sum.splits prod.splits intro: countersign_ok)

lemma act_landed:
  assumes "act at env (Some (ch, snap, l)) compose r tip memo = Inr (outcome, Some (k, tx, after))"
  shows "vd_Outcome (Decide ch snap) = Land \<and>
    land at (pe_sign env) (pe_keyHash env) (compose (Decide ch snap)) ch (Decide ch snap) r tip l memo = Inr (LandDone k tx after)"
  using assms by (auto simp: act_def Let_def split: if_splits sum.splits landed.splits)

lemma handle_parts:
  assumes "handle m at env (Some got) compose r idx = LandedBy k tx after"
  obtains tip outcome where "tip_at m r tip" "refuse (repo.truncate m) r idx tip = Inr []"
    "act at env (Some got) compose r tip (memo_of m r tip) = Inr (outcome, Some (k, tx, after))"
proof -
  obtain tip evidence prev where t: "rp_resolve m (rt_target r) = Some (Some tip)"
    "evidenceState (repo.truncate m) = Some evidence" "readMemo m r = Some prev"
    using assms by (auto simp: handle_def Let_def split: option.splits)
  define X where "X = rbind (rmap_err RefusalUnread (refuse (repo.truncate m) r idx tip)) (\<lambda>outcome.
      if outcome \<noteq> [] then Inr (outcome, None)
      else if \<not> pe_inputsRead env then Inl InputsUnread
      else act at env (Some got) compose r tip (memo_of m r tip))"
  have memo: "memo_of m r tip = join_str '' '' [rt_head r, tip, evidence]" by (simp add: memo_of_def t(2))
  obtain outcome where "X = Inr (outcome, Some (k, tx, after))"
    using assms unfolding handle_def t option.case Let_def X_def memo
    by (auto split: if_splits sum.splits prod.splits option.splits)
  then have "refuse (repo.truncate m) r idx tip = Inr [] \<and>
      act at env (Some got) compose r tip (memo_of m r tip) = Inr (outcome, Some (k, tx, after))"
    by (auto simp: X_def result_simps split: if_splits)
  then show thesis using that t(1) by (auto simp: tip_at_def)
qed

lemma refuse_none:
  "refuse g r idx tip = Inr [] \<longleftrightarrow> recordRefusal g r idx tip = Inr None \<and> mergeRefusal g r tip = Inr None"
  by (auto simp: refuse_def recordRefusal_def mergeRefusal_def result_simps refusedNotReady_def refusedMerge_def
      split: option.splits if_splits)

lemma refused_no_merge: "refuse g r idx tip = Inr [] \<Longrightarrow> brings_no_merge g r tip"
  by (auto simp: refuse_none mergeRefusal_def brings_no_merge_def split: option.splits if_splits)

lemma handle_landed:
  assumes h: "handle m at env (Some got) compose r idx = LandedBy k tx after"
    and g: "update_ref_ok (at k)" "prints_ids (at k)" "list_all clean_update (tx_updates tx)"
    and r: "request_ok r" "gathered_ok r got" "real_tip m r"
  shows "\<exists>tip. landed_rightly m at got r k tx after tip"
proof -
  obtain ch snap l where got: "got = (ch, snap, l)" by (cases got)
  obtain tip outcome where t: "tip_at m r tip" "refuse (repo.truncate m) r idx tip = Inr []"
    "act at env (Some got) compose r tip (memo_of m r tip) = Inr (outcome, Some (k, tx, after))"
    using handle_parts [OF h] .
  note v = act_landed [OF t(3) [unfolded got]]
  obtain e where e: "evidence_ok e" "finalRefusal (repo.truncate (at 0)) r tip = Inr None"
    "land_loop at (ch_Target ch) r tip (lg_commit l) e (memo_of m r tip) 1 = Inr (k, tx, after)"
    using land_done [OF conjunct2 [OF v]] .
  have target: "ch_Target ch = rt_target r" "lg_commit l \<noteq> []" using r(2) by (simp_all add: gathered_ok_def got)
  have tip: "\<not> list_all (\<lambda>c. c = CHR ''0'') tip"
    using r(3) t(1) by (auto simp: real_tip_def tip_at_def list_all_iff list_ex_iff)
  note made = land_loop_made [OF e(3)]
  then have "landing_made (at k) r tip (lg_commit l) (memo_of m r tip) tx after"
    using prepared_landing [OF _ _ g r(1) e(1) target(2) tip] target(1) by (simp add: landingTries_def)
  moreover have "records_ready (repo.truncate (at 0)) r tip" using e(2) by (simp add: finalRefusal_none records_ready_def)
  ultimately show ?thesis using t(1) refused_no_merge [OF t(2)] v made by (auto simp: landed_rightly_def got landingTries_def)
qed


end
