(* ===== verification/IntegratorWitness.thy ===== *)
theory IntegratorWitness
  imports IntegratorPass
begin

text \<open>
  A landing: a request for one head, on a repository with no records, that another program finds
  nothing is required of. The text of a transaction stands for one list of updates, so what git
  documents of transactions can hold.
\<close>

section \<open>A text stands for one transaction\<close>

definition bare_line :: "refUpdate \<Rightarrow> string" where
  "bare_line u =
     join_str '' ''
       (if ru_new u = [] then [''delete'', ru_ref u, ru_old u] else [''update'', ru_ref u, ru_new u, ru_old u])"

lemma update_line_bare: "update_line u = bare_line u @ [CHR 0x0A]"
  by (simp add: update_line_def bare_line_def)

lemma bare_line_words:
  "clean_update u \<Longrightarrow> split_byte (CHR '' '') (bare_line u) =
     (if ru_new u = [] then [''delete'', ru_ref u, ru_old u] else [''update'', ru_ref u, ru_new u, ru_old u])"
  unfolding bare_line_def by (rule split_join_byte) (auto simp: clean_update_def clean_word_def)

lemma bare_line_inj: "clean_update u \<Longrightarrow> clean_update v \<Longrightarrow> bare_line u = bare_line v \<Longrightarrow> u = v"
  using bare_line_words [of u] bare_line_words [of v] by (cases u; cases v) (auto split: if_splits)

lemma bare_line_clean: "clean_update u \<Longrightarrow> CHR 0x0A \<notin> set (bare_line u)"
  by (auto simp: bare_line_def clean_update_def clean_word_def)

lemma split_lines:
  "list_all clean_update us \<Longrightarrow> split_byte (CHR 0x0A) (concat (map update_line us) @ rest) = map bare_line us @ split_byte (CHR 0x0A) rest"
  by (induction us) (simp_all add: update_line_bare split_byte_append bare_line_clean)

lemma transaction_text_inj:
  assumes "list_all clean_update us" "list_all clean_update vs" "transaction_text us = transaction_text vs"
  shows "us = vs"
proof -
  have "concat (map update_line us) @ ''prepare'' @ [CHR 0x0A] @ ''commit'' @ [CHR 0x0A] =
      concat (map update_line vs) @ ''prepare'' @ [CHR 0x0A] @ ''commit'' @ [CHR 0x0A]"
    using assms(3) unfolding transaction_text_def by (simp only: append_same_eq append.assoc same_append_eq)
  from arg_cong [OF this, of "split_byte (CHR 0x0A)"]
  have "map bare_line us = map bare_line vs" unfolding split_lines [OF assms(1)] split_lines [OF assms(2)] by simp
  moreover have "inj_on bare_line (set us \<union> set vs)"
    using assms(1,2) bare_line_inj by (auto simp: inj_on_def list_all_iff)
  ultimately show ?thesis by (rule map_inj_on)
qed

section \<open>A landing\<close>

definition id_of :: "char \<Rightarrow> string" where "id_of c = replicate 40 c"

definition filed_request :: request where
  "filed_request =
     \<lparr>rt_ref = requestPrefix @ ''/main/x'', rt_change = ''x'', rt_target = ''refs/heads/main'', rt_head = id_of (CHR ''c'')\<rparr>"

definition filed_updates :: "refUpdate list" where
  "filed_updates =
     landing_updates filed_request (id_of (CHR ''b'')) (id_of (CHR ''a''))
       [\<lparr>ru_ref = attestationRef ''e'' ''k'', ru_new = id_of (CHR ''d''), ru_old = id_of (CHR ''0'')\<rparr>]
       (id_of (CHR ''d'')) (id_of (CHR ''0'')) (id_of (CHR ''d'')) (id_of (CHR ''0'')) @ request_gone filed_request"

definition filed_refs :: refs where
  "filed_refs = [''refs/heads/main'' \<mapsto> id_of (CHR ''b''), requestPrefix @ ''/main/x'' \<mapsto> id_of (CHR ''c'')]"

definition filed_moment :: moment where
  "filed_moment =
     \<lparr>rp_records = Some [], rp_attested = Some [], rp_resolve = (\<lambda>ref. Some (filed_refs ref)),
      rp_check = (\<lambda>_. None), rp_batch = (\<lambda>_. None), rp_range = (\<lambda>_ _. Some (id_of (CHR ''c''))),
      rp_merges = (\<lambda>_ _. Some []), rp_bases = (\<lambda>_ _. ([], False)), rp_ancestor = (\<lambda>_ _. False), rp_delete = (\<lambda>_ _. False),
      mo_blob = (\<lambda>_. None), mo_list = (\<lambda>_. None), mo_sizes = (\<lambda>_. Some (id_of (CHR ''d'') @ '' blob 5'')),
      mo_mktree = (\<lambda>_. Some (id_of (CHR ''d''))), mo_hash = (\<lambda>_. Some (id_of (CHR ''d''))), mo_date = (\<lambda>_. Some []),
      mo_commit = (\<lambda>_ _ _. Some (id_of (CHR ''d''))), mo_refs = filed_refs,
      mo_apply = (\<lambda>text. if text = transaction_text filed_updates then Some (moved filed_updates filed_refs) else None),
      mo_after = (\<lambda>_. None)\<rparr>"

lemma updates_clean: "list_all clean_update filed_updates"
  by (simp add: filed_updates_def landing_updates_def request_gone_def clean_update_def clean_word_def id_of_def
      attestationRef_def AttestationRefs_def filed_request_def requestPrefix_def LandingRef_def LandingPrefix_def target_name_def
      trim_prefix_def memoRef_def outcomePrefix_def)

lemma refs_apart:
  "LandingRef (target_name filed_request) (rt_head filed_request) \<notin> dom filed_refs" "memoRef filed_request \<notin> dom filed_refs"
  "attestationRef ''e'' ''k'' \<notin> dom filed_refs"
  by (simp_all add: filed_refs_def LandingRef_def LandingPrefix_def memoRef_def outcomePrefix_def attestationRef_def AttestationRefs_def
      requestPrefix_def)

lemma refs_here: "filed_refs (rt_target filed_request) = Some (id_of (CHR ''b''))" "filed_refs (rt_ref filed_request) = Some (rt_head filed_request)"
  by (simp_all add: filed_refs_def filed_request_def requestPrefix_def)

lemma ids_zero: "list_all (\<lambda>c. c = CHR ''0'') (id_of d) \<longleftrightarrow> d = CHR ''0''"
  by (simp add: id_of_def list_all_iff)

lemma updates_held: "list_all (held filed_refs) filed_updates"
proof -
  have "rt_head filed_request = id_of (CHR ''c'')" by (simp add: filed_request_def)
  then show ?thesis
    using refs_apart refs_here by (simp add: filed_updates_def landing_updates_def request_gone_def held_def ids_zero domIff)
qed

lemma filed_git: "update_ref_ok filed_moment" "prints_ids filed_moment"
proof -
  show "update_ref_ok filed_moment"
    unfolding update_ref_ok_def filed_moment_def moment.simps repo.simps
    using transaction_text_inj [OF _ updates_clean] updates_held by (auto split: if_splits)
  have "trim_space (id_of (CHR ''d'')) \<noteq> []"
    by (simp add: id_of_def trim_space_def chunks_ascii byte_val_def space_chunk_ascii eval_nat_numeral trim_right_list_def)
  then show "prints_ids filed_moment" by (simp add: prints_ids_def filed_moment_def)
qed

definition filed_change :: Change where
  "filed_change =
     \<lparr>ch_ID = ''x'', ch_Target = ''refs/heads/main'', ch_Base = [], ch_Head = id_of (CHR ''c''), ch_Attested = ''e'',
      ch_Evidence = Map.empty, ch_Landed = Map.empty\<rparr>"

definition filed_snapshot :: Snapshot where
  "filed_snapshot =
     \<lparr>sn_Apply = \<lparr>ap_Clean = True, ap_Conflict = [], ap_Tree = ''e''\<rparr>, sn_Required = [], sn_Closures = Map.empty,
      sn_ClosureErrors = Map.empty, sn_Touched = Map.empty, sn_Now = 0\<rparr>"

definition filed_landing :: landing where
  "filed_landing = \<lparr>lg_commit = id_of (CHR ''a''), lg_digest = ''e'', lg_notes = Map.empty, lg_direct = Map.empty\<rparr>"

definition filed_env :: pass_env where
  "filed_env =
     \<lparr>pe_clock = \<lparr>ck_now = 0, ck_text = [], ck_parse = (\<lambda>_. None)\<rparr>, pe_inputs = ''i'', pe_inputsRead = True,
      pe_sign = (\<lambda>_. None), pe_keyHash = ''k''\<rparr>"

definition filed_path :: string where
  "filed_path = ''transfer.d/aa/aa/'' @ replicate 36 (CHR ''a'') @ ''.note''"

definition filed_evidence :: landedEvidence where
  "filed_evidence = [(attestationRef ''e'' ''k'', [(filed_path, id_of (CHR ''d''))])]"

lemma filed_space: "trim_space (id_of (CHR ''d'')) = id_of (CHR ''d'')" "trim_space (id_of (CHR ''c'')) = id_of (CHR ''c'')"
  "trim_space (id_of (CHR ''d'') @ '' blob 5'') = id_of (CHR ''d'') @ '' blob 5''"
  by (simp_all add: id_of_def trim_space_def chunks_ascii byte_val_def space_chunk_ascii eval_nat_numeral trim_right_list_def)

lemma filed_fields: "go_fields (id_of (CHR ''c'')) = [id_of (CHR ''c'')]"
  "go_fields (id_of (CHR ''d'') @ '' blob 5'') = [id_of (CHR ''d''), ''blob'', ''5'']"
  by (simp_all add: id_of_def go_fields_def chunks_ascii byte_val_def space_chunk_ascii eval_nat_numeral)

lemma filed_decided: "vd_Outcome (Decide filed_change filed_snapshot) = Land" "vd_Checks (Decide filed_change filed_snapshot) = []"
  by (simp_all add: Decide_def filed_change_def filed_snapshot_def Let_def)

lemma filed_id: "RequestID (rt_change filed_request) = None"
  by (simp add: filed_request_def RequestID_def RequestPrefix_def cut_prefix_def)

lemma filed_none: "recordRefusal (repo.truncate filed_moment) filed_request no_records tip = Inr None"
  "mergeRefusal (repo.truncate filed_moment) filed_request tip = Inr None"
  using filed_id filed_space(2) filed_fields(1)
  by (auto simp: recordRefusal_def own_refusal_def introduced_def filed_moment_def repo.truncate_def no_records_def filed_request_def
      mergeRefusal_def trim_space_def trim_right_list_def)

lemma filed_records: "readRecords (repo.truncate filed_moment) = Inr no_records"
proof -
  have "record_refs [] = []" by (simp add: record_refs_def trim_space_def trim_right_list_def map_filter_simps cut_byte_def)
  then show ?thesis
    by (simp add: readRecords_def read_listed_def records_def filed_moment_def repo.truncate_def Let_def)
qed

lemma filed_countersigned:
  "countersign filed_moment sign ''k'' filed_change (Decide filed_change filed_snapshot) filed_landing t = Some filed_evidence"
  using filed_decided(2) filed_space(1)
  by (simp add: countersign_def Let_def TransferPath_def filed_landing_def filed_change_def filed_moment_def writeBlob_def
      filed_evidence_def add_note_def filed_path_def id_of_def TransferDir_def eval_nat_numeral)

lemma writeTree_const: "trim_space w = w \<Longrightarrow> writeTree (\<lambda>_. Some w) bs = Some w"
proof (induction "\<lambda>_ :: string. Some w" bs rule: writeTree.induct)
  case (1 blobs)
  have "map_result (\<lambda>dir. case writeTree (\<lambda>_. Some w) (paths_under dir blobs) of None \<Rightarrow> Inl () | Some oid \<Rightarrow> Inr (dir, oid)) ds =
      Inr (map (\<lambda>dir. (dir, w)) ds)" if "set ds \<subseteq> set (dirs_under blobs)" for ds
    using that
  proof (induction ds)
    case (Cons d ds)
    then have "writeTree (\<lambda>_. Some w) (paths_under d blobs) = Some w" using 1 by simp
    with Cons show ?case by simp
  qed simp
  from this [of "dirs_under blobs"] show ?case using 1(2) by (subst writeTree.simps) simp
qed

lemma filed_segments: "split_byte (CHR ''/'') filed_path = [''transfer.d'', ''aa'', ''aa'', replicate 36 (CHR ''a'') @ ''.note'']"
  by (simp add: filed_path_def split_byte_notin)

lemma filed_entries:
  "add_path [] [''transfer.d'', ''aa'', ''aa'', f] [] =
     [([], [(''transfer.d'', True)]), (''transfer.d'', [(''aa'', True)]), (''transfer.d/aa'', [(''aa'', True)]),
      (''transfer.d/aa/aa'', [(f, False)])]"
  by (simp add: trim_prefix_def)

lemma filed_readable: "hookReadable [(filed_path, id_of (CHR ''d''))] [id_of (CHR ''d'') \<mapsto> 5] 20 = Inr ()"
proof -
  have "sort [[], ''transfer.d'', ''transfer.d/aa'', ''transfer.d/aa/aa''] = [[], ''transfer.d'', ''transfer.d/aa'', ''transfer.d/aa/aa'']"
    by (rule sort_key_id_if_sorted) simp
  then show ?thesis
    by (simp add: hookReadable_def filed_segments filed_entries size_at_def attestationBudget_def tree_bytes_def)
qed

definition filed_transaction :: transaction where
  "filed_transaction =
     \<lparr>tx_updates = filed_updates, tx_evidence = [attestationRef ''e'' ''k''],
      tx_landing = LandingRef (target_name filed_request) (rt_head filed_request), tx_requestNow = []\<rparr>"

lemma filed_git_values [simp]:
  "mo_mktree filed_moment = (\<lambda>_. Some (id_of (CHR ''d'')))" "mo_hash filed_moment = (\<lambda>_. Some (id_of (CHR ''d'')))"
  "mo_date filed_moment = (\<lambda>_. Some [])" "mo_commit filed_moment = (\<lambda>_ _ _. Some (id_of (CHR ''d'')))"
  "mo_sizes filed_moment = (\<lambda>_. Some (id_of (CHR ''d'') @ '' blob 5''))"
  "rp_resolve filed_moment = (\<lambda>ref. Some (filed_refs ref))" "mo_refs filed_moment = filed_refs"
  "mo_apply filed_moment (transaction_text filed_updates) = Some (moved filed_updates filed_refs)"
  by (simp_all add: filed_moment_def)

lemma filed_refs_values: "filed_refs (LandingRef (target_name filed_request) (rt_head filed_request)) = None"
  "filed_refs (memoRef filed_request) = None" "filed_refs (attestationRef ''e'' ''k'') = None"
  using refs_apart by (simp_all add: domIff)

lemma filed_zero: "replicate 40 (CHR ''0'') = id_of (CHR ''0'')" "length (id_of d) = 40"
  by (simp_all add: id_of_def)

lemma filed_sizes: "blobSizes filed_moment [(p, id_of (CHR ''d''))] = Some [id_of (CHR ''d'') \<mapsto> 5]"
proof -
  have "split_byte (CHR 0x0A) (id_of (CHR ''d'') @ '' blob 5'') = [id_of (CHR ''d'') @ '' blob 5'']"
    by (rule split_byte_notin) (simp add: id_of_def)
  moreover have "go_atoi ''5'' = Some 5" by (simp add: go_atoi_def has_prefix_def decimal_def digit_val_def byte_val_def is_digit_def)
  ultimately show ?thesis
    using filed_space(3) filed_fields(2) by (simp add: blobSizes_def Let_def)
qed

lemma filed_update:
  "evidence_update filed_moment (id_of (CHR ''0'')) (attestationRef ''e'' ''k'', [(filed_path, id_of (CHR ''d''))]) =
     Inr \<lparr>ru_ref = attestationRef ''e'' ''k'', ru_new = id_of (CHR ''d''), ru_old = id_of (CHR ''0'')\<rparr>"
  using filed_readable writeTree_const [OF filed_space(1)]
  by (simp add: evidence_update_def Let_def filed_refs_values filed_sizes or_error_def filed_zero)

lemma filed_prepared:
  "prepareLanding filed_moment (rt_target filed_request) filed_request (id_of (CHR ''b'')) (id_of (CHR ''a'')) filed_evidence memo =
     Inr filed_transaction"
proof -
  have "evidenceUpdates filed_moment filed_evidence (id_of (CHR ''0'')) =
      Inr [\<lparr>ru_ref = attestationRef ''e'' ''k'', ru_new = id_of (CHR ''d''), ru_old = id_of (CHR ''0'')\<rparr>]"
    using filed_update by (simp add: evidenceUpdates_def filed_evidence_def)
  moreover have "landingRecord filed_moment filed_request c = Some (id_of (CHR ''d''))" for c
    using writeTree_const [OF filed_space(1)] filed_space(1) by (simp add: landingRecord_def writeBlob_def)
  moreover have "writeBlob filed_moment c = Some (id_of (CHR ''d''))" for c
    using filed_space(1) by (simp add: writeBlob_def)
  ultimately show ?thesis
    using refs_here
    by (simp add: prepareLanding_def Let_def filed_zero read_ref_def or_error_def filed_refs_values filed_transaction_def
        filed_updates_def landing_updates_def request_gone_def)
qed

lemma filed_landed:
  "land (\<lambda>_. filed_moment) sign ''k'' (Some t) filed_change (Decide filed_change filed_snapshot) filed_request (id_of (CHR ''b''))
     filed_landing memo = Inr (LandDone 1 filed_transaction (moved filed_updates filed_refs))"
proof -
  have "land_loop (\<lambda>_. filed_moment) (rt_target filed_request) filed_request (id_of (CHR ''b'')) (id_of (CHR ''a'')) filed_evidence memo 1 =
      Inr (1, filed_transaction, moved filed_updates filed_refs)"
  proof -
    have "apply_updates filed_moment (tx_updates filed_transaction) = Some (moved filed_updates filed_refs)"
      by (simp add: apply_updates_def filed_transaction_def)
    then show ?thesis using filed_prepared by (subst land_loop.simps) simp
  qed
  moreover have "ch_Target filed_change = rt_target filed_request" "lg_commit filed_landing = id_of (CHR ''a'')"
    by (simp_all add: filed_change_def filed_request_def filed_landing_def)
  ultimately show ?thesis
    using filed_countersigned filed_none(1) filed_records by (simp add: land_def finalRefusal_def)
qed

lemma filed_handled:
  "handle filed_moment (\<lambda>_. filed_moment) filed_env (Some (filed_change, filed_snapshot, filed_landing)) (\<lambda>_. Some ''t'')
     filed_request no_records = LandedBy 1 filed_transaction (moved filed_updates filed_refs)"
proof -
  obtain evidence where ev: "evidenceState (repo.truncate filed_moment) = Some evidence"
    by (simp add: evidenceState_def filed_moment_def repo.truncate_def Let_def)
  have memo: "readMemo filed_moment filed_request = Some []" by (simp add: readMemo_def filed_refs_values)
  have "\<not> answered ck [] memo a b" if "memo \<noteq> []" for ck memo a b
    using that by (simp add: answered_def cut_prefix_def)
  moreover have "join_str '' '' [rt_head filed_request, id_of (CHR ''b''), evidence] \<noteq> []" by simp
  ultimately have "\<not> answered ck [] (join_str '' '' [rt_head filed_request, id_of (CHR ''b''), evidence]) a b" for ck a b
    by blast
  moreover have "refuse (repo.truncate filed_moment) filed_request no_records tip = Inr []" for tip
    using filed_none by (simp add: refuse_none)
  moreover have "act (\<lambda>_. filed_moment) filed_env (Some (filed_change, filed_snapshot, filed_landing)) (\<lambda>_. Some ''t'')
      filed_request (id_of (CHR ''b'')) m = Inr (''land'', Some (1, filed_transaction, moved filed_updates filed_refs))" for m
    using filed_landed filed_decided(1) by (simp add: act_def Let_def filed_env_def)
  ultimately show ?thesis
    using ev memo refs_here by (simp add: handle_def Let_def filed_env_def)
qed


end
