(* ===== verification/Spec2Isabelle.thy ===== *)
theory Spec2Isabelle
  imports Prelude GoBytes GoText GoJson Regex Sha256 Codec Delta Glob Composed Derive Verdict
    KnotModel KnotValidate KnotCanon KnotRound
    GoTime KnotLayout Cycles KnotGraph KnownHash KnotSample KnotHistory KnotView KnotWitness
    KnotCommit Patterns Wire Sha512 Base64 Keys KeyVerify SshSig Allowed SignerLines Lookup
    SigVerify GitTag SigWitness Note NoteRound
    ChangeId ChangeJson JsonRound ChangeRecord RecordRound HookRepo HookReads HookRecord RecordHistory
    ChangeReport ReportRound RefPatterns HookPolicy HookDecision HookHistory HookPush HookWitness
    Landing SignerProjects Telemetry HookShell JsonSize JsonMore RebaseOrigin RebaseRecord RebaseHistory
    WrittenCommit RestackWrite RestackPlan IntegratorRecords IntegratorPass IntegratorWitness
begin

text \<open>
  A verification development of the valley: a forge whose changes land only with evidence. The
  program is a set of Go commands around git repositories. People and controllers sign what they
  say with ssh keys or notes; changes, restack reports and the plan graph are objects at refs; a
  login shell and a pre-receive hook decide who may write which ref; the deriver says which checks
  a change needs; the integrator judges it by the evidence kept for its trees; and the rebase
  engine moves changes onto the branch they target. Modelled here is the logic of these parts: the
  readers and writers of their formats, the rules they hold objects to, and their decisions, with
  every refusal a branch. What is at their edges is a parameter.

  Conventions. A Go string or byte slice is a list of bytes (\<^verbatim>\<open>char\<close>); a value and an error are
  \<^verbatim>\<open>Inr\<close> and \<^verbatim>\<open>Inl\<close>, an error a constructor that stands for its sentence; a panic is an error of
  its own where the code can reach one; a map is a function to options where it is only looked up,
  and an association list where it is iterated. Words of the hash functions and of the ssh wire
  format keep their widths; other numbers are integers with the code's bounds written out.

  Shared ground. \<^verbatim>\<open>Prelude\<close> has results, loops that stop at the first error, sorting and
  association lists. \<^verbatim>\<open>GoBytes\<close>, \<^verbatim>\<open>GoText\<close>, \<^verbatim>\<open>GoJson\<close>, \<^verbatim>\<open>GoTime\<close>, \<^verbatim>\<open>Regex\<close>, \<^verbatim>\<open>Base64\<close>,
  \<^verbatim>\<open>Sha256\<close> and \<^verbatim>\<open>Sha512\<close> model what the source uses of Go's library: strings, UTF-8, JSON strings,
  times, regular expressions by derivatives, base64, and the hash functions computed. \<^verbatim>\<open>Codec\<close> is
  the contract of a format as two locales: a reader that accepts only what its writer writes, and
  a reader and writer inverse on the valid values; deltas, knots, keys, strict base64 and landing
  records interpret it.

  Evidence and verdicts.
  \<^item> \<^verbatim>\<open>Delta\<close> (\<^verbatim>\<open>delta/delta.go\<close>): the encoding of what a change does to a tree. It accepts exactly
    the encodings of deltas some pair of trees could give.
  \<^item> \<^verbatim>\<open>Glob\<close>, \<^verbatim>\<open>Composed\<close>, \<^verbatim>\<open>Derive\<close> (\<^verbatim>\<open>derive/\<close>, \<^verbatim>\<open>composed/model.go\<close>): the memoised matcher against
    the reading of a glob, the composed policy, and which checks a set of paths requires.
  \<^item> \<^verbatim>\<open>Verdict\<close> (\<^verbatim>\<open>integrator/verdict\<close>): whether a change lands, is rejected or is stale, check by
    check, and that a stale change lands once the missing evidence is there.
  \<^item> \<^verbatim>\<open>Landing\<close> (\<^verbatim>\<open>change/landing.go\<close>, \<^verbatim>\<open>change/evidence.go\<close>), \<^verbatim>\<open>SignerProjects\<close>
    (\<^verbatim>\<open>note/signerprojects.go\<close>): what a landing records, the note each check is judged by, and in
    which projects a signer counts.

  The plan graph.
  \<^item> \<^verbatim>\<open>KnotModel\<close>, \<^verbatim>\<open>KnotValidate\<close>, \<^verbatim>\<open>KnotCanon\<close>, \<^verbatim>\<open>KnotRound\<close> (\<^verbatim>\<open>knot/model.go\<close>, \<^verbatim>\<open>id.go\<close>,
    \<^verbatim>\<open>validate.go\<close>, \<^verbatim>\<open>canon.go\<close>): knots and comments, their rules, and their one canonical file.
  \<^item> \<^verbatim>\<open>KnotLayout\<close>, \<^verbatim>\<open>Cycles\<close>, \<^verbatim>\<open>KnotGraph\<close> (\<^verbatim>\<open>knot/graph.go\<close>): a tree as an index, the walk that
    looks for cycles through a cache (the locale \<^verbatim>\<open>cached_reader\<close>, interpreted on the graph's two
    walks), and the check of a whole graph and of a push. The walk's fuel is one more than the
    number of knots; a path with no knot twice is no longer, so the check always ends.
  \<^item> \<^verbatim>\<open>KnotHistory\<close>: the graphs that accepted pushes reach stay valid, and lose nothing and nobody's
    name. \<^verbatim>\<open>KnotView\<close> (\<^verbatim>\<open>knot/derive.go\<close>): what waits on what, and that among the
    local IDs something can always be done (references into other projects are not followed). \<^verbatim>\<open>KnotCommit\<close> (\<^verbatim>\<open>knot/commit.go\<close>): the graph's commits. \<^verbatim>\<open>KnotSample\<close>, \<^verbatim>\<open>KnownHash\<close> and
    \<^verbatim>\<open>KnotWitness\<close> apply the theorems to a sample graph.

  Signatures.
  \<^item> \<^verbatim>\<open>Wire\<close>, \<^verbatim>\<open>Keys\<close>, \<^verbatim>\<open>KeyVerify\<close>, \<^verbatim>\<open>SshSig\<close> (\<^verbatim>\<open>sigverify/\<close>): the ssh wire format, public keys, signatures
    by each kind of key, security keys included, and the signature file. The primitives (Ed25519,
    ECDSA, RSA and the curve check) are parameters.
  \<^item> \<^verbatim>\<open>Patterns\<close>, \<^verbatim>\<open>Allowed\<close>, \<^verbatim>\<open>SignerLines\<close>, \<^verbatim>\<open>Lookup\<close>, \<^verbatim>\<open>SigVerify\<close>, \<^verbatim>\<open>GitTag\<close>: the allowed
    signers file, which lines let a key sign, when a signature is accepted and when a tag is.
    \<^verbatim>\<open>SigWitness\<close> has the concrete inputs.
  \<^item> \<^verbatim>\<open>Note\<close>, \<^verbatim>\<open>NoteRound\<close> (\<^verbatim>\<open>note/note.go\<close>): signed notes, when one opens, and that a signed one does.

  Changes.
  \<^item> \<^verbatim>\<open>ChangeId\<close>, \<^verbatim>\<open>ChangeJson\<close>, \<^verbatim>\<open>JsonRound\<close>, \<^verbatim>\<open>ChangeRecord\<close>, \<^verbatim>\<open>RecordRound\<close>, \<^verbatim>\<open>ChangeReport\<close>,
    \<^verbatim>\<open>ReportRound\<close>, \<^verbatim>\<open>JsonSize\<close>, \<^verbatim>\<open>JsonMore\<close> (\<^verbatim>\<open>change/\<close>): IDs and handles, the strict JSON reader (its
    recursion shrinks the input, its depth is bounded by eight), records and restack reports, their
    rules, what is read back of what is written, and that white space after a value changes nothing.

  The push boundary.
  \<^item> \<^verbatim>\<open>HookShell\<close> (\<^verbatim>\<open>valleyhook/shell.go\<close>) over \<^verbatim>\<open>Telemetry\<close> (\<^verbatim>\<open>telemetry/protocol.go\<close>): the login
    shell. Whose key authenticated, the environment \<^verbatim>\<open>git-shell\<close> gets, when a push may run, and what
    reaches the telemetry collector; the command grammar and its inverse; and the text a reader of
    logs is shown.
  \<^item> \<^verbatim>\<open>HookRepo\<close>, \<^verbatim>\<open>HookRecord\<close>, \<^verbatim>\<open>RefPatterns\<close>, \<^verbatim>\<open>HookPolicy\<close>, \<^verbatim>\<open>HookDecision\<close>, \<^verbatim>\<open>HookPush\<close>
    (\<^verbatim>\<open>valleyhook/\<close>): the bounded reading of pushed objects, the table of a record's transitions,
    declared patterns, the decision about one write as the code orders it and as the conjunction
    of each namespace's rule, and the hook over a whole push. \<^verbatim>\<open>HookReads\<close> has the walk of a pushed
    attestation with what it asks of git, and bounds that whether or not the walk succeeds.
  \<^item> \<^verbatim>\<open>RecordHistory\<close>, \<^verbatim>\<open>HookHistory\<close>: record refs, attestation refs and the plan graph's ref as
    state machines, whose steps are admitted writes, with their invariants. A record's history has
    creations, updates and deletions; its identity and owner are those of its life since it was
    last created. \<^verbatim>\<open>HookWitness\<close> has sample histories.

  The rebase engine.
  \<^item> \<^verbatim>\<open>RebaseOrigin\<close>, \<^verbatim>\<open>RebaseRecord\<close> (\<^verbatim>\<open>rebase/\<close>): listings of origin, outcomes, whether a report is
    current, and how a version is added to a record.
  \<^item> \<^verbatim>\<open>WrittenCommit\<close>, \<^verbatim>\<open>RestackWrite\<close>: the version the engine builds is one the hook's whole decision
    allows. The objects git writes for the engine are the ones git documents (\<^verbatim>\<open>git_writes\<close>, with
    author, committer and what git adds in at most 3 KiB); the hook reads the same object store
    (\<^verbatim>\<open>hook_sees\<close>), and that it finds them within its bounds is proved from the engine's.
  \<^item> \<^verbatim>\<open>RebaseHistory\<close> (\<^verbatim>\<open>rebase/history.go\<close>): main's history in memory, with sets of commits as words
    of 64 bits; its cached walk answers ancestry. The walk ends, as each step marks a new place.
  \<^item> \<^verbatim>\<open>RestackPlan\<close> (\<^verbatim>\<open>restack/plan.go\<close>): the requests related to a family, which outcomes release it,
    and the restacker's limits; a record within them is one the engine can still extend.

  The integrator.
  \<^item> \<^verbatim>\<open>IntegratorRecords\<close> (\<^verbatim>\<open>integrator/records.go\<close>): reading every record within the hook's bounds, the
    index by heads, the requests that drafts and withdrawn changes refuse, merges, and voiding.
  \<^item> \<^verbatim>\<open>IntegratorPass\<close> (\<^verbatim>\<open>integrator/refs.go\<close>, \<^verbatim>\<open>inputs.go\<close>, \<^verbatim>\<open>transfer.go\<close>): one request through a pass,
    the evidence a landing stores, and its ref transaction. Git is read at a sequence of moments,
    between which any other program may have written: what a pass reads first, the last reading of
    the records, and each of at most three tries (\<^verbatim>\<open>landingTries\<close>). \<^verbatim>\<open>update_ref_ok\<close> is what git
    documents of \<^verbatim>\<open>update-ref --stdin\<close>. What \<^verbatim>\<open>materialize\<close> gathers for the verdict and the composed
    transfer statement are parameters. \<^verbatim>\<open>IntegratorWitness\<close> lands a sample request.

  Parameters: the signature primitives; git's object store, as functions from IDs to objects, and
  what git commands answer; the files of a host; the decoder of declared policy
  (\<^verbatim>\<open>exactjson\<close>, by reflection); the further hook a push may run; the collector behind its socket;
  the local time zone, case tables beyond ASCII, and random bytes. The hook's deadline and the
  byte budget its readers share appear as a flag of a reading and as bounds of one walk.

  Not modelled: running git, cue, nix, ssh and other processes; flags, terminals and the wording of
  errors; the integrator's daemon, what it materializes, its bus and its timing; the restacker's
  daemon, its locks and journals; the rebase engine's snapshots and families, which are mostly
  questions to git; the attestation
  runner; the identity registry's compilation and rendering; reviews and read access; the check
  worker and the person-facing commands of \<^verbatim>\<open>status\<close>; the telemetry store; the web server, export
  and Markdown renderer; the shell script, nix modules and cue schemas. Much of it is input and
  output, where a model would be of git or of a file system rather than of the program.
\<close>

end
